(* ===== verification/Prelude.thy ===== *)
theory Prelude
  imports Complex_Main "HOL-Library.Char_ord" "HOL-Library.List_Lexorder" "HOL-Library.Multiset"
begin

text \<open>
  Shared ground of the development: the theorem collections the component theories extend,
  the result conventions, Go's map type as the code iterates it, and generic facts about
  lists and stable sorting that several components use.
\<close>

section \<open>Collections\<close>

named_theorems go_eval \<open>equations that evaluate the model of Go's standard library\<close>
named_theorems engine_defs \<open>unfoldings of the engine's small helper functions\<close>

section \<open>Go values\<close>

text \<open>
  A Go map that is only read by key is a partial function. A Go map the code ranges over is
  an association list with distinct keys: the list is the (unspecified) order in which the
  run-time system happens to iterate.
\<close>

type_synonym ('k, 'v) gomap = "('k \<times> 'v) list"

definition gomap_ok :: "('k, 'v) gomap \<Rightarrow> bool" where
  "gomap_ok m \<longleftrightarrow> distinct (map fst m)"

text \<open>A Go map used as a set (\<^verbatim>\<open>map[K]bool\<close> that only ever stores \<open>true\<close>).\<close>

type_synonym 'k boolmap = "'k \<Rightarrow> bool"

abbreviation no_keys :: "'k boolmap" where
  "no_keys \<equiv> (\<lambda>_. False)"

section \<open>Lists\<close>

text \<open>First match of a loop that returns from its body.\<close>

fun first_match :: "('a \<Rightarrow> bool) \<Rightarrow> 'a list \<Rightarrow> 'a option" where
  "first_match P [] = None"
| "first_match P (x # xs) = (if P x then Some x else first_match P xs)"

lemma first_match_None [simp]: "first_match P xs = None \<longleftrightarrow> (\<forall>x\<in>set xs. \<not> P x)"
  by (induction xs) auto

lemma first_match_SomeD: "first_match P xs = Some x \<Longrightarrow> x \<in> set xs \<and> P x"
  by (induction xs) (auto split: if_splits)

lemma first_match_append:
  "first_match P (xs @ ys) = (case first_match P xs of None \<Rightarrow> first_match P ys | Some x \<Rightarrow> Some x)"
  by (induction xs) auto

lemma first_match_filter:
  "first_match P (filter Q xs) = first_match (\<lambda>x. Q x \<and> P x) xs"
  by (induction xs) auto

lemma first_match_map: "first_match P (map f xs) = map_option f (first_match (P \<circ> f) xs)"
  by (induction xs) auto

lemma first_match_cong:
  "(\<And>x. x \<in> set xs \<Longrightarrow> P x = Q x) \<Longrightarrow> first_match P xs = first_match Q xs"
  by (induction xs) auto

text \<open>First-appearance deduplication, as the code writes it with a \<open>seen\<close> map.\<close>

fun dedupe_from :: "'a boolmap \<Rightarrow> 'a list \<Rightarrow> 'a list" where
  "dedupe_from seen [] = []"
| "dedupe_from seen (x # xs) =
     (if seen x then dedupe_from seen xs else x # dedupe_from (seen(x := True)) xs)"

lemma set_dedupe_from: "set (dedupe_from seen xs) = {x \<in> set xs. \<not> seen x}"
  by (induction xs arbitrary: seen) auto

lemma distinct_dedupe_from: "distinct (dedupe_from seen xs)"
  by (induction xs arbitrary: seen) (auto simp: set_dedupe_from)

lemma dedupe_from_distinct:
  "distinct xs \<Longrightarrow> \<forall>x\<in>set xs. \<not> seen x \<Longrightarrow> dedupe_from seen xs = xs"
proof (induction xs arbitrary: seen)
  case (Cons x xs)
  then have "\<forall>y\<in>set xs. \<not> (seen(x := True)) y" by auto
  with Cons show ?case by simp
qed simp

lemma dedupe_from_idem:
  "dedupe_from seen (dedupe_from seen xs) = dedupe_from seen xs"
  by (rule dedupe_from_distinct) (auto simp: distinct_dedupe_from set_dedupe_from)

end
