(* ===== verification/Go_Strings.thy ===== *)
theory Go_Strings
  imports Prelude
begin

text \<open>
  The part of Go's \<^verbatim>\<open>strings\<close>, \<^verbatim>\<open>strconv\<close>, \<^verbatim>\<open>unicode\<close> and \<^verbatim>\<open>unicode/utf8\<close> packages that the
  engine calls. A Go string is a sequence of bytes, here a list of 8-bit characters; every
  function below works on bytes, and decodes UTF-8 exactly where the library does (an invalid
  byte decodes to U+FFFD with width 1).
\<close>

section \<open>Bytes and UTF-8\<close>

definition byte :: "char \<Rightarrow> nat" where
  "byte c = of_char c"

lemma byte_less_256 [simp]: "byte c < 256"
   by (simp add: byte_def)

lemma byte_inj [simp]: "byte c = byte d \<longleftrightarrow> c = d"
  by (simp add: byte_def)

lemma byte_char_of [simp]: "n < 256 \<Longrightarrow> byte (char_of n) = n"
  by (simp add: byte_def of_char_of)

definition rune_error :: nat where
  "rune_error = 65533"

definition is_cont :: "char \<Rightarrow> bool" where
  "is_cont c \<longleftrightarrow> 128 \<le> byte c \<and> byte c \<le> 191"

text \<open>
  \<open>decode_rune s\<close> is \<^verbatim>\<open>utf8.DecodeRuneInString\<close>: the rune and its width in bytes. The
  admissible range of the second byte depends on the first (no overlong forms, no
  surrogates, nothing above U+10FFFF).
\<close>

definition second_ok :: "nat \<Rightarrow> nat \<Rightarrow> bool" where
  "second_ok b0 b1 \<longleftrightarrow>
     (if b0 = 224 then 160 else if b0 = 240 then 144 else 128) \<le> b1 \<and>
     b1 \<le> (if b0 = 237 then 159 else if b0 = 244 then 143 else 191)"

fun decode_rune :: "string \<Rightarrow> nat \<times> nat" where
  "decode_rune [] = (rune_error, 0)"
| "decode_rune (c0 # cs) =
     (let b0 = byte c0 in
      if b0 < 128 then (b0, 1)
      else if 194 \<le> b0 \<and> b0 \<le> 223 then
        (case cs of
           c1 # _ \<Rightarrow> if second_ok b0 (byte c1) then ((b0 - 192) * 64 + (byte c1 - 128), 2)
                    else (rune_error, 1)
         | _ \<Rightarrow> (rune_error, 1))
      else if 224 \<le> b0 \<and> b0 \<le> 239 then
        (case cs of
           c1 # c2 # _ \<Rightarrow>
             if second_ok b0 (byte c1) \<and> is_cont c2
             then ((b0 - 224) * 4096 + (byte c1 - 128) * 64 + (byte c2 - 128), 3)
             else (rune_error, 1)
         | _ \<Rightarrow> (rune_error, 1))
      else if 240 \<le> b0 \<and> b0 \<le> 244 then
        (case cs of
           c1 # c2 # c3 # _ \<Rightarrow>
             if second_ok b0 (byte c1) \<and> is_cont c2 \<and> is_cont c3
             then ((b0 - 240) * 262144 + (byte c1 - 128) * 4096 + (byte c2 - 128) * 64
                   + (byte c3 - 128), 4)
             else (rune_error, 1)
         | _ \<Rightarrow> (rune_error, 1))
      else (rune_error, 1))"

declare decode_rune.simps(2) [simp del]

lemma decode_rune_ascii [simp]: "byte c < 128 \<Longrightarrow> decode_rune (c # cs) = (byte c, 1)"
  by (simp add: decode_rune.simps)

text \<open>The runes of a string: \<^verbatim>\<open>[]rune(s)\<close>, whose length is \<^verbatim>\<open>utf8.RuneCountInString\<close>.\<close>

fun runes :: "string \<Rightarrow> nat list" where
  "runes [] = []"
| "runes (c # cs) =
     (let d = decode_rune (c # cs) in fst d # runes (drop (snd d - 1) cs))"

definition rune_count :: "string \<Rightarrow> nat" where
  "rune_count s = length (runes s)"

definition encode_rune :: "nat \<Rightarrow> string" where
  "encode_rune r =
     (if r < 128 then [char_of r]
      else if r < 2048 then [char_of (192 + r div 64), char_of (128 + r mod 64)]
      else if (55296 \<le> r \<and> r < 57344) \<or> 1114111 < r
        then [CHR 0xEF, CHR 0xBF, CHR 0xBD]
      else if r < 65536
        then [char_of (224 + r div 4096), char_of (128 + r div 64 mod 64), char_of (128 + r mod 64)]
      else [char_of (240 + r div 262144), char_of (128 + r div 4096 mod 64),
            char_of (128 + r div 64 mod 64), char_of (128 + r mod 64)])"

definition is_ascii :: "string \<Rightarrow> bool" where
  "is_ascii s \<longleftrightarrow> (\<forall>c\<in>set s. byte c < 128)"

lemma runes_ascii: "is_ascii s \<Longrightarrow> runes s = map byte s"
  by (induction s) (auto simp: is_ascii_def Let_def)

lemma rune_count_ascii: "is_ascii s \<Longrightarrow> rune_count s = length s"
  by (simp add: rune_count_def runes_ascii)

lemma length_runes_le: "length (runes s) \<le> length s"
proof (induction s rule: runes.induct)
  case (2 c cs)
  have "length (runes (drop (snd (decode_rune (c # cs)) - 1) cs))
      \<le> length (drop (snd (decode_rune (c # cs)) - 1) cs)"
    using 2 by blast
  then show ?case by (simp add: Let_def)
qed simp

section \<open>Case mapping\<close>

text \<open>
  \<open>lower_ranges\<close> is the upper-to-lower part of Go's \<^verbatim>\<open>unicode.CaseRanges\<close>: first and last code
  point, step between affected code points, and the offset to the lower-case letter.
\<close>

definition lower_ranges :: "(nat \<times> nat \<times> nat \<times> int) list" where
  "lower_ranges = [
    (65, 90, 1, 32), (192, 214, 1, 32), (216, 222, 1, 32), (256, 302, 2, 1),
    (304, 304, 1, -199), (306, 310, 2, 1), (313, 327, 2, 1), (330, 374, 2, 1),
    (376, 376, 1, -121), (377, 381, 2, 1), (385, 385, 1, 210), (386, 388, 2, 1),
    (390, 390, 1, 206), (391, 391, 1, 1), (393, 394, 1, 205), (395, 395, 1, 1),
    (398, 398, 1, 79), (399, 399, 1, 202), (400, 400, 1, 203), (401, 401, 1, 1),
    (403, 403, 1, 205), (404, 404, 1, 207), (406, 406, 1, 211), (407, 407, 1, 209),
    (408, 408, 1, 1), (412, 412, 1, 211), (413, 413, 1, 213), (415, 415, 1, 214),
    (416, 420, 2, 1), (422, 422, 1, 218), (423, 423, 1, 1), (425, 425, 1, 218),
    (428, 428, 1, 1), (430, 430, 1, 218), (431, 431, 1, 1), (433, 434, 1, 217),
    (435, 437, 2, 1), (439, 439, 1, 219), (440, 440, 1, 1), (444, 444, 1, 1), (452, 452, 1, 2),
    (453, 453, 1, 1), (455, 455, 1, 2), (456, 456, 1, 1), (458, 458, 1, 2), (459, 475, 2, 1),
    (478, 494, 2, 1), (497, 497, 1, 2), (498, 500, 2, 1), (502, 502, 1, -97),
    (503, 503, 1, -56), (504, 542, 2, 1), (544, 544, 1, -130), (546, 562, 2, 1),
    (570, 570, 1, 10795), (571, 571, 1, 1), (573, 573, 1, -163), (574, 574, 1, 10792),
    (577, 577, 1, 1), (579, 579, 1, -195), (580, 580, 1, 69), (581, 581, 1, 71),
    (582, 590, 2, 1), (880, 882, 2, 1), (886, 886, 1, 1), (895, 895, 1, 116), (902, 902, 1, 38),
    (904, 906, 1, 37), (908, 908, 1, 64), (910, 911, 1, 63), (913, 929, 1, 32),
    (931, 939, 1, 32), (975, 975, 1, 8), (984, 1006, 2, 1), (1012, 1012, 1, -60),
    (1015, 1015, 1, 1), (1017, 1017, 1, -7), (1018, 1018, 1, 1), (1021, 1023, 1, -130),
    (1024, 1039, 1, 80), (1040, 1071, 1, 32), (1120, 1152, 2, 1), (1162, 1214, 2, 1),
    (1216, 1216, 1, 15), (1217, 1229, 2, 1), (1232, 1326, 2, 1), (1329, 1366, 1, 48),
    (4256, 4293, 1, 7264), (4295, 4295, 1, 7264), (4301, 4301, 1, 7264), (5024, 5103, 1, 38864),
    (5104, 5109, 1, 8), (7312, 7354, 1, -3008), (7357, 7359, 1, -3008), (7680, 7828, 2, 1),
    (7838, 7838, 1, -7615), (7840, 7934, 2, 1), (7944, 7951, 1, -8), (7960, 7965, 1, -8),
    (7976, 7983, 1, -8), (7992, 7999, 1, -8), (8008, 8013, 1, -8), (8025, 8031, 2, -8),
    (8040, 8047, 1, -8), (8072, 8079, 1, -8), (8088, 8095, 1, -8), (8104, 8111, 1, -8),
    (8120, 8121, 1, -8), (8122, 8123, 1, -74), (8124, 8124, 1, -9), (8136, 8139, 1, -86),
    (8140, 8140, 1, -9), (8152, 8153, 1, -8), (8154, 8155, 1, -100), (8168, 8169, 1, -8),
    (8170, 8171, 1, -112), (8172, 8172, 1, -7), (8184, 8185, 1, -128), (8186, 8187, 1, -126),
    (8188, 8188, 1, -9), (8486, 8486, 1, -7517), (8490, 8490, 1, -8383), (8491, 8491, 1, -8262),
    (8498, 8498, 1, 28), (8544, 8559, 1, 16), (8579, 8579, 1, 1), (9398, 9423, 1, 26),
    (11264, 11311, 1, 48), (11360, 11360, 1, 1), (11362, 11362, 1, -10743),
    (11363, 11363, 1, -3814), (11364, 11364, 1, -10727), (11367, 11371, 2, 1),
    (11373, 11373, 1, -10780), (11374, 11374, 1, -10749), (11375, 11375, 1, -10783),
    (11376, 11376, 1, -10782), (11378, 11378, 1, 1), (11381, 11381, 1, 1),
    (11390, 11391, 1, -10815), (11392, 11490, 2, 1), (11499, 11501, 2, 1), (11506, 11506, 1, 1),
    (42560, 42604, 2, 1), (42624, 42650, 2, 1), (42786, 42798, 2, 1), (42802, 42862, 2, 1),
    (42873, 42875, 2, 1), (42877, 42877, 1, -35332), (42878, 42886, 2, 1), (42891, 42891, 1, 1),
    (42893, 42893, 1, -42280), (42896, 42898, 2, 1), (42902, 42920, 2, 1),
    (42922, 42922, 1, -42308), (42923, 42923, 1, -42319), (42924, 42924, 1, -42315),
    (42925, 42925, 1, -42305), (42926, 42926, 1, -42308), (42928, 42928, 1, -42258),
    (42929, 42929, 1, -42282), (42930, 42930, 1, -42261), (42931, 42931, 1, 928),
    (42932, 42946, 2, 1), (42948, 42948, 1, -48), (42949, 42949, 1, -42307),
    (42950, 42950, 1, -35384), (42951, 42953, 2, 1), (42960, 42960, 1, 1), (42966, 42968, 2, 1),
    (42997, 42997, 1, 1), (65313, 65338, 1, 32), (66560, 66599, 1, 40), (66736, 66771, 1, 40),
    (66928, 66938, 1, 39), (66940, 66954, 1, 39), (66956, 66962, 1, 39), (66964, 66965, 1, 39),
    (68736, 68786, 1, 64), (71840, 71871, 1, 32), (93760, 93791, 1, 32), (125184, 125217, 1, 34)]"

fun lower_by :: "(nat \<times> nat \<times> nat \<times> int) list \<Rightarrow> nat \<Rightarrow> nat" where
  "lower_by [] r = r"
| "lower_by ((lo, hi, step, d) # rs) r =
     (if lo \<le> r \<and> r \<le> hi \<and> (r - lo) mod step = 0 then nat (int r + d) else lower_by rs r)"

definition unicode_lower :: "nat \<Rightarrow> nat" where
  "unicode_lower r = lower_by lower_ranges r"

definition ascii_lower :: "char \<Rightarrow> char" where
  "ascii_lower c = (if 65 \<le> byte c \<and> byte c \<le> 90 then char_of (byte c + 32) else c)"

text \<open>\<^verbatim>\<open>strings.ToLower\<close>: a byte-wise fast path for ASCII, rune by rune otherwise.\<close>

definition to_lower :: "string \<Rightarrow> string" where
  "to_lower s =
     (if is_ascii s then map ascii_lower s
      else concat (map (\<lambda>r. encode_rune (unicode_lower r)) (runes s)))"

section \<open>Searching and cutting\<close>

definition has_prefix :: "string \<Rightarrow> string \<Rightarrow> bool" where
  "has_prefix s p \<longleftrightarrow> take (length p) s = p"

definition has_suffix :: "string \<Rightarrow> string \<Rightarrow> bool" where
  "has_suffix s p \<longleftrightarrow> has_prefix (rev s) (rev p)"

definition trim_prefix :: "string \<Rightarrow> string \<Rightarrow> string" where
  "trim_prefix s p = (if has_prefix s p then drop (length p) s else s)"

definition cut_prefix :: "string \<Rightarrow> string \<Rightarrow> string option" where
  "cut_prefix s p = (if has_prefix s p then Some (drop (length p) s) else None)"

definition cut_suffix :: "string \<Rightarrow> string \<Rightarrow> string option" where
  "cut_suffix s p = (if has_suffix s p then Some (take (length s - length p) s) else None)"

lemma has_prefix_iff: "has_prefix s p \<longleftrightarrow> (\<exists>t. s = p @ t)"
  unfolding has_prefix_def by (metis append_eq_conv_conj append_take_drop_id)

lemma cut_prefix_Some: "cut_prefix s p = Some t \<longleftrightarrow> s = p @ t"
  by (auto simp: cut_prefix_def has_prefix_iff)

text \<open>\<^verbatim>\<open>strings.Index\<close>, with \<open>None\<close> for the result \<^verbatim>\<open>-1\<close>.\<close>

fun index_of :: "string \<Rightarrow> string \<Rightarrow> nat option" where
  "index_of [] sub = (if sub = [] then Some 0 else None)"
| "index_of (c # cs) sub =
     (if has_prefix (c # cs) sub then Some 0 else map_option Suc (index_of cs sub))"

definition contains :: "string \<Rightarrow> string \<Rightarrow> bool" where
  "contains s sub \<longleftrightarrow> index_of s sub \<noteq> None"

definition contains_any :: "string \<Rightarrow> string \<Rightarrow> bool" where
  "contains_any s chars \<longleftrightarrow> (\<exists>c\<in>set s. c \<in> set chars)"

fun split_on :: "char \<Rightarrow> string \<Rightarrow> string list" where
  "split_on sep [] = [[]]"
| "split_on sep (c # cs) =
     (if c = sep then [] # split_on sep cs
      else (case split_on sep cs of [] \<Rightarrow> [[c]] | y # ys \<Rightarrow> (c # y) # ys))"

lemma split_on_not_Nil [simp]: "split_on sep s \<noteq> []"
  by (induction s) (auto split: list.splits)

fun join_with :: "string \<Rightarrow> string list \<Rightarrow> string" where
  "join_with sep [] = []"
| "join_with sep [x] = x"
| "join_with sep (x # y # ys) = x @ sep @ join_with sep (y # ys)"

lemma join_split_on: "join_with [sep] (split_on sep s) = s"
proof (induction s)
  case (Cons c cs)
  then show ?case
    by (cases "split_on sep cs" rule: remdups_adj.cases)
       (auto split: list.splits simp: neq_Nil_conv)
qed simp

section \<open>White space\<close>

text \<open>
  Width of the white-space rune (\<^verbatim>\<open>unicode.IsSpace\<close>) that begins the byte list, 0 if there is
  none; \<open>space_width_rev\<close> reads a reversed string, for trimming at the end.
\<close>

definition ascii_space :: "nat \<Rightarrow> bool" where
  "ascii_space b \<longleftrightarrow> (9 \<le> b \<and> b \<le> 13) \<or> b = 32"

definition wide_space :: "nat \<Rightarrow> nat \<Rightarrow> nat \<Rightarrow> bool" where
  "wide_space b0 b1 b2 \<longleftrightarrow>
     (b0 = 225 \<and> b1 = 154 \<and> b2 = 128) \<or>
     (b0 = 226 \<and> b1 = 128 \<and> ((128 \<le> b2 \<and> b2 \<le> 138) \<or> b2 = 168 \<or> b2 = 169 \<or> b2 = 175)) \<or>
     (b0 = 226 \<and> b1 = 129 \<and> b2 = 159) \<or>
     (b0 = 227 \<and> b1 = 128 \<and> b2 = 128)"

fun space_width :: "string \<Rightarrow> nat" where
  "space_width [] = 0"
| "space_width (c0 # cs) =
     (if ascii_space (byte c0) then 1
      else (case cs of
              [] \<Rightarrow> 0
            | c1 # cs' \<Rightarrow>
                if byte c0 = 194 \<and> (byte c1 = 133 \<or> byte c1 = 160) then 2
                else (case cs' of
                        [] \<Rightarrow> 0
                      | c2 # _ \<Rightarrow> if wide_space (byte c0) (byte c1) (byte c2) then 3 else 0)))"

fun space_width_rev :: "string \<Rightarrow> nat" where
  "space_width_rev [] = 0"
| "space_width_rev (c0 # cs) =
     (if ascii_space (byte c0) then 1
      else (case cs of
              [] \<Rightarrow> 0
            | c1 # cs' \<Rightarrow>
                if byte c1 = 194 \<and> (byte c0 = 133 \<or> byte c0 = 160) then 2
                else (case cs' of
                        [] \<Rightarrow> 0
                      | c2 # _ \<Rightarrow> if wide_space (byte c2) (byte c1) (byte c0) then 3 else 0)))"

fun drop_spaces :: "(string \<Rightarrow> nat) \<Rightarrow> string \<Rightarrow> string" where
  "drop_spaces w [] = []"
| "drop_spaces w (c # cs) =
     (if w (c # cs) = 0 then c # cs else drop_spaces w (drop (w (c # cs) - 1) cs))"

definition trim_left_space :: "string \<Rightarrow> string" where
  "trim_left_space s = drop_spaces space_width s"

definition trim_right_space :: "string \<Rightarrow> string" where
  "trim_right_space s = rev (drop_spaces space_width_rev (rev s))"

text \<open>\<^verbatim>\<open>strings.TrimSpace\<close>.\<close>

definition trim_space :: "string \<Rightarrow> string" where
  "trim_space s = trim_right_space (trim_left_space s)"

text \<open>\<^verbatim>\<open>strings.TrimLeft\<close>, \<^verbatim>\<open>strings.TrimRight\<close> and \<^verbatim>\<open>strings.Trim\<close> with an ASCII cut set.\<close>

definition trim_left_set :: "string \<Rightarrow> string \<Rightarrow> string" where
  "trim_left_set s cutset = dropWhile (\<lambda>c. c \<in> set cutset) s"

definition trim_right_set :: "string \<Rightarrow> string \<Rightarrow> string" where
  "trim_right_set s cutset = rev (dropWhile (\<lambda>c. c \<in> set cutset) (rev s))"

definition trim_set :: "string \<Rightarrow> string \<Rightarrow> string" where
  "trim_set s cutset = trim_right_set (trim_left_set s cutset) cutset"

lemma drop_spaces_suffix: "\<exists>p. s = p @ drop_spaces w s"
proof (induction w s rule: drop_spaces.induct)
  case (2 w c cs)
  show ?case
  proof (cases "w (c # cs) = 0")
    case False
    then obtain p where p: "drop (w (c # cs) - 1) cs = p @ drop_spaces w (drop (w (c # cs) - 1) cs)"
      using 2 by blast
    have "c # cs = (c # take (w (c # cs) - 1) cs) @ drop (w (c # cs) - 1) cs" by simp
    then show ?thesis using False p by (metis append_assoc drop_spaces.simps(2))
  qed simp
qed simp

lemma drop_spaces_stop: "drop_spaces w s = [] \<or> w (drop_spaces w s) = 0"
  by (induction w s rule: drop_spaces.induct) auto

lemma drop_spaces_id: "s = [] \<or> w s = 0 \<Longrightarrow> drop_spaces w s = s"
  by (cases s) auto

lemma set_trim_space: "set (trim_space s) \<subseteq> set s"
proof -
  obtain p where "s = p @ trim_left_space s"
    using drop_spaces_suffix [of s space_width] by (auto simp: trim_left_space_def)
  moreover obtain q where "rev (trim_left_space s) = q @ drop_spaces space_width_rev (rev (trim_left_space s))"
    using drop_spaces_suffix [of "rev (trim_left_space s)" space_width_rev] by auto
  ultimately show ?thesis unfolding trim_space_def trim_right_space_def
    by (metis Un_subset_iff set_append set_rev sup_ge2 order_trans)
qed

lemma space_width_take: "space_width s = 0 \<Longrightarrow> space_width (take n s) = 0"
  by (cases s; cases n) (auto split: if_splits list.splits simp: take_Cons')

lemma trim_space_stable:
  "trim_space s = [] \<or> (space_width (trim_space s) = 0 \<and> space_width_rev (rev (trim_space s)) = 0)"
proof -
  let ?l = "trim_left_space s" and ?r = "drop_spaces space_width_rev (rev (trim_left_space s))"
  obtain q where "rev ?l = q @ ?r" using drop_spaces_suffix [of "rev ?l" space_width_rev] by blast
  then have "?l = rev ?r @ rev q" by (metis rev_append rev_rev_ident)
  then have pre: "trim_space s = take (length ?r) ?l"
    by (metis append_eq_conv_conj length_rev trim_right_space_def trim_space_def)
  show ?thesis
  proof (cases "trim_space s = []")
    case False
    then have "?l \<noteq> []" using pre by auto
    then have "space_width ?l = 0" using drop_spaces_stop [of space_width s] by (simp add: trim_left_space_def)
    then have "space_width (trim_space s) = 0" unfolding pre by (rule space_width_take)
    moreover have rev: "rev (trim_space s) = ?r" by (simp add: trim_space_def trim_right_space_def)
    moreover have "space_width_rev ?r = 0"
      using False rev drop_spaces_stop [of space_width_rev "rev ?l"] by auto
    ultimately show ?thesis by simp
  qed simp
qed

lemma trim_space_fix:
  "s = [] \<or> (space_width s = 0 \<and> space_width_rev (rev s) = 0) \<Longrightarrow> trim_space s = s"
  by (auto simp: trim_space_def trim_left_space_def trim_right_space_def drop_spaces_id)

lemma trim_space_idem [simp]: "trim_space (trim_space s) = trim_space s"
  using trim_space_stable trim_space_fix by blast

section \<open>Numbers as text\<close>

definition is_digit :: "char \<Rightarrow> bool" where
  "is_digit c \<longleftrightarrow> 48 \<le> byte c \<and> byte c \<le> 57"

definition digit_val :: "char \<Rightarrow> nat" where
  "digit_val c = byte c - 48"

text \<open>\<^verbatim>\<open>strconv.Itoa\<close> of a non-negative number.\<close>

fun itoa :: "nat \<Rightarrow> string" where
  "itoa n = (if n < 10 then [char_of (48 + n)] else itoa (n div 10) @ [char_of (48 + n mod 10)])"

declare itoa.simps [simp del]

definition digits_val :: "string \<Rightarrow> nat" where
  "digits_val s = foldl (\<lambda>a c. a * 10 + digit_val c) 0 s"

lemma digits_val_snoc: "digits_val (s @ [c]) = digits_val s * 10 + digit_val c"
  by (simp add: digits_val_def)

lemma is_digit_char_of: "n < 10 \<Longrightarrow> is_digit (char_of (48 + n)) \<and> digit_val (char_of (48 + n)) = n"
  by (simp add: is_digit_def digit_val_def)

lemma itoa_digits: "\<forall>c\<in>set (itoa n). is_digit c"
proof (induction n rule: itoa.induct)
  case (1 n)
  then show ?case
    by (cases "n < 10") (auto simp: itoa.simps [of n] is_digit_char_of)
qed

lemma itoa_not_Nil [simp]: "itoa n \<noteq> []"
  by (subst itoa.simps) simp

lemma digits_val_itoa [simp]: "digits_val (itoa n) = n"
proof (induction n rule: itoa.induct)
  case (1 n)
  show ?case
  proof (cases "n < 10")
    case True
    then show ?thesis
      by (simp add: itoa.simps [of n] digits_val_def is_digit_char_of)
  next
    case False
    then show ?thesis using 1 is_digit_char_of [of "n mod 10"]
      by (simp add: itoa.simps [of n] digits_val_snoc)
  qed
qed

lemma itoa_inj: "itoa m = itoa n \<longleftrightarrow> m = n"
  using digits_val_itoa by metis

lemma length_itoa: "length (itoa n) \<le> k \<longleftrightarrow> n < 10 ^ k \<and> 0 < k"
proof (induction n arbitrary: k rule: itoa.induct)
  case (1 n)
  show ?case
  proof (cases "n < 10")
    case True
    then have "0 < k \<Longrightarrow> n < 10 ^ k"
      by (meson less_le_trans self_le_power one_le_numeral)
    then show ?thesis using True by (auto simp: itoa.simps [of n])
  next
    case False
    then show ?thesis
    proof (cases k)
      case (Suc j)
      have "length (itoa n) \<le> k \<longleftrightarrow> length (itoa (n div 10)) \<le> j"
        using False Suc by (simp add: itoa.simps [of n])
      also have "\<dots> \<longleftrightarrow> n div 10 < 10 ^ j \<and> 0 < j" using 1 False by simp
      also have "\<dots> \<longleftrightarrow> n < 10 ^ k \<and> 0 < k" using False Suc
        by (cases j) (auto simp: div_less_iff_less_mult mult.commute)
      finally show ?thesis .
    qed simp
  qed
qed

section \<open>Quoting\<close>

text \<open>
  \<^verbatim>\<open>strconv.Quote\<close>. Whether a rune above U+00FF is printable is a table of the Unicode standard;
  it is the argument \<open>ip\<close>, and every theorem about quoting holds for any such table.
\<close>

definition is_print :: "(nat \<Rightarrow> bool) \<Rightarrow> nat \<Rightarrow> bool" where
  "is_print ip r =
     (if r \<le> 255 then (32 \<le> r \<and> r < 127) \<or> (161 \<le> r \<and> r \<noteq> 173) else ip r)"

definition hex_digit :: "nat \<Rightarrow> char" where
  "hex_digit n = (if n < 10 then char_of (48 + n) else char_of (87 + n))"

definition hex_pad :: "nat \<Rightarrow> nat \<Rightarrow> string" where
  "hex_pad w n = map (\<lambda>i. hex_digit (n div 16 ^ i mod 16)) (rev [0..<w])"

definition escape_rune :: "(nat \<Rightarrow> bool) \<Rightarrow> nat \<Rightarrow> string" where
  "escape_rune ip r =
     (if r = 34 \<or> r = 92 then [CHR 0x5C, char_of r]
      else if is_print ip r then encode_rune r
      else if r = 7 then [CHR 0x5C, CHR ''a'']
      else if r = 8 then [CHR 0x5C, CHR ''b'']
      else if r = 12 then [CHR 0x5C, CHR ''f'']
      else if r = 10 then [CHR 0x5C, CHR ''n'']
      else if r = 13 then [CHR 0x5C, CHR ''r'']
      else if r = 9 then [CHR 0x5C, CHR ''t'']
      else if r = 11 then [CHR 0x5C, CHR ''v'']
      else if r < 32 \<or> r = 127 then [CHR 0x5C, CHR ''x''] @ hex_pad 2 r
      else if r < 65536 then [CHR 0x5C, CHR ''u''] @ hex_pad 4 r
      else [CHR 0x5C, CHR ''U''] @ hex_pad 8 r)"

fun quote_body :: "(nat \<Rightarrow> bool) \<Rightarrow> string \<Rightarrow> string" where
  "quote_body ip [] = []"
| "quote_body ip (c # cs) =
     (let d = decode_rune (c # cs) in
      (if 128 \<le> byte c \<and> d = (rune_error, 1)
       then [CHR 0x5C, CHR ''x''] @ hex_pad 2 (byte c)
       else escape_rune ip (fst d)) @ quote_body ip (drop (snd d - 1) cs))"

definition quote :: "(nat \<Rightarrow> bool) \<Rightarrow> string \<Rightarrow> string" where
  "quote ip s = [CHR 0x22] @ quote_body ip s @ [CHR 0x22]"

text \<open>Printable ASCII other than the quote and the backslash is quoted unchanged.\<close>

definition plain_char :: "char \<Rightarrow> bool" where
  "plain_char c \<longleftrightarrow> 32 \<le> byte c \<and> byte c < 127 \<and> byte c \<noteq> 34 \<and> byte c \<noteq> 92"

lemma quote_body_plain: "\<forall>c\<in>set s. plain_char c \<Longrightarrow> quote_body ip s = s"
proof (induction s)
  case (Cons c cs)
  have "escape_rune ip (byte c) = [c]"
    using Cons.prems by (simp add: escape_rune_def is_print_def encode_rune_def plain_char_def)
      (simp add: byte_def)
  then show ?case using Cons by (simp add: Let_def plain_char_def)
qed simp

lemma quote_plain: "\<forall>c\<in>set s. plain_char c \<Longrightarrow> quote ip s = [CHR 0x22] @ s @ [CHR 0x22]"
  by (simp add: quote_def quote_body_plain)

end
