(* ===== verification/Go_Float.thy ===== *)
theory Go_Float
  imports Go_Strings
begin

text \<open>
  Go's \<^verbatim>\<open>float64\<close>: IEEE 754 double precision. A finite value is the rational number it denotes
  (the two zeros are one value: no operation below tells them apart), and arithmetic rounds the
  exact result to the nearest double, ties to even. \<open>parse_float\<close> is \<^verbatim>\<open>strconv.ParseFloat(s, 64)\<close>.
\<close>

section \<open>Values and rounding\<close>

datatype float64 = NaN | Inf bool | Fin rat
  \<comment> \<open>\<open>Inf True\<close> is minus infinity\<close>

fun ilog2 :: "nat \<Rightarrow> nat" where
  "ilog2 n = (if n < 2 then 0 else Suc (ilog2 (n div 2)))"

declare ilog2.simps [simp del]

text \<open>The binary exponent of a positive rational: \<open>2 powi k \<le> x < 2 powi (k + 1)\<close>.\<close>

definition floor_log2 :: "rat \<Rightarrow> int" where
  "floor_log2 x =
     (let pq = quotient_of x;
          k = int (ilog2 (nat (fst pq))) - int (ilog2 (nat (snd pq)))
      in if 2 powi k \<le> x then k else k - 1)"

definition round_half_even :: "rat \<Rightarrow> int" where
  "round_half_even y =
     (let f = \<lfloor>y\<rfloor>; d = y - of_int f
      in if d < 1 / 2 then f else if 1 / 2 < d then f + 1 else if even f then f else f + 1)"

text \<open>
  Rounding: a 53-bit significand, the exponent of the last bit at least \<open>- 1074\<close> (subnormals),
  infinity from \<open>2 ^ 1024\<close> on.
\<close>

definition round_mag :: "rat \<Rightarrow> rat" where
  "round_mag x =
     (if x = 0 then 0
      else let e = max (- 1074) (floor_log2 x - 52)
           in of_int (round_half_even (x / 2 powi e)) * 2 powi e)"

definition round_f64 :: "rat \<Rightarrow> float64" where
  "round_f64 x =
     (let m = round_mag \<bar>x\<bar>
      in if 2 ^ 1024 \<le> m then Inf (x < 0) else Fin (if x < 0 then - m else m))"

definition f64_of_int :: "int \<Rightarrow> float64" where
  "f64_of_int n = round_f64 (of_int n)"

fun f64_neg :: "float64 \<Rightarrow> float64" where
  "f64_neg NaN = NaN"
| "f64_neg (Inf s) = Inf (\<not> s)"
| "f64_neg (Fin x) = Fin (- x)"

fun f64_add :: "float64 \<Rightarrow> float64 \<Rightarrow> float64" where
  "f64_add (Fin x) (Fin y) = round_f64 (x + y)"
| "f64_add (Inf s) (Inf t) = (if s = t then Inf s else NaN)"
| "f64_add (Inf s) (Fin y) = Inf s"
| "f64_add (Fin x) (Inf t) = Inf t"
| "f64_add NaN b = NaN"
| "f64_add a NaN = NaN"

fun f64_lt :: "float64 \<Rightarrow> float64 \<Rightarrow> bool" where
  "f64_lt (Fin x) (Fin y) = (x < y)"
| "f64_lt (Inf s) (Inf t) = (s \<and> \<not> t)"
| "f64_lt (Inf s) (Fin y) = s"
| "f64_lt (Fin x) (Inf t) = (\<not> t)"
| "f64_lt NaN b = False"
| "f64_lt a NaN = False"

fun f64_eq :: "float64 \<Rightarrow> float64 \<Rightarrow> bool" where
  "f64_eq NaN b = False"
| "f64_eq a b = (a = b)"

definition f64_le :: "float64 \<Rightarrow> float64 \<Rightarrow> bool" where
  "f64_le a b \<longleftrightarrow> f64_lt a b \<or> f64_eq a b"

lemma f64_eq_sym: "f64_eq a b = f64_eq b a"
  by (cases a; cases b) auto

lemma f64_trichotomy: "a \<noteq> NaN \<Longrightarrow> b \<noteq> NaN \<Longrightarrow> f64_lt a b \<or> f64_eq a b \<or> f64_lt b a"
  by (cases a; cases b) auto

lemma f64_lt_irrefl: "\<not> f64_lt a a"
  by (cases a) auto

lemma f64_lt_not_eq: "f64_lt a b \<Longrightarrow> \<not> f64_eq a b \<and> \<not> f64_lt b a"
  by (cases a; cases b) auto

section \<open>Integers up to \<open>2 ^ 53\<close> are exact\<close>

lemma ilog2_bounds: "0 < n \<Longrightarrow> 2 ^ ilog2 n \<le> n \<and> n < 2 ^ Suc (ilog2 n)"
proof (induction n rule: ilog2.induct)
  case (1 n)
  show ?case
  proof (cases "n < 2")
    case True
    then show ?thesis using 1 by (simp add: ilog2.simps [of n])
  next
    case False
    then have "2 ^ ilog2 (n div 2) \<le> n div 2 \<and> n div 2 < 2 ^ Suc (ilog2 (n div 2))"
      using 1 by simp
    then show ?thesis using False
      by (simp add: ilog2.simps [of n]) linarith
  qed
qed

lemma round_half_even_of_int [simp]: "round_half_even (of_int z) = z"
  by (simp add: round_half_even_def)

lemma floor_log2_int:
  assumes "0 < n" "n < 2 ^ 53"
  shows "floor_log2 (of_int n) \<le> 52"
proof -
  have q: "quotient_of (of_int n :: rat) = (n, 1)" using quotient_of_int [of n] by (simp add: Rat.of_int_def)
  have "2 ^ ilog2 (nat n) \<le> nat n" using ilog2_bounds [of "nat n"] assms by simp
  also have "nat n < 2 ^ 53" using assms by (simp add: nat_less_iff)
  finally have "ilog2 (nat n) < 53" by (rule power_less_imp_less_exp [rotated]) simp
  moreover have "ilog2 1 = 0" by (simp add: ilog2.simps)
  ultimately show ?thesis by (simp add: floor_log2_def q Let_def)
qed

lemma round_mag_int:
  assumes "0 < n" "n < 2 ^ 53"
  shows "round_mag (of_int n) = of_int n"
proof -
  define e where "e = max (- 1074) (floor_log2 (of_int n) - 52)"
  have "e \<le> 0" using floor_log2_int [OF assms] by (simp add: e_def)
  then obtain k where k: "e = - int k" using nonpos_int_cases by blast
  have "of_int n / 2 powi e = (of_int (n * 2 ^ k) :: rat)"
    by (simp add: k power_int_minus divide_inverse)
  then have "round_half_even (of_int n / 2 powi e) = n * 2 ^ k"
    using round_half_even_of_int by metis
  then show ?thesis using assms
    by (simp add: round_mag_def Let_def e_def [symmetric]) (simp add: k power_int_minus)
qed

lemma f64_of_int_exact:
  assumes "\<bar>n\<bar> < 2 ^ 53"
  shows "round_f64 (of_int n) = Fin (of_int n)"
proof (cases "n = 0")
  case True
  then show ?thesis by (simp add: round_f64_def round_mag_def)
next
  case False
  have m: "round_mag (\<bar>of_int n\<bar>) = \<bar>of_int n\<bar>"
    using round_mag_int [of "\<bar>n\<bar>"] False assms by simp
  have "(of_int \<bar>n\<bar> :: rat) < of_int (2 ^ 53)" using assms by (simp only: of_int_less_iff)
  also have "\<dots> \<le> 2 ^ 1024" by simp
  finally have "\<not> (2 ^ 1024 \<le> (\<bar>of_int n\<bar> :: rat))" by simp
  then show ?thesis unfolding round_f64_def m Let_def by (simp add: abs_if)
qed

section \<open>ParseFloat\<close>

definition lower_byte :: "char \<Rightarrow> nat" where
  "lower_byte c = (if 65 \<le> byte c \<and> byte c \<le> 90 then byte c + 32 else byte c)"

definition is_hex_letter :: "char \<Rightarrow> bool" where
  "is_hex_letter c \<longleftrightarrow> 97 \<le> lower_byte c \<and> lower_byte c \<le> 102"

text \<open>State of the scan over the mantissa (\<^verbatim>\<open>readFloat\<close>'s first loop).\<close>

record mant_scan =
  sawdot :: bool
  sawdigits :: bool
  mant :: nat
  fracdigits :: nat
  underscores :: bool

definition add_digit :: "bool \<Rightarrow> nat \<Rightarrow> mant_scan \<Rightarrow> mant_scan" where
  "add_digit hex d st = st\<lparr>sawdigits := True, mant := mant st * (if hex then 16 else 10) + d,
     fracdigits := fracdigits st + (if sawdot st then 1 else 0)\<rparr>"

fun scan_mant :: "bool \<Rightarrow> mant_scan \<Rightarrow> string \<Rightarrow> mant_scan \<times> string" where
  "scan_mant hex st [] = (st, [])"
| "scan_mant hex st (c # cs) =
     (if c = CHR ''_'' then scan_mant hex (st\<lparr>underscores := True\<rparr>) cs
      else if c = CHR ''.'' then
        (if sawdot st then (st, c # cs) else scan_mant hex (st\<lparr>sawdot := True\<rparr>) cs)
      else if is_digit c then scan_mant hex (add_digit hex (digit_val c) st) cs
      else if hex \<and> is_hex_letter c
        then scan_mant hex (add_digit hex (lower_byte c - 87) st) cs
      else (st, c # cs))"

text \<open>The exponent digits; the accumulated exponent stops growing at 10000.\<close>

fun scan_exp :: "nat \<Rightarrow> bool \<Rightarrow> string \<Rightarrow> nat \<times> bool \<times> string" where
  "scan_exp e us [] = (e, us, [])"
| "scan_exp e us (c # cs) =
     (if c = CHR ''_'' then scan_exp e True cs
      else if is_digit c then scan_exp (if e < 10000 then e * 10 + digit_val c else e) us cs
      else (e, us, c # cs))"

datatype saw = Begin | Digit | Under | Other

fun underscore_scan :: "bool \<Rightarrow> saw \<Rightarrow> string \<Rightarrow> bool" where
  "underscore_scan hex w [] = (w \<noteq> Under)"
| "underscore_scan hex w (c # cs) =
     (if is_digit c \<or> (hex \<and> is_hex_letter c) then underscore_scan hex Digit cs
      else if c = CHR ''_'' then w = Digit \<and> underscore_scan hex Under cs
      else w \<noteq> Under \<and> underscore_scan hex Other cs)"

definition drop_sign :: "string \<Rightarrow> string" where
  "drop_sign s = (case s of c # cs \<Rightarrow> if c = CHR ''+'' \<or> c = CHR ''-'' then cs else s | [] \<Rightarrow> [])"

definition underscore_ok :: "string \<Rightarrow> bool" where
  "underscore_ok s0 =
     (case drop_sign s0 of
        c0 # c1 # cs \<Rightarrow>
          if c0 = CHR ''0'' \<and> lower_byte c1 \<in> {98, 111, 120}
          then underscore_scan (lower_byte c1 = 120) Digit cs
          else underscore_scan False Begin (c0 # c1 # cs)
      | s \<Rightarrow> underscore_scan False Begin s)"

text \<open>\<open>read_float s\<close>: sign and exact magnitude, \<open>None\<close> for a syntax error.\<close>

definition read_float :: "string \<Rightarrow> (bool \<times> rat) option" where
  "read_float s =
     (let neg = (s \<noteq> [] \<and> hd s = CHR ''-'');
          body = drop_sign s;
          hex = (2 < length body \<and> hd body = CHR ''0'' \<and> lower_byte (body ! 1) = 120);
          r = scan_mant hex \<lparr>sawdot = False, sawdigits = False, mant = 0, fracdigits = 0,
                underscores = False\<rparr> (if hex then drop 2 body else body);
          st = fst r; rest = snd r;
          base = (if hex then 16 else 10)
      in if \<not> sawdigits st then None
         else (case rest of
                 [] \<Rightarrow>
                   if hex then None
                   else if underscores st \<and> \<not> underscore_ok s then None
                   else Some (neg, of_nat (mant st) / base ^ fracdigits st)
               | c # cs \<Rightarrow>
                   if lower_byte c \<noteq> (if hex then 112 else 101) then None
                   else let eneg = (cs \<noteq> [] \<and> hd cs = CHR ''-'');
                            ds = drop_sign cs
                        in if ds = [] \<or> \<not> is_digit (hd ds) then None
                           else let x = scan_exp 0 (underscores st) ds;
                                    e = fst x; us = fst (snd x)
                                in if snd (snd x) \<noteq> [] then None
                                   else if us \<and> \<not> underscore_ok s then None
                                   else Some (neg,
                                     of_nat (mant st) / base ^ fracdigits st *
                                     (if hex then 2 else 10) powi (if eneg then - int e else int e))))"

definition lower_is :: "string \<Rightarrow> string \<Rightarrow> bool" where
  "lower_is s w \<longleftrightarrow> map lower_byte s = map byte w"

text \<open>The spellings \<^verbatim>\<open>inf\<close>, \<^verbatim>\<open>infinity\<close> (optionally signed) and \<^verbatim>\<open>nan\<close>, in any case.\<close>

definition special_float :: "string \<Rightarrow> float64 option" where
  "special_float s =
     (if lower_is s ''nan'' then Some NaN
      else if lower_is (drop_sign s) ''inf'' \<or> lower_is (drop_sign s) ''infinity''
        then Some (Inf (s \<noteq> [] \<and> hd s = CHR ''-''))
      else None)"

text \<open>An out-of-range number is an error, as \<^verbatim>\<open>ParseFloat\<close> returns \<^verbatim>\<open>ErrRange\<close> with the infinity.\<close>

definition parse_float :: "string \<Rightarrow> float64 option" where
  "parse_float s =
     (case special_float s of
        Some f \<Rightarrow> Some f
      | None \<Rightarrow>
          (case read_float s of
             None \<Rightarrow> None
           | Some (neg, x) \<Rightarrow>
               (case round_f64 (if neg then - x else x) of
                  Fin y \<Rightarrow> Some (Fin y)
                | _ \<Rightarrow> None)))"

text \<open>A text whose exact value is an integer below \<open>2 ^ 53\<close> is parsed exactly.\<close>

lemma parse_float_int:
  assumes "special_float s = None" "read_float s = Some (neg, of_int n)" "\<bar>n\<bar> < 2 ^ 53"
  shows "parse_float s = Some (Fin (of_int (if neg then - n else n)))"
  using assms f64_of_int_exact [of "if neg then - n else n"]
  by (cases neg) (simp_all add: parse_float_def)

end
