(* ===== verification/Dsl_Ast.thy ===== *)
theory Dsl_Ast
  imports Go_Float
begin

text \<open>
  The gate expression language of \<^verbatim>\<open>requires:\<close> fields: syntax trees, canonical printing, and the
  three traversals that collect, rename and prune node references
  (\<^verbatim>\<open>internal/engine/dsl/ast.go\<close>). A nil \<^verbatim>\<open>Expr\<close> is \<open>None\<close>; the operations that change a tree in
  place return the changed tree.
\<close>

section \<open>Syntax trees\<close>

text \<open>
  The canonical text of a literal is stored by the parser as \<^verbatim>\<open>strconv.Quote\<close> of the string or
  as plain text; the quoting is carried out when the text is used.
\<close>

datatype raw = RawText string | RawQuoted string

record literal =
  lit_raw :: raw
  lit_num :: float64
  is_num :: bool
  lit_bool :: bool
  is_bool :: bool
  lit_str :: string

definition zero_literal :: literal where
  "zero_literal = \<lparr>lit_raw = RawText [], lit_num = Fin 0, is_num = False, lit_bool = False,
     is_bool = False, lit_str = []\<rparr>"

definition num_literal :: "string \<Rightarrow> float64 \<Rightarrow> literal" where
  "num_literal t n = zero_literal\<lparr>lit_raw := RawText t, lit_num := n, is_num := True\<rparr>"

definition str_literal :: "string \<Rightarrow> literal" where
  "str_literal t = zero_literal\<lparr>lit_raw := RawQuoted t, lit_str := t\<rparr>"

definition bool_literal :: "bool \<Rightarrow> literal" where
  "bool_literal b = zero_literal\<lparr>lit_raw := RawText (if b then ''true'' else ''false''),
     lit_bool := b, is_bool := True\<rparr>"

datatype expr =
    NodeRef (ref_id: string) nat
  | FlagCmp string string literal nat
  | Unary string expr nat
  | Binary string expr expr nat

fun Pos :: "expr \<Rightarrow> nat" where
  "Pos (NodeRef _ p) = p"
| "Pos (FlagCmp _ _ _ p) = p"
| "Pos (Unary _ _ p) = p"
| "Pos (Binary _ _ _ p) = p"

section \<open>Canonical text\<close>

definition precOr :: nat where "precOr = 1"
definition precXor :: nat where "precXor = 2"
definition precAnd :: nat where "precAnd = 3"
definition precNot :: nat where "precNot = 4"

lemmas prec_defs = precOr_def precXor_def precAnd_def precNot_def

definition opPrec :: "string \<Rightarrow> nat" where
  "opPrec op =
     (if op = ''or'' \<or> op = ''nor'' then precOr
      else if op = ''xor'' then precXor
      else if op = ''and'' \<or> op = ''nand'' then precAnd
      else 0)"

fun needsParens :: "expr \<Rightarrow> nat \<Rightarrow> bool" where
  "needsParens (Binary op _ _ _) parentPrec = (opPrec op < parentPrec)"
| "needsParens _ parentPrec = False"

fun samePrecBinary :: "expr \<Rightarrow> nat \<Rightarrow> bool" where
  "samePrecBinary (Binary op _ _ _) parentPrec = (opPrec op = parentPrec)"
| "samePrecBinary _ parentPrec = False"

fun raw_string :: "(nat \<Rightarrow> bool) \<Rightarrow> raw \<Rightarrow> string" where
  "raw_string ip (RawText t) = t"
| "raw_string ip (RawQuoted t) = quote ip t"

definition Literal_String :: "(nat \<Rightarrow> bool) \<Rightarrow> literal \<Rightarrow> string" where
  "Literal_String ip l = raw_string ip (lit_raw l)"

definition parens :: "bool \<Rightarrow> string \<Rightarrow> string" where
  "parens b s = (if b then ''('' @ s @ '')'' else s)"

fun Expr_String :: "(nat \<Rightarrow> bool) \<Rightarrow> expr \<Rightarrow> string" where
  "Expr_String ip (NodeRef i _) = i"
| "Expr_String ip (FlagCmp name op val _) =
     (if op = [] then ''flag('' @ name @ '')''
      else ''flag('' @ name @ '' '' @ op @ '' '' @ Literal_String ip val @ '')'')"
| "Expr_String ip (Unary op x _) = ''not '' @ parens (needsParens x precNot) (Expr_String ip x)"
| "Expr_String ip (Binary op l r _) =
     parens (needsParens l (opPrec op)) (Expr_String ip l) @ '' '' @ op @ '' '' @
     parens (needsParens r (opPrec op) \<or> samePrecBinary r (opPrec op)) (Expr_String ip r)"

section \<open>Traversals\<close>

text \<open>\<open>walk e\<close> lists the sub-expressions in the order in which the code's \<^verbatim>\<open>walk\<close> calls its visitor.\<close>

fun walk :: "expr \<Rightarrow> expr list" where
  "walk (Unary op x p) = Unary op x p # walk x"
| "walk (Binary op l r p) = Binary op l r p # walk l @ walk r"
| "walk e = [e]"

definition walk_opt :: "expr option \<Rightarrow> expr list" where
  "walk_opt eo = (case eo of None \<Rightarrow> [] | Some e \<Rightarrow> walk e)"

fun node_ids :: "expr list \<Rightarrow> string list" where
  "node_ids [] = []"
| "node_ids (NodeRef i _ # es) = i # node_ids es"
| "node_ids (_ # es) = node_ids es"

fun flag_names :: "expr list \<Rightarrow> string list" where
  "flag_names [] = []"
| "flag_names (FlagCmp n _ _ _ # es) = n # flag_names es"
| "flag_names (_ # es) = flag_names es"

definition NodeRefs :: "expr option \<Rightarrow> string list" where
  "NodeRefs eo = dedupe_from no_keys (node_ids (walk_opt eo))"

definition FlagRefs :: "expr option \<Rightarrow> string list" where
  "FlagRefs eo = dedupe_from no_keys (flag_names (walk_opt eo))"

fun RenameNodeRefs :: "(string \<Rightarrow> string) \<Rightarrow> expr \<Rightarrow> expr" where
  "RenameNodeRefs rename (NodeRef i p) = NodeRef (if rename i \<noteq> [] then rename i else i) p"
| "RenameNodeRefs rename (FlagCmp n op v p) = FlagCmp n op v p"
| "RenameNodeRefs rename (Unary op x p) = Unary op (RenameNodeRefs rename x) p"
| "RenameNodeRefs rename (Binary op l r p) =
     Binary op (RenameNodeRefs rename l) (RenameNodeRefs rename r) p"

fun PruneNodeRefs :: "(string \<Rightarrow> bool) \<Rightarrow> expr \<Rightarrow> expr option" where
  "PruneNodeRefs drp (NodeRef i p) = (if drp i then None else Some (NodeRef i p))"
| "PruneNodeRefs drp (Unary op x p) =
     (case PruneNodeRefs drp x of None \<Rightarrow> None | Some x' \<Rightarrow> Some (Unary op x' p))"
| "PruneNodeRefs drp (Binary op l r p) =
     (case PruneNodeRefs drp l of
        None \<Rightarrow> PruneNodeRefs drp r
      | Some l' \<Rightarrow>
          (case PruneNodeRefs drp r of
             None \<Rightarrow> Some l'
           | Some r' \<Rightarrow> Some (Binary op l' r' p)))"
| "PruneNodeRefs drp (FlagCmp n op v p) = Some (FlagCmp n op v p)"

definition PruneNodeRefs_opt :: "(string \<Rightarrow> bool) \<Rightarrow> expr option \<Rightarrow> expr option" where
  "PruneNodeRefs_opt drp eo = (case eo of None \<Rightarrow> None | Some e \<Rightarrow> PruneNodeRefs drp e)"

definition isKeyword :: "string \<Rightarrow> bool" where
  "isKeyword s \<longleftrightarrow> to_lower s \<in> {''and'', ''or'', ''not'', ''xor'', ''nand'', ''nor'', ''all'', ''any'',
     ''flag'', ''true'', ''false''}"

section \<open>Facts about references\<close>

text \<open>The references as sets, by recursion on the tree.\<close>

fun refs_of :: "expr \<Rightarrow> string set" where
  "refs_of (NodeRef i _) = {i}"
| "refs_of (FlagCmp _ _ _ _) = {}"
| "refs_of (Unary _ x _) = refs_of x"
| "refs_of (Binary _ l r _) = refs_of l \<union> refs_of r"

fun flags_of :: "expr \<Rightarrow> string set" where
  "flags_of (NodeRef _ _) = {}"
| "flags_of (FlagCmp n _ _ _) = {n}"
| "flags_of (Unary _ x _) = flags_of x"
| "flags_of (Binary _ l r _) = flags_of l \<union> flags_of r"

lemma node_ids_append [simp]: "node_ids (xs @ ys) = node_ids xs @ node_ids ys"
  by (induction xs rule: node_ids.induct) auto

lemma flag_names_append [simp]: "flag_names (xs @ ys) = flag_names xs @ flag_names ys"
  by (induction xs rule: flag_names.induct) auto

lemma set_node_ids_walk [simp]: "set (node_ids (walk e)) = refs_of e"
  by (induction e rule: walk.induct) auto

lemma set_flag_names_walk [simp]: "set (flag_names (walk e)) = flags_of e"
  by (induction e rule: walk.induct) auto

lemma set_NodeRefs_Some [simp]: "set (NodeRefs (Some e)) = refs_of e"
  by (simp add: NodeRefs_def walk_opt_def set_dedupe_from)

lemma set_FlagRefs_Some [simp]: "set (FlagRefs (Some e)) = flags_of e"
  by (simp add: FlagRefs_def walk_opt_def set_dedupe_from)

lemma NodeRefs_None [simp]: "NodeRefs None = []"
  by (simp add: NodeRefs_def walk_opt_def)

lemma distinct_NodeRefs [simp]: "distinct (NodeRefs eo)"
  by (simp add: NodeRefs_def distinct_dedupe_from)

lemma refs_of_Rename:
  "refs_of (RenameNodeRefs f e) = (\<lambda>i. if f i \<noteq> [] then f i else i) ` refs_of e"
  by (induction e) auto

lemma flags_of_Rename [simp]: "flags_of (RenameNodeRefs f e) = flags_of e"
  by (induction e) auto

lemma refs_of_Prune:
  "(case PruneNodeRefs drp e of None \<Rightarrow> {} | Some e' \<Rightarrow> refs_of e') = {i \<in> refs_of e. \<not> drp i}"
proof (induction e)
  case (Unary op x p)
  then show ?case by (cases "PruneNodeRefs drp x") simp_all
next
  case (Binary op l r p)
  have U: "{i \<in> refs_of (Binary op l r p). \<not> drp i}
      = {i \<in> refs_of l. \<not> drp i} \<union> {i \<in> refs_of r. \<not> drp i}" by auto
  show ?case unfolding U Binary.IH [symmetric]
    by (cases "PruneNodeRefs drp l"; cases "PruneNodeRefs drp r") simp_all
qed auto

lemma flags_of_Prune:
  "(case PruneNodeRefs drp e of None \<Rightarrow> {} | Some e' \<Rightarrow> flags_of e') \<subseteq> flags_of e"
proof (induction e)
  case (Unary op x p)
  then show ?case by (cases "PruneNodeRefs drp x") simp_all
next
  case (Binary op l r p)
  then show ?case
    by (cases "PruneNodeRefs drp l"; cases "PruneNodeRefs drp r") auto
qed auto

lemma Prune_unchanged: "\<forall>i\<in>refs_of e. \<not> drp i \<Longrightarrow> PruneNodeRefs drp e = Some e"
  by (induction e) auto

end
