(* ===== verification/Dsl_Eval.thy ===== *)
theory Dsl_Eval
  imports Dsl_Ast
begin

text \<open>
  Evaluation of gate expressions (\<^verbatim>\<open>internal/engine/dsl/eval.go\<close>). A flag value is Go's \<^verbatim>\<open>any\<close>: the
  dynamic types the YAML and JSON decoders produce are the constructors of \<open>goany\<close>; a value of
  any other type (a list, a map, a time) is \<open>GOther\<close>.
\<close>

section \<open>Flag values\<close>

datatype goany =
    GNil
  | GBool bool
  | GString string
  | GFloat64 float64
  | GFloat32 float64
  | GInt int
  | GInt64 int
  | GUint64 nat
  | GOther

type_synonym flags = "string \<rightharpoonup> goany"

record eval_context =
  Done :: "(string \<Rightarrow> bool) option"
  Flags :: flags

fun asNumber :: "goany \<Rightarrow> float64 option" where
  "asNumber (GFloat64 x) = Some x"
| "asNumber (GFloat32 x) = Some x"
| "asNumber (GInt n) = Some (f64_of_int n)"
| "asNumber (GInt64 n) = Some (f64_of_int n)"
| "asNumber (GUint64 n) = Some (f64_of_int (int n))"
| "asNumber _ = None"

fun truthy :: "goany \<Rightarrow> bool" where
  "truthy (GBool b) = b"
| "truthy (GString s) = (s \<noteq> [])"
| "truthy v = (case asNumber v of Some n \<Rightarrow> \<not> f64_eq n (Fin 0) | None \<Rightarrow> v \<noteq> GNil)"

definition cmpNum :: "float64 \<Rightarrow> string \<Rightarrow> float64 \<Rightarrow> bool" where
  "cmpNum a op b =
     (if op = ''=='' then f64_eq a b
      else if op = ''!='' then \<not> f64_eq a b
      else if op = ''>='' then f64_le b a
      else if op = ''<='' then f64_le a b
      else if op = ''>'' then f64_lt b a
      else if op = ''<'' then f64_lt a b
      else False)"

definition evalFlag :: "string \<Rightarrow> string \<Rightarrow> literal \<Rightarrow> eval_context \<Rightarrow> bool" where
  "evalFlag name op val ctx =
     (case Flags ctx name of
        None \<Rightarrow> False
      | Some v \<Rightarrow>
          if op = [] then truthy v
          else if is_num val then
            (case asNumber v of None \<Rightarrow> False | Some n \<Rightarrow> cmpNum n op (lit_num val))
          else if is_bool val then
            (case v of
               GBool b \<Rightarrow> if op = ''=='' then b = lit_bool val
                          else if op = ''!='' then b \<noteq> lit_bool val else False
             | _ \<Rightarrow> False)
          else
            (case v of
               GString s \<Rightarrow> if op = ''=='' then s = lit_str val
                            else if op = ''!='' then s \<noteq> lit_str val else False
             | _ \<Rightarrow> False))"

section \<open>Evaluation\<close>

definition bool_op :: "string \<Rightarrow> bool \<Rightarrow> bool \<Rightarrow> bool" where
  "bool_op op l r =
     (if op = ''and'' then l \<and> r
      else if op = ''or'' then l \<or> r
      else if op = ''xor'' then l \<noteq> r
      else if op = ''nand'' then \<not> (l \<and> r)
      else if op = ''nor'' then \<not> (l \<or> r)
      else False)"

lemma bool_op_simps [simp]:
  "bool_op ''and'' l r = (l \<and> r)" "bool_op ''or'' l r = (l \<or> r)" "bool_op ''xor'' l r = (l \<noteq> r)"
  "bool_op ''nand'' l r = (\<not> (l \<and> r))" "bool_op ''nor'' l r = (\<not> (l \<or> r))"
  by (simp_all add: bool_op_def)

fun Eval_expr :: "expr \<Rightarrow> eval_context \<Rightarrow> bool" where
  "Eval_expr (NodeRef i _) ctx = (case Done ctx of None \<Rightarrow> False | Some d \<Rightarrow> d i)"
| "Eval_expr (FlagCmp name op val _) ctx = evalFlag name op val ctx"
| "Eval_expr (Unary op x _) ctx = (\<not> Eval_expr x ctx)"
| "Eval_expr (Binary op a b _) ctx =
     bool_op op (Eval_expr a ctx) (Eval_expr b ctx)"

definition Eval :: "expr option \<Rightarrow> eval_context \<Rightarrow> bool" where
  "Eval eo ctx = (case eo of None \<Rightarrow> True | Some e \<Rightarrow> Eval_expr e ctx)"

lemma Eval_simps [simp]: "Eval None ctx = True" "Eval (Some e) ctx = Eval_expr e ctx"
  by (simp_all add: Eval_def)

section \<open>What evaluation depends on\<close>

text \<open>Evaluation reads only the nodes and flags the expression names.\<close>

lemma evalFlag_cong: "Flags c n = Flags c' n \<Longrightarrow> evalFlag n op v c = evalFlag n op v c'"
  by (simp add: evalFlag_def)

lemma Eval_expr_cong:
  assumes "\<And>i. i \<in> refs_of e \<Longrightarrow>
      (case Done c of None \<Rightarrow> False | Some d \<Rightarrow> d i) = (case Done c' of None \<Rightarrow> False | Some d \<Rightarrow> d i)"
    and "\<And>f. f \<in> flags_of e \<Longrightarrow> Flags c f = Flags c' f"
  shows "Eval_expr e c = Eval_expr e c'"
  using assms
proof (induction e)
  case (FlagCmp n op v p)
  then have "Flags c n = Flags c' n" by simp
  from evalFlag_cong [OF this] show ?case unfolding Eval_expr.simps .
next
  case (Binary op l r p)
  then have "Eval_expr l c = Eval_expr l c'" "Eval_expr r c = Eval_expr r c'" by auto
  then show ?case by simp
qed auto

text \<open>Renaming references and evaluating is evaluating with the renamed completion function.\<close>

lemma Eval_Rename:
  "Eval_expr (RenameNodeRefs f e) \<lparr>Done = Some d, Flags = fl\<rparr> =
   Eval_expr e \<lparr>Done = Some (\<lambda>i. d (if f i \<noteq> [] then f i else i)), Flags = fl\<rparr>"
  by (induction e) (auto simp: evalFlag_def)

text \<open>An expression built from references, flags, \<^verbatim>\<open>and\<close> and \<^verbatim>\<open>or\<close> is monotone in the set of finished nodes.\<close>

fun positive :: "expr \<Rightarrow> bool" where
  "positive (NodeRef _ _) = True"
| "positive (FlagCmp _ _ _ _) = True"
| "positive (Unary _ _ _) = False"
| "positive (Binary op l r _) = ((op = ''and'' \<or> op = ''or'') \<and> positive l \<and> positive r)"

lemma Eval_positive_mono:
  assumes "positive e" and "\<And>i. i \<in> refs_of e \<Longrightarrow> d i \<Longrightarrow> d' i"
    and "Eval_expr e \<lparr>Done = Some d, Flags = fl\<rparr>"
  shows "Eval_expr e \<lparr>Done = Some d', Flags = fl\<rparr>"
  using assms
proof (induction e)
  case (FlagCmp n op v p)
  then show ?case by (simp add: evalFlag_def)
next
  case (Binary op l r p)
  then show ?case by auto
qed auto

text \<open>A flag-free positive expression holds once every node it names is finished.\<close>

lemma Eval_positive_all_done:
  assumes "positive e" and "flags_of e = {}" and "\<And>i. i \<in> refs_of e \<Longrightarrow> d i"
  shows "Eval_expr e \<lparr>Done = Some d, Flags = fl\<rparr>"
  using assms by (induction e) auto

end
