(* ===== verification/Dsl_Parser.thy ===== *)
theory Dsl_Parser
  imports Dsl_Ast
begin

text \<open>
  The lexer and the Pratt parser of gate expressions (\<^verbatim>\<open>internal/engine/dsl/lexer.go\<close> and
  \<^verbatim>\<open>parser.go\<close>). The lexer's index into the source is the pair of the byte offset and the rest of
  the source; the parser's index into the tokens is the list of the tokens not yet read. Reading
  past the last token would be a run-time panic in Go, here the error \<open>RuntimePanic\<close>; the parser
  runs on fuel, and \<open>OutOfFuel\<close> marks running out. Neither ever occurs
  (\<open>parse_tokens_no_panic\<close>, \<open>parse_enough_fuel\<close>).
\<close>

section \<open>Errors and tokens\<close>

datatype parse_msg =
    UnexpectedChar char
  | UnterminatedString
  | UnexpectedText string
  | Expected string string
  | NestsTooDeeply
  | UnexpectedKeyword string
  | UnexpectedEnd
  | KeywordFlagName string
  | BadNumber string
  | ExpectedLiteral string
  | ExpectedCommaOrParen string
  | RuntimePanic
  | OutOfFuel

record parse_error =
  Offset :: nat
  Msg :: parse_msg

definition errf :: "nat \<Rightarrow> parse_msg \<Rightarrow> parse_error" where
  "errf off m = \<lparr>Offset = off, Msg = m\<rparr>"

datatype tokKind = TokEOF | TokIdent | TokNumber | TokString | TokLParen | TokRParen | TokComma | TokCmp

record token =
  tok_kind :: tokKind
  tok_text :: string
  tok_pos :: nat

definition tok :: "tokKind \<Rightarrow> string \<Rightarrow> nat \<Rightarrow> token" where
  "tok k t p = \<lparr>tok_kind = k, tok_text = t, tok_pos = p\<rparr>"

lemma tok_sel [simp]: "tok_kind (tok k t p) = k" "tok_text (tok k t p) = t" "tok_pos (tok k t p) = p"
  by (simp_all add: tok_def)

section \<open>Lexer\<close>

text \<open>
  \<^verbatim>\<open>isIdentStart(rune(c))\<close> sees one byte as a Latin-1 rune: \<^verbatim>\<open>unicode.IsLetter\<close> holds of the ASCII
  letters and of the Latin-1 letters.
\<close>

definition latin1_letter :: "nat \<Rightarrow> bool" where
  "latin1_letter b \<longleftrightarrow> (65 \<le> b \<and> b \<le> 90) \<or> (97 \<le> b \<and> b \<le> 122) \<or> b = 170 \<or> b = 181 \<or> b = 186
     \<or> (192 \<le> b \<and> b \<noteq> 215 \<and> b \<noteq> 247)"

definition isIdentStart :: "char \<Rightarrow> bool" where
  "isIdentStart c \<longleftrightarrow> latin1_letter (byte c) \<or> c = CHR ''_''"

definition isIdentPart :: "char \<Rightarrow> bool" where
  "isIdentPart c \<longleftrightarrow> latin1_letter (byte c) \<or> is_digit c \<or> c = CHR ''_'' \<or> c = CHR ''-'' \<or> c = CHR ''.''"

definition isNumberPart :: "char \<Rightarrow> bool" where
  "isNumberPart c \<longleftrightarrow> is_digit c \<or> c = CHR ''.''"

definition isBlank :: "char \<Rightarrow> bool" where
  "isBlank c \<longleftrightarrow> c = CHR 0x20 \<or> c = CHR 0x09 \<or> c = CHR 0x0D \<or> c = CHR 0x0A"

definition isCmpStart :: "char \<Rightarrow> bool" where
  "isCmpStart c \<longleftrightarrow> c = CHR ''='' \<or> c = CHR ''!'' \<or> c = CHR ''>'' \<or> c = CHR ''<''"

definition isQuote :: "char \<Rightarrow> bool" where
  "isQuote c \<longleftrightarrow> c = CHR 0x22 \<or> c = CHR 0x27"

text \<open>Each token reader returns the token and the rest of the source.\<close>

definition lexCmp :: "nat \<Rightarrow> char \<Rightarrow> string \<Rightarrow> parse_error + (token \<times> string)" where
  "lexCmp i c cs =
     (if cs \<noteq> [] \<and> hd cs = CHR ''='' then Inr (tok TokCmp [c, CHR ''=''] i, tl cs)
      else if c = CHR ''>'' \<or> c = CHR ''<'' then Inr (tok TokCmp [c] i, cs)
      else if c = CHR ''='' then Inr (tok TokCmp ''=='' i, cs)
      else Inl (errf i (UnexpectedChar c)))"

fun string_body :: "char \<Rightarrow> string \<Rightarrow> (string \<times> string) option" where
  "string_body q [] = None"
| "string_body q (c # cs) =
     (if c = q then Some ([], cs)
      else (case string_body q cs of None \<Rightarrow> None | Some (b, r) \<Rightarrow> Some (c # b, r)))"

definition lexString :: "nat \<Rightarrow> char \<Rightarrow> string \<Rightarrow> parse_error + (token \<times> string)" where
  "lexString i q cs =
     (case string_body q cs of
        None \<Rightarrow> Inl (errf i UnterminatedString)
      | Some (b, r) \<Rightarrow> Inr (tok TokString b i, r))"

definition lexNumber :: "nat \<Rightarrow> char \<Rightarrow> string \<Rightarrow> token \<times> string" where
  "lexNumber i c cs = (tok TokNumber (c # takeWhile isNumberPart cs) i, dropWhile isNumberPart cs)"

definition lexIdent :: "nat \<Rightarrow> char \<Rightarrow> string \<Rightarrow> token \<times> string" where
  "lexIdent i c cs = (tok TokIdent (c # takeWhile isIdentPart cs) i, dropWhile isIdentPart cs)"

text \<open>One round of the lexer's loop: no token for a blank, else one token and the rest.\<close>

definition lex_step :: "nat \<Rightarrow> char \<Rightarrow> string \<Rightarrow> parse_error + (token option \<times> string)" where
  "lex_step i c cs =
     (if isBlank c then Inr (None, cs)
      else if c = CHR ''('' then Inr (Some (tok TokLParen [c] i), cs)
      else if c = CHR '')'' then Inr (Some (tok TokRParen [c] i), cs)
      else if c = CHR '','' then Inr (Some (tok TokComma [c] i), cs)
      else if isCmpStart c then map_sum id (map_prod Some id) (lexCmp i c cs)
      else if isQuote c then map_sum id (map_prod Some id) (lexString i c cs)
      else if is_digit c \<or> (c = CHR ''-'' \<and> cs \<noteq> [] \<and> is_digit (hd cs))
        then Inr (map_prod Some id (lexNumber i c cs))
      else if isIdentStart c then Inr (map_prod Some id (lexIdent i c cs))
      else Inl (errf i (UnexpectedChar c)))"

lemma string_body_length: "string_body q s = Some (b, r) \<Longrightarrow> length s = Suc (length b + length r)"
  by (induction s arbitrary: b r) (auto split: if_splits option.splits)

lemma lex_step_length: "lex_step i c cs = Inr (t, r) \<Longrightarrow> length r \<le> length cs"
  by (auto simp: lex_step_def lexCmp_def lexString_def lexNumber_def lexIdent_def
      length_dropWhile_le dest!: string_body_length split: if_splits option.splits)

text \<open>
  The loop. The new offset is the old one plus the bytes consumed, \<open>length cs - length r\<close> after
  the first.
\<close>

function lex_from :: "nat \<Rightarrow> string \<Rightarrow> parse_error + token list" where
  "lex_from i [] = Inr [tok TokEOF [] i]"
| "lex_from i (c # cs) =
     (case lex_step i c cs of
        Inl e \<Rightarrow> Inl e
      | Inr (t, r) \<Rightarrow>
          (case lex_from (i + 1 + (length cs - length r)) r of
             Inl e \<Rightarrow> Inl e
           | Inr ts \<Rightarrow> Inr (case t of None \<Rightarrow> ts | Some t' \<Rightarrow> t' # ts)))"
  by pat_completeness auto
termination
  by (relation "measure (\<lambda>(i, s). length s)") (auto simp: less_Suc_eq_le dest: lex_step_length)

definition lex :: "string \<Rightarrow> parse_error + token list" where
  "lex src = lex_from 0 src"

section \<open>Parser\<close>

definition maxNesting :: nat where
  "maxNesting = 256"

abbreviation panic :: "parse_error + 'a" where
  "panic \<equiv> Inl (errf 0 RuntimePanic)"

abbreviation out_of_fuel :: "parse_error + 'a" where
  "out_of_fuel \<equiv> Inl (errf 0 OutOfFuel)"

definition pbind :: "parse_error + 'a \<Rightarrow> ('a \<Rightarrow> parse_error + 'b) \<Rightarrow> parse_error + 'b" where
  "pbind r f = (case r of Inl e \<Rightarrow> Inl e | Inr a \<Rightarrow> f a)"

lemma pbind_simps [simp]: "pbind (Inl e) f = Inl e" "pbind (Inr a) f = f a"
  by (simp_all add: pbind_def)

lemma pbind_Inr: "pbind r f = Inr b \<longleftrightarrow> (\<exists>a. r = Inr a \<and> f a = Inr b)"
  by (cases r) auto

text \<open>\<open>next ts\<close> is \<^verbatim>\<open>p.next()\<close>; \<open>expect\<close> consumes the token whether or not it fits.\<close>

fun next_tok :: "token list \<Rightarrow> parse_error + (token \<times> token list)" where
  "next_tok [] = panic"
| "next_tok (t # ts) = Inr (t, ts)"

definition expect :: "tokKind \<Rightarrow> string \<Rightarrow> token list \<Rightarrow> parse_error + (token \<times> token list)" where
  "expect k what ts =
     pbind (next_tok ts) (\<lambda>(t, ts').
       if tok_kind t \<noteq> k then Inl (errf (tok_pos t) (Expected what (tok_text t))) else Inr (t, ts'))"

definition parseLiteral :: "token list \<Rightarrow> parse_error + (literal \<times> token list)" where
  "parseLiteral ts =
     pbind (next_tok ts) (\<lambda>(t, ts').
       (case tok_kind t of
          TokNumber \<Rightarrow>
            (case parse_float (tok_text t) of
               None \<Rightarrow> Inl (errf (tok_pos t) (BadNumber (tok_text t)))
             | Some n \<Rightarrow> Inr (num_literal (tok_text t) n, ts'))
        | TokString \<Rightarrow> Inr (str_literal (tok_text t), ts')
        | TokIdent \<Rightarrow>
            if to_lower (tok_text t) = ''true'' then Inr (bool_literal True, ts')
            else if to_lower (tok_text t) = ''false'' then Inr (bool_literal False, ts')
            else Inr (str_literal (tok_text t), ts')
        | _ \<Rightarrow> Inl (errf (tok_pos t) (ExpectedLiteral (tok_text t)))))"

text \<open>The optional comparison inside \<^verbatim>\<open>flag(\<dots>)\<close>: operator and literal, empty if there is none.\<close>

definition flag_cmp :: "token list \<Rightarrow> parse_error + ((string \<times> literal) \<times> token list)" where
  "flag_cmp ts =
     (case ts of
        [] \<Rightarrow> panic
      | t # ts1 \<Rightarrow>
          if tok_kind t = TokCmp
          then pbind (parseLiteral ts1) (\<lambda>(lit, ts2). Inr ((tok_text t, lit), ts2))
          else Inr (([], zero_literal), ts))"

text \<open>\<open>parseFlag\<close> reads \<^verbatim>\<open>flag(name)\<close> or \<^verbatim>\<open>flag(name op literal)\<close>, after the word \<^verbatim>\<open>flag\<close>.\<close>

definition parseFlag :: "nat \<Rightarrow> token list \<Rightarrow> parse_error + (expr \<times> token list)" where
  "parseFlag p ts =
     pbind (expect TokLParen ''( after flag'' ts) (\<lambda>(_, ts1).
     pbind (expect TokIdent ''flag name'' ts1) (\<lambda>(nameTok, ts2).
       if isKeyword (tok_text nameTok)
       then Inl (errf (tok_pos nameTok) (KeywordFlagName (tok_text nameTok)))
       else
         pbind (flag_cmp ts2) (\<lambda>((op, lit), ts3).
         pbind (expect TokRParen '')'' ts3) (\<lambda>(_, ts4).
           Inr (FlagCmp (tok_text nameTok) op lit p, ts4)))))"

definition binary_keywords :: "string set" where
  "binary_keywords = {''and'', ''or'', ''xor'', ''nand'', ''nor'', ''not'', ''true'', ''false''}"

text \<open>
  The recursive part. \<open>d\<close> is the parser's \<^verbatim>\<open>depth\<close> on entry, the number of open \<^verbatim>\<open>parseUnary\<close>
  frames; \<open>parse_loop\<close> is the loop of \<^verbatim>\<open>parseExpr\<close>, \<open>parse_items\<close> the loop of \<^verbatim>\<open>parseAllAny\<close>.
\<close>

function parseExpr :: "nat \<Rightarrow> nat \<Rightarrow> nat \<Rightarrow> token list \<Rightarrow> parse_error + (expr \<times> token list)"
and parse_loop :: "nat \<Rightarrow> nat \<Rightarrow> nat \<Rightarrow> expr \<Rightarrow> token list \<Rightarrow> parse_error + (expr \<times> token list)"
and parseUnary :: "nat \<Rightarrow> nat \<Rightarrow> token list \<Rightarrow> parse_error + (expr \<times> token list)"
and parsePrimary :: "nat \<Rightarrow> nat \<Rightarrow> token list \<Rightarrow> parse_error + (expr \<times> token list)"
and parse_items :: "nat \<Rightarrow> string \<Rightarrow> nat \<Rightarrow> nat \<Rightarrow> expr option \<Rightarrow> token list \<Rightarrow> parse_error + (expr \<times> token list)"
where
  "parseExpr 0 minp d ts = out_of_fuel"
| "parseExpr (Suc n) minp d ts =
     pbind (parseUnary n d ts) (\<lambda>(left, ts1). parse_loop n minp d left ts1)"
| "parse_loop 0 minp d left ts = out_of_fuel"
| "parse_loop (Suc n) minp d left ts =
     (case ts of
        [] \<Rightarrow> panic
      | t # ts1 \<Rightarrow>
          if tok_kind t \<noteq> TokIdent then Inr (left, ts)
          else
            let op = to_lower (tok_text t); prec = opPrec op in
            if prec = 0 \<or> prec < minp then Inr (left, ts)
            else pbind (parseExpr n (prec + 1) d ts1) (\<lambda>(right, ts2).
                   parse_loop n minp d (Binary op left right (Pos left)) ts2))"
| "parseUnary 0 d ts = out_of_fuel"
| "parseUnary (Suc n) d ts =
     (case ts of
        [] \<Rightarrow> panic
      | t # ts1 \<Rightarrow>
          if maxNesting < d + 1 then Inl (errf (tok_pos t) NestsTooDeeply)
          else if tok_kind t = TokIdent \<and> to_lower (tok_text t) = ''not''
          then pbind (parseUnary n (d + 1) ts1) (\<lambda>(x, ts2). Inr (Unary ''not'' x (tok_pos t), ts2))
          else parsePrimary n (d + 1) ts)"
| "parsePrimary 0 d ts = out_of_fuel"
| "parsePrimary (Suc n) d ts =
     pbind (next_tok ts) (\<lambda>(t, ts1).
       (case tok_kind t of
          TokLParen \<Rightarrow>
            pbind (parseExpr n 0 d ts1) (\<lambda>(e, ts2).
              pbind (expect TokRParen '')'' ts2) (\<lambda>(_, ts3). Inr (e, ts3)))
        | TokIdent \<Rightarrow>
            let low = to_lower (tok_text t) in
            if low = ''flag'' then parseFlag (tok_pos t) ts1
            else if low = ''all'' \<or> low = ''any''
            then pbind (expect TokLParen (''( after '' @ low) ts1) (\<lambda>(_, ts2).
                   parse_items n (if low = ''any'' then ''or'' else ''and'') (tok_pos t) d None ts2)
            else if low \<in> binary_keywords then Inl (errf (tok_pos t) (UnexpectedKeyword (tok_text t)))
            else Inr (NodeRef (tok_text t) (tok_pos t), ts1)
        | TokEOF \<Rightarrow> Inl (errf (tok_pos t) UnexpectedEnd)
        | _ \<Rightarrow> Inl (errf (tok_pos t) (UnexpectedText (tok_text t)))))"
| "parse_items 0 op p d acc ts = out_of_fuel"
| "parse_items (Suc n) op p d acc ts =
     pbind (parseExpr n 0 d ts) (\<lambda>(item, ts1).
       let e = (case acc of None \<Rightarrow> item | Some a \<Rightarrow> Binary op a item p) in
       pbind (next_tok ts1) (\<lambda>(t, ts2).
         if tok_kind t = TokRParen then Inr (e, ts2)
         else if tok_kind t \<noteq> TokComma then Inl (errf (tok_pos t) (ExpectedCommaOrParen (tok_text t)))
         else parse_items n op p d (Some e) ts2))"
  by pat_completeness auto
termination
  by (relation "measure (case_sum (case_sum fst fst) (case_sum fst (case_sum fst fst)))") simp_all

text \<open>Fuel linear in the number of tokens is enough: see \<open>parse_enough_fuel\<close>.\<close>

definition parse_fuel :: "token list \<Rightarrow> nat" where
  "parse_fuel ts = 4 * length ts + 4"

definition parse_tokens :: "token list \<Rightarrow> parse_error + expr" where
  "parse_tokens ts =
     pbind (parseExpr (parse_fuel ts) 0 0 ts) (\<lambda>(e, ts1).
       case ts1 of
         [] \<Rightarrow> panic
       | t # _ \<Rightarrow> if tok_kind t \<noteq> TokEOF then Inl (errf (tok_pos t) (UnexpectedText (tok_text t))) else Inr e)"

definition Parse :: "string \<Rightarrow> parse_error + expr option" where
  "Parse src =
     (if trim_space src = [] then Inr None
      else pbind (lex src) (\<lambda>ts. pbind (parse_tokens ts) (\<lambda>e. Inr (Some e))))"

end
