(* ===== verification/Dsl_Parser_Facts.thy ===== *)
theory Dsl_Parser_Facts
  imports Dsl_Parser
begin

text \<open>
  The parser always returns: on the lexer's tokens it neither reads past the end nor runs out
  of fuel, every error it reports lies within the source, and more fuel never changes an answer.
  From this follow fuel-free unfolding equations, on which the round-trip proof rests.
\<close>

section \<open>Token lists and what the parser consumes\<close>

definition tokens_ok :: "nat \<Rightarrow> token list \<Rightarrow> bool" where
  "tokens_ok b ts \<longleftrightarrow> ts \<noteq> [] \<and> tok_kind (last ts) = TokEOF \<and> (\<forall>t\<in>set ts. tok_pos t \<le> b)"

definition eats :: "nat \<Rightarrow> token list \<Rightarrow> token list \<Rightarrow> bool" where
  "eats k ts r \<longleftrightarrow> (\<exists>p. k \<le> length p \<and> ts = p @ r \<and> (\<forall>t\<in>set p. tok_kind t \<noteq> TokEOF))"

lemma eatsI: "k \<le> length p \<Longrightarrow> \<forall>t\<in>set p. tok_kind t \<noteq> TokEOF \<Longrightarrow> eats k (p @ r) r"
  by (auto simp: eats_def)

lemma eatsE:
  assumes "eats k ts r"
  obtains p where "k \<le> length p" "ts = p @ r" "\<forall>t\<in>set p. tok_kind t \<noteq> TokEOF"
  using assms by (auto simp: eats_def)

lemma eats_refl [simp]: "eats 0 ts ts"
  by (auto simp: eats_def)

lemma eats_trans: "eats j a b \<Longrightarrow> eats k b c \<Longrightarrow> m \<le> j + k \<Longrightarrow> eats m a c"
  by (elim eatsE) (auto simp: eats_def intro!: exI [of _ "_ @ _"])

lemma eats_Cons: "tok_kind t \<noteq> TokEOF \<Longrightarrow> eats (Suc 0) (t # ts) ts"
  using eatsI [of "Suc 0" "[t]" ts] by simp

lemma eats_Cons0: "tok_kind t \<noteq> TokEOF \<Longrightarrow> eats 0 (t # ts) ts"
  using eatsI [of 0 "[t]" ts] by simp

lemma eats_length: "eats k ts r \<Longrightarrow> length r + k \<le> length ts"
  by (auto simp: eats_def)

lemma eats_tokens_ok: "eats k ts r \<Longrightarrow> tokens_ok b ts \<Longrightarrow> tokens_ok b r"
  by (elim eatsE, cases r) (auto simp: tokens_ok_def)

lemma tokens_okE:
  assumes "tokens_ok b ts"
  obtains t ts' where "ts = t # ts'" "tok_pos t \<le> b" "tok_kind t \<noteq> TokEOF \<Longrightarrow> tokens_ok b ts'"
  using assms by (cases ts) (auto simp: tokens_ok_def split: if_splits)

text \<open>
  The outcome of a parsing function on good tokens: an error is a syntax error at an offset
  within the source, and a result has consumed at least \<open>k\<close> tokens, none of them the end.
\<close>

definition good_error :: "nat \<Rightarrow> parse_error \<Rightarrow> bool" where
  "good_error b e \<longleftrightarrow> Msg e \<noteq> RuntimePanic \<and> Msg e \<noteq> OutOfFuel \<and> Offset e \<le> b"

lemma good_error_errf [simp]:
  "good_error b (errf p m) \<longleftrightarrow> m \<noteq> RuntimePanic \<and> m \<noteq> OutOfFuel \<and> p \<le> b"
  by (simp add: good_error_def errf_def)

definition outcome :: "nat \<Rightarrow> nat \<Rightarrow> token list \<Rightarrow> parse_error + ('a \<times> token list) \<Rightarrow> bool" where
  "outcome b k ts x \<longleftrightarrow> (case x of Inl e \<Rightarrow> good_error b e | Inr (a, r) \<Rightarrow> eats k ts r)"

lemma outcome_simps [simp]:
  "outcome b k ts (Inl e) \<longleftrightarrow> good_error b e"
  "outcome b k ts (Inr (a, r)) \<longleftrightarrow> eats k ts r"
  by (simp_all add: outcome_def)

lemma outcome_bind:
  assumes "outcome b j ts x" "tokens_ok b ts"
    "\<And>a r. x = Inr (a, r) \<Longrightarrow> eats j ts r \<Longrightarrow> tokens_ok b r \<Longrightarrow> outcome b k r (f (a, r))" "m \<le> j + k"
  shows "outcome b m ts (pbind x f)"
proof (cases x)
  case (Inr ar)
  obtain a r where ar: "ar = (a, r)" by (cases ar)
  with Inr assms(1) have e: "eats j ts r" by simp
  then have "outcome b k r (f (a, r))" using assms Inr ar eats_tokens_ok by blast
  then show ?thesis using Inr ar e assms(4) eats_trans
    by (cases "f (a, r)") (auto simp: outcome_def)
qed (use assms in simp)

lemma outcome_eats: "eats j ts r \<Longrightarrow> outcome b k r x \<Longrightarrow> m \<le> j + k \<Longrightarrow> outcome b m ts x"
  by (auto simp: outcome_def split: sum.splits intro: eats_trans)

lemma outcome_expect: "tokens_ok b ts \<Longrightarrow> k \<noteq> TokEOF \<Longrightarrow> outcome b 1 ts (expect k w ts)"
  by (erule tokens_okE) (auto simp: expect_def eats_Cons)

lemma outcome_parseLiteral: "tokens_ok b ts \<Longrightarrow> outcome b 1 ts (parseLiteral ts)"
proof (erule tokens_okE)
  fix t ts' assume ts: "ts = t # ts'" "tok_pos t \<le> b"
  show ?thesis using ts
    by (cases "tok_kind t") (auto simp: parseLiteral_def eats_Cons split: option.split)
qed

lemma outcome_flag_cmp:
  assumes "tokens_ok b ts"
  shows "outcome b 0 ts (flag_cmp ts)"
proof (rule tokens_okE [OF assms])
  fix t ts' assume t: "ts = t # ts'" "tok_kind t \<noteq> TokEOF \<Longrightarrow> tokens_ok b ts'"
  show ?thesis
  proof (cases "tok_kind t = TokCmp")
    case True
    then have "outcome b 1 ts' (pbind (parseLiteral ts') (\<lambda>(lit, ts2). Inr ((tok_text t, lit), ts2)))"
      using t by (intro outcome_bind [OF outcome_parseLiteral, where k = 0]) auto
    then show ?thesis using True t outcome_eats [OF eats_Cons, of t b 1 ts' _ 0]
      by (simp add: flag_cmp_def)
  qed (use t in \<open>simp add: flag_cmp_def\<close>)
qed

lemma outcome_parseFlag:
  assumes "tokens_ok b ts"
  shows "outcome b 3 ts (parseFlag p ts)"
  unfolding parseFlag_def
proof (rule outcome_bind [OF outcome_expect, where k = 2], simp_all add: assms)
  fix r assume r: "tokens_ok b r"
  show "outcome b 2 r (pbind (expect TokIdent ''flag name'' r) (\<lambda>(nameTok, ts2).
       if isKeyword (tok_text nameTok)
       then Inl (errf (tok_pos nameTok) (KeywordFlagName (tok_text nameTok)))
       else pbind (flag_cmp ts2) (\<lambda>((op, lit), ts3).
            pbind (expect TokRParen '')'' ts3) (\<lambda>(_, ts4). Inr (FlagCmp (tok_text nameTok) op lit p, ts4)))))"
  proof (rule tokens_okE [OF r])
    fix n r2 assume n: "r = n # r2" "tok_pos n \<le> b" "tok_kind n \<noteq> TokEOF \<Longrightarrow> tokens_ok b r2"
    show ?thesis
    proof (cases "tok_kind n = TokIdent \<and> \<not> isKeyword (tok_text n)")
      case True
      have "outcome b 1 r2 (pbind (flag_cmp r2) (\<lambda>((op, lit), ts3).
            pbind (expect TokRParen '')'' ts3) (\<lambda>(_, ts4). Inr (FlagCmp (tok_text n) op lit p, ts4))))"
        using n True
        by (intro outcome_bind [OF outcome_flag_cmp, where k = 1])
           (auto intro!: outcome_bind [OF outcome_expect, where k = 0])
      then show ?thesis using n True outcome_eats [OF eats_Cons, of n b 1 r2 _ 2]
        by (simp add: expect_def)
    qed (use n in \<open>auto simp: expect_def\<close>)
  qed
qed

lemma parse_outcome:
  "(\<forall>m d ts. 4 * length ts + 4 \<le> n \<longrightarrow> tokens_ok b ts \<longrightarrow> outcome b 1 ts (parseExpr n m d ts)) \<and>
   (\<forall>m d l ts. 4 * length ts + 1 \<le> n \<longrightarrow> tokens_ok b ts \<longrightarrow> outcome b 0 ts (parse_loop n m d l ts)) \<and>
   (\<forall>d ts. 4 * length ts + 3 \<le> n \<longrightarrow> tokens_ok b ts \<longrightarrow> outcome b 1 ts (parseUnary n d ts)) \<and>
   (\<forall>d ts. 4 * length ts + 2 \<le> n \<longrightarrow> tokens_ok b ts \<longrightarrow> outcome b 1 ts (parsePrimary n d ts)) \<and>
   (\<forall>op p d a ts. 4 * length ts + 5 \<le> n \<longrightarrow> tokens_ok b ts \<longrightarrow> outcome b 1 ts (parse_items n op p d a ts))"
  (is "?E n \<and> ?L n \<and> ?U n \<and> ?P n \<and> ?I n")
proof (induction n)
  case (Suc n)
  have E: "?E n" and L: "?L n" and U: "?U n" and P: "?P n" and I: "?I n" using Suc by simp_all
  have "?E (Suc n)"
  proof (intro allI impI)
    fix m d ts assume *: "4 * length ts + 4 \<le> Suc n" "tokens_ok b ts"
    show "outcome b 1 ts (parseExpr (Suc n) m d ts)"
      unfolding parseExpr.simps using U L *
      by (intro outcome_bind [where j = 1 and k = 0]) (auto dest!: eats_length)
  qed
  moreover have "?L (Suc n)"
  proof (intro allI impI)
    fix m d l ts assume *: "4 * length ts + 1 \<le> Suc n" "tokens_ok b ts"
    then obtain t ts1 where t: "ts = t # ts1" "tok_pos t \<le> b" "tok_kind t \<noteq> TokEOF \<Longrightarrow> tokens_ok b ts1"
      using tokens_okE by blast
    show "outcome b 0 ts (parse_loop (Suc n) m d l ts)"
    proof (cases "tok_kind t \<noteq> TokIdent \<or> opPrec (to_lower (tok_text t)) = 0 \<or> opPrec (to_lower (tok_text t)) < m")
      case False
      let ?op = "to_lower (tok_text t)"
      have "outcome b 1 ts1 (pbind (parseExpr n (opPrec ?op + 1) d ts1) (\<lambda>(right, ts2).
                   parse_loop n m d (Binary ?op l right (Pos l)) ts2))"
        using E L * t False
        by (intro outcome_bind [where j = 1 and k = 0]) (auto dest!: eats_length)
      then show ?thesis using False t outcome_eats [OF eats_Cons, of t b 1 ts1 _ 0]
        by (simp add: Let_def)
    qed (use t in \<open>auto simp: Let_def\<close>)
  qed
  moreover have "?U (Suc n)"
  proof (intro allI impI)
    fix d ts assume *: "4 * length ts + 3 \<le> Suc n" "tokens_ok b ts"
    then obtain t ts1 where t: "ts = t # ts1" "tok_pos t \<le> b" "tok_kind t \<noteq> TokEOF \<Longrightarrow> tokens_ok b ts1"
      using tokens_okE by blast
    have "tok_kind t = TokIdent \<Longrightarrow> outcome b 1 ts1 (pbind (parseUnary n (d + 1) ts1)
        (\<lambda>(x, ts2). Inr (Unary ''not'' x (tok_pos t), ts2)))"
      using U * t by (intro outcome_bind [where j = 1 and k = 0]) auto
    then show "outcome b 1 ts (parseUnary (Suc n) d ts)"
      using t P * outcome_eats [OF eats_Cons, of t b 1 ts1 _ 1] by auto
  qed
  moreover have "?P (Suc n)"
  proof (intro allI impI)
    fix d ts assume *: "4 * length ts + 2 \<le> Suc n" "tokens_ok b ts"
    then obtain t ts1 where t: "ts = t # ts1" "tok_pos t \<le> b" "tok_kind t \<noteq> TokEOF \<Longrightarrow> tokens_ok b ts1"
      using tokens_okE by blast
    have skip: "tok_kind t \<noteq> TokEOF \<Longrightarrow> outcome b 0 ts1 x \<Longrightarrow> outcome b 1 ts x" for x :: "parse_error + expr \<times> token list"
      using t outcome_eats [OF eats_Cons, of t b 0 ts1 x 1] by simp
    show "outcome b 1 ts (parsePrimary (Suc n) d ts)"
    proof (cases "tok_kind t")
      case TokLParen
      have "outcome b 0 ts1 (pbind (parseExpr n 0 d ts1) (\<lambda>(e, ts2).
              pbind (expect TokRParen '')'' ts2) (\<lambda>(_, ts3). Inr (e, ts3))))"
        using E * t TokLParen
        by (intro outcome_bind [where j = 1 and k = 1])
           (auto intro!: outcome_bind [OF outcome_expect, where k = 0])
      then show ?thesis using TokLParen t skip by simp
    next
      case TokIdent
      then have ok: "tokens_ok b ts1" using t by simp
      have "outcome b 0 ts1 (pbind (expect TokLParen w ts1) (\<lambda>(_, ts2). parse_items n op (tok_pos t) d None ts2))" for w op
        using I * t ok
        by (intro outcome_bind [OF outcome_expect, where k = 1]) (auto dest!: eats_length)
      moreover have "outcome b 0 ts1 (parseFlag (tok_pos t) ts1)"
        using outcome_eats [OF eats_refl outcome_parseFlag [OF ok], of 0] by simp
      ultimately show ?thesis using TokIdent t skip by (simp add: Let_def eats_Cons)
    qed (use t in auto)
  qed
  moreover have "?I (Suc n)"
  proof (intro allI impI)
    fix op p d a ts assume *: "4 * length ts + 5 \<le> Suc n" "tokens_ok b ts"
    show "outcome b 1 ts (parse_items (Suc n) op p d a ts)"
      unfolding parse_items.simps
    proof (rule outcome_bind [where j = 1 and k = 0])
      fix item r assume r: "eats 1 ts r" "tokens_ok b r"
      then obtain t r2 where t: "r = t # r2" "tok_pos t \<le> b" "tok_kind t \<noteq> TokEOF \<Longrightarrow> tokens_ok b r2"
        using tokens_okE by blast
      have "tok_kind t = TokComma \<Longrightarrow> outcome b 0 (t # r2) (parse_items n op p d (Some e) r2)" for e
        using I * r t by (intro outcome_eats [OF eats_Cons, where k = 1]) (auto dest!: eats_length)
      then show "outcome b 0 r ((\<lambda>(item, ts1).
         let e = (case a of None \<Rightarrow> item | Some a \<Rightarrow> Binary op a item p) in
         pbind (next_tok ts1) (\<lambda>(t, ts2).
           if tok_kind t = TokRParen then Inr (e, ts2)
           else if tok_kind t \<noteq> TokComma then Inl (errf (tok_pos t) (ExpectedCommaOrParen (tok_text t)))
           else parse_items n op p d (Some e) ts2)) (item, r))"
        using t eats_Cons0 [of t r2]
        by (auto simp: Let_def)
    qed (use E * in auto)
  qed
  ultimately show ?case by blast
qed simp

section \<open>The lexer's tokens\<close>

lemma lex_step_token: "lex_step i c cs = Inr (Some t, r) \<Longrightarrow> tok_pos t = i"
  by (auto simp: lex_step_def lexCmp_def lexString_def lexNumber_def lexIdent_def
      split: if_splits option.splits)

lemma lex_step_error: "lex_step i c cs = Inl e \<Longrightarrow> good_error i e"
  by (auto simp: lex_step_def lexCmp_def lexString_def split: if_splits option.splits)

lemma lex_from_tokens:
  "case lex_from i s of Inl e \<Rightarrow> good_error (i + length s) e | Inr ts \<Rightarrow> tokens_ok (i + length s) ts"
proof (induction i s rule: lex_from.induct)
  case (1 i)
  then show ?case by (simp add: tokens_ok_def)
next
  case (2 i c cs)
  show ?case
  proof (cases "lex_step i c cs")
    case (Inl e)
    then show ?thesis using lex_step_error [OF Inl] by (simp add: good_error_def)
  next
    case (Inr tr)
    obtain t r where tr: "tr = (t, r)" by (cases tr)
    have len: "length r \<le> length cs" using lex_step_length Inr tr by blast
    then have pos: "i + 1 + (length cs - length r) + length r = i + length (c # cs)" by simp
    have IH: "case lex_from (i + 1 + (length cs - length r)) r of
        Inl e \<Rightarrow> good_error (i + length (c # cs)) e | Inr ts \<Rightarrow> tokens_ok (i + length (c # cs)) ts"
      using 2 [OF Inr tr [symmetric]] tr unfolding pos by simp
    then show ?thesis using Inr tr lex_step_token [of i c cs]
      by (auto simp: tokens_ok_def split: sum.splits option.splits)
  qed
qed

lemma lex_ok: "lex src = Inr ts \<Longrightarrow> tokens_ok (length src) ts"
  using lex_from_tokens [of 0 src] by (simp add: lex_def)

lemma lex_error: "lex src = Inl e \<Longrightarrow> good_error (length src) e"
  using lex_from_tokens [of 0 src] by (simp add: lex_def)

lemma parse_tokens_outcome:
  assumes "tokens_ok b ts"
  shows "parse_tokens ts = Inl e \<Longrightarrow> good_error b e"
proof -
  have o: "outcome b 1 ts (parseExpr (parse_fuel ts) 0 0 ts)"
    using parse_outcome [of "parse_fuel ts" b] assms by (simp add: parse_fuel_def)
  assume e: "parse_tokens ts = Inl e"
  show ?thesis
  proof (cases "parseExpr (parse_fuel ts) 0 0 ts")
    case (Inr x)
    then obtain a r where x: "x = (a, r)" by (cases x)
    then have "tokens_ok b r" using o Inr eats_tokens_ok assms by fastforce
    then show ?thesis using e Inr x by (elim tokens_okE) (auto simp: parse_tokens_def split: if_splits)
  qed (use o e in \<open>simp add: parse_tokens_def\<close>)
qed

lemma Parse_total: "Parse src = Inl e \<Longrightarrow> good_error (length src) e"
  using lex_ok lex_error parse_tokens_outcome
  by (fastforce simp: Parse_def pbind_def split: sum.splits if_splits)

section \<open>More fuel changes nothing\<close>

definition settled :: "parse_error + 'a \<Rightarrow> bool" where
  "settled x \<longleftrightarrow> (\<forall>e. x = Inl e \<longrightarrow> Msg e \<noteq> OutOfFuel)"

lemma settled_simps [simp]: "settled (Inr a)" "settled (Inl (errf p m)) \<longleftrightarrow> m \<noteq> OutOfFuel"
  by (auto simp: settled_def errf_def)

lemma pbind_settled:
  assumes "settled (pbind r f)" "settled r \<Longrightarrow> r' = r"
    "\<And>a. r = Inr a \<Longrightarrow> settled (f a) \<Longrightarrow> f' a = f a"
  shows "pbind r' f' = pbind r f"
  using assms by (cases r) (auto simp: settled_def)

lemma parse_mono:
  "(\<forall>m d ts. settled (parseExpr n m d ts) \<longrightarrow> parseExpr (Suc n) m d ts = parseExpr n m d ts) \<and>
   (\<forall>m d l ts. settled (parse_loop n m d l ts) \<longrightarrow> parse_loop (Suc n) m d l ts = parse_loop n m d l ts) \<and>
   (\<forall>d ts. settled (parseUnary n d ts) \<longrightarrow> parseUnary (Suc n) d ts = parseUnary n d ts) \<and>
   (\<forall>d ts. settled (parsePrimary n d ts) \<longrightarrow> parsePrimary (Suc n) d ts = parsePrimary n d ts) \<and>
   (\<forall>op p d a ts. settled (parse_items n op p d a ts) \<longrightarrow>
      parse_items (Suc n) op p d a ts = parse_items n op p d a ts)"
  (is "?E n \<and> ?L n \<and> ?U n \<and> ?P n \<and> ?I n")
proof (induction n)
  case (Suc n)
  have E: "?E n" and L: "?L n" and U: "?U n" and P: "?P n" and I: "?I n" using Suc by simp_all
  have "?E (Suc n)"
    unfolding parseExpr.simps(2) [of "Suc n"] parseExpr.simps(2) [of n]
    by (intro allI impI, erule pbind_settled) (use U L in \<open>auto simp del: parseUnary.simps parse_loop.simps\<close>)
  moreover have "?L (Suc n)"
  proof (intro allI impI)
    fix m d l ts assume s: "settled (parse_loop (Suc n) m d l ts)"
    show "parse_loop (Suc (Suc n)) m d l ts = parse_loop (Suc n) m d l ts"
    proof (cases ts)
      case (Cons t ts1)
      show ?thesis
      proof (cases "tok_kind t \<noteq> TokIdent \<or> opPrec (to_lower (tok_text t)) = 0 \<or> opPrec (to_lower (tok_text t)) < m")
        case False
        let ?op = "to_lower (tok_text t)"
        have eq: "parse_loop (Suc k) m d l ts = pbind (parseExpr k (opPrec ?op + 1) d ts1) (\<lambda>(right, ts2).
                   parse_loop k m d (Binary ?op l right (Pos l)) ts2)" for k
          using False Cons by (simp add: Let_def)
        show ?thesis using s unfolding eq
          by (rule pbind_settled) (use E L in \<open>auto simp del: parseExpr.simps parse_loop.simps\<close>)
      qed (use Cons in \<open>auto simp: Let_def\<close>)
    qed simp
  qed
  moreover have "?U (Suc n)"
  proof (intro allI impI)
    fix d ts assume s: "settled (parseUnary (Suc n) d ts)"
    show "parseUnary (Suc (Suc n)) d ts = parseUnary (Suc n) d ts"
    proof (cases ts)
      case (Cons t ts1)
      have "settled (pbind (parseUnary n (d + 1) ts1) (\<lambda>(x, ts2). Inr (Unary ''not'' x (tok_pos t), ts2))) \<Longrightarrow>
        pbind (parseUnary (Suc n) (d + 1) ts1) (\<lambda>(x, ts2). Inr (Unary ''not'' x (tok_pos t), ts2)) =
        pbind (parseUnary n (d + 1) ts1) (\<lambda>(x, ts2). Inr (Unary ''not'' x (tok_pos t), ts2))"
        by (erule pbind_settled) (use U in \<open>auto simp del: parseUnary.simps\<close>)
      then show ?thesis using s Cons P
        unfolding parseUnary.simps(2) [of "Suc n"] parseUnary.simps(2) [of n]
        by (auto simp del: parsePrimary.simps parseUnary.simps split: if_splits)
    qed simp
  qed
  moreover have "?P (Suc n)"
  proof (intro allI impI)
    fix d ts assume s: "settled (parsePrimary (Suc n) d ts)"
    show "parsePrimary (Suc (Suc n)) d ts = parsePrimary (Suc n) d ts"
    proof (cases ts)
      case (Cons t ts1)
      show ?thesis
      proof (cases "tok_kind t")
        case TokLParen
        have eq: "parsePrimary (Suc k) d ts = pbind (parseExpr k 0 d ts1) (\<lambda>(e, ts2).
              pbind (expect TokRParen '')'' ts2) (\<lambda>(_, ts3). Inr (e, ts3)))" for k
          using TokLParen Cons by simp
        show ?thesis using s unfolding eq by (rule pbind_settled) (use E in \<open>auto simp del: parseExpr.simps\<close>)
      next
        case TokIdent
        let ?low = "to_lower (tok_text t)"
        show ?thesis
        proof (cases "?low = ''all'' \<or> ?low = ''any''")
          case True
          have eq: "parsePrimary (Suc k) d ts = pbind (expect TokLParen (''( after '' @ ?low) ts1) (\<lambda>(_, ts2).
               parse_items k (if ?low = ''any'' then ''or'' else ''and'') (tok_pos t) d None ts2)" for k
            using TokIdent Cons True by (auto simp: Let_def)
          show ?thesis using s unfolding eq by (rule pbind_settled) (use I in \<open>auto simp del: parse_items.simps\<close>)
        qed (use Cons TokIdent in \<open>simp add: Let_def\<close>)
      qed (use Cons in simp_all)
    qed simp
  qed
  moreover have "?I (Suc n)"
  proof (intro allI impI)
    fix op p d a ts assume s: "settled (parse_items (Suc n) op p d a ts)"
    define e where "e item = (case a of None \<Rightarrow> item | Some a \<Rightarrow> Binary op a item p)" for item
    have eq: "parse_items (Suc k) op p d a ts = pbind (parseExpr k 0 d ts) (\<lambda>(item, ts1).
       pbind (next_tok ts1) (\<lambda>(t, ts2).
         if tok_kind t = TokRParen then Inr (e item, ts2)
         else if tok_kind t \<noteq> TokComma then Inl (errf (tok_pos t) (ExpectedCommaOrParen (tok_text t)))
         else parse_items k op p d (Some (e item)) ts2))" for k
      unfolding parse_items.simps e_def Let_def ..
    show "parse_items (Suc (Suc n)) op p d a ts = parse_items (Suc n) op p d a ts"
      using s unfolding eq
    proof (rule pbind_settled)
      fix x assume "settled ((\<lambda>(item, ts1). pbind (next_tok ts1) (\<lambda>(t, ts2).
         if tok_kind t = TokRParen then Inr (e item, ts2)
         else if tok_kind t \<noteq> TokComma then Inl (errf (tok_pos t) (ExpectedCommaOrParen (tok_text t)))
         else parse_items n op p d (Some (e item)) ts2)) x)"
      then show "(\<lambda>(item, ts1). pbind (next_tok ts1) (\<lambda>(t, ts2).
         if tok_kind t = TokRParen then Inr (e item, ts2)
         else if tok_kind t \<noteq> TokComma then Inl (errf (tok_pos t) (ExpectedCommaOrParen (tok_text t)))
         else parse_items (Suc n) op p d (Some (e item)) ts2)) x =
        (\<lambda>(item, ts1). pbind (next_tok ts1) (\<lambda>(t, ts2).
         if tok_kind t = TokRParen then Inr (e item, ts2)
         else if tok_kind t \<noteq> TokComma then Inl (errf (tok_pos t) (ExpectedCommaOrParen (tok_text t)))
         else parse_items n op p d (Some (e item)) ts2)) x"
        by (cases x, simp del: parse_items.simps, elim pbind_settled)
           (use I in \<open>auto simp del: parse_items.simps\<close>)
    qed (use E in \<open>auto simp del: parseExpr.simps\<close>)
  qed
  ultimately show ?case by blast
qed simp

section \<open>Fuel-free equations\<close>

definition PE :: "nat \<Rightarrow> nat \<Rightarrow> token list \<Rightarrow> parse_error + (expr \<times> token list)" where
  "PE m d ts = parseExpr (Suc (4 * length ts + 3)) m d ts"

definition PL :: "nat \<Rightarrow> nat \<Rightarrow> expr \<Rightarrow> token list \<Rightarrow> parse_error + (expr \<times> token list)" where
  "PL m d l ts = parse_loop (Suc (4 * length ts)) m d l ts"

definition PU :: "nat \<Rightarrow> token list \<Rightarrow> parse_error + (expr \<times> token list)" where
  "PU d ts = parseUnary (Suc (4 * length ts + 2)) d ts"

definition PP :: "nat \<Rightarrow> token list \<Rightarrow> parse_error + (expr \<times> token list)" where
  "PP d ts = parsePrimary (Suc (4 * length ts + 1)) d ts"

lemma outcome_settled: "outcome b k ts x \<Longrightarrow> settled x"
  by (auto simp: outcome_def settled_def good_error_def split: sum.splits)

lemma lift_fuel:
  assumes "\<And>n. settled (f n) \<Longrightarrow> f (Suc n) = f n" "settled (f n)" "n \<le> k"
  shows "f k = f n"
  using assms(3)
proof (induction rule: dec_induct)
  case (step j)
  then show ?case using assms(1) [of j] assms(2) by simp
qed simp

lemmas parseExpr_outcome = parse_outcome [THEN conjunct1, rule_format]
lemmas parse_loop_outcome = parse_outcome [THEN conjunct2, THEN conjunct1, rule_format]
lemmas parseUnary_outcome = parse_outcome [THEN conjunct2, THEN conjunct2, THEN conjunct1, rule_format]
lemmas parsePrimary_outcome =
  parse_outcome [THEN conjunct2, THEN conjunct2, THEN conjunct2, THEN conjunct1, rule_format]

lemmas parseExpr_mono = parse_mono [THEN conjunct1, rule_format]
lemmas parse_loop_mono = parse_mono [THEN conjunct2, THEN conjunct1, rule_format]
lemmas parseUnary_mono = parse_mono [THEN conjunct2, THEN conjunct2, THEN conjunct1, rule_format]
lemmas parsePrimary_mono =
  parse_mono [THEN conjunct2, THEN conjunct2, THEN conjunct2, THEN conjunct1, rule_format]

lemma PE_fuel:
  assumes "tokens_ok b ts" "Suc (4 * length ts + 3) \<le> n"
  shows "parseExpr n m d ts = PE m d ts"
  unfolding PE_def
  by (rule lift_fuel [where f = "\<lambda>n. parseExpr n m d ts", OF parseExpr_mono
      outcome_settled [OF parseExpr_outcome [OF _ assms(1)]] assms(2)]) simp_all

lemma PL_fuel:
  assumes "tokens_ok b ts" "Suc (4 * length ts) \<le> n"
  shows "parse_loop n m d l ts = PL m d l ts"
  unfolding PL_def
  by (rule lift_fuel [where f = "\<lambda>n. parse_loop n m d l ts", OF parse_loop_mono
      outcome_settled [OF parse_loop_outcome [OF _ assms(1)]] assms(2)]) simp_all

lemma PU_fuel:
  assumes "tokens_ok b ts" "Suc (4 * length ts + 2) \<le> n"
  shows "parseUnary n d ts = PU d ts"
  unfolding PU_def
  by (rule lift_fuel [where f = "\<lambda>n. parseUnary n d ts", OF parseUnary_mono
      outcome_settled [OF parseUnary_outcome [OF _ assms(1)]] assms(2)]) simp_all

lemma PP_fuel:
  assumes "tokens_ok b ts" "Suc (4 * length ts + 1) \<le> n"
  shows "parsePrimary n d ts = PP d ts"
  unfolding PP_def
  by (rule lift_fuel [where f = "\<lambda>n. parsePrimary n d ts", OF parsePrimary_mono
      outcome_settled [OF parsePrimary_outcome [OF _ assms(1)]] assms(2)]) simp_all

lemma PE_outcome: "tokens_ok b ts \<Longrightarrow> outcome b 1 ts (PE m d ts)"
  unfolding PE_def by (rule parseExpr_outcome) simp_all

lemma PU_outcome: "tokens_ok b ts \<Longrightarrow> outcome b 1 ts (PU d ts)"
  unfolding PU_def by (rule parseUnary_outcome) simp_all

lemma pbind_cong_ok:
  assumes "\<And>a r. x = Inr (a, r) \<Longrightarrow> f (a, r) = g (a, r)"
  shows "pbind x f = pbind x g"
  using assms by (cases x) auto

lemma PE_eq:
  assumes "tokens_ok b ts"
  shows "PE m d ts = pbind (PU d ts) (\<lambda>(left, ts1). PL m d left ts1)"
proof -
  have "PE m d ts = pbind (PU d ts) (\<lambda>(left, ts1). parse_loop (4 * length ts + 3) m d left ts1)"
    unfolding PE_def parseExpr.simps(2) using PU_fuel [OF assms, of "4 * length ts + 3" d] by simp
  also have "\<dots> = pbind (PU d ts) (\<lambda>(left, ts1). PL m d left ts1)"
  proof (rule pbind_cong_ok)
    fix a r assume "PU d ts = Inr (a, r)"
    then have e: "eats 1 ts r" using PU_outcome [OF assms, of d] by simp
    have "parse_loop (4 * length ts + 3) m d a r = PL m d a r"
      using eats_tokens_ok [OF e assms] eats_length [OF e] by (intro PL_fuel) auto
    then show "(case (a, r) of (left, ts1) \<Rightarrow> parse_loop (4 * length ts + 3) m d left ts1) =
        (case (a, r) of (left, ts1) \<Rightarrow> PL m d left ts1)" by simp
  qed
  finally show ?thesis .
qed

lemma PL_stop:
  assumes "tok_kind t \<noteq> TokIdent \<or> opPrec (to_lower (tok_text t)) = 0 \<or> opPrec (to_lower (tok_text t)) < m"
  shows "PL m d l (t # ts) = Inr (l, t # ts)"
  unfolding PL_def parse_loop.simps(2) Let_def using assms by auto

lemma PL_op:
  assumes "tokens_ok b (t # ts)" "tok_kind t = TokIdent" "op = to_lower (tok_text t)"
    "opPrec op \<noteq> 0" "m \<le> opPrec op"
  shows "PL m d l (t # ts) =
    pbind (PE (opPrec op + 1) d ts) (\<lambda>(right, ts2). PL m d (Binary op l right (Pos l)) ts2)"
proof -
  let ?n = "4 * length (t # ts)"
  have ok: "tokens_ok b ts" using assms by (elim tokens_okE) auto
  have "PL m d l (t # ts) = pbind (parseExpr ?n (opPrec op + 1) d ts)
      (\<lambda>(right, ts2). parse_loop ?n m d (Binary op l right (Pos l)) ts2)"
    using assms unfolding PL_def parse_loop.simps(2) Let_def by auto
  also have "parseExpr ?n (opPrec op + 1) d ts = PE (opPrec op + 1) d ts"
    by (rule PE_fuel [OF ok]) simp
  also have "pbind (PE (opPrec op + 1) d ts) (\<lambda>(right, ts2). parse_loop ?n m d (Binary op l right (Pos l)) ts2)
      = pbind (PE (opPrec op + 1) d ts) (\<lambda>(right, ts2). PL m d (Binary op l right (Pos l)) ts2)"
  proof (rule pbind_cong_ok)
    fix a r assume "PE (opPrec op + 1) d ts = Inr (a, r)"
    then have e: "eats 1 ts r" using PE_outcome [OF ok, of "opPrec op + 1" d] by simp
    have "parse_loop ?n m d (Binary op l a (Pos l)) r = PL m d (Binary op l a (Pos l)) r"
      using eats_tokens_ok [OF e ok] eats_length [OF e] by (intro PL_fuel) auto
    then show "(case (a, r) of (right, ts2) \<Rightarrow> parse_loop ?n m d (Binary op l right (Pos l)) ts2) =
        (case (a, r) of (right, ts2) \<Rightarrow> PL m d (Binary op l right (Pos l)) ts2)" by simp
  qed
  finally show ?thesis .
qed

lemma PU_not:
  assumes "tokens_ok b (t # ts)" "d < maxNesting" "tok_kind t = TokIdent" "to_lower (tok_text t) = ''not''"
  shows "PU d (t # ts) = pbind (PU (d + 1) ts) (\<lambda>(x, ts2). Inr (Unary ''not'' x (tok_pos t), ts2))"
proof -
  have ok: "tokens_ok b ts" using assms by (elim tokens_okE) auto
  have "parseUnary (4 * length (t # ts) + 2) (d + 1) ts = PU (d + 1) ts"
    by (rule PU_fuel [OF ok]) simp
  then show ?thesis using assms unfolding PU_def [of d] parseUnary.simps(2) by simp
qed

lemma PU_primary:
  assumes "tokens_ok b (t # ts)" "d < maxNesting" "\<not> (tok_kind t = TokIdent \<and> to_lower (tok_text t) = ''not'')"
  shows "PU d (t # ts) = PP (d + 1) (t # ts)"
proof -
  have "parsePrimary (4 * length (t # ts) + 2) (d + 1) (t # ts) = PP (d + 1) (t # ts)"
    by (rule PP_fuel [OF assms(1)]) simp
  then show ?thesis using assms unfolding PU_def parseUnary.simps(2) by auto
qed

lemma PP_paren:
  assumes "tokens_ok b (t # ts)" "tok_kind t = TokLParen"
  shows "PP d (t # ts) = pbind (PE 0 d ts) (\<lambda>(e, ts2).
     pbind (expect TokRParen '')'' ts2) (\<lambda>(_, ts3). Inr (e, ts3)))"
proof -
  have ok: "tokens_ok b ts" using assms by (elim tokens_okE) auto
  have "parseExpr (4 * length (t # ts) + 1) 0 d ts = PE 0 d ts"
    by (rule PE_fuel [OF ok]) simp
  then show ?thesis using assms unfolding PP_def parsePrimary.simps(2) by simp
qed

lemma PP_ident:
  assumes "tok_kind t = TokIdent" "\<not> isKeyword (tok_text t)"
  shows "PP d (t # ts) = Inr (NodeRef (tok_text t) (tok_pos t), ts)"
  using assms unfolding PP_def parsePrimary.simps(2)
  by (simp add: isKeyword_def binary_keywords_def Let_def)

lemma PP_flag:
  assumes "tok_kind t = TokIdent" "to_lower (tok_text t) = ''flag''"
  shows "PP d (t # ts) = parseFlag (tok_pos t) ts"
  using assms unfolding PP_def parsePrimary.simps(2) by (simp add: Let_def)

lemma parse_tokens_eq:
  assumes "tokens_ok b ts"
  shows "parse_tokens ts = pbind (PE 0 0 ts) (\<lambda>(e, ts1).
       case ts1 of
         [] \<Rightarrow> panic
       | t # _ \<Rightarrow> if tok_kind t \<noteq> TokEOF then Inl (errf (tok_pos t) (UnexpectedText (tok_text t))) else Inr e)"
  unfolding parse_tokens_def using PE_fuel [OF assms, of "parse_fuel ts" 0 0] by (simp add: parse_fuel_def)

end
