(* ===== verification/Dsl_Roundtrip.thy ===== *)
theory Dsl_Roundtrip
  imports Dsl_Eval Dsl_Parser_Facts
begin

text \<open>
  Printing then parsing. \<open>expr_ok\<close> is the set of expression trees whose canonical text
  (\<^verbatim>\<open>Expr.String\<close>) the lexer can read back: ASCII identifiers that are not
  keywords, number texts the lexer accepts, string literals without characters that
  \<^verbatim>\<open>strconv.Quote\<close> escapes. For such trees the printed text is lexed to the
  expected tokens (\<open>lexes_expr\<close>), the Pratt loop rebuilds the tree (\<open>parses_printed\<close>) and
  \<^verbatim>\<open>Parse\<close> gives it back up to the recorded positions, as long as its nesting is
  within the parser's limit.
\<close>

section \<open>Printable expressions\<close>

fun strip_pos :: "expr \<Rightarrow> expr" where
  "strip_pos (NodeRef i _) = NodeRef i 0"
| "strip_pos (FlagCmp n op v _) = FlagCmp n op v 0"
| "strip_pos (Unary op x _) = Unary op (strip_pos x) 0"
| "strip_pos (Binary op l r _) = Binary op (strip_pos l) (strip_pos r) 0"

definition ident_ok :: "string \<Rightarrow> bool" where
  "ident_ok s \<longleftrightarrow> s \<noteq> [] \<and> isIdentStart (hd s) \<and> list_all isIdentPart (tl s)"

definition name_ok :: "string \<Rightarrow> bool" where
  "name_ok s \<longleftrightarrow> ident_ok s \<and> is_ascii s \<and> \<not> isKeyword s"

definition number_ok :: "string \<Rightarrow> bool" where
  "number_ok t \<longleftrightarrow> t \<noteq> [] \<and> list_all isNumberPart (tl t) \<and>
     (is_digit (hd t) \<or> (hd t = CHR ''-'' \<and> tl t \<noteq> [] \<and> is_digit (hd (tl t))))"

definition cmp_ops :: "string set" where
  "cmp_ops = {''=='', ''!='', ''>='', ''<='', ''>'', ''<''}"

definition lit_ok :: "literal \<Rightarrow> bool" where
  "lit_ok v \<longleftrightarrow>
     (\<exists>t n. v = num_literal t n \<and> number_ok t \<and> parse_float t = Some n) \<or>
     (\<exists>b. v = bool_literal b) \<or>
     (\<exists>s. v = str_literal s \<and> list_all plain_char s)"

definition bool_ops :: "string set" where
  "bool_ops = {''and'', ''or'', ''xor'', ''nand'', ''nor''}"

fun expr_ok :: "expr \<Rightarrow> bool" where
  "expr_ok (NodeRef i _) = name_ok i"
| "expr_ok (FlagCmp n op v _) = (name_ok n \<and> (if op = [] then v = zero_literal else op \<in> cmp_ops \<and> lit_ok v))"
| "expr_ok (Unary op x _) = (op = ''not'' \<and> expr_ok x)"
| "expr_ok (Binary op l r _) = (op \<in> bool_ops \<and> expr_ok l \<and> expr_ok r)"

text \<open>Open \<^verbatim>\<open>parseUnary\<close> frames while the canonical text is parsed.\<close>

fun print_depth :: "expr \<Rightarrow> nat" where
  "print_depth (NodeRef _ _) = 1"
| "print_depth (FlagCmp _ _ _ _) = 1"
| "print_depth (Unary _ x _) = 1 + (if needsParens x precNot then 1 else 0) + print_depth x"
| "print_depth (Binary op l r _) =
     max ((if needsParens l (opPrec op) then 1 else 0) + print_depth l)
         ((if needsParens r (opPrec op) \<or> samePrecBinary r (opPrec op) then 1 else 0) + print_depth r)"

section \<open>Tokens of the canonical text\<close>

type_synonym ktok = "tokKind \<times> string"

definition kt :: "token \<Rightarrow> ktok" where
  "kt t = (tok_kind t, tok_text t)"

definition lit_ktok :: "literal \<Rightarrow> ktok" where
  "lit_ktok v = (if is_num v then (TokNumber, raw_string (\<lambda>_. True) (lit_raw v))
                 else if is_bool v then (TokIdent, if lit_bool v then ''true'' else ''false'')
                 else (TokString, lit_str v))"

definition kparens :: "bool \<Rightarrow> ktok list \<Rightarrow> ktok list" where
  "kparens b ks = (if b then (TokLParen, ''('') # ks @ [(TokRParen, '')'')] else ks)"

fun ktoks :: "expr \<Rightarrow> ktok list" where
  "ktoks (NodeRef i _) = [(TokIdent, i)]"
| "ktoks (FlagCmp n op v _) =
     [(TokIdent, ''flag''), (TokLParen, ''(''), (TokIdent, n)] @
     (if op = [] then [] else [(TokCmp, op), lit_ktok v]) @ [(TokRParen, '')'')]"
| "ktoks (Unary op x _) = (TokIdent, ''not'') # kparens (needsParens x precNot) (ktoks x)"
| "ktoks (Binary op l r _) =
     kparens (needsParens l (opPrec op)) (ktoks l) @ (TokIdent, op) #
     kparens (needsParens r (opPrec op) \<or> samePrecBinary r (opPrec op)) (ktoks r)"

subsection \<open>The lexer reads them\<close>

definition lexes_as :: "string \<Rightarrow> ktok list \<Rightarrow> string \<Rightarrow> bool" where
  "lexes_as s ks rest \<longleftrightarrow>
     (\<forall>i. \<exists>ts. map kt ts = ks \<and>
        lex_from i (s @ rest) = map_sum id ((@) ts) (lex_from (i + length s) rest))"

lemma lexes_as_append:
  assumes "lexes_as s ks (s' @ rest)" "lexes_as s' ks' rest"
  shows "lexes_as (s @ s') (ks @ ks') rest"
  unfolding lexes_as_def
proof
  fix i
  obtain ts where ts: "map kt ts = ks"
    "lex_from i (s @ s' @ rest) = map_sum id ((@) ts) (lex_from (i + length s) (s' @ rest))"
    using assms(1) unfolding lexes_as_def by blast
  obtain ts' where ts': "map kt ts' = ks'"
    "lex_from (i + length s) (s' @ rest) = map_sum id ((@) ts') (lex_from (i + length s + length s') rest)"
    using assms(2) unfolding lexes_as_def by blast
  show "\<exists>us. map kt us = ks @ ks' \<and>
      lex_from i ((s @ s') @ rest) = map_sum id ((@) us) (lex_from (i + length (s @ s')) rest)"
    using ts ts' by (intro exI [of _ "ts @ ts'"])
      (cases "lex_from (i + length s + length s') rest", simp_all add: add.assoc)
qed

lemma lexes_step:
  assumes "\<And>i. lex_step i c (cs @ rest) = Inr (Some (tok k t i), rest)"
  shows "lexes_as (c # cs) [(k, t)] rest"
  unfolding lexes_as_def
proof
  fix i
  show "\<exists>ts. map kt ts = [(k, t)] \<and>
        lex_from i ((c # cs) @ rest) = map_sum id ((@) ts) (lex_from (i + length (c # cs)) rest)"
    using assms [of i]
    by (intro exI [of _ "[tok k t i]"]) (simp add: kt_def split: sum.split)
qed

lemma lexes_space: "lexes_as '' '' [] rest"
  unfolding lexes_as_def
  by (intro allI exI [of _ "[]"]) (simp add: lex_step_def isBlank_def split: sum.split)

lemma lexes_lparen: "lexes_as ''('' [(TokLParen, ''('')] rest"
  by (rule lexes_step) (simp add: lex_step_def isBlank_def)

lemma lexes_rparen: "lexes_as '')'' [(TokRParen, '')'')] rest"
  by (rule lexes_step) (simp add: lex_step_def isBlank_def)

lemma ident_start_class:
  assumes "isIdentStart c"
  shows "\<not> isBlank c" "c \<noteq> CHR ''(''" "c \<noteq> CHR '')''" "c \<noteq> CHR '',''" "\<not> isCmpStart c" "\<not> isQuote c"
    "\<not> is_digit c" "c \<noteq> CHR ''-''"
  using assms
  by (auto simp: isIdentStart_def latin1_letter_def isBlank_def isCmpStart_def isQuote_def is_digit_def byte_def)

lemma takeWhile_stop: "list_all P s \<Longrightarrow> rest = [] \<or> \<not> P (hd rest) \<Longrightarrow>
   takeWhile P (s @ rest) = s \<and> dropWhile P (s @ rest) = rest"
  by (induction s) (cases rest; auto)+

lemma lexes_ident:
  assumes "ident_ok s" "rest = [] \<or> \<not> isIdentPart (hd rest)"
  shows "lexes_as s [(TokIdent, s)] rest"
proof (cases s)
  case (Cons c cs)
  have c: "isIdentStart c" and cs: "list_all isIdentPart cs" using assms Cons by (auto simp: ident_ok_def)
  have "lexes_as (c # cs) [(TokIdent, c # cs)] rest"
    using ident_start_class [OF c] c takeWhile_stop [OF cs assms(2)]
    by (intro lexes_step) (simp add: lex_step_def lexIdent_def)
  then show ?thesis using Cons by simp
qed (use assms in \<open>simp add: ident_ok_def\<close>)

lemma digit_class:
  assumes "is_digit c \<or> c = CHR ''-''"
  shows "\<not> isBlank c" "c \<noteq> CHR ''(''" "c \<noteq> CHR '')''" "c \<noteq> CHR '',''" "\<not> isCmpStart c" "\<not> isQuote c"
  using assms by (auto simp: isBlank_def isCmpStart_def isQuote_def is_digit_def byte_def)

lemma lexes_number:
  assumes "number_ok t" "rest = [] \<or> \<not> isNumberPart (hd rest)"
  shows "lexes_as t [(TokNumber, t)] rest"
proof (cases t)
  case (Cons c cs)
  have c: "is_digit c \<or> (c = CHR ''-'' \<and> cs \<noteq> [] \<and> is_digit (hd cs))" and cs: "list_all isNumberPart cs"
    using assms Cons by (auto simp: number_ok_def)
  have "lexes_as (c # cs) [(TokNumber, c # cs)] rest"
    using digit_class [of c] c takeWhile_stop [OF cs assms(2)]
    by (intro lexes_step) (auto simp: lex_step_def lexNumber_def)
  then show ?thesis using Cons by simp
qed (use assms in \<open>simp add: number_ok_def\<close>)

lemma string_body_plain:
  "list_all plain_char s \<Longrightarrow> string_body (CHR 0x22) (s @ CHR 0x22 # rest) = Some (s, rest)"
  by (induction s) (auto simp: plain_char_def byte_def)

lemma lexes_string:
  assumes "list_all plain_char s"
  shows "lexes_as (quote ip s) [(TokString, s)] rest"
proof -
  have q: "quote ip s = CHR 0x22 # s @ [CHR 0x22]"
    using quote_plain assms by (simp add: list_all_iff)
  show ?thesis unfolding q
    using string_body_plain [OF assms]
    by (intro lexes_step) (simp add: lex_step_def isBlank_def isCmpStart_def isQuote_def lexString_def)
qed

lemma lexes_cmp:
  assumes "op \<in> cmp_ops"
  shows "lexes_as op [(TokCmp, op)] ('' '' @ rest)"
  using assms unfolding cmp_ops_def
  by (elim insertE; simp; intro lexes_step; simp add: lex_step_def isBlank_def isCmpStart_def lexCmp_def)


definition delim :: "string \<Rightarrow> bool" where
  "delim rest \<longleftrightarrow> rest = [] \<or> hd rest = CHR '' '' \<or> hd rest = CHR '')''"

lemma delim_simps [simp]: "delim []" "delim (CHR '' '' # r)" "delim (CHR '')'' # r)"
  by (simp_all add: delim_def)

lemma delim_stops: "delim rest \<Longrightarrow> rest = [] \<or> \<not> isIdentPart (hd rest)"
  "delim rest \<Longrightarrow> rest = [] \<or> \<not> isNumberPart (hd rest)"
  by (auto simp: delim_def isIdentPart_def isNumberPart_def latin1_letter_def is_digit_def byte_def)

lemma lexes_literal:
  assumes "lit_ok v" "delim rest"
  shows "lexes_as (Literal_String ip v) [lit_ktok v] rest"
proof -
  have bool: "ident_ok ''true''" "ident_ok ''false''" by code_simp+
  from assms(1) consider (n) t n where "v = num_literal t n" "number_ok t"
    | (b) b where "v = bool_literal b" | (s) s where "v = str_literal s" "list_all plain_char s"
    unfolding lit_ok_def by blast
  then show ?thesis
  proof cases
    case n
    then show ?thesis using lexes_number delim_stops(2) [OF assms(2)]
      by (simp add: Literal_String_def num_literal_def lit_ktok_def)
  next
    case b
    then show ?thesis using lexes_ident bool delim_stops(1) [OF assms(2)]
      by (simp add: Literal_String_def bool_literal_def lit_ktok_def zero_literal_def)
  next
    case s
    then show ?thesis using lexes_string
      by (simp add: Literal_String_def str_literal_def lit_ktok_def zero_literal_def)
  qed
qed

lemma lexes_parens:
  assumes "\<And>rest. delim rest \<Longrightarrow> lexes_as s ks rest" "delim rest"
  shows "lexes_as (parens b s) (kparens b ks) rest"
proof (cases b)
  case True
  have "lexes_as (''('' @ s @ '')'') ([(TokLParen, ''('')] @ ks @ [(TokRParen, '')'')]) rest"
    by (intro lexes_as_append lexes_lparen lexes_rparen assms) simp
  then show ?thesis using True by (simp add: parens_def kparens_def)
qed (use assms in \<open>simp add: parens_def kparens_def\<close>)

lemma bool_ops_facts:
  assumes "op \<in> bool_ops"
  shows "ident_ok op" "to_lower op = op" "opPrec op \<noteq> 0" "opPrec op < precNot"
proof -
  have "ident_ok op \<and> to_lower op = op \<and> opPrec op \<noteq> 0 \<and> opPrec op < precNot"
    using assms unfolding bool_ops_def by (elim insertE emptyE; hypsubst; code_simp)
  then show "ident_ok op" "to_lower op = op" "opPrec op \<noteq> 0" "opPrec op < precNot" by blast+
qed

lemma lexes_expr:
  assumes "expr_ok e" "delim rest"
  shows "lexes_as (Expr_String ip e) (ktoks e) rest"
  using assms
proof (induction e arbitrary: rest)
  case (NodeRef i p)
  then show ?case using lexes_ident delim_stops(1) by (simp add: name_ok_def)
next
  case (FlagCmp n op v p)
  have fl: "ident_ok ''flag''" by code_simp
  have n: "ident_ok n" using FlagCmp.prems by (simp add: name_ok_def)
  have np: "\<not> isIdentPart (CHR ''('')" "\<not> isIdentPart (CHR '')'')" "\<not> isIdentPart (CHR '' '')" by code_simp+
  show ?case
  proof (cases "op = []")
    case True
    have "lexes_as (''flag'' @ ''('' @ n @ '')'')
       ([(TokIdent, ''flag'')] @ [(TokLParen, ''('')] @ [(TokIdent, n)] @ [(TokRParen, '')'')]) rest"
      by (intro lexes_as_append lexes_lparen lexes_rparen lexes_ident fl n) (simp_all add: np)
    then show ?thesis using True by simp
  next
    case False
    then have op: "op \<in> cmp_ops" and v: "lit_ok v" using FlagCmp.prems by auto
    have "lexes_as (''flag'' @ ''('' @ n @ '' '' @ op @ '' '' @ Literal_String ip v @ '')'')
       ([(TokIdent, ''flag'')] @ [(TokLParen, ''('')] @ [(TokIdent, n)] @ [] @ [(TokCmp, op)] @ [] @
        [lit_ktok v] @ [(TokRParen, '')'')]) rest"
      using lexes_cmp [OF op]
      by (intro lexes_as_append lexes_lparen lexes_rparen lexes_ident lexes_space lexes_literal fl n v)
         (simp_all add: np)
    then show ?thesis using False by simp
  qed
next
  case (Unary op x p)
  have nt: "ident_ok ''not''" by code_simp
  have np: "\<not> isIdentPart (CHR '' '')" by code_simp
  have "lexes_as (''not'' @ '' '' @ parens (needsParens x precNot) (Expr_String ip x))
     ([(TokIdent, ''not'')] @ [] @ kparens (needsParens x precNot) (ktoks x)) rest"
    using Unary by (intro lexes_as_append lexes_space lexes_ident lexes_parens nt) (auto simp: np)
  then show ?case by simp
next
  case (Binary op l r p)
  have np: "\<not> isIdentPart (CHR '' '')" by code_simp
  let ?bl = "needsParens l (opPrec op)" and ?br = "needsParens r (opPrec op) \<or> samePrecBinary r (opPrec op)"
  have "lexes_as (parens ?bl (Expr_String ip l) @ '' '' @ op @ '' '' @ parens ?br (Expr_String ip r))
     (kparens ?bl (ktoks l) @ [] @ [(TokIdent, op)] @ [] @ kparens ?br (ktoks r)) rest"
    using Binary bool_ops_facts(1) [of op]
    by (intro lexes_as_append lexes_space lexes_ident lexes_parens) (auto simp: np)
  then show ?case by simp
qed


subsection \<open>The parser rebuilds the tree\<close>

definition prec_of :: "expr \<Rightarrow> nat" where
  "prec_of e = (case e of Binary op _ _ _ \<Rightarrow> opPrec op | _ \<Rightarrow> precNot)"

definition stops_at :: "nat \<Rightarrow> token list \<Rightarrow> bool" where
  "stops_at k ts \<longleftrightarrow> (case ts of [] \<Rightarrow> False | t # _ \<Rightarrow>
     tok_kind t \<noteq> TokIdent \<or> opPrec (to_lower (tok_text t)) = 0 \<or> opPrec (to_lower (tok_text t)) < k)"

lemma PL_stops: "stops_at k ts \<Longrightarrow> PL k d l ts = Inr (l, ts)"
  by (cases ts) (auto simp: stops_at_def intro: PL_stop)

lemma stops_at_mono: "stops_at k ts \<Longrightarrow> k \<le> k' \<Longrightarrow> stops_at k' ts"
  by (auto simp: stops_at_def split: list.splits)

lemma opPrec_le: "opPrec op \<le> 3"
  by (simp add: opPrec_def prec_defs)

lemma stops_at_4: "tokens_ok b ts \<Longrightarrow> stops_at 4 ts"
proof (erule tokens_okE)
  fix t ts' assume "ts = t # ts'"
  moreover have "opPrec (to_lower (tok_text t)) < 4" using opPrec_le [of "to_lower (tok_text t)"] by simp
  ultimately show "stops_at 4 ts" by (simp add: stops_at_def)
qed

lemma map_kt_append:
  assumes "map kt ts = ks1 @ ks2"
  obtains us vs where "ts = us @ vs" "map kt us = ks1" "map kt vs = ks2"
  using assms by (metis append_take_drop_id append_eq_conv_conj length_map map_append take_map drop_map)

lemma map_kt_Cons:
  assumes "map kt ts = (k, x) # ks"
  obtains t us where "ts = t # us" "tok_kind t = k" "tok_text t = x" "map kt us = ks"
  using assms by (cases ts) (auto simp: kt_def)

lemma kt_not_EOF: "expr_ok e \<Longrightarrow> \<forall>k\<in>set (ktoks e). fst k \<noteq> TokEOF"
  by (induction e) (auto simp: kparens_def lit_ktok_def)

lemma tokens_ok_suffix:
  assumes "tokens_ok b (us @ vs)" "\<forall>k\<in>set (map kt us). fst k \<noteq> TokEOF"
  shows "tokens_ok b vs"
proof -
  have "eats 0 (us @ vs) vs" using assms(2) by (intro eatsI) (auto simp: kt_def)
  then show ?thesis using eats_tokens_ok assms(1) by blast
qed

text \<open>What holds of an expression in operand position, bare or in parentheses.\<close>

definition parses_unary :: "nat \<Rightarrow> nat \<Rightarrow> ktok list \<Rightarrow> expr \<Rightarrow> bool" where
  "parses_unary b k ks e \<longleftrightarrow>
     (\<forall>d ts rest. d + k \<le> maxNesting \<longrightarrow> map kt ts = ks \<longrightarrow> tokens_ok b (ts @ rest) \<longrightarrow>
        (\<exists>e'. PU d (ts @ rest) = Inr (e', rest) \<and> strip_pos e' = strip_pos e))"

definition parses_expr :: "nat \<Rightarrow> nat \<Rightarrow> ktok list \<Rightarrow> expr \<Rightarrow> nat \<Rightarrow> bool" where
  "parses_expr b k ks e p \<longleftrightarrow>
     (\<forall>d m ts rest. d + k \<le> maxNesting \<longrightarrow> map kt ts = ks \<longrightarrow> tokens_ok b (ts @ rest) \<longrightarrow>
        m \<le> p \<longrightarrow> stops_at (p + 1) rest \<longrightarrow>
        (\<exists>e'. PE m d (ts @ rest) = PL m d e' rest \<and> strip_pos e' = strip_pos e))"

lemma parses_unary_expr: "parses_unary b k ks e \<Longrightarrow> parses_expr b k ks e p"
  unfolding parses_unary_def parses_expr_def using PE_eq by fastforce

lemma parses_parens:
  assumes "parses_expr b k ks e p" "\<forall>k\<in>set ks. fst k \<noteq> TokEOF"
  shows "parses_unary b (Suc k) ((TokLParen, ''('') # ks @ [(TokRParen, '')'')]) e"
  unfolding parses_unary_def
proof (intro allI impI)
  fix d ts rest
  assume d: "d + Suc k \<le> maxNesting" and ts: "map kt ts = (TokLParen, ''('') # ks @ [(TokRParen, '')'')]"
    and ok: "tokens_ok b (ts @ rest)"
  obtain lp us rp where s: "ts = lp # us @ [rp]" "tok_kind lp = TokLParen" "map kt us = ks" "tok_kind rp = TokRParen"
    using ts by (auto elim!: map_kt_Cons map_kt_append)
  have ok1: "tokens_ok b (us @ rp # rest)" using ok s by (elim tokens_okE) auto
  have "PU d (ts @ rest) = PP (d + 1) (lp # us @ rp # rest)"
    using PU_primary [of b lp "us @ rp # rest" d] ok s d by simp
  also have "\<dots> = pbind (PE 0 (d + 1) (us @ rp # rest)) (\<lambda>(e, ts2).
     pbind (expect TokRParen '')'' ts2) (\<lambda>(_, ts3). Inr (e, ts3)))"
    using PP_paren [of b lp] ok s by simp
  finally have pu: "PU d (ts @ rest) = \<dots>" .
  have "stops_at (p + 1) (rp # rest)" using s by (simp add: stops_at_def)
  then obtain e' where e': "PE 0 (d + 1) (us @ rp # rest) = PL 0 (d + 1) e' (rp # rest)"
      "strip_pos e' = strip_pos e"
    using assms(1) [unfolded parses_expr_def, rule_format, of "d + 1" us "rp # rest" 0] d s ok1 by auto
  have "PL 0 (d + 1) e' (rp # rest) = Inr (e', rp # rest)" using s by (intro PL_stop) simp
  then show "\<exists>e'. PU d (ts @ rest) = Inr (e', rest) \<and> strip_pos e' = strip_pos e"
    using pu e' s by (simp add: expect_def)
qed


lemma parses_wrapped:
  assumes "parses_expr b k ks e (prec_of e)" "\<forall>k\<in>set ks. fst k \<noteq> TokEOF" "w \<or> p \<le> prec_of e"
  shows "parses_expr b ((if w then 1 else 0) + k) (kparens w ks) e p"
proof (cases w)
  case True
  then show ?thesis using parses_unary_expr [OF parses_parens [OF assms(1,2)]] by (simp add: kparens_def)
next
  case False
  then have p: "p \<le> prec_of e" using assms(3) by simp
  show ?thesis unfolding parses_expr_def
  proof (intro allI impI)
    fix d m ts rest
    assume *: "d + ((if w then 1 else 0) + k) \<le> maxNesting" "map kt ts = kparens w ks"
      "tokens_ok b (ts @ rest)" "m \<le> p" "stops_at (p + 1) rest"
    show "\<exists>e'. PE m d (ts @ rest) = PL m d e' rest \<and> strip_pos e' = strip_pos e"
      using assms(1) [unfolded parses_expr_def, rule_format, of d ts rest m] * False p
        stops_at_mono [OF *(5), of "prec_of e + 1"] by (auto simp: kparens_def)
  qed
qed

lemma parseLiteral_lit:
  assumes "lit_ok v" "kt t = lit_ktok v"
  shows "parseLiteral (t # ts) = Inr (v, ts)"
proof -
  have lw: "to_lower ''true'' = ''true''" "to_lower ''false'' = ''false''" by code_simp+
  from assms(1) consider (n) t n where "v = num_literal t n" "parse_float t = Some n"
    | (b) b where "v = bool_literal b" | (s) s where "v = str_literal s"
    unfolding lit_ok_def by blast
  then show ?thesis
  proof cases
    case n
    then show ?thesis using assms(2)
      by (simp add: parseLiteral_def num_literal_def lit_ktok_def kt_def)
  next
    case b
    then show ?thesis using assms(2) lw
      by (cases b) (simp_all add: parseLiteral_def bool_literal_def lit_ktok_def kt_def zero_literal_def)
  next
    case s
    then show ?thesis using assms(2)
      by (simp add: parseLiteral_def str_literal_def lit_ktok_def kt_def zero_literal_def)
  qed
qed

lemma parses_flag:
  assumes "expr_ok (FlagCmp n op v p)"
  shows "parses_unary b 1 (ktoks (FlagCmp n op v p)) (FlagCmp n op v p)"
  unfolding parses_unary_def
proof (intro allI impI)
  fix d ts rest
  assume d: "d + 1 \<le> maxNesting" and ts: "map kt ts = ktoks (FlagCmp n op v p)"
    and ok: "tokens_ok b (ts @ rest)"
  have lw: "to_lower ''flag'' = ''flag''" by code_simp
  have n: "\<not> isKeyword n" using assms by (simp add: name_ok_def)
  obtain f us where f: "ts = f # us" "tok_kind f = TokIdent" "tok_text f = ''flag''"
     "map kt us = tl (ktoks (FlagCmp n op v p))"
    using ts by (cases ts) (auto simp: kt_def)
  have pu: "PU d (ts @ rest) = parseFlag (tok_pos f) (us @ rest)"
    using PU_primary [of b f "us @ rest" d] PP_flag [of f "d + 1"] ok f d lw by simp
  have "parseFlag (tok_pos f) (us @ rest) = Inr (FlagCmp n op v (tok_pos f), rest)"
  proof (cases "op = []")
    case True
    then show ?thesis using f(4) n assms
      by (auto elim!: map_kt_Cons simp: parseFlag_def expect_def flag_cmp_def)
  next
    case False
    then show ?thesis using f(4) n assms parseLiteral_lit [of v]
      by (auto elim!: map_kt_Cons simp: parseFlag_def expect_def flag_cmp_def kt_def)
  qed
  then show "\<exists>e'. PU d (ts @ rest) = Inr (e', rest) \<and> strip_pos e' = strip_pos (FlagCmp n op v p)"
    using pu by simp
qed

lemma parses_not:
  assumes "parses_unary b k ks x"
  shows "parses_unary b (Suc k) ((TokIdent, ''not'') # ks) (Unary ''not'' x p)"
  unfolding parses_unary_def
proof (intro allI impI)
  fix d ts rest
  assume d: "d + Suc k \<le> maxNesting" and ts: "map kt ts = (TokIdent, ''not'') # ks"
    and ok: "tokens_ok b (ts @ rest)"
  have lw: "to_lower ''not'' = ''not''" by code_simp
  obtain f us where f: "ts = f # us" "tok_kind f = TokIdent" "tok_text f = ''not''" "map kt us = ks"
    using ts by (auto elim!: map_kt_Cons)
  have ok1: "tokens_ok b (us @ rest)" using ok f by (elim tokens_okE) auto
  obtain x' where "PU (d + 1) (us @ rest) = Inr (x', rest)" "strip_pos x' = strip_pos x"
    using assms [unfolded parses_unary_def, rule_format, of "d + 1" us rest] d f ok1 by auto
  then show "\<exists>e'. PU d (ts @ rest) = Inr (e', rest) \<and> strip_pos e' = strip_pos (Unary ''not'' x p)"
    using PU_not [of b f "us @ rest" d] ok f d lw by simp
qed

lemma parses_binary:
  assumes "parses_expr b k ksl l (opPrec op)" "parses_expr b k ksr r (opPrec op + 1)" "op \<in> bool_ops"
    "\<forall>k\<in>set ksl. fst k \<noteq> TokEOF"
  shows "parses_expr b k (ksl @ (TokIdent, op) # ksr) (Binary op l r p) (opPrec op)"
  unfolding parses_expr_def
proof (intro allI impI)
  fix d m ts rest
  assume d: "d + k \<le> maxNesting" and ts: "map kt ts = ksl @ (TokIdent, op) # ksr"
    and ok: "tokens_ok b (ts @ rest)" and m: "m \<le> opPrec op" and st: "stops_at (opPrec op + 1) rest"
  note op = bool_ops_facts [OF assms(3)]
  obtain ls o' rs where s: "ts = ls @ o' # rs" "map kt ls = ksl" "tok_kind o' = TokIdent" "tok_text o' = op"
      "map kt rs = ksr"
    using ts by (auto elim!: map_kt_Cons map_kt_append)
  have ok1: "tokens_ok b (o' # rs @ rest)"
    using tokens_ok_suffix [of b ls "o' # rs @ rest"] ok s assms(4) by simp
  then have ok2: "tokens_ok b (rs @ rest)" using s by (elim tokens_okE) auto
  have "stops_at (opPrec op + 1) (o' # rs @ rest)" using s op by (simp add: stops_at_def)
  then obtain l' where l': "PE m d (ts @ rest) = PL m d l' (o' # rs @ rest)" "strip_pos l' = strip_pos l"
    using assms(1) [unfolded parses_expr_def, rule_format, of d ls "o' # rs @ rest" m] d s ok m by auto
  obtain r' where r': "PE (opPrec op + 1) d (rs @ rest) = PL (opPrec op + 1) d r' rest" "strip_pos r' = strip_pos r"
    using assms(2) [unfolded parses_expr_def, rule_format, of d rs rest "opPrec op + 1"] d s ok2
      stops_at_mono [OF st, of "opPrec op + 1 + 1"] by auto
  have "PL m d l' (o' # rs @ rest) = PL m d (Binary op l' r' (Pos l')) rest"
    using PL_op [OF ok1, of op m d l'] s op m r' PL_stops [OF st] by simp
  then show "\<exists>e'. PE m d (ts @ rest) = PL m d e' rest \<and> strip_pos e' = strip_pos (Binary op l r p)"
    using l' r' by (intro exI [of _ "Binary op l' r' (Pos l')"]) simp
qed


lemma parses_expr_weaken:
  assumes "parses_expr b j ks e q" "j \<le> k"
  shows "parses_expr b k ks e q"
  unfolding parses_expr_def
proof (intro allI impI)
  fix d m ts rest
  assume "d + k \<le> maxNesting" "map kt ts = ks" "tokens_ok b (ts @ rest)" "m \<le> q" "stops_at (q + 1) rest"
  then show "\<exists>e'. PE m d (ts @ rest) = PL m d e' rest \<and> strip_pos e' = strip_pos e"
    using assms(1) [unfolded parses_expr_def, rule_format, of d ts rest m] assms(2) by simp
qed

lemma parses_printed:
  "expr_ok e \<Longrightarrow> parses_expr b (print_depth e) (ktoks e) e (prec_of e) \<and>
     (prec_of e = precNot \<longrightarrow> parses_unary b (print_depth e) (ktoks e) e)"
proof (induction e)
  case (NodeRef i p)
  have u: "parses_unary b 1 [(TokIdent, i)] (NodeRef i p)"
    unfolding parses_unary_def
  proof (intro allI impI)
    fix d ts rest
    assume d: "d + 1 \<le> maxNesting" and ts: "map kt ts = [(TokIdent, i)]" and ok: "tokens_ok b (ts @ rest)"
    obtain t where t: "ts = [t]" "tok_kind t = TokIdent" "tok_text t = i"
      using ts by (auto elim!: map_kt_Cons)
    have k: "\<not> isKeyword i" "to_lower i \<noteq> ''not''" using NodeRef by (auto simp: name_ok_def isKeyword_def)
    show "\<exists>e'. PU d (ts @ rest) = Inr (e', rest) \<and> strip_pos e' = strip_pos (NodeRef i p)"
      using PU_primary [of b t rest d] PP_ident [of t "d + 1" rest] ok t d k by simp
  qed
  then show ?case using parses_unary_expr by simp
next
  case (FlagCmp n op v p)
  then show ?case using parses_flag parses_unary_expr by (simp del: ktoks.simps)
next
  case (Unary op x p)
  have x: "expr_ok x" and op: "op = ''not''" using Unary.prems by auto
  have IH: "parses_expr b (print_depth x) (ktoks x) x (prec_of x)"
    "prec_of x = precNot \<Longrightarrow> parses_unary b (print_depth x) (ktoks x) x" using Unary x by auto
  have np: "needsParens x precNot \<or> prec_of x = precNot"
    using x bool_ops_facts(4) by (cases x) (auto simp: prec_of_def)
  have "parses_unary b ((if needsParens x precNot then 1 else 0) + print_depth x)
      (kparens (needsParens x precNot) (ktoks x)) x"
    using np IH parses_parens [OF IH(1) kt_not_EOF [OF x]] by (auto simp: kparens_def)
  from parses_not [OF this, of p] have u: "parses_unary b (print_depth (Unary op x p)) (ktoks (Unary op x p)) (Unary op x p)"
    using op by (simp split: if_splits)
  then show ?case using parses_unary_expr by blast
next
  case (Binary op l r p)
  let ?k = "print_depth (Binary op l r p)"
  have ok: "expr_ok l" "expr_ok r" "op \<in> bool_ops" using Binary.prems by auto
  have nl: "needsParens l (opPrec op) \<or> opPrec op \<le> prec_of l"
    using ok bool_ops_facts(4) [OF ok(3)] by (cases l) (auto simp: prec_of_def)
  have nr: "(needsParens r (opPrec op) \<or> samePrecBinary r (opPrec op)) \<or> opPrec op + 1 \<le> prec_of r"
    using ok bool_ops_facts(4) [OF ok(3)] by (cases r) (auto simp: prec_of_def)
  let ?wl = "needsParens l (opPrec op)" and ?wr = "needsParens r (opPrec op) \<or> samePrecBinary r (opPrec op)"
  have L: "parses_expr b ?k (kparens ?wl (ktoks l)) l (opPrec op)"
    by (rule parses_expr_weaken [OF parses_wrapped [OF _ kt_not_EOF [OF ok(1)] nl]]) (use Binary.IH(1) ok in auto)
  have R: "parses_expr b ?k (kparens ?wr (ktoks r)) r (opPrec op + 1)"
    by (rule parses_expr_weaken [OF parses_wrapped [OF _ kt_not_EOF [OF ok(2)] nr]]) (use Binary.IH(2) ok in auto)
  have "parses_expr b ?k (ktoks (Binary op l r p)) (Binary op l r p) (opPrec op)"
    unfolding ktoks.simps
    by (rule parses_binary [OF L R ok(3)]) (use kt_not_EOF [OF ok(1)] in \<open>auto simp: kparens_def\<close>)
  then show ?case using bool_ops_facts(4) [OF ok(3)] by (simp add: prec_of_def)
qed

section \<open>Round trip\<close>

definition solid :: "char \<Rightarrow> bool" where
  "solid c \<longleftrightarrow> byte c < 128 \<and> \<not> ascii_space (byte c)"

lemma wide_space_high: "wide_space b0 b1 b2 \<Longrightarrow> 128 \<le> b0 \<and> 128 \<le> b1 \<and> 128 \<le> b2"
  unfolding wide_space_def by (elim disjE conjE) simp_all

lemma space_width_not_solid: "x \<in> set (take (space_width s) s) \<Longrightarrow> \<not> solid x"
  by (cases s) (auto simp: solid_def dest: wide_space_high split: if_splits list.splits)

lemma space_width_rev_not_solid: "x \<in> set (take (space_width_rev s) s) \<Longrightarrow> \<not> solid x"
  by (cases s) (auto simp: solid_def dest: wide_space_high split: if_splits list.splits)

lemma drop_spaces_keeps:
  assumes "\<And>s x. x \<in> set (take (w s) s) \<Longrightarrow> \<not> solid x" "solid c" "c \<in> set s"
  shows "c \<in> set (drop_spaces w s)"
  using assms
proof (induction w s rule: drop_spaces.induct)
  case (2 w c' cs)
  show ?case
  proof (cases "w (c' # cs) = 0")
    case False
    have "c \<notin> set (take (w (c' # cs)) (c' # cs))" using 2 by blast
    then have "c \<noteq> c'" "c \<notin> set (take (w (c' # cs) - 1) cs)" using False by (auto simp: take_Cons')
    then have "c \<in> set (drop (w (c' # cs) - 1) cs)"
      using 2(4) by (metis Un_iff append_take_drop_id set_ConsD set_append)
    then show ?thesis using 2 False by simp
  qed (use 2 in simp)
qed simp

lemma trim_space_keeps:
  assumes "c \<in> set s" "solid c"
  shows "trim_space s \<noteq> []"
proof -
  have "c \<in> set (trim_left_space s)"
    unfolding trim_left_space_def
    by (rule drop_spaces_keeps [where w = space_width]) (use space_width_not_solid assms in auto)
  then have "c \<in> set (drop_spaces space_width_rev (rev (trim_left_space s)))"
    by (intro drop_spaces_keeps [where w = space_width_rev]) (use space_width_rev_not_solid assms in auto)
  then show ?thesis by (auto simp: trim_space_def trim_right_space_def)
qed

lemma Expr_String_solid: "expr_ok e \<Longrightarrow> \<exists>c\<in>set (Expr_String ip e). solid c"
proof (induction e)
  case (NodeRef i p)
  then have "i \<noteq> []" "isIdentStart (hd i)" "byte (hd i) < 128" by (auto simp: name_ok_def ident_ok_def is_ascii_def)
  then show ?case
    by (intro bexI [of _ "hd i"]) (auto simp: solid_def isIdentStart_def latin1_letter_def ascii_space_def byte_def)
next
  case (FlagCmp n op v p)
  then show ?case by (intro bexI [of _ "CHR ''f''"]) (simp_all add: solid_def ascii_space_def byte_def)
next
  case (Unary op x p)
  then show ?case by (intro bexI [of _ "CHR ''n''"]) (simp_all add: solid_def ascii_space_def byte_def)
next
  case (Binary op l r p)
  then show ?case by (auto simp: parens_def)
qed

lemma Parse_printed:
  assumes "expr_ok e" "print_depth e \<le> maxNesting"
  shows "\<exists>e'. Parse (Expr_String ip e) = Inr (Some e') \<and> strip_pos e' = strip_pos e"
proof -
  let ?s = "Expr_String ip e"
  obtain ts where ts: "map kt ts = ktoks e" "lex ?s = Inr (ts @ [tok TokEOF [] (length ?s)])"
    using lexes_expr [OF assms(1), of "[]" ip] unfolding lexes_as_def lex_def
    by (metis add_0 append_Nil2 delim_simps(1) lex_from.simps(1) map_sum.simps(2))
  have ok: "tokens_ok (length ?s) (ts @ [tok TokEOF [] (length ?s)])" using lex_ok ts by blast
  have "stops_at (prec_of e + 1) [tok TokEOF [] (length ?s)]" by (simp add: stops_at_def)
  then obtain e' where e': "PE 0 0 (ts @ [tok TokEOF [] (length ?s)]) = PL 0 0 e' [tok TokEOF [] (length ?s)]"
      "strip_pos e' = strip_pos e"
    using parses_printed [OF assms(1), of "length ?s", THEN conjunct1, unfolded parses_expr_def, rule_format,
        of 0 ts "[tok TokEOF [] (length ?s)]" 0] assms ts ok by auto
  have "PL 0 0 e' [tok TokEOF [] (length ?s)] = Inr (e', [tok TokEOF [] (length ?s)])" by (rule PL_stop) simp
  then have "parse_tokens (ts @ [tok TokEOF [] (length ?s)]) = Inr e'"
    using parse_tokens_eq [OF ok] e' by simp
  moreover have "trim_space ?s \<noteq> []" using Expr_String_solid [OF assms(1)] trim_space_keeps by blast
  ultimately show ?thesis using ts e' by (simp add: Parse_def)
qed

section \<open>Renaming and pruning keep the printable fragment\<close>

lemma Eval_strip_pos: "Eval_expr (strip_pos e) ctx = Eval_expr e ctx"
  by (induction e) (simp_all add: evalFlag_def)

lemma Eval_same_tree: "strip_pos e = strip_pos e' \<Longrightarrow> Eval_expr e ctx = Eval_expr e' ctx"
  using Eval_strip_pos by metis

lemma expr_ok_Rename:
  assumes "expr_ok e" "\<And>i. i \<in> refs_of e \<Longrightarrow> f i \<noteq> [] \<Longrightarrow> name_ok (f i)"
  shows "expr_ok (RenameNodeRefs f e)"
  using assms by (induction e) auto

lemma print_depth_Rename: "print_depth (RenameNodeRefs f e) = print_depth e"
proof (induction e)
  case (Binary op l r p)
  have np: "needsParens (RenameNodeRefs f x) k = needsParens x k" "samePrecBinary (RenameNodeRefs f x) k = samePrecBinary x k" for x k
    by (cases x; simp)+
  show ?case using Binary by (simp add: np)
next
  case (Unary op x p)
  have "(case RenameNodeRefs f x of Binary _ _ _ _ \<Rightarrow> True | _ \<Rightarrow> False) = (case x of Binary _ _ _ _ \<Rightarrow> True | _ \<Rightarrow> False)"
    by (cases x) simp_all
  then show ?case using Unary by (cases x) simp_all
qed simp_all

section \<open>Properties\<close>



text \<open>
  The parser is total and fails cleanly: on every source text it returns (its bounded recursion never runs out and
  it never indexes past the token list), and every syntax error it reports points inside the text.
\<close>

theorem parse_errors_in_range:
  assumes "Parse src = Inl err"
  shows "Offset err \<le> length src \<and> Msg err \<noteq> RuntimePanic \<and> Msg err \<noteq> OutOfFuel"
  using Parse_total [OF assms] by (simp add: good_error_def)

theorem parse_errors_in_range_witness:
  "\<exists>err. Parse ''a and'' = Inl err \<and> Offset err \<le> length ''a and'' \<and> Msg err \<noteq> RuntimePanic \<and> Msg err \<noteq> OutOfFuel"
proof -
  have "isl (Parse ''a and'')" by code_simp
  then obtain err where "Parse ''a and'' = Inl err" by (cases "Parse ''a and''") auto
  with parse_errors_in_range [OF this] show ?thesis by blast
qed

text \<open>
  Renaming nodes in a stored condition: rewriting the tree, printing it and parsing the text again gives a condition
  that holds exactly when the original held with the renamed nodes' completion, for any flags.
\<close>

theorem rename_through_text:
  assumes "expr_ok e" "print_depth e \<le> maxNesting" "\<forall>i\<in>refs_of e. f i = [] \<or> name_ok (f i)"
  shows "\<exists>e'. Parse (Expr_String ip (RenameNodeRefs f e)) = Inr (Some e') \<and>
    (\<forall>d fl. Eval (Some e') \<lparr>Done = Some d, Flags = fl\<rparr> =
            Eval (Some e) \<lparr>Done = Some (\<lambda>i. d (if f i \<noteq> [] then f i else i)), Flags = fl\<rparr>)"
proof -
  have "expr_ok (RenameNodeRefs f e)" by (rule expr_ok_Rename) (use assms in auto)
  then obtain e' where e': "Parse (Expr_String ip (RenameNodeRefs f e)) = Inr (Some e')" "strip_pos e' = strip_pos (RenameNodeRefs f e)"
    using Parse_printed [of "RenameNodeRefs f e" ip] assms(2) by (auto simp: print_depth_Rename)
  then show ?thesis using Eval_same_tree [OF e'(2)] Eval_Rename by (intro exI [of _ e']) simp
qed

theorem rename_through_text_witness:
  "\<exists>e'. Parse (Expr_String (\<lambda>_. False) (RenameNodeRefs (\<lambda>i. if i = ''a'' then ''b2'' else []) (Unary ''not'' (NodeRef ''a'' 0) 0))) = Inr (Some e') \<and>
    (\<forall>d fl. Eval (Some e') \<lparr>Done = Some d, Flags = fl\<rparr> =
            Eval (Some (Unary ''not'' (NodeRef ''a'' 0) 0))
              \<lparr>Done = Some (\<lambda>i. d (if (if i = ''a'' then ''b2'' else []) \<noteq> [] then (if i = ''a'' then ''b2'' else []) else i)), Flags = fl\<rparr>)"
proof (rule rename_through_text)
  show "\<forall>i\<in>refs_of (Unary ''not'' (NodeRef ''a'' 0) 0). (if i = ''a'' then ''b2'' else []) = [] \<or> name_ok (if i = ''a'' then ''b2'' else [])"
    by code_simp
  have "name_ok ''a''" by code_simp
  then show "expr_ok (Unary ''not'' (NodeRef ''a'' 0) 0)" by simp
qed code_simp

text \<open>
  Deleting nodes from a condition: pruning keeps exactly the references that are not dropped and adds no flag; it
  gives nothing only when every leaf is dropped, and leaves a condition that names no dropped node as it is.
\<close>

theorem prune_exact:
  "(case PruneNodeRefs drp e of None \<Rightarrow> {} | Some e' \<Rightarrow> refs_of e') = {i \<in> refs_of e. \<not> drp i} \<and>
   (case PruneNodeRefs drp e of None \<Rightarrow> {} | Some e' \<Rightarrow> flags_of e') = flags_of e \<and>
   (PruneNodeRefs drp e = None) = (flags_of e = {} \<and> {i \<in> refs_of e. \<not> drp i} = {}) \<and>
   (PruneNodeRefs drp e = Some e \<or> (\<exists>i\<in>refs_of e. drp i))"
proof (intro conjI)
  show "(case PruneNodeRefs drp e of None \<Rightarrow> {} | Some e' \<Rightarrow> refs_of e') = {i \<in> refs_of e. \<not> drp i}" by (rule refs_of_Prune)
  show none: "(PruneNodeRefs drp e = None) = (flags_of e = {} \<and> {i \<in> refs_of e. \<not> drp i} = {})"
  proof (induction e)
    case (Binary op l r p)
    then show ?case by (cases "PruneNodeRefs drp l"; cases "PruneNodeRefs drp r") auto
  next
    case (Unary op x p)
    then show ?case by (cases "PruneNodeRefs drp x") auto
  qed auto
  show "(case PruneNodeRefs drp e of None \<Rightarrow> {} | Some e' \<Rightarrow> flags_of e') = flags_of e"
  proof (induction e)
    case (Binary op l r p)
    then show ?case by (cases "PruneNodeRefs drp l"; cases "PruneNodeRefs drp r") auto
  next
    case (Unary op x p)
    then show ?case by (cases "PruneNodeRefs drp x") auto
  qed auto
  show "PruneNodeRefs drp e = Some e \<or> (\<exists>i\<in>refs_of e. drp i)" using Prune_unchanged [of e drp] by blast
qed

text \<open>
  A string literal with a backslash does not survive printing: quoting doubles the backslash, the lexer
  processes no escapes, and the reparsed condition compares against a different text.
\<close>

theorem quoted_literal_changes:
  "(case Parse (Expr_String (\<lambda>_. False) (FlagCmp ''f'' ''=='' (str_literal [CHR 0x5C]) 0)) of
      Inr (Some (FlagCmp _ _ v _)) \<Rightarrow> lit_str v = [CHR 0x5C, CHR 0x5C]
    | _ \<Rightarrow> False)"
  by code_simp

end
