(* ===== verification/Graph_Model.thy ===== *)
theory Graph_Model
  imports Dsl_Eval Dsl_Parser
begin

text \<open>
  The data of \<^verbatim>\<open>graph.yaml\<close> (\<^verbatim>\<open>internal/engine/graph.go\<close> with the stored forms of
  \<^verbatim>\<open>nodetypes.go\<close>, \<^verbatim>\<open>roles.go\<close>, \<^verbatim>\<open>workflow.go\<close> and \<^verbatim>\<open>acceptance.go\<close>), and the queries on it.
  A Go struct is a record with the struct's fields in order, a pointer that may be nil is an
  option, \<^verbatim>\<open>[]*Node\<close> is a list of options, a map the code ranges over is a \<open>gomap\<close>. A slice is a
  list; where the code tells a nil slice from an empty one it is an option of a list.
\<close>

section \<open>Workflow and acceptance data\<close>

record stages =
  stage_Planner :: bool
  stage_GoalQA :: bool
  stage_Tester :: bool
  stage_Reviewer :: bool
  stage_CI :: bool
  stage_GoalReview :: bool

record workflow =
  wf_Preset :: string
  wf_Stages :: stages
  wf_ReviewerSkipBelowLines :: int
  wf_MaxQARounds :: int
  wf_MaxTesterRounds :: int
  wf_MaxGreenTries :: int
  wf_TestGlobs :: "string list"
  wf_Judge :: string

record acceptance_item =
  item_ID :: string
  item_Text :: string

record acceptance =
  acc_Items :: "acceptance_item list"
  acc_Locked :: bool
  acc_By :: string

section \<open>Stored type and role definitions\<close>

record node_type_def =
  ntd_ID :: string
  ntd_Label :: string
  ntd_Shape :: string
  ntd_Color :: string
  ntd_AgentMode :: string
  ntd_Completion :: string
  ntd_CountsInProgress :: "bool option"

record agent_role_def =
  ard_ID :: string
  ard_Label :: string
  ard_BasedOn :: string
  ard_Rank :: string
  ard_Tools :: "string list option"
  ard_WriteTypes :: "string list option"
  ard_AcceptanceTypes :: "string list option"
  ard_Instructions :: string

section \<open>Nodes and edges\<close>

record user =
  user_ID :: string
  user_Name :: string
  user_Email :: string

record node_link_ref =
  link_Label :: string
  link_Project :: string
  link_Node :: string

record effect =
  effect_Set :: string

record node =
  node_ID :: string
  node_Title :: string
  node_Kind :: string
  node_Priority :: string
  node_Assignee :: string
  node_Deadline :: string
  node_WriteAccess :: string
  node_Requires :: string
  node_Tags :: "string list"
  node_Effects :: "effect list"
  node_Links :: "node_link_ref list"
  node_Refs :: "string list"
  node_Acceptance :: "acceptance option"
  node_Workflow :: "workflow option"

record edge =
  edge_From :: string
  edge_To :: string
  edge_Relation :: string
  edge_Line :: string

abbreviation RelationRequired :: string where "RelationRequired \<equiv> []"
abbreviation RelationOptional :: string where "RelationOptional \<equiv> ''optional''"
abbreviation RelationDeprecated :: string where "RelationDeprecated \<equiv> ''deprecated''"

definition Blocks :: "edge option \<Rightarrow> bool" where
  "Blocks e = (case e of None \<Rightarrow> False | Some e \<Rightarrow> edge_Relation e = RelationRequired)"

definition IsPrerequisite :: "edge option \<Rightarrow> bool" where
  "IsPrerequisite e = (case e of None \<Rightarrow> False | Some e \<Rightarrow> edge_Relation e \<noteq> RelationDeprecated)"

section \<open>Editor state\<close>

type_synonym status = string

record node_style =
  style_Width :: float64
  style_Height :: float64
  style_Color :: string
  style_TextColor :: string
  style_BorderColor :: string
  style_Align :: string
  style_VAlign :: string
  style_Shape :: string

record canvas_group =
  group_ID :: string
  group_Title :: string
  group_X :: float64
  group_Y :: float64
  group_Width :: float64
  group_Height :: float64
  group_Color :: string
  group_TextColor :: string
  group_Align :: string
  group_VAlign :: string

record canvas_annotation =
  annot_ID :: string
  annot_Text :: string
  annot_X :: float64
  annot_Y :: float64
  annot_Width :: float64
  annot_Height :: float64
  annot_Color :: string
  annot_TextColor :: string
  annot_Align :: string
  annot_VAlign :: string

record saved_view =
  view_ID :: string
  view_Name :: string
  view_Statuses :: "string list"
  view_Assignees :: "string list"
  view_Tags :: "string list"
  view_Priorities :: "string list"
  view_Sort :: string

record logic_gate =
  gate_ID :: string
  gate_Operator :: string
  gate_X :: float64
  gate_Y :: float64
  gate_Inputs :: "string list option"
  gate_Output :: string
  gate_Outputs :: "string list"
  gate_Applied :: string

record gate_placement =
  gp_Ratio :: "float64 option"
  gp_X :: "float64 option"
  gp_Y :: "float64 option"

record edge_label_placement =
  elp_Ratio :: float64

record position =
  pos_X :: float64
  pos_Y :: float64

record plan_milestone =
  plan_Date :: string
  plan_Time :: string
  plan_Status :: status
  plan_Note :: string

record plan_status_definition =
  psd_ID :: string
  psd_Label :: string

record status_definition =
  sd_ID :: string
  sd_Label :: string
  sd_Color :: string
  sd_Shape :: string
  sd_Settled :: bool

record ui_state =
  ui_Positions :: "(string, position) gomap"
  ui_TimelineOrder :: "string list"
  ui_Gates :: "(string, gate_placement) gomap"
  ui_LogicGates :: "logic_gate list"
  ui_EdgeLabels :: "(string, edge_label_placement) gomap"
  ui_WireVertices :: "(string, position list) gomap"
  ui_Plans :: "(string, plan_milestone list) gomap"
  ui_PlanStatuses :: "plan_status_definition list"
  ui_CustomStatuses :: "status_definition list"
  ui_NodeStyles :: "(string, node_style) gomap"
  ui_EntryOverrides :: "(string, bool) gomap"
  ui_Groups :: "canvas_group list"
  ui_Annotations :: "canvas_annotation list"
  ui_SavedViews :: "saved_view list"

text \<open>\<^verbatim>\<open>len\<close> and \<^verbatim>\<open>range\<close> see no difference between a nil and an empty slice.\<close>

definition slice :: "'a list option \<Rightarrow> 'a list" where
  "slice xs = (case xs of None \<Rightarrow> [] | Some ys \<Rightarrow> ys)"

lemma slice_simps [simp]: "slice None = []" "slice (Some ys) = ys"
  by (simp_all add: slice_def)

definition inputs_of :: "logic_gate \<Rightarrow> string list" where
  "inputs_of g = slice (gate_Inputs g)"

definition OutputNodes :: "logic_gate \<Rightarrow> string list" where
  "OutputNodes g =
     (if length (gate_Outputs g) > 0 then gate_Outputs g
      else if gate_Output g \<noteq> [] then [gate_Output g]
      else [])"

section \<open>The graph\<close>

text \<open>\<open>empty_graph\<close> is the zero value of the struct.\<close>

record graph =
  graph_Version :: int
  graph_Type :: string
  graph_Users :: "user list"
  graph_Nodes :: "node option list"
  graph_Edges :: "edge option list"
  graph_Flags :: flags
  graph_NodeTypes :: "node_type_def list"
  graph_AgentRoles :: "agent_role_def list"
  graph_Workflow :: "workflow option"
  graph_OfficeStyle :: string
  graph_UI :: "ui_state option"

definition empty_graph :: graph where
  "empty_graph = \<lparr>graph_Version = 0, graph_Type = [], graph_Users = [], graph_Nodes = [], graph_Edges = [],
     graph_Flags = Map.empty, graph_NodeTypes = [], graph_AgentRoles = [], graph_Workflow = None,
     graph_OfficeStyle = [], graph_UI = None\<rparr>"

text \<open>The nodes the loops see after \<^verbatim>\<open>if n == nil { continue }\<close>.\<close>

definition nodes_of :: "graph \<Rightarrow> node list" where
  "nodes_of g = List.map_filter id (graph_Nodes g)"

lemma set_nodes_of: "n \<in> set (nodes_of g) \<longleftrightarrow> Some n \<in> set (graph_Nodes g)"
  by (force simp: nodes_of_def List.map_filter_def)

section \<open>Identifiers\<close>

definition is_alpha :: "char \<Rightarrow> bool" where
  "is_alpha c \<longleftrightarrow> (65 \<le> byte c \<and> byte c \<le> 90) \<or> (97 \<le> byte c \<and> byte c \<le> 122)"

definition is_alnum :: "char \<Rightarrow> bool" where
  "is_alnum c \<longleftrightarrow> is_alpha c \<or> is_digit c"

definition nodeIDPattern :: "string \<Rightarrow> bool" where
  "nodeIDPattern s \<longleftrightarrow>
     (case s of
        [] \<Rightarrow> False
      | c # cs \<Rightarrow> (is_alpha c \<or> c = CHR ''_'') \<and>
                  list_all (\<lambda>d. is_alnum d \<or> d = CHR ''_'' \<or> d = CHR ''.'' \<or> d = CHR ''-'') cs)"

definition ValidNodeID :: "string \<Rightarrow> bool" where
  "ValidNodeID i \<longleftrightarrow> length i \<le> 128 \<and> nodeIDPattern i"

definition bad_segment :: "string \<Rightarrow> bool" where
  "bad_segment s \<longleftrightarrow> s = [] \<or> s = ''.'' \<or> s = ''..'' \<or> trim_space s \<noteq> s \<or>
     contains_any s '':*?\"<>|''"

definition ValidProjectRef :: "string \<Rightarrow> bool" where
  "ValidProjectRef path \<longleftrightarrow>
     \<not> (path = [] \<or> length path > 512 \<or> has_prefix path ''/'' \<or> has_suffix path ''/'' \<or>
        contains path [CHR 0x5C]) \<and>
     list_all (\<lambda>seg. \<not> bad_segment seg) (split_on CHR ''/'' path)"

section \<open>Queries\<close>

definition NodeByID :: "graph \<Rightarrow> string \<Rightarrow> node option" where
  "NodeByID g i = first_match (\<lambda>n. node_ID n = i) (nodes_of g)"

fun has_ref :: "string list \<Rightarrow> string \<Rightarrow> bool" where
  "has_ref [] i = False"
| "has_ref (r # rs) i = (if r = i then True else has_ref rs i)"

definition HasRef :: "node option \<Rightarrow> string \<Rightarrow> bool" where
  "HasRef n i = (case n of None \<Rightarrow> False | Some n \<Rightarrow> has_ref (node_Refs n) i)"

definition ReferencedBy :: "graph \<Rightarrow> string \<Rightarrow> string list" where
  "ReferencedBy g i = map node_ID (filter (\<lambda>n. HasRef (Some n) i) (nodes_of g))"

definition RequiresExpr :: "node \<Rightarrow> parse_error + expr option" where
  "RequiresExpr n = Parse (node_Requires n)"

definition normalize_gate :: "logic_gate \<Rightarrow> logic_gate" where
  "normalize_gate lg = (if gate_Inputs lg = None then lg\<lparr>gate_Inputs := Some []\<rparr> else lg)"

definition NormalizeLogicGates :: "graph option \<Rightarrow> graph option" where
  "NormalizeLogicGates g =
     (case g of
        None \<Rightarrow> None
      | Some g \<Rightarrow>
          (case graph_UI g of
             None \<Rightarrow> Some g
           | Some ui \<Rightarrow>
               Some (g\<lparr>graph_UI := Some (ui\<lparr>ui_LogicGates := map normalize_gate (ui_LogicGates ui)\<rparr>)\<rparr>)))"

text \<open>
  \<^verbatim>\<open>ParseGraph\<close> over the YAML decoder: \<open>first\<close> is what decoding the first document gives, \<open>extra\<close>
  what the second \<^verbatim>\<open>Decode\<close> call reports.
\<close>

datatype 'e graph_error = GraphYaml 'e | MultipleDocuments

datatype 'e extra_doc = ExtraEOF | ExtraDocument | ExtraError 'e

definition ParseGraph ::
  "(string \<Rightarrow> 'e + graph) \<Rightarrow> (string \<Rightarrow> 'e extra_doc) \<Rightarrow> string \<Rightarrow> 'e graph_error + graph option" where
  "ParseGraph first extra data =
     (case first data of
        Inl err \<Rightarrow> Inl (GraphYaml err)
      | Inr g \<Rightarrow>
          (case extra data of
             ExtraDocument \<Rightarrow> Inl MultipleDocuments
           | ExtraError err \<Rightarrow> Inl (GraphYaml err)
           | ExtraEOF \<Rightarrow> Inr (NormalizeLogicGates (Some g))))"

lemma has_ref_iff [simp]: "has_ref rs i \<longleftrightarrow> i \<in> set rs"
  by (induction rs) auto

lemma NodeByID_Some: "NodeByID g i = Some n \<Longrightarrow> Some n \<in> set (graph_Nodes g) \<and> node_ID n = i"
  unfolding NodeByID_def by (auto dest: first_match_SomeD simp: set_nodes_of)

lemma NodeByID_None: "NodeByID g i = None \<longleftrightarrow> (\<forall>n. Some n \<in> set (graph_Nodes g) \<longrightarrow> node_ID n \<noteq> i)"
  unfolding NodeByID_def by (auto simp: set_nodes_of)

lemma NodeByID_unique:
  assumes "Some n \<in> set (graph_Nodes g)" "distinct (map node_ID (nodes_of g))"
  shows "NodeByID g (node_ID n) = Some n"
proof (cases "NodeByID g (node_ID n)")
  case None
  with assms(1) show ?thesis unfolding NodeByID_None by blast
next
  case (Some m)
  then have "m \<in> set (nodes_of g)" "node_ID m = node_ID n"
    using NodeByID_Some [OF Some] by (simp_all add: set_nodes_of)
  moreover have "n \<in> set (nodes_of g)" using assms(1) by (simp add: set_nodes_of)
  ultimately have "m = n" using assms(2) by (auto simp: distinct_map inj_on_def)
  with Some show ?thesis by simp
qed

lemma ReferencedBy_iff:
  "j \<in> set (ReferencedBy g i) \<longleftrightarrow> (\<exists>n. Some n \<in> set (graph_Nodes g) \<and> node_ID n = j \<and> i \<in> set (node_Refs n))"
  by (auto simp: ReferencedBy_def HasRef_def set_nodes_of)

lemma inputs_of_normalize [simp]: "inputs_of (normalize_gate lg) = inputs_of lg"
  by (simp add: inputs_of_def normalize_gate_def)

lemma normalize_gate_idem [simp]: "normalize_gate (normalize_gate lg) = normalize_gate lg"
  by (simp add: normalize_gate_def)

lemma ValidNodeID_not_empty: "ValidNodeID i \<Longrightarrow> i \<noteq> []"
  by (auto simp: ValidNodeID_def nodeIDPattern_def)

end
