(* ===== verification/Sparse_Table.thy ===== *)
theory Sparse_Table
  imports Prelude
begin

text \<open>
  The contract shared by the node-type table (\<^verbatim>\<open>nodetypes.go\<close>) and the agent-role table
  (\<^verbatim>\<open>roles.go\<close>): a fixed list of built-in rows, a project's sparse list of definitions that
  override a built-in or add a custom row, a function that lists every resolved row and one that
  looks a single row up. The two are written separately in the code (one loops over the rows of a
  copied table, the other over the definitions of one id); the locale shows that they agree.
\<close>

section \<open>The overriding loops\<close>

text \<open>
  \<open>override_rows\<close> is the nested loop over definitions and rows; \<open>override_row\<close> the loop
  over the definitions for one row.
\<close>

fun override_rows :: "('d \<Rightarrow> 'k) \<Rightarrow> ('r \<Rightarrow> 'k) \<Rightarrow> ('k \<Rightarrow> bool) \<Rightarrow> ('r \<Rightarrow> 'd \<Rightarrow> 'r) \<Rightarrow> 'd list \<Rightarrow> 'r list \<Rightarrow> 'r list" where
  "override_rows did rid builtin ov [] out = out"
| "override_rows did rid builtin ov (d # ds) out =
     override_rows did rid builtin ov ds
       (if builtin (did d) then map (\<lambda>r. if rid r = did d then ov r d else r) out else out)"

fun override_row :: "('d \<Rightarrow> 'k) \<Rightarrow> ('r \<Rightarrow> 'd \<Rightarrow> 'r) \<Rightarrow> 'k \<Rightarrow> 'd list \<Rightarrow> 'r \<Rightarrow> 'r" where
  "override_row did ov i [] r = r"
| "override_row did ov i (d # ds) r = override_row did ov i ds (if did d = i then ov r d else r)"

lemma override_rows_map:
  assumes "\<And>r d. rid (ov r d) = rid r" "\<forall>r\<in>set out. builtin (rid r)"
  shows "override_rows did rid builtin ov ds out = map (\<lambda>r. override_row did ov (rid r) ds r) out"
  using assms(2)
proof (induction ds arbitrary: out)
  case (Cons d ds)
  let ?out = "if builtin (did d) then map (\<lambda>r. if rid r = did d then ov r d else r) out else out"
  have out: "?out = map (\<lambda>r. if did d = rid r then ov r d else r) out"
    using Cons.prems by (cases "builtin (did d)") (auto intro!: map_idI [symmetric])
  have "\<forall>r\<in>set ?out. builtin (rid r)" using Cons.prems assms(1) by auto
  then have "override_rows did rid builtin ov (d # ds) out = map (\<lambda>r. override_row did ov (rid r) ds r) ?out"
    using Cons.IH by simp
  also have "\<dots> = map (\<lambda>r. override_row did ov (rid r) (d # ds) r) out"
    unfolding out using assms(1) by auto
  finally show ?case .
qed simp

lemma override_row_id:
  assumes "\<And>r d. rid (ov r d) = rid r"
  shows "rid (override_row did ov i ds r) = rid r"
  by (induction ds arbitrary: r) (simp_all add: assms)

lemma override_row_other: "\<forall>d\<in>set ds. did d \<noteq> i \<Longrightarrow> override_row did ov i ds r = r"
  by (induction ds) auto

text \<open>An override keeps a property of the row when every single override does.\<close>

lemma override_row_keeps:
  assumes "P r" "\<And>r d. d \<in> set ds \<Longrightarrow> did d = i \<Longrightarrow> P r \<Longrightarrow> P (ov r d)"
  shows "P (override_row did ov i ds r)"
  using assms by (induction ds arbitrary: r) auto

section \<open>The interface\<close>

locale sparse_table =
  fixes rows :: "'r list" and rid :: "'r \<Rightarrow> 'k" and did :: "'d \<Rightarrow> 'k"
    and builtin :: "'k \<Rightarrow> 'r option" and ov :: "'r \<Rightarrow> 'd \<Rightarrow> 'r"
    and resolve :: "'d \<Rightarrow> 'r" and listed :: "'k \<Rightarrow> bool" and known :: "'k \<Rightarrow> bool"
    and resolved :: "'d list \<Rightarrow> 'r list" and by_id :: "'d list \<Rightarrow> 'k \<Rightarrow> 'r option"
  assumes rows_distinct: "distinct (map rid rows)"
    and builtin_lookup: "builtin i = first_match (\<lambda>r. rid r = i) rows"
    and ov_id: "rid (ov r d) = rid r"
    and resolve_id: "rid (resolve d) = did d"
    and known_listed: "known i \<Longrightarrow> listed i"
    and resolved_rows: "resolved ds =
          override_rows did rid (\<lambda>i. builtin i \<noteq> None) ov ds rows @
          map resolve (filter (\<lambda>d. builtin (did d) = None \<and> listed (did d)) ds)"
    and by_id_cases: "by_id ds i =
          (case builtin i of
             Some r \<Rightarrow> Some (override_row did ov i ds r)
           | None \<Rightarrow> if known i then map_option resolve (first_match (\<lambda>d. did d = i) ds) else None)"
begin

lemma builtin_Some: "builtin i = Some r \<Longrightarrow> r \<in> set rows \<and> rid r = i"
  unfolding builtin_lookup by (rule first_match_SomeD)

lemma builtin_rid: "r \<in> set rows \<Longrightarrow> builtin (rid r) \<noteq> None"
  unfolding builtin_lookup by auto

lemma resolved_eq:
  "resolved ds = map (\<lambda>r. override_row did ov (rid r) ds r) rows @
     map resolve (filter (\<lambda>d. builtin (did d) = None \<and> listed (did d)) ds)"
  unfolding resolved_rows using builtin_rid ov_id by (subst override_rows_map) auto

lemma first_resolved_builtin:
  "first_match (\<lambda>r. rid r = i) (map (\<lambda>r. override_row did ov (rid r) ds r) rows) =
     map_option (override_row did ov i ds) (builtin i)"
proof -
  have eq: "((\<lambda>r. rid r = i) \<circ> (\<lambda>r. override_row did ov (rid r) ds r)) = (\<lambda>r. rid r = i)"
    using ov_id by (simp add: fun_eq_iff override_row_id)
  show ?thesis unfolding first_match_map eq builtin_lookup [symmetric]
    by (cases "builtin i") (auto dest: builtin_Some)
qed

text \<open>Looking an id up is the same as searching the resolved list for it.\<close>

lemma lookup_resolved:
  assumes "builtin i \<noteq> None \<or> known i"
  shows "by_id ds i = first_match (\<lambda>r. rid r = i) (resolved ds)"
proof (cases "builtin i")
  case (Some r)
  then show ?thesis unfolding by_id_cases resolved_eq first_match_append first_resolved_builtin by simp
next
  case None
  with assms have "known i" "listed i" using known_listed by simp_all
  then have "first_match (\<lambda>d. (builtin (did d) = None \<and> listed (did d)) \<and> did d = i) ds = first_match (\<lambda>d. did d = i) ds"
    using None by (intro first_match_cong) auto
  with None \<open>known i\<close> show ?thesis
    unfolding by_id_cases resolved_eq first_match_append first_resolved_builtin
    by (simp add: first_match_map first_match_filter resolve_id comp_def)
qed

lemma lookup_id: "by_id ds i = Some r \<Longrightarrow> rid r = i"
  unfolding by_id_cases
  by (auto split: option.splits if_splits dest!: builtin_Some first_match_SomeD simp: override_row_id ov_id resolve_id)

lemma lookup_listed: "by_id ds i = Some r \<Longrightarrow> r \<in> set (resolved ds)"
proof -
  assume r: "by_id ds i = Some r"
  then have "builtin i \<noteq> None \<or> known i" by (auto simp: by_id_cases split: option.splits if_splits)
  with r have "first_match (\<lambda>r. rid r = i) (resolved ds) = Some r" by (simp add: lookup_resolved)
  then show ?thesis by (auto dest: first_match_SomeD)
qed

text \<open>With distinct definitions, the resolved list has distinct ids.\<close>

lemma resolved_distinct:
  assumes "distinct (map did ds)"
  shows "distinct (map rid (resolved ds))"
proof -
  have r: "map rid (map (\<lambda>r. override_row did ov (rid r) ds r) rows) = map rid rows"
    using ov_id by (simp add: override_row_id comp_def)
  have c: "map rid (map resolve (filter P ds)) = map did (filter P ds)" for P
    by (simp add: resolve_id comp_def)
  have "set (map rid rows) \<inter> set (map did (filter (\<lambda>d. builtin (did d) = None \<and> listed (did d)) ds)) = {}"
    using builtin_rid by fastforce
  moreover have "distinct (map did (filter P ds))" for P
    using assms by (rule distinct_map_filter)
  ultimately show ?thesis unfolding resolved_eq map_append r c using rows_distinct by simp
qed

end

end
