(* ===== verification/Node_Types.thy ===== *)
theory Node_Types
  imports Graph_Model Sparse_Table
begin

text \<open>
  Node types (\<^verbatim>\<open>internal/engine/nodetypes.go\<close>): the built-in table, the resolution of a node's
  kind to a type, and the check of a project's \<^verbatim>\<open>node_types\<close> list. \<open>NodeTypeDefProblems\<close>
  gives the list of broken rules as values of \<open>type_problem\<close>, one constructor per message.
\<close>

section \<open>The table\<close>

abbreviation AgentNone :: string where "AgentNone \<equiv> ''none''"
abbreviation AgentDispatch :: string where "AgentDispatch \<equiv> ''dispatch''"
abbreviation AgentAutopilot :: string where "AgentAutopilot \<equiv> ''autopilot''"

abbreviation CompletionAnyone :: string where "CompletionAnyone \<equiv> ''anyone''"
abbreviation CompletionPeople :: string where "CompletionPeople \<equiv> ''people''"
abbreviation CompletionAuto :: string where "CompletionAuto \<equiv> ''auto''"
abbreviation CompletionNone :: string where "CompletionNone \<equiv> ''none''"

record node_type =
  nt_ID :: string
  nt_Label :: string
  nt_Builtin :: bool
  nt_Shape :: string
  nt_Color :: string
  nt_AgentMode :: string
  nt_Completion :: string
  nt_CountsInProgress :: bool

definition NodeShapes :: "string list" where
  "NodeShapes = [''rect'', ''round'', ''pill'', ''ellipse'', ''diamond'', ''hexagon'', ''dashed'', ''thick'']"

definition CustomNodeTypePrefix :: string where
  "CustomNodeTypePrefix = ''custom-type-''"

definition MaxCustomNodeTypes :: nat where
  "MaxCustomNodeTypes = 64"

definition NodeKindTask :: string where
  "NodeKindTask = ''task''"

definition builtin_row :: "string \<Rightarrow> string \<Rightarrow> string \<Rightarrow> string \<Rightarrow> string \<Rightarrow> string \<Rightarrow> bool \<Rightarrow> node_type" where
  "builtin_row i label shape color mode compl counts =
     \<lparr>nt_ID = i, nt_Label = label, nt_Builtin = True, nt_Shape = shape, nt_Color = color,
      nt_AgentMode = mode, nt_Completion = compl, nt_CountsInProgress = counts\<rparr>"

definition builtinNodeTypes :: "node_type list" where
  "builtinNodeTypes =
     [builtin_row ''task'' ''Task'' ''round'' [] AgentDispatch CompletionAnyone True,
      builtin_row ''goal'' ''Goal'' ''thick'' ''#62b2c1'' AgentAutopilot CompletionPeople True,
      builtin_row ''scene'' ''Scene'' ''round'' [] AgentDispatch CompletionAnyone True,
      builtin_row ''event'' ''Event'' ''ellipse'' [] AgentDispatch CompletionAnyone True,
      builtin_row ''gate'' ''Review'' ''hexagon'' ''#f0a35e'' AgentNone CompletionPeople True,
      builtin_row ''choice'' ''Decision'' ''diamond'' [] AgentNone CompletionPeople True,
      builtin_row ''start'' ''Start'' ''pill'' [] AgentNone CompletionAuto False,
      builtin_row ''end'' ''End'' ''pill'' [] AgentNone CompletionAuto False,
      builtin_row ''note'' ''Note'' ''dashed'' [] AgentNone CompletionNone False]"

definition kindAliases :: "string \<rightharpoonup> string" where
  "kindAliases = [''review'' \<mapsto> ''gate'', ''decision'' \<mapsto> ''choice'']"

definition BuiltinNodeTypes :: "node_type list" where
  "BuiltinNodeTypes = builtinNodeTypes"

definition builtinNodeType :: "string \<Rightarrow> node_type option" where
  "builtinNodeType i = first_match (\<lambda>t. nt_ID t = i) builtinNodeTypes"

definition IsBuiltinNodeKind :: "string \<Rightarrow> bool" where
  "IsBuiltinNodeKind i \<longleftrightarrow> builtinNodeType i \<noteq> None"

definition NormalizeNodeKind :: "string \<Rightarrow> string" where
  "NormalizeNodeKind kind =
     (let k = trim_space kind in
      if has_prefix k CustomNodeTypePrefix then k
      else let k = to_lower k in
           (case kindAliases k of Some alias \<Rightarrow> alias | None \<Rightarrow> k))"

section \<open>Resolution\<close>

definition resolveDef :: "node_type_def \<Rightarrow> node_type" where
  "resolveDef d =
     \<lparr>nt_ID = ntd_ID d,
      nt_Label = trim_space (ntd_Label d),
      nt_Builtin = False,
      nt_Shape = (if ntd_Shape d = [] then ''round'' else ntd_Shape d),
      nt_Color = ntd_Color d,
      nt_AgentMode = (if ntd_AgentMode d = [] then AgentNone else ntd_AgentMode d),
      nt_Completion = (if ntd_Completion d = [] then CompletionAnyone else ntd_Completion d),
      nt_CountsInProgress = (case ntd_CountsInProgress d of Some b \<Rightarrow> b | None \<Rightarrow> False)\<rparr>"

text \<open>The body both loops share: a stored built-in changes only the shape and the colour.\<close>

definition override_look :: "node_type \<Rightarrow> node_type_def \<Rightarrow> node_type" where
  "override_look t d =
     (let t = (if ntd_Shape d \<noteq> [] then t\<lparr>nt_Shape := ntd_Shape d\<rparr> else t)
      in if ntd_Color d \<noteq> [] then t\<lparr>nt_Color := ntd_Color d\<rparr> else t)"

definition ResolvedNodeTypes :: "graph option \<Rightarrow> node_type list" where
  "ResolvedNodeTypes g =
     (case g of
        None \<Rightarrow> BuiltinNodeTypes
      | Some g \<Rightarrow>
          override_rows ntd_ID nt_ID IsBuiltinNodeKind override_look (graph_NodeTypes g) BuiltinNodeTypes @
          map resolveDef (filter (\<lambda>d. \<not> IsBuiltinNodeKind (ntd_ID d)) (graph_NodeTypes g)))"

definition nodeTypeByID :: "graph option \<Rightarrow> string \<Rightarrow> node_type option" where
  "nodeTypeByID g i =
     (case builtinNodeType i of
        Some t \<Rightarrow>
          Some (case g of
                  None \<Rightarrow> t
                | Some g \<Rightarrow> override_row ntd_ID override_look i (graph_NodeTypes g) t)
      | None \<Rightarrow>
          (case g of
             None \<Rightarrow> None
           | Some g \<Rightarrow>
               if \<not> has_prefix i CustomNodeTypePrefix then None
               else map_option resolveDef (first_match (\<lambda>d. ntd_ID d = i) (graph_NodeTypes g))))"

text \<open>
  A missing result is Go's zero value in \<^verbatim>\<open>t, _ := g.nodeTypeByID(NodeKindTask)\<close>;
  \<open>TypeOfKind_known\<close> below shows that the case does not arise.
\<close>

definition zero_node_type :: node_type where
  "zero_node_type = \<lparr>nt_ID = [], nt_Label = [], nt_Builtin = False, nt_Shape = [], nt_Color = [],
      nt_AgentMode = [], nt_Completion = [], nt_CountsInProgress = False\<rparr>"

definition TypeOfKind :: "graph option \<Rightarrow> string \<Rightarrow> node_type" where
  "TypeOfKind g kind =
     (let k = NormalizeNodeKind kind;
          k = (if k = [] then NodeKindTask else k)
      in case nodeTypeByID g k of
           Some t \<Rightarrow> t
         | None \<Rightarrow> (case nodeTypeByID g NodeKindTask of Some t \<Rightarrow> t | None \<Rightarrow> zero_node_type))"

definition TypeOf :: "graph option \<Rightarrow> node option \<Rightarrow> node_type" where
  "TypeOf g n = (case n of None \<Rightarrow> TypeOfKind g [] | Some n \<Rightarrow> TypeOfKind g (node_Kind n))"

definition KnownNodeKind :: "graph option \<Rightarrow> string \<Rightarrow> bool" where
  "KnownNodeKind g kind \<longleftrightarrow> (if kind = [] then True else nodeTypeByID g kind \<noteq> None)"

section \<open>Checking a stored list\<close>

definition custom_id_tail :: "string \<Rightarrow> bool" where
  "custom_id_tail s \<longleftrightarrow> 1 \<le> length s \<and> length s \<le> 48 \<and>
     list_all (\<lambda>c. is_alnum c \<or> c = CHR ''_'' \<or> c = CHR ''-'') s"

definition customNodeTypeIDPattern :: "string \<Rightarrow> bool" where
  "customNodeTypeIDPattern i =
     (case cut_prefix i ''custom-type-'' of None \<Rightarrow> False | Some s \<Rightarrow> custom_id_tail s)"

definition nodeTypeColor :: "string \<Rightarrow> bool" where
  "nodeTypeColor s = list_all (\<lambda>c. is_alnum c \<or> c \<in> set ''#(),.% -'') s"

definition ValidNodeShape :: "string \<Rightarrow> bool" where
  "ValidNodeShape s = (if s = [] then True else first_match (\<lambda>shape. shape = s) NodeShapes \<noteq> None)"

datatype type_problem =
    DuplicateType string
  | UnknownShape string string
  | InvalidColor string
  | BuiltinTypeChanged string
  | InvalidTypeID string
  | TypeLabel string
  | DuplicateTypeLabel string
  | InvalidAgentMode string string
  | InvalidCompletion string string
  | CountsMissing string
  | NotForAgents string string
  | NoStatusCounts string
  | AutopilotCompletion string
  | TooManyTypes nat

text \<open>\<^verbatim>\<open>if cond { add(problem) }\<close>\<close>

definition when_add :: "bool \<Rightarrow> 'p \<Rightarrow> 'p list" where
  "when_add c p = (if c then [p] else [])"

definition custom_label_ok :: "string \<Rightarrow> bool" where
  "custom_label_ok label \<longleftrightarrow> label \<noteq> [] \<and> rune_count label \<le> 64"

definition look_problems :: "node_type_def \<Rightarrow> type_problem list" where
  "look_problems d =
     when_add (\<not> ValidNodeShape (ntd_Shape d)) (UnknownShape (ntd_ID d) (ntd_Shape d)) @
     when_add (length (ntd_Color d) > 32 \<or> \<not> nodeTypeColor (ntd_Color d)) (InvalidColor (ntd_ID d))"

definition builtin_type_problems :: "node_type_def \<Rightarrow> type_problem list" where
  "builtin_type_problems d =
     when_add (ntd_Label d \<noteq> [] \<or> ntd_AgentMode d \<noteq> [] \<or> ntd_Completion d \<noteq> [] \<or> ntd_CountsInProgress d \<noteq> None)
       (BuiltinTypeChanged (ntd_ID d))"

definition custom_type_problems :: "string boolmap \<Rightarrow> node_type_def \<Rightarrow> type_problem list \<times> string boolmap" where
  "custom_type_problems labels d =
     (let i = ntd_ID d;
          label = trim_space (ntd_Label d);
          key = to_lower label;
          mode = ntd_AgentMode d;
          compl = ntd_Completion d
      in (when_add (\<not> customNodeTypeIDPattern i \<or> \<not> ValidNodeID i) (InvalidTypeID i) @
          (if \<not> custom_label_ok label then [TypeLabel i]
           else when_add (labels key) (DuplicateTypeLabel label)) @
          when_add (mode \<notin> {AgentNone, AgentDispatch, AgentAutopilot}) (InvalidAgentMode i mode) @
          when_add (compl \<notin> {CompletionAnyone, CompletionPeople, CompletionAuto, CompletionNone})
            (InvalidCompletion i compl) @
          when_add (ntd_CountsInProgress d = None) (CountsMissing i) @
          when_add ((compl = CompletionAuto \<or> compl = CompletionNone) \<and> mode \<noteq> AgentNone) (NotForAgents i compl) @
          when_add (compl = CompletionNone \<and> ntd_CountsInProgress d = Some True) (NoStatusCounts i) @
          when_add (mode = AgentAutopilot \<and> compl \<noteq> CompletionAnyone \<and> compl \<noteq> CompletionPeople)
            (AutopilotCompletion i),
          if custom_label_ok label then labels(key := True) else labels))"

fun type_problems_from ::
  "string boolmap \<Rightarrow> string boolmap \<Rightarrow> nat \<Rightarrow> node_type_def list \<Rightarrow> type_problem list" where
  "type_problems_from seen labels customs [] =
     when_add (customs > MaxCustomNodeTypes) (TooManyTypes MaxCustomNodeTypes)"
| "type_problems_from seen labels customs (d # ds) =
     (if seen (ntd_ID d) then DuplicateType (ntd_ID d) # type_problems_from seen labels customs ds
      else
        look_problems d @
        (if IsBuiltinNodeKind (ntd_ID d)
         then builtin_type_problems d @ type_problems_from (seen(ntd_ID d := True)) labels customs ds
         else (case custom_type_problems labels d of
                 (ps, labels') \<Rightarrow>
                   ps @ type_problems_from (seen(ntd_ID d := True)) labels' (customs + 1) ds)))"

definition NodeTypeDefProblems :: "node_type_def list \<Rightarrow> type_problem list" where
  "NodeTypeDefProblems defs = type_problems_from no_keys no_keys 0 defs"

text \<open>\<^verbatim>\<open>ValidateNodeTypeDefs\<close>: nil or an error holding every problem.\<close>

definition ValidateNodeTypeDefs :: "node_type_def list \<Rightarrow> type_problem list + unit" where
  "ValidateNodeTypeDefs defs =
     (let problems = NodeTypeDefProblems defs
      in if problems = [] then Inr () else Inl problems)"

section \<open>Lookup agrees with the resolved list\<close>

lemma when_add_Nil [simp]: "when_add c p = [] \<longleftrightarrow> \<not> c" "[] = when_add c p \<longleftrightarrow> \<not> c"
  by (simp_all add: when_add_def)

lemma set_when_add [simp]: "set (when_add c p) = (if c then {p} else {})"
  by (simp add: when_add_def)

lemma override_look_simps [simp]:
  "nt_ID (override_look t d) = nt_ID t" "nt_Builtin (override_look t d) = nt_Builtin t"
  "nt_AgentMode (override_look t d) = nt_AgentMode t" "nt_Completion (override_look t d) = nt_Completion t"
  "nt_CountsInProgress (override_look t d) = nt_CountsInProgress t" "nt_Label (override_look t d) = nt_Label t"
  "nt_Shape (override_look t d) = (if ntd_Shape d \<noteq> [] then ntd_Shape d else nt_Shape t)"
  by (simp_all add: override_look_def Let_def)

lemma resolveDef_ID [simp]: "nt_ID (resolveDef d) = ntd_ID d"
  by (simp add: resolveDef_def)

lemma IsBuiltin_fun: "IsBuiltinNodeKind = (\<lambda>i. builtinNodeType i \<noteq> None)"
  by (simp add: fun_eq_iff IsBuiltinNodeKind_def)

interpretation nt: sparse_table builtinNodeTypes nt_ID ntd_ID builtinNodeType override_look resolveDef
  "\<lambda>_. True" "\<lambda>i. has_prefix i CustomNodeTypePrefix"
  "\<lambda>ds. ResolvedNodeTypes (Some (empty_graph\<lparr>graph_NodeTypes := ds\<rparr>))"
  "\<lambda>ds. nodeTypeByID (Some (empty_graph\<lparr>graph_NodeTypes := ds\<rparr>))"
proof unfold_locales
  show "distinct (map nt_ID builtinNodeTypes)" by (simp add: builtinNodeTypes_def builtin_row_def)
  fix ds i
  show "ResolvedNodeTypes (Some (empty_graph\<lparr>graph_NodeTypes := ds\<rparr>)) =
      override_rows ntd_ID nt_ID (\<lambda>i. builtinNodeType i \<noteq> None) override_look ds builtinNodeTypes @
      map resolveDef (filter (\<lambda>d. builtinNodeType (ntd_ID d) = None \<and> True) ds)"
    by (simp add: ResolvedNodeTypes_def BuiltinNodeTypes_def IsBuiltin_fun)
  show "nodeTypeByID (Some (empty_graph\<lparr>graph_NodeTypes := ds\<rparr>)) i =
      (case builtinNodeType i of
         Some t \<Rightarrow> Some (override_row ntd_ID override_look i ds t)
       | None \<Rightarrow> if has_prefix i CustomNodeTypePrefix then map_option resolveDef (first_match (\<lambda>d. ntd_ID d = i) ds)
                 else None)"
    by (cases "builtinNodeType i") (simp_all add: nodeTypeByID_def)
qed (simp_all add: builtinNodeType_def)

lemma types_only_defs:
  "ResolvedNodeTypes (Some g) = ResolvedNodeTypes (Some (empty_graph\<lparr>graph_NodeTypes := graph_NodeTypes g\<rparr>))"
  "nodeTypeByID (Some g) i = nodeTypeByID (Some (empty_graph\<lparr>graph_NodeTypes := graph_NodeTypes g\<rparr>)) i"
  by (simp_all add: ResolvedNodeTypes_def nodeTypeByID_def split: option.split)

lemma nodeTypeByID_listed: "nodeTypeByID (Some g) i = Some t \<Longrightarrow> t \<in> set (ResolvedNodeTypes (Some g)) \<and> nt_ID t = i"
  unfolding types_only_defs(1,2) [of g] using nt.lookup_listed nt.lookup_id by blast

lemma nodeTypeByID_task: "nodeTypeByID (Some g) NodeKindTask \<noteq> None"
  by (simp add: nodeTypeByID_def builtinNodeType_def builtinNodeTypes_def builtin_row_def NodeKindTask_def)

lemma TypeOfKind_listed: "TypeOfKind (Some g) kind \<in> set (ResolvedNodeTypes (Some g))"
  using nodeTypeByID_task [of g] nodeTypeByID_listed [of g]
  by (auto simp: TypeOfKind_def Let_def split: option.splits)

section \<open>What a stored list must satisfy\<close>

definition type_def_ok :: "node_type_def \<Rightarrow> bool" where
  "type_def_ok d \<longleftrightarrow>
     ValidNodeShape (ntd_Shape d) \<and> length (ntd_Color d) \<le> 32 \<and> nodeTypeColor (ntd_Color d) \<and>
     (if IsBuiltinNodeKind (ntd_ID d)
      then ntd_Label d = [] \<and> ntd_AgentMode d = [] \<and> ntd_Completion d = [] \<and> ntd_CountsInProgress d = None
      else customNodeTypeIDPattern (ntd_ID d) \<and> ValidNodeID (ntd_ID d) \<and>
           custom_label_ok (trim_space (ntd_Label d)) \<and>
           ntd_CountsInProgress d \<noteq> None \<and>
           ((ntd_Completion d \<in> {CompletionAnyone, CompletionPeople} \<and>
             ntd_AgentMode d \<in> {AgentNone, AgentDispatch, AgentAutopilot}) \<or>
            (ntd_Completion d = CompletionAuto \<and> ntd_AgentMode d = AgentNone) \<or>
            (ntd_Completion d = CompletionNone \<and> ntd_AgentMode d = AgentNone \<and>
             ntd_CountsInProgress d = Some False)))"

abbreviation custom_defs :: "node_type_def list \<Rightarrow> node_type_def list" where
  "custom_defs ds \<equiv> filter (\<lambda>d. \<not> IsBuiltinNodeKind (ntd_ID d)) ds"

definition label_key :: "node_type_def \<Rightarrow> string" where
  "label_key d = to_lower (trim_space (ntd_Label d))"

text \<open>The custom rules over the agent mode, completion and counting choice, as one table.\<close>

lemma mode_completion_rules:
  "mode \<in> {AgentNone, AgentDispatch, AgentAutopilot} \<and>
   compl \<in> {CompletionAnyone, CompletionPeople, CompletionAuto, CompletionNone} \<and>
   cip \<noteq> None \<and> \<not> ((compl = CompletionAuto \<or> compl = CompletionNone) \<and> mode \<noteq> AgentNone) \<and>
   \<not> (compl = CompletionNone \<and> cip = Some True) \<and>
   \<not> (mode = AgentAutopilot \<and> compl \<noteq> CompletionAnyone \<and> compl \<noteq> CompletionPeople) \<longleftrightarrow>
   cip \<noteq> None \<and>
   ((compl \<in> {CompletionAnyone, CompletionPeople} \<and> mode \<in> {AgentNone, AgentDispatch, AgentAutopilot}) \<or>
    (compl = CompletionAuto \<and> mode = AgentNone) \<or>
    (compl = CompletionNone \<and> mode = AgentNone \<and> cip = Some False))"
  (is "?L \<longleftrightarrow> ?R")
proof (cases "compl = CompletionAnyone \<or> compl = CompletionPeople")
  case True
  then show ?thesis by (elim disjE) (simp_all add: conj_commute)
next
  case False
  show ?thesis
  proof (cases "compl = CompletionAuto \<or> compl = CompletionNone")
    case True
    then show ?thesis by (cases cip; cases "mode = AgentNone"; elim disjE) simp_all
  next
    case no: False
    have "?L \<longleftrightarrow> False" "?R \<longleftrightarrow> False" using False no by simp_all
    then show ?thesis by (rule trans [OF _ sym])
  qed
qed

lemma if_label_Nil: "(if \<not> ok then [p] else when_add c q) = [] \<longleftrightarrow> ok \<and> \<not> c"
  by simp

lemma custom_type_problems_ok:
  assumes "\<not> IsBuiltinNodeKind (ntd_ID d)"
  shows "look_problems d = [] \<and> fst (custom_type_problems labels d) = [] \<longleftrightarrow>
    type_def_ok d \<and> \<not> labels (label_key d)"
proof -
  have "fst (custom_type_problems labels d) = [] \<longleftrightarrow>
      customNodeTypeIDPattern (ntd_ID d) \<and> ValidNodeID (ntd_ID d) \<and>
      custom_label_ok (trim_space (ntd_Label d)) \<and> \<not> labels (label_key d) \<and>
      ntd_CountsInProgress d \<noteq> None \<and>
      ((ntd_Completion d \<in> {CompletionAnyone, CompletionPeople} \<and>
        ntd_AgentMode d \<in> {AgentNone, AgentDispatch, AgentAutopilot}) \<or>
       (ntd_Completion d = CompletionAuto \<and> ntd_AgentMode d = AgentNone) \<or>
       (ntd_Completion d = CompletionNone \<and> ntd_AgentMode d = AgentNone \<and>
        ntd_CountsInProgress d = Some False))"
    unfolding mode_completion_rules [symmetric] custom_type_problems_def label_key_def Let_def
      fst_conv append_is_Nil_conv when_add_Nil de_Morgan_disj not_not
      if_label_Nil by (simp only: conj_assoc)
  moreover have "look_problems d = [] \<longleftrightarrow>
      ValidNodeShape (ntd_Shape d) \<and> length (ntd_Color d) \<le> 32 \<and> nodeTypeColor (ntd_Color d)"
    by (auto simp: look_problems_def)
  ultimately show ?thesis unfolding type_def_ok_def if_not_P [OF assms]
    by (intro iffI; elim conjE; intro conjI) simp_all
qed

lemma custom_type_problems_labels:
  assumes "\<not> IsBuiltinNodeKind (ntd_ID d)" "type_def_ok d"
  shows "snd (custom_type_problems labels d) = labels(label_key d := True)"
  using assms by (simp add: custom_type_problems_def type_def_ok_def label_key_def Let_def)

lemma builtin_type_problems_ok:
  assumes "IsBuiltinNodeKind (ntd_ID d)"
  shows "look_problems d = [] \<and> builtin_type_problems d = [] \<longleftrightarrow> type_def_ok d"
  using assms by (auto simp: builtin_type_problems_def type_def_ok_def look_problems_def)

lemma type_problems_from_Nil:
  "type_problems_from seen labels customs ds = [] \<longleftrightarrow>
     distinct (map ntd_ID ds) \<and> (\<forall>d\<in>set ds. \<not> seen (ntd_ID d) \<and> type_def_ok d) \<and>
     distinct (map label_key (custom_defs ds)) \<and> (\<forall>d\<in>set (custom_defs ds). \<not> labels (label_key d)) \<and>
     customs + length (custom_defs ds) \<le> MaxCustomNodeTypes"
proof (induction ds arbitrary: seen labels customs)
  case (Cons d ds)
  show ?case
  proof (cases "IsBuiltinNodeKind (ntd_ID d)")
    case True
    then have "type_problems_from seen labels customs (d # ds) = [] \<longleftrightarrow>
      \<not> seen (ntd_ID d) \<and> type_def_ok d \<and> type_problems_from (seen(ntd_ID d := True)) labels customs ds = []"
      using builtin_type_problems_ok [OF True] by auto
    with True show ?thesis unfolding Cons.IH by (auto simp: image_iff)
  next
    case False
    obtain ps l where c: "custom_type_problems labels d = (ps, l)" by fastforce
    have "type_problems_from seen labels customs (d # ds) = [] \<longleftrightarrow>
      \<not> seen (ntd_ID d) \<and> type_def_ok d \<and> \<not> labels (label_key d) \<and>
      type_problems_from (seen(ntd_ID d := True)) (labels(label_key d := True)) (customs + 1) ds = []"
      using custom_type_problems_ok [OF False, of labels] custom_type_problems_labels [OF False, of labels] False
      by (auto simp: c)
    with False show ?thesis unfolding Cons.IH by (auto simp: image_iff)
  qed
qed (auto simp: when_add_def)

lemmas NodeTypeDefProblems_Nil = type_problems_from_Nil [of no_keys no_keys 0, folded NodeTypeDefProblems_def, simplified]

section \<open>Resolved types are well formed\<close>

definition type_wf :: "node_type \<Rightarrow> bool" where
  "type_wf t \<longleftrightarrow>
     nt_AgentMode t \<in> {AgentNone, AgentDispatch, AgentAutopilot} \<and>
     nt_Completion t \<in> {CompletionAnyone, CompletionPeople, CompletionAuto, CompletionNone} \<and>
     nt_Shape t \<in> set NodeShapes \<and>
     (nt_Completion t \<in> {CompletionAuto, CompletionNone} \<longrightarrow> nt_AgentMode t = AgentNone) \<and>
     (nt_Completion t = CompletionNone \<longrightarrow> \<not> nt_CountsInProgress t)"

lemma ValidNodeShape_iff: "ValidNodeShape s \<longleftrightarrow> s = [] \<or> s \<in> set NodeShapes"
  by (auto simp: ValidNodeShape_def)

lemma builtin_types_wf: "t \<in> set builtinNodeTypes \<Longrightarrow> type_wf t"
  by (auto simp: builtinNodeTypes_def type_wf_def builtin_row_def NodeShapes_def)

lemma override_look_wf: "type_wf t \<Longrightarrow> ValidNodeShape (ntd_Shape d) \<Longrightarrow> type_wf (override_look t d)"
  unfolding type_wf_def ValidNodeShape_iff by (cases "ntd_Shape d = []") simp_all

lemma resolveDef_wf:
  assumes "type_def_ok d" "\<not> IsBuiltinNodeKind (ntd_ID d)"
  shows "type_wf (resolveDef d)"
proof -
  let ?c = "ntd_Completion d" and ?m = "ntd_AgentMode d"
  have "(?c \<in> {CompletionAnyone, CompletionPeople} \<and> ?m \<in> {AgentNone, AgentDispatch, AgentAutopilot}) \<or>
      (?c = CompletionAuto \<and> ?m = AgentNone) \<or>
      (?c = CompletionNone \<and> ?m = AgentNone \<and> ntd_CountsInProgress d = Some False)"
    using assms(1) unfolding type_def_ok_def if_not_P [OF assms(2)] by (elim conjE)
  moreover have "nt_Shape (resolveDef d) \<in> set NodeShapes"
    using assms(1) unfolding type_def_ok_def ValidNodeShape_iff
    by (cases "ntd_Shape d = []") (simp_all add: resolveDef_def NodeShapes_def)
  ultimately show ?thesis unfolding type_wf_def
    by (elim disjE conjE insertE) (simp_all add: resolveDef_def)
qed

lemma resolved_types_wf:
  assumes "NodeTypeDefProblems (graph_NodeTypes g) = []" "t \<in> set (ResolvedNodeTypes (Some g))"
  shows "type_wf t"
proof -
  have ok: "\<forall>d\<in>set (graph_NodeTypes g). type_def_ok d" using assms(1) by (simp add: NodeTypeDefProblems_Nil)
  have "type_wf (override_row ntd_ID override_look (nt_ID r) (graph_NodeTypes g) r)" if "r \<in> set builtinNodeTypes" for r
    by (rule override_row_keeps) (use that ok builtin_types_wf override_look_wf in \<open>auto simp: type_def_ok_def\<close>)
  moreover have "t \<in> set (map (\<lambda>r. override_row ntd_ID override_look (nt_ID r) (graph_NodeTypes g) r) builtinNodeTypes) \<or>
      (\<exists>d\<in>set (graph_NodeTypes g). \<not> IsBuiltinNodeKind (ntd_ID d) \<and> t = resolveDef d)"
    using assms(2) unfolding types_only_defs(1) [of g] nt.resolved_eq by (auto simp: IsBuiltinNodeKind_def)
  ultimately show ?thesis using ok resolveDef_wf by auto
qed

section \<open>Properties\<close>

text \<open>
  Looking a type up by id (\<^verbatim>\<open>nodeTypeByID\<close>, which scans the definitions of that id) gives exactly the
  row of \<^verbatim>\<open>ResolvedNodeTypes\<close> with that id, for every built-in id and every id with the custom prefix;
  so the editor's type list and the engine's lookups never disagree.
\<close>

theorem node_type_lookup_agrees:
  assumes "IsBuiltinNodeKind i \<or> has_prefix i CustomNodeTypePrefix"
  shows "nodeTypeByID (Some g) i = first_match (\<lambda>t. nt_ID t = i) (ResolvedNodeTypes (Some g))"
  unfolding types_only_defs(1,2) [of g]
  using assms nt.lookup_resolved by (simp add: IsBuiltinNodeKind_def)

theorem node_type_lookup_agrees_witness:
  "nodeTypeByID (Some (empty_graph\<lparr>graph_NodeTypes :=
      [\<lparr>ntd_ID = ''gate'', ntd_Label = [], ntd_Shape = ''pill'', ntd_Color = [], ntd_AgentMode = [],
        ntd_Completion = [], ntd_CountsInProgress = None\<rparr>]\<rparr>)) ''gate'' =
   first_match (\<lambda>t. nt_ID t = ''gate'') (ResolvedNodeTypes (Some (empty_graph\<lparr>graph_NodeTypes :=
      [\<lparr>ntd_ID = ''gate'', ntd_Label = [], ntd_Shape = ''pill'', ntd_Color = [], ntd_AgentMode = [],
        ntd_Completion = [], ntd_CountsInProgress = None\<rparr>]\<rparr>)))"
  by (rule node_type_lookup_agrees) code_simp

text \<open>
  \<^verbatim>\<open>NodeTypeDefProblems\<close> reports nothing exactly for the lists that follow the rules: distinct ids,
  each definition sound on its own (\<open>type_def_ok\<close>), custom labels distinct up to case, and at most 64
  custom types.
\<close>

theorem node_type_problems_exact:
  "ValidateNodeTypeDefs defs = Inr () \<longleftrightarrow>
     distinct (map ntd_ID defs) \<and> list_all type_def_ok defs \<and>
     distinct (map label_key (custom_defs defs)) \<and> length (custom_defs defs) \<le> MaxCustomNodeTypes"
  by (simp add: ValidateNodeTypeDefs_def NodeTypeDefProblems_Nil list_all_iff Let_def)

text \<open>
  With an accepted list, every kind a node can carry (known, unknown, aliased or empty) resolves to a
  well-formed type: a known agent mode, completion and shape, agents excluded from automatic and
  status-less types, status-less types not counted; and the resolved list has one row per id.
\<close>

theorem accepted_types_resolve:
  assumes "ValidateNodeTypeDefs (graph_NodeTypes g) = Inr ()"
  shows "type_wf (TypeOf (Some g) n) \<and> distinct (map nt_ID (ResolvedNodeTypes (Some g)))"
proof
  have ok: "NodeTypeDefProblems (graph_NodeTypes g) = []"
    using assms by (simp add: ValidateNodeTypeDefs_def Let_def split: if_splits)
  show "type_wf (TypeOf (Some g) n)"
    using resolved_types_wf [OF ok] TypeOfKind_listed by (simp add: TypeOf_def split: option.split)
  show "distinct (map nt_ID (ResolvedNodeTypes (Some g)))"
    unfolding types_only_defs(1) [of g]
    by (rule nt.resolved_distinct) (use ok in \<open>simp add: NodeTypeDefProblems_Nil\<close>)
qed

theorem accepted_types_resolve_witness:
  "type_wf (TypeOf (Some (empty_graph\<lparr>graph_NodeTypes :=
     [\<lparr>ntd_ID = ''custom-type-Bug'', ntd_Label = ''Bug'', ntd_Shape = ''pill'', ntd_Color = ''#fff'',
       ntd_AgentMode = AgentDispatch, ntd_Completion = CompletionPeople, ntd_CountsInProgress = Some True\<rparr>]\<rparr>)) None) \<and>
   distinct (map nt_ID (ResolvedNodeTypes (Some (empty_graph\<lparr>graph_NodeTypes :=
     [\<lparr>ntd_ID = ''custom-type-Bug'', ntd_Label = ''Bug'', ntd_Shape = ''pill'', ntd_Color = ''#fff'',
       ntd_AgentMode = AgentDispatch, ntd_Completion = CompletionPeople, ntd_CountsInProgress = Some True\<rparr>]\<rparr>))))"
  by (rule accepted_types_resolve) code_simp

end
