(* ===== verification/Roles.thy ===== *)
theory Roles
  imports Node_Types
begin

text \<open>
  Who a request acts as (\<^verbatim>\<open>internal/identity/actor.go\<close>) and agent roles
  (\<^verbatim>\<open>internal/engine/roles.go\<close>): the built-in role table with its tool lists, the capabilities a
  tool list needs, the resolution of a role id against the project, and the check of a stored
  \<^verbatim>\<open>agent_roles\<close> list.
\<close>

section \<open>Actors\<close>

abbreviation AgentHuman :: string where "AgentHuman \<equiv> []"
abbreviation AgentOrchestrator :: string where "AgentOrchestrator \<equiv> ''orchestrator''"
abbreviation AgentWorker :: string where "AgentWorker \<equiv> ''worker''"

record actor =
  actor_ID :: string
  actor_Name :: string
  actor_Role :: string
  actor_Agent :: string
  actor_AgentRole :: string
  actor_RunID :: string
  actor_RunNodeID :: string

definition IsAgent :: "actor \<Rightarrow> bool" where
  "IsAgent a \<longleftrightarrow> actor_Agent a \<noteq> []"

definition HasRole :: "actor \<Rightarrow> bool" where
  "HasRole a \<longleftrightarrow> IsAgent a \<and> actor_AgentRole a \<noteq> []"

definition classRank :: "string \<Rightarrow> nat" where
  "classRank c = (if c = AgentHuman then 2 else if c = AgentOrchestrator then 1 else 0)"

definition LowerClass :: "string \<Rightarrow> string \<Rightarrow> string" where
  "LowerClass a b = (if classRank b < classRank a then b else a)"

definition IsAdmin :: "actor \<Rightarrow> bool" where
  "IsAdmin a \<longleftrightarrow> actor_Role a = ''admin'' \<or> actor_ID a = ''local''"

definition System :: actor where
  "System = \<lparr>actor_ID = ''hub'', actor_Name = ''hub'', actor_Role = [], actor_Agent = [], actor_AgentRole = [],
     actor_RunID = [], actor_RunNodeID = []\<rparr>"

definition Local :: actor where
  "Local = \<lparr>actor_ID = ''local'', actor_Name = ''local'', actor_Role = ''admin'', actor_Agent = [],
     actor_AgentRole = [], actor_RunID = [], actor_RunNodeID = []\<rparr>"

section \<open>Capabilities\<close>

definition MaxCustomRoles :: nat where "MaxCustomRoles = 32"

definition MaxRoleInstructionsBytes :: nat where "MaxRoleInstructionsBytes = 2 * 2 ^ 10"

definition Capabilities :: "string list" where
  "Capabilities = [''read'', ''claim'', ''status'', ''body'', ''create'', ''link'', ''meta'', ''acceptance'',
     ''message'', ''verdict'']"

definition ToolCapabilities :: "string \<Rightarrow> string list" where
  "ToolCapabilities tool =
     (case map_of
        [(''get_node'', [''read'']), (''get_graph_outline'', [''read'']), (''search_nodes'', [''read'']),
         (''get_ready_tasks'', [''read'']), (''validate_graph'', [''read'']), (''list_projects'', [''read'']),
         (''search_documents'', [''read'']), (''index_documents'', [''read'']),
         (''claim_task'', [''claim'']), (''release_task'', [''claim'']),
         (''set_node_status'', [''status'']), (''update_node_body'', [''body'']),
         (''create_node'', [''create'']), (''create_subgraph'', [''create'', ''link'']),
         (''link_nodes'', [''link'']), (''update_node_meta'', [''meta'']),
         (''set_acceptance'', [''acceptance'']),
         (''ask_user'', [''message'']), (''approve_tool'', [''message'']), (''check_inbox'', [''message'']),
         (''send_message'', [''message'']), (''list_team'', [''message'']), (''save_attachment'', [''message'']),
         (''submit_verdict'', [''verdict''])] tool of
        Some caps \<Rightarrow> caps
      | None \<Rightarrow> [])"

fun held_caps :: "string boolmap \<Rightarrow> string list \<Rightarrow> string boolmap" where
  "held_caps held [] = held"
| "held_caps held (tool # tools) =
     held_caps (fold (\<lambda>c h. h(c := True)) (ToolCapabilities tool) held) tools"

definition CapsForTools :: "string list \<Rightarrow> string list" where
  "CapsForTools tools = filter (held_caps no_keys tools) Capabilities"

section \<open>The built-in roles\<close>

record agent_role =
  ar_ID :: string
  ar_Label :: string
  ar_Builtin :: bool
  ar_BasedOn :: string
  ar_Rank :: string
  ar_Tools :: "string list"
  ar_WriteTypes :: "string list"
  ar_AcceptanceTypes :: "string list"
  ar_Caps :: "string list"
  ar_Instructions :: string

definition builtinRole ::
  "string \<Rightarrow> string \<Rightarrow> string \<Rightarrow> string list \<Rightarrow> string list \<Rightarrow> string list \<Rightarrow> agent_role" where
  "builtinRole i label rank tools writeTypes acceptanceTypes =
     \<lparr>ar_ID = i, ar_Label = label, ar_Builtin = True, ar_BasedOn = [], ar_Rank = rank, ar_Tools = tools,
      ar_WriteTypes = writeTypes, ar_AcceptanceTypes = acceptanceTypes, ar_Caps = CapsForTools tools,
      ar_Instructions = []\<rparr>"

definition builtinAgentRoles :: "agent_role list" where
  "builtinAgentRoles =
     [builtinRole ''planner'' ''Planner'' AgentOrchestrator
        [''get_node'', ''get_graph_outline'', ''search_nodes'', ''create_subgraph'', ''create_node'', ''link_nodes'',
         ''set_acceptance'', ''ask_user'', ''approve_tool'', ''check_inbox'', ''send_message'']
        [''task'', ''scene'', ''event'', ''note'', ''gate'', ''choice'']
        [''task'', ''scene'', ''event'', ''goal''],
      builtinRole ''qa'' ''QA'' AgentOrchestrator
        [''get_node'', ''get_graph_outline'', ''set_acceptance'', ''create_subgraph'', ''link_nodes'', ''ask_user'',
         ''approve_tool'', ''check_inbox'', ''send_message'', ''submit_verdict'']
        [''task'', ''scene'', ''event'']
        [''goal''],
      builtinRole ''tester'' ''Tester'' AgentWorker
        [''get_node'', ''ask_user'', ''approve_tool'', ''check_inbox'', ''send_message'']
        [] [],
      builtinRole ''executor'' ''Executor'' AgentWorker
        [''claim_task'', ''get_node'', ''set_node_status'', ''release_task'', ''ask_user'', ''approve_tool'',
         ''check_inbox'', ''send_message'']
        [''task'', ''scene'', ''event''] [],
      builtinRole ''reviewer'' ''Reviewer'' AgentWorker
        [''get_node'', ''approve_tool'', ''check_inbox'', ''send_message'', ''submit_verdict'']
        [] [],
      builtinRole ''researcher'' ''Researcher'' AgentWorker
        [''get_node'', ''get_graph_outline'', ''search_nodes'', ''search_documents'', ''create_node'',
         ''update_node_body'', ''link_nodes'', ''ask_user'', ''approve_tool'', ''check_inbox'', ''send_message'']
        [''note''] []]"

text \<open>The copies the code makes of slices have no effect on values.\<close>

definition BuiltinAgentRoles :: "agent_role list" where
  "BuiltinAgentRoles = builtinAgentRoles"

definition builtinAgentRole :: "string \<Rightarrow> agent_role option" where
  "builtinAgentRole i = first_match (\<lambda>r. ar_ID r = i) builtinAgentRoles"

definition IsBuiltinRole :: "string \<Rightarrow> bool" where
  "IsBuiltinRole i \<longleftrightarrow> builtinAgentRole i \<noteq> None"

definition customRoleIDPattern :: "string \<Rightarrow> bool" where
  "customRoleIDPattern i =
     (case cut_prefix i ''custom-role-'' of None \<Rightarrow> False | Some s \<Rightarrow> custom_id_tail s)"

definition ValidRoleID :: "string \<Rightarrow> bool" where
  "ValidRoleID i \<longleftrightarrow> IsBuiltinRole i \<or> customRoleIDPattern i"

section \<open>Resolution\<close>

definition applyOverride :: "agent_role \<Rightarrow> agent_role_def \<Rightarrow> agent_role" where
  "applyOverride r d =
     (let r = (case ard_Tools d of
                 None \<Rightarrow> r
               | Some tools \<Rightarrow> r\<lparr>ar_Tools := tools, ar_Caps := CapsForTools tools\<rparr>);
          r = (case ard_WriteTypes d of None \<Rightarrow> r | Some ts \<Rightarrow> r\<lparr>ar_WriteTypes := ts\<rparr>)
      in case ard_AcceptanceTypes d of None \<Rightarrow> r | Some ts \<Rightarrow> r\<lparr>ar_AcceptanceTypes := ts\<rparr>)"

definition resolveCustomRole :: "agent_role_def \<Rightarrow> agent_role" where
  "resolveCustomRole d =
     \<lparr>ar_ID = ard_ID d,
      ar_Label = trim_space (ard_Label d),
      ar_Builtin = False,
      ar_BasedOn = ard_BasedOn d,
      ar_Rank = (if ard_Rank d \<noteq> AgentOrchestrator then AgentWorker else ard_Rank d),
      ar_Tools = slice (ard_Tools d),
      ar_WriteTypes = slice (ard_WriteTypes d),
      ar_AcceptanceTypes = slice (ard_AcceptanceTypes d),
      ar_Caps = CapsForTools (slice (ard_Tools d)),
      ar_Instructions = ard_Instructions d\<rparr>"

definition ResolvedAgentRoles :: "graph option \<Rightarrow> agent_role list" where
  "ResolvedAgentRoles g =
     (case g of
        None \<Rightarrow> BuiltinAgentRoles
      | Some g \<Rightarrow>
          override_rows ard_ID ar_ID IsBuiltinRole applyOverride (graph_AgentRoles g) BuiltinAgentRoles @
          map resolveCustomRole
            (filter (\<lambda>d. \<not> IsBuiltinRole (ard_ID d) \<and> customRoleIDPattern (ard_ID d)) (graph_AgentRoles g)))"

definition RoleOf :: "graph option \<Rightarrow> string \<Rightarrow> agent_role option" where
  "RoleOf g i =
     (case builtinAgentRole i of
        Some r \<Rightarrow>
          Some (case g of
                  None \<Rightarrow> r
                | Some g \<Rightarrow> override_row ard_ID applyOverride i (graph_AgentRoles g) r)
      | None \<Rightarrow>
          (case g of
             None \<Rightarrow> None
           | Some g \<Rightarrow>
               if \<not> customRoleIDPattern i then None
               else map_option resolveCustomRole (first_match (\<lambda>d. ard_ID d = i) (graph_AgentRoles g))))"

definition Slot :: "agent_role \<Rightarrow> string" where
  "Slot r = (if ar_Builtin r then ar_ID r else ar_BasedOn r)"

definition HasCap :: "agent_role \<Rightarrow> string \<Rightarrow> bool" where
  "HasCap r c \<longleftrightarrow> first_match (\<lambda>held. held = c) (ar_Caps r) \<noteq> None"

definition containsString :: "string list \<Rightarrow> string \<Rightarrow> bool" where
  "containsString xs s \<longleftrightarrow> first_match (\<lambda>v. v = s) xs \<noteq> None"

definition HasTool :: "agent_role \<Rightarrow> string \<Rightarrow> bool" where
  "HasTool r tool = containsString (ar_Tools r) tool"

definition MayWriteType :: "agent_role \<Rightarrow> string \<Rightarrow> bool" where
  "MayWriteType r kind = containsString (ar_WriteTypes r) kind"

definition MayAcceptType :: "agent_role \<Rightarrow> string \<Rightarrow> bool" where
  "MayAcceptType r kind = containsString (ar_AcceptanceTypes r) kind"

definition RoleClass :: "graph option \<Rightarrow> string \<Rightarrow> string" where
  "RoleClass g i = (case RoleOf g i of None \<Rightarrow> [] | Some r \<Rightarrow> ar_Rank r)"

section \<open>Checking a stored list\<close>

definition knownRoleType :: "string \<Rightarrow> bool" where
  "knownRoleType kind \<longleftrightarrow> IsBuiltinNodeKind kind \<or> customNodeTypeIDPattern kind"

datatype role_problem =
    UnknownTool string string
  | UnknownWriteType string string
  | UnknownAcceptanceType string string
  | DuplicateRole string
  | BuiltinRoleChanged string
  | InvalidRoleID string
  | RoleLabel string
  | RoleBasedOn string string
  | InvalidRank string string
  | InstructionsTooLong string nat
  | TooManyRoles nat nat

definition checkLists :: "agent_role_def \<Rightarrow> role_problem list" where
  "checkLists d =
     map (UnknownTool (ard_ID d)) (filter (\<lambda>t. length (ToolCapabilities t) = 0) (slice (ard_Tools d))) @
     map (UnknownWriteType (ard_ID d)) (filter (\<lambda>k. \<not> knownRoleType k) (slice (ard_WriteTypes d))) @
     map (UnknownAcceptanceType (ard_ID d)) (filter (\<lambda>k. \<not> knownRoleType k) (slice (ard_AcceptanceTypes d)))"

definition custom_role_problems :: "agent_role_def \<Rightarrow> role_problem list" where
  "custom_role_problems d =
     (let label = trim_space (ard_Label d) in
      when_add (label = [] \<or> rune_count label > 64) (RoleLabel (ard_ID d)) @
      when_add (\<not> IsBuiltinRole (ard_BasedOn d)) (RoleBasedOn (ard_ID d) (ard_BasedOn d)) @
      when_add (ard_Rank d \<noteq> AgentWorker \<and> ard_Rank d \<noteq> AgentOrchestrator) (InvalidRank (ard_ID d) (ard_Rank d)) @
      when_add (length (ard_Instructions d) > MaxRoleInstructionsBytes)
        (InstructionsTooLong (ard_ID d) MaxRoleInstructionsBytes) @
      checkLists d)"

fun role_problems_from :: "string boolmap \<Rightarrow> nat \<Rightarrow> agent_role_def list \<Rightarrow> role_problem list" where
  "role_problems_from seen customs [] = when_add (customs > MaxCustomRoles) (TooManyRoles customs MaxCustomRoles)"
| "role_problems_from seen customs (d # ds) =
     (if seen (ard_ID d) then DuplicateRole (ard_ID d) # role_problems_from seen customs ds
      else if IsBuiltinRole (ard_ID d) then
        when_add (ard_Label d \<noteq> [] \<or> ard_BasedOn d \<noteq> [] \<or> ard_Rank d \<noteq> [] \<or> ard_Instructions d \<noteq> [])
          (BuiltinRoleChanged (ard_ID d)) @
        checkLists d @ role_problems_from (seen(ard_ID d := True)) customs ds
      else if \<not> customRoleIDPattern (ard_ID d) then
        InvalidRoleID (ard_ID d) # role_problems_from (seen(ard_ID d := True)) (customs + 1) ds
      else custom_role_problems d @ role_problems_from (seen(ard_ID d := True)) (customs + 1) ds)"

definition AgentRoleDefProblems :: "agent_role_def list \<Rightarrow> role_problem list" where
  "AgentRoleDefProblems defs = role_problems_from no_keys 0 defs"

definition ValidateAgentRoleDefs :: "agent_role_def list \<Rightarrow> role_problem list + unit" where
  "ValidateAgentRoleDefs defs =
     (let problems = AgentRoleDefProblems defs in if problems = [] then Inr () else Inl problems)"

section \<open>Capabilities of a tool list\<close>

lemma fold_held: "fold (\<lambda>c h. h(c := True)) cs held c \<longleftrightarrow> held c \<or> c \<in> set cs"
  by (induction cs arbitrary: held) auto

lemma held_caps_iff: "held_caps held tools c \<longleftrightarrow> held c \<or> (\<exists>t\<in>set tools. c \<in> set (ToolCapabilities t))"
  by (induction tools arbitrary: held) (auto simp: fold_held)

lemma ToolCapabilities_listed: "set (ToolCapabilities t) \<subseteq> set Capabilities"
proof (cases "ToolCapabilities t = []")
  case False
  then show ?thesis
    unfolding ToolCapabilities_def Capabilities_def
    by (auto split: option.splits dest!: map_of_SomeD)
qed simp

lemma set_CapsForTools: "set (CapsForTools tools) = (\<Union>t\<in>set tools. set (ToolCapabilities t))"
  using ToolCapabilities_listed by (fastforce simp: CapsForTools_def held_caps_iff)

lemma containsString_iff [simp]: "containsString xs s \<longleftrightarrow> s \<in> set xs"
  by (auto simp: containsString_def)

lemma HasCap_iff: "HasCap r c \<longleftrightarrow> c \<in> set (ar_Caps r)"
  by (auto simp: HasCap_def)

section \<open>Lookup agrees with the resolved list\<close>

lemma applyOverride_simps [simp]:
  "ar_ID (applyOverride r d) = ar_ID r" "ar_Rank (applyOverride r d) = ar_Rank r"
  "ar_Builtin (applyOverride r d) = ar_Builtin r" "ar_Label (applyOverride r d) = ar_Label r"
  "ar_BasedOn (applyOverride r d) = ar_BasedOn r" "ar_Instructions (applyOverride r d) = ar_Instructions r"
  by (simp_all add: applyOverride_def Let_def split: option.split)

lemma applyOverride_caps:
  "ar_Caps r = CapsForTools (ar_Tools r) \<Longrightarrow>
     ar_Caps (applyOverride r d) = CapsForTools (ar_Tools (applyOverride r d))"
  by (simp add: applyOverride_def Let_def split: option.split)

lemma resolveCustomRole_simps [simp]:
  "ar_ID (resolveCustomRole d) = ard_ID d" "ar_Builtin (resolveCustomRole d) = False"
  "ar_Caps (resolveCustomRole d) = CapsForTools (ar_Tools (resolveCustomRole d))"
  "ar_Rank (resolveCustomRole d) = (if ard_Rank d = AgentOrchestrator then AgentOrchestrator else AgentWorker)"
  by (simp_all add: resolveCustomRole_def)

lemma IsBuiltinRole_fun: "IsBuiltinRole = (\<lambda>i. builtinAgentRole i \<noteq> None)"
  by (simp add: fun_eq_iff IsBuiltinRole_def)

lemma builtin_roles_distinct: "distinct (map ar_ID builtinAgentRoles)"
  by (simp add: builtinAgentRoles_def builtinRole_def)

interpretation ar: sparse_table builtinAgentRoles ar_ID ard_ID builtinAgentRole applyOverride resolveCustomRole
  customRoleIDPattern customRoleIDPattern
  "\<lambda>ds. ResolvedAgentRoles (Some (empty_graph\<lparr>graph_AgentRoles := ds\<rparr>))"
  "\<lambda>ds. RoleOf (Some (empty_graph\<lparr>graph_AgentRoles := ds\<rparr>))"
proof unfold_locales
  fix ds i
  show "ResolvedAgentRoles (Some (empty_graph\<lparr>graph_AgentRoles := ds\<rparr>)) =
      override_rows ard_ID ar_ID (\<lambda>i. builtinAgentRole i \<noteq> None) applyOverride ds builtinAgentRoles @
      map resolveCustomRole (filter (\<lambda>d. builtinAgentRole (ard_ID d) = None \<and> customRoleIDPattern (ard_ID d)) ds)"
    by (simp add: ResolvedAgentRoles_def BuiltinAgentRoles_def IsBuiltinRole_fun)
  show "RoleOf (Some (empty_graph\<lparr>graph_AgentRoles := ds\<rparr>)) i =
      (case builtinAgentRole i of
         Some t \<Rightarrow> Some (override_row ard_ID applyOverride i ds t)
       | None \<Rightarrow> if customRoleIDPattern i then map_option resolveCustomRole (first_match (\<lambda>d. ard_ID d = i) ds)
                 else None)"
    by (cases "builtinAgentRole i") (simp_all add: RoleOf_def)
qed (simp_all add: builtinAgentRole_def builtin_roles_distinct)

lemma roles_only_defs:
  "ResolvedAgentRoles (Some g) = ResolvedAgentRoles (Some (empty_graph\<lparr>graph_AgentRoles := graph_AgentRoles g\<rparr>))"
  "RoleOf (Some g) i = RoleOf (Some (empty_graph\<lparr>graph_AgentRoles := graph_AgentRoles g\<rparr>)) i"
  by (simp_all add: ResolvedAgentRoles_def RoleOf_def split: option.split)

lemma builtin_role_shape:
  assumes "r \<in> set builtinAgentRoles"
  shows "ar_Caps r = CapsForTools (ar_Tools r) \<and> ar_Builtin r \<and> ar_Rank r \<in> {AgentWorker, AgentOrchestrator}"
  using assms unfolding builtinAgentRoles_def by (auto simp: builtinRole_def)

lemma RoleOf_cases:
  assumes "RoleOf (Some g) i = Some r"
  shows "(\<exists>b. builtinAgentRole i = Some b \<and> r = override_row ard_ID applyOverride i (graph_AgentRoles g) b) \<or>
    (\<exists>d. builtinAgentRole i = None \<and> d \<in> set (graph_AgentRoles g) \<and> ard_ID d = i \<and> customRoleIDPattern i \<and>
         r = resolveCustomRole d)"
  using assms unfolding RoleOf_def by (auto split: option.splits if_splits dest: first_match_SomeD)

lemma override_role_keeps:
  "ar_Rank (override_row ard_ID applyOverride i ds r) = ar_Rank r"
  "ar_Builtin (override_row ard_ID applyOverride i ds r) = ar_Builtin r"
  "ar_Caps r = CapsForTools (ar_Tools r) \<Longrightarrow> ar_Caps (override_row ard_ID applyOverride i ds r) =
     CapsForTools (ar_Tools (override_row ard_ID applyOverride i ds r))"
  by (rule override_row_keeps, simp, simp add: applyOverride_caps)+

lemma RoleOf_caps: "RoleOf (Some g) i = Some r \<Longrightarrow> ar_Caps r = CapsForTools (ar_Tools r)"
  using RoleOf_cases [of g i r] ar.builtin_Some [of i] builtin_role_shape override_role_keeps(3)
  by (metis resolveCustomRole_simps(3))

section \<open>What a stored list must satisfy\<close>

definition role_lists_ok :: "agent_role_def \<Rightarrow> bool" where
  "role_lists_ok d \<longleftrightarrow>
     list_all (\<lambda>t. ToolCapabilities t \<noteq> []) (slice (ard_Tools d)) \<and>
     list_all knownRoleType (slice (ard_WriteTypes d)) \<and>
     list_all knownRoleType (slice (ard_AcceptanceTypes d))"

definition role_def_ok :: "agent_role_def \<Rightarrow> bool" where
  "role_def_ok d \<longleftrightarrow> role_lists_ok d \<and>
     (if IsBuiltinRole (ard_ID d)
      then ard_Label d = [] \<and> ard_BasedOn d = [] \<and> ard_Rank d = [] \<and> ard_Instructions d = []
      else customRoleIDPattern (ard_ID d) \<and> custom_label_ok (trim_space (ard_Label d)) \<and>
           IsBuiltinRole (ard_BasedOn d) \<and> ard_Rank d \<in> {AgentWorker, AgentOrchestrator} \<and>
           length (ard_Instructions d) \<le> MaxRoleInstructionsBytes)"

lemma checkLists_Nil [simp]: "checkLists d = [] \<longleftrightarrow> role_lists_ok d"
  by (simp add: checkLists_def role_lists_ok_def filter_empty_conv list_all_iff)

lemma role_problems_from_Nil:
  "role_problems_from seen customs ds = [] \<longleftrightarrow>
     distinct (map ard_ID ds) \<and> list_all role_def_ok ds \<and> (\<forall>d\<in>set ds. \<not> seen (ard_ID d)) \<and>
     customs + length (filter (\<lambda>d. \<not> IsBuiltinRole (ard_ID d)) ds) \<le> MaxCustomRoles"
proof (induction ds arbitrary: seen customs)
  case (Cons d ds)
  have custom: "custom_role_problems d = [] \<longleftrightarrow> role_def_ok d"
    if "\<not> IsBuiltinRole (ard_ID d)" "customRoleIDPattern (ard_ID d)"
    using that by (auto simp: custom_role_problems_def role_def_ok_def custom_label_ok_def Let_def)
  have step: "role_problems_from seen customs (d # ds) = [] \<longleftrightarrow> \<not> seen (ard_ID d) \<and> role_def_ok d \<and>
      role_problems_from (seen(ard_ID d := True)) (if IsBuiltinRole (ard_ID d) then customs else customs + 1) ds = []"
    using custom
    by (cases "IsBuiltinRole (ard_ID d)"; cases "customRoleIDPattern (ard_ID d)") (auto simp: role_def_ok_def)
  show ?case unfolding step Cons.IH by (auto simp: image_iff)
qed (auto simp: when_add_def)

section \<open>Properties\<close>

text \<open>
  For every role id, \<^verbatim>\<open>RoleOf\<close> returns exactly the row of \<^verbatim>\<open>ResolvedAgentRoles\<close> with that id (none when
  there is none): what the settings page lists is what dispatch resolves.
\<close>

theorem role_lookup_agrees:
  "RoleOf (Some g) i = first_match (\<lambda>r. ar_ID r = i) (ResolvedAgentRoles (Some g))"
proof (cases "builtinAgentRole i \<noteq> None \<or> customRoleIDPattern i")
  case True
  then show ?thesis unfolding roles_only_defs(1,2) [of g] by (rule ar.lookup_resolved)
next
  case False
  then have "RoleOf (Some g) i = None" by (simp add: RoleOf_def)
  moreover have "first_match (\<lambda>r. ar_ID r = i) (ResolvedAgentRoles (Some g)) = None"
    unfolding roles_only_defs(1) [of g] ar.resolved_eq first_match_append ar.first_resolved_builtin
    using False by auto
  ultimately show ?thesis by (rule trans [OF _ sym])
qed

text \<open>
  A resolved role holds a capability exactly when one of its tools needs it, whatever the project's
  overrides are: the capability list is never out of step with the tool list.
\<close>

theorem role_caps_exact:
  assumes "RoleOf (Some g) i = Some r"
  shows "HasCap r c \<longleftrightarrow> (\<exists>tool. HasTool r tool \<and> c \<in> set (ToolCapabilities tool))"
  using RoleOf_caps [OF assms] by (auto simp: HasCap_iff set_CapsForTools HasTool_def)

theorem role_caps_exact_witness:
  "HasCap (applyOverride (the (builtinAgentRole ''tester''))
     \<lparr>ard_ID = ''tester'', ard_Label = [], ard_BasedOn = [], ard_Rank = [], ard_Tools = Some [''claim_task''],
      ard_WriteTypes = None, ard_AcceptanceTypes = None, ard_Instructions = []\<rparr>) ''claim'' \<longleftrightarrow>
   (\<exists>tool. HasTool (applyOverride (the (builtinAgentRole ''tester''))
     \<lparr>ard_ID = ''tester'', ard_Label = [], ard_BasedOn = [], ard_Rank = [], ard_Tools = Some [''claim_task''],
      ard_WriteTypes = None, ard_AcceptanceTypes = None, ard_Instructions = []\<rparr>) tool \<and>
     ''claim'' \<in> set (ToolCapabilities tool))"
  by (rule role_caps_exact [where i = "''tester''" and g = "empty_graph\<lparr>graph_AgentRoles :=
     [\<lparr>ard_ID = ''tester'', ard_Label = [], ard_BasedOn = [], ard_Rank = [], ard_Tools = Some [''claim_task''],
      ard_WriteTypes = None, ard_AcceptanceTypes = None, ard_Instructions = []\<rparr>]\<rparr>"]) code_simp

text \<open>
  A project can never raise a role's rank: a built-in role keeps the rank of the table, a custom role
  ranks as orchestrator only when its definition says exactly that, and combining a request's declared
  class with the role's class (\<^verbatim>\<open>LowerClass\<close>) is never above either of them.
\<close>

theorem role_rank_never_raised:
  "(case builtinAgentRole i of
      Some b \<Rightarrow> RoleClass (Some g) i = ar_Rank b
    | None \<Rightarrow> RoleClass (Some g) i \<in> {[], AgentWorker} \<or>
        (RoleClass (Some g) i = AgentOrchestrator \<and>
         (\<exists>d\<in>set (graph_AgentRoles g). ard_ID d = i \<and> ard_Rank d = AgentOrchestrator))) \<and>
   classRank (LowerClass a b) = min (classRank a) (classRank b) \<and> LowerClass a b \<in> {a, b}"
proof (intro conjI)
  show "case builtinAgentRole i of
      Some b \<Rightarrow> RoleClass (Some g) i = ar_Rank b
    | None \<Rightarrow> RoleClass (Some g) i \<in> {[], AgentWorker} \<or>
        (RoleClass (Some g) i = AgentOrchestrator \<and>
         (\<exists>d\<in>set (graph_AgentRoles g). ard_ID d = i \<and> ard_Rank d = AgentOrchestrator))"
    using RoleOf_cases [of g i]
    by (cases "builtinAgentRole i"; cases "RoleOf (Some g) i")
       (auto simp: RoleClass_def override_role_keeps RoleOf_def split: if_splits)
qed (auto simp: LowerClass_def)

text \<open>
  \<^verbatim>\<open>ValidateAgentRoleDefs\<close> accepts exactly the lists with distinct ids, at most 32 custom roles, and every
  definition sound on its own: known tools and types, a built-in that changes nothing but its lists, a
  custom role with a well-formed id and label, a built-in base, a known rank and bounded instructions.
\<close>

theorem role_problems_exact:
  "ValidateAgentRoleDefs defs = Inr () \<longleftrightarrow>
     distinct (map ard_ID defs) \<and> list_all role_def_ok defs \<and>
     length (filter (\<lambda>d. \<not> IsBuiltinRole (ard_ID d)) defs) \<le> MaxCustomRoles"
  by (simp add: ValidateAgentRoleDefs_def AgentRoleDefProblems_def role_problems_from_Nil Let_def)

end
