(* ===== verification/Workflow.thy ===== *)
theory Workflow
  imports Node_Types
begin

text \<open>
  Workflow stages (\<^verbatim>\<open>internal/engine/workflow.go\<close>): presets, the effective workflow of a goal, goal
  membership by tag, normalisation of the levers and validation. Errors are values of
  \<open>workflow_error\<close>, in the order the code checks them.
\<close>

section \<open>Presets and defaults\<close>

abbreviation PresetLight :: string where "PresetLight \<equiv> ''light''"
abbreviation PresetStandard :: string where "PresetStandard \<equiv> ''standard''"
abbreviation PresetFull :: string where "PresetFull \<equiv> ''full''"
abbreviation PresetCustom :: string where "PresetCustom \<equiv> ''custom''"
abbreviation JudgeChecklist :: string where "JudgeChecklist \<equiv> ''checklist''"

definition Presets :: "string \<rightharpoonup> stages" where
  "Presets preset =
     (if preset = PresetLight then
        Some \<lparr>stage_Planner = True, stage_GoalQA = False, stage_Tester = False, stage_Reviewer = False,
              stage_CI = False, stage_GoalReview = False\<rparr>
      else if preset = PresetStandard then
        Some \<lparr>stage_Planner = True, stage_GoalQA = False, stage_Tester = True, stage_Reviewer = True,
              stage_CI = False, stage_GoalReview = False\<rparr>
      else if preset = PresetFull then
        Some \<lparr>stage_Planner = True, stage_GoalQA = True, stage_Tester = True, stage_Reviewer = True,
              stage_CI = True, stage_GoalReview = True\<rparr>
      else None)"

definition DefaultTestGlobs :: "string list" where
  "DefaultTestGlobs = [''**/*_test.go'', ''**/*.test.ts'', ''**/*.test.tsx'', ''**/*.spec.ts'', ''**/*.spec.tsx'',
     ''**/test/**'', ''**/tests/**'', ''**/__tests__/**'', ''e2e/**'', ''**/test_*.py'', ''**/*_test.py'']"

definition DefaultMaxQARounds :: int where "DefaultMaxQARounds = 2"
definition DefaultMaxTesterRounds :: int where "DefaultMaxTesterRounds = 2"
definition DefaultMaxGreenTries :: int where "DefaultMaxGreenTries = 3"

definition MaxReviewerSkipBelowLines :: int where "MaxReviewerSkipBelowLines = 10000"
definition MaxQARoundsLimit :: int where "MaxQARoundsLimit = 5"
definition MaxTesterRoundsLimit :: int where "MaxTesterRoundsLimit = 3"
definition MaxGreenTriesLimit :: int where "MaxGreenTriesLimit = 5"
definition MaxTestGlobs :: nat where "MaxTestGlobs = 32"

lemmas lever_consts = DefaultMaxQARounds_def DefaultMaxTesterRounds_def DefaultMaxGreenTries_def
  MaxReviewerSkipBelowLines_def MaxQARoundsLimit_def MaxTesterRoundsLimit_def MaxGreenTriesLimit_def MaxTestGlobs_def

section \<open>Building and choosing a workflow\<close>

definition WorkflowForPreset :: "string \<Rightarrow> workflow option" where
  "WorkflowForPreset preset =
     (case Presets preset of
        None \<Rightarrow> None
      | Some st \<Rightarrow>
          Some \<lparr>wf_Preset = preset, wf_Stages = st, wf_ReviewerSkipBelowLines = 0, wf_MaxQARounds = 0,
                wf_MaxTesterRounds = 0, wf_MaxGreenTries = 0, wf_TestGlobs = [], wf_Judge = []\<rparr>)"

text \<open>\<^verbatim>\<open>NewProjectWorkflow\<close>: assigning \<^verbatim>\<open>w.Judge\<close> through a nil pointer would panic, here \<open>None\<close>.\<close>

definition NewProjectWorkflow :: "string \<Rightarrow> workflow option" where
  "NewProjectWorkflow graphType =
     (let w = WorkflowForPreset PresetStandard
      in if graphType = ''story'' then map_option (\<lambda>w. w\<lparr>wf_Judge := JudgeChecklist\<rparr>) w else w)"

definition EffectiveWorkflow :: "graph option \<Rightarrow> string \<Rightarrow> workflow option" where
  "EffectiveWorkflow g goalID =
     (case g of
        None \<Rightarrow> None
      | Some g \<Rightarrow>
          (if goalID \<noteq> [] then
             (case NodeByID g goalID of
                None \<Rightarrow> graph_Workflow g
              | Some goal \<Rightarrow>
                  (case node_Workflow goal of Some w \<Rightarrow> Some w | None \<Rightarrow> graph_Workflow g))
           else graph_Workflow g))"

definition GoalTag :: "string \<Rightarrow> string" where
  "GoalTag i = ''goal:'' @ i"

definition node_exists :: "graph option \<Rightarrow> string \<Rightarrow> bool" where
  "node_exists g i \<longleftrightarrow> (case g of None \<Rightarrow> False | Some g \<Rightarrow> NodeByID g i \<noteq> None)"

fun goal_from :: "graph option \<Rightarrow> string \<Rightarrow> string list \<Rightarrow> string" where
  "goal_from g first [] = first"
| "goal_from g first (tag # tags) =
     (case cut_prefix tag ''goal:'' of
        None \<Rightarrow> goal_from g first tags
      | Some i \<Rightarrow>
          if i = [] then goal_from g first tags
          else if node_exists g i then i
          else goal_from g (if first = [] then i else first) tags)"

definition GoalOf :: "graph option \<Rightarrow> node option \<Rightarrow> string" where
  "GoalOf g n = (case n of None \<Rightarrow> [] | Some n \<Rightarrow> goal_from g [] (node_Tags n))"

definition RequiresAcceptance :: "workflow option \<Rightarrow> bool" where
  "RequiresAcceptance w =
     (case w of
        None \<Rightarrow> False
      | Some w \<Rightarrow> stage_Tester (wf_Stages w) \<or> stage_Reviewer (wf_Stages w) \<or> wf_Judge w = JudgeChecklist)"

definition Staged :: "workflow option \<Rightarrow> bool" where
  "Staged w =
     (case w of
        None \<Rightarrow> False
      | Some w \<Rightarrow> stage_Tester (wf_Stages w) \<or> stage_Reviewer (wf_Stages w) \<or> stage_CI (wf_Stages w) \<or>
                  wf_Judge w = JudgeChecklist)"

definition Normalized :: "workflow option \<Rightarrow> workflow option" where
  "Normalized w =
     (case w of
        None \<Rightarrow> None
      | Some w \<Rightarrow>
          Some (w\<lparr>wf_MaxQARounds := (if wf_MaxQARounds w = 0 then DefaultMaxQARounds else wf_MaxQARounds w),
                  wf_MaxTesterRounds := (if wf_MaxTesterRounds w = 0 then DefaultMaxTesterRounds else wf_MaxTesterRounds w),
                  wf_MaxGreenTries := (if wf_MaxGreenTries w = 0 then DefaultMaxGreenTries else wf_MaxGreenTries w),
                  wf_TestGlobs := (if length (wf_TestGlobs w) = 0 then DefaultTestGlobs else wf_TestGlobs w)\<rparr>))"

section \<open>Validation\<close>

datatype workflow_error =
    UnknownPreset string
  | StagesMismatch string
  | ReviewerSkipRange
  | QARoundsRange
  | TesterRoundsRange
  | GreenTriesRange
  | TooManyGlobs
  | InvalidGlob string
  | UnknownJudge string
  | OverrideNotAutopilot string
  | NodeWorkflow string workflow_error

definition bad_glob :: "string \<Rightarrow> bool" where
  "bad_glob glob \<longleftrightarrow> trim_space glob = [] \<or> length glob > 200 \<or> has_prefix glob ''/'' \<or>
     contains glob [CHR 0x5C] \<or> contains glob ''..'' \<or> contains glob '':''"

definition preset_error :: "workflow \<Rightarrow> workflow_error option" where
  "preset_error w =
     (if wf_Preset w \<noteq> PresetCustom then
        (case Presets (wf_Preset w) of
           None \<Rightarrow> Some (UnknownPreset (wf_Preset w))
         | Some st \<Rightarrow> if st \<noteq> wf_Stages w then Some (StagesMismatch (wf_Preset w)) else None)
      else None)"

definition ValidateWorkflow :: "workflow option \<Rightarrow> workflow_error + unit" where
  "ValidateWorkflow w =
     (case w of
        None \<Rightarrow> Inr ()
      | Some w \<Rightarrow>
          (case preset_error w of
             Some err \<Rightarrow> Inl err
           | None \<Rightarrow>
               if wf_ReviewerSkipBelowLines w < 0 \<or> wf_ReviewerSkipBelowLines w > MaxReviewerSkipBelowLines
               then Inl ReviewerSkipRange
               else if wf_MaxQARounds w < 0 \<or> wf_MaxQARounds w > MaxQARoundsLimit then Inl QARoundsRange
               else if wf_MaxTesterRounds w < 0 \<or> wf_MaxTesterRounds w > MaxTesterRoundsLimit
               then Inl TesterRoundsRange
               else if wf_MaxGreenTries w < 0 \<or> wf_MaxGreenTries w > MaxGreenTriesLimit then Inl GreenTriesRange
               else if length (wf_TestGlobs w) > MaxTestGlobs then Inl TooManyGlobs
               else (case first_match bad_glob (wf_TestGlobs w) of
                       Some glob \<Rightarrow> Inl (InvalidGlob glob)
                     | None \<Rightarrow>
                         if wf_Judge w = [] \<or> wf_Judge w = JudgeChecklist then Inr ()
                         else Inl (UnknownJudge (wf_Judge w)))))"

fun validate_overrides :: "graph \<Rightarrow> node list \<Rightarrow> workflow_error + unit" where
  "validate_overrides g [] = Inr ()"
| "validate_overrides g (n # ns) =
     (if node_Workflow n = None then validate_overrides g ns
      else if nt_AgentMode (TypeOf (Some g) (Some n)) \<noteq> AgentAutopilot then Inl (OverrideNotAutopilot (node_ID n))
      else (case ValidateWorkflow (node_Workflow n) of
              Inl err \<Rightarrow> Inl (NodeWorkflow (node_ID n) err)
            | Inr _ \<Rightarrow> validate_overrides g ns))"

definition ValidateGraphWorkflows :: "graph option \<Rightarrow> workflow_error + unit" where
  "ValidateGraphWorkflows g =
     (case g of
        None \<Rightarrow> Inr ()
      | Some g \<Rightarrow>
          (case ValidateWorkflow (graph_Workflow g) of
             Inl err \<Rightarrow> Inl err
           | Inr _ \<Rightarrow> validate_overrides g (nodes_of g)))"

section \<open>Facts\<close>

lemma ValidateWorkflow_Some:
  "ValidateWorkflow (Some w) = Inr () \<longleftrightarrow>
     preset_error w = None \<and>
     0 \<le> wf_ReviewerSkipBelowLines w \<and> wf_ReviewerSkipBelowLines w \<le> MaxReviewerSkipBelowLines \<and>
     0 \<le> wf_MaxQARounds w \<and> wf_MaxQARounds w \<le> MaxQARoundsLimit \<and>
     0 \<le> wf_MaxTesterRounds w \<and> wf_MaxTesterRounds w \<le> MaxTesterRoundsLimit \<and>
     0 \<le> wf_MaxGreenTries w \<and> wf_MaxGreenTries w \<le> MaxGreenTriesLimit \<and>
     length (wf_TestGlobs w) \<le> MaxTestGlobs \<and> list_all (\<lambda>glob. \<not> bad_glob glob) (wf_TestGlobs w) \<and>
     (wf_Judge w = [] \<or> wf_Judge w = JudgeChecklist)"
  unfolding ValidateWorkflow_def
  by (auto split: option.splits if_splits dest: first_match_SomeD simp: list_all_iff)

lemma default_globs_ok: "length DefaultTestGlobs \<le> MaxTestGlobs \<and> DefaultTestGlobs \<noteq> [] \<and>
    list_all (\<lambda>glob. \<not> bad_glob glob) DefaultTestGlobs"
  by code_simp

lemma preset_error_levers [simp]:
  "preset_error (w\<lparr>wf_MaxQARounds := a\<rparr>) = preset_error w" "preset_error (w\<lparr>wf_MaxTesterRounds := a\<rparr>) = preset_error w"
  "preset_error (w\<lparr>wf_MaxGreenTries := a\<rparr>) = preset_error w" "preset_error (w\<lparr>wf_TestGlobs := gs\<rparr>) = preset_error w"
  by (simp_all add: preset_error_def split: option.split)

lemma validate_overrides_ok:
  "validate_overrides g ns = Inr () \<Longrightarrow> n \<in> set ns \<Longrightarrow> node_Workflow n = Some w \<Longrightarrow>
     ValidateWorkflow (Some w) = Inr () \<and> nt_AgentMode (TypeOf (Some g) (Some n)) = AgentAutopilot"
  by (induction ns) (auto split: if_splits sum.splits)

text \<open>The goal ids a tag list names, in order.\<close>

fun goal_ids :: "string list \<Rightarrow> string list" where
  "goal_ids [] = []"
| "goal_ids (t # ts) =
     (case cut_prefix t ''goal:'' of None \<Rightarrow> goal_ids ts | Some i \<Rightarrow> if i = [] then goal_ids ts else i # goal_ids ts)"

lemma set_goal_ids: "i \<in> set (goal_ids tags) \<longleftrightarrow> i \<noteq> [] \<and> GoalTag i \<in> set tags"
proof (induction tags)
  case (Cons t ts)
  show ?case
  proof (cases "cut_prefix t ''goal:''")
    case None
    then have "t \<noteq> GoalTag i" unfolding GoalTag_def by (metis cut_prefix_Some option.distinct(1))
    with None Cons show ?thesis by auto
  next
    case (Some k)
    then have "t = GoalTag k" unfolding GoalTag_def by (simp only: cut_prefix_Some)
    with Some Cons show ?thesis by (auto simp: GoalTag_def)
  qed
qed simp

lemma goal_from_cases:
  "goal_from g first tags =
     (case first_match (node_exists g) (goal_ids tags) of
        Some i \<Rightarrow> i
      | None \<Rightarrow> if first \<noteq> [] then first else (case goal_ids tags of [] \<Rightarrow> [] | i # _ \<Rightarrow> i))"
proof (induction tags arbitrary: first)
  case (Cons t ts)
  show ?case
  proof (cases "cut_prefix t ''goal:''")
    case None
    then have "goal_ids (t # ts) = goal_ids ts" "goal_from g first (t # ts) = goal_from g first ts" by simp_all
    then show ?thesis by (simp only: Cons)
  next
    case (Some i)
    with Cons show ?thesis
      by (cases "i = []"; cases "node_exists g i"; cases "first_match (node_exists g) (goal_ids ts)")
         (simp_all del: first_match_None)
  qed
qed simp

section \<open>Properties\<close>

text \<open>
  A workflow that passes \<^verbatim>\<open>ValidateWorkflow\<close> normalises to one whose round and try limits are all at
  least 1 and within their bounds, which still passes validation, has test globs, and is a fixed point of
  \<^verbatim>\<open>Normalized\<close>: the staged pipeline never runs with a zero budget.
\<close>

theorem normalized_workflow_bounds:
  assumes "ValidateWorkflow (Some w) = Inr ()"
  shows "\<exists>v. Normalized (Some w) = Some v \<and>
    1 \<le> wf_MaxQARounds v \<and> wf_MaxQARounds v \<le> MaxQARoundsLimit \<and>
    1 \<le> wf_MaxTesterRounds v \<and> wf_MaxTesterRounds v \<le> MaxTesterRoundsLimit \<and>
    1 \<le> wf_MaxGreenTries v \<and> wf_MaxGreenTries v \<le> MaxGreenTriesLimit \<and>
    wf_TestGlobs v \<noteq> [] \<and> wf_Stages v = wf_Stages w \<and>
    ValidateWorkflow (Some v) = Inr () \<and> Normalized (Some v) = Some v"
  using assms default_globs_ok unfolding ValidateWorkflow_Some
  by (auto simp: Normalized_def lever_consts)

theorem normalized_workflow_bounds_witness:
  "\<exists>v. Normalized (Some (the (WorkflowForPreset PresetFull))) = Some v \<and>
    1 \<le> wf_MaxQARounds v \<and> wf_MaxQARounds v \<le> MaxQARoundsLimit \<and>
    1 \<le> wf_MaxTesterRounds v \<and> wf_MaxTesterRounds v \<le> MaxTesterRoundsLimit \<and>
    1 \<le> wf_MaxGreenTries v \<and> wf_MaxGreenTries v \<le> MaxGreenTriesLimit \<and>
    wf_TestGlobs v \<noteq> [] \<and> wf_Stages v = wf_Stages (the (WorkflowForPreset PresetFull)) \<and>
    ValidateWorkflow (Some v) = Inr () \<and> Normalized (Some v) = Some v"
  by (rule normalized_workflow_bounds) code_simp

text \<open>
  In a graph whose workflows validate, the workflow in effect for any goal id (override, project
  workflow or none) is valid, and an override comes only from an Autopilot node.
\<close>

theorem effective_workflow_valid:
  assumes "ValidateGraphWorkflows (Some g) = Inr ()"
  shows "ValidateWorkflow (EffectiveWorkflow (Some g) goalID) = Inr () \<and>
    (EffectiveWorkflow (Some g) goalID = graph_Workflow g \<or>
     (\<exists>n. Some n \<in> set (graph_Nodes g) \<and> node_ID n = goalID \<and> EffectiveWorkflow (Some g) goalID = node_Workflow n \<and>
          nt_AgentMode (TypeOf (Some g) (Some n)) = AgentAutopilot))"
proof -
  have proj: "ValidateWorkflow (graph_Workflow g) = Inr ()" and ov: "validate_overrides g (nodes_of g) = Inr ()"
    using assms by (auto simp: ValidateGraphWorkflows_def split: sum.splits)
  show ?thesis
  proof (cases "NodeByID g goalID")
    case (Some n)
    then have n: "Some n \<in> set (graph_Nodes g)" "node_ID n = goalID" using NodeByID_Some by blast+
    show ?thesis
    proof (cases "node_Workflow n")
      case (Some w)
      then show ?thesis
        using validate_overrides_ok [OF ov, of n w] n proj \<open>NodeByID g goalID = Some n\<close>
        by (auto simp: EffectiveWorkflow_def set_nodes_of)
    qed (use Some proj in \<open>simp add: EffectiveWorkflow_def\<close>)
  qed (use proj in \<open>simp add: EffectiveWorkflow_def\<close>)
qed

theorem effective_workflow_valid_witness:
  "ValidateWorkflow (EffectiveWorkflow (Some (empty_graph\<lparr>graph_Workflow := NewProjectWorkflow ''story''\<rparr>)) ''g1'') = Inr () \<and>
    (EffectiveWorkflow (Some (empty_graph\<lparr>graph_Workflow := NewProjectWorkflow ''story''\<rparr>)) ''g1'' =
       graph_Workflow (empty_graph\<lparr>graph_Workflow := NewProjectWorkflow ''story''\<rparr>) \<or>
     (\<exists>n. Some n \<in> set (graph_Nodes (empty_graph\<lparr>graph_Workflow := NewProjectWorkflow ''story''\<rparr>)) \<and> node_ID n = ''g1'' \<and>
       EffectiveWorkflow (Some (empty_graph\<lparr>graph_Workflow := NewProjectWorkflow ''story''\<rparr>)) ''g1'' = node_Workflow n \<and>
          nt_AgentMode (TypeOf (Some (empty_graph\<lparr>graph_Workflow := NewProjectWorkflow ''story''\<rparr>)) (Some n)) = AgentAutopilot))"
  by (rule effective_workflow_valid) code_simp

text \<open>
  \<^verbatim>\<open>GoalOf\<close> is empty exactly when the node has no usable goal tag; otherwise it is one of the node's own
  goal tags, and it names an existing node whenever any of the goal tags does.
\<close>

theorem goal_of_prefers_existing:
  "(GoalOf (Some g) (Some n) = [] \<longleftrightarrow> \<not> (\<exists>i. i \<noteq> [] \<and> GoalTag i \<in> set (node_Tags n))) \<and>
   (GoalOf (Some g) (Some n) = [] \<or> GoalTag (GoalOf (Some g) (Some n)) \<in> set (node_Tags n)) \<and>
   (GoalOf (Some g) (Some n) \<noteq> [] \<and> NodeByID g (GoalOf (Some g) (Some n)) \<noteq> None) =
    (\<exists>i. i \<noteq> [] \<and> GoalTag i \<in> set (node_Tags n) \<and> NodeByID g i \<noteq> None)"
proof -
  let ?is = "goal_ids (node_Tags n)" and ?G = "GoalOf (Some g) (Some n)"
  have G: "?G = (case first_match (node_exists (Some g)) ?is of Some i \<Rightarrow> i | None \<Rightarrow> (case ?is of [] \<Rightarrow> [] | i # _ \<Rightarrow> i))"
    by (simp add: GoalOf_def goal_from_cases)
  have ne: "[] \<notin> set ?is" by (simp add: set_goal_ids)
  have "(?G = [] \<longleftrightarrow> ?is = []) \<and> (?G = [] \<or> ?G \<in> set ?is) \<and>
      (?G \<noteq> [] \<and> node_exists (Some g) ?G) = (\<exists>i\<in>set ?is. node_exists (Some g) i)"
  proof (cases "first_match (node_exists (Some g)) ?is")
    case None
    then have "\<forall>i\<in>set ?is. \<not> node_exists (Some g) i" by simp
    moreover have "?G = (case ?is of [] \<Rightarrow> [] | i # _ \<Rightarrow> i)" unfolding G None by simp
    ultimately show ?thesis using ne by (cases ?is) auto
  next
    case (Some i)
    with ne show ?thesis unfolding G using first_match_SomeD [OF Some] by auto
  qed
  moreover have "?is = [] \<longleftrightarrow> \<not> (\<exists>i. i \<noteq> [] \<and> GoalTag i \<in> set (node_Tags n))"
    using set_goal_ids [of _ "node_Tags n"] by (metis last_in_set list.set_cases neq_Nil_conv)
  ultimately show ?thesis unfolding node_exists_def option.case Bex_def set_goal_ids by blast
qed

end
