(* ===== verification/Acceptance.thy ===== *)
theory Acceptance
  imports Node_Types
begin

text \<open>
  Acceptance criteria (\<^verbatim>\<open>internal/engine/acceptance.go\<close>) and office styles
  (\<^verbatim>\<open>internal/engine/officestyle.go\<close>): which nodes may carry criteria, the check of a criteria list,
  the assignment of ids to new criteria, and the style Station draws.
\<close>

section \<open>Criteria\<close>

definition MaxAcceptanceItems :: nat where "MaxAcceptanceItems = 30"
definition MaxAcceptanceItemRunes :: nat where "MaxAcceptanceItemRunes = 400"

definition acceptanceIDPattern :: "string \<Rightarrow> bool" where
  "acceptanceIDPattern i =
     (case i of
        [] \<Rightarrow> False
      | c # ds \<Rightarrow> c = CHR ''a'' \<and> 1 \<le> length ds \<and> length ds \<le> 3 \<and> list_all is_digit ds)"

definition AcceptanceAllowed :: "graph option \<Rightarrow> node option \<Rightarrow> bool" where
  "AcceptanceAllowed g n =
     (nt_AgentMode (TypeOf g n) = AgentDispatch \<or> nt_AgentMode (TypeOf g n) = AgentAutopilot)"

definition Empty :: "acceptance option \<Rightarrow> bool" where
  "Empty a = (case a of None \<Rightarrow> True | Some a \<Rightarrow> length (acc_Items a) = 0)"

datatype acceptance_error =
    TypeCannotCarry string string
  | TooManyCriteria
  | InvalidCriterionID string
  | DuplicateCriterionID string
  | CriterionEmpty string
  | CriterionNotOneLine string
  | CriterionTooLong string

fun validate_items :: "string boolmap \<Rightarrow> acceptance_item list \<Rightarrow> acceptance_error + unit" where
  "validate_items seen [] = Inr ()"
| "validate_items seen (item # items) =
     (if \<not> acceptanceIDPattern (item_ID item) then Inl (InvalidCriterionID (item_ID item))
      else if seen (item_ID item) then Inl (DuplicateCriterionID (item_ID item))
      else if trim_space (item_Text item) = [] then Inl (CriterionEmpty (item_ID item))
      else if contains_any (item_Text item) [CHR 0x0D, CHR 0x0A] then Inl (CriterionNotOneLine (item_ID item))
      else if rune_count (item_Text item) > MaxAcceptanceItemRunes then Inl (CriterionTooLong (item_ID item))
      else validate_items (seen(item_ID item := True)) items)"

definition ValidateAcceptanceItems :: "acceptance_item list \<Rightarrow> acceptance_error + unit" where
  "ValidateAcceptanceItems items =
     (if length items > MaxAcceptanceItems then Inl TooManyCriteria else validate_items no_keys items)"

definition ValidateNodeAcceptance :: "graph option \<Rightarrow> node option \<Rightarrow> acceptance_error + unit" where
  "ValidateNodeAcceptance g n =
     (case n of
        None \<Rightarrow> Inr ()
      | Some n \<Rightarrow>
          (case node_Acceptance n of
             None \<Rightarrow> Inr ()
           | Some a \<Rightarrow>
               if \<not> AcceptanceAllowed g (Some n) then Inl (TypeCannotCarry (node_ID n) (nt_ID (TypeOf g (Some n))))
               else ValidateAcceptanceItems (acc_Items a)))"

text \<open>
  \<^verbatim>\<open>AssignAcceptanceIDs\<close>: a first loop over the well-formed ids finds the largest number in use, a second
  one hands out the numbers after it. \<^verbatim>\<open>strconv.Atoi\<close> cannot fail on at most three digits.
\<close>

fun max_item_id :: "nat \<Rightarrow> acceptance_item list \<Rightarrow> nat" where
  "max_item_id m [] = m"
| "max_item_id m (item # items) =
     max_item_id
       (if acceptanceIDPattern (item_ID item) \<and> digits_val (tl (item_ID item)) > m
        then digits_val (tl (item_ID item)) else m)
       items"

fun assign_ids :: "nat \<Rightarrow> acceptance_item list \<Rightarrow> acceptance_item list" where
  "assign_ids m [] = []"
| "assign_ids m (item # items) =
     (if item_ID item = [] then item\<lparr>item_ID := ''a'' @ itoa (m + 1)\<rparr> # assign_ids (m + 1) items
      else item # assign_ids m items)"

definition AssignAcceptanceIDs :: "acceptance_item list option \<Rightarrow> acceptance_item list option" where
  "AssignAcceptanceIDs items =
     (case items of None \<Rightarrow> None | Some items \<Rightarrow> Some (assign_ids (max_item_id 0 items) items))"

fun equal_items :: "acceptance_item list \<Rightarrow> acceptance_item list \<Rightarrow> bool" where
  "equal_items (x # xs) (y # ys) = (if x \<noteq> y then False else equal_items xs ys)"
| "equal_items _ _ = True"

definition items_or_nil :: "acceptance option \<Rightarrow> acceptance_item list" where
  "items_or_nil a = (case a of None \<Rightarrow> [] | Some a \<Rightarrow> acc_Items a)"

definition EqualItems :: "acceptance option \<Rightarrow> acceptance option \<Rightarrow> bool" where
  "EqualItems a b =
     (let ai = items_or_nil a; bi = items_or_nil b
      in if length ai \<noteq> length bi then False else equal_items ai bi)"

section \<open>Office styles\<close>

definition OfficeStyles :: "string list" where
  "OfficeStyles = [''default'', ''engineering'', ''study'', ''studio'', ''cafe'']"

definition ValidOfficeStyle :: "string \<Rightarrow> bool" where
  "ValidOfficeStyle s = (if s = [] then True else first_match (\<lambda>style. s = style) OfficeStyles \<noteq> None)"

definition DefaultOfficeStyle :: "string \<Rightarrow> string" where
  "DefaultOfficeStyle layout = (if layout = ''story'' then ''study'' else ''engineering'')"

definition ResolvedOfficeStyle :: "graph option \<Rightarrow> string" where
  "ResolvedOfficeStyle g =
     (case g of
        None \<Rightarrow> DefaultOfficeStyle []
      | Some g \<Rightarrow>
          if graph_OfficeStyle g \<noteq> [] \<and> ValidOfficeStyle (graph_OfficeStyle g) then graph_OfficeStyle g
          else DefaultOfficeStyle (graph_Type g))"

section \<open>Facts\<close>

definition item_ok :: "acceptance_item \<Rightarrow> bool" where
  "item_ok item \<longleftrightarrow> acceptanceIDPattern (item_ID item) \<and> trim_space (item_Text item) \<noteq> [] \<and>
     CHR 0x0D \<notin> set (item_Text item) \<and> CHR 0x0A \<notin> set (item_Text item) \<and>
     rune_count (item_Text item) \<le> MaxAcceptanceItemRunes"

lemma validate_items_ok:
  "validate_items seen items = Inr () \<longleftrightarrow>
     list_all item_ok items \<and> distinct (map item_ID items) \<and> list_all (\<lambda>item. \<not> seen (item_ID item)) items"
proof (induction items arbitrary: seen)
  case (Cons item items)
  have step: "validate_items seen (item # items) = Inr () \<longleftrightarrow>
      item_ok item \<and> \<not> seen (item_ID item) \<and> validate_items (seen(item_ID item := True)) items = Inr ()"
    by (simp add: item_ok_def contains_any_def linorder_not_less) blast
  show ?case unfolding step Cons.IH by (auto simp: list_all_iff image_iff)
qed simp

lemma equal_items_iff: "length xs = length ys \<Longrightarrow> equal_items xs ys \<longleftrightarrow> xs = ys"
  by (induction xs ys rule: equal_items.induct) auto

lemma EqualItems_iff: "EqualItems a b \<longleftrightarrow> items_or_nil a = items_or_nil b"
  using equal_items_iff by (auto simp: EqualItems_def Let_def)

text \<open>The number an id carries; \<open>max_item_id\<close> bounds it, so the new numbers are fresh.\<close>

definition item_num :: "acceptance_item \<Rightarrow> nat" where
  "item_num item = digits_val (tl (item_ID item))"

lemma max_item_id_ge: "m \<le> max_item_id m items"
proof (induction items arbitrary: m)
  case (Cons item items)
  let ?m = "if acceptanceIDPattern (item_ID item) \<and> digits_val (tl (item_ID item)) > m
    then digits_val (tl (item_ID item)) else m"
  have "m \<le> ?m" by simp
  also have "?m \<le> max_item_id ?m items" by (rule Cons)
  finally show ?case by simp
qed simp

lemma max_item_id_bound:
  "item \<in> set items \<Longrightarrow> acceptanceIDPattern (item_ID item) \<Longrightarrow> item_num item \<le> max_item_id m items"
proof (induction items arbitrary: m)
  case (Cons x items)
  let ?m = "if acceptanceIDPattern (item_ID x) \<and> digits_val (tl (item_ID x)) > m then digits_val (tl (item_ID x)) else m"
  have "max_item_id m (x # items) = max_item_id ?m items" by simp
  moreover have "?m \<le> max_item_id ?m items" by (rule max_item_id_ge)
  ultimately show ?case using Cons by (auto simp: item_num_def)
qed simp

lemma assign_ids_props:
  "length (assign_ids m items) = length items"
  "map item_Text (assign_ids m items) = map item_Text items"
  by (induction items arbitrary: m) auto

lemma assign_ids_keeps: "i < length items \<Longrightarrow> item_ID (items ! i) \<noteq> [] \<Longrightarrow> assign_ids m items ! i = items ! i"
proof (induction items arbitrary: m i)
  case (Cons x items)
  then show ?case by (cases i) auto
qed simp

lemma assign_ids_new:
  "x \<in> set (assign_ids m items) \<Longrightarrow>
     (x \<in> set items \<and> item_ID x \<noteq> []) \<or>
     (\<exists>k. m < k \<and> k \<le> m + length (filter (\<lambda>y. item_ID y = []) items) \<and> item_ID x = ''a'' @ itoa k)"
proof (induction items arbitrary: m)
  case (Cons y items)
  show ?case
  proof (cases "item_ID y = []")
    case True
    then consider "x = y\<lparr>item_ID := ''a'' @ itoa (m + 1)\<rparr>" | "x \<in> set (assign_ids (m + 1) items)"
      using Cons.prems by auto
    then show ?thesis
    proof cases
      case 1
      then show ?thesis using True by (intro disjI2 exI [of _ "m + 1"]) simp
    next
      case 2
      then show ?thesis using Cons.IH [OF 2] True by (auto intro: Suc_lessD)
    qed
  next
    case False
    then show ?thesis using Cons by auto
  qed
qed simp

lemma assign_ids_distinct:
  assumes "distinct (filter (\<lambda>i. i \<noteq> []) (map item_ID items))"
    "\<And>x k. x \<in> set items \<Longrightarrow> m < k \<Longrightarrow> item_ID x \<noteq> ''a'' @ itoa k"
  shows "distinct (map item_ID (assign_ids m items))"
  using assms
proof (induction items arbitrary: m)
  case (Cons x items)
  show ?case
  proof (cases "item_ID x = []")
    case True
    have "''a'' @ itoa (m + 1) \<noteq> item_ID y" if "y \<in> set (assign_ids (m + 1) items)" for y
      using assign_ids_new [OF that] Cons.prems(2) [of y "m + 1"] by (auto simp: itoa_inj)
    then show ?thesis using True Cons by (auto simp: image_iff)
  next
    case False
    have "item_ID x \<noteq> item_ID y" if "y \<in> set (assign_ids m items)" for y
      using assign_ids_new [OF that] Cons.prems False by (auto simp: image_iff)
    then show ?thesis using False Cons by (auto simp: image_iff)
  qed
qed simp

lemma pattern_new_id: "0 < k \<Longrightarrow> k \<le> 999 \<Longrightarrow> acceptanceIDPattern (''a'' @ itoa k)"
  using itoa_digits [of k] length_itoa [of k 3]
  by (simp add: acceptanceIDPattern_def list_all_iff Suc_le_eq)

lemma pattern_not_Nil: "acceptanceIDPattern i \<Longrightarrow> i \<noteq> []"
  by (auto simp: acceptanceIDPattern_def)

section \<open>Properties\<close>

text \<open>
  \<^verbatim>\<open>ValidateAcceptanceItems\<close> accepts exactly the lists of at most 30 criteria with distinct well-formed ids
  and, for each, a non-blank single line of at most 400 characters.
\<close>

theorem acceptance_items_exact:
  "ValidateAcceptanceItems items = Inr () \<longleftrightarrow>
     length items \<le> MaxAcceptanceItems \<and> list_all item_ok items \<and> distinct (map item_ID items)"
  by (auto simp: ValidateAcceptanceItems_def validate_items_ok list_all_iff)

text \<open>
  Assigning ids keeps every criterion that already has one, its position and all texts, and gives the
  others fresh, pairwise distinct, well-formed ids, provided the ids in use are well-formed and distinct
  and the numbers up to 999 suffice.
\<close>

theorem assigned_ids_fresh:
  assumes "list_all (\<lambda>x. item_ID x = [] \<or> acceptanceIDPattern (item_ID x)) items"
    and "distinct (filter (\<lambda>i. i \<noteq> []) (map item_ID items))"
    and "max_item_id 0 items + length (filter (\<lambda>x. item_ID x = []) items) \<le> 999"
  shows "\<exists>out. AssignAcceptanceIDs (Some items) = Some out \<and> map item_Text out = map item_Text items \<and>
    list_all2 (\<lambda>x y. item_ID x = [] \<or> y = x) items out \<and>
    distinct (map item_ID out) \<and> list_all (\<lambda>x. acceptanceIDPattern (item_ID x)) out"
proof -
  let ?m = "max_item_id 0 items" and ?out = "assign_ids (max_item_id 0 items) items"
  have fresh: "item_ID x \<noteq> ''a'' @ itoa k" if x: "x \<in> set items" and "?m < k" for x k
  proof
    assume eq: "item_ID x = ''a'' @ itoa k"
    then have "acceptanceIDPattern (item_ID x)" using assms(1) x by (auto simp: list_all_iff)
    then have "item_num x \<le> ?m" using x by (rule max_item_id_bound [rotated])
    then show False using eq that by (simp add: item_num_def)
  qed
  have "list_all2 (\<lambda>x y. item_ID x = [] \<or> y = x) items ?out"
    unfolding list_all2_conv_all_nth using assign_ids_keeps [of _ items] by (auto simp: assign_ids_props)
  moreover have "distinct (map item_ID ?out)" by (rule assign_ids_distinct) (use assms fresh in auto)
  moreover have "acceptanceIDPattern (item_ID x)" if "x \<in> set ?out" for x
    using assign_ids_new [OF that] assms(1,3) pattern_new_id by (fastforce simp: list_all_iff)
  ultimately show ?thesis by (auto simp: AssignAcceptanceIDs_def assign_ids_props list_all_iff)
qed

theorem assigned_ids_fresh_witness:
  "\<exists>out. AssignAcceptanceIDs (Some [\<lparr>item_ID = ''a07'', item_Text = ''x''\<rparr>, \<lparr>item_ID = [], item_Text = ''y''\<rparr>]) = Some out \<and>
    map item_Text out = map item_Text [\<lparr>item_ID = ''a07'', item_Text = ''x''\<rparr>, \<lparr>item_ID = [], item_Text = ''y''\<rparr>] \<and>
    list_all2 (\<lambda>x y. item_ID x = [] \<or> y = x)
      [\<lparr>item_ID = ''a07'', item_Text = ''x''\<rparr>, \<lparr>item_ID = [], item_Text = ''y''\<rparr>] out \<and>
    distinct (map item_ID out) \<and> list_all (\<lambda>x. acceptanceIDPattern (item_ID x)) out"
  by (rule assigned_ids_fresh) code_simp+

text \<open>
  Once a list holds the last well-formed id, the next criterion gets an id that the validator of the same
  file rejects: a valid list with \<open>a999\<close> plus one new criterion becomes invalid by assignment.
\<close>

theorem assigned_id_overflow:
  "ValidateAcceptanceItems [\<lparr>item_ID = ''a999'', item_Text = ''x''\<rparr>] = Inr () \<and>
   map_option ValidateAcceptanceItems
     (AssignAcceptanceIDs (Some [\<lparr>item_ID = ''a999'', item_Text = ''x''\<rparr>, \<lparr>item_ID = [], item_Text = ''y''\<rparr>])) =
   Some (Inl (InvalidCriterionID ''a1000''))"
  by code_simp

text \<open>
  The style Station draws is always one of the listed styles, and it is the stored one whenever that is
  set and listed.
\<close>

theorem office_style_resolved:
  "ResolvedOfficeStyle g \<in> set OfficeStyles \<and>
   (case g of
      None \<Rightarrow> True
    | Some h \<Rightarrow> (ResolvedOfficeStyle g = graph_OfficeStyle h) = (graph_OfficeStyle h \<in> set OfficeStyles))"
  by (auto simp: ResolvedOfficeStyle_def DefaultOfficeStyle_def ValidOfficeStyle_def OfficeStyles_def split: option.split)

end
