(* ===== verification/Effects.thy ===== *)
theory Effects
  imports Graph_Model
begin

text \<open>
  Effect statements (\<^verbatim>\<open>internal/engine/effects.go\<close>) over the flag map. A nil flag map is \<open>None\<close>;
  errors of \<^verbatim>\<open>ValidateEffect\<close> are values of \<open>effect_error\<close>.
\<close>

section \<open>The statements\<close>

datatype effect_error = EffectEmpty | InvalidFlagName string | EffectValueEmpty | NotNumeric string

definition effect_ops :: "string list" where
  "effect_ops = [''+='', ''-='', ''='']"

text \<open>
  The loop over the operators: the first one that occurs at a positive index, with the trimmed text
  on both sides.
\<close>

fun split_effect :: "string list \<Rightarrow> string \<Rightarrow> (string \<times> string \<times> string) option" where
  "split_effect [] stmt = None"
| "split_effect (op # ops) stmt =
     (case index_of stmt op of
        Some i \<Rightarrow>
          if i > 0 then Some (op, trim_space (take i stmt), trim_space (drop (i + length op) stmt))
          else split_effect ops stmt
      | None \<Rightarrow> split_effect ops stmt)"

definition ValidateEffect :: "string \<Rightarrow> effect_error + unit" where
  "ValidateEffect stmt =
     (let stmt = trim_space stmt in
      if stmt = [] then Inl EffectEmpty
      else (case split_effect effect_ops stmt of
              Some (op, name, val) \<Rightarrow>
                if \<not> ValidNodeID name then Inl (InvalidFlagName name)
                else if val = [] then Inl EffectValueEmpty
                else if op \<noteq> ''='' \<and> parse_float val = None then Inl (NotNumeric op)
                else Inr ()
            | None \<Rightarrow> if \<not> ValidNodeID stmt then Inl (InvalidFlagName stmt) else Inr ()))"

definition parseLiteral :: "string \<Rightarrow> goany" where
  "parseLiteral s =
     (if to_lower s = ''true'' then GBool True
      else if to_lower s = ''false'' then GBool False
      else (case parse_float s of
              Some n \<Rightarrow> GFloat64 n
            | None \<Rightarrow> GString (trim_set s [CHR 0x22, CHR 0x27])))"

definition asNumberAny :: "goany \<Rightarrow> float64 \<times> bool" where
  "asNumberAny v =
     (case v of
        GFloat64 x \<Rightarrow> (x, True)
      | GInt n \<Rightarrow> (f64_of_int n, True)
      | GBool b \<Rightarrow> (if b then Fin 1 else Fin 0, True)
      | _ \<Rightarrow> (Fin 0, False))"

text \<open>Reading an absent key of a Go map of \<^verbatim>\<open>any\<close> gives nil.\<close>

definition flag_or_nil :: "flags \<Rightarrow> string \<Rightarrow> goany" where
  "flag_or_nil fl name = (case fl name of None \<Rightarrow> GNil | Some v \<Rightarrow> v)"

definition applyEffect :: "string \<Rightarrow> flags \<Rightarrow> flags" where
  "applyEffect stmt fl =
     (let stmt = trim_space stmt in
      if ValidateEffect stmt \<noteq> Inr () then fl
      else (case split_effect effect_ops stmt of
              Some (op, name, val) \<Rightarrow>
                if name = [] \<or> val = [] then fl
                else if op = ''='' then fl(name \<mapsto> parseLiteral val)
                else (case parse_float val of
                        None \<Rightarrow> fl
                      | Some delta \<Rightarrow>
                          let cur = fst (asNumberAny (flag_or_nil fl name));
                              delta = (if op = ''-='' then f64_neg delta else delta)
                          in fl(name \<mapsto> GFloat64 (f64_add cur delta)))
            | None \<Rightarrow> fl(stmt \<mapsto> GBool True)))"

definition ApplyEffects :: "node option \<Rightarrow> flags option \<Rightarrow> flags option" where
  "ApplyEffects n fl =
     (case (n, fl) of
        (Some n, Some fl) \<Rightarrow> Some (fold (\<lambda>e fl. applyEffect (effect_Set e) fl) (node_Effects n) fl)
      | _ \<Rightarrow> fl)"

section \<open>Facts\<close>

lemma ValidateEffect_trim [simp]: "ValidateEffect (trim_space stmt) = ValidateEffect stmt"
  by (simp add: ValidateEffect_def)

lemma parse_float_Nil [simp]: "parse_float [] = None"
  by code_simp

text \<open>A valid statement assigns one well-formed flag; what it assigns depends on the operator.\<close>

lemma applyEffect_invalid: "ValidateEffect stmt \<noteq> Inr () \<Longrightarrow> applyEffect stmt fl = fl"
  by (simp add: applyEffect_def Let_def)

lemma applyEffect_bare:
  assumes "ValidateEffect stmt = Inr ()" "split_effect effect_ops (trim_space stmt) = None"
  shows "applyEffect stmt fl = fl(trim_space stmt \<mapsto> GBool True) \<and> ValidNodeID (trim_space stmt)"
  using assms by (simp add: applyEffect_def ValidateEffect_def Let_def split: if_splits)

lemma applyEffect_set:
  assumes "ValidateEffect stmt = Inr ()" "split_effect effect_ops (trim_space stmt) = Some (''='', name, val)"
  shows "applyEffect stmt fl = fl(name \<mapsto> parseLiteral val) \<and> ValidNodeID name"
proof -
  have v: "ValidNodeID name" "val \<noteq> []" using assms by (auto simp: ValidateEffect_def Let_def split: if_splits)
  then show ?thesis using assms ValidNodeID_not_empty [OF v(1)] by (simp add: applyEffect_def Let_def)
qed

lemma applyEffect_num:
  assumes "ValidateEffect stmt = Inr ()" "split_effect effect_ops (trim_space stmt) = Some (op, name, val)" "op \<noteq> ''=''"
  shows "\<exists>d. parse_float val = Some d \<and> ValidNodeID name \<and>
    applyEffect stmt fl = fl(name \<mapsto> GFloat64 (f64_add (fst (asNumberAny (flag_or_nil fl name)))
      (if op = ''-='' then f64_neg d else d)))"
proof -
  have v: "ValidNodeID name" "val \<noteq> []" "parse_float val \<noteq> None"
    using assms by (auto simp: ValidateEffect_def Let_def split: if_splits)
  then obtain d where d: "parse_float val = Some d" by blast
  then show ?thesis using assms v ValidNodeID_not_empty [OF v(1)]
    by (intro exI [of _ d]) (simp only: applyEffect_def Let_def ValidateEffect_trim option.case prod.case if_False not_True_eq_False simp_thms)
qed

lemmas applyEffect_cases = applyEffect_invalid applyEffect_bare applyEffect_set applyEffect_num

lemma applyEffect_one_flag:
  assumes "ValidateEffect stmt = Inr ()"
  shows "\<exists>name. ValidNodeID name \<and> (\<forall>fl. \<exists>v. applyEffect stmt fl = fl(name \<mapsto> v))"
proof (cases "split_effect effect_ops (trim_space stmt)")
  case None
  then show ?thesis using applyEffect_bare [OF assms] by blast
next
  case (Some t)
  obtain op name val where t: "t = (op, name, val)" by (cases t)
  show ?thesis
  proof (cases "op = ''=''")
    case True
    then show ?thesis using applyEffect_set [OF assms] Some t by blast
  next
    case False
    then show ?thesis using applyEffect_num [OF assms Some [unfolded t] False] by metis
  qed
qed

section \<open>Properties\<close>

text \<open>
  What \<^verbatim>\<open>ValidateEffect\<close> rejects is exactly what \<^verbatim>\<open>applyEffect\<close> ignores; an accepted statement always
  assigns, and touches exactly one flag, with a well-formed name, whatever the flags are.
\<close>

theorem effect_applies_iff_valid:
  "(\<exists>name. ValidNodeID name \<and> (\<forall>fl. \<exists>v. applyEffect stmt fl = fl(name \<mapsto> v))) = (ValidateEffect stmt = Inr ()) \<and>
   (\<forall>fl. applyEffect stmt fl = fl) = (ValidateEffect stmt \<noteq> Inr ())"
proof -
  have no: "\<not> (\<forall>fl. applyEffect stmt fl = fl)" if all: "\<forall>fl. \<exists>v. applyEffect stmt fl = fl(name \<mapsto> v)" for name
  proof
    assume "\<forall>fl. applyEffect stmt fl = fl"
    moreover obtain v where "applyEffect stmt Map.empty = [name \<mapsto> v]" using all by blast
    ultimately have "[name \<mapsto> v] name = (Map.empty :: flags) name" by simp
    then show False by simp
  qed
  show ?thesis
  proof (cases "ValidateEffect stmt = Inr ()")
    case True
    then obtain name where "ValidNodeID name" "\<forall>fl. \<exists>v. applyEffect stmt fl = fl(name \<mapsto> v)"
      using applyEffect_one_flag by blast
    with True no show ?thesis by blast
  next
    case False
    then have "\<forall>fl. applyEffect stmt fl = fl" by (simp add: applyEffect_invalid)
    with False no show ?thesis by blast
  qed
qed

text \<open>
  Counters are exact: on integer-valued flags (or an absent flag, read as 0) the increment and decrement
  statements compute the exact integer sum as long as it stays below 2 to the 53, and every other
  flag is untouched.
\<close>

theorem effect_counter_exact:
  assumes "ValidateEffect stmt = Inr ()"
    and "split_effect effect_ops (trim_space stmt) = Some (op, name, val)" and "op \<noteq> ''=''"
    and "parse_float val = Some (Fin (of_int d))"
    and "fl name = Some (GFloat64 (Fin (of_int c))) \<or> (fl name = None \<and> c = 0)"
    and "\<bar>if op = ''-='' then c - d else c + d\<bar> < 2 ^ 53"
  shows "applyEffect stmt fl = fl(name \<mapsto> GFloat64 (Fin (of_int (if op = ''-='' then c - d else c + d))))"
proof -
  have "fst (asNumberAny (flag_or_nil fl name)) = Fin (of_int c)"
    using assms(5) by (auto simp: asNumberAny_def flag_or_nil_def)
  then show ?thesis using applyEffect_num [OF assms(1-3), of fl] f64_of_int_exact [OF assms(6)] assms(4)
    by (cases "op = ''-=''") simp_all
qed

theorem effect_counter_exact_witness:
  "applyEffect '' score += 2'' [''score'' \<mapsto> GFloat64 (Fin 40)] ''score'' = Some (GFloat64 (Fin 42))"
proof -
  have split: "split_effect effect_ops (trim_space '' score += 2'') = Some (''+='', ''score'', ''2'')" by code_simp
  have two: "parse_float ''2'' = Some (Fin (of_int 2))"
  proof -
    have "special_float ''2'' = None" "read_float ''2'' = Some (False, of_int 2)" by code_simp+
    then show ?thesis using parse_float_int [of "''2''" False 2] by simp
  qed
  have id: "ValidNodeID ''score''" "trim_space '' score += 2'' \<noteq> []" by code_simp+
  have "ValidateEffect '' score += 2'' = Inr ()"
    unfolding ValidateEffect_def Let_def split option.case prod.case two using id by simp
  then have "applyEffect '' score += 2'' [''score'' \<mapsto> GFloat64 (Fin (of_int 40))] =
      [''score'' \<mapsto> GFloat64 (Fin (of_int 40))](''score'' \<mapsto> GFloat64 (Fin (of_int (if ''+='' = ''-='' then 40 - 2 else 40 + 2))))"
    by (rule effect_counter_exact [OF _ split _ two]) simp_all
  then show ?thesis by simp
qed

text \<open>
  A text value that contains an increment operator cannot be set: the operators are searched in the whole
  statement, so a plain assignment of such a text is refused as a bad flag name.
\<close>

theorem effect_text_with_operator:
  "ValidateEffect ''note = a+=b'' = Inl (InvalidFlagName ''note = a'') \<and> ValidateEffect ''note = a+b'' = Inr ()"
proof -
  have split: "split_effect effect_ops (trim_space ''note = a+=b'') = Some (''+='', ''note = a'', ''b'')"
    "split_effect effect_ops (trim_space ''note = a+b'') = Some (''='', ''note'', ''a+b'')" by code_simp+
  have "\<not> ValidNodeID ''note = a''" "ValidNodeID ''note''" "trim_space ''note = a+=b'' \<noteq> []"
    "trim_space ''note = a+b'' \<noteq> []" by code_simp+
  then show ?thesis unfolding ValidateEffect_def Let_def split by simp
qed

end
