(* ===== verification/Go_Time.thy ===== *)
theory Go_Time
  imports Go_Strings
begin

text \<open>
  What the engine uses of Go's \<^verbatim>\<open>time\<close> package: an instant (seconds since 1970-01-01 UTC and
  nanoseconds), \<^verbatim>\<open>UnixNano\<close> at 64 bits, the RFC 3339 rendering of the UTC time, and
  \<^verbatim>\<open>time.Parse("2006-01-02", ...)\<close> as a test.
\<close>

section \<open>Instants\<close>

record gotime =
  unix_sec :: int
  unix_nsec :: nat

definition wrap_int64 :: "int \<Rightarrow> int" where
  "wrap_int64 x = (x + 2 ^ 63) mod 2 ^ 64 - 2 ^ 63"

definition UnixNano :: "gotime \<Rightarrow> int" where
  "UnixNano t = wrap_int64 (unix_sec t * 1000000000 + int (unix_nsec t))"

definition is_leap :: "int \<Rightarrow> bool" where
  "is_leap y \<longleftrightarrow> 4 dvd y \<and> (\<not> 100 dvd y \<or> 400 dvd y)"

text \<open>Proleptic Gregorian date of a day number: year, month, day.\<close>

definition civil_from_days :: "int \<Rightarrow> int \<times> int \<times> int" where
  "civil_from_days days =
     (let z = days + 719468;
          era = z div 146097;
          doe = z mod 146097;
          yoe = (doe - doe div 1460 + doe div 36524 - doe div 146096) div 365;
          doy = doe - (365 * yoe + yoe div 4 - yoe div 100);
          mp = (5 * doy + 2) div 153;
          d = doy - (153 * mp + 2) div 5 + 1;
          m = (if mp < 10 then mp + 3 else mp - 9)
      in (yoe + era * 400 + (if m \<le> 2 then 1 else 0), m, d))"

definition pad_int :: "nat \<Rightarrow> int \<Rightarrow> string" where
  "pad_int w n =
     (let ds = itoa (nat \<bar>n\<bar>)
      in (if n < 0 then ''-'' else []) @ replicate (w - length ds) CHR ''0'' @ ds)"

definition format_rfc3339_utc :: "gotime \<Rightarrow> string" where
  "format_rfc3339_utc t =
     (let days = unix_sec t div 86400;
          s = unix_sec t mod 86400
      in case civil_from_days days of
           (y, m, d) \<Rightarrow>
             pad_int 4 y @ ''-'' @ pad_int 2 m @ ''-'' @ pad_int 2 d @ ''T'' @
             pad_int 2 (s div 3600) @ '':'' @ pad_int 2 (s mod 3600 div 60) @ '':'' @ pad_int 2 (s mod 60) @ ''Z'')"

text \<open>\<^verbatim>\<open>%d\<close> of an \<^verbatim>\<open>int64\<close>.\<close>

definition itoa_int :: "int \<Rightarrow> string" where
  "itoa_int n = (if n < 0 then ''-'' @ itoa (nat (- n)) else itoa (nat n))"

section \<open>Dates\<close>

definition days_in :: "nat \<Rightarrow> nat \<Rightarrow> nat" where
  "days_in m y =
     (if m = 2 then (if is_leap (int y) then 29 else 28)
      else if m = 4 \<or> m = 6 \<or> m = 9 \<or> m = 11 then 30 else 31)"

text \<open>Whether \<^verbatim>\<open>time.Parse("2006-01-02", s)\<close> succeeds.\<close>

definition parses_as_date :: "string \<Rightarrow> bool" where
  "parses_as_date s \<longleftrightarrow>
     length s = 10 \<and> s ! 4 = CHR ''-'' \<and> s ! 7 = CHR ''-'' \<and>
     list_all is_digit (take 4 s @ take 2 (drop 5 s) @ drop 8 s) \<and>
     (let y = digits_val (take 4 s); m = digits_val (take 2 (drop 5 s)); d = digits_val (drop 8 s)
      in 1 \<le> m \<and> m \<le> 12 \<and> 1 \<le> d \<and> d \<le> days_in m y)"

end
