(* ===== verification/Run_State.thy ===== *)
theory Run_State
  imports Graph_Model Go_Time
begin

text \<open>
  Run state and its journal (\<^verbatim>\<open>internal/engine/state.go\<close>): lifecycle statuses, \<^verbatim>\<open>SetStatus\<close>, and the
  replay of an append-only journal with its two indexes. The JSON codec is a parameter: \<open>decode\<close>
  is \<^verbatim>\<open>json.Unmarshal\<close> of one line into a \<^verbatim>\<open>HistoryEvent\<close>, \<open>encode\<close> is \<^verbatim>\<open>json.Marshal\<close>.
\<close>

section \<open>Statuses\<close>

abbreviation StatusReady :: status where "StatusReady \<equiv> ''ready''"
abbreviation StatusStarted :: status where "StatusStarted \<equiv> ''started''"
abbreviation StatusInProgress :: status where "StatusInProgress \<equiv> ''in_progress''"
abbreviation StatusDone :: status where "StatusDone \<equiv> ''done''"
abbreviation StatusSkipped :: status where "StatusSkipped \<equiv> ''skipped''"
abbreviation StatusFailed :: status where "StatusFailed \<equiv> ''failed''"
abbreviation StatusDeprecated :: status where "StatusDeprecated \<equiv> ''deprecated''"

definition ValidStatus :: "status \<Rightarrow> bool" where
  "ValidStatus s \<longleftrightarrow>
     (if s \<in> {StatusReady, StatusStarted, StatusInProgress, StatusDone, StatusSkipped, StatusFailed, StatusDeprecated}
      then True
      else has_prefix s ''custom-status-'' \<and> length (trim_prefix s ''custom-status-'') > 0)"

definition explicit :: "status \<Rightarrow> bool" where
  "explicit s = ValidStatus s"

definition CanTransition :: "status \<Rightarrow> status \<Rightarrow> bool" where
  "CanTransition from to = ValidStatus to"

section \<open>Run state\<close>

text \<open>
  A nil \<^verbatim>\<open>*NodeState\<close> stored in the map reads like an absent key. A nil \<^verbatim>\<open>Nodes\<close> map is \<open>None\<close>: reading it
  gives nothing, writing it panics.
\<close>

record node_state =
  ns_Status :: status
  ns_At :: string
  ns_By :: string

record history_event =
  he_ID :: string
  he_T :: string
  he_Event :: string
  he_Node :: string
  he_From :: status
  he_To :: status
  he_By :: string
  he_Note :: string
  he_Flags :: "flags option"
  he_RecordedAt :: string
  he_StateFlags :: "flags option"
  he_Ref :: string

record run_state =
  rs_StartedAt :: string
  rs_Nodes :: "(string \<rightharpoonup> node_state) option"
  rs_Flags :: "flags option"
  rs_History :: "history_event list"

abbreviation EventEvidence :: string where "EventEvidence \<equiv> ''evidence''"

definition node_state_of :: "run_state \<Rightarrow> string \<Rightarrow> node_state option" where
  "node_state_of rs n = (case rs_Nodes rs of None \<Rightarrow> None | Some m \<Rightarrow> m n)"

definition zero_run_state :: run_state where
  "zero_run_state = \<lparr>rs_StartedAt = [], rs_Nodes = None, rs_Flags = None, rs_History = []\<rparr>"

definition NewRunState :: "gotime \<Rightarrow> run_state" where
  "NewRunState now =
     \<lparr>rs_StartedAt = format_rfc3339_utc now, rs_Nodes = Some Map.empty, rs_Flags = None, rs_History = []\<rparr>"

definition ParseRunState :: "(string \<Rightarrow> 'e + run_state) \<Rightarrow> string \<Rightarrow> 'e + run_state" where
  "ParseRunState unmarshal data =
     (case unmarshal data of
        Inl err \<Rightarrow> Inl err
      | Inr rs \<Rightarrow> Inr (if rs_Nodes rs = None then rs\<lparr>rs_Nodes := Some Map.empty\<rparr> else rs))"

section \<open>SetStatus\<close>

datatype state_error = InvalidStatus status | InvalidTransition status status | NilMapPanic

definition status_event :: "string \<Rightarrow> string \<Rightarrow> string \<Rightarrow> status \<Rightarrow> status \<Rightarrow> string \<Rightarrow> history_event" where
  "status_event i ts nodeID from to by =
     \<lparr>he_ID = i, he_T = ts, he_Event = ''status'', he_Node = nodeID, he_From = from, he_To = to, he_By = by,
      he_Note = [], he_Flags = None, he_RecordedAt = [], he_StateFlags = None, he_Ref = []\<rparr>"

definition SetStatus :: "run_state \<Rightarrow> string \<Rightarrow> status \<Rightarrow> string \<Rightarrow> gotime \<Rightarrow> state_error + run_state" where
  "SetStatus rs nodeID to by now =
     (if \<not> ValidStatus to then Inl (InvalidStatus to)
      else
        let from = (case node_state_of rs nodeID of
                      Some st \<Rightarrow> if explicit (ns_Status st) then ns_Status st else StatusReady
                    | None \<Rightarrow> StatusReady)
        in if \<not> CanTransition from to then Inl (InvalidTransition from to)
           else (case rs_Nodes rs of
                   None \<Rightarrow> Inl NilMapPanic
                 | Some m \<Rightarrow>
                     let ts = format_rfc3339_utc now
                     in Inr (rs\<lparr>rs_Nodes := Some (m(nodeID \<mapsto> \<lparr>ns_Status = to, ns_At = ts, ns_By = by\<rparr>)),
                                rs_History := rs_History rs @
                                  [status_event (''ev-'' @ itoa_int (UnixNano now) @ ''-'' @ itoa (length (rs_History rs)))
                                     ts nodeID from to by]\<rparr>)))"

definition AppendJournalLine :: "(history_event \<Rightarrow> 'e + string) \<Rightarrow> history_event \<Rightarrow> 'e + string" where
  "AppendJournalLine encode ev = (case encode ev of Inl err \<Rightarrow> Inl err | Inr b \<Rightarrow> Inr (b @ [CHR 0x0A]))"

section \<open>Replay\<close>

record journal_replay =
  jr_rs :: run_state
  jr_statusIndex :: "string \<rightharpoonup> nat"
  jr_latestStatus :: "string \<rightharpoonup> nat"

definition index_event :: "nat \<Rightarrow> journal_replay \<Rightarrow> journal_replay" where
  "index_event i r =
     (let ev = rs_History (jr_rs r) ! i in
      if he_Event ev \<noteq> ''status'' then r
      else
        let r = (if he_ID ev \<noteq> [] \<and> jr_statusIndex r (he_ID ev) = None
                 then r\<lparr>jr_statusIndex := (jr_statusIndex r)(he_ID ev \<mapsto> i)\<rparr> else r)
        in if he_Node ev \<noteq> [] then r\<lparr>jr_latestStatus := (jr_latestStatus r)(he_Node ev \<mapsto> i)\<rparr> else r)"

definition newJournalReplay :: "run_state option \<Rightarrow> journal_replay" where
  "newJournalReplay base =
     (let rs = (case base of None \<Rightarrow> zero_run_state | Some rs \<Rightarrow> rs);
          rs = (if rs_Nodes rs = None then rs\<lparr>rs_Nodes := Some Map.empty\<rparr> else rs)
      in fold index_event [0..<length (rs_History rs)]
           \<lparr>jr_rs = rs, jr_statusIndex = Map.empty, jr_latestStatus = Map.empty\<rparr>)"

definition appendHistory :: "history_event \<Rightarrow> journal_replay \<Rightarrow> journal_replay" where
  "appendHistory ev r =
     (let r = r\<lparr>jr_rs := (jr_rs r)\<lparr>rs_History := rs_History (jr_rs r) @ [ev]\<rparr>\<rparr>
      in index_event (length (rs_History (jr_rs r)) - 1) r)"

text \<open>Writing \<^verbatim>\<open>rs.Nodes[k]\<close>; \<open>newJournalReplay\<close> has made the map non-nil.\<close>

definition put_node :: "string \<Rightarrow> node_state \<Rightarrow> run_state \<Rightarrow> run_state" where
  "put_node n st rs = rs\<lparr>rs_Nodes := map_option (\<lambda>m. m(n \<mapsto> st)) (rs_Nodes rs)\<rparr>"

definition replay_status :: "history_event \<Rightarrow> journal_replay \<Rightarrow> journal_replay" where
  "replay_status ev r =
     (let target = he_To ev in
      if \<not> ValidStatus target then r
      else
        let from = (case node_state_of (jr_rs r) (he_Node ev) of Some cur \<Rightarrow> ns_Status cur | None \<Rightarrow> StatusReady);
            ev = ev\<lparr>he_From := from\<rparr>;
            r = appendHistory ev r;
            rs = put_node (he_Node ev) \<lparr>ns_Status = target, ns_At = he_T ev, ns_By = he_By ev\<rparr> (jr_rs r);
            rs = (case he_StateFlags ev of None \<Rightarrow> rs | Some fl \<Rightarrow> rs\<lparr>rs_Flags := Some fl\<rparr>);
            rs = (if rs_StartedAt rs = [] then rs\<lparr>rs_StartedAt := he_T ev\<rparr> else rs)
        in r\<lparr>jr_rs := rs\<rparr>)"

text \<open>The display time of a stamp, and of the node state it produced.\<close>

definition retime :: "nat \<Rightarrow> string \<Rightarrow> run_state \<Rightarrow> run_state" where
  "retime i t rs = rs\<lparr>rs_History := (rs_History rs)[i := (rs_History rs ! i)\<lparr>he_T := t\<rparr>]\<rparr>"

definition replay_move :: "history_event \<Rightarrow> journal_replay \<Rightarrow> journal_replay" where
  "replay_move ev r =
     (let r = (case jr_statusIndex r (he_Ref ev) of
                 None \<Rightarrow> r
               | Some i \<Rightarrow>
                   let node = he_Node (rs_History (jr_rs r) ! i);
                       latest = (case jr_latestStatus r node of Some k \<Rightarrow> k | None \<Rightarrow> 0);
                       rs = (case node_state_of (jr_rs r) node of
                               Some st \<Rightarrow> if latest = i then put_node node (st\<lparr>ns_At := he_T ev\<rparr>) (jr_rs r) else jr_rs r
                             | None \<Rightarrow> jr_rs r)
                   in r\<lparr>jr_rs := retime i (he_T ev) rs\<rparr>)
      in appendHistory ev r)"

definition replay_event :: "history_event \<Rightarrow> journal_replay \<Rightarrow> journal_replay" where
  "replay_event ev r =
     (if he_Event ev = ''status'' \<and> he_Node ev \<noteq> [] \<and> he_ID ev \<noteq> [] then replay_status ev r
      else if he_Event ev = ''move'' \<and> he_Ref ev \<noteq> [] then replay_move ev r
      else if he_Event ev = EventEvidence \<and> he_Node ev \<noteq> [] then appendHistory ev r
      else r)"

fun replay_lines ::
  "(string \<Rightarrow> 'e + history_event) \<Rightarrow> bool \<Rightarrow> nat \<Rightarrow> string list \<Rightarrow> journal_replay \<Rightarrow> journal_replay \<times> (nat \<times> 'e) option" where
  "replay_lines decode terminated index [] r = (r, None)"
| "replay_lines decode terminated index (line # lines) r =
     (if length (trim_space line) = 0 then replay_lines decode terminated (index + 1) lines r
      else (case decode line of
              Inl err \<Rightarrow>
                let isTornTail = (lines = [] \<and> \<not> terminated)
                in if isTornTail then (r, None) else (r, Some (index + 1, err))
            | Inr ev \<Rightarrow> replay_lines decode terminated (index + 1) lines (replay_event ev r)))"

definition ResumeJournal ::
  "(string \<Rightarrow> 'e + history_event) \<Rightarrow> run_state option \<Rightarrow> string \<Rightarrow> run_state \<times> (nat \<times> 'e) option" where
  "ResumeJournal decode base data =
     (case replay_lines decode (has_suffix data [CHR 0x0A]) 0 (split_on CHR 0x0A data) (newJournalReplay base) of
        (r, err) \<Rightarrow> (jr_rs r, err))"

definition StateFromJournalChecked ::
  "(string \<Rightarrow> 'e + history_event) \<Rightarrow> string \<Rightarrow> run_state \<times> (nat \<times> 'e) option" where
  "StateFromJournalChecked decode data = ResumeJournal decode None data"

definition StateFromJournal :: "(string \<Rightarrow> 'e + history_event) \<Rightarrow> string \<Rightarrow> run_state" where
  "StateFromJournal decode data = fst (StateFromJournalChecked decode data)"

section \<open>Flags\<close>

definition EffectiveFlags :: "graph \<Rightarrow> run_state option \<Rightarrow> flags" where
  "EffectiveFlags g rs =
     (let out = graph_Flags g
      in case rs of None \<Rightarrow> out | Some rs \<Rightarrow> out ++ (case rs_Flags rs of None \<Rightarrow> Map.empty | Some fl \<Rightarrow> fl))"

section \<open>The indexes are determined by the history\<close>

type_synonym event_key = "string \<times> string \<times> string"

definition key_of :: "history_event \<Rightarrow> event_key" where
  "key_of ev = (he_Event ev, he_ID ev, he_Node ev)"

fun index_key :: "nat \<Rightarrow> event_key \<Rightarrow> (string \<rightharpoonup> nat) \<times> (string \<rightharpoonup> nat) \<Rightarrow> (string \<rightharpoonup> nat) \<times> (string \<rightharpoonup> nat)" where
  "index_key i (e, d, n) (si, ls) =
     (if e \<noteq> ''status'' then (si, ls)
      else (if d \<noteq> [] \<and> si d = None then si(d \<mapsto> i) else si, if n \<noteq> [] then ls(n \<mapsto> i) else ls))"

fun index_keys :: "event_key list \<Rightarrow> (string \<rightharpoonup> nat) \<times> (string \<rightharpoonup> nat)" where
  "index_keys [] = (Map.empty, Map.empty)"
| "index_keys (k # ks) = index_key (length ks) k (index_keys ks)"

text \<open>Keys are consumed newest first: \<open>indexes h\<close> reads the history from its end.\<close>

definition indexes :: "history_event list \<Rightarrow> (string \<rightharpoonup> nat) \<times> (string \<rightharpoonup> nat)" where
  "indexes h = index_keys (rev (map key_of h))"

lemma indexes_snoc: "indexes (h @ [ev]) = index_key (length h) (key_of ev) (indexes h)"
  by (simp add: indexes_def)

lemma indexes_Nil [simp]: "indexes [] = (Map.empty, Map.empty)"
  by (simp add: indexes_def)

lemma indexes_keys: "map key_of h = map key_of h' \<Longrightarrow> indexes h = indexes h'"
  by (simp add: indexes_def)

definition replay_ok :: "journal_replay \<Rightarrow> bool" where
  "replay_ok r \<longleftrightarrow> (jr_statusIndex r, jr_latestStatus r) = indexes (rs_History (jr_rs r)) \<and> rs_Nodes (jr_rs r) \<noteq> None"

lemma index_event_rs [simp]: "jr_rs (index_event i r) = jr_rs r"
  by (simp add: index_event_def Let_def)

lemma index_event_maps:
  "(jr_statusIndex (index_event i r), jr_latestStatus (index_event i r)) =
     index_key i (key_of (rs_History (jr_rs r) ! i)) (jr_statusIndex r, jr_latestStatus r)"
  by (simp add: index_event_def key_of_def Let_def)

lemma index_prefix:
  assumes "k \<le> length (rs_History rs)"
  shows "jr_rs (fold index_event [0..<k] \<lparr>jr_rs = rs, jr_statusIndex = Map.empty, jr_latestStatus = Map.empty\<rparr>) = rs \<and>
    (jr_statusIndex (fold index_event [0..<k] \<lparr>jr_rs = rs, jr_statusIndex = Map.empty, jr_latestStatus = Map.empty\<rparr>),
     jr_latestStatus (fold index_event [0..<k] \<lparr>jr_rs = rs, jr_statusIndex = Map.empty, jr_latestStatus = Map.empty\<rparr>)) =
    indexes (take k (rs_History rs))"
  using assms
proof (induction k)
  case (Suc k)
  then show ?case by (simp add: index_event_maps take_Suc_conv_app_nth indexes_snoc)
qed simp

definition normal_nodes :: "run_state \<Rightarrow> run_state" where
  "normal_nodes rs = (if rs_Nodes rs = None then rs\<lparr>rs_Nodes := Some Map.empty\<rparr> else rs)"

definition base_state :: "run_state option \<Rightarrow> run_state" where
  "base_state base = normal_nodes (case base of None \<Rightarrow> zero_run_state | Some rs \<Rightarrow> rs)"

lemma newJournalReplay_eq:
  "newJournalReplay base =
     \<lparr>jr_rs = base_state base, jr_statusIndex = fst (indexes (rs_History (base_state base))),
      jr_latestStatus = snd (indexes (rs_History (base_state base)))\<rparr>"
proof -
  let ?r = "newJournalReplay base"
  have r: "?r = fold index_event [0..<length (rs_History (base_state base))]
      \<lparr>jr_rs = base_state base, jr_statusIndex = Map.empty, jr_latestStatus = Map.empty\<rparr>"
    by (simp add: newJournalReplay_def base_state_def normal_nodes_def Let_def)
  show ?thesis unfolding r
    by (rule journal_replay.equality)
       (use index_prefix [of "length (rs_History (base_state base))" "base_state base"] in \<open>simp_all add: prod_eq_iff\<close>)
qed

lemma base_state_nodes [simp]: "rs_Nodes (base_state base) \<noteq> None"
  by (simp add: base_state_def normal_nodes_def)

lemma load_ok: "replay_ok (newJournalReplay base)"
  by (simp add: replay_ok_def newJournalReplay_eq)

lemma reload: "replay_ok r \<Longrightarrow> newJournalReplay (Some (jr_rs r)) = r"
  by (rule journal_replay.equality)
     (auto simp: newJournalReplay_eq replay_ok_def base_state_def normal_nodes_def prod_eq_iff)

lemma appendHistory_rs [simp]:
  "jr_rs (appendHistory ev r) = (jr_rs r)\<lparr>rs_History := rs_History (jr_rs r) @ [ev]\<rparr>"
  by (simp add: appendHistory_def Let_def)

lemma appendHistory_ok: "replay_ok r \<Longrightarrow> replay_ok (appendHistory ev r)"
  by (simp add: replay_ok_def) (simp add: appendHistory_def Let_def index_event_maps indexes_snoc)

lemma replay_ok_keys:
  assumes "replay_ok r" "map key_of (rs_History rs) = map key_of (rs_History (jr_rs r))" "rs_Nodes rs \<noteq> None"
  shows "replay_ok (r\<lparr>jr_rs := rs\<rparr>)"
  using assms indexes_keys [OF assms(2)] by (simp add: replay_ok_def)

lemma put_node_simps [simp]:
  "rs_History (put_node n st rs) = rs_History rs" "rs_Flags (put_node n st rs) = rs_Flags rs"
  "rs_StartedAt (put_node n st rs) = rs_StartedAt rs"
  "rs_Nodes (put_node n st rs) = map_option (\<lambda>m. m(n \<mapsto> st)) (rs_Nodes rs)"
  by (simp_all add: put_node_def)

lemma retime_keys [simp]: "map key_of (rs_History (retime i t rs)) = map key_of (rs_History rs)"
  by (cases "i < length (rs_History rs)")
     (auto intro!: nth_equalityI simp: retime_def nth_list_update key_of_def)

lemma retime_simps [simp]:
  "rs_Nodes (retime i t rs) = rs_Nodes rs" "rs_Flags (retime i t rs) = rs_Flags rs"
  "rs_StartedAt (retime i t rs) = rs_StartedAt rs" "length (rs_History (retime i t rs)) = length (rs_History rs)"
  by (simp_all add: retime_def)

lemma replay_status_ok:
  assumes "replay_ok r"
  shows "replay_ok (replay_status ev r)"
proof (cases "ValidStatus (he_To ev)")
  case True
  then show ?thesis
    unfolding replay_status_def Let_def
    using replay_ok_keys [OF appendHistory_ok [OF assms]] assms
    by (simp add: replay_ok_def split: option.split)
qed (use assms in \<open>simp add: replay_status_def\<close>)

lemma replay_move_ok: "replay_ok r \<Longrightarrow> replay_ok (replay_move ev r)"
  unfolding replay_move_def Let_def
  by (rule appendHistory_ok) (auto intro!: replay_ok_keys simp: replay_ok_def [of r] split: option.split)

lemma replay_event_ok: "replay_ok r \<Longrightarrow> replay_ok (replay_event ev r)"
  by (simp add: replay_event_def replay_status_ok replay_move_ok appendHistory_ok)

end
