(* ===== verification/Journal.thy ===== *)
theory Journal
  imports Run_State
begin

text \<open>
  What journal replay guarantees (\<^verbatim>\<open>ResumeJournal\<close> and \<^verbatim>\<open>SetStatus\<close> of \<^verbatim>\<open>internal/engine/state.go\<close>):
  a checkpoint can stand in for the journal prefix it covers, the node map is at every reachable
  state the projection of the history, and replaying the event that \<^verbatim>\<open>SetStatus\<close> recorded gives the
  state \<^verbatim>\<open>SetStatus\<close> made.
\<close>

section \<open>Reducers that can be checkpointed\<close>

text \<open>
  A reducer carries working data beside its state (here the two indexes). It can be stopped and
  resumed when loading a state rebuilds exactly the working data the reducer had.
\<close>

locale checkpointed =
  fixes load :: "'s option \<Rightarrow> 'r" and state :: "'r \<Rightarrow> 's" and apply_event :: "'ev \<Rightarrow> 'r \<Rightarrow> 'r" and ok :: "'r \<Rightarrow> bool"
  assumes load_good: "ok (load s)"
    and apply_good: "ok r \<Longrightarrow> ok (apply_event ev r)"
    and reload_same: "ok r \<Longrightarrow> load (Some (state r)) = r"
begin

lemma fold_good: "ok r \<Longrightarrow> ok (fold apply_event evs r)"
  by (induction evs arbitrary: r) (simp_all add: apply_good)

lemma resume_fold:
  "fold apply_event (evs @ evs') (load s) = fold apply_event evs' (load (Some (state (fold apply_event evs (load s)))))"
  by (simp add: reload_same fold_good load_good)

text \<open>An invariant of the state that each event keeps holds after any number of resumed runs.\<close>

lemma fold_invariant:
  assumes "ok r" "I (state r)" "\<And>r ev. ok r \<Longrightarrow> I (state r) \<Longrightarrow> I (state (apply_event ev r))"
  shows "I (state (fold apply_event evs r))"
  using assms by (induction evs arbitrary: r) (simp_all add: apply_good)

end

interpretation journal: checkpointed newJournalReplay jr_rs replay_event replay_ok
  by unfold_locales (simp_all add: load_ok replay_event_ok reload)

section \<open>Lines and events\<close>

text \<open>The events a block of lines holds, up to the first undecodable one.\<close>

fun line_events :: "(string \<Rightarrow> 'e + history_event) \<Rightarrow> bool \<Rightarrow> nat \<Rightarrow> string list \<Rightarrow> history_event list \<times> (nat \<times> 'e) option" where
  "line_events decode terminated i [] = ([], None)"
| "line_events decode terminated i (l # ls) =
     (if trim_space l = [] then line_events decode terminated (i + 1) ls
      else (case decode l of
              Inl err \<Rightarrow> ([], if ls = [] \<and> \<not> terminated then None else Some (i + 1, err))
            | Inr ev \<Rightarrow> (case line_events decode terminated (i + 1) ls of (evs, err) \<Rightarrow> (ev # evs, err))))"

lemma replay_lines_events:
  "replay_lines decode t i ls r = (fold replay_event (fst (line_events decode t i ls)) r, snd (line_events decode t i ls))"
  by (induction decode t i ls r rule: replay_lines.induct) (auto split: sum.splits prod.splits simp: Let_def)

lemma line_events_shift:
  "line_events decode t (i + k) ls =
     (fst (line_events decode t i ls), map_option (\<lambda>(j, err). (j + k, err)) (snd (line_events decode t i ls)))"
proof (induction decode t i ls rule: line_events.induct)
  case (2 decode t i l ls)
  then show ?case by (auto split: sum.splits prod.splits simp: add.commute add.left_commute)
qed simp

text \<open>Lines followed by further lines never count as a torn tail.\<close>

lemma line_events_append:
  assumes "ms \<noteq> []"
  shows "line_events decode t i (ls @ ms) =
    (case line_events decode True i ls of
       (evs, Some err) \<Rightarrow> (evs, Some err)
     | (evs, None) \<Rightarrow> (case line_events decode t (i + length ls) ms of (evs', err) \<Rightarrow> (evs @ evs', err)))"
proof (induction ls arbitrary: i)
  case (Cons l ls)
  have "line_events decode t (Suc i) (ls @ ms) =
    (case line_events decode True (Suc i) ls of
       (evs, Some err) \<Rightarrow> (evs, Some err)
     | (evs, None) \<Rightarrow> (case line_events decode t (Suc (i + length ls)) ms of (evs', err) \<Rightarrow> (evs @ evs', err)))"
    using Cons [of "Suc i"] unfolding add_Suc .
  then show ?case using assms by (auto split: sum.split prod.split option.split)
qed (auto split: prod.split)

lemma split_on_snoc: "split_on c (p @ [c]) = split_on c p @ [[]]"
  by (induction p) (auto split: list.splits)

lemma split_on_append: "split_on c (p @ c # q) = split_on c p @ split_on c q"
  by (induction p) (auto split: list.splits)

lemma length_split_on: "length (split_on c p) = Suc (count_list p c)"
  by (induction p) (auto split: list.splits)

lemma has_suffix_snoc: "has_suffix s [c] \<longleftrightarrow> (\<exists>p. s = p @ [c])"
  unfolding has_suffix_def has_prefix_iff
  by (metis append_Cons append_Nil rev.simps(2) rev_rev_ident rev_singleton_conv)

lemma has_suffix_append: "q \<noteq> [] \<Longrightarrow> has_suffix (p @ q) [c] = has_suffix q [c]"
  unfolding has_suffix_snoc by (metis append_assoc append_butlast_last_id last_appendR last_snoc)

lemma line_events_blank_tail:
  "line_events decode True i (ls @ [[]]) = line_events decode True i ls"
  by (induction ls arbitrary: i) (auto split: sum.split simp: trim_space_def trim_left_space_def trim_right_space_def)

definition journal_events ::
  "(string \<Rightarrow> 'e + history_event) \<Rightarrow> string \<Rightarrow> history_event list \<times> (nat \<times> 'e) option" where
  "journal_events decode data = line_events decode (has_suffix data [CHR 0x0A]) 0 (split_on CHR 0x0A data)"

lemma ResumeJournal_events:
  "ResumeJournal decode base data =
     (jr_rs (fold replay_event (fst (journal_events decode data)) (newJournalReplay base)),
      snd (journal_events decode data))"
  by (simp add: ResumeJournal_def journal_events_def replay_lines_events)

lemma journal_events_append:
  assumes "has_suffix d1 [CHR 0x0A]" "journal_events decode d1 = (evs, None)"
  shows "journal_events decode (d1 @ d2) =
    (evs @ fst (journal_events decode d2),
     map_option (\<lambda>(j, err). (j + count_list d1 CHR 0x0A, err)) (snd (journal_events decode d2)))"
proof -
  obtain p where p: "d1 = p @ [CHR 0x0A]" using assms(1) by (auto simp: has_suffix_snoc)
  let ?ps = "split_on CHR 0x0A p" and ?qs = "split_on CHR 0x0A d2" and ?t = "has_suffix (d1 @ d2) [CHR 0x0A]"
  have evs: "line_events decode True 0 ?ps = (evs, None)"
    using assms by (simp add: journal_events_def p split_on_snoc line_events_blank_tail)
  have n: "length ?ps = count_list d1 CHR 0x0A" by (simp add: p length_split_on)
  have "line_events decode ?t 0 ?qs = journal_events decode d2"
  proof (cases "d2 = []")
    case True
    have "line_events decode t 0 [[]] = ([], None)" for t
      by (simp add: trim_space_def trim_left_space_def trim_right_space_def)
    with True show ?thesis by (simp add: journal_events_def)
  qed (simp add: journal_events_def has_suffix_append)
  then have "line_events decode ?t (length ?ps) ?qs =
      (fst (journal_events decode d2), map_option (\<lambda>(j, err). (j + length ?ps, err)) (snd (journal_events decode d2)))"
    using line_events_shift [of decode ?t 0 "length ?ps" ?qs] by simp
  moreover have "split_on CHR 0x0A (d1 @ d2) = ?ps @ ?qs" by (simp add: p split_on_append)
  ultimately show ?thesis
    by (simp add: journal_events_def [of decode "d1 @ d2"] line_events_append evs n)
qed

section \<open>The node map is the projection of the history\<close>

definition state_of :: "history_event \<Rightarrow> node_state" where
  "state_of ev = \<lparr>ns_Status = he_To ev, ns_At = he_T ev, ns_By = he_By ev\<rparr>"

text \<open>Each node's state is that of its newest status event.\<close>

definition project :: "history_event list \<Rightarrow> (string \<rightharpoonup> node_state)" where
  "project h n = map_option (\<lambda>k. state_of (h ! k)) (snd (indexes h) n)"

definition events_ok :: "history_event list \<Rightarrow> bool" where
  "events_ok h \<longleftrightarrow> (\<forall>ev\<in>set h. he_Event ev = ''status'' \<longrightarrow> he_Node ev \<noteq> [] \<and> ValidStatus (he_To ev))"

definition projected :: "run_state \<Rightarrow> bool" where
  "projected rs \<longleftrightarrow> rs_Nodes rs = Some (project (rs_History rs)) \<and> events_ok (rs_History rs)"

lemma latest_bound: "snd (indexes h) n = Some k \<Longrightarrow> k < length h"
proof (induction h arbitrary: k rule: rev_induct)
  case (snoc ev h)
  then show ?case
    by (cases "indexes h") (auto simp: indexes_snoc key_of_def less_Suc_eq split: if_splits)
qed simp

lemma latest_event:
  "snd (indexes h) n = Some k \<Longrightarrow> he_Event (h ! k) = ''status'' \<and> he_Node (h ! k) = n \<and> n \<noteq> []"
proof (induction h arbitrary: k rule: rev_induct)
  case (snoc ev h)
  show ?case
  proof (cases "k = length h")
    case True
    then have "snd (indexes h) n \<noteq> Some k" using latest_bound by fastforce
    with True snoc.prems show ?thesis
      by (cases "indexes h") (auto simp: indexes_snoc key_of_def split: if_splits)
  next
    case False
    then have k: "snd (indexes h) n = Some k"
      using snoc.prems by (cases "indexes h") (auto simp: indexes_snoc key_of_def split: if_splits)
    then show ?thesis using snoc.IH [OF k] latest_bound [OF k] by (simp add: nth_append)
  qed
qed simp

lemma status_index_event:
  "fst (indexes h) d = Some k \<Longrightarrow> k < length h \<and> he_Event (h ! k) = ''status'' \<and> he_ID (h ! k) = d"
proof (induction h arbitrary: k rule: rev_induct)
  case (snoc ev h)
  show ?case
  proof (cases "fst (indexes h) d")
    case None
    then show ?thesis using snoc.prems
      by (cases "indexes h") (auto simp: indexes_snoc key_of_def split: if_splits)
  next
    case (Some j)
    then have "k = j" using snoc.prems
      by (cases "indexes h") (auto simp: indexes_snoc key_of_def split: if_splits)
    then show ?thesis using snoc.IH [OF Some] by (auto simp: nth_append)
  qed
qed simp

lemma project_snoc:
  "project (h @ [ev]) =
     (if he_Event ev = ''status'' \<and> he_Node ev \<noteq> [] then (project h)(he_Node ev \<mapsto> state_of ev) else project h)"
proof
  fix n
  have old: "map_option (\<lambda>k. state_of ((h @ [ev]) ! k)) (snd (indexes h) n) = project h n"
    using latest_bound [of h n] by (cases "snd (indexes h) n") (auto simp: project_def nth_append)
  then show "project (h @ [ev]) n =
      (if he_Event ev = ''status'' \<and> he_Node ev \<noteq> [] then (project h)(he_Node ev \<mapsto> state_of ev) else project h) n"
    by (cases "indexes h") (auto simp: project_def indexes_snoc key_of_def)
qed

lemma project_retime:
  assumes "i < length h"
  shows "project (h[i := (h ! i)\<lparr>he_T := t\<rparr>]) n =
    (if snd (indexes h) n = Some i then map_option (\<lambda>st. st\<lparr>ns_At := t\<rparr>) (project h n) else project h n)"
proof -
  have "map key_of (h[i := (h ! i)\<lparr>he_T := t\<rparr>]) = map key_of h"
    using assms by (auto intro!: nth_equalityI simp: nth_list_update key_of_def)
  then have "indexes (h[i := (h ! i)\<lparr>he_T := t\<rparr>]) = indexes h" by (rule indexes_keys)
  then show ?thesis using assms
    by (cases "snd (indexes h) n") (auto simp: project_def state_of_def nth_list_update)
qed

lemma events_ok_snoc: "events_ok (h @ [ev]) \<longleftrightarrow>
    events_ok h \<and> (he_Event ev = ''status'' \<longrightarrow> he_Node ev \<noteq> [] \<and> ValidStatus (he_To ev))"
  by (auto simp: events_ok_def)

lemma events_ok_retime: "events_ok h \<Longrightarrow> i < length h \<Longrightarrow> events_ok (h[i := (h ! i)\<lparr>he_T := t\<rparr>])"
  unfolding events_ok_def by (auto dest!: subsetD [OF set_update_subset_insert])

lemma project_valid: "events_ok h \<Longrightarrow> project h n = Some st \<Longrightarrow> ValidStatus (ns_Status st)"
  using latest_bound [of h n] latest_event [of h n]
  by (auto simp: project_def state_of_def events_ok_def)

lemma append_projected:
  "projected rs \<Longrightarrow> he_Event ev \<noteq> ''status'' \<Longrightarrow> projected (rs\<lparr>rs_History := rs_History rs @ [ev]\<rparr>)"
  by (simp add: projected_def project_snoc events_ok_snoc)

lemma latest_exists:
  "i < length h \<Longrightarrow> he_Event (h ! i) = ''status'' \<Longrightarrow> he_Node (h ! i) \<noteq> [] \<Longrightarrow> snd (indexes h) (he_Node (h ! i)) \<noteq> None"
proof (induction h rule: rev_induct)
  case (snoc ev h)
  then show ?case
    by (cases "indexes h"; cases "i = length h") (auto simp: indexes_snoc key_of_def nth_append less_Suc_eq)
qed simp

text \<open>Retiming the stamp \<open>i\<close> of node \<open>n\<close> retimes the node's state exactly when \<open>i\<close> is its newest stamp.\<close>

lemma project_retime_node:
  assumes "i < length h" "he_Node (h ! i) = n" "snd (indexes h) n = Some k"
  shows "project (h[i := (h ! i)\<lparr>he_T := t\<rparr>]) =
    (if k = i then (project h)(n \<mapsto> (state_of (h ! k))\<lparr>ns_At := t\<rparr>) else project h)"
proof
  fix m
  consider "m = n" | "m \<noteq> n" "snd (indexes h) m \<noteq> Some i"
    using latest_event [of h m i] assms(2) by blast
  then show "project (h[i := (h ! i)\<lparr>he_T := t\<rparr>]) m =
    (if k = i then (project h)(n \<mapsto> (state_of (h ! k))\<lparr>ns_At := t\<rparr>) else project h) m"
    by cases (simp_all add: project_retime [OF assms(1)] assms(3), simp add: project_def assms(3))
qed

lemma move_projected:
  assumes "replay_ok r" "projected (jr_rs r)" "he_Event ev \<noteq> ''status''"
  shows "projected (jr_rs (replay_move ev r))"
proof (cases "jr_statusIndex r (he_Ref ev)")
  case None
  then show ?thesis using assms append_projected by (simp add: replay_move_def)
next
  case (Some i)
  let ?rs = "jr_rs r" let ?h = "rs_History ?rs" let ?n = "he_Node (?h ! i)" let ?t = "he_T ev"
  have idx: "jr_statusIndex r = fst (indexes ?h)" "jr_latestStatus r = snd (indexes ?h)"
    using assms(1) by (simp_all add: replay_ok_def prod_eq_iff)
  have i: "i < length ?h" "he_Event (?h ! i) = ''status''"
    using Some status_index_event [of ?h "he_Ref ev" i] by (simp_all add: idx)
  then have "?n \<noteq> []" using assms(2) by (simp add: projected_def events_ok_def)
  then obtain k where k: "snd (indexes ?h) ?n = Some k" using latest_exists [OF i] by blast
  let ?st = "state_of (?h ! k)"
  have st: "node_state_of ?rs ?n = Some ?st"
    using assms(2) k by (simp add: node_state_of_def projected_def project_def)
  have "jr_rs (replay_move ev r) =
      (let rs = retime i ?t (if k = i then put_node ?n (?st\<lparr>ns_At := ?t\<rparr>) ?rs else ?rs)
       in rs\<lparr>rs_History := rs_History rs @ [ev]\<rparr>)"
    using Some st k by (simp add: replay_move_def idx Let_def)
  moreover have "projected (retime i ?t (if k = i then put_node ?n (?st\<lparr>ns_At := ?t\<rparr>) ?rs else ?rs))"
    using assms(2) project_retime_node [OF i(1) refl k, of ?t] events_ok_retime [OF _ i(1), of ?t]
    by (simp add: projected_def retime_def)
  ultimately show ?thesis using append_projected assms(3) by (simp add: Let_def)
qed

lemma status_projected:
  assumes "projected (jr_rs r)" "he_Event ev = ''status''" "he_Node ev \<noteq> []"
  shows "projected (jr_rs (replay_status ev r))"
  using assms
  by (simp add: replay_status_def Let_def projected_def project_snoc events_ok_snoc state_of_def split: option.split)

lemma replay_event_projected:
  assumes "replay_ok r" "projected (jr_rs r)"
  shows "projected (jr_rs (replay_event ev r))"
  using assms status_projected move_projected append_projected by (simp add: replay_event_def)

lemma resume_projected:
  assumes "projected (base_state base)"
  shows "projected (fst (ResumeJournal decode base data))"
  unfolding ResumeJournal_events fst_conv
  by (rule journal.fold_invariant) (use load_ok assms replay_event_projected in \<open>simp_all add: newJournalReplay_eq\<close>)

lemma empty_projected: "projected (base_state None)" "projected (NewRunState now)"
  by (simp_all add: projected_def base_state_def normal_nodes_def zero_run_state_def NewRunState_def events_ok_def
      project_def fun_eq_iff)

lemma projected_base [simp]: "projected rs \<Longrightarrow> base_state (Some rs) = rs"
  by (simp add: base_state_def normal_nodes_def projected_def)

section \<open>SetStatus\<close>

lemma explicit_fun: "explicit = ValidStatus"
  by (simp add: fun_eq_iff explicit_def)

lemma SetStatus_Inr:
  assumes "SetStatus rs n to by now = Inr rs'"
  shows "\<exists>m ev. ValidStatus to \<and> rs_Nodes rs = Some m \<and> he_Event ev = ''status'' \<and> he_Node ev = n \<and> he_To ev = to \<and>
    he_ID ev \<noteq> [] \<and> he_StateFlags ev = None \<and>
    he_From ev = (case m n of Some st \<Rightarrow> if ValidStatus (ns_Status st) then ns_Status st else StatusReady | None \<Rightarrow> StatusReady) \<and>
    rs' = rs\<lparr>rs_Nodes := Some (m(n \<mapsto> state_of ev)), rs_History := rs_History rs @ [ev]\<rparr>"
proof -
  have v: "ValidStatus to" using assms by (simp add: SetStatus_def split: if_splits)
  then obtain m where m: "rs_Nodes rs = Some m"
    using assms by (cases "rs_Nodes rs") (simp_all add: SetStatus_def CanTransition_def Let_def)
  let ?from = "case m n of Some st \<Rightarrow> if ValidStatus (ns_Status st) then ns_Status st else StatusReady | None \<Rightarrow> StatusReady"
  let ?ev = "status_event (''ev-'' @ itoa_int (UnixNano now) @ ''-'' @ itoa (length (rs_History rs)))
    (format_rfc3339_utc now) n ?from to by"
  have "rs' = rs\<lparr>rs_Nodes := Some (m(n \<mapsto> state_of ?ev)), rs_History := rs_History rs @ [?ev]\<rparr>"
    using assms v m unfolding SetStatus_def explicit_fun
    by (simp add: CanTransition_def node_state_of_def Let_def state_of_def status_event_def)
  then show ?thesis by (intro exI [of _ m] exI [of _ ?ev]) (simp add: v m status_event_def)
qed

lemma SetStatus_projected:
  assumes "SetStatus rs n to by now = Inr rs'" "projected rs" "n \<noteq> []"
  shows "projected rs'"
  using SetStatus_Inr [OF assms(1)] assms(2,3)
  by (auto simp: projected_def project_snoc events_ok_snoc)

section \<open>Reachable states\<close>

text \<open>
  What the store does with a run state: it starts one, rebuilds it from a journal, resumes it
  from a checkpoint, or moves a node (node ids are not empty).
\<close>

inductive run_reachable :: "(string \<Rightarrow> 'e + history_event) \<Rightarrow> run_state \<Rightarrow> bool" for decode where
  new: "run_reachable decode (NewRunState now)"
| rebuild: "run_reachable decode (fst (StateFromJournalChecked decode data))"
| resume: "run_reachable decode rs \<Longrightarrow> run_reachable decode (fst (ResumeJournal decode (Some rs) data))"
| set_status: "run_reachable decode rs \<Longrightarrow> n \<noteq> [] \<Longrightarrow> SetStatus rs n to by now = Inr rs' \<Longrightarrow> run_reachable decode rs'"

lemma reachable_projected: "run_reachable decode rs \<Longrightarrow> projected rs"
proof (induction rule: run_reachable.induct)
  case (rebuild data)
  then show ?case using resume_projected [OF empty_projected(1)] by (simp add: StateFromJournalChecked_def)
next
  case (resume rs data)
  then show ?case using resume_projected [of "Some rs"] by simp
qed (use empty_projected SetStatus_projected in blast)+

lemma status_of_reachable:
  assumes "projected rs" "rs_Nodes rs = Some m" "m n = Some st"
  shows "ValidStatus (ns_Status st)"
  using assms project_valid by (auto simp: projected_def)

lemma replay_set_status:
  assumes "SetStatus rs n to by now = Inr rs'" "projected rs" "n \<noteq> []" "rs_StartedAt rs \<noteq> []"
  shows "jr_rs (replay_event (last (rs_History rs')) (newJournalReplay (Some rs))) = rs'"
proof -
  obtain m ev where ev: "ValidStatus to" "rs_Nodes rs = Some m" "he_Event ev = ''status''" "he_Node ev = n" "he_To ev = to"
      "he_ID ev \<noteq> []" "he_StateFlags ev = None"
      "he_From ev = (case m n of Some st \<Rightarrow> if ValidStatus (ns_Status st) then ns_Status st else StatusReady | None \<Rightarrow> StatusReady)"
      "rs' = rs\<lparr>rs_Nodes := Some (m(n \<mapsto> state_of ev)), rs_History := rs_History rs @ [ev]\<rparr>"
    using SetStatus_Inr [OF assms(1)] by blast
  have frm: "he_From ev = (case m n of Some st \<Rightarrow> ns_Status st | None \<Rightarrow> StatusReady)"
    using status_of_reachable [OF assms(2) ev(2), of n] unfolding ev(8) by (cases "m n") simp_all
  then have keep: "ev\<lparr>he_From := (case m n of Some st \<Rightarrow> ns_Status st | None \<Rightarrow> StatusReady)\<rparr> = ev" by simp
  have "replay_event ev (newJournalReplay (Some rs)) = replay_status ev (newJournalReplay (Some rs))"
    using ev assms(3) by (simp add: replay_event_def)
  moreover have "jr_rs (replay_status ev (newJournalReplay (Some rs))) = rs'"
    using ev(1,2,4,5,7,9) assms(2,4) keep
    by (simp add: replay_status_def newJournalReplay_eq node_state_of_def Let_def put_node_def state_of_def)
  ultimately show ?thesis using ev(9) by simp
qed

lemma one_line_events:
  assumes "decode line = Inr ev" "CHR 0x0A \<notin> set line" "trim_space line \<noteq> []"
  shows "journal_events decode (line @ [CHR 0x0A]) = ([ev], None)"
proof -
  have "split_on CHR 0x0A line = [line]" using assms(2) by (induction line) auto
  moreover have "has_suffix (line @ [CHR 0x0A]) [CHR 0x0A]" by (auto simp: has_suffix_snoc)
  ultimately show ?thesis using assms(1,3)
    by (simp add: journal_events_def split_on_snoc trim_space_def trim_left_space_def trim_right_space_def)
qed

section \<open>Properties\<close>

text \<open>
  C31. A checkpoint stands in for the journal prefix it covers: when a newline-terminated prefix replays without
  error to a state, resuming that state with the rest of the journal gives the same state as
  replaying everything in one pass, and reports the same error with its line number counted from the
  start of the rest. It holds for any base and any JSON decoder.
\<close>

theorem checkpoint_replaces_prefix:
  assumes "has_suffix d1 [CHR 0x0A]" "ResumeJournal decode base d1 = (rs1, None)"
  shows "ResumeJournal decode base (d1 @ d2) =
    (case ResumeJournal decode (Some rs1) d2 of
       (rs, err) \<Rightarrow> (rs, map_option (\<lambda>(line, e). (line + count_list d1 CHR 0x0A, e)) err))"
proof -
  obtain evs where evs: "journal_events decode d1 = (evs, None)"
    using assms(2) unfolding ResumeJournal_events by (metis prod.collapse snd_conv)
  then have "rs1 = jr_rs (fold replay_event evs (newJournalReplay base))"
    using assms(2) unfolding ResumeJournal_events by simp
  then show ?thesis
    unfolding ResumeJournal_events journal_events_append [OF assms(1) evs] fst_conv snd_conv prod.case
    using journal.resume_fold [of evs "fst (journal_events decode d2)" base] by simp
qed

theorem checkpoint_replaces_prefix_witness:
  "ResumeJournal (\<lambda>_. Inr (status_event ''e1'' ''t1'' ''n1'' StatusReady StatusDone ''me'') :: unit + history_event)
     None ((''x'' @ [CHR 0x0A]) @ ''y'') =
    (case ResumeJournal (\<lambda>_. Inr (status_event ''e1'' ''t1'' ''n1'' StatusReady StatusDone ''me''))
       (Some (fst (ResumeJournal (\<lambda>_. Inr (status_event ''e1'' ''t1'' ''n1'' StatusReady StatusDone ''me'') :: unit + history_event)
          None (''x'' @ [CHR 0x0A])))) ''y'' of
       (rs, err) \<Rightarrow> (rs, map_option (\<lambda>(line, e). (line + count_list (''x'' @ [CHR 0x0A]) CHR 0x0A, e)) err))"
proof (rule checkpoint_replaces_prefix)
  let ?dec = "\<lambda>_. Inr (status_event ''e1'' ''t1'' ''n1'' StatusReady StatusDone ''me'') :: unit + history_event"
  show "has_suffix (''x'' @ [CHR 0x0A]) [CHR 0x0A]" by code_simp
  have "trim_space ''x'' \<noteq> []" by code_simp
  then have "journal_events ?dec (''x'' @ [CHR 0x0A]) =
      ([status_event ''e1'' ''t1'' ''n1'' StatusReady StatusDone ''me''], None)"
    by (intro one_line_events) simp_all
  then show "ResumeJournal ?dec None (''x'' @ [CHR 0x0A]) = (fst (ResumeJournal ?dec None (''x'' @ [CHR 0x0A])), None)"
    by (simp add: ResumeJournal_events)
qed

text \<open>
  C33. In every reachable run state the stored node map is the projection of the history: a node has the status,
  time and author of its newest status event (moves included), it has an entry exactly when it has
  such an event, and every stored status is valid.
\<close>

theorem node_map_is_projection:
  assumes "run_reachable decode rs"
  shows "rs_Nodes rs = Some (project (rs_History rs)) \<and>
    (\<forall>n. case project (rs_History rs) n of None \<Rightarrow> True | Some st \<Rightarrow> ValidStatus (ns_Status st))"
  using reachable_projected [OF assms] project_valid by (auto simp: projected_def split: option.split)

theorem node_map_is_projection_witness:
  "rs_Nodes (NewRunState \<lparr>unix_sec = 0, unix_nsec = 0\<rparr>) = Some (project (rs_History (NewRunState \<lparr>unix_sec = 0, unix_nsec = 0\<rparr>))) \<and>
    (\<forall>n. case project (rs_History (NewRunState \<lparr>unix_sec = 0, unix_nsec = 0\<rparr>)) n of None \<Rightarrow> True | Some st \<Rightarrow> ValidStatus (ns_Status st))"
  by (rule node_map_is_projection [where decode = "\<lambda>_. Inl ()"]) (rule run_reachable.new)

text \<open>
  The journal reproduces \<^verbatim>\<open>SetStatus\<close>: in a reachable, stamped run state, appending the JSON line of the
  event that a successful \<^verbatim>\<open>SetStatus\<close> recorded and replaying that line over the old state gives exactly
  the new state. The codec is only assumed to read back what it wrote, on one non-blank line.
\<close>

theorem journal_reproduces_set_status:
  assumes "run_reachable decode rs" "rs_StartedAt rs \<noteq> []" "n \<noteq> []" "SetStatus rs n to by now = Inr rs'"
    and "encode (last (rs_History rs')) = Inr line" "decode line = Inr (last (rs_History rs'))"
    and "CHR 0x0A \<notin> set line" "trim_space line \<noteq> []"
  shows "\<exists>data. AppendJournalLine encode (last (rs_History rs')) = Inr data \<and> ResumeJournal decode (Some rs) data = (rs', None)"
proof (intro exI conjI)
  show "AppendJournalLine encode (last (rs_History rs')) = Inr (line @ [CHR 0x0A])"
    using assms(5) by (simp add: AppendJournalLine_def)
  show "ResumeJournal decode (Some rs) (line @ [CHR 0x0A]) = (rs', None)"
    unfolding ResumeJournal_events
      one_line_events [where decode = decode and line = line and ev = "last (rs_History rs')", OF assms(6-8)]
    using replay_set_status [OF assms(4) reachable_projected [OF assms(1)] assms(3,2)] by simp
qed

theorem journal_reproduces_set_status_witness:
  "\<exists>rs'. SetStatus (NewRunState \<lparr>unix_sec = 0, unix_nsec = 0\<rparr>) ''n1'' StatusDone ''me'' \<lparr>unix_sec = 5, unix_nsec = 0\<rparr> = Inr rs' \<and>
    (\<exists>data. AppendJournalLine (\<lambda>_. Inr ''{}'' :: unit + string) (last (rs_History rs')) = Inr data \<and>
      ResumeJournal (\<lambda>_. Inr (last (rs_History rs')) :: unit + history_event)
        (Some (NewRunState \<lparr>unix_sec = 0, unix_nsec = 0\<rparr>)) data = (rs', None))"
proof -
  let ?rs = "NewRunState \<lparr>unix_sec = 0, unix_nsec = 0\<rparr>" and ?now = "\<lparr>unix_sec = 5, unix_nsec = 0\<rparr>"
  have v: "ValidStatus StatusDone" by code_simp
  then obtain rs' where rs': "SetStatus ?rs ''n1'' StatusDone ''me'' ?now = Inr rs'"
    by (simp add: SetStatus_def CanTransition_def NewRunState_def Let_def)
  have "trim_space ''{}'' \<noteq> []" "rs_StartedAt ?rs \<noteq> []" by code_simp+
  then have "\<exists>data. AppendJournalLine (\<lambda>_. Inr ''{}'' :: unit + string) (last (rs_History rs')) = Inr data \<and>
      ResumeJournal (\<lambda>_. Inr (last (rs_History rs')) :: unit + history_event) (Some ?rs) data = (rs', None)"
    by (intro journal_reproduces_set_status [where line = "''{}''", OF run_reachable.new _ _ rs']) simp_all
  with rs' show ?thesis by blast
qed

text \<open>
  \<^verbatim>\<open>SetStatus\<close> refuses exactly the invalid target statuses (on a state with a node map); otherwise it changes
  the one node, keeps every other node and the flags, and appends one event that records the
  transition.
\<close>

theorem set_status_exact:
  assumes "rs_Nodes rs = Some m"
  shows "(SetStatus rs n to by now = Inl (InvalidStatus to)) = (\<not> ValidStatus to) \<and>
    (\<exists>rs' ev. SetStatus rs n to by now = Inr rs' \<and> rs_Nodes rs' = Some (m(n \<mapsto> state_of ev)) \<and>
       rs_History rs' = rs_History rs @ [ev] \<and> he_Node ev = n \<and> he_To ev = to \<and> he_By ev = by \<and>
       rs_Flags rs' = rs_Flags rs) = ValidStatus to"
  using assms by (auto simp: SetStatus_def CanTransition_def state_of_def status_event_def Let_def)

theorem set_status_exact_witness:
  "(SetStatus (zero_run_state\<lparr>rs_Nodes := Some Map.empty\<rparr>) ''n1'' ''locked'' ''me'' \<lparr>unix_sec = 0, unix_nsec = 0\<rparr> = Inl (InvalidStatus ''locked'')) =
    (\<not> ValidStatus ''locked'') \<and>
    (\<exists>rs' ev. SetStatus (zero_run_state\<lparr>rs_Nodes := Some Map.empty\<rparr>) ''n1'' ''locked'' ''me'' \<lparr>unix_sec = 0, unix_nsec = 0\<rparr> = Inr rs' \<and>
       rs_Nodes rs' = Some (Map.empty(''n1'' \<mapsto> state_of ev)) \<and>
       rs_History rs' = rs_History (zero_run_state\<lparr>rs_Nodes := Some Map.empty\<rparr>) @ [ev] \<and> he_Node ev = ''n1'' \<and>
       he_To ev = ''locked'' \<and> he_By ev = ''me'' \<and>
       rs_Flags rs' = rs_Flags (zero_run_state\<lparr>rs_Nodes := Some Map.empty\<rparr>)) = ValidStatus ''locked''"
  by (rule set_status_exact) simp

end
