(* ===== verification/Readiness.thy ===== *)
theory Readiness
  imports Node_Types Journal "HOL-Library.Product_Lexorder"
begin

text \<open>
  Statuses and readiness (\<^verbatim>\<open>internal/engine/ready.go\<close> and \<^verbatim>\<open>ComputeStatuses\<close> of
  \<^verbatim>\<open>internal/engine/state.go\<close>): which nodes are settled, which are blocked and by what, the derived
  completion of automatic nodes, and the ordered queue an agent is given.
\<close>

section \<open>Settled statuses\<close>

definition builtinSettled :: "status \<Rightarrow> bool" where
  "builtinSettled s \<longleftrightarrow> s = StatusDone \<or> s = StatusSkipped \<or> s = StatusDeprecated"

definition Settled :: "status \<Rightarrow> status_definition list \<Rightarrow> bool" where
  "Settled s defs =
     (if builtinSettled s then True
      else first_match (\<lambda>d. sd_ID d = s \<and> sd_Settled d) defs \<noteq> None)"

definition statusDefinitions :: "graph option \<Rightarrow> status_definition list" where
  "statusDefinitions g =
     (case g of
        None \<Rightarrow> []
      | Some g \<Rightarrow> (case graph_UI g of None \<Rightarrow> [] | Some ui \<Rightarrow> ui_CustomStatuses ui))"

section \<open>Logic gates\<close>

definition gateSatisfied :: "logic_gate \<Rightarrow> string boolmap \<Rightarrow> bool" where
  "gateSatisfied gate dn =
     (let n = length (inputs_of gate);
          completed = length (filter dn (inputs_of gate));
          op = gate_Operator gate
      in if op = ''must'' then n = 1 \<and> completed = 1
         else if op = ''and'' then n \<ge> 2 \<and> completed = n
         else if op = ''or'' then n \<ge> 2 \<and> completed \<ge> 1
         else if op = ''xor'' then n \<ge> 2 \<and> completed = 1
         else if op = ''nand'' then n \<ge> 2 \<and> completed < n
         else if op = ''nor'' then n \<ge> 2 \<and> completed = 0
         else False)"

definition dedupe :: "string list \<Rightarrow> string list" where
  "dedupe ids = (if length ids < 2 then ids else dedupe_from no_keys ids)"

definition gateBlockers :: "logic_gate \<Rightarrow> string boolmap \<Rightarrow> string list" where
  "gateBlockers gate dn =
     (if gateSatisfied gate dn then []
      else
        let inputs = dedupe (inputs_of gate);
            completed = filter dn inputs;
            pending = filter (\<lambda>i. \<not> dn i) inputs;
            op = gate_Operator gate
        in if op = ''xor'' \<and> length completed > 1 then completed
           else if (op = ''nand'' \<or> op = ''nor'') \<and> length completed > 0 then completed
           else if length pending > 0 then pending
           else inputs)"

definition readinessGates :: "graph option \<Rightarrow> (string \<rightharpoonup> logic_gate)" where
  "readinessGates g =
     (case g of
        None \<Rightarrow> Map.empty
      | Some g \<Rightarrow>
          (case graph_UI g of
             None \<Rightarrow> Map.empty
           | Some ui \<Rightarrow>
               fold (\<lambda>gate m.
                       if gate_Operator gate = ''optional'' \<or> gate_Operator gate = ''deprecated'' then m
                       else if gate_Output gate \<noteq> [] then m(gate_Output gate \<mapsto> gate) else m)
                 (ui_LogicGates ui) Map.empty))"

definition logicGateComplete :: "logic_gate \<Rightarrow> bool" where
  "logicGateComplete gate =
     (if gate_Operator gate = ''must'' then length (inputs_of gate) = 1 \<and> gate_Output gate \<noteq> []
      else if gate_Operator gate = ''and'' \<or> gate_Operator gate = ''or'' \<or> gate_Operator gate = ''xor'' \<or>
              gate_Operator gate = ''nand'' \<or> gate_Operator gate = ''nor''
      then length (inputs_of gate) \<ge> 2 \<and> gate_Output gate \<noteq> []
      else False)"

section \<open>Blocked nodes\<close>

definition statusOf :: "(string \<rightharpoonup> status) \<Rightarrow> string \<Rightarrow> status" where
  "statusOf statuses i = (case statuses i of Some s \<Rightarrow> s | None \<Rightarrow> StatusReady)"

definition requiresBlockers :: "expr option \<Rightarrow> string boolmap \<Rightarrow> string list" where
  "requiresBlockers e dn =
     (let refs = dedupe (NodeRefs e);
          completed = filter dn refs;
          pending = filter (\<lambda>i. \<not> dn i) refs;
          rest = (if length pending > 0 then pending else completed)
      in case e of
           Some (Unary _ _ _) \<Rightarrow> if length completed > 0 then completed else refs
         | Some (Binary op _ _ _) \<Rightarrow>
             if op = ''xor'' \<and> length completed > 1 then completed
             else if op = ''nand'' \<or> op = ''nor'' then (if length completed > 0 then completed else refs)
             else rest
         | _ \<Rightarrow> rest)"

text \<open>The first loop: the nodes that count as finished, and those that have no status.\<close>

definition mark_node :: "graph \<Rightarrow> (string \<rightharpoonup> status) \<Rightarrow> node \<Rightarrow> string boolmap \<times> string boolmap \<Rightarrow> string boolmap \<times> string boolmap" where
  "mark_node g statuses n m =
     (if nt_Completion (TypeOf (Some g) (Some n)) = CompletionNone
      then ((fst m)(node_ID n := True), (snd m)(node_ID n := True))
      else if Settled (statusOf statuses (node_ID n)) (statusDefinitions (Some g))
      then ((fst m)(node_ID n := True), snd m)
      else m)"

definition marks :: "graph \<Rightarrow> (string \<rightharpoonup> status) \<Rightarrow> string boolmap \<times> string boolmap" where
  "marks g statuses = fold (mark_node g statuses) (nodes_of g) (no_keys, no_keys)"

text \<open>The second loop: \<open>None\<close> for a node that is skipped or not blocked.\<close>

definition node_blockers :: "graph \<Rightarrow> (string \<rightharpoonup> status) \<Rightarrow> flags \<Rightarrow> node \<Rightarrow> string list option" where
  "node_blockers g statuses fl n =
     (let dn = fst (marks g statuses); noStatus = snd (marks g statuses); gates = readinessGates (Some g) in
      if noStatus (node_ID n) \<or> Settled (statusOf statuses (node_ID n)) (statusDefinitions (Some g)) then None
      else (case gates (node_ID n) of
              Some gate \<Rightarrow>
                if \<not> logicGateComplete gate then Some (gateBlockers gate dn)
                else (case RequiresExpr n of
                        Inl err \<Rightarrow> Some []
                      | Inr e \<Rightarrow> if \<not> Eval e \<lparr>Done = Some dn, Flags = fl\<rparr> then Some (requiresBlockers e dn) else None)
            | None \<Rightarrow>
                (case RequiresExpr n of
                   Inl err \<Rightarrow> Some []
                 | Inr e \<Rightarrow> if \<not> Eval e \<lparr>Done = Some dn, Flags = fl\<rparr> then Some (requiresBlockers e dn) else None)))"

definition blockedWithFlags :: "graph option \<Rightarrow> (string \<rightharpoonup> status) \<Rightarrow> flags \<Rightarrow> (string \<rightharpoonup> string list)" where
  "blockedWithFlags g statuses fl =
     (case g of
        None \<Rightarrow> Map.empty
      | Some g \<Rightarrow>
          fold (\<lambda>n m. case node_blockers g statuses fl n of Some bs \<Rightarrow> m(node_ID n \<mapsto> bs) | None \<Rightarrow> m)
            (nodes_of g) Map.empty)"

definition Blocked :: "graph option \<Rightarrow> (string \<rightharpoonup> status) \<Rightarrow> (string \<rightharpoonup> string list)" where
  "Blocked g statuses =
     blockedWithFlags g statuses (case g of None \<Rightarrow> Map.empty | Some g \<Rightarrow> graph_Flags g)"

section \<open>Derived statuses\<close>

text \<open>
  One pass over the pending automatic nodes: those still blocked stay pending, the others become
  done. The loop makes at most \<open>length auto + 1\<close> passes.
\<close>

fun derive_pass :: "(string \<rightharpoonup> string list) \<Rightarrow> string list \<Rightarrow> (string \<rightharpoonup> status) \<Rightarrow> string list \<times> (string \<rightharpoonup> status) \<times> bool" where
  "derive_pass blocked [] out = ([], out, False)"
| "derive_pass blocked (i # pending) out =
     (if blocked i \<noteq> None
      then (case derive_pass blocked pending out of (nxt, out', changed) \<Rightarrow> (i # nxt, out', changed))
      else (case derive_pass blocked pending (out(i \<mapsto> StatusDone)) of (nxt, out', _) \<Rightarrow> (nxt, out', True)))"

fun derive_loop :: "graph \<Rightarrow> flags \<Rightarrow> nat \<Rightarrow> string list \<Rightarrow> (string \<rightharpoonup> status) \<Rightarrow> (string \<rightharpoonup> status)" where
  "derive_loop g fl 0 pending out = out"
| "derive_loop g fl (Suc passes) pending out =
     (if length pending = 0 then out
      else (case derive_pass (blockedWithFlags (Some g) out fl) pending out of
              (nxt, out', changed) \<Rightarrow> if \<not> changed then out' else derive_loop g fl passes nxt out'))"

definition deriveAutoStatuses :: "graph \<Rightarrow> run_state option \<Rightarrow> (string \<rightharpoonup> status) \<Rightarrow> string list \<Rightarrow> (string \<rightharpoonup> status)" where
  "deriveAutoStatuses g rs out auto =
     (if length auto = 0 then out
      else derive_loop g (EffectiveFlags g rs) (length auto + 1) auto out)"

definition explicit_status :: "run_state option \<Rightarrow> string \<Rightarrow> status option" where
  "explicit_status rs i =
     (case rs of
        None \<Rightarrow> None
      | Some rs \<Rightarrow>
          (case node_state_of rs i of
             Some st \<Rightarrow> if explicit (ns_Status st) then Some (ns_Status st) else None
           | None \<Rightarrow> None))"

definition status_step :: "graph \<Rightarrow> run_state option \<Rightarrow> node \<Rightarrow> (string \<rightharpoonup> status) \<times> string list \<Rightarrow> (string \<rightharpoonup> status) \<times> string list" where
  "status_step g rs n acc =
     (case explicit_status rs (node_ID n) of
        Some s \<Rightarrow> ((fst acc)(node_ID n \<mapsto> s), snd acc)
      | None \<Rightarrow>
          ((fst acc)(node_ID n \<mapsto> StatusReady),
           if nt_Completion (TypeOf (Some g) (Some n)) = CompletionAuto then snd acc @ [node_ID n] else snd acc))"

definition ComputeStatuses :: "graph \<Rightarrow> run_state option \<Rightarrow> (string \<rightharpoonup> status)" where
  "ComputeStatuses g rs =
     (case fold (status_step g rs) (nodes_of g) (Map.empty, []) of
        (out, auto) \<Rightarrow> deriveAutoStatuses g rs out auto)"

section \<open>The queue\<close>

record ready_node =
  rn_ID :: string
  rn_Title :: string
  rn_Kind :: string
  rn_AgentMode :: string
  rn_Priority :: string
  rn_Assignee :: string
  rn_Deadline :: string
  rn_Tags :: "string list"
  rn_BlockedBy :: "string list"
  rn_Reason :: string
  rn_GateID :: string
  rn_GateOperator :: string

record readiness =
  rd_Ready :: "ready_node list"
  rd_Blocked :: "ready_node list"
  rd_Busy :: nat

definition priorityRank :: "string \<Rightarrow> nat" where
  "priorityRank priority =
     (let p = to_lower (trim_space priority)
      in if p = ''urgent'' then 0 else if p = ''high'' then 1 else if p = ''medium'' then 2
         else if p = ''low'' then 3 else 4)"

definition task_less :: "ready_node \<Rightarrow> ready_node \<Rightarrow> bool" where
  "task_less left right =
     (if priorityRank (rn_Priority left) \<noteq> priorityRank (rn_Priority right)
      then priorityRank (rn_Priority left) < priorityRank (rn_Priority right)
      else if rn_Deadline left \<noteq> rn_Deadline right then
        (if rn_Deadline left = [] then False
         else if rn_Deadline right = [] then True
         else rn_Deadline left < rn_Deadline right)
      else rn_ID left < rn_ID right)"

text \<open>\<^verbatim>\<open>sort.SliceStable\<close> as a stable insertion sort on the given order.\<close>

fun stable_insert :: "('a \<Rightarrow> 'a \<Rightarrow> bool) \<Rightarrow> 'a \<Rightarrow> 'a list \<Rightarrow> 'a list" where
  "stable_insert lt x [] = [x]"
| "stable_insert lt x (y # ys) = (if lt y x then y # stable_insert lt x ys else x # y # ys)"

definition SliceStable :: "('a \<Rightarrow> 'a \<Rightarrow> bool) \<Rightarrow> 'a list \<Rightarrow> 'a list" where
  "SliceStable lt xs = foldr (stable_insert lt) xs []"

definition sortTasks :: "ready_node list \<Rightarrow> ready_node list" where
  "sortTasks tasks = SliceStable task_less tasks"

definition ready_entry :: "graph \<Rightarrow> node \<Rightarrow> ready_node" where
  "ready_entry g n =
     \<lparr>rn_ID = node_ID n, rn_Title = node_Title n, rn_Kind = node_Kind n,
      rn_AgentMode = nt_AgentMode (TypeOf (Some g) (Some n)), rn_Priority = node_Priority n,
      rn_Assignee = node_Assignee n, rn_Deadline = node_Deadline n, rn_Tags = node_Tags n,
      rn_BlockedBy = [], rn_Reason = [], rn_GateID = [], rn_GateOperator = []\<rparr>"

definition blocked_entry :: "graph \<Rightarrow> node \<Rightarrow> string list \<Rightarrow> ready_node" where
  "blocked_entry g n waiting =
     (let entry = (ready_entry g n)\<lparr>rn_BlockedBy := waiting\<rparr>
      in case readinessGates (Some g) (node_ID n) of
           Some gate \<Rightarrow> entry\<lparr>rn_Reason := ''gate_condition'', rn_GateID := gate_ID gate,
                              rn_GateOperator := gate_Operator gate\<rparr>
         | None \<Rightarrow> if length waiting > 0 then entry\<lparr>rn_Reason := ''prerequisites''\<rparr>
                   else entry\<lparr>rn_Reason := ''requires''\<rparr>)"

definition tracked :: "graph \<Rightarrow> node \<Rightarrow> bool" where
  "tracked g n \<longleftrightarrow>
     \<not> (nt_Completion (TypeOf (Some g) (Some n)) = CompletionNone \<or>
        nt_Completion (TypeOf (Some g) (Some n)) = CompletionAuto)"

definition sort_node ::
  "graph \<Rightarrow> (string \<rightharpoonup> status) \<Rightarrow> (string \<rightharpoonup> string list) \<Rightarrow> node \<Rightarrow> readiness \<Rightarrow> readiness" where
  "sort_node g statuses blocked n result =
     (if \<not> tracked g n then result
      else if statusOf statuses (node_ID n) \<noteq> StatusReady then result\<lparr>rd_Busy := rd_Busy result + 1\<rparr>
      else (case blocked (node_ID n) of
              Some waiting \<Rightarrow> result\<lparr>rd_Blocked := rd_Blocked result @ [blocked_entry g n waiting]\<rparr>
            | None \<Rightarrow> result\<lparr>rd_Ready := rd_Ready result @ [ready_entry g n]\<rparr>))"

definition ComputeReadiness :: "graph option \<Rightarrow> run_state option \<Rightarrow> readiness" where
  "ComputeReadiness g rs =
     (case g of
        None \<Rightarrow> \<lparr>rd_Ready = [], rd_Blocked = [], rd_Busy = 0\<rparr>
      | Some g \<Rightarrow>
          let statuses = ComputeStatuses g rs;
              blocked = blockedWithFlags (Some g) statuses (EffectiveFlags g rs);
              result = fold (sort_node g statuses blocked) (nodes_of g) \<lparr>rd_Ready = [], rd_Blocked = [], rd_Busy = 0\<rparr>
          in result\<lparr>rd_Ready := sortTasks (rd_Ready result), rd_Blocked := sortTasks (rd_Blocked result)\<rparr>)"

section \<open>Sorting\<close>

text \<open>
  A comparator that compares keys: sorting with it is the library's stable sort by key, so the
  library's facts about order, permutation and uniqueness apply.
\<close>

locale key_comparator =
  fixes lt :: "'a \<Rightarrow> 'a \<Rightarrow> bool" and key :: "'a \<Rightarrow> 'k::linorder"
  assumes lt_key: "lt x y \<longleftrightarrow> key x < key y"
begin

lemma stable_insert_key: "stable_insert lt x ys = insort_key key x ys"
  by (induction ys) (auto simp: lt_key)

lemma SliceStable_key: "SliceStable lt xs = sort_key key xs"
  unfolding SliceStable_def sort_key_def by (induction xs) (simp_all add: stable_insert_key)

lemma sorted_result: "sorted (map key (SliceStable lt xs))"
  by (simp add: SliceStable_key)

lemma permuted_result: "mset (SliceStable lt xs) = mset xs"
  by (simp add: SliceStable_key)

lemma unique_result:
  assumes "mset xs = mset ys" "inj_on key (set xs)"
  shows "SliceStable lt xs = SliceStable lt ys"
  unfolding SliceStable_key
  by (rule sort_key_inj_key_eq) (use assms in auto)

end

text \<open>Rank, then nodes with a deadline before those without, then the deadline, then the id.\<close>

definition task_key :: "ready_node \<Rightarrow> nat \<times> bool \<times> string \<times> string" where
  "task_key t = (priorityRank (rn_Priority t), rn_Deadline t = [], rn_Deadline t, rn_ID t)"

interpretation tasks: key_comparator task_less task_key
proof
  fix x y
  show "task_less x y \<longleftrightarrow> task_key x < task_key y"
    by (auto simp: task_less_def task_key_def less_prod_def less_bool_def less_eq_prod_def split: if_splits)
qed

lemma sortTasks_mset: "mset (sortTasks ts) = mset ts"
  unfolding sortTasks_def by (rule tasks.permuted_result)

lemma set_sortTasks [simp]: "set (sortTasks ts) = set ts"
  using sortTasks_mset mset_eq_setD by blast

lemma length_sortTasks [simp]: "length (sortTasks ts) = length ts"
  using sortTasks_mset mset_eq_length by blast

section \<open>Marks and blocked nodes\<close>

lemma marks_fold:
  "fst (fold (mark_node g st) ns m) i \<longleftrightarrow> fst m i \<or>
     (\<exists>n\<in>set ns. node_ID n = i \<and> (nt_Completion (TypeOf (Some g) (Some n)) = CompletionNone \<or>
        Settled (statusOf st i) (statusDefinitions (Some g))))"
  "snd (fold (mark_node g st) ns m) i \<longleftrightarrow> snd m i \<or>
     (\<exists>n\<in>set ns. node_ID n = i \<and> nt_Completion (TypeOf (Some g) (Some n)) = CompletionNone)"
  by (induction ns arbitrary: m) (auto simp: mark_node_def)

lemma done_iff:
  "fst (marks g st) i \<longleftrightarrow> (\<exists>n\<in>set (nodes_of g). node_ID n = i \<and>
     (nt_Completion (TypeOf (Some g) (Some n)) = CompletionNone \<or> Settled (statusOf st i) (statusDefinitions (Some g))))"
  by (simp add: marks_def marks_fold)

lemma no_status_iff:
  "snd (marks g st) i \<longleftrightarrow> (\<exists>n\<in>set (nodes_of g). node_ID n = i \<and> nt_Completion (TypeOf (Some g) (Some n)) = CompletionNone)"
  by (simp add: marks_def marks_fold)

text \<open>The condition under which a node may be worked on.\<close>

definition condition_holds :: "graph \<Rightarrow> (string \<rightharpoonup> status) \<Rightarrow> flags \<Rightarrow> node \<Rightarrow> bool" where
  "condition_holds g st fl n \<longleftrightarrow>
     (case readinessGates (Some g) (node_ID n) of Some gate \<Rightarrow> logicGateComplete gate | None \<Rightarrow> True) \<and>
     (case RequiresExpr n of Inl _ \<Rightarrow> False | Inr e \<Rightarrow> Eval e \<lparr>Done = Some (fst (marks g st)), Flags = fl\<rparr>)"

lemma node_blockers_None:
  "node_blockers g st fl n = None \<longleftrightarrow>
     snd (marks g st) (node_ID n) \<or> Settled (statusOf st (node_ID n)) (statusDefinitions (Some g)) \<or> condition_holds g st fl n"
  unfolding node_blockers_def condition_holds_def Let_def by (simp split: option.split sum.split)

lemma blocked_fold:
  "fold (\<lambda>n m. case node_blockers g st fl n of Some bs \<Rightarrow> m(node_ID n \<mapsto> bs) | None \<Rightarrow> m) ns m i = None \<longleftrightarrow>
     m i = None \<and> (\<forall>n\<in>set ns. node_ID n = i \<longrightarrow> node_blockers g st fl n = None)"
  by (induction ns arbitrary: m) (auto split: option.splits)

lemma blocked_None:
  "blockedWithFlags (Some g) st fl i = None \<longleftrightarrow>
     snd (marks g st) i \<or> Settled (statusOf st i) (statusDefinitions (Some g)) \<or>
     (\<forall>n\<in>set (nodes_of g). node_ID n = i \<longrightarrow> condition_holds g st fl n)"
  by (auto simp: blockedWithFlags_def blocked_fold node_blockers_None)

section \<open>Derived statuses reach a fixed point\<close>

lemma derive_pass_eq:
  "derive_pass blocked pending out =
     (filter (\<lambda>i. blocked i \<noteq> None) pending,
      (\<lambda>i. if i \<in> set pending \<and> blocked i = None then Some StatusDone else out i),
      (\<exists>i\<in>set pending. blocked i = None))"
proof (induction pending arbitrary: out)
  case (Cons i pending)
  show ?case
  proof (cases "blocked i = None")
    case True
    then show ?thesis by (simp add: Cons) (auto intro!: ext)
  next
    case False
    then show ?thesis using Cons [of out] by (auto intro!: ext)
  qed
qed simp

lemma derive_loop_Suc:
  "derive_loop g fl (Suc passes) pending out =
     (let b = blockedWithFlags (Some g) out fl in
      if \<forall>i\<in>set pending. b i \<noteq> None then out
      else derive_loop g fl passes (filter (\<lambda>i. b i \<noteq> None) pending)
             (\<lambda>i. if i \<in> set pending \<and> b i = None then Some StatusDone else out i))"
  by (fastforce simp: derive_pass_eq Let_def fun_eq_iff)

declare derive_loop.simps(2) [simp del]

lemma derive_loop_keeps_done:
  "out i = Some StatusDone \<Longrightarrow> derive_loop g fl passes pending out i = Some StatusDone"
  by (induction passes arbitrary: pending out) (simp_all add: derive_loop_Suc Let_def)

text \<open>
  A node that is not done when the loop stops is still blocked under the statuses it leaves: the
  bound on the passes is never the reason to stop.
\<close>

lemma derive_loop_fixpoint:
  assumes "length pending < passes" "i \<in> set pending"
  shows "derive_loop g fl passes pending out i = Some StatusDone \<or>
    blockedWithFlags (Some g) (derive_loop g fl passes pending out) fl i \<noteq> None"
  using assms
proof (induction passes arbitrary: pending out)
  case (Suc passes)
  let ?b = "blockedWithFlags (Some g) out fl"
  let ?nxt = "filter (\<lambda>i. ?b i \<noteq> None) pending"
  let ?out = "\<lambda>i. if i \<in> set pending \<and> ?b i = None then Some StatusDone else out i"
  show ?case
  proof (cases "\<forall>i\<in>set pending. ?b i \<noteq> None")
    case True
    then show ?thesis using Suc.prems by (simp add: derive_loop_Suc Let_def)
  next
    case False
    then have loop: "derive_loop g fl (Suc passes) pending out = derive_loop g fl passes ?nxt ?out"
      by (auto simp: derive_loop_Suc Let_def)
    have "length ?nxt < length pending" using False by (auto intro: length_filter_less)
    then have shorter: "length ?nxt < passes" using Suc.prems by simp
    show ?thesis unfolding loop
    proof (cases "?b i = None")
      case False
      then have "i \<in> set ?nxt" using Suc.prems by simp
      then show "derive_loop g fl passes ?nxt ?out i = Some StatusDone \<or>
        blockedWithFlags (Some g) (derive_loop g fl passes ?nxt ?out) fl i \<noteq> None"
        by (rule Suc.IH [OF shorter])
    next
      case True
      then have "?out i = Some StatusDone" using Suc.prems by simp
      then show "derive_loop g fl passes ?nxt ?out i = Some StatusDone \<or>
        blockedWithFlags (Some g) (derive_loop g fl passes ?nxt ?out) fl i \<noteq> None"
        using derive_loop_keeps_done [of ?out i g fl passes ?nxt] by blast
    qed
  qed
qed simp

lemma derive_loop_frame:
  "derive_loop g fl passes pending out i = out i \<or> (i \<in> set pending \<and> derive_loop g fl passes pending out i = Some StatusDone)"
proof (induction passes arbitrary: pending out)
  case (Suc passes)
  let ?b = "blockedWithFlags (Some g) out fl"
  show ?case
    using Suc [of "filter (\<lambda>i. ?b i \<noteq> None) pending"
        "\<lambda>i. if i \<in> set pending \<and> ?b i = None then Some StatusDone else out i"]
    by (auto simp: derive_loop_Suc Let_def split: if_splits)
qed simp

section \<open>Statuses of nodes\<close>

lemma status_fold_out:
  "fst (fold (status_step g rs) ns acc) i =
     (if i \<in> node_ID ` set ns then Some (case explicit_status rs i of Some s \<Rightarrow> s | None \<Rightarrow> StatusReady) else fst acc i)"
  by (induction ns arbitrary: acc) (auto simp: status_step_def split: option.split)

lemma status_fold_auto:
  "set (snd (fold (status_step g rs) ns acc)) =
     set (snd acc) \<union> {node_ID n |n. n \<in> set ns \<and> explicit_status rs (node_ID n) = None \<and>
        nt_Completion (TypeOf (Some g) (Some n)) = CompletionAuto}"
  by (induction ns arbitrary: acc) (auto simp: status_step_def split: option.split)

definition derives_itself :: "graph \<Rightarrow> run_state option \<Rightarrow> string \<Rightarrow> bool" where
  "derives_itself g rs i \<longleftrightarrow> explicit_status rs i = None \<and>
     (\<exists>n. Some n \<in> set (graph_Nodes g) \<and> node_ID n = i \<and> nt_Completion (TypeOf (Some g) (Some n)) = CompletionAuto)"

lemma ComputeStatuses_cases:
  assumes "i \<in> node_ID ` set (nodes_of g)"
  shows "if derives_itself g rs i
    then ComputeStatuses g rs i = Some StatusDone \<or>
      (ComputeStatuses g rs i = Some StatusReady \<and>
       blockedWithFlags (Some g) (ComputeStatuses g rs) (EffectiveFlags g rs) i \<noteq> None)
    else ComputeStatuses g rs i = Some (case explicit_status rs i of Some s \<Rightarrow> s | None \<Rightarrow> StatusReady)"
proof -
  let ?acc = "fold (status_step g rs) (nodes_of g) (Map.empty, [])"
  have auto_iff: "i \<in> set (snd ?acc) \<longleftrightarrow> derives_itself g rs i"
    by (auto simp: status_fold_auto derives_itself_def set_nodes_of)
  have out: "fst ?acc i = Some (case explicit_status rs i of Some s \<Rightarrow> s | None \<Rightarrow> StatusReady)"
    using assms by (simp add: status_fold_out)
  have cs: "ComputeStatuses g rs = deriveAutoStatuses g rs (fst ?acc) (snd ?acc)"
    by (simp add: ComputeStatuses_def split: prod.split)
  show ?thesis
  proof (cases "derives_itself g rs i")
    case False
    then show ?thesis using out auto_iff derive_loop_frame [of g _ _ "snd ?acc" "fst ?acc" i]
      by (auto simp: cs deriveAutoStatuses_def)
  next
    case True
    then have "i \<in> set (snd ?acc)" "explicit_status rs i = None" using auto_iff by (simp_all add: derives_itself_def)
    then have loop: "ComputeStatuses g rs = derive_loop g (EffectiveFlags g rs) (length (snd ?acc) + 1) (snd ?acc) (fst ?acc)"
      by (auto simp: cs deriveAutoStatuses_def)
    have "ComputeStatuses g rs i = Some StatusDone \<or> blockedWithFlags (Some g) (ComputeStatuses g rs) (EffectiveFlags g rs) i \<noteq> None"
      unfolding loop by (rule derive_loop_fixpoint) (use \<open>i \<in> set (snd ?acc)\<close> in simp_all)
    moreover have "ComputeStatuses g rs i = Some StatusReady \<or> ComputeStatuses g rs i = Some StatusDone"
      using derive_loop_frame [of g "EffectiveFlags g rs" "length (snd ?acc) + 1" "snd ?acc" "fst ?acc" i]
        out \<open>explicit_status rs i = None\<close> by (auto simp: loop)
    ultimately show ?thesis using True by auto
  qed
qed

section \<open>The three bins\<close>

abbreviation is_busy :: "graph \<Rightarrow> (string \<rightharpoonup> status) \<Rightarrow> node \<Rightarrow> bool" where
  "is_busy g st n \<equiv> tracked g n \<and> statusOf st (node_ID n) \<noteq> StatusReady"

abbreviation is_ready :: "graph \<Rightarrow> (string \<rightharpoonup> status) \<Rightarrow> (string \<rightharpoonup> string list) \<Rightarrow> node \<Rightarrow> bool" where
  "is_ready g st blocked n \<equiv> tracked g n \<and> statusOf st (node_ID n) = StatusReady \<and> blocked (node_ID n) = None"

abbreviation is_blocked :: "graph \<Rightarrow> (string \<rightharpoonup> status) \<Rightarrow> (string \<rightharpoonup> string list) \<Rightarrow> node \<Rightarrow> bool" where
  "is_blocked g st blocked n \<equiv> tracked g n \<and> statusOf st (node_ID n) = StatusReady \<and> blocked (node_ID n) \<noteq> None"

lemma sort_fold:
  "rd_Ready (fold (sort_node g st b) ns r) = rd_Ready r @ map (ready_entry g) (filter (is_ready g st b) ns) \<and>
   rd_Blocked (fold (sort_node g st b) ns r) =
     rd_Blocked r @ map (\<lambda>n. blocked_entry g n (the (b (node_ID n)))) (filter (is_blocked g st b) ns) \<and>
   rd_Busy (fold (sort_node g st b) ns r) = rd_Busy r + length (filter (is_busy g st) ns)"
proof (induction ns arbitrary: r)
  case (Cons n ns)
  then show ?case
    by (cases "tracked g n"; cases "statusOf st (node_ID n) = StatusReady"; cases "b (node_ID n)")
       (simp_all add: sort_node_def)
qed simp

abbreviation final_blocked :: "graph \<Rightarrow> run_state option \<Rightarrow> (string \<rightharpoonup> string list)" where
  "final_blocked g rs \<equiv> blockedWithFlags (Some g) (ComputeStatuses g rs) (EffectiveFlags g rs)"

lemma ComputeReadiness_bins:
  "rd_Ready (ComputeReadiness (Some g) rs) =
     sortTasks (map (ready_entry g) (filter (is_ready g (ComputeStatuses g rs) (final_blocked g rs)) (nodes_of g)))"
  "rd_Blocked (ComputeReadiness (Some g) rs) =
     sortTasks (map (\<lambda>n. blocked_entry g n (the (final_blocked g rs (node_ID n))))
       (filter (is_blocked g (ComputeStatuses g rs) (final_blocked g rs)) (nodes_of g)))"
  "rd_Busy (ComputeReadiness (Some g) rs) = length (filter (is_busy g (ComputeStatuses g rs)) (nodes_of g))"
  by (simp_all add: ComputeReadiness_def Let_def sort_fold)

lemma three_bins:
  "length (filter (is_ready g st b) ns) + length (filter (is_blocked g st b) ns) + length (filter (is_busy g st) ns) =
     length (filter (tracked g) ns)"
  by (induction ns) auto

lemma unique_condition:
  assumes "distinct (map node_ID (nodes_of g))" "n \<in> set (nodes_of g)"
  shows "blockedWithFlags (Some g) st fl (node_ID n) = None \<longleftrightarrow>
    nt_Completion (TypeOf (Some g) (Some n)) = CompletionNone \<or>
    Settled (statusOf st (node_ID n)) (statusDefinitions (Some g)) \<or> condition_holds g st fl n"
proof -
  have "m = n" if "m \<in> set (nodes_of g)" "node_ID m = node_ID n" for m
    using assms that by (auto simp: distinct_map inj_on_def)
  then show ?thesis using assms(2) by (auto simp: blocked_None no_status_iff)
qed

section \<open>A small example\<close>

text \<open>Start, then task \<open>a\<close>, then task \<open>b\<close>: the witnesses below use this graph.\<close>

definition plain_node :: "string \<Rightarrow> string \<Rightarrow> string \<Rightarrow> node" where
  "plain_node i kind req =
     \<lparr>node_ID = i, node_Title = [], node_Kind = kind, node_Priority = [], node_Assignee = [], node_Deadline = [],
      node_WriteAccess = [], node_Requires = req, node_Tags = [], node_Effects = [], node_Links = [], node_Refs = [],
      node_Acceptance = None, node_Workflow = None\<rparr>"

lemma plain_node_ID [simp]: "node_ID (plain_node i kind req) = i"
  by (simp add: plain_node_def)

definition small_graph :: graph where
  "small_graph = empty_graph\<lparr>graph_Version := 1, graph_Nodes :=
     [Some (plain_node ''s'' ''start'' []), Some (plain_node ''a'' [] ''s''), Some (plain_node ''b'' [] ''a'')]\<rparr>"

lemma small_graph_nodes [simp]:
  "graph_Nodes small_graph = [Some (plain_node ''s'' ''start'' []), Some (plain_node ''a'' [] ''s''), Some (plain_node ''b'' [] ''a'')]"
  by (simp add: small_graph_def)

section \<open>Properties\<close>



text \<open>
  Every node that takes part in the flow is counted exactly once, as ready, blocked or busy; notes and
  automatic nodes are counted nowhere.
\<close>

theorem readiness_partition:
  "length (rd_Ready (ComputeReadiness (Some g) rs)) + length (rd_Blocked (ComputeReadiness (Some g) rs)) +
     rd_Busy (ComputeReadiness (Some g) rs) = length (filter (tracked g) (nodes_of g))"
  using three_bins [of g "ComputeStatuses g rs" "final_blocked g rs" "nodes_of g"]
  by (simp add: ComputeReadiness_bins)

text \<open>
  C29. In a graph with distinct node ids, the ready list is exactly the tracked nodes nobody has moved whose
  condition holds (no half-wired gate, a \<^verbatim>\<open>requires\<close> that parses and evaluates to true over the settled
  nodes and the effective flags), or whose project counts the untouched state itself as settled.
\<close>

theorem ready_list_exact:
  assumes "distinct (map node_ID (nodes_of g))"
  shows "r \<in> set (rd_Ready (ComputeReadiness (Some g) rs)) \<longleftrightarrow>
    (\<exists>n. Some n \<in> set (graph_Nodes g) \<and> r = ready_entry g n \<and> tracked g n \<and>
       statusOf (ComputeStatuses g rs) (node_ID n) = StatusReady \<and>
       (Settled StatusReady (statusDefinitions (Some g)) \<or>
        condition_holds g (ComputeStatuses g rs) (EffectiveFlags g rs) n))"
proof -
  have "r \<in> set (rd_Ready (ComputeReadiness (Some g) rs)) \<longleftrightarrow>
      (\<exists>n\<in>set (nodes_of g). r = ready_entry g n \<and> is_ready g (ComputeStatuses g rs) (final_blocked g rs) n)"
    by (auto simp: ComputeReadiness_bins)
  also have "\<dots> \<longleftrightarrow> (\<exists>n\<in>set (nodes_of g). r = ready_entry g n \<and> tracked g n \<and>
       statusOf (ComputeStatuses g rs) (node_ID n) = StatusReady \<and>
       (Settled StatusReady (statusDefinitions (Some g)) \<or>
        condition_holds g (ComputeStatuses g rs) (EffectiveFlags g rs) n))"
    using unique_condition [OF assms] by (auto simp: tracked_def)
  finally show ?thesis by (auto simp: set_nodes_of)
qed

theorem ready_list_exact_witness:
  "ready_entry small_graph (plain_node ''a'' [] ''s'') \<in> set (rd_Ready (ComputeReadiness (Some small_graph) None)) \<longleftrightarrow>
    (\<exists>n. Some n \<in> set (graph_Nodes small_graph) \<and>
       ready_entry small_graph (plain_node ''a'' [] ''s'') = ready_entry small_graph n \<and> tracked small_graph n \<and>
       statusOf (ComputeStatuses small_graph None) (node_ID n) = StatusReady \<and>
       (Settled StatusReady (statusDefinitions (Some small_graph)) \<or>
        condition_holds small_graph (ComputeStatuses small_graph None) (EffectiveFlags small_graph None) n))"
  by (rule ready_list_exact) code_simp

text \<open>
  The queue has a total order: it is sorted by priority, then deadline (no deadline last), then id, it is a
  permutation of its input, and two lists of the same tasks with distinct ids are sorted to the
  same list, whatever order the graph file has.
\<close>

theorem queue_order_total:
  assumes "mset ts = mset ts'" "distinct (map rn_ID ts)"
  shows "sorted (map task_key (sortTasks ts)) \<and> mset (sortTasks ts) = mset ts \<and> sortTasks ts = sortTasks ts'"
proof (intro conjI)
  have "inj_on task_key (set ts)"
    using assms(2) by (auto simp: inj_on_def task_key_def distinct_map)
  then show "sortTasks ts = sortTasks ts'" unfolding sortTasks_def by (rule tasks.unique_result [OF assms(1)])
qed (simp_all add: sortTasks_def tasks.sorted_result tasks.permuted_result)

theorem queue_order_total_witness:
  "let ts = map (ready_entry small_graph) [plain_node ''b'' [] [], plain_node ''a'' [] []] in
   sorted (map task_key (sortTasks ts)) \<and> mset (sortTasks ts) = mset ts \<and> sortTasks ts = sortTasks (rev ts)"
  unfolding Let_def by (rule queue_order_total) (simp_all add: ready_entry_def plain_node_def add_mset_commute)

text \<open>
  Explaining a block: for a false condition made of references, \<^verbatim>\<open>and\<close> and \<^verbatim>\<open>or\<close>, the reported blockers are
  exactly the unfinished nodes the expression names, and there is at least one.
\<close>

theorem blockers_are_unfinished:
  assumes "positive e" "flags_of e = {}" "\<not> Eval (Some e) \<lparr>Done = Some dn, Flags = fl\<rparr>"
  shows "set (requiresBlockers (Some e) dn) = {i \<in> refs_of e. \<not> dn i} \<and> requiresBlockers (Some e) dn \<noteq> []"
proof -
  obtain i where i: "i \<in> refs_of e" "\<not> dn i" using Eval_positive_all_done [OF assms(1,2), of dn fl] assms(3) by auto
  have dd: "set (dedupe (NodeRefs (Some e))) = refs_of e"
    by (auto simp: dedupe_def set_dedupe_from)
  then have "filter (\<lambda>i. \<not> dn i) (dedupe (NodeRefs (Some e))) \<noteq> []"
    using i by (auto simp: filter_empty_conv)
  then have "requiresBlockers (Some e) dn = filter (\<lambda>i. \<not> dn i) (dedupe (NodeRefs (Some e)))"
    using assms(1) by (cases e) (auto simp: requiresBlockers_def Let_def)
  with dd i show ?thesis by (auto simp: filter_empty_conv)
qed

theorem blockers_are_unfinished_witness:
  "set (requiresBlockers (Some (Binary ''and'' (NodeRef ''a'' 0) (NodeRef ''b'' 6) 2)) (\<lambda>i. i = ''a'')) =
     {i \<in> refs_of (Binary ''and'' (NodeRef ''a'' 0) (NodeRef ''b'' 6) 2). \<not> (i = ''a'')} \<and>
   requiresBlockers (Some (Binary ''and'' (NodeRef ''a'' 0) (NodeRef ''b'' 6) 2)) (\<lambda>i. i = ''a'') \<noteq> []"
  by (rule blockers_are_unfinished [where fl = Map.empty]) simp_all

end
