(* ===== verification/Cycles.thy ===== *)
theory Cycles
  imports Prelude
begin

text \<open>
  Cycle detection (\<^verbatim>\<open>findCycles\<close> of \<^verbatim>\<open>internal/engine/validate.go\<close>): a depth-first search with
  white, gray and black nodes that reports the stack from the repeated node on. The recursion depth
  is bounded by the number of white nodes, so the search is written with that bound as fuel and
  \<open>find_cycles_total\<close> shows that the bound is never hit.
\<close>

section \<open>The search\<close>

datatype color = White | Gray | Black

record dfs =
  dfs_color :: "string \<Rightarrow> color"
  dfs_stack :: "string list"
  dfs_cycles :: "string list list"

text \<open>The loop that searches the stack downwards for the repeated node.\<close>

fun find_back :: "string list \<Rightarrow> string \<Rightarrow> nat \<Rightarrow> nat option" where
  "find_back st x 0 = None"
| "find_back st x (Suc i) = (if st ! i = x then Some i else find_back st x i)"

definition report :: "string \<Rightarrow> dfs \<Rightarrow> dfs" where
  "report x s =
     (case find_back (dfs_stack s) x (length (dfs_stack s)) of
        None \<Rightarrow> s
      | Some i \<Rightarrow> s\<lparr>dfs_cycles := dfs_cycles s @ [drop i (dfs_stack s)]\<rparr>)"

function visit :: "(string \<Rightarrow> string list) \<Rightarrow> nat \<Rightarrow> string \<Rightarrow> dfs \<Rightarrow> dfs option"
  and visit_deps :: "(string \<Rightarrow> string list) \<Rightarrow> nat \<Rightarrow> string list \<Rightarrow> dfs \<Rightarrow> dfs option" where
  "visit deps 0 i s = None"
| "visit deps (Suc k) i s =
     (case visit_deps deps k (deps i)
             (s\<lparr>dfs_color := (dfs_color s)(i := Gray), dfs_stack := dfs_stack s @ [i]\<rparr>) of
        None \<Rightarrow> None
      | Some t \<Rightarrow> Some (t\<lparr>dfs_stack := butlast (dfs_stack t), dfs_color := (dfs_color t)(i := Black)\<rparr>))"
| "visit_deps deps k [] s = Some s"
| "visit_deps deps k (x # xs) s =
     (if dfs_color s x = White
      then (case visit deps k x s of None \<Rightarrow> None | Some t \<Rightarrow> visit_deps deps k xs t)
      else if dfs_color s x = Gray then visit_deps deps k xs (report x s)
      else visit_deps deps k xs s)"
  by pat_completeness auto

termination
  by (relation "measures [case_sum (\<lambda>(d, k, i, s). 2 * k) (\<lambda>(d, k, xs, s). 2 * k + 1),
        case_sum (\<lambda>(d, k, i, s). 0) (\<lambda>(d, k, xs, s). length xs)]") auto

fun visit_all :: "(string \<Rightarrow> string list) \<Rightarrow> nat \<Rightarrow> string list \<Rightarrow> dfs \<Rightarrow> dfs option" where
  "visit_all deps k [] s = Some s"
| "visit_all deps k (i # is) s =
     (if dfs_color s i = White
      then (case visit deps k i s of None \<Rightarrow> None | Some t \<Rightarrow> visit_all deps k is t)
      else visit_all deps k is s)"

definition deps_at :: "(string, string list) gomap \<Rightarrow> string \<Rightarrow> string list" where
  "deps_at deps i = (case map_of deps i of Some xs \<Rightarrow> xs | None \<Rightarrow> [])"

definition all_names :: "(string, string list) gomap \<Rightarrow> string list" where
  "all_names deps = concat (map (\<lambda>(i, xs). i # xs) deps)"

definition find_cycles :: "(string, string list) gomap \<Rightarrow> string list list option" where
  "find_cycles deps =
     map_option dfs_cycles
       (visit_all (deps_at deps) (length (all_names deps)) (sort (map fst deps))
          \<lparr>dfs_color = (\<lambda>_. White), dfs_stack = [], dfs_cycles = []\<rparr>)"

definition findCycles :: "(string, string list) gomap \<Rightarrow> string list list" where
  "findCycles deps = the (find_cycles deps)"

definition joinCycle :: "string list \<Rightarrow> string" where
  "joinCycle cycle = concat (map (\<lambda>i. i @ '' -> '') cycle) @ hd cycle"

section \<open>How colours, stack and reports evolve\<close>

text \<open>Every call keeps the stack, extends the reports, and turns white nodes black and nothing else.\<close>

definition evolves :: "dfs \<Rightarrow> dfs \<Rightarrow> bool" where
  "evolves s t \<longleftrightarrow> dfs_stack t = dfs_stack s \<and> (\<exists>cs. dfs_cycles t = dfs_cycles s @ cs) \<and>
     (\<forall>x. if dfs_color s x = White then dfs_color t x \<noteq> Gray else dfs_color t x = dfs_color s x)"

lemma evolves_refl [simp]: "evolves s s"
  by (simp add: evolves_def)

lemma evolves_trans:
  assumes "evolves s t" "evolves t u"
  shows "evolves s u"
proof -
  have "\<exists>cs. dfs_cycles u = dfs_cycles s @ cs" using assms by (auto simp: evolves_def)
  moreover have "if dfs_color s x = White then dfs_color u x \<noteq> Gray else dfs_color u x = dfs_color s x" for x
    using assms unfolding evolves_def by (metis (full_types))
  ultimately show ?thesis using assms by (simp add: evolves_def)
qed

lemma evolves_black: "evolves s t \<Longrightarrow> dfs_color s x = Black \<Longrightarrow> dfs_color t x = Black"
  unfolding evolves_def by (metis color.distinct(3))

lemma evolves_gray: "evolves s t \<Longrightarrow> dfs_color t x = Gray \<longleftrightarrow> dfs_color s x = Gray"
  unfolding evolves_def by (metis (full_types) color.distinct(1))

lemma evolves_report [simp]: "evolves s (report x s)"
  by (auto simp: evolves_def report_def split: option.split)

lemma visit_evolves:
  "visit d k i s = Some t \<Longrightarrow> dfs_color s i = White \<Longrightarrow> evolves s t \<and> dfs_color t i = Black"
  "visit_deps d k xs s = Some t \<Longrightarrow> evolves s t \<and> (\<forall>x\<in>set xs. dfs_color t x \<noteq> White)"
proof (induction d k i s and d k xs s arbitrary: t and t rule: visit_visit_deps.induct)
  case (2 d k i s)
  let ?s = "s\<lparr>dfs_color := (dfs_color s)(i := Gray), dfs_stack := dfs_stack s @ [i]\<rparr>"
  obtain u where u: "visit_deps d k (d i) ?s = Some u"
      "t = u\<lparr>dfs_stack := butlast (dfs_stack u), dfs_color := (dfs_color u)(i := Black)\<rparr>"
    using "2.prems" by (auto split: option.splits)
  then have "evolves ?s u" using 2 by blast
  then have "dfs_stack u = dfs_stack s @ [i]" "\<exists>cs. dfs_cycles u = dfs_cycles s @ cs"
    "if dfs_color s x = White then dfs_color u x \<noteq> Gray else dfs_color u x = dfs_color s x" if "x \<noteq> i" for x
    using that by (auto simp: evolves_def split: if_splits)
  then show ?case using u(2) "2.prems"(2) \<open>evolves ?s u\<close> by (auto simp: evolves_def)
next
  case (4 d k x xs s)
  consider "dfs_color s x = White" | "dfs_color s x = Gray" | "dfs_color s x \<noteq> White" "dfs_color s x \<noteq> Gray" by blast
  then show ?case
  proof cases
    case 1
    then obtain u where u: "visit d k x s = Some u" "visit_deps d k xs u = Some t"
      using "4.prems" by (auto split: option.splits)
    have su: "evolves s u" "dfs_color u x = Black" using "4.IH"(1) [OF 1 u(1) 1] by blast+
    have ut: "evolves u t" "\<forall>y\<in>set xs. dfs_color t y \<noteq> White" using "4.IH"(2) [OF 1 u] by blast+
    then have "dfs_color t x = Black" using su(2) evolves_black by blast
    then show ?thesis using evolves_trans [OF su(1) ut(1)] ut(2) by simp
  next
    case 2
    then have "visit_deps d k xs (report x s) = Some t" using "4.prems" by simp
    with 2 "4.IH"(3) have ut: "evolves (report x s) t" "\<forall>y\<in>set xs. dfs_color t y \<noteq> White" by auto
    then have "evolves s t" using evolves_trans evolves_report by blast
    then show ?thesis using ut(2) 2 by (auto simp: evolves_def)
  next
    case 3
    then have "visit_deps d k xs s = Some t" using "4.prems" by simp
    with 3 "4.IH"(4) have ut: "evolves s t" "\<forall>y\<in>set xs. dfs_color t y \<noteq> White" by auto
    then show ?thesis using 3 by (auto simp: evolves_def)
  qed
qed simp_all

section \<open>The fuel is enough\<close>

definition whites :: "string set \<Rightarrow> dfs \<Rightarrow> string set" where
  "whites U s = {x \<in> U. dfs_color s x = White}"

lemma whites_evolve: "evolves s t \<Longrightarrow> whites U t \<subseteq> whites U s"
  unfolding whites_def evolves_def by (auto split: if_splits)

lemma card_whites_evolve: "finite U \<Longrightarrow> evolves s t \<Longrightarrow> card (whites U t) \<le> card (whites U s)"
  using whites_evolve by (intro card_mono) (auto simp: whites_def)

lemma visit_total:
  assumes "finite U" "\<And>x. x \<in> U \<Longrightarrow> set (d x) \<subseteq> U"
  shows "i \<in> U \<Longrightarrow> dfs_color s i = White \<Longrightarrow> card (whites U s) \<le> k \<Longrightarrow> visit d k i s \<noteq> None"
    and "set xs \<subseteq> U \<Longrightarrow> card (whites U s) \<le> k \<Longrightarrow> visit_deps d k xs s \<noteq> None"
  using assms(2)
proof (induction d k i s and d k xs s rule: visit_visit_deps.induct)
  case (1 d i s)
  then have "i \<in> whites U s" by (simp add: whites_def)
  moreover have "finite (whites U s)" using assms(1) by (simp add: whites_def)
  ultimately show ?case using 1 by auto
next
  case (2 d k i s)
  let ?s = "s\<lparr>dfs_color := (dfs_color s)(i := Gray), dfs_stack := dfs_stack s @ [i]\<rparr>"
  have "whites U ?s = whites U s - {i}" "i \<in> whites U s" using "2.prems" by (auto simp: whites_def)
  moreover have "finite (whites U s)" using assms(1) by (simp add: whites_def)
  ultimately have "card (whites U ?s) \<le> k" using "2.prems"(3) by (simp add: card_Diff_singleton)
  then have "visit_deps d k (d i) ?s \<noteq> None" using 2 by blast
  then show ?case by auto
next
  case (4 d k x xs s)
  consider "dfs_color s x = White" | "dfs_color s x = Gray" | "dfs_color s x = Black" by (cases "dfs_color s x") auto
  then show ?case
  proof cases
    case 1
    then obtain u where u: "visit d k x s = Some u" using 4 by auto
    then have "card (whites U u) \<le> k"
      using card_whites_evolve [OF assms(1)] visit_evolves(1) [OF u 1] "4.prems"(2) by (meson le_trans)
    then show ?thesis using "4.IH"(2) [OF 1 u] "4.prems" 1 u by simp
  next
    case 2
    have "card (whites U (report x s)) \<le> k"
      using card_whites_evolve [OF assms(1) evolves_report] "4.prems"(2) by (meson le_trans)
    then show ?thesis using "4.IH"(3) "4.prems" 2 by simp
  next
    case 3
    then show ?thesis using "4.IH"(4) "4.prems" by simp
  qed
qed simp_all

lemma visit_all_total:
  assumes "finite U" "\<And>x. x \<in> U \<Longrightarrow> set (d x) \<subseteq> U" "set is \<subseteq> U" "card (whites U s) \<le> k"
  shows "visit_all d k is s \<noteq> None"
  using assms(3,4)
proof (induction "is" arbitrary: s)
  case (Cons i "is")
  show ?case
  proof (cases "dfs_color s i = White")
    case True
    then obtain t where t: "visit d k i s = Some t" using visit_total(1) [OF assms(1), of d i s k] assms(2) Cons.prems by auto
    then have "card (whites U t) \<le> k"
      using card_whites_evolve [OF assms(1)] visit_evolves(1) [OF t True] Cons.prems(2) by (meson le_trans)
    then show ?thesis using Cons t True by simp
  qed (use Cons in simp)
qed simp

lemma deps_closed: "x \<in> set (all_names deps) \<Longrightarrow> set (deps_at deps x) \<subseteq> set (all_names deps)"
proof (cases "map_of deps x")
  case (Some xs)
  then have "(x, xs) \<in> set deps" by (rule map_of_SomeD)
  then show ?thesis using Some by (force simp: deps_at_def all_names_def)
qed (simp add: deps_at_def)

lemma find_cycles_total: "find_cycles deps \<noteq> None"
proof -
  have "visit_all (deps_at deps) (length (all_names deps)) (sort (map fst deps))
      \<lparr>dfs_color = (\<lambda>_. White), dfs_stack = [], dfs_cycles = []\<rparr> \<noteq> None"
  proof (rule visit_all_total [where U = "set (all_names deps)"])
    show "set (sort (map fst deps)) \<subseteq> set (all_names deps)" by (auto simp: all_names_def)
    show "card (whites (set (all_names deps)) \<lparr>dfs_color = (\<lambda>_. White), dfs_stack = [], dfs_cycles = []\<rparr>)
        \<le> length (all_names deps)"
      by (simp add: whites_def card_length)
  qed (use deps_closed in auto)
  then show ?thesis by (simp add: find_cycles_def)
qed

section \<open>Every report is a cycle\<close>

definition edges :: "(string \<Rightarrow> string list) \<Rightarrow> (string \<times> string) set" where
  "edges d = {(x, y). y \<in> set (d x)}"

text \<open>Each node of the list depends on the next one, the last on the first.\<close>

definition is_cycle :: "(string \<Rightarrow> string list) \<Rightarrow> string list \<Rightarrow> bool" where
  "is_cycle d c \<longleftrightarrow> c \<noteq> [] \<and> successively (\<lambda>x y. y \<in> set (d x)) c \<and> hd c \<in> set (d (last c))"

definition stack_ok :: "(string \<Rightarrow> string list) \<Rightarrow> dfs \<Rightarrow> bool" where
  "stack_ok d s \<longleftrightarrow> successively (\<lambda>x y. y \<in> set (d x)) (dfs_stack s) \<and>
     (\<forall>x. dfs_color s x = Gray \<longleftrightarrow> x \<in> set (dfs_stack s)) \<and> list_all (is_cycle d) (dfs_cycles s)"

lemma find_back_Some: "find_back st x n = Some i \<Longrightarrow> i < n \<and> st ! i = x"
  by (induction n) (auto split: if_splits)

lemma find_back_None: "find_back st x n = None \<Longrightarrow> j < n \<Longrightarrow> st ! j \<noteq> x"
  by (induction n) (auto split: if_splits simp: less_Suc_eq)

lemma successively_drop: "successively P xs \<Longrightarrow> successively P (drop i xs)"
  by (metis append_take_drop_id successively_append_iff)

lemma report_ok:
  assumes "stack_ok d s" "dfs_stack s \<noteq> []" "x \<in> set (d (last (dfs_stack s)))" "dfs_color s x = Gray"
  shows "stack_ok d (report x s) \<and> dfs_cycles (report x s) \<noteq> []"
proof -
  have "x \<in> set (dfs_stack s)" using assms(1,4) by (simp add: stack_ok_def)
  then obtain i where i: "find_back (dfs_stack s) x (length (dfs_stack s)) = Some i"
    using find_back_None by (metis in_set_conv_nth option.exhaust)
  then have "i < length (dfs_stack s)" "dfs_stack s ! i = x" using find_back_Some by blast+
  then have "is_cycle d (drop i (dfs_stack s))"
    using assms successively_drop by (auto simp: is_cycle_def stack_ok_def hd_drop_conv_nth)
  then show ?thesis using assms(1) i by (simp add: report_def stack_ok_def)
qed

lemma visit_sound:
  "visit d k i s = Some t \<Longrightarrow> stack_ok d s \<Longrightarrow> dfs_color s i = White \<Longrightarrow>
     (dfs_stack s \<noteq> [] \<Longrightarrow> i \<in> set (d (last (dfs_stack s)))) \<Longrightarrow> stack_ok d t"
  "visit_deps d k xs s = Some t \<Longrightarrow> stack_ok d s \<Longrightarrow> dfs_stack s \<noteq> [] \<Longrightarrow>
     set xs \<subseteq> set (d (last (dfs_stack s))) \<Longrightarrow> stack_ok d t"
proof (induction d k i s and d k xs s arbitrary: t and t rule: visit_visit_deps.induct)
  case (2 d k i s)
  let ?s = "s\<lparr>dfs_color := (dfs_color s)(i := Gray), dfs_stack := dfs_stack s @ [i]\<rparr>"
  obtain u where u: "visit_deps d k (d i) ?s = Some u"
      "t = u\<lparr>dfs_stack := butlast (dfs_stack u), dfs_color := (dfs_color u)(i := Black)\<rparr>"
    using "2.prems"(1) by (auto split: option.splits)
  have "dfs_color s i = Gray \<longleftrightarrow> i \<in> set (dfs_stack s)" using "2.prems"(2) by (simp add: stack_ok_def)
  then have "i \<notin> set (dfs_stack s)" using "2.prems"(3) by simp
  moreover have "stack_ok d ?s"
    using "2.prems"(2-4) by (auto simp: stack_ok_def successively_append_iff)
  then have "stack_ok d u" using "2.IH" [OF u(1)] by simp
  moreover have "dfs_stack u = dfs_stack s @ [i]" using visit_evolves(2) [OF u(1)] by (simp add: evolves_def)
  ultimately show ?case using u(2) by (auto simp: stack_ok_def successively_append_iff)
next
  case (4 d k x xs s)
  consider "dfs_color s x = White" | "dfs_color s x = Gray" | "dfs_color s x = Black" by (cases "dfs_color s x") auto
  then show ?case
  proof cases
    case 1
    then obtain u where u: "visit d k x s = Some u" "visit_deps d k xs u = Some t"
      using "4.prems"(1) by (auto split: option.splits)
    have "dfs_stack u = dfs_stack s" using visit_evolves(1) [OF u(1) 1] by (simp add: evolves_def)
    then show ?thesis using "4.IH"(1) [OF 1 u(1)] "4.IH"(2) [OF 1 u] "4.prems" 1 by simp
  next
    case 2
    have "dfs_stack (report x s) = dfs_stack s" using evolves_report by (simp add: evolves_def)
    then show ?thesis using "4.IH"(3) "4.prems" 2 report_ok [of d s x] by simp
  next
    case 3
    then show ?thesis using "4.IH"(4) "4.prems" by simp
  qed
qed simp_all

section \<open>No report means no cycle\<close>

text \<open>The black nodes are closed under dependencies and carry no cycle.\<close>

definition black_ok :: "(string \<Rightarrow> string list) \<Rightarrow> dfs \<Rightarrow> bool" where
  "black_ok d s \<longleftrightarrow> (\<forall>x. dfs_color s x = Black \<longrightarrow> (\<forall>y\<in>set (d x). dfs_color s y = Black)) \<and>
     acyclic {(x, y) \<in> edges d. dfs_color s x = Black}"

lemma acyclic_add_source:
  assumes "acyclic r" "\<And>x y. (x, y) \<in> r \<Longrightarrow> y \<noteq> i" "i \<notin> A"
  shows "acyclic (r \<union> {i} \<times> A)"
proof -
  let ?R = "r \<union> {i} \<times> A"
  have target: "y \<noteq> i" if "(x, y) \<in> ?R\<^sup>+" for x y
    using that assms(2,3) by (induction rule: trancl_induct) auto
  have source: "x \<noteq> i \<longrightarrow> (x, y) \<in> r\<^sup>+" if "(x, y) \<in> ?R\<^sup>+" for x y
    using that
  proof (induction rule: trancl_induct)
    case (step y z)
    then have "y \<noteq> i" using target by blast
    then show ?case using step by (auto intro: trancl_into_trancl)
  qed auto
  show ?thesis unfolding acyclic_def
  proof (intro allI notI)
    fix x assume c: "(x, x) \<in> ?R\<^sup>+"
    then show False using target [OF c] source [OF c] assms(1) by (simp add: acyclic_def)
  qed
qed

lemma black_ok_finish:
  assumes "black_ok d u" "dfs_color u i = Gray" "\<forall>y\<in>set (d i). dfs_color u y = Black"
  shows "black_ok d (u\<lparr>dfs_color := (dfs_color u)(i := Black)\<rparr>)"
proof -
  let ?r = "{(x, y) \<in> edges d. dfs_color u x = Black}"
  have "{(x, y) \<in> edges d. ((dfs_color u)(i := Black)) x = Black} = ?r \<union> {i} \<times> set (d i)"
    using assms(2) by (auto simp: edges_def split: if_splits)
  moreover have "acyclic (?r \<union> {i} \<times> set (d i))"
    by (rule acyclic_add_source) (use assms in \<open>auto simp: black_ok_def edges_def\<close>)
  ultimately show ?thesis using assms by (simp add: black_ok_def)
qed

lemma black_ok_stack [simp]: "black_ok d (s\<lparr>dfs_stack := st\<rparr>) = black_ok d s"
  by (simp add: black_ok_def)

lemma visit_complete:
  "visit d k i s = Some t \<Longrightarrow> dfs_color s i = White \<Longrightarrow> stack_ok d s \<Longrightarrow> black_ok d s \<Longrightarrow>
     (dfs_stack s \<noteq> [] \<Longrightarrow> i \<in> set (d (last (dfs_stack s)))) \<Longrightarrow> dfs_cycles t = [] \<Longrightarrow> black_ok d t"
  "visit_deps d k xs s = Some t \<Longrightarrow> stack_ok d s \<Longrightarrow> dfs_stack s \<noteq> [] \<Longrightarrow> set xs \<subseteq> set (d (last (dfs_stack s))) \<Longrightarrow>
     black_ok d s \<Longrightarrow> dfs_cycles t = [] \<Longrightarrow> black_ok d t \<and> (\<forall>x\<in>set xs. dfs_color t x = Black)"
proof (induction d k i s and d k xs s arbitrary: t and t rule: visit_visit_deps.induct)
  case (2 d k i s)
  let ?s = "s\<lparr>dfs_color := (dfs_color s)(i := Gray), dfs_stack := dfs_stack s @ [i]\<rparr>"
  obtain u where u: "visit_deps d k (d i) ?s = Some u"
      "t = u\<lparr>dfs_stack := butlast (dfs_stack u), dfs_color := (dfs_color u)(i := Black)\<rparr>"
    using "2.prems"(1) by (auto split: option.splits)
  have "stack_ok d ?s" using "2.prems"(2,3,5) by (auto simp: stack_ok_def successively_append_iff)
  moreover have "black_ok d ?s"
  proof -
    have "(((dfs_color s)(i := Gray)) x = Black) = (dfs_color s x = Black)" for x using "2.prems"(2) by auto
    then show ?thesis using "2.prems"(4) by (simp add: black_ok_def)
  qed
  ultimately have ok: "black_ok d u" "\<forall>x\<in>set (d i). dfs_color u x = Black"
    using "2.IH" [OF u(1)] u(2) "2.prems"(6) by simp_all
  have "dfs_color u i = Gray" using evolves_gray visit_evolves(2) [OF u(1)] by fastforce
  with ok have "black_ok d (u\<lparr>dfs_color := (dfs_color u)(i := Black)\<rparr>)" by (intro black_ok_finish)
  then show ?case using u(2) by (simp add: black_ok_def)
next
  case (4 d k x xs s)
  consider "dfs_color s x = White" | "dfs_color s x = Gray" | "dfs_color s x = Black" by (cases "dfs_color s x") auto
  then show ?case
  proof cases
    case 1
    then obtain u where u: "visit d k x s = Some u" "visit_deps d k xs u = Some t"
      using "4.prems"(1) by (auto split: option.splits)
    have su: "evolves s u" "dfs_color u x = Black" using visit_evolves(1) [OF u(1) 1] by blast+
    have ut: "evolves u t" using visit_evolves(2) [OF u(2)] by blast
    have st: "dfs_stack u = dfs_stack s" using su by (simp add: evolves_def)
    have "dfs_cycles u = []" using ut "4.prems"(6) by (auto simp: evolves_def)
    then have "black_ok d u" using "4.IH"(1) [OF 1 u(1) 1] "4.prems" by simp
    moreover have "stack_ok d u" using visit_sound(1) [OF u(1)] "4.prems" 1 by simp
    ultimately have "black_ok d t \<and> (\<forall>x\<in>set xs. dfs_color t x = Black)"
      using "4.IH"(2) [OF 1 u] "4.prems" st by simp
    then show ?thesis using su ut evolves_black by simp
  next
    case 2
    then have rep: "visit_deps d k xs (report x s) = Some t" using "4.prems"(1) by simp
    have "dfs_cycles (report x s) \<noteq> []" using report_ok [of d s x] "4.prems" 2 by simp
    moreover have "dfs_cycles (report x s) = []"
      using visit_evolves(2) [OF rep] "4.prems"(6) by (auto simp: evolves_def)
    ultimately show ?thesis by blast
  next
    case 3
    then have v: "visit_deps d k xs s = Some t" using "4.prems"(1) by simp
    then have "dfs_color t x = Black" using visit_evolves(2) [OF v] 3 evolves_black by blast
    then show ?thesis using "4.IH"(4) [OF _ _ v] "4.prems" 3 by simp
  qed
qed simp_all

section \<open>The whole search\<close>

lemma visit_all_sound:
  assumes "visit_all d k is s = Some t" "stack_ok d s" "dfs_stack s = []"
  shows "stack_ok d t \<and> evolves s t"
  using assms
proof (induction "is" arbitrary: s)
  case (Cons i "is")
  show ?case
  proof (cases "dfs_color s i = White")
    case True
    then obtain u where u: "visit d k i s = Some u" "visit_all d k is u = Some t"
      using Cons.prems(1) by (auto split: option.splits)
    have "evolves s u" using visit_evolves(1) [OF u(1) True] by blast
    moreover have "stack_ok d u" using visit_sound(1) [OF u(1) Cons.prems(2) True] Cons.prems(3) by simp
    moreover have "dfs_stack u = []" using \<open>evolves s u\<close> Cons.prems(3) by (simp add: evolves_def)
    ultimately show ?thesis using Cons.IH [OF u(2)] evolves_trans by blast
  qed (use Cons in simp)
qed simp

lemma visit_all_complete:
  assumes "visit_all d k is s = Some t" "stack_ok d s" "dfs_stack s = []" "black_ok d s" "dfs_cycles t = []"
  shows "black_ok d t \<and> (\<forall>i\<in>set is. dfs_color t i = Black)"
  using assms
proof (induction "is" arbitrary: s)
  case (Cons i "is")
  show ?case
  proof (cases "dfs_color s i = White")
    case True
    then obtain u where u: "visit d k i s = Some u" "visit_all d k is u = Some t"
      using Cons.prems(1) by (auto split: option.splits)
    have su: "evolves s u" "dfs_color u i = Black" using visit_evolves(1) [OF u(1) True] by blast+
    have ok: "stack_ok d u" using visit_sound(1) [OF u(1) Cons.prems(2) True] Cons.prems(3) by simp
    have st: "dfs_stack u = []" using su Cons.prems(3) by (simp add: evolves_def)
    have ut: "evolves u t" using visit_all_sound [OF u(2) ok st] by blast
    then have "dfs_cycles u = []" using Cons.prems(5) by (auto simp: evolves_def)
    then have "black_ok d u" using visit_complete(1) [OF u(1) True] Cons.prems by simp
    then show ?thesis using Cons.IH [OF u(2) ok st] Cons.prems(5) evolves_black [OF ut su(2)] by simp
  next
    case False
    then have rest: "visit_all d k is s = Some t" using Cons.prems(1) by simp
    have "dfs_color s i \<noteq> Gray" using Cons.prems(2,3) by (simp add: stack_ok_def)
    with False have "dfs_color s i = Black" by (cases "dfs_color s i") auto
    then have "dfs_color t i = Black" using visit_all_sound [OF rest Cons.prems(2,3)] evolves_black by blast
    then show ?thesis using Cons.IH [OF rest] Cons.prems by simp
  qed
qed simp

lemma initial_ok:
  "stack_ok d \<lparr>dfs_color = (\<lambda>_. White), dfs_stack = [], dfs_cycles = []\<rparr>"
  "black_ok d \<lparr>dfs_color = (\<lambda>_. White), dfs_stack = [], dfs_cycles = []\<rparr>"
  by (simp_all add: stack_ok_def black_ok_def acyclic_def)

lemma findCycles_run:
  obtains t where "findCycles deps = dfs_cycles t" "visit_all (deps_at deps) (length (all_names deps)) (sort (map fst deps))
      \<lparr>dfs_color = (\<lambda>_. White), dfs_stack = [], dfs_cycles = []\<rparr> = Some t"
  using find_cycles_total [of deps] by (auto simp: findCycles_def find_cycles_def)

lemma findCycles_sound: "c \<in> set (findCycles deps) \<Longrightarrow> is_cycle (deps_at deps) c"
  using findCycles_run [of deps] visit_all_sound [OF _ initial_ok(1)]
  by (metis (no_types, lifting) dfs.select_convs(2) list_all_iff stack_ok_def)

lemma path_rtrancl:
  "successively (\<lambda>x y. y \<in> set (d x)) c \<Longrightarrow> c \<noteq> [] \<Longrightarrow> (hd c, last c) \<in> (edges d)\<^sup>*"
proof (induction c rule: induct_list012)
  case (3 x y zs)
  then have "(x, y) \<in> edges d" "(y, last (y # zs)) \<in> (edges d)\<^sup>*" by (auto simp: edges_def)
  then show ?case by (auto intro: converse_rtrancl_into_rtrancl)
qed auto

lemma cycle_not_acyclic: "is_cycle d c \<Longrightarrow> \<not> acyclic (edges d)"
  using path_rtrancl [of d c] unfolding is_cycle_def acyclic_def
  by (metis (mono_tags, lifting) case_prodI edges_def mem_Collect_eq rtrancl_into_trancl1)

lemma findCycles_complete:
  assumes "findCycles deps = []"
  shows "acyclic (edges (deps_at deps))"
proof -
  obtain t where t: "findCycles deps = dfs_cycles t" "visit_all (deps_at deps) (length (all_names deps)) (sort (map fst deps))
      \<lparr>dfs_color = (\<lambda>_. White), dfs_stack = [], dfs_cycles = []\<rparr> = Some t"
    by (rule findCycles_run)
  then have ok: "black_ok (deps_at deps) t" "\<forall>i\<in>fst ` set deps. dfs_color t i = Black"
    using visit_all_complete [OF t(2) initial_ok(1) _ initial_ok(2)] assms by simp_all
  have "dfs_color t x = Black" if "y \<in> set (deps_at deps x)" for x y
  proof (cases "map_of deps x")
    case (Some xs)
    then have "(x, xs) \<in> set deps" by (rule map_of_SomeD)
    then show ?thesis using ok(2) by force
  qed (use that in \<open>simp add: deps_at_def\<close>)
  then have "{(x, y) \<in> edges (deps_at deps). dfs_color t x = Black} = edges (deps_at deps)"
    by (auto simp: edges_def)
  then show ?thesis using ok(1) by (simp add: black_ok_def)
qed

lemma findCycles_Nil: "(findCycles deps = []) = acyclic (edges (deps_at deps))"
  using findCycles_complete findCycles_sound cycle_not_acyclic by (metis list.set_intros(1) neq_Nil_conv)

section \<open>Properties\<close>

text \<open>
  C28. The cycle search terminates on every dependency map, and what it reports is right in both directions: every
  reported list is a genuine cycle (each node depends on the next and the last on the first), and it
  reports nothing exactly when the dependency relation is acyclic.
\<close>

theorem find_cycles_correct:
  "find_cycles deps = Some (findCycles deps) \<and> list_all (is_cycle (deps_at deps)) (findCycles deps) \<and>
   (findCycles deps = []) = acyclic (edges (deps_at deps))"
proof (intro conjI)
  show "find_cycles deps = Some (findCycles deps)" using find_cycles_total [of deps] by (simp add: findCycles_def)
  show "list_all (is_cycle (deps_at deps)) (findCycles deps)" using findCycles_sound by (simp add: list_all_iff)
  show "(findCycles deps = []) = acyclic (edges (deps_at deps))" by (rule findCycles_Nil)
qed

end
