(* ===== verification/Issues.thy ===== *)
theory Issues
  imports Roles Workflow Acceptance Effects
begin

text \<open>
  The findings of graph validation (\<^verbatim>\<open>Issue\<close> of \<^verbatim>\<open>internal/engine/validate.go\<close>). Messages are
  values of \<open>issue_msg\<close>, one constructor per format string of the code. A list of findings is
  \<open>clean\<close> when none of them is an error; the simplification rules here carry cleanness through the
  way the checks build their lists.
\<close>

section \<open>Issues\<close>

datatype severity = SevError | SevWarning | SevInfo

datatype canvas_msg =
    PositionUnknownNode string
  | PositionNotFinite
  | GateUnknownNode string
  | GateHalfPlaced
  | GateNotFinite
  | GateRatio
  | LabelUnknownEdge string
  | LabelRatio
  | WireUnknown string
  | WireTooMany string
  | WireNotFinite string
  | StyleUnknownNode string
  | StyleShape string
  | StyleDimensions
  | DecorationID string
  | DuplicateDecoration string
  | DecorationGeometry string

datatype plan_msg =
    TooManyPlanStatuses
  | InvalidPlanStatusID string
  | PlanStatusLabel string
  | DuplicatePlanStatus string
  | DuplicatePlanStatusLabel string
  | PlanUnknownNode string
  | PlanDate string
  | PlanStatusInvalid string
  | DuplicateMilestone string
  | ProgressBeforeStart
  | DoneBeforeProgress
  | DoneBeforeStart

datatype issue_msg =
    GraphNull
  | VersionTooLow
  | TypeProblem type_problem
  | RoleProblem role_problem
  | WorkflowProblem workflow_error
  | AcceptanceProblem acceptance_error
  | NodeNull nat
  | EmptyNodeID
  | InvalidNodeID string
  | DuplicateNodeID string
  | InvalidPriority string
  | InvalidWriteAccess string
  | EffectsNeverRun string
  | EffectProblem effect_error
  | UnknownKindsHint nat "(string \<times> nat) list" bool
  | SyntaxError parse_msg
  | UnknownNode string
  | DependsOnItself
  | FlagNotDeclared string
  | EdgeNull nat
  | EdgeFromUnknown string
  | EdgeToUnknown string
  | RequiresCycle string
  | WireCycle string
  | NotConnected
  | CanvasMsg canvas_msg
  | PlanMsg plan_msg

record issue =
  issue_Severity :: severity
  issue_NodeID :: string
  issue_Field :: string
  issue_Offset :: int
  issue_Msg :: issue_msg

definition mk :: "severity \<Rightarrow> string \<Rightarrow> string \<Rightarrow> int \<Rightarrow> issue_msg \<Rightarrow> issue" where
  "mk sev nodeID field off m =
     \<lparr>issue_Severity = sev, issue_NodeID = nodeID, issue_Field = field, issue_Offset = off, issue_Msg = m\<rparr>"

definition is_error :: "issue \<Rightarrow> bool" where
  "is_error i \<longleftrightarrow> issue_Severity i = SevError"

lemma mk_simps [simp]:
  "is_error (mk sev n f off m) \<longleftrightarrow> sev = SevError"
  by (simp add: is_error_def mk_def)

section \<open>Lists without errors\<close>

definition clean :: "issue list \<Rightarrow> bool" where
  "clean is \<longleftrightarrow> list_all (\<lambda>i. \<not> is_error i) is"

lemma clean_Nil [simp]: "clean []"
  by (simp add: clean_def)

lemma clean_Cons [simp]: "clean (i # is) \<longleftrightarrow> \<not> is_error i \<and> clean is"
  by (simp add: clean_def)

lemma clean_append [simp]: "clean (is @ js) \<longleftrightarrow> clean is \<and> clean js"
  by (simp add: clean_def)

lemma clean_concat [simp]: "clean (concat iss) \<longleftrightarrow> (\<forall>is\<in>set iss. clean is)"
  by (induction iss) auto

lemma clean_concat_map: "clean (concat (map f xs)) \<longleftrightarrow> (\<forall>x\<in>set xs. clean (f x))"
  by simp

lemma clean_map [simp]: "clean (map f xs) \<longleftrightarrow> (\<forall>x\<in>set xs. \<not> is_error (f x))"
  by (simp add: clean_def list_all_iff)

lemma clean_when_add [simp]: "clean (when_add c i) \<longleftrightarrow> \<not> (c \<and> is_error i)"
  by (simp add: when_add_def)

end
