(* ===== verification/Validate_UI.thy ===== *)
theory Validate_UI
  imports Issues Run_State
begin

text \<open>
  The editor-state block of \<^verbatim>\<open>Validate\<close> (\<^verbatim>\<open>internal/engine/validate.go\<close>): positions, gate and
  label placements, wire vertices, plan statuses, plan milestones, node styles and canvas
  decorations. Each loop is a definition that gives the findings it appends; loops over Go maps
  follow the order of the \<open>gomap\<close>. The last section proves for each loop which editor states it
  accepts.
\<close>

section \<open>Coordinates\<close>

text \<open>\<^verbatim>\<open>math.IsNaN(x) || math.IsInf(x, 0)\<close>\<close>

fun not_finite :: "float64 \<Rightarrow> bool" where
  "not_finite NaN = True"
| "not_finite (Inf s) = True"
| "not_finite (Fin x) = False"

definition bad_ratio :: "float64 \<Rightarrow> bool" where
  "bad_ratio r \<longleftrightarrow> not_finite r \<or> f64_lt r (Fin 0) \<or> f64_lt (Fin 1) r"

section \<open>Placements\<close>

definition position_issues :: "string boolmap \<Rightarrow> ui_state \<Rightarrow> issue list" where
  "position_issues ids ui =
     concat (map (\<lambda>(nodeID, p).
        when_add (\<not> ids nodeID) (mk SevError nodeID ''ui.positions'' (-1) (CanvasMsg (PositionUnknownNode nodeID))) @
        when_add (not_finite (pos_X p) \<or> not_finite (pos_Y p))
          (mk SevError nodeID ''ui.positions'' (-1) (CanvasMsg PositionNotFinite))) (ui_Positions ui))"

definition placement_issues :: "string \<Rightarrow> gate_placement \<Rightarrow> issue list" where
  "placement_issues nodeID p =
     (if gp_X p \<noteq> None \<or> gp_Y p \<noteq> None then
        (case (gp_X p, gp_Y p) of
           (Some x, Some y) \<Rightarrow>
             when_add (not_finite x \<or> not_finite y) (mk SevError nodeID ''ui.gates'' (-1) (CanvasMsg GateNotFinite))
         | _ \<Rightarrow> [mk SevError nodeID ''ui.gates'' (-1) (CanvasMsg GateHalfPlaced)])
      else
        let ratio = (case gp_Ratio p of Some r \<Rightarrow> r | None \<Rightarrow> Fin 0)
        in when_add (bad_ratio ratio) (mk SevError nodeID ''ui.gates'' (-1) (CanvasMsg GateRatio)))"

definition gate_issues :: "string boolmap \<Rightarrow> ui_state \<Rightarrow> issue list" where
  "gate_issues ids ui =
     concat (map (\<lambda>(nodeID, p).
        when_add (\<not> ids nodeID) (mk SevError nodeID ''ui.gates'' (-1) (CanvasMsg (GateUnknownNode nodeID))) @
        placement_issues nodeID p) (ui_Gates ui))"

definition label_issues :: "string boolmap \<Rightarrow> ui_state \<Rightarrow> issue list" where
  "label_issues edgeKeys ui =
     concat (map (\<lambda>(edgeKey, p).
        when_add (\<not> edgeKeys edgeKey) (mk SevError [] ''ui.edge_labels'' (-1) (CanvasMsg (LabelUnknownEdge edgeKey))) @
        when_add (bad_ratio (elp_Ratio p)) (mk SevError [] ''ui.edge_labels'' (-1) (CanvasMsg LabelRatio))) (ui_EdgeLabels ui))"

text \<open>The inner loop of the wire check stops at the first vertex that is not finite.\<close>

definition wire_key_ok :: "string boolmap \<Rightarrow> string boolmap \<Rightarrow> string \<Rightarrow> bool" where
  "wire_key_ok ids edgeKeys wireKey =
     (if has_prefix wireKey ''gate:'' then ids (trim_prefix wireKey ''gate:'') else edgeKeys wireKey)"

definition wire_issues :: "string boolmap \<Rightarrow> string boolmap \<Rightarrow> ui_state \<Rightarrow> issue list" where
  "wire_issues ids edgeKeys ui =
     concat (map (\<lambda>(wireKey, vertices).
        when_add (\<not> wire_key_ok ids edgeKeys wireKey) (mk SevError [] ''ui.wire_vertices'' (-1) (CanvasMsg (WireUnknown wireKey))) @
        when_add (length vertices > 64) (mk SevError [] ''ui.wire_vertices'' (-1) (CanvasMsg (WireTooMany wireKey))) @
        when_add (list_ex (\<lambda>v. not_finite (pos_X v) \<or> not_finite (pos_Y v)) vertices)
          (mk SevError [] ''ui.wire_vertices'' (-1) (CanvasMsg (WireNotFinite wireKey)))) (ui_WireVertices ui))"

section \<open>Plans\<close>

definition builtin_plan_statuses :: "string boolmap" where
  "builtin_plan_statuses s \<longleftrightarrow> s = StatusStarted \<or> s = StatusInProgress \<or> s = StatusDone"

definition plan_label :: "plan_status_definition \<Rightarrow> string" where
  "plan_label d = trim_space (psd_Label d)"

fun plan_status_scan ::
  "plan_status_definition list \<Rightarrow> string boolmap \<Rightarrow> string boolmap \<Rightarrow> issue list \<times> string boolmap" where
  "plan_status_scan [] planStatuses labels = ([], planStatuses)"
| "plan_status_scan (d # ds) planStatuses labels =
     (case plan_status_scan ds (planStatuses(psd_ID d := True)) (labels(to_lower (plan_label d) := True)) of
        (is, sts) \<Rightarrow>
          (when_add (\<not> has_prefix (psd_ID d) ''custom-'' \<or> \<not> ValidNodeID (psd_ID d))
             (mk SevError [] ''ui.plan_statuses'' (-1) (PlanMsg (InvalidPlanStatusID (psd_ID d)))) @
           when_add (plan_label d = [] \<or> length (plan_label d) > 128)
             (mk SevError [] ''ui.plan_statuses'' (-1) (PlanMsg (PlanStatusLabel (psd_ID d)))) @
           when_add (planStatuses (psd_ID d)) (mk SevError [] ''ui.plan_statuses'' (-1) (PlanMsg (DuplicatePlanStatus (psd_ID d)))) @
           when_add (labels (to_lower (plan_label d)))
             (mk SevError [] ''ui.plan_statuses'' (-1) (PlanMsg (DuplicatePlanStatusLabel (plan_label d)))) @ is, sts))"

definition plan_status_issues :: "ui_state \<Rightarrow> issue list \<times> string boolmap" where
  "plan_status_issues ui =
     (case plan_status_scan (ui_PlanStatuses ui) builtin_plan_statuses no_keys of
        (is, sts) \<Rightarrow>
          (when_add (length (ui_PlanStatuses ui) > 64) (mk SevError [] ''ui.plan_statuses'' (-1) (PlanMsg TooManyPlanStatuses)) @ is,
           sts))"

text \<open>The milestones of one node: the findings and the date kept for each status.\<close>

fun milestone_scan ::
  "string \<Rightarrow> string boolmap \<Rightarrow> plan_milestone list \<Rightarrow> string boolmap \<Rightarrow> (string \<Rightarrow> string) \<Rightarrow> issue list \<times> (string \<Rightarrow> string)" where
  "milestone_scan nodeID planStatuses [] seen dates = ([], dates)"
| "milestone_scan nodeID planStatuses (p # ps) seen dates =
     (let date = when_add (\<not> parses_as_date (plan_Date p)) (mk SevError nodeID ''ui.plans'' (-1) (PlanMsg (PlanDate (plan_Date p))))
      in if \<not> planStatuses (plan_Status p) then
           (case milestone_scan nodeID planStatuses ps seen dates of
              (is, ds) \<Rightarrow> (date @ mk SevError nodeID ''ui.plans'' (-1) (PlanMsg (PlanStatusInvalid (plan_Status p))) # is, ds))
         else
           (case milestone_scan nodeID planStatuses ps (seen(plan_Status p := True)) (dates(plan_Status p := plan_Date p)) of
              (is, ds) \<Rightarrow>
                (date @ when_add (seen (plan_Status p)) (mk SevError nodeID ''ui.plans'' (-1) (PlanMsg (DuplicateMilestone (plan_Status p)))) @ is,
                 ds)))"

definition out_of_order :: "(string \<Rightarrow> string) \<Rightarrow> string \<Rightarrow> string \<Rightarrow> bool" where
  "out_of_order dates a b \<longleftrightarrow> dates a \<noteq> [] \<and> dates b \<noteq> [] \<and> dates b < dates a"

definition plan_issues :: "string boolmap \<Rightarrow> string boolmap \<Rightarrow> ui_state \<Rightarrow> issue list" where
  "plan_issues ids planStatuses ui =
     concat (map (\<lambda>(nodeID, plans).
        when_add (\<not> ids nodeID) (mk SevError nodeID ''ui.plans'' (-1) (PlanMsg (PlanUnknownNode nodeID))) @
        (case milestone_scan nodeID planStatuses plans no_keys (\<lambda>_. []) of
           (is, dates) \<Rightarrow> is @
             when_add (out_of_order dates StatusStarted StatusInProgress) (mk SevError nodeID ''ui.plans'' (-1) (PlanMsg ProgressBeforeStart)) @
             when_add (out_of_order dates StatusInProgress StatusDone) (mk SevError nodeID ''ui.plans'' (-1) (PlanMsg DoneBeforeProgress)) @
             when_add (out_of_order dates StatusStarted StatusDone) (mk SevError nodeID ''ui.plans'' (-1) (PlanMsg DoneBeforeStart))))
        (ui_Plans ui))"

section \<open>Styles and decorations\<close>

definition outside :: "float64 \<Rightarrow> rat \<Rightarrow> rat \<Rightarrow> bool" where
  "outside x lo hi \<longleftrightarrow> \<not> f64_eq x (Fin 0) \<and> (f64_lt x (Fin lo) \<or> f64_lt (Fin hi) x)"

definition style_issues :: "string boolmap \<Rightarrow> ui_state \<Rightarrow> issue list" where
  "style_issues ids ui =
     concat (map (\<lambda>(nodeID, s).
        when_add (\<not> ids nodeID) (mk SevError nodeID ''ui.node_styles'' (-1) (CanvasMsg (StyleUnknownNode nodeID))) @
        when_add (\<not> ValidNodeShape (style_Shape s)) (mk SevWarning nodeID ''ui.node_styles'' (-1) (CanvasMsg (StyleShape (style_Shape s)))) @
        when_add (not_finite (style_Width s) \<or> not_finite (style_Height s) \<or>
                  outside (style_Width s) 120 360 \<or> outside (style_Height s) 52 180)
          (mk SevError nodeID ''ui.node_styles'' (-1) (CanvasMsg StyleDimensions))) (ui_NodeStyles ui))"

type_synonym decoration = "string \<times> string \<times> float64 \<times> float64 \<times> float64 \<times> float64"

fun bad_geometry :: "decoration \<Rightarrow> bool" where
  "bad_geometry (i, field, x, y, w, h) \<longleftrightarrow>
     not_finite x \<or> not_finite y \<or> not_finite w \<or> not_finite h \<or>
     f64_lt x (Fin 0) \<or> f64_lt y (Fin 0) \<or> f64_lt w (Fin 80) \<or> f64_lt h (Fin 60)"

fun checkDecoration :: "string boolmap \<Rightarrow> decoration \<Rightarrow> issue list" where
  "checkDecoration decorationIDs (i, field, geo) =
     when_add (\<not> ValidNodeID i) (mk SevError [] field (-1) (CanvasMsg (DecorationID i))) @
     when_add (decorationIDs i) (mk SevError [] field (-1) (CanvasMsg (DuplicateDecoration i))) @
     when_add (bad_geometry (i, field, geo)) (mk SevError [] field (-1) (CanvasMsg (DecorationGeometry i)))"

fun check_decorations :: "decoration list \<Rightarrow> string boolmap \<Rightarrow> issue list" where
  "check_decorations [] decorationIDs = []"
| "check_decorations (d # ds) decorationIDs =
     checkDecoration decorationIDs d @ check_decorations ds (decorationIDs(fst d := True))"

definition decorations :: "ui_state \<Rightarrow> decoration list" where
  "decorations ui =
     map (\<lambda>d. (group_ID d, ''ui.groups'', group_X d, group_Y d, group_Width d, group_Height d)) (ui_Groups ui) @
     map (\<lambda>a. (annot_ID a, ''ui.annotations'', annot_X a, annot_Y a, annot_Width a, annot_Height a)) (ui_Annotations ui)"

definition ui_issues :: "string boolmap \<Rightarrow> string boolmap \<Rightarrow> ui_state option \<Rightarrow> issue list" where
  "ui_issues ids edgeKeys uo =
     (case uo of
        None \<Rightarrow> []
      | Some ui \<Rightarrow>
          (case plan_status_issues ui of
             (status_iss, planStatuses) \<Rightarrow>
               position_issues ids ui @ gate_issues ids ui @ label_issues edgeKeys ui @ wire_issues ids edgeKeys ui @
               status_iss @ plan_issues ids planStatuses ui @ style_issues ids ui @
               check_decorations (decorations ui) no_keys))"

section \<open>What the block accepts\<close>

definition finite_at :: "position \<Rightarrow> bool" where
  "finite_at p \<longleftrightarrow> \<not> not_finite (pos_X p) \<and> \<not> not_finite (pos_Y p)"

definition placement_ok :: "gate_placement \<Rightarrow> bool" where
  "placement_ok p =
     (case (gp_X p, gp_Y p) of
        (None, None) \<Rightarrow> (case gp_Ratio p of None \<Rightarrow> True | Some r \<Rightarrow> \<not> bad_ratio r)
      | (Some x, Some y) \<Rightarrow> \<not> not_finite x \<and> \<not> not_finite y
      | _ \<Rightarrow> False)"

definition plan_status_ok :: "plan_status_definition \<Rightarrow> bool" where
  "plan_status_ok d \<longleftrightarrow> has_prefix (psd_ID d) ''custom-'' \<and> ValidNodeID (psd_ID d) \<and>
     plan_label d \<noteq> [] \<and> length (plan_label d) \<le> 128"

definition not_after :: "plan_milestone list \<Rightarrow> string \<Rightarrow> string \<Rightarrow> bool" where
  "not_after plans a b \<longleftrightarrow>
     (\<forall>p\<in>set plans. \<forall>q\<in>set plans. plan_Status p = a \<and> plan_Status q = b \<longrightarrow> plan_Date p \<le> plan_Date q)"

definition plans_ok :: "string boolmap \<Rightarrow> plan_milestone list \<Rightarrow> bool" where
  "plans_ok known plans \<longleftrightarrow>
     (\<forall>p\<in>set plans. parses_as_date (plan_Date p) \<and> known (plan_Status p)) \<and> distinct (map plan_Status plans) \<and>
     not_after plans StatusStarted StatusInProgress \<and> not_after plans StatusInProgress StatusDone \<and>
     not_after plans StatusStarted StatusDone"

definition style_ok :: "node_style \<Rightarrow> bool" where
  "style_ok s \<longleftrightarrow> \<not> not_finite (style_Width s) \<and> \<not> not_finite (style_Height s) \<and>
     \<not> outside (style_Width s) 120 360 \<and> \<not> outside (style_Height s) 52 180"

definition plan_statuses :: "ui_state \<Rightarrow> string boolmap" where
  "plan_statuses ui s \<longleftrightarrow> builtin_plan_statuses s \<or> s \<in> psd_ID ` set (ui_PlanStatuses ui)"

definition ui_ok :: "string boolmap \<Rightarrow> string boolmap \<Rightarrow> ui_state \<Rightarrow> bool" where
  "ui_ok ids edgeKeys ui \<longleftrightarrow>
     (\<forall>(i, p)\<in>set (ui_Positions ui). ids i \<and> finite_at p) \<and>
     (\<forall>(i, p)\<in>set (ui_Gates ui). ids i \<and> placement_ok p) \<and>
     (\<forall>(k, p)\<in>set (ui_EdgeLabels ui). edgeKeys k \<and> \<not> bad_ratio (elp_Ratio p)) \<and>
     (\<forall>(k, vs)\<in>set (ui_WireVertices ui). wire_key_ok ids edgeKeys k \<and> length vs \<le> 64 \<and> list_all finite_at vs) \<and>
     length (ui_PlanStatuses ui) \<le> 64 \<and> list_all plan_status_ok (ui_PlanStatuses ui) \<and>
     distinct (map psd_ID (ui_PlanStatuses ui)) \<and>
     distinct (map (\<lambda>d. to_lower (plan_label d)) (ui_PlanStatuses ui)) \<and>
     (\<forall>(i, ps)\<in>set (ui_Plans ui). ids i \<and> plans_ok (plan_statuses ui) ps) \<and>
     (\<forall>(i, s)\<in>set (ui_NodeStyles ui). ids i \<and> style_ok s) \<and>
     list_all (\<lambda>d. ValidNodeID (fst d) \<and> \<not> bad_geometry d) (decorations ui) \<and>
     distinct (map fst (decorations ui))"

lemma bad_ratio_zero [simp]: "\<not> bad_ratio (Fin 0)"
  by (simp add: bad_ratio_def)

lemma placement_clean: "clean (placement_issues i p) \<longleftrightarrow> placement_ok p"
  by (auto simp: placement_issues_def placement_ok_def Let_def split: option.split)

lemma plan_scan_statuses:
  "snd (plan_status_scan ds sts labels) = (\<lambda>s. sts s \<or> s \<in> psd_ID ` set ds)"
proof (induction ds sts labels rule: plan_status_scan.induct)
  case (2 d ds sts labels)
  show ?case unfolding plan_status_scan.simps prod.case_eq_if snd_conv 2 by (auto simp: fun_eq_iff)
qed simp

lemma plan_scan_clean:
  "clean (fst (plan_status_scan ds sts labels)) \<longleftrightarrow>
     list_all plan_status_ok ds \<and> distinct (map psd_ID ds) \<and> distinct (map (\<lambda>d. to_lower (plan_label d)) ds) \<and>
     (\<forall>d\<in>set ds. \<not> sts (psd_ID d) \<and> \<not> labels (to_lower (plan_label d)))"
proof (induction ds sts labels rule: plan_status_scan.induct)
  case (2 d ds sts labels)
  show ?case unfolding plan_status_scan.simps prod.case_eq_if fst_conv clean_append 2
    by (auto simp: plan_status_ok_def [of d] image_iff)
qed simp

lemma builtin_not_custom: "has_prefix s ''custom-'' \<Longrightarrow> \<not> builtin_plan_statuses s"
  by (auto simp: builtin_plan_statuses_def has_prefix_def)

lemma plan_status_clean:
  "clean (fst (plan_status_issues ui)) \<longleftrightarrow>
     length (ui_PlanStatuses ui) \<le> 64 \<and> list_all plan_status_ok (ui_PlanStatuses ui) \<and>
     distinct (map psd_ID (ui_PlanStatuses ui)) \<and>
     distinct (map (\<lambda>d. to_lower (plan_label d)) (ui_PlanStatuses ui))"
  using plan_scan_clean [of "ui_PlanStatuses ui" builtin_plan_statuses no_keys] builtin_not_custom
  by (auto simp: plan_status_issues_def list_all_iff plan_status_ok_def split: prod.split)

lemma plan_status_known: "snd (plan_status_issues ui) = plan_statuses ui"
  using plan_scan_statuses [of "ui_PlanStatuses ui" builtin_plan_statuses no_keys]
  by (auto simp: plan_status_issues_def plan_statuses_def fun_eq_iff split: prod.split)

lemma milestone_clean:
  "clean (fst (milestone_scan i known ps seen dates)) \<longleftrightarrow>
     (\<forall>p\<in>set ps. parses_as_date (plan_Date p) \<and> known (plan_Status p)) \<and> distinct (map plan_Status ps) \<and>
     (\<forall>p\<in>set ps. \<not> seen (plan_Status p))"
proof (induction ps arbitrary: seen dates)
  case (Cons p ps)
  show ?case
  proof (cases "known (plan_Status p)")
    case True
    then have "clean (fst (milestone_scan i known (p # ps) seen dates)) \<longleftrightarrow>
        parses_as_date (plan_Date p) \<and> \<not> seen (plan_Status p) \<and>
        clean (fst (milestone_scan i known ps (seen(plan_Status p := True)) (dates(plan_Status p := plan_Date p))))"
      by (simp add: Let_def prod.case_eq_if)
    also have "\<dots> \<longleftrightarrow> parses_as_date (plan_Date p) \<and> \<not> seen (plan_Status p) \<and>
        (\<forall>p\<in>set ps. parses_as_date (plan_Date p) \<and> known (plan_Status p)) \<and> distinct (map plan_Status ps) \<and>
        (\<forall>q\<in>set ps. \<not> (seen(plan_Status p := True)) (plan_Status q))"
      unfolding Cons by simp
    finally show ?thesis using True by (auto simp: image_iff simp del: milestone_scan.simps)
  qed (simp add: Let_def prod.case_eq_if)
qed simp

lemma milestone_dates:
  assumes "\<forall>p\<in>set ps. known (plan_Status p)" "distinct (map plan_Status ps)"
  shows "snd (milestone_scan i known ps seen dates) s =
    (case first_match (\<lambda>p. plan_Status p = s) ps of Some p \<Rightarrow> plan_Date p | None \<Rightarrow> dates s)"
  using assms
proof (induction ps arbitrary: seen dates)
  case (Cons p ps)
  have none: "first_match (\<lambda>q. plan_Status q = plan_Status p) ps = None"
    using Cons.prems(2) by (auto simp: image_iff)
  have "snd (milestone_scan i known (p # ps) seen dates) =
      snd (milestone_scan i known ps (seen(plan_Status p := True)) (dates(plan_Status p := plan_Date p)))"
    using Cons.prems by (simp add: Let_def prod.case_eq_if)
  moreover have "snd (milestone_scan i known ps (seen(plan_Status p := True)) (dates(plan_Status p := plan_Date p))) s =
      (case first_match (\<lambda>p. plan_Status p = s) ps of Some p \<Rightarrow> plan_Date p | None \<Rightarrow> (dates(plan_Status p := plan_Date p)) s)"
    by (rule Cons.IH) (use Cons.prems in auto)
  ultimately have "snd (milestone_scan i known (p # ps) seen dates) s =
      (case first_match (\<lambda>p. plan_Status p = s) ps of Some p \<Rightarrow> plan_Date p | None \<Rightarrow> (dates(plan_Status p := plan_Date p)) s)"
    by (simp only:)
  then show ?case using none
    by (cases "plan_Status p = s") (simp_all del: milestone_scan.simps first_match_None split: option.split)
qed simp

lemma parsed_date_nonempty: "parses_as_date s \<Longrightarrow> s \<noteq> []"
  by (auto simp: parses_as_date_def)

lemma first_match_distinct:
  assumes "distinct (map f ps)" "p \<in> set ps"
  shows "first_match (\<lambda>q. f q = f p) ps = Some p"
  using assms by (induction ps) (auto simp: image_iff)

lemma order_clean:
  assumes "\<forall>p\<in>set ps. parses_as_date (plan_Date p) \<and> known (plan_Status p)" "distinct (map plan_Status ps)"
  shows "out_of_order (snd (milestone_scan i known ps seen (\<lambda>_. []))) a b \<longleftrightarrow> \<not> not_after ps a b"
proof -
  have d: "snd (milestone_scan i known ps seen (\<lambda>_. [])) s =
      (case first_match (\<lambda>p. plan_Status p = s) ps of Some p \<Rightarrow> plan_Date p | None \<Rightarrow> [])" for s
    by (rule milestone_dates) (use assms in auto)
  show ?thesis
  proof (cases "(\<exists>p\<in>set ps. plan_Status p = a) \<and> (\<exists>q\<in>set ps. plan_Status q = b)")
    case True
    then obtain p q where pq: "p \<in> set ps" "plan_Status p = a" "q \<in> set ps" "plan_Status q = b" by blast
    then have "first_match (\<lambda>p. plan_Status p = a) ps = Some p" "first_match (\<lambda>p. plan_Status p = b) ps = Some q"
      using first_match_distinct [OF assms(2)] by auto
    then have "out_of_order (snd (milestone_scan i known ps seen (\<lambda>_. []))) a b \<longleftrightarrow> plan_Date q < plan_Date p"
      using pq assms(1) parsed_date_nonempty by (auto simp: out_of_order_def d)
    moreover have "p' = p" if "p' \<in> set ps" "plan_Status p' = a" for p'
      using that pq assms(2) by (auto simp: distinct_map inj_on_def)
    moreover have "q' = q" if "q' \<in> set ps" "plan_Status q' = b" for q'
      using that pq assms(2) by (auto simp: distinct_map inj_on_def)
    ultimately show ?thesis using pq unfolding not_after_def by (metis not_le)
  next
    case False
    then have "first_match (\<lambda>p. plan_Status p = a) ps = None \<or> first_match (\<lambda>p. plan_Status p = b) ps = None" by auto
    then have "snd (milestone_scan i known ps seen (\<lambda>_. [])) a = [] \<or> snd (milestone_scan i known ps seen (\<lambda>_. [])) b = []"
      unfolding d by (elim disjE) (simp_all del: first_match_None)
    then have "\<not> out_of_order (snd (milestone_scan i known ps seen (\<lambda>_. []))) a b" by (auto simp: out_of_order_def)
    then show ?thesis using False by (auto simp: not_after_def)
  qed
qed

lemma plan_issues_clean:
  "clean (plan_issues ids known ui) \<longleftrightarrow> (\<forall>(i, ps)\<in>set (ui_Plans ui). ids i \<and> plans_ok known ps)"
proof -
  have "clean (case milestone_scan i known ps no_keys (\<lambda>_. []) of
           (is, dates) \<Rightarrow> is @
             when_add (out_of_order dates StatusStarted StatusInProgress) (mk SevError i ''ui.plans'' (-1) (PlanMsg ProgressBeforeStart)) @
             when_add (out_of_order dates StatusInProgress StatusDone) (mk SevError i ''ui.plans'' (-1) (PlanMsg DoneBeforeProgress)) @
             when_add (out_of_order dates StatusStarted StatusDone) (mk SevError i ''ui.plans'' (-1) (PlanMsg DoneBeforeStart)))
     \<longleftrightarrow> plans_ok known ps" for i ps
    unfolding prod.case_eq_if clean_append clean_when_add milestone_clean plans_ok_def
    using order_clean [of ps known i no_keys] by auto
  then show ?thesis by (auto simp: plan_issues_def)
qed

lemma decorations_clean:
  "clean (check_decorations ds seen) \<longleftrightarrow>
     list_all (\<lambda>d. ValidNodeID (fst d) \<and> \<not> bad_geometry d) ds \<and> distinct (map fst ds) \<and> (\<forall>d\<in>set ds. \<not> seen (fst d))"
proof (induction ds arbitrary: seen)
  case (Cons d ds)
  obtain i field geo where d: "d = (i, field, geo)" by (cases d)
  show ?case unfolding d check_decorations.simps checkDecoration.simps clean_append Cons
    by (auto simp: image_iff)
qed simp

lemma ui_clean:
  "clean (ui_issues ids keys uo) \<longleftrightarrow> (case uo of None \<Rightarrow> True | Some ui \<Rightarrow> ui_ok ids keys ui)"
proof (cases uo)
  case (Some ui)
  have "clean (position_issues ids ui) \<longleftrightarrow> (\<forall>(i, p)\<in>set (ui_Positions ui). ids i \<and> finite_at p)"
    by (auto simp: position_issues_def finite_at_def)
  moreover have "clean (gate_issues ids ui) \<longleftrightarrow> (\<forall>(i, p)\<in>set (ui_Gates ui). ids i \<and> placement_ok p)"
    by (auto simp: gate_issues_def placement_clean)
  moreover have "clean (label_issues keys ui) \<longleftrightarrow> (\<forall>(k, p)\<in>set (ui_EdgeLabels ui). keys k \<and> \<not> bad_ratio (elp_Ratio p))"
    by (auto simp: label_issues_def)
  moreover have "clean (wire_issues ids keys ui) \<longleftrightarrow>
      (\<forall>(k, vs)\<in>set (ui_WireVertices ui). wire_key_ok ids keys k \<and> length vs \<le> 64 \<and> list_all finite_at vs)"
    by (fastforce simp: wire_issues_def finite_at_def list_all_iff list_ex_iff)
  moreover have "clean (style_issues ids ui) \<longleftrightarrow> (\<forall>(i, s)\<in>set (ui_NodeStyles ui). ids i \<and> style_ok s)"
    by (auto simp: style_issues_def style_ok_def)
  ultimately show ?thesis
    unfolding Some ui_issues_def option.case prod.case_eq_if clean_append plan_status_clean plan_status_known
      plan_issues_clean decorations_clean ui_ok_def
    by blast
qed (simp add: ui_issues_def)

end
