(* ===== verification/Validate.thy ===== *)
theory Validate
  imports Validate_UI Readiness Cycles
begin

text \<open>
  Graph validation (\<^verbatim>\<open>Validate\<close> of \<^verbatim>\<open>internal/engine/validate.go\<close>). The function is one long
  sequence of checks; each block of it is a definition here that gives the findings it appends, and
  \<open>Validate\<close> joins them in the order of the code. The second half states what a graph without
  error findings looks like (\<open>graph_ok\<close>) and proves that \<open>Validate\<close> accepts exactly those.
\<close>

section \<open>Project settings\<close>

definition header_issues :: "graph \<Rightarrow> issue list" where
  "header_issues g =
     when_add (graph_Version g < 1) (mk SevError [] ''version'' (-1) VersionTooLow) @
     map (\<lambda>p. mk SevError [] ''node_types'' (-1) (TypeProblem p)) (NodeTypeDefProblems (graph_NodeTypes g)) @
     map (\<lambda>p. mk SevError [] ''agent_roles'' (-1) (RoleProblem p)) (AgentRoleDefProblems (graph_AgentRoles g)) @
     (case ValidateGraphWorkflows (Some g) of
        Inl err \<Rightarrow> [mk SevError [] ''workflow'' (-1) (WorkflowProblem err)]
      | Inr _ \<Rightarrow> [])"

definition acceptance_issues :: "graph \<Rightarrow> issue list" where
  "acceptance_issues g =
     concat (map (\<lambda>n. if node_Acceptance n \<noteq> None
                      then (case ValidateNodeAcceptance (Some g) (Some n) of
                              Inl err \<Rightarrow> [mk SevError (node_ID n) ''acceptance'' (-1) (AcceptanceProblem err)]
                            | Inr _ \<Rightarrow> [])
                      else [])
             (nodes_of g))"

section \<open>Nodes\<close>

record node_scan =
  ns_ids :: "string boolmap"
  ns_unknownKinds :: "string list"
  ns_unknownKindCount :: "string \<Rightarrow> nat"
  ns_unknownKindFirst :: string
  ns_unknownKindNodes :: nat

definition empty_scan :: node_scan where
  "empty_scan = \<lparr>ns_ids = no_keys, ns_unknownKinds = [], ns_unknownKindCount = (\<lambda>_. 0), ns_unknownKindFirst = [],
     ns_unknownKindNodes = 0\<rparr>"

definition note_kind :: "graph \<Rightarrow> node \<Rightarrow> node_scan \<Rightarrow> node_scan" where
  "note_kind g n s =
     (if \<not> KnownNodeKind (Some g) (NormalizeNodeKind (node_Kind n)) then
        s\<lparr>ns_unknownKinds := (if ns_unknownKindCount s (node_Kind n) = 0
                              then ns_unknownKinds s @ [node_Kind n] else ns_unknownKinds s),
          ns_unknownKindFirst := (if ns_unknownKindFirst s = [] then node_ID n else ns_unknownKindFirst s),
          ns_unknownKindCount := (ns_unknownKindCount s)(node_Kind n := ns_unknownKindCount s (node_Kind n) + 1),
          ns_unknownKindNodes := ns_unknownKindNodes s + 1\<rparr>
      else s)"

text \<open>The checks on a node with an id, given the ids seen before it.\<close>

definition node_issues :: "graph \<Rightarrow> string boolmap \<Rightarrow> node \<Rightarrow> issue list" where
  "node_issues g ids n =
     (let i = node_ID n; completion = nt_Completion (TypeOf (Some g) (Some n)) in
      when_add (\<not> ValidNodeID i) (mk SevError i ''id'' (-1) (InvalidNodeID i)) @
      when_add (ids i) (mk SevError i ''id'' (-1) (DuplicateNodeID i)) @
      when_add (node_Priority n \<notin> {[], ''urgent'', ''high'', ''medium'', ''low''})
        (mk SevError i ''priority'' (-1) (InvalidPriority (node_Priority n))) @
      when_add (node_WriteAccess n \<notin> {[], ''worker'', ''orchestrator'', ''human-only''})
        (mk SevError i ''write_access'' (-1) (InvalidWriteAccess (node_WriteAccess n))) @
      when_add (length (node_Effects n) > 0 \<and> (completion = CompletionAuto \<or> completion = CompletionNone))
        (mk SevWarning i ''effects'' (-1) (EffectsNeverRun (nt_Label (TypeOf (Some g) (Some n))))) @
      concat (map (\<lambda>(k, e). case ValidateEffect (effect_Set e) of
                              Inl err \<Rightarrow> [mk SevError i (''effects['' @ itoa k @ '']'') (-1) (EffectProblem err)]
                            | Inr _ \<Rightarrow> [])
              (enumerate 0 (node_Effects n))))"

fun nodes_issues :: "graph \<Rightarrow> nat \<Rightarrow> node option list \<Rightarrow> node_scan \<Rightarrow> issue list \<times> node_scan" where
  "nodes_issues g index [] s = ([], s)"
| "nodes_issues g index (no # ns) s =
     (case no of
        None \<Rightarrow>
          (case nodes_issues g (index + 1) ns s of
             (is, t) \<Rightarrow> (mk SevError [] ''nodes'' (-1) (NodeNull index) # is, t))
      | Some n \<Rightarrow>
          if node_ID n = [] then
            (case nodes_issues g (index + 1) ns s of
               (is, t) \<Rightarrow> (mk SevError [] ''id'' (-1) EmptyNodeID # is, t))
          else
            (case nodes_issues g (index + 1) ns (note_kind g n (s\<lparr>ns_ids := (ns_ids s)(node_ID n := True)\<rparr>)) of
               (is, t) \<Rightarrow> (node_issues g (ns_ids s) n @ is, t)))"

definition kind_hint :: "node_scan \<Rightarrow> issue list" where
  "kind_hint s =
     when_add (ns_unknownKindNodes s > 0)
       (mk SevInfo (ns_unknownKindFirst s) ''kind'' (-1)
          (UnknownKindsHint (ns_unknownKindNodes s)
             (map (\<lambda>k. (k, ns_unknownKindCount s k)) (take 5 (ns_unknownKinds s)))
             (length (ns_unknownKinds s) > 5)))"

section \<open>Conditions and edges\<close>

text \<open>Writing a Go map that is ranged over later: replace the value of a key or add the key.\<close>

fun gomap_put :: "'k \<Rightarrow> 'v \<Rightarrow> ('k, 'v) gomap \<Rightarrow> ('k, 'v) gomap" where
  "gomap_put k v [] = [(k, v)]"
| "gomap_put k v ((k', v') # m) = (if k' = k then (k, v) # m else (k', v') # gomap_put k v m)"

definition ref_issues :: "graph \<Rightarrow> string boolmap \<Rightarrow> node \<Rightarrow> expr \<Rightarrow> issue list" where
  "ref_issues g ids n e =
     concat (map (\<lambda>ref.
        when_add (\<not> ids ref) (mk SevError (node_ID n) ''requires'' (-1) (UnknownNode ref)) @
        when_add (ref = node_ID n) (mk SevError (node_ID n) ''requires'' (-1) DependsOnItself)) (NodeRefs (Some e))) @
     concat (map (\<lambda>f. when_add (graph_Flags g f = None)
        (mk SevWarning (node_ID n) ''requires'' (-1) (FlagNotDeclared f))) (FlagRefs (Some e)))"

fun requires_issues ::
  "graph \<Rightarrow> string boolmap \<Rightarrow> node list \<Rightarrow> (string, string list) gomap \<Rightarrow> issue list \<times> (string, string list) gomap" where
  "requires_issues g ids [] deps = ([], deps)"
| "requires_issues g ids (n # ns) deps =
     (if node_ID n = [] then requires_issues g ids ns deps
      else
        (case RequiresExpr n of
           Inl perr \<Rightarrow>
             (case requires_issues g ids ns deps of
                (is, ds) \<Rightarrow>
                  (mk SevError (node_ID n) ''requires'' (int (Offset perr)) (SyntaxError (Msg perr)) # is, ds))
         | Inr None \<Rightarrow> requires_issues g ids ns deps
         | Inr (Some e) \<Rightarrow>
             (case requires_issues g ids ns (gomap_put (node_ID n) (NodeRefs (Some e)) deps) of
                (is, ds) \<Rightarrow> (ref_issues g ids n e @ is, ds))))"

definition edge_issues :: "string boolmap \<Rightarrow> nat \<times> edge option \<Rightarrow> issue list" where
  "edge_issues ids ie =
     (case ie of
        (index, None) \<Rightarrow> [mk SevError [] ''edges'' (-1) (EdgeNull index)]
      | (_, Some e) \<Rightarrow>
          when_add (\<not> ids (edge_From e)) (mk SevError [] ''edges'' (-1) (EdgeFromUnknown (edge_From e))) @
          when_add (\<not> ids (edge_To e)) (mk SevError [] ''edges'' (-1) (EdgeToUnknown (edge_To e))))"

definition edgeKeys :: "graph \<Rightarrow> string boolmap" where
  "edgeKeys g key \<longleftrightarrow>
     list_ex (\<lambda>eo. case eo of None \<Rightarrow> False | Some e \<Rightarrow> edge_From e @ ''->'' @ edge_To e = key) (graph_Edges g)"

fun edge_deps :: "edge option list \<Rightarrow> (string, string list) gomap \<Rightarrow> (string, string list) gomap" where
  "edge_deps [] m = m"
| "edge_deps (None # es) m = edge_deps es m"
| "edge_deps (Some e # es) m =
     (if \<not> Blocks (Some e) then edge_deps es m
      else edge_deps es
        (gomap_put (edge_To e) ((case map_of m (edge_To e) of Some xs \<Rightarrow> xs | None \<Rightarrow> []) @ [edge_From e]) m))"

definition cycle_issues :: "(string, string list) gomap \<Rightarrow> issue list" where
  "cycle_issues deps =
     map (\<lambda>c. mk SevError (hd c) ''requires'' (-1) (RequiresCycle (joinCycle c))) (findCycles deps)"

definition wire_cycle_issues :: "graph \<Rightarrow> issue list" where
  "wire_cycle_issues g =
     map (\<lambda>c. mk SevError (hd c) ''edges'' (-1) (WireCycle (joinCycle c))) (findCycles (edge_deps (graph_Edges g) []))"

definition connected :: "graph \<Rightarrow> (string, string list) gomap \<Rightarrow> string boolmap" where
  "connected g deps i \<longleftrightarrow>
     list_ex (\<lambda>(k, refs). length refs > 0 \<and> (k = i \<or> i \<in> set refs)) deps \<or>
     list_ex (\<lambda>eo. case eo of None \<Rightarrow> False | Some e \<Rightarrow> edge_From e = i \<or> edge_To e = i) (graph_Edges g)"

definition connection_issues :: "graph \<Rightarrow> (string, string list) gomap \<Rightarrow> issue list" where
  "connection_issues g deps =
     (let flow = filter (\<lambda>n. nt_Completion (TypeOf (Some g) (Some n)) \<noteq> CompletionNone) (nodes_of g)
      in if length flow > 1
         then map (\<lambda>n. mk SevWarning (node_ID n) [] (-1) NotConnected)
                (filter (\<lambda>n. node_ID n \<noteq> [] \<and> \<not> connected g deps (node_ID n)) flow)
         else [])"

section \<open>The whole check\<close>

definition validate_graph :: "graph \<Rightarrow> issue list" where
  "validate_graph g =
     (case nodes_issues g 0 (graph_Nodes g) empty_scan of
        (node_iss, scan) \<Rightarrow>
          (case requires_issues g (ns_ids scan) (nodes_of g) [] of
             (req_iss, deps) \<Rightarrow>
               header_issues g @ acceptance_issues g @ node_iss @ kind_hint scan @ req_iss @
               concat (map (edge_issues (ns_ids scan)) (enumerate 0 (graph_Edges g))) @
               ui_issues (ns_ids scan) (edgeKeys g) (graph_UI g) @
               cycle_issues deps @ wire_cycle_issues g @ connection_issues g deps))"

definition Validate :: "graph option \<Rightarrow> issue list" where
  "Validate go =
     (case go of
        None \<Rightarrow> [mk SevError [] [] (-1) GraphNull]
      | Some g \<Rightarrow> validate_graph g)"

section \<open>Accepted graphs\<close>

definition has_id :: "graph \<Rightarrow> string boolmap" where
  "has_id g i \<longleftrightarrow> i \<noteq> [] \<and> i \<in> node_ID ` set (nodes_of g)"

definition node_ok :: "node \<Rightarrow> bool" where
  "node_ok n \<longleftrightarrow> node_ID n \<noteq> [] \<and> ValidNodeID (node_ID n) \<and>
     node_Priority n \<in> {[], ''urgent'', ''high'', ''medium'', ''low''} \<and>
     node_WriteAccess n \<in> {[], ''worker'', ''orchestrator'', ''human-only''} \<and>
     list_all (\<lambda>e. ValidateEffect (effect_Set e) = Inr ()) (node_Effects n)"

definition requires_ok :: "graph \<Rightarrow> node \<Rightarrow> bool" where
  "requires_ok g n \<longleftrightarrow>
     (case RequiresExpr n of
        Inl _ \<Rightarrow> False
      | Inr None \<Rightarrow> True
      | Inr (Some e) \<Rightarrow> node_ID n \<notin> refs_of e \<and> (\<forall>i\<in>refs_of e. has_id g i))"

text \<open>The dependency relations of the conditions and of the blocking wires.\<close>

definition requires_rel :: "graph \<Rightarrow> (string \<times> string) set" where
  "requires_rel g = {(node_ID n, r) | n e r. n \<in> set (nodes_of g) \<and> RequiresExpr n = Inr (Some e) \<and> r \<in> refs_of e}"

definition wire_rel :: "graph \<Rightarrow> (string \<times> string) set" where
  "wire_rel g = {(edge_To e, edge_From e) | e. Some e \<in> set (graph_Edges g) \<and> Blocks (Some e)}"

definition settings_ok :: "graph \<Rightarrow> bool" where
  "settings_ok g \<longleftrightarrow> 1 \<le> graph_Version g \<and>
     ValidateNodeTypeDefs (graph_NodeTypes g) = Inr () \<and> ValidateAgentRoleDefs (graph_AgentRoles g) = Inr () \<and>
     ValidateGraphWorkflows (Some g) = Inr ()"

definition graph_ok :: "graph \<Rightarrow> bool" where
  "graph_ok g \<longleftrightarrow> settings_ok g \<and>
     None \<notin> set (graph_Nodes g) \<and> distinct (map node_ID (nodes_of g)) \<and>
     list_all (\<lambda>n. node_ok n \<and> requires_ok g n \<and>
       (node_Acceptance n = None \<or> ValidateNodeAcceptance (Some g) (Some n) = Inr ())) (nodes_of g) \<and>
     None \<notin> set (graph_Edges g) \<and>
     (\<forall>e. Some e \<in> set (graph_Edges g) \<longrightarrow> has_id g (edge_From e) \<and> has_id g (edge_To e)) \<and>
     acyclic (requires_rel g) \<and> acyclic (wire_rel g) \<and>
     (case graph_UI g of None \<Rightarrow> True | Some ui \<Rightarrow> ui_ok (has_id g) (edgeKeys g) ui)"

lemma ValidateNodeTypeDefs_ok: "ValidateNodeTypeDefs ds = Inr () \<longleftrightarrow> NodeTypeDefProblems ds = []"
  by (simp add: ValidateNodeTypeDefs_def Let_def)

lemma ValidateAgentRoleDefs_ok: "ValidateAgentRoleDefs ds = Inr () \<longleftrightarrow> AgentRoleDefProblems ds = []"
  by (simp add: ValidateAgentRoleDefs_def Let_def)

lemma header_clean: "clean (header_issues g) \<longleftrightarrow> settings_ok g"
  by (cases "ValidateGraphWorkflows (Some g)")
    (simp_all add: header_issues_def settings_ok_def ValidateNodeTypeDefs_ok ValidateAgentRoleDefs_ok not_less)

lemma acceptance_clean:
  "clean (acceptance_issues g) \<longleftrightarrow>
     (\<forall>n\<in>set (nodes_of g). node_Acceptance n = None \<or> ValidateNodeAcceptance (Some g) (Some n) = Inr ())"
proof -
  have "clean (if node_Acceptance n \<noteq> None
                then (case ValidateNodeAcceptance (Some g) (Some n) of
                        Inl err \<Rightarrow> [mk SevError (node_ID n) ''acceptance'' (-1) (AcceptanceProblem err)] | Inr _ \<Rightarrow> [])
                else []) \<longleftrightarrow>
      node_Acceptance n = None \<or> ValidateNodeAcceptance (Some g) (Some n) = Inr ()" for n
    by (cases "ValidateNodeAcceptance (Some g) (Some n)") simp_all
  then show ?thesis unfolding acceptance_issues_def clean_concat_map by (rule ball_cong [OF refl])
qed

lemma node_issues_clean:
  assumes "node_ID n \<noteq> []"
  shows "clean (node_issues g ids n) \<longleftrightarrow> node_ok n \<and> \<not> ids (node_ID n)"
proof -
  have "clean (concat (map (\<lambda>(k, e). case ValidateEffect (effect_Set e) of
          Inl err \<Rightarrow> [mk SevError (node_ID n) (''effects['' @ itoa k @ '']'') (-1) (EffectProblem err)] | Inr _ \<Rightarrow> [])
        (enumerate m es))) \<longleftrightarrow> list_all (\<lambda>e. ValidateEffect (effect_Set e) = Inr ()) es" for m es
    by (induction es arbitrary: m) (auto split: sum.split)
  then show ?thesis using assms by (simp add: node_issues_def node_ok_def Let_def) blast
qed

lemma nodes_issues_ids:
  "ns_ids (snd (nodes_issues g k nos s)) =
     (\<lambda>i. ns_ids s i \<or> (i \<noteq> [] \<and> i \<in> node_ID ` set (List.map_filter id nos)))"
proof (induction nos arbitrary: k s)
  case (Cons no nos)
  have [simp]: "ns_ids (note_kind g n t) = ns_ids t" for n t by (simp add: note_kind_def)
  show ?case
    by (cases no) (auto simp: prod.case_eq_if Cons fun_eq_iff map_filter_simps)
qed (simp add: map_filter_simps)

lemma nodes_issues_clean:
  "clean (fst (nodes_issues g k nos s)) \<longleftrightarrow>
     None \<notin> set nos \<and> list_all node_ok (List.map_filter id nos) \<and>
     distinct (map node_ID (List.map_filter id nos)) \<and>
     (\<forall>n\<in>set (List.map_filter id nos). \<not> ns_ids s (node_ID n))"
proof (induction nos arbitrary: k s)
  case (Cons no nos)
  have [simp]: "ns_ids (note_kind g n t) = ns_ids t" for n t by (simp add: note_kind_def)
  show ?case
  proof (cases no)
    case (Some n)
    show ?thesis
    proof (cases "node_ID n = []")
      case True
      then show ?thesis by (simp add: Some prod.case_eq_if map_filter_simps node_ok_def)
    next
      case False
      then show ?thesis
        by (auto simp: Some prod.case_eq_if map_filter_simps Cons node_issues_clean image_iff)
    qed
  qed (simp add: prod.case_eq_if)
qed (simp add: map_filter_simps)

lemma ref_issues_clean:
  "clean (ref_issues g ids n e) \<longleftrightarrow> node_ID n \<notin> refs_of e \<and> (\<forall>r\<in>refs_of e. ids r)"
  unfolding ref_issues_def clean_append clean_concat_map clean_when_add mk_simps set_NodeRefs_Some
  by auto

lemma requires_issues_clean:
  "clean (fst (requires_issues g ids ns deps)) \<longleftrightarrow>
     (\<forall>n\<in>set ns. node_ID n = [] \<or>
        (case RequiresExpr n of Inl _ \<Rightarrow> False | Inr None \<Rightarrow> True
         | Inr (Some e) \<Rightarrow> node_ID n \<notin> refs_of e \<and> (\<forall>r\<in>refs_of e. ids r)))"
  by (induction ns arbitrary: deps)
    (auto simp: prod.case_eq_if ref_issues_clean split: sum.split option.split)

lemma map_of_gomap_put: "map_of (gomap_put k v m) = (map_of m)(k \<mapsto> v)"
  by (induction k v m rule: gomap_put.induct) (auto simp: fun_eq_iff)

lemma edges_put: "edges (deps_at (gomap_put k v m)) = {(i, r) \<in> edges (deps_at m). i \<noteq> k} \<union> {k} \<times> set v"
  by (auto simp: edges_def deps_at_def map_of_gomap_put split: if_splits)

lemma requires_issues_deps:
  assumes "distinct (map node_ID ns)" "[] \<notin> node_ID ` set ns"
    and "\<forall>n\<in>set ns. map_of deps (node_ID n) = None"
  shows "edges (deps_at (snd (requires_issues g ids ns deps))) =
    edges (deps_at deps) \<union> {(node_ID n, r) | n e r. n \<in> set ns \<and> RequiresExpr n = Inr (Some e) \<and> r \<in> refs_of e}"
  using assms
proof (induction ns arbitrary: deps)
  case (Cons n ns)
  have ne: "node_ID n \<noteq> []" and dist: "distinct (map node_ID ns)" "[] \<notin> node_ID ` set ns"
    and none: "\<forall>n\<in>set ns. map_of deps (node_ID n) = None" using Cons.prems by auto
  note IH = Cons.IH [OF dist]
  consider (err) p where "RequiresExpr n = Inl p" | (empty) "RequiresExpr n = Inr None"
    | (expr) e where "RequiresExpr n = Inr (Some e)" by (metis obj_sumE option.exhaust)
  then show ?case
  proof cases
    case (expr e)
    have fresh: "\<forall>m\<in>set ns. map_of (gomap_put (node_ID n) (NodeRefs (Some e)) deps) (node_ID m) = None"
      using Cons.prems by (auto simp: map_of_gomap_put image_iff)
    have old: "{(i, r) \<in> edges (deps_at deps). i \<noteq> node_ID n} = edges (deps_at deps)"
      using Cons.prems(3) by (auto simp: edges_def deps_at_def)
    have step: "{(node_ID m, r) | m e r. m \<in> set (n # ns) \<and> RequiresExpr m = Inr (Some e) \<and> r \<in> refs_of e} =
        {node_ID n} \<times> refs_of e \<union> {(node_ID m, r) | m e r. m \<in> set ns \<and> RequiresExpr m = Inr (Some e) \<and> r \<in> refs_of e}"
      using expr by fastforce
    show ?thesis using IH [OF fresh] ne unfolding step edges_put old set_NodeRefs_Some
      by (simp add: expr prod.case_eq_if Un_assoc)
  qed (use IH [OF none] ne in \<open>auto simp: prod.case_eq_if\<close>)
qed simp

lemma edges_edge_deps:
  "edges (deps_at (edge_deps es m)) =
     edges (deps_at m) \<union> {(edge_To e, edge_From e) | e. Some e \<in> set es \<and> Blocks (Some e)}"
proof (induction es m rule: edge_deps.induct)
  case (3 e es m)
  have put: "edges (deps_at (gomap_put (edge_To e) ((case map_of m (edge_To e) of Some xs \<Rightarrow> xs | None \<Rightarrow> []) @ [edge_From e]) m)) =
      edges (deps_at m) \<union> {(edge_To e, edge_From e)}"
    unfolding edges_put by (auto simp: edges_def deps_at_def)
  show ?case
    using 3 unfolding put by (cases "Blocks (Some e)") auto
qed simp_all

lemma edges_clean:
  "clean (concat (map (edge_issues ids) (enumerate k es))) \<longleftrightarrow>
     None \<notin> set es \<and> (\<forall>e. Some e \<in> set es \<longrightarrow> ids (edge_From e) \<and> ids (edge_To e))"
  by (induction es arbitrary: k) (auto simp: edge_issues_def split: option.split)

lemma cycle_clean: "clean (cycle_issues deps) \<longleftrightarrow> acyclic (edges (deps_at deps))"
  by (simp add: cycle_issues_def findCycles_Nil [symmetric])

lemma wire_cycle_clean: "clean (wire_cycle_issues g) \<longleftrightarrow> acyclic (wire_rel g)"
proof -
  have "edges (deps_at (edge_deps (graph_Edges g) [])) = wire_rel g"
    unfolding edges_edge_deps wire_rel_def by (simp add: edges_def deps_at_def)
  then show ?thesis by (simp add: wire_cycle_issues_def findCycles_Nil)
qed

lemma hints_clean: "clean (kind_hint s)" "clean (connection_issues g deps)"
  by (simp_all add: kind_hint_def connection_issues_def Let_def)

lemma scan_ids: "ns_ids (snd (nodes_issues g 0 (graph_Nodes g) empty_scan)) = has_id g"
  by (simp add: nodes_issues_ids empty_scan_def has_id_def nodes_of_def fun_eq_iff)

lemma validate_graph_clean: "clean (validate_graph g) \<longleftrightarrow> graph_ok g"
proof -
  let ?scan = "snd (nodes_issues g 0 (graph_Nodes g) empty_scan)"
  let ?req = "requires_issues g (has_id g) (nodes_of g) []"
  have nodes: "clean (fst (nodes_issues g 0 (graph_Nodes g) empty_scan)) \<longleftrightarrow>
      None \<notin> set (graph_Nodes g) \<and> list_all node_ok (nodes_of g) \<and> distinct (map node_ID (nodes_of g))"
    by (simp add: nodes_issues_clean nodes_of_def [symmetric] empty_scan_def)
  have whole: "clean (validate_graph g) \<longleftrightarrow>
      settings_ok g \<and> clean (acceptance_issues g) \<and> clean (fst (nodes_issues g 0 (graph_Nodes g) empty_scan)) \<and>
      clean (fst ?req) \<and> clean (concat (map (edge_issues (has_id g)) (enumerate 0 (graph_Edges g)))) \<and>
      clean (ui_issues (has_id g) (edgeKeys g) (graph_UI g)) \<and> acyclic (edges (deps_at (snd ?req))) \<and> acyclic (wire_rel g)"
    unfolding validate_graph_def prod.case_eq_if scan_ids clean_append header_clean cycle_clean wire_cycle_clean
    by (simp only: hints_clean simp_thms)
  show ?thesis
  proof (cases "list_all node_ok (nodes_of g) \<and> distinct (map node_ID (nodes_of g))")
    case True
    then have ne: "[] \<notin> node_ID ` set (nodes_of g)" by (auto simp: list_all_iff node_ok_def)
    have rel: "edges (deps_at (snd ?req)) = requires_rel g"
      unfolding requires_rel_def using requires_issues_deps [of "nodes_of g" "[]" g "has_id g"] True ne
      by (simp add: edges_def deps_at_def)
    have req: "clean (fst ?req) \<longleftrightarrow> list_all (requires_ok g) (nodes_of g)"
      unfolding requires_issues_clean list_all_iff requires_ok_def using ne by (intro ball_cong refl) (metis imageI)
    show ?thesis
      unfolding whole graph_ok_def nodes acceptance_clean edges_clean ui_clean rel req list_all_iff ball_conj_distrib
      by (simp only: conj_ac)
  next
    case False
    then show ?thesis unfolding whole graph_ok_def nodes by (auto simp: list_all_iff)
  qed
qed

section \<open>Properties\<close>

text \<open>
  C2. \<^verbatim>\<open>Validate\<close> reports no error exactly for the graphs that follow every rule of \<open>graph_ok\<close>: a version, sound
  type, role and workflow settings, nodes with valid distinct ids, known priorities and write access,
  well-formed effects and criteria, conditions that parse and name existing other nodes, edges between
  existing nodes, acyclic conditions and acyclic wires, and a sound editor state.
\<close>

theorem validate_exact:
  "clean (Validate go) \<longleftrightarrow> (\<exists>g. go = Some g \<and> graph_ok g)"
  by (cases go) (simp_all add: Validate_def validate_graph_clean)

end
