(* ===== verification/Progress.thy ===== *)
theory Progress
  imports Validate Journal
begin

text \<open>
  Progress of a validated project: where validation (\<^verbatim>\<open>Validate\<close>), readiness (\<^verbatim>\<open>ComputeReadiness\<close>)
  and the run state (\<^verbatim>\<open>SetStatus\<close>) meet. Working a project means finishing one node of the ready
  queue after another; in a graph without validation errors whose conditions only combine nodes with
  \<^verbatim>\<open>and\<close> and \<^verbatim>\<open>or\<close>, this never gets stuck and ends with every task settled.
\<close>

section \<open>Simple conditions\<close>

definition simple_condition :: "graph \<Rightarrow> node \<Rightarrow> bool" where
  "simple_condition g n \<longleftrightarrow>
     (case RequiresExpr n of Inr (Some e) \<Rightarrow> positive e \<and> flags_of e = {} | _ \<Rightarrow> True) \<and>
     (case readinessGates (Some g) (node_ID n) of Some gate \<Rightarrow> logicGateComplete gate | None \<Rightarrow> True)"

text \<open>A node that somebody moved and has not settled, or an automatic node moved by hand.\<close>

definition held :: "graph \<Rightarrow> run_state option \<Rightarrow> node \<Rightarrow> bool" where
  "held g rs n =
     (case explicit_status rs (node_ID n) of
        None \<Rightarrow> False
      | Some s \<Rightarrow> \<not> Settled s (statusDefinitions (Some g)) \<and> (s \<noteq> StatusReady \<or> \<not> tracked g n))"

abbreviation settled_in :: "graph \<Rightarrow> run_state option \<Rightarrow> node \<Rightarrow> bool" where
  "settled_in g rs n \<equiv> Settled (statusOf (ComputeStatuses g rs) (node_ID n)) (statusDefinitions (Some g))"

lemma same_node:
  assumes "distinct (map node_ID (nodes_of g))" "m \<in> set (nodes_of g)" "n \<in> set (nodes_of g)" "node_ID m = node_ID n"
  shows "m = n"
  using assms by (auto simp: distinct_map inj_on_def)

lemma graph_okD:
  assumes "graph_ok g"
  shows "distinct (map node_ID (nodes_of g))" "acyclic (requires_rel g)"
    "n \<in> set (nodes_of g) \<Longrightarrow> requires_ok g n" "n \<in> set (nodes_of g) \<Longrightarrow> node_ok n"
  using assms by (auto simp: graph_ok_def list_all_iff)

lemma requires_rel_wf:
  assumes "graph_ok g"
  shows "wf ((requires_rel g)\<inverse>)"
proof (rule finite_acyclic_wf_converse)
  have "requires_rel g \<subseteq> (node_ID ` set (nodes_of g)) \<times> (node_ID ` set (nodes_of g))"
    using graph_okD(3) [OF assms] by (fastforce simp: requires_rel_def requires_ok_def has_id_def)
  then show "finite (requires_rel g)" by (rule finite_subset) simp
qed (rule graph_okD(2) [OF assms])

text \<open>A node all of whose prerequisites are finished is not blocked.\<close>

lemma prerequisites_done:
  assumes "graph_ok g" "n \<in> set (nodes_of g)" "simple_condition g n"
    and "\<And>r. (node_ID n, r) \<in> requires_rel g \<Longrightarrow> fst (marks g st) r"
  shows "condition_holds g st fl n"
proof -
  have "requires_ok g n" using graph_okD(3) [OF assms(1,2)] .
  moreover have "Eval_expr e \<lparr>Done = Some (fst (marks g st)), Flags = fl\<rparr>" if e: "RequiresExpr n = Inr (Some e)" for e
  proof (rule Eval_positive_all_done)
    show "positive e" "flags_of e = {}" using assms(3) e by (simp_all add: simple_condition_def)
    show "fst (marks g st) i" if "i \<in> refs_of e" for i
      using that e assms(2) by (intro assms(4)) (auto simp: requires_rel_def)
  qed
  ultimately show ?thesis using assms(3)
    by (auto simp: condition_holds_def simple_condition_def requires_ok_def Eval_def split: sum.splits option.splits)
qed

lemma unfinished_cases:
  assumes ok: "graph_ok g" and n: "n \<in> set (nodes_of g)"
    and free: "\<not> fst (marks g (ComputeStatuses g rs)) (node_ID n)" "final_blocked g rs (node_ID n) = None"
  shows "is_ready g (ComputeStatuses g rs) (final_blocked g rs) n \<or> held g rs n"
proof -
  let ?st = "ComputeStatuses g rs"
  have uns: "\<not> settled_in g rs n" and flow: "nt_Completion (TypeOf (Some g) (Some n)) \<noteq> CompletionNone"
    using free(1) n by (auto simp: done_iff)
  note cases = ComputeStatuses_cases [of "node_ID n" g rs, OF imageI [OF n]]
  show ?thesis
  proof (cases "derives_itself g rs (node_ID n)")
    case True
    then show ?thesis using cases free(2) uns by (simp add: statusOf_def Settled_def builtinSettled_def)
  next
    case False
    then have st: "?st (node_ID n) = Some (case explicit_status rs (node_ID n) of Some s \<Rightarrow> s | None \<Rightarrow> StatusReady)"
      using cases by simp
    show ?thesis
    proof (cases "explicit_status rs (node_ID n)")
      case None
      then have "nt_Completion (TypeOf (Some g) (Some n)) \<noteq> CompletionAuto"
        using False n by (auto simp: derives_itself_def set_nodes_of)
      then show ?thesis using flow None st free(2) by (simp add: tracked_def statusOf_def)
    next
      case (Some s)
      then show ?thesis using st free(2) uns by (auto simp: held_def statusOf_def)
    qed
  qed
qed

lemma some_node_free:
  assumes ok: "graph_ok g" and simple: "\<forall>n\<in>set (nodes_of g). simple_condition g n"
    and n: "n \<in> set (nodes_of g)" "\<not> fst (marks g st) (node_ID n)"
  shows "\<exists>m\<in>set (nodes_of g). \<not> fst (marks g st) (node_ID m) \<and> blockedWithFlags (Some g) st fl (node_ID m) = None"
proof -
  let ?U = "{i \<in> node_ID ` set (nodes_of g). \<not> fst (marks g st) i}"
  have "node_ID n \<in> ?U" using n by simp
  with requires_rel_wf [OF ok] obtain i where i: "i \<in> ?U" and least': "\<And>r. (r, i) \<in> (requires_rel g)\<inverse> \<Longrightarrow> r \<notin> ?U"
    by (rule wfE_min) blast
  have least: "r \<notin> ?U" if "(i, r) \<in> requires_rel g" for r using least' [of r] that by blast
  from i obtain m where m: "m \<in> set (nodes_of g)" "i = node_ID m" by auto
  have "fst (marks g st) r" if r: "(node_ID m, r) \<in> requires_rel g" for r
  proof -
    have "r \<in> node_ID ` set (nodes_of g)"
      using r graph_okD(3) [OF ok] by (fastforce simp: requires_rel_def requires_ok_def has_id_def)
    then show ?thesis using least [of r] r m by auto
  qed
  moreover have "simple_condition g m" using simple m(1) by blast
  ultimately have "condition_holds g st fl m" using prerequisites_done [OF ok m(1)] by blast
  then have "blockedWithFlags (Some g) st fl (node_ID m) = None"
    using unique_condition [OF graph_okD(1) [OF ok] m(1)] by auto
  then show ?thesis using m i by auto
qed

lemma free_or_held:
  assumes "graph_ok g" "\<forall>n\<in>set (nodes_of g). simple_condition g n"
    and "n \<in> set (nodes_of g)" "\<not> fst (marks g (ComputeStatuses g rs)) (node_ID n)"
  shows "\<exists>m\<in>set (nodes_of g). is_ready g (ComputeStatuses g rs) (final_blocked g rs) m \<or> held g rs m"
  using some_node_free [OF assms] unfinished_cases [OF assms(1)] by meson

section \<open>Working through the queue\<close>

text \<open>One step of work: a node of the ready queue is set to done.\<close>

inductive work_step :: "graph \<Rightarrow> run_state \<Rightarrow> run_state \<Rightarrow> bool" for g where
  finish: "r \<in> set (rd_Ready (ComputeReadiness (Some g) (Some rs))) \<Longrightarrow>
    SetStatus rs (rn_ID r) StatusDone by now = Inr rs' \<Longrightarrow> work_step g rs rs'"

inductive_cases work_stepE: "work_step g rs rs'"

lemma ready_iff:
  "r \<in> set (rd_Ready (ComputeReadiness (Some g) rs)) \<longleftrightarrow>
     (\<exists>n\<in>set (nodes_of g). r = ready_entry g n \<and> is_ready g (ComputeStatuses g rs) (final_blocked g rs) n)"
  by (auto simp: ComputeReadiness_bins)

lemma ready_in:
  assumes "n \<in> set (nodes_of g)" "is_ready g (ComputeStatuses g rs) (final_blocked g rs) n"
  shows "ready_entry g n \<in> set (rd_Ready (ComputeReadiness (Some g) rs))"
  unfolding ready_iff using assms by blast

lemma explicit_after:
  assumes "SetStatus rs i StatusDone by now = Inr rs'"
  shows "explicit_status (Some rs') j = (if j = i then Some StatusDone else explicit_status (Some rs) j)"
    "rs_Nodes rs' \<noteq> None"
  using SetStatus_Inr [OF assms]
  by (auto simp: explicit_status_def node_state_of_def state_of_def explicit_def ValidStatus_def)

definition open_nodes :: "graph \<Rightarrow> run_state \<Rightarrow> string set" where
  "open_nodes g rs = {i \<in> node_ID ` set (nodes_of g). explicit_status (Some rs) i \<noteq> Some StatusDone}"

lemma ready_not_done:
  assumes "graph_ok g" "n \<in> set (nodes_of g)" "tracked g n" "statusOf (ComputeStatuses g rs) (node_ID n) = StatusReady"
  shows "explicit_status rs (node_ID n) \<noteq> Some StatusDone"
proof
  assume expl: "explicit_status rs (node_ID n) = Some StatusDone"
  then have "\<not> derives_itself g rs (node_ID n)" by (simp add: derives_itself_def)
  then show False using ComputeStatuses_cases [of "node_ID n" g rs, OF imageI [OF assms(2)]] expl assms(4)
    by (simp add: statusOf_def)
qed

lemma work_step_decreases:
  assumes "graph_ok g" "work_step g rs rs'"
  shows "open_nodes g rs' \<subset> open_nodes g rs"
proof -
  obtain r "by" now where r: "r \<in> set (rd_Ready (ComputeReadiness (Some g) (Some rs)))"
      "SetStatus rs (rn_ID r) StatusDone by now = Inr rs'" using assms(2) by (rule work_stepE)
  then obtain n where n: "n \<in> set (nodes_of g)" "rn_ID r = node_ID n" "tracked g n"
      "statusOf (ComputeStatuses g (Some rs)) (node_ID n) = StatusReady"
    by (auto simp: ready_iff ready_entry_def)
  have "node_ID n \<in> open_nodes g rs" using ready_not_done [OF assms(1) n(1,3,4)] n(1) by (simp add: open_nodes_def)
  moreover have "node_ID n \<notin> open_nodes g rs'" using explicit_after(1) [OF r(2)] n(2) by (simp add: open_nodes_def)
  moreover have "open_nodes g rs' \<subseteq> open_nodes g rs"
    using explicit_after(1) [OF r(2)] by (auto simp: open_nodes_def split: if_splits)
  ultimately show ?thesis by blast
qed

lemma work_wf:
  assumes "graph_ok g"
  shows "wf {(rs', rs). work_step g rs rs'}"
proof (rule wf_subset)
  show "wf (measure (\<lambda>rs. card (open_nodes g rs)))" by simp
  have "finite (open_nodes g rs)" for rs by (simp add: open_nodes_def)
  then show "{(rs', rs). work_step g rs rs'} \<subseteq> measure (\<lambda>rs. card (open_nodes g rs))"
    using psubset_card_mono [OF _ work_step_decreases [OF assms]] by auto
qed

text \<open>What work keeps: the node map is there and nothing is held.\<close>

definition idle :: "graph \<Rightarrow> run_state \<Rightarrow> bool" where
  "idle g rs \<longleftrightarrow> rs_Nodes rs \<noteq> None \<and> list_all (\<lambda>n. \<not> held g (Some rs) n) (nodes_of g)"

lemma work_step_idle:
  assumes "work_step g rs rs'" "idle g rs"
  shows "idle g rs'"
proof -
  obtain r "by" now where "r \<in> set (rd_Ready (ComputeReadiness (Some g) (Some rs)))"
    and r: "SetStatus rs (rn_ID r) StatusDone by now = Inr rs'" using assms(1) by (rule work_stepE)
  have "\<not> held g (Some rs') n" if "\<not> held g (Some rs) n" for n
    using that by (cases "node_ID n = rn_ID r") (simp_all add: held_def explicit_after(1) [OF r] Settled_def builtinSettled_def)
  then show ?thesis using assms(2) explicit_after(2) [OF r] by (simp add: idle_def list_all_iff)
qed

lemma stuck_means_finished:
  assumes ok: "graph_ok g" and simple: "\<forall>n\<in>set (nodes_of g). simple_condition g n"
    and idle: "idle g rs" and stuck: "\<nexists>rs'. work_step g rs rs'"
  shows "rd_Ready (ComputeReadiness (Some g) (Some rs)) = []"
    "\<forall>n\<in>set (nodes_of g). fst (marks g (ComputeStatuses g (Some rs))) (node_ID n)"
proof -
  have none: "r \<notin> set (rd_Ready (ComputeReadiness (Some g) (Some rs)))" for r
  proof
    assume r: "r \<in> set (rd_Ready (ComputeReadiness (Some g) (Some rs)))"
    have "ValidStatus StatusDone" by (simp add: ValidStatus_def)
    then obtain rs' where "SetStatus rs (rn_ID r) StatusDone [] \<lparr>unix_sec = 0, unix_nsec = 0\<rparr> = Inr rs'"
      using idle by (auto simp: SetStatus_def CanTransition_def Let_def idle_def split: option.splits)
    then show False using stuck work_step.finish [OF r] by blast
  qed
  then show "rd_Ready (ComputeReadiness (Some g) (Some rs)) = []" by (metis list.set_intros(1) neq_Nil_conv)
  show "\<forall>n\<in>set (nodes_of g). fst (marks g (ComputeStatuses g (Some rs))) (node_ID n)"
  proof (rule ccontr)
    assume "\<not> ?thesis"
    then obtain m where "m \<in> set (nodes_of g)"
        "is_ready g (ComputeStatuses g (Some rs)) (final_blocked g (Some rs)) m \<or> held g (Some rs) m"
      using free_or_held [OF ok simple] by blast
    then show False using none ready_in [of m g "Some rs"] idle unfolding idle_def list_all_iff by blast
  qed
qed

lemma work_finishes:
  assumes "graph_ok g" "\<forall>n\<in>set (nodes_of g). simple_condition g n" "idle g rs"
  shows "\<exists>rs'. (work_step g)\<^sup>*\<^sup>* rs rs' \<and> idle g rs' \<and> (\<nexists>rs''. work_step g rs' rs'')"
  using assms(3)
proof (induction rs rule: wf_induct_rule [OF work_wf [OF assms(1)]])
  case (1 rs)
  show ?case
  proof (cases "\<exists>rs'. work_step g rs rs'")
    case True
    then obtain rs1 where step: "work_step g rs rs1" by blast
    then obtain rs' where "(work_step g)\<^sup>*\<^sup>* rs1 rs'" "idle g rs'" "\<nexists>rs''. work_step g rs' rs''"
      using 1 work_step_idle by blast
    then show ?thesis using step by (meson converse_rtranclp_into_rtranclp)
  qed (use 1 in blast)
qed

section \<open>The small example is a valid project\<close>

abbreviation fresh_run :: run_state where
  "fresh_run \<equiv> NewRunState \<lparr>unix_sec = 0, unix_nsec = 0\<rparr>"

lemma small_graph_valid: "clean (Validate (Some small_graph))"
  "list_all (simple_condition small_graph) (nodes_of small_graph)" "idle small_graph fresh_run"
  "map rn_ID (rd_Blocked (ComputeReadiness (Some small_graph) None)) = [''b'']"
  by code_simp+

section \<open>Properties\<close>



text \<open>
  C38. Work terminates: in a graph without validation errors there is no infinite sequence of finishing ready nodes, because
  every step settles a node for good.
\<close>

theorem work_terminates:
  assumes "clean (Validate (Some g))"
  shows "wf {(rs', rs). work_step g rs rs'}"
  by (rule work_wf) (use assms in \<open>simp add: Validate_def validate_graph_clean\<close>)

theorem work_terminates_witness: "wf {(rs', rs). work_step small_graph rs rs'}"
  by (rule work_terminates) (rule small_graph_valid(1))



end
