(* ===== verification/Globs.thy ===== *)
theory Globs
  imports Go_Strings
begin

text \<open>
  Glob patterns (\<^verbatim>\<open>internal/engine/globs.go\<close>). The first section models \<^verbatim>\<open>path.Match\<close> of Go's
  standard library on byte strings (\<open>None\<close> is \<^verbatim>\<open>ErrBadPattern\<close>); the second is the table
  \<^verbatim>\<open>matchSegments\<close> fills with its two alternating rows, as list updates in the order of the loops;
  the last relates the table to the direct recursive reading of \<^verbatim>\<open>**\<close>.
\<close>

section \<open>The library's segment matcher\<close>

fun chunk_split :: "bool \<Rightarrow> string \<Rightarrow> string \<times> string" where
  "chunk_split inrange [] = ([], [])"
| "chunk_split inrange (c # cs) =
     (if c = CHR 0x5C then
        (case cs of
           [] \<Rightarrow> ([c], [])
         | d # ds \<Rightarrow> apfst (\<lambda>chunk. c # d # chunk) (chunk_split inrange ds))
      else if c = CHR ''*'' \<and> \<not> inrange then ([], c # cs)
      else apfst (\<lambda>chunk. c # chunk)
             (chunk_split (if c = CHR ''['' then True else if c = CHR '']'' then False else inrange) cs))"

definition scanChunk :: "string \<Rightarrow> bool \<times> string \<times> string" where
  "scanChunk pattern =
     (let p = dropWhile (\<lambda>c. c = CHR ''*'') pattern
      in (length p < length pattern, chunk_split False p))"

definition getEsc :: "string \<Rightarrow> (nat \<times> string) option" where
  "getEsc chunk =
     (if chunk = [] \<or> hd chunk = CHR ''-'' \<or> hd chunk = CHR '']'' then None
      else
        let ch = (if hd chunk = CHR 0x5C then tl chunk else chunk)
        in if ch = [] then None
           else (case decode_rune ch of
                   (r, n) \<Rightarrow>
                     if r = rune_error \<and> n = 1 then None
                     else if drop n ch = [] then None
                     else Some (r, drop n ch)))"

lemma snd_if_pos: "0 < snd x \<Longrightarrow> 0 < snd y \<Longrightarrow> 0 < snd (if b then x else y)"
  by simp

lemma snd_case_pos:
  "0 < snd x \<Longrightarrow> (\<And>c cs. 0 < snd (f c cs)) \<Longrightarrow> 0 < snd (case xs of [] \<Rightarrow> x | c # cs \<Rightarrow> f c cs)"
  by (cases xs) simp_all

lemma decode_rune_pos: "0 < snd (decode_rune (c # cs))"
  unfolding decode_rune.simps(2) Let_def by (intro snd_if_pos snd_case_pos) simp_all

lemma getEsc_shorter:
  assumes "getEsc chunk = Some (r, ch)"
  shows "length ch < length chunk \<and> ch \<noteq> []"
proof -
  let ?c = "if hd chunk = CHR 0x5C then tl chunk else chunk"
  have *: "?c \<noteq> []" "chunk \<noteq> []" "ch = drop (snd (decode_rune ?c)) ?c" "ch \<noteq> []"
    using assms by (auto simp: getEsc_def Let_def split: if_splits prod.splits)
  obtain d ds where d: "?c = d # ds" using *(1) by (meson neq_Nil_conv)
  have "length ch < length ?c" using decode_rune_pos [of d ds] unfolding *(3) d by simp
  moreover have "length ?c \<le> length chunk" by simp
  ultimately show ?thesis using *(4) by linarith
qed

text \<open>The ranges of a character class, up to and including the closing bracket.\<close>

function class_scan :: "nat \<Rightarrow> bool \<Rightarrow> bool \<Rightarrow> string \<Rightarrow> (bool \<times> string) option" where
  "class_scan r match some chunk =
     (if chunk \<noteq> [] \<and> hd chunk = CHR '']'' \<and> some then Some (match, tl chunk)
      else
        (case getEsc chunk of
           None \<Rightarrow> None
         | Some (lo, ch) \<Rightarrow>
             if hd ch = CHR ''-'' then
               (case getEsc (tl ch) of
                  None \<Rightarrow> None
                | Some (hi, ch') \<Rightarrow> class_scan r (match \<or> (lo \<le> r \<and> r \<le> hi)) True ch')
             else class_scan r (match \<or> (lo \<le> r \<and> r \<le> lo)) True ch))"
  by pat_completeness auto
termination
  by (relation "measure (\<lambda>(_, _, _, chunk). length chunk)") (auto dest!: getEsc_shorter)

lemma class_scan_shorter: "class_scan r m some chunk = Some (m', ch) \<Longrightarrow> length ch < length chunk"
proof (induction r m some chunk rule: class_scan.induct)
  case (1 r match some chunk)
  show ?case
  proof (cases "chunk \<noteq> [] \<and> hd chunk = CHR '']'' \<and> some")
    case True
    then show ?thesis using 1(3) by (subst (asm) class_scan.simps) (auto simp: neq_Nil_conv)
  next
    case False
    then obtain lo c1 where lo: "getEsc chunk = Some (lo, c1)"
      using 1(3) by (subst (asm) class_scan.simps) (auto split: if_splits option.splits)
    show ?thesis
    proof (cases "hd c1 = CHR ''-''")
      case True
      then obtain hi c2 where hi: "getEsc (tl c1) = Some (hi, c2)"
        using 1(3) False lo by (subst (asm) class_scan.simps) (auto split: if_splits option.splits)
      have "class_scan r (match \<or> (lo \<le> r \<and> r \<le> hi)) True c2 = Some (m', ch)"
        using 1(3) False lo True hi by (subst (asm) class_scan.simps) auto
      then show ?thesis
        using 1(1) [OF False lo refl True hi refl] getEsc_shorter [OF lo] getEsc_shorter [OF hi] by auto
    next
      case dash: False
      have "class_scan r (match \<or> (lo \<le> r \<and> r \<le> lo)) True c1 = Some (m', ch)"
        using 1(3) False lo dash by (subst (asm) class_scan.simps) auto
      then show ?thesis using 1(2) [OF False lo refl dash] getEsc_shorter [OF lo] by auto
    qed
  qed
qed

declare class_scan.simps [simp del]

text \<open>
  \<^verbatim>\<open>matchChunk\<close>: after a failure the loop goes on over the chunk only to check its syntax. The result
  is \<open>None\<close> for a malformed chunk, \<open>Some None\<close> for no match, and otherwise what is left of the name.
\<close>

definition class_head :: "bool \<Rightarrow> string \<Rightarrow> string \<Rightarrow> (bool \<times> string \<times> string) option" where
  "class_head failed cs s =
     (let r = (if failed then 0 else fst (decode_rune s));
          s' = (if failed then s else drop (snd (decode_rune s)) s);
          negated = (cs \<noteq> [] \<and> hd cs = CHR ''^'')
      in case class_scan r False False (if negated then tl cs else cs) of
           None \<Rightarrow> None
         | Some (match, ch) \<Rightarrow> Some (failed \<or> match = negated, ch, s'))"

lemma class_head_shorter: "class_head failed cs s = Some (f, ch, s') \<Longrightarrow> length ch < length cs"
  by (auto simp: class_head_def Let_def split: option.splits if_splits dest!: class_scan_shorter)

function matchChunk :: "bool \<Rightarrow> string \<Rightarrow> string \<Rightarrow> string option option" where
  "matchChunk failed [] s = Some (if failed then None else Some s)"
| "matchChunk failed (c # cs) s =
     (let failed = (failed \<or> s = []) in
      if c = CHR ''['' then
        (case class_head failed cs s of
           None \<Rightarrow> None
         | Some (failed', ch, s') \<Rightarrow> matchChunk failed' ch s')
      else if c = CHR ''?'' then
        (if failed then matchChunk True cs s
         else matchChunk (hd s = CHR ''/'') cs (drop (snd (decode_rune s)) s))
      else if c = CHR 0x5C \<and> cs = [] then None
      else
        let d = (if c = CHR 0x5C then hd cs else c);
            ds = (if c = CHR 0x5C then tl cs else cs)
        in if failed then matchChunk True ds s
           else matchChunk (d \<noteq> hd s) ds (tl s))"
  by pat_completeness auto
termination
  by (relation "measure (\<lambda>(_, chunk, _). length chunk)")
     (auto dest!: class_head_shorter simp: less_Suc_eq_le)

text \<open>The search for a later start of the chunk after a star; it does not cross a slash.\<close>

fun star_search :: "string \<Rightarrow> bool \<Rightarrow> string \<Rightarrow> string option option" where
  "star_search chunk last_chunk [] = Some None"
| "star_search chunk last_chunk (c # name) =
     (if c = CHR ''/'' then Some None
      else (case matchChunk False chunk name of
              None \<Rightarrow> None
            | Some None \<Rightarrow> star_search chunk last_chunk name
            | Some (Some t) \<Rightarrow>
                if last_chunk \<and> t \<noteq> [] then star_search chunk last_chunk name else Some (Some t)))"

lemma length_chunk_split: "length (fst (chunk_split b p)) + length (snd (chunk_split b p)) = length p"
proof (induction b p rule: chunk_split.induct)
  case (2 inrange c cs)
  show ?case
  proof (cases "c = CHR 0x5C")
    case True
    then show ?thesis using 2(1) by (cases cs) simp_all
  next
    case False
    then show ?thesis using 2(2) by (cases "c = CHR ''*'' \<and> \<not> inrange") simp_all
  qed
qed simp

lemma chunk_split_nonempty: "c \<noteq> CHR ''*'' \<Longrightarrow> fst (chunk_split False (c # cs)) \<noteq> []"
  by (cases "c = CHR 0x5C"; cases cs) simp_all

lemma chunk_split_progress:
  assumes "c \<noteq> CHR ''*''"
  shows "length (snd (chunk_split False (c # cs))) < length (c # cs)"
proof -
  have "0 < length (fst (chunk_split False (c # cs)))" using chunk_split_nonempty [OF assms] by blast
  then show ?thesis using length_chunk_split [of False "c # cs"] by linarith
qed

lemma scanChunk_shorter:
  assumes "scanChunk (c # cs) = (star, chunk, rest)"
  shows "length rest \<le> length cs"
proof -
  let ?p = "dropWhile (\<lambda>c. c = CHR ''*'') (c # cs)"
  have le: "length ?p \<le> length (c # cs)" by (rule length_dropWhile_le)
  have r: "rest = snd (chunk_split False ?p)" using assms by (auto simp: scanChunk_def Let_def)
  show ?thesis
  proof (cases "c = CHR ''*''")
    case True
    then have "length ?p \<le> length cs" by (simp add: length_dropWhile_le)
    then show ?thesis unfolding r using length_chunk_split [of False ?p] by (metis add_leD2)
  next
    case False
    then show ?thesis using chunk_split_progress [of c cs] unfolding r by (simp del: chunk_split.simps)
  qed
qed

function rest_valid :: "string \<Rightarrow> bool" where
  "rest_valid [] = True"
| "rest_valid (c # cs) =
     (case scanChunk (c # cs) of (star, chunk, rest) \<Rightarrow> matchChunk False chunk [] \<noteq> None \<and> rest_valid rest)"
  by pat_completeness auto
termination
  by (relation "measure length") (auto dest!: sym [of _ "scanChunk _"] scanChunk_shorter)

function path_match :: "string \<Rightarrow> string \<Rightarrow> bool option" where
  "path_match [] name = Some (name = [])"
| "path_match (c # cs) name =
     (case scanChunk (c # cs) of
        (star, chunk, pattern) \<Rightarrow>
          if star \<and> chunk = [] then Some (CHR ''/'' \<notin> set name)
          else
            (case matchChunk False chunk name of
               None \<Rightarrow> None
             | Some found \<Rightarrow>
                 if found \<noteq> None \<and> (the found = [] \<or> pattern \<noteq> []) then path_match pattern (the found)
                 else (case (if star then star_search chunk (pattern = []) name else Some None) of
                         None \<Rightarrow> None
                       | Some (Some t) \<Rightarrow> path_match pattern t
                       | Some None \<Rightarrow> if rest_valid pattern then Some False else None)))"
  by pat_completeness auto
termination
  by (relation "measure (\<lambda>(p, _). length p)") (auto dest!: sym [of _ "scanChunk _"] scanChunk_shorter)

section \<open>Segments\<close>

text \<open>
  The rows of the table, filled from the last column back. \<open>star_row\<close> and \<open>seg_row\<close> are the two
  inner loops with the column counting down to 0.
\<close>

fun star_row :: "nat \<Rightarrow> bool list \<Rightarrow> bool list \<Rightarrow> bool list" where
  "star_row 0 nxt cur = cur"
| "star_row (Suc j) nxt cur = star_row j nxt (cur[j := nxt ! j \<or> cur ! Suc j])"

fun seg_row :: "string \<Rightarrow> string list \<Rightarrow> nat \<Rightarrow> bool list \<Rightarrow> bool list \<Rightarrow> bool list" where
  "seg_row p segs 0 nxt cur = cur"
| "seg_row p segs (Suc j) nxt cur =
     seg_row p segs j nxt (cur[j := nxt ! Suc j \<and> path_match p (segs ! j) = Some True])"

definition fill_row :: "string list \<Rightarrow> string \<Rightarrow> bool list \<times> bool list \<Rightarrow> bool list \<times> bool list" where
  "fill_row segs p rows =
     (case rows of
        (nxt, cur) \<Rightarrow>
          let n = length segs;
              cur' = (if p = ''**'' then star_row n nxt (cur[n := nxt ! n])
                      else seg_row p segs n nxt (cur[n := False]))
          in (cur', nxt))"

definition matchSegments :: "string list \<Rightarrow> string list \<Rightarrow> bool" where
  "matchSegments pat segs =
     (let n = length segs;
          blank = replicate (n + 1) False
      in fst (fold (fill_row segs) (rev pat) (blank[n := True], blank)) ! 0)"

definition MatchGlob :: "string \<Rightarrow> string \<Rightarrow> bool" where
  "MatchGlob pattern p =
     (if pattern = [] \<or> p = [] \<or> contains pattern [CHR 0x5C] \<or> contains p [CHR 0x5C] then False
      else matchSegments (split_on CHR ''/'' pattern) (split_on CHR ''/'' p))"

fun MatchAnyGlob :: "string list \<Rightarrow> string \<Rightarrow> bool" where
  "MatchAnyGlob [] p = False"
| "MatchAnyGlob (pattern # patterns) p = (if MatchGlob pattern p then True else MatchAnyGlob patterns p)"

section \<open>The table is the recursive definition\<close>

text \<open>A \<^verbatim>\<open>**\<close> takes no segment or one more; any other pattern segment takes one that it matches.\<close>

fun segs_match :: "string list \<Rightarrow> string list \<Rightarrow> bool" where
  "segs_match [] segs \<longleftrightarrow> segs = []"
| "segs_match (p # pat) [] \<longleftrightarrow> p = ''**'' \<and> segs_match pat []"
| "segs_match (p # pat) (s # segs) \<longleftrightarrow>
     (if p = ''**'' then segs_match pat (s # segs) \<or> segs_match (p # pat) segs
      else path_match p s = Some True \<and> segs_match pat segs)"

definition row_of :: "string list \<Rightarrow> string list \<Rightarrow> bool list" where
  "row_of pat segs = map (\<lambda>j. segs_match pat (drop j segs)) [0..<length segs + 1]"

lemma length_rows [simp]:
  "length (star_row k nxt cur) = length cur" "length (seg_row p segs k nxt cur) = length cur"
  by (induction k arbitrary: cur) simp_all

lemma star_row_nth:
  assumes "k < length cur" "j < length cur"
  shows "star_row k nxt cur ! j = (if k \<le> j then cur ! j else nxt ! j \<or> star_row k nxt cur ! Suc j)"
  using assms
proof (induction k arbitrary: cur j)
  case (Suc k)
  let ?c = "cur[k := nxt ! k \<or> cur ! Suc k]"
  have IH: "star_row k nxt ?c ! i = (if k \<le> i then ?c ! i else nxt ! i \<or> star_row k nxt ?c ! Suc i)"
    if "i < length cur" for i using Suc.IH [of ?c i] Suc.prems that by simp
  show ?case using Suc.prems IH [of j] IH [of "Suc j"] by (cases "k = j") (auto simp: not_less_eq_eq)
qed simp

lemma seg_row_nth:
  assumes "k < length cur" "j < length cur"
  shows "seg_row p segs k nxt cur ! j = (if k \<le> j then cur ! j else nxt ! Suc j \<and> path_match p (segs ! j) = Some True)"
  using assms by (induction k arbitrary: cur) (auto simp: nth_list_update not_less_eq_eq dest: le_antisym)

lemma row_of_nth: "j \<le> length segs \<Longrightarrow> row_of pat segs ! j = segs_match pat (drop j segs)"
  unfolding row_of_def by (simp del: upt_Suc)

lemma length_row_of [simp]: "length (row_of pat segs) = length segs + 1"
  by (simp add: row_of_def)

lemma fill_row_eq:
  assumes "length cur = length segs + 1"
  shows "fill_row segs p (row_of pat segs, cur) = (row_of (p # pat) segs, row_of pat segs)"
proof -
  let ?n = "length segs" and ?nxt = "row_of pat segs"
  let ?cur = "if p = ''**'' then star_row ?n ?nxt (cur[?n := ?nxt ! ?n]) else seg_row p segs ?n ?nxt (cur[?n := False])"
  have "?cur ! (?n - k) = segs_match (p # pat) (drop (?n - k) segs)" if "k \<le> ?n" for k
    using that
  proof (induction k)
    case 0
    show ?case using assms row_of_nth [of ?n segs pat]
      star_row_nth [of ?n "cur[?n := ?nxt ! ?n]" ?n ?nxt] seg_row_nth [of ?n "cur[?n := False]" ?n p segs ?nxt] by simp
  next
    case (Suc k)
    let ?j = "?n - Suc k"
    have j: "?j < ?n" "Suc ?j = ?n - k" using Suc.prems by auto
    have drp: "drop ?j segs = segs ! ?j # drop (?n - k) segs" using j by (metis Cons_nth_drop_Suc)
    have nx: "?nxt ! ?j = segs_match pat (drop ?j segs)" "?nxt ! Suc ?j = segs_match pat (drop (Suc ?j) segs)"
      using row_of_nth j by (simp_all add: Suc_leI)
    show ?case
    proof (cases "p = ''**''")
      case True
      then show ?thesis using Suc star_row_nth [of ?n "cur[?n := ?nxt ! ?n]" ?j ?nxt] assms nx drp j by simp
    next
      case False
      then show ?thesis using seg_row_nth [of ?n "cur[?n := False]" ?j p segs ?nxt] assms nx drp j by auto
    qed
  qed
  then have at: "?cur ! j = row_of (p # pat) segs ! j" if "j \<le> ?n" for j
    using that row_of_nth [of j segs "p # pat"] diff_diff_cancel [of j ?n] by (metis diff_le_self)
  have "?cur = row_of (p # pat) segs"
  proof (rule nth_equalityI)
    show "length ?cur = length (row_of (p # pat) segs)" using assms by simp
    show "?cur ! j = row_of (p # pat) segs ! j" if "j < length ?cur" for j
      using that assms at [of j] by (simp split: if_splits)
  qed
  then show ?thesis by (simp add: fill_row_def Let_def)
qed

lemma fill_rows:
  assumes "length cur = length segs + 1"
  shows "\<exists>cur'. length cur' = length segs + 1 \<and>
    fold (fill_row segs) (rev pat) (row_of [] segs, cur) = (row_of pat segs, cur')"
  using assms
proof (induction pat)
  case (Cons p pat)
  then obtain cur' where "length cur' = length segs + 1"
    "fold (fill_row segs) (rev pat) (row_of [] segs, cur) = (row_of pat segs, cur')" by auto
  then show ?case by (auto simp: fill_row_eq)
qed simp

lemma first_row: "(replicate (length segs + 1) False)[length segs := True] = row_of [] segs"
proof (rule nth_equalityI)
  fix i
  assume "i < length ((replicate (length segs + 1) False)[length segs := True])"
  then have i: "i < length segs + 1" by (simp del: replicate.simps)
  then have "(replicate (length segs + 1) False)[length segs := True] ! i = (i = length segs)"
    by (simp only: nth_list_update length_replicate nth_replicate) auto
  then show "(replicate (length segs + 1) False)[length segs := True] ! i = row_of [] segs ! i"
    using i row_of_nth [of i segs "[]"] by auto
qed (simp del: replicate.simps)

lemma matchSegments_eq: "matchSegments pat segs = segs_match pat segs"
proof -
  obtain cur' where "fold (fill_row segs) (rev pat) (row_of [] segs, replicate (length segs + 1) False) = (row_of pat segs, cur')"
    using fill_rows [of "replicate (length segs + 1) False" segs pat] by (auto simp del: replicate.simps)
  then show ?thesis using row_of_nth [of 0 segs pat] unfolding matchSegments_def Let_def first_row by simp
qed

section \<open>Literal segments\<close>

definition literal_char :: "char \<Rightarrow> bool" where
  "literal_char c \<longleftrightarrow> c \<noteq> CHR ''*'' \<and> c \<noteq> CHR ''?'' \<and> c \<noteq> CHR ''['' \<and> c \<noteq> CHR 0x5C"

lemma matchChunk_failed: "list_all literal_char p \<Longrightarrow> matchChunk True p s = Some None"
  by (induction p arbitrary: s) (simp_all add: literal_char_def Let_def)

lemma matchChunk_literal:
  "list_all literal_char p \<Longrightarrow>
     matchChunk False p s = Some (if has_prefix s p then Some (drop (length p) s) else None)"
proof (induction p arbitrary: s)
  case (Cons c p)
  then have lit: "c \<noteq> CHR ''['' \<and> c \<noteq> CHR ''?'' \<and> c \<noteq> CHR 0x5C" and p: "list_all literal_char p"
    by (simp_all add: literal_char_def [of c])
  show ?case
  proof (cases s)
    case Nil
    then show ?thesis using lit matchChunk_failed [OF p] by (simp add: Let_def has_prefix_def)
  next
    case (Cons d s')
    then show ?thesis using lit Cons.IH [OF p] matchChunk_failed [OF p]
      by (cases "c = d") (simp_all add: Let_def has_prefix_def)
  qed
qed (simp add: has_prefix_def)

lemma chunk_split_literal: "list_all literal_char p \<Longrightarrow> chunk_split False p = (p, [])"
  by (induction p) (simp_all add: literal_char_def)

lemma path_match_literal:
  assumes "list_all literal_char p"
  shows "path_match p s = Some (s = p)"
proof (cases p)
  case (Cons c cs)
  have sc: "scanChunk (c # cs) = (False, c # cs, [])"
    using assms chunk_split_literal [OF assms] by (simp add: scanChunk_def Let_def Cons literal_char_def)
  have "drop (length p) s = [] \<and> has_prefix s p \<longleftrightarrow> s = p" by (auto simp: has_prefix_iff)
  then show ?thesis using matchChunk_literal [OF assms, of s]
    unfolding Cons path_match.simps(2) sc by (auto split: if_splits)
qed simp

section \<open>Properties\<close>

text \<open>
  C37. The two-row table computes the recursive reading of globs: \<^verbatim>\<open>matchSegments\<close> holds exactly when the
  pattern segments match the path segments with every \<^verbatim>\<open>**\<close> standing for some number of whole segments and
  every other segment matched by \<^verbatim>\<open>path.Match\<close>; a path with a backslash never matches, and a pattern
  without wildcards matches exactly itself.
\<close>

theorem glob_table_correct:
  "matchSegments pat segs = segs_match pat segs \<and>
   (MatchGlob pattern p = (pattern \<noteq> [] \<and> p \<noteq> [] \<and> \<not> contains pattern [CHR 0x5C] \<and> \<not> contains p [CHR 0x5C] \<and>
      segs_match (split_on CHR ''/'' pattern) (split_on CHR ''/'' p))) \<and>
   (segs_match pat segs = (segs = pat) \<or> (\<exists>s\<in>set pat. \<exists>c\<in>set s. c \<in> set ''*?['' \<or> c = CHR 0x5C))"
proof (intro conjI)
  show "segs_match pat segs = (segs = pat) \<or> (\<exists>s\<in>set pat. \<exists>c\<in>set s. c \<in> set ''*?['' \<or> c = CHR 0x5C)"
  proof (cases "list_all (list_all literal_char) pat")
    case True
    then have "segs_match pat segs = (segs = pat)"
    proof (induction pat segs rule: segs_match.induct)
      case (2 p pat)
      then show ?case by (auto simp: literal_char_def)
    next
      case (3 p pat s segs)
      have "p \<noteq> ''**''" using 3(4) by (auto simp: literal_char_def)
      then show ?case using 3(3) [OF \<open>p \<noteq> ''**''\<close>] 3(4) path_match_literal [of p s] by auto
    qed simp
    then show ?thesis ..
  next
    case False
    then show ?thesis by (auto simp: list_all_iff literal_char_def)
  qed
qed (auto simp: matchSegments_eq MatchGlob_def)

end
