(* ===== verification/Node_File.thy ===== *)
theory Node_File
  imports Graph_Model
begin

text \<open>
  Node files (\<^verbatim>\<open>internal/engine/nodefile.go\<close>): the YAML frontmatter and the Markdown body of
  \<^verbatim>\<open>nodes/<id>.md\<close>. The YAML codec is a parameter: \<open>unmarshal\<close> decodes a text into a metadata map or
  an error, \<open>encode\<close> gives the text the encoder writes before it is closed.
\<close>

section \<open>Metadata\<close>

text \<open>
  The values \<^verbatim>\<open>SyncFrontmatter\<close> stores; \<open>MetaAny\<close> is whatever the decoder produced. \<open>MetaEffects\<close> is
  a slice of one-entry maps with the key \<^verbatim>\<open>set\<close>.
\<close>

datatype 'y meta_value = MetaString string | MetaStrings "string list" | MetaEffects "string list" | MetaAny 'y

type_synonym 'y meta = "string \<rightharpoonup> 'y meta_value"

record 'y node_file =
  nf_Meta :: "'y meta option"
  nf_Body :: string

definition fmDelim :: string where "fmDelim = ''---''"

abbreviation nl :: string where "nl \<equiv> [CHR 0x0A]"
abbreviation crnl :: string where "crnl \<equiv> [CHR 0x0D, CHR 0x0A]"

datatype 'e file_error = Frontmatter 'e | MissingDelimiter

section \<open>Reading\<close>

text \<open>The smallest index at which one of the markers occurs, in the order the loop tries them.\<close>

definition markers :: "string list" where
  "markers = [nl @ fmDelim @ nl, nl @ fmDelim @ crnl, crnl @ fmDelim @ crnl, crnl @ fmDelim @ nl]"

fun closing_index :: "string \<Rightarrow> string list \<Rightarrow> nat option \<Rightarrow> nat option" where
  "closing_index rest [] idx = idx"
| "closing_index rest (marker # ms) idx =
     closing_index rest ms
       (case index_of rest marker of
          None \<Rightarrow> idx
        | Some i \<Rightarrow> (case idx of None \<Rightarrow> Some i | Some k \<Rightarrow> if i < k then Some i else Some k))"

definition ParseNodeFile :: "(string \<Rightarrow> 'e + 'y meta) \<Rightarrow> string \<Rightarrow> 'e file_error + 'y node_file" where
  "ParseNodeFile unmarshal s =
     (if \<not> has_prefix s (fmDelim @ nl) \<and> \<not> has_prefix s (fmDelim @ crnl)
      then Inr \<lparr>nf_Meta = Some Map.empty, nf_Body = s\<rparr>
      else
        let rest = trim_prefix (trim_prefix (drop (length fmDelim) s) crnl) nl
        in case closing_index rest markers None of
             None \<Rightarrow>
               (case cut_suffix (trim_right_set rest crnl) (nl @ fmDelim) of
                  Some fmText \<Rightarrow>
                    (case unmarshal fmText of
                       Inl err \<Rightarrow> Inl (Frontmatter err)
                     | Inr meta \<Rightarrow> Inr \<lparr>nf_Meta = Some meta, nf_Body = []\<rparr>)
                | None \<Rightarrow> Inl MissingDelimiter)
           | Some idx \<Rightarrow>
               let fmText = take idx rest;
                   body = trim_left_set (trim_prefix (trim_prefix (trim_prefix (drop idx rest) nl) crnl) fmDelim) crnl
               in case unmarshal fmText of
                    Inl err \<Rightarrow> Inl (Frontmatter err)
                  | Inr meta \<Rightarrow> Inr \<lparr>nf_Meta = Some meta, nf_Body = body\<rparr>)"

section \<open>Writing\<close>

definition ComposeNodeFile :: "('y meta option \<Rightarrow> 'e + string) \<Rightarrow> 'y node_file \<Rightarrow> 'e + string" where
  "ComposeNodeFile encode nf =
     (case encode (nf_Meta nf) of
        Inl err \<Rightarrow> Inl err
      | Inr text \<Rightarrow>
          let body = trim_left_set (nf_Body nf) crnl
          in Inr (fmDelim @ nl @ text @ fmDelim @ nl @ (if body \<noteq> [] then nl @ body else [])))"

section \<open>Snapshots\<close>

definition setOrDelete :: "'y meta \<Rightarrow> string \<Rightarrow> 'y meta_value \<Rightarrow> bool \<Rightarrow> 'y meta" where
  "setOrDelete m key val keep = (if keep then m(key \<mapsto> val) else m(key := None))"

definition SyncFrontmatter :: "'y node_file \<Rightarrow> node \<Rightarrow> 'y node_file" where
  "SyncFrontmatter nf n =
     (let m0 = (case nf_Meta nf of None \<Rightarrow> Map.empty | Some m \<Rightarrow> m);
          m1 = m0(''id'' \<mapsto> MetaString (node_ID n));
          m2 = setOrDelete m1 ''title'' (MetaString (node_Title n)) (node_Title n \<noteq> []);
          m3 = setOrDelete m2 ''kind'' (MetaString (node_Kind n)) (node_Kind n \<noteq> []);
          m4 = setOrDelete m3 ''priority'' (MetaString (node_Priority n)) (node_Priority n \<noteq> []);
          m5 = setOrDelete m4 ''assignee'' (MetaString (node_Assignee n)) (node_Assignee n \<noteq> []);
          m6 = setOrDelete m5 ''write_access'' (MetaString (node_WriteAccess n)) (node_WriteAccess n \<noteq> []);
          m7 = setOrDelete m6 ''requires'' (MetaString (node_Requires n)) (node_Requires n \<noteq> []);
          m8 = setOrDelete m7 ''tags'' (MetaStrings (node_Tags n)) (length (node_Tags n) > 0);
          m9 = setOrDelete m8 ''refs'' (MetaStrings (node_Refs n)) (length (node_Refs n) > 0);
          m10 = (if length (node_Effects n) > 0
                 then m9(''effects'' \<mapsto> MetaEffects (map effect_Set (node_Effects n)))
                 else m9(''effects'' := None))
      in nf\<lparr>nf_Meta := Some m10\<rparr>)"

section \<open>Finding the closing line\<close>

lemma has_prefix_Nil [simp]: "has_prefix [] p \<longleftrightarrow> p = []"
  by (auto simp: has_prefix_def)

lemma index_of_Some:
  "index_of s sub = Some i \<Longrightarrow> has_prefix (drop i s) sub"
  by (induction s sub arbitrary: i rule: index_of.induct) (auto split: if_splits)

lemma index_of_first:
  assumes "has_prefix (drop i s) sub" "\<And>j. j < i \<Longrightarrow> \<not> has_prefix (drop j s) sub" "sub \<noteq> []"
  shows "index_of s sub = Some i"
  using assms
proof (induction s arbitrary: i)
  case (Cons c s)
  show ?case
  proof (cases i)
    case 0
    then show ?thesis using Cons.prems by simp
  next
    case (Suc k)
    have "index_of s sub = Some k"
      by (rule Cons.IH) (use Cons.prems Cons.prems(2) [of "Suc _"] Suc in auto)
    moreover have "\<not> has_prefix (c # s) sub" using Cons.prems(2) [of 0] Suc by simp
    ultimately show ?thesis using Suc by simp
  qed
qed simp

lemma index_of_None:
  assumes "index_of s sub = None"
  shows "\<not> has_prefix (drop j s) sub"
  using assms by (induction s sub arbitrary: j rule: index_of.induct) (auto simp: drop_Cons' split: if_splits)

lemma contains_prefix: "has_prefix (drop j s) sub \<Longrightarrow> contains s sub"
  using index_of_None by (auto simp: contains_def)

lemma has_prefix_nth: "has_prefix s p \<longleftrightarrow> length p \<le> length s \<and> (\<forall>k<length p. s ! k = p ! k)"
  by (auto simp: has_prefix_def list_eq_iff_nth_eq)

lemma closing_index_keep:
  "\<forall>m\<in>set ms. \<forall>i. index_of rest m = Some i \<longrightarrow> k \<le> i \<Longrightarrow> closing_index rest ms (Some k) = Some k"
  by (induction ms) (auto split: option.split)

text \<open>
  The text of the frontmatter without its last newline: it has no carriage return and no line of its
  own that is a delimiter.
\<close>

definition fm_text_ok :: "string \<Rightarrow> bool" where
  "fm_text_ok t \<longleftrightarrow> CHR 0x0D \<notin> set t \<and> \<not> contains (t @ nl) (nl @ fmDelim @ nl)"

lemma first_marker:
  assumes "fm_text_ok t"
  shows "index_of (t @ nl @ fmDelim @ nl @ tail) (nl @ fmDelim @ nl) = Some (length t)"
proof (rule index_of_first)
  let ?m = "nl @ fmDelim @ nl" and ?rest = "t @ nl @ fmDelim @ nl @ tail"
  have len: "length ?m = 5" by (simp add: fmDelim_def)
  show "has_prefix (drop (length t) ?rest) ?m" by (simp add: has_prefix_def fmDelim_def)
  show "\<not> has_prefix (drop j ?rest) ?m" if "j < length t" for j
  proof
    assume pre: "has_prefix (drop j ?rest) ?m"
    have at: "?rest ! (j + k) = ?m ! k" if k: "k < 5" for k
    proof -
      have "drop j ?rest ! k = ?m ! k" using pre k unfolding has_prefix_nth len by blast
      then show ?thesis using \<open>j < length t\<close> nth_drop [of j ?rest k] by simp
    qed
    have "?rest ! length t = CHR 0x0A" by simp
    then have "length t \<noteq> j + k" if "k = 1 \<or> k = 2 \<or> k = 3" for k
      using at [of k] that by (auto simp: numeral_eq_Suc fmDelim_def nth_append)
    from this [of 1] this [of 2] this [of 3] have far: "j + 4 \<le> length t" using that by simp
    have "drop j (t @ nl) ! k = ?m ! k" if k: "k < 5" for k
    proof -
      have "drop j (t @ nl) ! k = (t @ nl) ! (j + k)" by (rule nth_drop) (use that far in simp)
      also have "\<dots> = ?rest ! (j + k)" using k far by (cases "j + k < length t") (auto simp: nth_append)
      finally show ?thesis using at [OF k] by simp
    qed
    then have "has_prefix (drop j (t @ nl)) ?m" unfolding has_prefix_nth len using far by simp
    then show False using assms contains_prefix by (auto simp: fm_text_ok_def)
  qed
qed simp

lemma other_markers:
  assumes "fm_text_ok t" "m \<in> {nl @ fmDelim @ crnl, crnl @ fmDelim @ crnl, crnl @ fmDelim @ nl}"
    and "index_of (t @ nl @ fmDelim @ nl @ tail) m = Some i"
  shows "length t \<le> i"
proof (rule ccontr)
  let ?rest = "t @ nl @ fmDelim @ nl @ tail"
  assume "\<not> length t \<le> i"
  obtain k where k: "k \<le> 4" "m ! k = CHR 0x0D" "k < length m"
    using assms(2) by (auto simp: fmDelim_def intro: that [of 0] that [of 4])
  have "drop i ?rest ! k = m ! k" using index_of_Some [OF assms(3)] k(3) unfolding has_prefix_nth by blast
  then have "?rest ! (i + k) = CHR 0x0D" using nth_drop [of i ?rest k] \<open>\<not> length t \<le> i\<close> k(2) by simp
  moreover have "?rest ! (i + k) \<noteq> CHR 0x0D"
  proof (cases "i + k < length t")
    case True
    then show ?thesis using assms(1) by (auto simp: fm_text_ok_def nth_append in_set_conv_nth)
  next
    case False
    then have "i + k - length t \<in> {0, 1, 2, 3}" using k(1) \<open>\<not> length t \<le> i\<close> by auto
    then show ?thesis using False by (auto simp: nth_append fmDelim_def numeral_eq_Suc)
  qed
  ultimately show False by simp
qed

lemma closing_at:
  assumes "fm_text_ok t"
  shows "closing_index (t @ nl @ fmDelim @ nl @ tail) markers None = Some (length t)"
proof -
  have "closing_index (t @ nl @ fmDelim @ nl @ tail) markers None =
      closing_index (t @ nl @ fmDelim @ nl @ tail) [nl @ fmDelim @ crnl, crnl @ fmDelim @ crnl, crnl @ fmDelim @ nl] (Some (length t))"
    unfolding markers_def by (subst closing_index.simps(2)) (simp only: first_marker [OF assms] option.case)
  also have "\<dots> = Some (length t)"
    by (rule closing_index_keep) (use other_markers [OF assms] in \<open>simp only: list.set insert_iff\<close>, blast)
  finally show ?thesis .
qed

lemma trim_left_idem [simp]: "trim_left_set (trim_left_set s cs) cs = trim_left_set s cs"
  by (simp add: trim_left_set_def)

lemma trim_left_newlines [simp]: "trim_left_set (CHR 0x0A # s) crnl = trim_left_set s crnl"
  by (simp add: trim_left_set_def)

lemma parse_composed:
  assumes "encode (nf_Meta nf) = Inr (t @ nl)" "fm_text_ok t" "unmarshal t = Inr meta"
    and "ComposeNodeFile encode nf = Inr data"
  shows "ParseNodeFile unmarshal data = Inr \<lparr>nf_Meta = Some meta, nf_Body = trim_left_set (nf_Body nf) crnl\<rparr>"
proof -
  define body where "body = trim_left_set (nf_Body nf) crnl"
  define tail where "tail = (if body \<noteq> [] then nl @ body else [])"
  have data: "data = fmDelim @ nl @ t @ nl @ fmDelim @ nl @ tail"
    using assms(1,4) by (auto simp: ComposeNodeFile_def Let_def body_def tail_def)
  have pre: "has_prefix data (fmDelim @ nl)" unfolding data by (simp add: has_prefix_def fmDelim_def)
  have rest: "trim_prefix (trim_prefix (drop (length fmDelim) data) crnl) nl = t @ nl @ fmDelim @ nl @ tail"
    unfolding data by (simp add: trim_prefix_def has_prefix_def)
  have parts: "take (length t) (t @ nl @ fmDelim @ nl @ tail) = t"
    "drop (length t) (t @ nl @ fmDelim @ nl @ tail) = nl @ fmDelim @ nl @ tail" by simp_all
  have trimmed: "trim_left_set body crnl = body" by (simp add: body_def)
  have "trim_left_set (trim_prefix (trim_prefix (trim_prefix (nl @ fmDelim @ nl @ tail) nl) crnl) fmDelim) crnl = body"
    using trimmed by (simp add: trim_prefix_def has_prefix_def fmDelim_def tail_def trim_left_set_def)
  then show ?thesis
    unfolding ParseNodeFile_def Let_def rest closing_at [OF assms(2)] option.case parts assms(3)
    using pre by (simp add: body_def)
qed

section \<open>The snapshot\<close>

definition snapshot_keys :: "string set" where
  "snapshot_keys = {''id'', ''title'', ''kind'', ''priority'', ''assignee'', ''write_access'', ''requires'', ''tags'', ''refs'', ''effects''}"

definition synced :: "'y node_file \<Rightarrow> node \<Rightarrow> 'y meta" where
  "synced nf n x =
     (if x = ''effects'' then (if node_Effects n \<noteq> [] then Some (MetaEffects (map effect_Set (node_Effects n))) else None)
      else if x = ''refs'' then (if node_Refs n \<noteq> [] then Some (MetaStrings (node_Refs n)) else None)
      else if x = ''tags'' then (if node_Tags n \<noteq> [] then Some (MetaStrings (node_Tags n)) else None)
      else if x = ''requires'' then (if node_Requires n \<noteq> [] then Some (MetaString (node_Requires n)) else None)
      else if x = ''write_access'' then (if node_WriteAccess n \<noteq> [] then Some (MetaString (node_WriteAccess n)) else None)
      else if x = ''assignee'' then (if node_Assignee n \<noteq> [] then Some (MetaString (node_Assignee n)) else None)
      else if x = ''priority'' then (if node_Priority n \<noteq> [] then Some (MetaString (node_Priority n)) else None)
      else if x = ''kind'' then (if node_Kind n \<noteq> [] then Some (MetaString (node_Kind n)) else None)
      else if x = ''title'' then (if node_Title n \<noteq> [] then Some (MetaString (node_Title n)) else None)
      else if x = ''id'' then Some (MetaString (node_ID n))
      else (case nf_Meta nf of None \<Rightarrow> Map.empty | Some m \<Rightarrow> m) x)"

lemma setOrDelete_apply: "setOrDelete m k v keep x = (if x = k then (if keep then Some v else None) else m x)"
  by (simp add: setOrDelete_def)

lemma effects_apply: "(if keep then m(k \<mapsto> v) else m(k := None)) x = (if x = k then (if keep then Some v else None) else m x)"
  by simp

lemma SyncFrontmatter_synced: "SyncFrontmatter nf n = nf\<lparr>nf_Meta := Some (synced nf n)\<rparr>"
  unfolding SyncFrontmatter_def Let_def length_greater_0_conv
  by (rule arg_cong [where f = "\<lambda>m. nf\<lparr>nf_Meta := Some m\<rparr>"], rule ext)
    (simp only: effects_apply setOrDelete_apply fun_upd_apply synced_def)

lemma synced_other: "x \<notin> snapshot_keys \<Longrightarrow> synced nf n x = (case nf_Meta nf of None \<Rightarrow> Map.empty | Some m \<Rightarrow> m) x"
  by (simp add: synced_def snapshot_keys_def)

section \<open>Properties\<close>

text \<open>
  Node files survive a save and a load: for a codec that reads back what it wrote, on lines none of which is a bare
  delimiter, parsing a composed file gives the same metadata and the body without its leading blank
  lines, and composing that again gives the same bytes.
\<close>

theorem node_file_roundtrip:
  assumes "encode (nf_Meta nf) = Inr (t @ nl)" "fm_text_ok t" "nf_Meta nf = Some meta" "unmarshal t = Inr meta"
    and "ComposeNodeFile encode nf = Inr data"
  shows "ParseNodeFile unmarshal data = Inr (nf\<lparr>nf_Body := trim_left_set (nf_Body nf) crnl\<rparr>) \<and>
    ComposeNodeFile encode (nf\<lparr>nf_Body := trim_left_set (nf_Body nf) crnl\<rparr>) = Inr data"
proof
  show "ParseNodeFile unmarshal data = Inr (nf\<lparr>nf_Body := trim_left_set (nf_Body nf) crnl\<rparr>)"
    using parse_composed [where encode = encode and nf = nf and unmarshal = unmarshal and t = t and meta = meta, OF assms(1,2,4,5)]
      assms(3) by (cases nf) simp
  show "ComposeNodeFile encode (nf\<lparr>nf_Body := trim_left_set (nf_Body nf) crnl\<rparr>) = Inr data"
    using assms(1,5) by (simp add: ComposeNodeFile_def)
qed

theorem node_file_roundtrip_witness:
  "ParseNodeFile (\<lambda>s. if s = ''id: a'' then Inr [''id'' \<mapsto> MetaString ''a''] else Inl ())
      (fmDelim @ nl @ ''id: a'' @ nl @ fmDelim @ nl @ nl @ ''text'') =
     Inr \<lparr>nf_Meta = Some [''id'' \<mapsto> (MetaString ''a'' :: unit meta_value)], nf_Body = ''text''\<rparr>"
  using node_file_roundtrip [where nf = "\<lparr>nf_Meta = Some [''id'' \<mapsto> (MetaString ''a'' :: unit meta_value)], nf_Body = ''text''\<rparr>"
      and encode = "\<lambda>_. Inr (''id: a'' @ nl)" and t = "''id: a''" and meta = "[''id'' \<mapsto> MetaString ''a'']"
      and unmarshal = "\<lambda>s. if s = ''id: a'' then Inr [''id'' \<mapsto> MetaString ''a''] else Inl ()"
      and data = "fmDelim @ nl @ ''id: a'' @ nl @ fmDelim @ nl @ nl @ ''text''"]
  by (simp add: fm_text_ok_def contains_def has_prefix_def ComposeNodeFile_def trim_left_set_def fmDelim_def)

text \<open>
  \<^verbatim>\<open>SyncFrontmatter\<close> makes the snapshot agree with the graph: each of the ten snapshot keys holds the node's field
  and is absent when that field is empty, every other key (an author's own) is untouched, and so is
  the body.
\<close>

theorem sync_frontmatter_exact:
  "\<exists>m. nf_Meta (SyncFrontmatter nf n) = Some m \<and> nf_Body (SyncFrontmatter nf n) = nf_Body nf \<and>
    m ''id'' = Some (MetaString (node_ID n)) \<and>
    m ''title'' = (if node_Title n \<noteq> [] then Some (MetaString (node_Title n)) else None) \<and>
    m ''kind'' = (if node_Kind n \<noteq> [] then Some (MetaString (node_Kind n)) else None) \<and>
    m ''priority'' = (if node_Priority n \<noteq> [] then Some (MetaString (node_Priority n)) else None) \<and>
    m ''assignee'' = (if node_Assignee n \<noteq> [] then Some (MetaString (node_Assignee n)) else None) \<and>
    m ''write_access'' = (if node_WriteAccess n \<noteq> [] then Some (MetaString (node_WriteAccess n)) else None) \<and>
    m ''requires'' = (if node_Requires n \<noteq> [] then Some (MetaString (node_Requires n)) else None) \<and>
    m ''tags'' = (if node_Tags n \<noteq> [] then Some (MetaStrings (node_Tags n)) else None) \<and>
    m ''refs'' = (if node_Refs n \<noteq> [] then Some (MetaStrings (node_Refs n)) else None) \<and>
    m ''effects'' = (if node_Effects n \<noteq> [] then Some (MetaEffects (map effect_Set (node_Effects n))) else None) \<and>
    m |` (- snapshot_keys) = (case nf_Meta nf of None \<Rightarrow> Map.empty | Some m0 \<Rightarrow> m0) |` (- snapshot_keys)"
proof (intro exI conjI)
  show "nf_Meta (SyncFrontmatter nf n) = Some (synced nf n)" "nf_Body (SyncFrontmatter nf n) = nf_Body nf"
    by (simp_all add: SyncFrontmatter_synced)
  show "synced nf n |` (- snapshot_keys) = (case nf_Meta nf of None \<Rightarrow> Map.empty | Some m0 \<Rightarrow> m0) |` (- snapshot_keys)"
    by (rule ext) (simp add: restrict_map_def synced_other)
qed (simp_all add: synced_def)

end
