(* ===== verification/Permission.thy ===== *)
theory Permission
  imports Roles Workflow Acceptance Readiness
begin

text \<open>
  Who may change what: the store's permission decisions (\<^verbatim>\<open>internal/store/permission.go\<close> and the
  decision part of \<^verbatim>\<open>internal/store/roleperm.go\<close>). A decision returns \<open>None\<close> for Go's nil error and
  otherwise the refusal with the fields the API answers with; the two-language sentence of a refusal
  is presentation and left out. The workflow record does not tell a nil slice of test globs from an
  empty one.
\<close>

section \<open>Refusals\<close>

datatype denial =
    ErrNodeWriteDenied (den_NodeID: string) (den_Access: string) (den_Class: string)
  | ErrNodeTypeDenied (den_NodeID: string) (den_Type: string) (den_Code: string) (den_Status: nat)
  | ErrRoleDenied (den_NodeID: string) (den_Role: string) (den_Code: string) (den_Status: nat)

abbreviation StatusBadRequest :: nat where "StatusBadRequest \<equiv> 400"
abbreviation StatusForbidden :: nat where "StatusForbidden \<equiv> 403"
abbreviation StatusConflict :: nat where "StatusConflict \<equiv> 409"

abbreviation CodeNodeTypeForbidsAgent :: string where "CodeNodeTypeForbidsAgent \<equiv> ''NODE_TYPE_FORBIDS_AGENT''"
abbreviation CodeNodeTypePeopleOnly :: string where "CodeNodeTypePeopleOnly \<equiv> ''NODE_TYPE_PEOPLE_ONLY''"
abbreviation CodeNodeTypeNoStatus :: string where "CodeNodeTypeNoStatus \<equiv> ''NODE_TYPE_NO_STATUS''"
abbreviation CodeUnknownNodeType :: string where "CodeUnknownNodeType \<equiv> ''UNKNOWN_NODE_TYPE''"
abbreviation CodeNodeTypesAgentEdit :: string where "CodeNodeTypesAgentEdit \<equiv> ''NODE_TYPES_AGENT_DENIED''"
abbreviation CodeOfficeStyleAgentEdit :: string where "CodeOfficeStyleAgentEdit \<equiv> ''OFFICE_STYLE_AGENT_DENIED''"
abbreviation CodeRoleDenied :: string where "CodeRoleDenied \<equiv> ''ROLE_DENIED''"
abbreviation CodeStageGatePending :: string where "CodeStageGatePending \<equiv> ''STAGE_GATE_PENDING''"
abbreviation CodeAcceptanceLocked :: string where "CodeAcceptanceLocked \<equiv> ''ACCEPTANCE_LOCKED''"
abbreviation CodeRolesAgentEdit :: string where "CodeRolesAgentEdit \<equiv> ''AGENT_ROLES_AGENT_DENIED''"
abbreviation CodeWorkflowAgentEdit :: string where "CodeWorkflowAgentEdit \<equiv> ''WORKFLOW_AGENT_DENIED''"
abbreviation CodeUnknownRole :: string where "CodeUnknownRole \<equiv> ''UNKNOWN_ROLE''"

section \<open>Write access\<close>

definition writeAccessRank :: "string \<Rightarrow> nat" where
  "writeAccessRank access =
     (if access = ''worker'' then 1 else if access = ''orchestrator'' then 2 else if access = ''human-only'' then 3 else 0)"

definition agentRank :: "string \<Rightarrow> nat" where
  "agentRank class = (if class = AgentWorker then 1 else if class = AgentOrchestrator then 2 else 3)"

definition builtinRoleClass :: "string \<Rightarrow> string" where
  "builtinRoleClass i = (case first_match (\<lambda>r. ar_ID r = i) BuiltinAgentRoles of Some r \<Rightarrow> ar_Rank r | None \<Rightarrow> [])"

definition effectiveClass :: "actor \<Rightarrow> string" where
  "effectiveClass a =
     (if \<not> HasRole a then actor_Agent a
      else if builtinRoleClass (actor_AgentRole a) \<noteq> []
      then LowerClass (actor_Agent a) (builtinRoleClass (actor_AgentRole a))
      else actor_Agent a)"

definition checkNodeWrite :: "actor \<Rightarrow> node option \<Rightarrow> denial option" where
  "checkNodeWrite a no =
     (case no of
        None \<Rightarrow> None
      | Some n \<Rightarrow>
          if \<not> IsAgent a then None
          else if agentRank (effectiveClass a) \<ge> writeAccessRank (node_WriteAccess n) then None
          else Some (ErrNodeWriteDenied (node_ID n) (node_WriteAccess n) (effectiveClass a)))"

definition normalizeWriteAccess :: "string \<Rightarrow> string" where
  "normalizeWriteAccess v = (if v = ''all'' then [] else v)"

section \<open>Types\<close>

definition typeName :: "node_type \<Rightarrow> string" where
  "typeName t = (if nt_Label t \<noteq> [] then nt_Label t else nt_ID t)"

fun nodeTypeDefsEqual :: "node_type_def list \<Rightarrow> node_type_def list \<Rightarrow> bool" where
  "nodeTypeDefsEqual [] [] = True"
| "nodeTypeDefsEqual (x # xs) (y # ys) =
     (if ntd_ID x \<noteq> ntd_ID y \<or> ntd_Label x \<noteq> ntd_Label y \<or> ntd_Shape x \<noteq> ntd_Shape y \<or> ntd_Color x \<noteq> ntd_Color y \<or>
         ntd_AgentMode x \<noteq> ntd_AgentMode y \<or> ntd_Completion x \<noteq> ntd_Completion y then False
      else if ntd_CountsInProgress x \<noteq> ntd_CountsInProgress y then False
      else nodeTypeDefsEqual xs ys)"
| "nodeTypeDefsEqual _ _ = False"

definition checkNodeTypesEdit :: "actor \<Rightarrow> node_type_def list \<Rightarrow> node_type_def list \<Rightarrow> denial option" where
  "checkNodeTypesEdit a before after =
     (if \<not> IsAgent a \<or> nodeTypeDefsEqual before after then None
      else Some (ErrNodeTypeDenied [] [] CodeNodeTypesAgentEdit StatusForbidden))"

definition checkOfficeStyleEdit :: "actor \<Rightarrow> string \<Rightarrow> string \<Rightarrow> denial option" where
  "checkOfficeStyleEdit a before after =
     (if \<not> IsAgent a \<or> before = after then None
      else Some (ErrNodeTypeDenied [] [] CodeOfficeStyleAgentEdit StatusForbidden))"

definition restrictedForAgents :: "node_type \<Rightarrow> bool" where
  "restrictedForAgents t \<longleftrightarrow>
     nt_Completion t = CompletionPeople \<or> nt_Completion t = CompletionAuto \<or> nt_Completion t = CompletionNone"

definition checkKindChange :: "actor \<Rightarrow> graph \<Rightarrow> string \<Rightarrow> string \<Rightarrow> denial option" where
  "checkKindChange a g oldKind newKind =
     (if \<not> IsAgent a \<or> oldKind = newKind then None
      else
        let oldType = TypeOfKind (Some g) oldKind; newType = TypeOfKind (Some g) newKind
        in if nt_ID oldType = nt_ID newType then None
           else map_option (\<lambda>t. ErrNodeTypeDenied [] (nt_ID t) CodeNodeTypePeopleOnly StatusForbidden)
                  (first_match restrictedForAgents [oldType, newType]))"

definition noStatusError :: "string \<Rightarrow> node_type \<Rightarrow> denial" where
  "noStatusError nodeID t = ErrNodeTypeDenied nodeID (nt_ID t) CodeNodeTypeNoStatus StatusBadRequest"

definition unknownNodeTypeError :: "string \<Rightarrow> string \<Rightarrow> denial" where
  "unknownNodeTypeError nodeID kind = ErrNodeTypeDenied nodeID kind CodeUnknownNodeType StatusBadRequest"

definition checkStatusWrite :: "actor \<Rightarrow> graph \<Rightarrow> node option \<Rightarrow> status \<Rightarrow> denial option" where
  "checkStatusWrite a g no s =
     (case no of
        None \<Rightarrow> None
      | Some n \<Rightarrow>
          let t = TypeOf (Some g) (Some n)
          in if nt_Completion t = CompletionNone then Some (noStatusError (node_ID n) t)
             else if \<not> IsAgent a then None
             else if nt_Completion t = CompletionAuto \<or>
                     (nt_Completion t = CompletionPeople \<and> Settled s (statusDefinitions (Some g)))
             then Some (ErrNodeTypeDenied (node_ID n) (nt_ID t) CodeNodeTypePeopleOnly StatusForbidden)
             else None)"

section \<open>Roles\<close>

definition roleDenied :: "string \<Rightarrow> string \<Rightarrow> denial" where
  "roleDenied nodeID role = ErrRoleDenied nodeID role CodeRoleDenied StatusForbidden"

definition isSystemActor :: "actor \<Rightarrow> bool" where
  "isSystemActor a \<longleftrightarrow> a = System"

text \<open>\<open>Inr None\<close> is a legacy actor: no role checks apply.\<close>

definition actorRole :: "actor \<Rightarrow> graph \<Rightarrow> denial + agent_role option" where
  "actorRole a g =
     (if \<not> HasRole a then Inr None
      else (case RoleOf (Some g) (actor_AgentRole a) of
              None \<Rightarrow> Inl (ErrRoleDenied [] (actor_AgentRole a) CodeUnknownRole StatusForbidden)
            | Some r \<Rightarrow> Inr (Some r)))"

definition executorBodyTypes :: "string boolmap" where
  "executorBodyTypes t \<longleftrightarrow> t = ''scene'' \<or> t = ''event''"

fun qa_owns :: "actor \<Rightarrow> string list \<Rightarrow> bool" where
  "qa_owns a [] = False"
| "qa_owns a (tag # tags) =
     (if actor_RunNodeID a \<noteq> [] then
        (if tag = GoalTag (actor_RunNodeID a) then True else qa_owns a tags)
      else if has_prefix tag ''goal:'' \<and> length tag > length ''goal:'' then True
      else qa_owns a tags)"

definition qaOwnsNewNode :: "actor \<Rightarrow> node \<Rightarrow> bool" where
  "qaOwnsNewNode a n = qa_owns a (node_Tags n)"

definition role_may :: "actor \<Rightarrow> agent_role \<Rightarrow> string \<Rightarrow> node option \<Rightarrow> string \<Rightarrow> string \<Rightarrow> denial option" where
  "role_may a role c no nodeID typeID =
     (let slot = Slot role; den = roleDenied nodeID (ar_ID role) in
      if c = ''body'' \<and> slot = ''executor'' \<and> \<not> HasCap role c then
        (if no \<noteq> None \<and> actor_RunNodeID a \<noteq> [] \<and> node_ID (the no) = actor_RunNodeID a \<and>
            executorBodyTypes typeID \<and> MayWriteType role typeID
         then None else Some den)
      else if \<not> HasCap role c then Some den
      else if c \<in> {''body'', ''claim'', ''status'', ''create''} \<and> no \<noteq> None \<and> \<not> MayWriteType role typeID then Some den
      else if slot = ''executor'' \<and> actor_RunID a \<noteq> [] \<and> no \<noteq> None \<and> c \<in> {''body'', ''claim'', ''status''} \<and>
              node_ID (the no) \<noteq> actor_RunNodeID a then Some den
      else if slot = ''qa'' \<and> c = ''create'' \<and> no \<noteq> None \<and> \<not> qaOwnsNewNode a (the no) then Some den
      else None)"

definition checkRole :: "actor \<Rightarrow> graph \<Rightarrow> string \<Rightarrow> node option \<Rightarrow> denial option" where
  "checkRole a g c no =
     (case actorRole a g of
        Inl err \<Rightarrow> Some err
      | Inr None \<Rightarrow> None
      | Inr (Some role) \<Rightarrow>
          (case no of
             None \<Rightarrow> role_may a role c no [] []
           | Some n \<Rightarrow> role_may a role c no (node_ID n) (nt_ID (TypeOf (Some g) (Some n)))))"

definition checkRoleLink :: "actor \<Rightarrow> graph \<Rightarrow> node option \<Rightarrow> bool \<Rightarrow> denial option" where
  "checkRoleLink a g no refOnly =
     (case checkRole a g ''link'' no of
        Some err \<Rightarrow> Some err
      | None \<Rightarrow>
          (case actorRole a g of
             Inl err \<Rightarrow> Some err
           | Inr None \<Rightarrow> None
           | Inr (Some role) \<Rightarrow>
               if \<not> refOnly \<and> Slot role = ''researcher''
               then Some (roleDenied (case no of None \<Rightarrow> [] | Some n \<Rightarrow> node_ID n) (ar_ID role))
               else None))"

definition checkRoleDelete :: "actor \<Rightarrow> string \<Rightarrow> denial option" where
  "checkRoleDelete a nodeID = (if \<not> HasRole a then None else Some (roleDenied nodeID (actor_AgentRole a)))"

section \<open>Settings\<close>

definition agentRoleDefsEqual :: "agent_role_def list \<Rightarrow> agent_role_def list \<Rightarrow> bool" where
  "agentRoleDefsEqual xs ys = (if length xs = 0 \<and> length ys = 0 then True else xs = ys)"

definition checkAgentRolesEdit :: "actor \<Rightarrow> agent_role_def list \<Rightarrow> agent_role_def list \<Rightarrow> denial option" where
  "checkAgentRolesEdit a before after =
     (if \<not> IsAgent a \<or> agentRoleDefsEqual before after then None
      else Some (ErrRoleDenied [] [] CodeRolesAgentEdit StatusForbidden))"

definition checkWorkflowEdit :: "actor \<Rightarrow> string \<Rightarrow> workflow option \<Rightarrow> workflow option \<Rightarrow> denial option" where
  "checkWorkflowEdit a nodeID before after =
     (if \<not> IsAgent a \<or> before = after then None
      else Some (ErrRoleDenied nodeID [] CodeWorkflowAgentEdit StatusForbidden))"

section \<open>Stage gates\<close>

definition status_gate :: "bool \<Rightarrow> string \<Rightarrow> graph \<Rightarrow> node \<Rightarrow> status \<Rightarrow> denial option" where
  "status_gate roled roleID g n s =
     (if \<not> Settled s (statusDefinitions (Some g)) then None
      else
        let wf = EffectiveWorkflow (Some g) (GoalOf (Some g) (Some n));
            allowed = AcceptanceAllowed (Some g) (Some n)
        in if wf \<noteq> None \<and> \<not> roled \<and> allowed \<and> nt_AgentMode (TypeOf (Some g) (Some n)) = AgentAutopilot \<and>
              (stage_GoalQA (wf_Stages (the wf)) \<or> stage_GoalReview (wf_Stages (the wf)))
           then Some (ErrRoleDenied (node_ID n) [] CodeStageGatePending StatusConflict)
           else if \<not> Staged wf \<or> (\<not> roled \<and> \<not> allowed) then None
           else Some (ErrRoleDenied (node_ID n) roleID CodeStageGatePending StatusConflict))"

definition checkStatusGate :: "actor \<Rightarrow> graph \<Rightarrow> node option \<Rightarrow> status \<Rightarrow> denial option" where
  "checkStatusGate a g no s =
     (case no of
        None \<Rightarrow> None
      | Some n \<Rightarrow>
          (case actorRole a g of
             Inl err \<Rightarrow> Some err
           | Inr (Some role) \<Rightarrow>
               if Slot role \<noteq> ''executor'' then None else status_gate True (ar_ID role) g n s
           | Inr None \<Rightarrow>
               if \<not> IsAgent a \<or> actor_RunID a \<noteq> [] then None else status_gate False [] g n s))"

section \<open>Acceptance criteria\<close>

definition acceptanceAttribution :: "actor \<Rightarrow> string" where
  "acceptanceAttribution a =
     (if HasRole a then
        (if actor_RunID a \<noteq> [] then actor_AgentRole a @ '' (run '' @ actor_RunID a @ '')'' else actor_AgentRole a)
      else if actor_Name a \<noteq> [] then actor_Name a
      else actor_ID a)"

definition is_locked :: "acceptance option \<Rightarrow> bool" where
  "is_locked acc \<longleftrightarrow> acc \<noteq> None \<and> acc_Locked (the acc)"

definition normalizeAcceptance :: "actor \<Rightarrow> acceptance option \<Rightarrow> acceptance option \<Rightarrow> acceptance option" where
  "normalizeAcceptance a before after =
     (case after of
        None \<Rightarrow>
          if before \<noteq> None \<and> acc_Locked (the before) \<and> \<not> IsAgent a
          then Some \<lparr>acc_Items = [], acc_Locked = True, acc_By = acceptanceAttribution a\<rparr>
          else None
      | Some aft \<Rightarrow>
          let out = \<lparr>acc_Items = slice (AssignAcceptanceIDs (Some (acc_Items aft))), acc_Locked = acc_Locked aft, acc_By = acc_By aft\<rparr>
          in if IsAgent a then Some out
             else
               let out = out\<lparr>acc_Locked := (case before of Some b \<Rightarrow> acc_Locked b | None \<Rightarrow> False)\<rparr>;
                   out = (if EqualItems before (Some out) \<and> before \<noteq> None
                          then out\<lparr>acc_By := acc_By (the before)\<rparr>
                          else out\<lparr>acc_By := acceptanceAttribution a\<rparr>)
               in if \<not> acc_Locked out \<and> length (acc_Items out) = 0 then None else Some out)"

definition acceptanceEqual :: "acceptance option \<Rightarrow> acceptance option \<Rightarrow> bool" where
  "acceptanceEqual x y =
     (case (x, y) of
        (Some b, Some c) \<Rightarrow> acc_Locked b = acc_Locked c \<and> acc_By b = acc_By c \<and> EqualItems x y
      | (None, None) \<Rightarrow> True
      | _ \<Rightarrow> False)"

definition checkAcceptanceWrite ::
  "actor \<Rightarrow> graph \<Rightarrow> node option \<Rightarrow> acceptance option \<Rightarrow> acceptance option \<Rightarrow> bool \<Rightarrow> denial option" where
  "checkAcceptanceWrite a g no before after createdByRun =
     (let nodeID = (case no of None \<Rightarrow> [] | Some n \<Rightarrow> node_ID n);
          typeID = nt_ID (TypeOf (Some g) no)
      in if acceptanceEqual before after then None
         else if after \<noteq> None \<and> \<not> AcceptanceAllowed (Some g) no
         then Some (ErrNodeTypeDenied nodeID typeID CodeNodeTypeForbidsAgent StatusBadRequest)
         else if isSystemActor a \<or> \<not> IsAgent a then None
         else if \<not> HasRole a then Some (roleDenied nodeID [])
         else (case actorRole a g of
                 Inl err \<Rightarrow> Some err
               | Inr None \<Rightarrow> Some (roleDenied nodeID [])
               | Inr (Some role) \<Rightarrow>
                   if \<not> HasCap role ''acceptance'' then Some (roleDenied nodeID (ar_ID role))
                   else if \<not> MayAcceptType role typeID \<and> \<not> (Slot role = ''qa'' \<and> createdByRun)
                   then Some (roleDenied nodeID (ar_ID role))
                   else if is_locked before
                   then Some (ErrRoleDenied nodeID (ar_ID role) CodeAcceptanceLocked StatusConflict)
                   else if is_locked before \<noteq> is_locked after then Some (roleDenied nodeID (ar_ID role))
                   else None))"

text \<open>
  \<^verbatim>\<open>SetAcceptance\<close> from the node lookup to the graph it writes; \<open>update_first\<close> is the assignment
  through the pointer \<^verbatim>\<open>NodeByID\<close> returned. \<open>createdBy\<close> is the run recorded for the node.
\<close>

datatype set_error = NodeNotFound string | Denied denial | BadCriteria acceptance_error

fun update_first :: "string \<Rightarrow> (node \<Rightarrow> node) \<Rightarrow> node option list \<Rightarrow> node option list" where
  "update_first i f [] = []"
| "update_first i f (no # nos) =
     (case no of
        Some n \<Rightarrow> if node_ID n = i then Some (f n) # nos else no # update_first i f nos
      | None \<Rightarrow> no # update_first i f nos)"

definition new_acceptance :: "actor \<Rightarrow> acceptance option \<Rightarrow> acceptance_item list \<Rightarrow> acceptance option" where
  "new_acceptance a before items =
     normalizeAcceptance a before
       (if length items > 0 \<or> (before \<noteq> None \<and> acc_Locked (the before))
        then Some \<lparr>acc_Items = slice (AssignAcceptanceIDs (Some items)),
                   acc_Locked = (case before of Some b \<Rightarrow> acc_Locked b | None \<Rightarrow> False),
                   acc_By = (case before of Some b \<Rightarrow> acc_By b | None \<Rightarrow> [])\<rparr>
        else None)"

definition attributed :: "actor \<Rightarrow> acceptance option \<Rightarrow> acceptance option \<Rightarrow> acceptance option" where
  "attributed a before after =
     (case after of
        Some aft \<Rightarrow> if IsAgent a \<and> \<not> EqualItems after before then Some (aft\<lparr>acc_By := acceptanceAttribution a\<rparr>) else after
      | None \<Rightarrow> None)"

definition SetAcceptance :: "actor \<Rightarrow> graph \<Rightarrow> string \<Rightarrow> acceptance_item list \<Rightarrow> string \<Rightarrow> set_error + graph" where
  "SetAcceptance a g nodeID items createdBy =
     (case NodeByID g nodeID of
        None \<Rightarrow> Inl (NodeNotFound nodeID)
      | Some n \<Rightarrow>
          (case checkNodeWrite a (Some n) of
             Some err \<Rightarrow> Inl (Denied err)
           | None \<Rightarrow>
               let before = node_Acceptance n;
                   after = new_acceptance a before items
               in case checkAcceptanceWrite a g (Some n) before after (createdBy = actor_RunID a \<and> actor_RunID a \<noteq> []) of
                    Some err \<Rightarrow> Inl (Denied err)
                  | None \<Rightarrow>
                      let m = n\<lparr>node_Acceptance := attributed a before after\<rparr>;
                          g' = g\<lparr>graph_Nodes := update_first nodeID (\<lambda>_. m) (graph_Nodes g)\<rparr>
                      in case ValidateNodeAcceptance (Some g') (Some m) of
                           Inl err \<Rightarrow> Inl (BadCriteria err)
                         | Inr _ \<Rightarrow> Inr g'))"

text \<open>\<open>Inr None\<close>: nothing to write.\<close>

definition LockAcceptance :: "graph \<Rightarrow> string \<Rightarrow> set_error + graph option" where
  "LockAcceptance g nodeID =
     (case NodeByID g nodeID of
        None \<Rightarrow> Inl (NodeNotFound nodeID)
      | Some n \<Rightarrow>
          if \<not> AcceptanceAllowed (Some g) (Some n) \<or> is_locked (node_Acceptance n) then Inr None
          else
            let locked = (case node_Acceptance n of
                            None \<Rightarrow> \<lparr>acc_Items = [], acc_Locked = True, acc_By = []\<rparr>
                          | Some acc \<Rightarrow> acc\<lparr>acc_Locked := True\<rparr>)
            in Inr (Some (g\<lparr>graph_Nodes := update_first nodeID (\<lambda>_. n\<lparr>node_Acceptance := Some locked\<rparr>) (graph_Nodes g)\<rparr>)))"

section \<open>Facts about the decisions\<close>

lemma nodeTypeDefsEqual_iff: "nodeTypeDefsEqual xs ys \<longleftrightarrow> xs = ys"
proof (induction xs ys rule: nodeTypeDefsEqual.induct)
  case (2 x xs y ys)
  then show ?case by (cases x; cases y) auto
qed simp_all

lemma builtin_ranks: "builtinRoleClass i \<in> {[], AgentWorker, AgentOrchestrator}"
proof (cases "builtinAgentRole i")
  case None
  then show ?thesis by (simp add: builtinRoleClass_def BuiltinAgentRoles_def builtinAgentRole_def del: first_match_None)
next
  case (Some r)
  then have "r \<in> set builtinAgentRoles" by (auto simp: builtinAgentRole_def dest: first_match_SomeD)
  then have "ar_Rank r \<in> {AgentWorker, AgentOrchestrator}" by (auto simp: builtinAgentRoles_def builtinRole_def)
  then show ?thesis using Some by (simp add: builtinRoleClass_def BuiltinAgentRoles_def builtinAgentRole_def)
qed

lemma effectiveClass_rank:
  assumes "actor_Agent a \<in> {AgentWorker, AgentOrchestrator}"
  shows "effectiveClass a \<in> {AgentWorker, AgentOrchestrator}" "agentRank (effectiveClass a) \<le> agentRank (actor_Agent a)"
  using assms builtin_ranks [of "actor_AgentRole a"]
  by (auto simp: effectiveClass_def LowerClass_def classRank_def agentRank_def)

text \<open>Two kinds with the same type id have the same type.\<close>

lemma override_row_ID: "nt_ID (override_row ntd_ID override_look i ds t) = nt_ID t"
  by (induction ds arbitrary: t) auto

lemma nodeTypeByID_ID: "nodeTypeByID g i = Some t \<Longrightarrow> nt_ID t = i"
  by (auto simp: nodeTypeByID_def builtinNodeType_def override_row_ID split: option.splits if_splits dest: first_match_SomeD)

lemma TypeOfKind_byID: "nodeTypeByID (Some g) (nt_ID (TypeOfKind (Some g) k)) = Some (TypeOfKind (Some g) k)"
proof -
  obtain t where task: "nodeTypeByID (Some g) NodeKindTask = Some t" using nodeTypeByID_task by blast
  show ?thesis using nodeTypeByID_ID task
    unfolding TypeOfKind_def Let_def by (auto split: option.split)
qed

lemma same_type_ID:
  "nt_ID (TypeOfKind (Some g) k) = nt_ID (TypeOfKind (Some g) k') \<Longrightarrow> TypeOfKind (Some g) k = TypeOfKind (Some g) k'"
  using TypeOfKind_byID by (metis option.inject)

lemma is_locked_simps [simp]: "\<not> is_locked None" "is_locked (Some acc) = acc_Locked acc"
  by (simp_all add: is_locked_def)

lemma normalize_locked:
  assumes "IsAgent a \<Longrightarrow> is_locked after = is_locked before"
  shows "is_locked (normalizeAcceptance a before after) = is_locked before"
proof (cases after)
  case None
  then show ?thesis using assms by (cases "IsAgent a"; cases before) (simp_all add: normalizeAcceptance_def)
next
  case (Some aft)
  show ?thesis
  proof (cases "IsAgent a")
    case True
    then show ?thesis using assms Some by (simp add: normalizeAcceptance_def Let_def)
  next
    case False
    then show ?thesis using Some
      by (cases before) (simp_all add: normalizeAcceptance_def Let_def if_distrib [of acc_Locked] split del: if_split,
          simp_all add: if_distrib [of is_locked] split: if_split)
  qed
qed

lemma new_acceptance_locked: "is_locked (new_acceptance a before items) = is_locked before"
  unfolding new_acceptance_def by (rule normalize_locked) (cases before; simp)

lemma locked_write_denied:
  assumes "checkAcceptanceWrite a g no before after cb = None" "IsAgent a" "is_locked before"
  shows "acceptanceEqual before after"
  using assms by (auto simp: checkAcceptanceWrite_def Let_def isSystemActor_def System_def IsAgent_def
      split: if_splits option.splits sum.splits)

lemma NodeByID_update_first:
  assumes "NodeByID g i = Some n" "node_ID m = i"
  shows "NodeByID (g\<lparr>graph_Nodes := update_first i (\<lambda>_. m) (graph_Nodes g)\<rparr>) i = Some m"
proof -
  have "first_match (\<lambda>n. node_ID n = i) (List.map_filter id nos) = Some n \<Longrightarrow>
      first_match (\<lambda>n. node_ID n = i) (List.map_filter id (update_first i (\<lambda>_. m) nos)) = Some m" for nos
    using assms(2) by (induction nos) (auto simp: map_filter_simps split: option.splits if_splits)
  then show ?thesis using assms by (simp add: NodeByID_def nodes_of_def)
qed

lemma NodeByID_ID: "NodeByID g i = Some n \<Longrightarrow> node_ID n = i"
  by (auto simp: NodeByID_def dest: first_match_SomeD)

lemma acceptanceEqual_iff: "acceptanceEqual x y \<longleftrightarrow> x = y"
  by (cases x; cases y) (auto simp: acceptanceEqual_def EqualItems_iff items_or_nil_def)

lemma attributed_locked: "is_locked (attributed a before after) = is_locked after"
  by (cases after) (simp_all add: attributed_def)

lemma attributed_same: "attributed a before before = before"
  by (cases before) (simp_all add: attributed_def EqualItems_iff)

lemma SetAcceptance_node:
  assumes "SetAcceptance a g i items cb = Inr g'" "NodeByID g i = Some n"
  shows "checkAcceptanceWrite a g (Some n) (node_Acceptance n) (new_acceptance a (node_Acceptance n) items)
        (cb = actor_RunID a \<and> actor_RunID a \<noteq> []) = None"
    "NodeByID g' i = Some (n\<lparr>node_Acceptance := attributed a (node_Acceptance n) (new_acceptance a (node_Acceptance n) items)\<rparr>)"
proof -
  let ?m = "n\<lparr>node_Acceptance := attributed a (node_Acceptance n) (new_acceptance a (node_Acceptance n) items)\<rparr>"
  show "checkAcceptanceWrite a g (Some n) (node_Acceptance n) (new_acceptance a (node_Acceptance n) items)
        (cb = actor_RunID a \<and> actor_RunID a \<noteq> []) = None"
    using assms unfolding SetAcceptance_def Let_def by (simp split: option.splits sum.splits)
  have "g' = g\<lparr>graph_Nodes := update_first i (\<lambda>_. ?m) (graph_Nodes g)\<rparr>"
    using assms unfolding SetAcceptance_def Let_def by (simp split: option.splits sum.splits)
  then show "NodeByID g' i = Some ?m"
    using NodeByID_update_first [OF assms(2), of ?m] NodeByID_ID [OF assms(2)] by simp
qed

section \<open>Examples\<close>

abbreviation agent_worker :: actor where
  "agent_worker \<equiv> Local\<lparr>actor_Agent := ''worker''\<rparr>"

abbreviation executor_run :: actor where
  "executor_run \<equiv> agent_worker\<lparr>actor_AgentRole := ''executor'', actor_RunID := ''r1'', actor_RunNodeID := ''t''\<rparr>"

definition staged_graph :: graph where
  "staged_graph = empty_graph\<lparr>graph_Version := 1, graph_Workflow := NewProjectWorkflow [],
     graph_Nodes := [Some ((plain_node ''t'' [] [])\<lparr>node_Acceptance :=
       Some \<lparr>acc_Items = [\<lparr>item_ID = ''a1'', item_Text = ''it works''\<rparr>], acc_Locked = True, acc_By = ''qa''\<rparr>\<rparr>)]\<rparr>"

section \<open>Properties\<close>

text \<open>
  Write access: for an agent of a known class, a node may be written exactly when it is not human-only and, where it asks for
  an orchestrator, the agent still ranks as one in its role; and a role never raises the rank the
  request declared.
\<close>

theorem node_write_needs_rank:
  assumes "actor_Agent a \<in> {AgentWorker, AgentOrchestrator}"
  shows "(checkNodeWrite a (Some n) = None) =
      (node_WriteAccess n \<noteq> ''human-only'' \<and> (node_WriteAccess n = ''orchestrator'' \<longrightarrow> effectiveClass a = AgentOrchestrator)) \<and>
    agentRank (effectiveClass a) \<le> agentRank (actor_Agent a)"
proof
  have "IsAgent a" using assms by (auto simp: IsAgent_def)
  then show "(checkNodeWrite a (Some n) = None) =
      (node_WriteAccess n \<noteq> ''human-only'' \<and> (node_WriteAccess n = ''orchestrator'' \<longrightarrow> effectiveClass a = AgentOrchestrator))"
    using effectiveClass_rank(1) [OF assms] by (auto simp: checkNodeWrite_def agentRank_def writeAccessRank_def)
  show "agentRank (effectiveClass a) \<le> agentRank (actor_Agent a)" by (rule effectiveClass_rank [OF assms])
qed

theorem node_write_needs_rank_witness:
  "(checkNodeWrite (Local\<lparr>actor_Agent := ''orchestrator'', actor_AgentRole := ''executor''\<rparr>)
      (Some ((plain_node ''n'' [] [])\<lparr>node_WriteAccess := ''orchestrator''\<rparr>)) = None) = False"
proof -
  have "effectiveClass (Local\<lparr>actor_Agent := ''orchestrator'', actor_AgentRole := ''executor''\<rparr>) = AgentWorker" by code_simp
  then show ?thesis
    using node_write_needs_rank [of "Local\<lparr>actor_Agent := ''orchestrator'', actor_AgentRole := ''executor''\<rparr>"
        "(plain_node ''n'' [] [])\<lparr>node_WriteAccess := ''orchestrator''\<rparr>"] by simp
qed

text \<open>
  C36. Locked criteria: a successful acceptance write never changes the lock of the node, whoever makes it, and when the
  criteria are locked an agent's write leaves them exactly as they were.
\<close>

theorem locked_criteria_kept:
  assumes "SetAcceptance a g i items cb = Inr g'" "NodeByID g i = Some n"
  shows "\<exists>m. NodeByID g' i = Some m \<and> is_locked (node_Acceptance m) = is_locked (node_Acceptance n) \<and>
    (m = n \<or> \<not> (IsAgent a \<and> is_locked (node_Acceptance n)))"
proof -
  let ?new = "new_acceptance a (node_Acceptance n) items"
  let ?m = "n\<lparr>node_Acceptance := attributed a (node_Acceptance n) ?new\<rparr>"
  note set = SetAcceptance_node [OF assms]
  have "?m = n" if "IsAgent a" "is_locked (node_Acceptance n)"
  proof -
    have "node_Acceptance n = ?new" using locked_write_denied [OF set(1) that] by (simp add: acceptanceEqual_iff)
    then show ?thesis by (metis attributed_same node.surjective node.update_convs(13))
  qed
  then show ?thesis using set(2) new_acceptance_locked [of a "node_Acceptance n" items]
    by (intro exI [of _ ?m]) (auto simp: attributed_locked)
qed

theorem locked_criteria_kept_witness:
  "\<exists>g' m. SetAcceptance Local staged_graph ''t'' [\<lparr>item_ID = [], item_Text = ''new''\<rparr>] [] = Inr g' \<and>
    NodeByID g' ''t'' = Some m \<and> is_locked (node_Acceptance m)"
proof -
  have "\<not> isl (SetAcceptance Local staged_graph ''t'' [\<lparr>item_ID = [], item_Text = ''new''\<rparr>] [])" by code_simp
  then obtain g' where g': "SetAcceptance Local staged_graph ''t'' [\<lparr>item_ID = [], item_Text = ''new''\<rparr>] [] = Inr g'"
    by (cases "SetAcceptance Local staged_graph ''t'' [\<lparr>item_ID = [], item_Text = ''new''\<rparr>] []") auto
  have n: "NodeByID staged_graph ''t'' = Some (the (NodeByID staged_graph ''t''))"
    "is_locked (node_Acceptance (the (NodeByID staged_graph ''t'')))" by code_simp+
  show ?thesis using locked_criteria_kept [OF g' n(1)] g' n(2) by auto
qed

text \<open>
  C35. An Executor run works its own node only: whatever overrides the project makes, a run in an executor role that may claim,
  set the status of or write the body of a node was dispatched on that node.
\<close>

theorem executor_confined:
  assumes "HasRole a" "actor_RunID a \<noteq> []" "RoleOf (Some g) (actor_AgentRole a) = Some r" "Slot r = ''executor''"
    and "c \<in> {''body'', ''claim'', ''status''}" "checkRole a g c (Some n) = None"
  shows "node_ID n = actor_RunNodeID a"
proof -
  have "role_may a r c (Some n) (node_ID n) (nt_ID (TypeOf (Some g) (Some n))) = None"
    using assms by (simp add: checkRole_def actorRole_def)
  then show ?thesis using assms(2,4,5) unfolding role_may_def Let_def
    by (simp split: if_splits)
qed

theorem executor_confined_witness: "node_ID (plain_node ''t'' [] []) = actor_RunNodeID executor_run"
  by (rule executor_confined [where g = staged_graph and c = "''status''" and r = "the (RoleOf (Some staged_graph) ''executor'')"])
    code_simp+

text \<open>
  Stages cannot be skipped: an Executor may settle a node exactly when the workflow in effect for its goal has no later
  stage to run.
\<close>

theorem executor_stage_gate:
  assumes "actorRole a g = Inr (Some r)" "Slot r = ''executor''"
  shows "(checkStatusGate a g (Some n) s = None) =
    (\<not> (Settled s (statusDefinitions (Some g)) \<and> Staged (EffectiveWorkflow (Some g) (GoalOf (Some g) (Some n)))))"
  using assms by (simp add: checkStatusGate_def status_gate_def Let_def)

theorem executor_stage_gate_witness:
  "(checkStatusGate executor_run staged_graph (Some (plain_node ''t'' [] [])) StatusDone = None) =
    (\<not> (Settled StatusDone (statusDefinitions (Some staged_graph)) \<and>
        Staged (EffectiveWorkflow (Some staged_graph) (GoalOf (Some staged_graph) (Some (plain_node ''t'' [] []))))))"
  by (rule executor_stage_gate [where r = "the (RoleOf (Some staged_graph) ''executor'')"]) code_simp+

text \<open>
  Retyping is no way round the status rule: when an agent may change a node's kind, it may write a status to the
  node with the new kind exactly when it might before.
\<close>

theorem retyping_no_bypass:
  assumes "IsAgent a" "checkKindChange a g (node_Kind n) k = None"
  shows "(checkStatusWrite a g (Some (n\<lparr>node_Kind := k\<rparr>)) s = None) = (checkStatusWrite a g (Some n) s = None)"
proof (cases "node_Kind n = k")
  case False
  let ?old = "TypeOfKind (Some g) (node_Kind n)" and ?new = "TypeOfKind (Some g) k"
  show ?thesis
  proof (cases "nt_ID ?old = nt_ID ?new")
    case True
    then have "?old = ?new" by (rule same_type_ID)
    then show ?thesis by (simp add: checkStatusWrite_def TypeOf_def Let_def)
  next
    case diff: False
    then have "\<not> restrictedForAgents ?old \<and> \<not> restrictedForAgents ?new"
      using assms False by (auto simp: checkKindChange_def Let_def split: if_splits)
    then show ?thesis by (simp add: checkStatusWrite_def TypeOf_def Let_def restrictedForAgents_def)
  qed
qed (simp add: checkStatusWrite_def TypeOf_def Let_def)

theorem retyping_no_bypass_witness:
  "(checkStatusWrite agent_worker staged_graph (Some ((plain_node ''t'' ''gate'' [])\<lparr>node_Kind := ''review''\<rparr>)) StatusDone = None) =
   (checkStatusWrite agent_worker staged_graph (Some (plain_node ''t'' ''gate'' [])) StatusDone = None)"
  by (rule retyping_no_bypass) code_simp+

end
