(* ===== verification/Store_Journal.thy ===== *)
theory Store_Journal
  imports Journal
begin

text \<open>
  The run journal on disk (\<^verbatim>\<open>internal/store/journal.go\<close>, and \<^verbatim>\<open>LoadState\<close> and \<^verbatim>\<open>appendJournal\<close> of
  \<^verbatim>\<open>internal/store/store.go\<close>): reading with a checkpoint, compaction and rotation, appending. The disk
  is the content of the four files; compaction is the sequence of disks between its file operations,
  so that a crash or a failing operation is a prefix of it. The JSON codecs, the SHA-256 digest and
  the clock are parameters.
\<close>

section \<open>Files\<close>

text \<open>A file is missing, present but unreadable, or readable with its bytes.\<close>

datatype dfile = NoFile | BadFile | Bytes string

datatype read_result = NotExist | ReadError | Data string

definition read_limit :: "nat \<Rightarrow> dfile \<Rightarrow> read_result" where
  "read_limit limit f =
     (case f of
        NoFile \<Rightarrow> NotExist
      | BadFile \<Rightarrow> ReadError
      | Bytes s \<Rightarrow> if length s > limit then ReadError else Data s)"

record disk =
  dk_journal :: dfile
  dk_rotated :: dfile
  dk_checkpoint :: dfile
  dk_state :: dfile

definition maxJournalBytes :: nat where "maxJournalBytes = 64 * 2 ^ 20"
definition maxJournalLineBytes :: nat where "maxJournalLineBytes = 64 * 2 ^ 10"
definition maxCheckpointBytes :: nat where "maxCheckpointBytes = 256 * 2 ^ 20"
definition journalCompactBytes :: nat where "journalCompactBytes = 8 * 2 ^ 20"

definition checkpointVersion :: int where "checkpointVersion = 1"

record journal_checkpoint =
  cp_Version :: int
  cp_CreatedAt :: string
  cp_JournalBytes :: int
  cp_JournalSHA256 :: string
  cp_Events :: nat
  cp_LastEventTime :: string
  cp_State :: "run_state option"

text \<open>The codecs of the standard library, and the digest in hexadecimal.\<close>

record 'e codec =
  cd_event :: "string \<Rightarrow> 'e + history_event"
  cd_cp_decode :: "string \<Rightarrow> journal_checkpoint option"
  cd_cp_encode :: "journal_checkpoint \<Rightarrow> string option"
  cd_state :: "string \<Rightarrow> 'e + run_state"
  cd_digest :: "string \<Rightarrow> string"

section \<open>Reading\<close>

definition readCheckpoint :: "'e codec \<Rightarrow> disk \<Rightarrow> journal_checkpoint option" where
  "readCheckpoint cd d =
     (case read_limit maxCheckpointBytes (dk_checkpoint d) of
        Data bytes \<Rightarrow>
          (case cd_cp_decode cd bytes of
             None \<Rightarrow> None
           | Some cp \<Rightarrow>
               (case cp_State cp of
                  None \<Rightarrow> None
                | Some rs \<Rightarrow>
                    if cp_Version cp \<noteq> checkpointVersion \<or> cp_JournalSHA256 cp = [] then None
                    else if rs_Nodes rs = None then Some (cp\<lparr>cp_State := Some (rs\<lparr>rs_Nodes := Some Map.empty\<rparr>)\<rparr>)
                    else Some cp))
      | _ \<Rightarrow> None)"

definition covers :: "'e codec \<Rightarrow> journal_checkpoint \<Rightarrow> string \<Rightarrow> bool" where
  "covers cd cp journal =
     (if cp_JournalBytes cp \<le> 0 \<or> int (length journal) < cp_JournalBytes cp then False
      else cd_digest cd (take (nat (cp_JournalBytes cp)) journal) = cp_JournalSHA256 cp)"

datatype 'e load_error = CannotRead | ReplayError nat 'e | StateError 'e

definition resume :: "'e codec \<Rightarrow> run_state option \<Rightarrow> string \<Rightarrow> 'e load_error + run_state" where
  "resume cd base bytes =
     (case ResumeJournal (cd_event cd) base bytes of
        (rs, None) \<Rightarrow> Inr rs
      | (rs, Some (line, err)) \<Rightarrow> Inl (ReplayError line err))"

text \<open>The journal is returned as \<open>None\<close> when there is no file (Go's nil slice).\<close>

definition journal_bytes :: "string option \<Rightarrow> string" where
  "journal_bytes j = (case j of None \<Rightarrow> [] | Some bytes \<Rightarrow> bytes)"

definition replayJournal :: "'e codec \<Rightarrow> disk \<Rightarrow> 'e load_error + (run_state option \<times> string option)" where
  "replayJournal cd d =
     (let replay = (\<lambda>j.
        case readCheckpoint cd d of
          Some cp \<Rightarrow>
            let bytes = journal_bytes j;
                remainder = (if covers cd cp bytes then drop (nat (cp_JournalBytes cp)) bytes else bytes)
            in (case resume cd (cp_State cp) remainder of
                  Inl err \<Rightarrow> Inl err
                | Inr rs \<Rightarrow> Inr (Some rs, j))
        | None \<Rightarrow>
            (case (case read_limit maxJournalBytes (dk_rotated d) of
                     Data rotated \<Rightarrow> (case resume cd None rotated of Inl err \<Rightarrow> Inl err | Inr rs \<Rightarrow> Inr (Some rs))
                   | NotExist \<Rightarrow> Inr None
                   | ReadError \<Rightarrow> Inl CannotRead) of
               Inl err \<Rightarrow> Inl err
             | Inr base \<Rightarrow>
                 if j = None \<and> base = None then Inr (None, None)
                 else (case resume cd base (journal_bytes j) of
                         Inl err \<Rightarrow> Inl err
                       | Inr rs \<Rightarrow> Inr (Some rs, j))))
      in case read_limit maxJournalBytes (dk_journal d) of
           NotExist \<Rightarrow> replay None
         | ReadError \<Rightarrow> Inl CannotRead
         | Data bytes \<Rightarrow> replay (Some bytes))"

text \<open>\<^verbatim>\<open>LoadState\<close> merges the cache: its flags and start where the journal gives none, or all of it.\<close>

definition LoadState :: "'e codec \<Rightarrow> nat \<Rightarrow> gotime \<Rightarrow> disk \<Rightarrow> 'e load_error + run_state" where
  "LoadState cd limit now d =
     (case replayJournal cd d of
        Inl err \<Rightarrow> Inl err
      | Inr (rs, _) \<Rightarrow>
          (case read_limit limit (dk_state d) of
             Data bytes \<Rightarrow>
               (case ParseRunState (cd_state cd) bytes of
                  Inr cached \<Rightarrow>
                       (case rs of
                       None \<Rightarrow> Inr cached
                     | Some rs \<Rightarrow>
                         let rs = (if rs_Flags rs = None then rs\<lparr>rs_Flags := rs_Flags cached\<rparr> else rs)
                         in Inr (if rs_StartedAt rs = [] then rs\<lparr>rs_StartedAt := rs_StartedAt cached\<rparr> else rs))
                | Inl err \<Rightarrow> (case rs of None \<Rightarrow> Inl (StateError err) | Some rs \<Rightarrow> Inr rs))
           | NotExist \<Rightarrow> (case rs of None \<Rightarrow> Inr (NewRunState now) | Some rs \<Rightarrow> Inr rs)
           | ReadError \<Rightarrow> (case rs of None \<Rightarrow> Inl CannotRead | Some rs \<Rightarrow> Inr rs)))"

section \<open>Compaction\<close>

text \<open>
  The snapshot \<^verbatim>\<open>compactJournalLocked\<close> writes, or \<open>None\<close> when there is nothing to compact or it gives
  up before touching a file.
\<close>

definition snapshot :: "'e codec \<Rightarrow> string \<Rightarrow> disk \<Rightarrow> string option" where
  "snapshot cd now d =
     (case replayJournal cd d of
        Inr (Some rs, Some journal) \<Rightarrow>
          if length journal = 0 \<or> length (rs_History rs) = 0 then None
          else cd_cp_encode cd
                 \<lparr>cp_Version = checkpointVersion, cp_CreatedAt = now, cp_JournalBytes = int (length journal),
                  cp_JournalSHA256 = cd_digest cd journal, cp_Events = length (rs_History rs),
                  cp_LastEventTime = he_T (last (rs_History rs)), cp_State = Some rs\<rparr>
      | _ \<Rightarrow> None)"

text \<open>
  The disks a compaction passes through: the checkpoint is written (atomically), the old rotated
  segment removed, the journal renamed. \<open>compactJournalLocked k\<close> is what is left when \<open>k\<close> of these
  operations succeed before one fails or the process dies.
\<close>

definition compaction_steps :: "'e codec \<Rightarrow> string \<Rightarrow> disk \<Rightarrow> disk list" where
  "compaction_steps cd now d =
     (case snapshot cd now d of
        None \<Rightarrow> []
      | Some bytes \<Rightarrow>
          let d1 = d\<lparr>dk_checkpoint := Bytes bytes\<rparr>;
              d2 = d1\<lparr>dk_rotated := NoFile\<rparr>;
              d3 = d2\<lparr>dk_rotated := dk_journal d, dk_journal := NoFile\<rparr>
          in [d1, d2, d3])"

definition compactJournalLocked :: "'e codec \<Rightarrow> string \<Rightarrow> nat \<Rightarrow> disk \<Rightarrow> disk" where
  "compactJournalLocked cd now k d = last (d # take k (compaction_steps cd now d))"

section \<open>Appending\<close>

text \<open>
  \<^verbatim>\<open>appendJournal\<close>: an oversized line is refused; crossing the soft threshold first tries a compaction
  (unless one failed a moment ago, \<open>wait\<close>); the line is then added unless the hard limit is reached.
  \<open>written\<close> is how many bytes reach the file before a crash or an error, \<open>synced\<close> whether the fsync
  succeeds; the flag of the result says that the append is acknowledged.
\<close>

definition file_size :: "dfile \<Rightarrow> nat" where
  "file_size f = (case f of Bytes s \<Rightarrow> length s | _ \<Rightarrow> 0)"

definition maybeCompactLocked :: "'e codec \<Rightarrow> string \<Rightarrow> nat \<Rightarrow> bool \<Rightarrow> nat \<Rightarrow> nat \<Rightarrow> disk \<Rightarrow> disk" where
  "maybeCompactLocked cd now k wait sz incoming d =
     (if sz + incoming \<le> journalCompactBytes then d
      else if wait then d
      else compactJournalLocked cd now k d)"

definition append_bytes :: "dfile \<Rightarrow> string \<Rightarrow> dfile" where
  "append_bytes f line = (case f of Bytes s \<Rightarrow> Bytes (s @ line) | NoFile \<Rightarrow> Bytes line | BadFile \<Rightarrow> BadFile)"

definition appendJournal ::
  "'e codec \<Rightarrow> string \<Rightarrow> nat \<Rightarrow> bool \<Rightarrow> nat \<Rightarrow> bool \<Rightarrow> string \<Rightarrow> disk \<Rightarrow> disk \<times> bool" where
  "appendJournal cd now k wait written synced line d =
     (if length line = 0 \<or> length line > maxJournalLineBytes then (d, False)
      else
        let d = maybeCompactLocked cd now k wait (file_size (dk_journal d)) (length line) d
        in if dk_journal d = BadFile \<or> file_size (dk_journal d) > maxJournalBytes - length line then (d, False)
           else (d\<lparr>dk_journal := append_bytes (dk_journal d) (take written line)\<rparr>, length line \<le> written \<and> synced))"

section \<open>Compaction loses nothing\<close>

lemma resume_events:
  "resume cd base bytes =
     (case snd (journal_events (cd_event cd) bytes) of
        None \<Rightarrow> Inr (jr_rs (fold replay_event (fst (journal_events (cd_event cd) bytes)) (newJournalReplay base)))
      | Some (line, err) \<Rightarrow> Inl (ReplayError line err))"
  by (simp add: resume_def ResumeJournal_events split: option.split)

lemma resume_state:
  assumes "resume cd base bytes = Inr rs"
  obtains evs where "rs = jr_rs (fold replay_event evs (newJournalReplay base))"
    "journal_events (cd_event cd) bytes = (evs, None)"
  using assms unfolding resume_events by (cases "journal_events (cd_event cd) bytes") (auto split: option.splits)

lemma resume_nodes: "resume cd base bytes = Inr rs \<Longrightarrow> rs_Nodes rs \<noteq> None"
  using journal.fold_good [OF load_ok] by (auto elim!: resume_state simp: replay_ok_def)

lemma journal_events_Nil [simp]: "journal_events decode [] = ([], None)"
  by (simp add: journal_events_def trim_space_def trim_left_space_def trim_right_space_def)

lemma resume_Nil: "rs_Nodes rs \<noteq> None \<Longrightarrow> resume cd (Some rs) [] = Inr rs"
  by (simp add: resume_events newJournalReplay_eq base_state_def normal_nodes_def)

text \<open>
  What JSON keeps of a run state: \<^verbatim>\<open>omitempty\<close> does not tell an empty flag map from none.
\<close>

definition omit_empty :: "flags option \<Rightarrow> flags option" where
  "omit_empty fl = (if fl = Some Map.empty then None else fl)"

definition json_state :: "run_state \<Rightarrow> run_state" where
  "json_state rs = rs\<lparr>rs_Flags := omit_empty (rs_Flags rs),
     rs_History := map (\<lambda>ev. ev\<lparr>he_Flags := omit_empty (he_Flags ev)\<rparr>) (rs_History rs)\<rparr>"

lemma json_state_simps [simp]: "rs_Nodes (json_state rs) = rs_Nodes rs" "json_state (json_state rs) = json_state rs"
  by (simp_all add: json_state_def omit_empty_def o_def)

definition cp_codec_ok :: "'e codec \<Rightarrow> bool" where
  "cp_codec_ok cd \<longleftrightarrow>
     (\<forall>cp bytes. cd_cp_encode cd cp = Some bytes \<longrightarrow>
        cd_cp_decode cd bytes = Some (cp\<lparr>cp_State := map_option json_state (cp_State cp)\<rparr>)) \<and>
     (\<forall>s. cd_digest cd s \<noteq> [])"

text \<open>The run state a disk loads to, without the returned journal.\<close>

definition loaded :: "'e codec \<Rightarrow> disk \<Rightarrow> 'e load_error + run_state option" where
  "loaded cd d = map_sum id (map_option json_state \<circ> fst) (replayJournal cd d)"

lemma replay_result_nodes:
  assumes "replayJournal cd d = Inr (Some rs, j)"
  shows "rs_Nodes rs \<noteq> None"
  using assms resume_nodes unfolding replayJournal_def Let_def
  by (auto split: read_result.splits option.splits sum.splits if_splits)

lemma replay_journal_read:
  assumes "replayJournal cd d = Inr (Some rs, Some j)"
  shows "read_limit maxJournalBytes (dk_journal d) = Data j"
  using assms unfolding replayJournal_def Let_def
  by (auto split: read_result.splits option.splits sum.splits if_splits)

lemma replay_from_checkpoint:
  assumes "readCheckpoint cd d = Some cp" "cp_State cp = Some rs" "rs_Nodes rs \<noteq> None"
    and "read_limit maxJournalBytes (dk_journal d) = Data j \<and> covers cd cp j \<and> cp_JournalBytes cp = int (length j) \<or>
      read_limit maxJournalBytes (dk_journal d) = NotExist \<and> \<not> covers cd cp []"
  shows "\<exists>jo. replayJournal cd d = Inr (Some rs, jo)"
  using assms resume_Nil [OF assms(3), of cd] unfolding replayJournal_def Let_def
  by (auto simp: journal_bytes_def)

text \<open>The checkpoint a compaction commits, as any later disk reads it back.\<close>

lemma committed_checkpoint:
  assumes codec: "cp_codec_ok cd" and snap: "snapshot cd now d = Some bytes" "length bytes \<le> maxCheckpointBytes"
  obtains rs j cp where "replayJournal cd d = Inr (Some rs, Some j)" "j \<noteq> []" "rs_Nodes rs \<noteq> None"
    "cp_JournalBytes cp = int (length j)" "cp_JournalSHA256 cp = cd_digest cd j" "cp_State cp = Some (json_state rs)"
    "\<And>e. dk_checkpoint e = Bytes bytes \<Longrightarrow> readCheckpoint cd e = Some cp"
proof -
  obtain rs j where replay: "replayJournal cd d = Inr (Some rs, Some j)" and j: "j \<noteq> []"
    using snap(1) unfolding snapshot_def by (auto split: sum.splits option.splits prod.splits if_splits)
  let ?cp = "\<lparr>cp_Version = checkpointVersion, cp_CreatedAt = now, cp_JournalBytes = int (length j),
      cp_JournalSHA256 = cd_digest cd j, cp_Events = length (rs_History rs),
      cp_LastEventTime = he_T (last (rs_History rs)), cp_State = Some (json_state rs)\<rparr>"
  have dec: "cd_cp_decode cd bytes = Some ?cp"
    using snap(1) codec unfolding snapshot_def replay cp_codec_ok_def by (auto split: if_splits)
  obtain m where nodes: "rs_Nodes rs = Some m" using replay_result_nodes [OF replay] by blast
  have sha: "cd_digest cd j \<noteq> []" using codec by (simp add: cp_codec_ok_def)
  have cp: "readCheckpoint cd e = Some ?cp" if "dk_checkpoint e = Bytes bytes" for e
    using snap(2) dec nodes sha unfolding readCheckpoint_def read_limit_def that by simp
  show ?thesis by (rule that [OF replay j _ _ _ _ cp]) (simp_all add: nodes)
qed

lemma compaction_step_files:
  assumes "d' \<in> set (compaction_steps cd now d)" "snapshot cd now d = Some bytes"
  shows "dk_checkpoint d' = Bytes bytes \<and> (dk_journal d' = dk_journal d \<or> dk_journal d' = NoFile)"
  using assms by (auto simp: compaction_steps_def Let_def)

lemma compaction_step_loads:
  assumes codec: "cp_codec_ok cd" and snap: "snapshot cd now d = Some bytes" "length bytes \<le> maxCheckpointBytes"
    and step: "d' \<in> set (compaction_steps cd now d)"
  shows "loaded cd d' = loaded cd d"
  using codec snap
proof (rule committed_checkpoint)
  fix rs j cp
  assume replay: "replayJournal cd d = Inr (Some rs, Some j)" and j: "j \<noteq> []" and nodes: "rs_Nodes rs \<noteq> None"
    and cp: "cp_JournalBytes cp = int (length j)" "cp_JournalSHA256 cp = cd_digest cd j" "cp_State cp = Some (json_state rs)"
      "\<And>e. dk_checkpoint e = Bytes bytes \<Longrightarrow> readCheckpoint cd e = Some cp"
  have read: "read_limit maxJournalBytes (dk_journal d) = Data j" by (rule replay_journal_read [OF replay])
  note files = compaction_step_files [OF step snap(1)]
  have "\<exists>jo. replayJournal cd d' = Inr (Some (json_state rs), jo)"
    by (rule replay_from_checkpoint [where cp = cp and j = j])
       (use cp files nodes read j in \<open>auto simp: covers_def read_limit_def\<close>)
  then show ?thesis by (auto simp: loaded_def replay)
qed

text \<open>The event a line adds is the same whether or not the state has been through JSON.\<close>

lemma json_state_fields [simp]:
  "rs_StartedAt (json_state rs) = rs_StartedAt rs" "rs_Flags (json_state rs) = omit_empty (rs_Flags rs)"
  "rs_History (json_state rs) = map (\<lambda>ev. ev\<lparr>he_Flags := omit_empty (he_Flags ev)\<rparr>) (rs_History rs)"
  by (simp_all add: json_state_def)

lemma omit_empty_idem [simp]: "omit_empty (omit_empty fl) = omit_empty fl"
  by (simp add: omit_empty_def)

definition same_json :: "journal_replay \<Rightarrow> journal_replay \<Rightarrow> bool" where
  "same_json r' r \<longleftrightarrow> json_state (jr_rs r') = json_state (jr_rs r) \<and>
     jr_statusIndex r' = jr_statusIndex r \<and> jr_latestStatus r' = jr_latestStatus r"

lemma json_state_eq_iff:
  "json_state a = json_state b \<longleftrightarrow> rs_StartedAt a = rs_StartedAt b \<and> rs_Nodes a = rs_Nodes b \<and>
     omit_empty (rs_Flags a) = omit_empty (rs_Flags b) \<and>
     map (\<lambda>ev. ev\<lparr>he_Flags := omit_empty (he_Flags ev)\<rparr>) (rs_History a) =
       map (\<lambda>ev. ev\<lparr>he_Flags := omit_empty (he_Flags ev)\<rparr>) (rs_History b)"
  by (cases a; cases b) (auto simp: json_state_def)

lemma same_json_load: "rs_Nodes rs \<noteq> None \<Longrightarrow> same_json (newJournalReplay (Some (json_state rs))) (newJournalReplay (Some rs))"
  by (auto simp: same_json_def newJournalReplay_eq base_state_def normal_nodes_def o_def key_of_def
      intro!: arg_cong [where f = fst] arg_cong [where f = snd] indexes_keys)

lemma same_json_history:
  assumes "json_state a = json_state b"
  shows "length (rs_History a) = length (rs_History b)"
    and "i < length (rs_History b) \<Longrightarrow> he_Node (rs_History a ! i) = he_Node (rs_History b ! i)"
    and "json_state (retime i t a) = json_state (retime i t b)"
    and "json_state (put_node n st a) = json_state (put_node n st b)"
    and "node_state_of a n = node_state_of b n"
proof -
  let ?f = "\<lambda>ev. ev\<lparr>he_Flags := omit_empty (he_Flags ev)\<rparr>"
  have m: "map ?f (rs_History a) = map ?f (rs_History b)" using assms by (simp add: json_state_eq_iff)
  show len: "length (rs_History a) = length (rs_History b)" using m by (rule map_eq_imp_length_eq)
  have nth: "?f (rs_History a ! i) = ?f (rs_History b ! i)" if "i < length (rs_History b)" for i
    using nth_map [of i "rs_History a" ?f] nth_map [of i "rs_History b" ?f] that len unfolding m by simp
  show "he_Node (rs_History a ! i) = he_Node (rs_History b ! i)" if "i < length (rs_History b)"
    using arg_cong [OF nth [OF that], of he_Node] by simp
  have "map ?f ((rs_History a)[i := (rs_History a ! i)\<lparr>he_T := t\<rparr>]) = map ?f ((rs_History b)[i := (rs_History b ! i)\<lparr>he_T := t\<rparr>])"
  proof (cases "i < length (rs_History b)")
    case True
    have "?f ((rs_History a ! i)\<lparr>he_T := t\<rparr>) = ?f ((rs_History b ! i)\<lparr>he_T := t\<rparr>)"
      using nth [OF True] by (cases "rs_History a ! i"; cases "rs_History b ! i") simp
    then show ?thesis unfolding map_update m by (rule arg_cong)
  next
    case False
    then have a: "length (rs_History a) \<le> i" and b: "length (rs_History b) \<le> i" using len by simp_all
    show ?thesis by (simp only: list_update_beyond [OF a] list_update_beyond [OF b] m)
  qed
  then show "json_state (retime i t a) = json_state (retime i t b)"
    using assms by (simp add: json_state_eq_iff retime_def)
  show "json_state (put_node n st a) = json_state (put_node n st b)" "node_state_of a n = node_state_of b n"
    using assms by (simp_all add: json_state_eq_iff node_state_of_def)
qed

lemma json_append: "json_state a = json_state b \<Longrightarrow>
    json_state (a\<lparr>rs_History := rs_History a @ [ev]\<rparr>) = json_state (b\<lparr>rs_History := rs_History b @ [ev]\<rparr>)"
  by (simp add: json_state_eq_iff)

definition with_start :: "string \<Rightarrow> run_state \<Rightarrow> run_state" where
  "with_start t rs = (if rs_StartedAt rs = [] then rs\<lparr>rs_StartedAt := t\<rparr> else rs)"

definition with_flags :: "flags option \<Rightarrow> run_state \<Rightarrow> run_state" where
  "with_flags fl rs = (case fl of None \<Rightarrow> rs | Some x \<Rightarrow> rs\<lparr>rs_Flags := Some x\<rparr>)"

lemma replay_status_steps:
  "jr_rs (replay_status ev r) =
     (if ValidStatus (he_To ev) then
        with_start (he_T ev) (with_flags (he_StateFlags ev)
          (put_node (he_Node ev) \<lparr>ns_Status = he_To ev, ns_At = he_T ev, ns_By = he_By ev\<rparr>
            ((jr_rs r)\<lparr>rs_History := rs_History (jr_rs r) @
              [ev\<lparr>he_From := case node_state_of (jr_rs r) (he_Node ev) of Some cur \<Rightarrow> ns_Status cur | None \<Rightarrow> StatusReady\<rparr>]\<rparr>)))
      else jr_rs r)"
  by (simp add: replay_status_def Let_def with_start_def with_flags_def split: option.split)

lemma json_started: "json_state a = json_state b \<Longrightarrow> json_state (with_start t a) = json_state (with_start t b)"
  by (simp add: json_state_eq_iff with_start_def)

lemma json_flags: "json_state a = json_state b \<Longrightarrow> json_state (with_flags fl a) = json_state (with_flags fl b)"
  by (simp add: json_state_eq_iff with_flags_def split: option.split)

lemma jr_rs_set: "jr_rs (r\<lparr>jr_rs := rs\<rparr>) = rs"
  by simp

lemma same_json_event:
  assumes "same_json r' r" "replay_ok r"
  shows "json_state (jr_rs (replay_event ev r')) = json_state (jr_rs (replay_event ev r))"
proof -
  note same = assms(1) [unfolded same_json_def]
  have js: "json_state (jr_rs r') = json_state (jr_rs r)" using same by simp
  have status: "json_state (jr_rs (replay_status ev r')) = json_state (jr_rs (replay_status ev r))"
  proof (cases "ValidStatus (he_To ev)")
    case True
    show ?thesis unfolding replay_status_steps same_json_history(5) [OF js]
      by (simp only: True if_True) (intro json_started json_flags same_json_history(4) json_append js)
  qed (simp add: js replay_status_steps)
  have "json_state (jr_rs (replay_move ev r')) = json_state (jr_rs (replay_move ev r))"
  proof (cases "jr_statusIndex r (he_Ref ev)")
    case None
    moreover have "jr_statusIndex r' (he_Ref ev) = None" using None same by simp
    ultimately show ?thesis unfolding replay_move_def Let_def
      by (simp only: option.case appendHistory_rs) (rule json_append [OF js])
  next
    case (Some i)
    then have i: "i < length (rs_History (jr_rs r))"
      using status_index_event [of "rs_History (jr_rs r)" "he_Ref ev" i] assms(2) by (simp add: replay_ok_def prod_eq_iff)
    then have node: "he_Node (rs_History (jr_rs r') ! i) = he_Node (rs_History (jr_rs r) ! i)"
      by (rule same_json_history(2) [OF js])
    let ?n = "he_Node (rs_History (jr_rs r) ! i)"
    let ?g = "\<lambda>rs k st. if k = i then put_node ?n (st\<lparr>ns_At := he_T ev\<rparr>) rs else rs"
    have "json_state (?g (jr_rs r') k st) = json_state (?g (jr_rs r) k st)" for k st
      using same_json_history(4) [OF js] js by simp
    then have "json_state (case node_state_of (jr_rs r) ?n of None \<Rightarrow> jr_rs r' | Some st \<Rightarrow> ?g (jr_rs r') k st) =
        json_state (case node_state_of (jr_rs r) ?n of None \<Rightarrow> jr_rs r | Some st \<Rightarrow> ?g (jr_rs r) k st)" for k
      using js by (cases "node_state_of (jr_rs r) ?n") simp_all
    moreover have "jr_statusIndex r' (he_Ref ev) = Some i" "jr_latestStatus r' = jr_latestStatus r"
      using Some same by simp_all
    ultimately show ?thesis using Some
      unfolding replay_move_def Let_def appendHistory_rs same_json_history(5) [OF js]
      by (simp only: option.case jr_rs_set node) (intro json_append same_json_history(3))
  qed
  then show ?thesis unfolding replay_event_def using status json_append [OF js] js by simp
qed

section \<open>One appended line is one more event\<close>

lemma resume_append:
  assumes "resume cd base d1 = Inr rs" "d1 = [] \<or> has_suffix d1 [CHR 0x0A]"
    and "cd_event cd line = Inr ev" "CHR 0x0A \<notin> set line" "trim_space line \<noteq> []"
  shows "resume cd base (d1 @ line @ [CHR 0x0A]) = Inr (jr_rs (replay_event ev (newJournalReplay (Some rs))))"
proof -
  obtain evs where evs: "rs = jr_rs (fold replay_event evs (newJournalReplay base))"
    "journal_events (cd_event cd) d1 = (evs, None)" using assms(1) by (rule resume_state)
  have line: "journal_events (cd_event cd) (line @ [CHR 0x0A]) = ([ev], None)"
    by (rule one_line_events) (use assms in simp_all)
  have "journal_events (cd_event cd) (d1 @ line @ [CHR 0x0A]) = (evs @ [ev], None)"
  proof (cases "d1 = []")
    case True
    then show ?thesis using line evs(2) by simp
  next
    case False
    then show ?thesis using journal_events_append [OF _ evs(2)] line assms(2) by simp
  qed
  then show ?thesis using journal.resume_fold [of evs "[ev]" base] evs(1) by (simp add: resume_events)
qed

lemma drop_terminated:
  assumes "j = [] \<or> has_suffix j [c]"
  shows "drop n j = [] \<or> has_suffix (drop n j) [c]"
proof (cases "drop n j = []")
  case False
  then show ?thesis using assms has_suffix_append [of "drop n j" "take n j" c] by auto
qed simp

lemma covers_bound: "covers cd cp j \<Longrightarrow> nat (cp_JournalBytes cp) \<le> length j"
  by (simp add: covers_def nat_le_iff split: if_splits)

lemma fresh_replay: "newJournalReplay (Some (base_state None)) = newJournalReplay None"
  by (simp add: newJournalReplay_eq base_state_def normal_nodes_def)

lemma resume_None_Nil: "resume cd None [] = Inr (base_state None)"
  by (simp add: resume_events newJournalReplay_eq)

text \<open>Replay with the files spelled out: by a checkpoint, or from the rotated segment.\<close>

lemma replay_by_checkpoint:
  assumes "readCheckpoint cd d = Some cp" "read_limit maxJournalBytes (dk_journal d) = Data j"
  shows "replayJournal cd d =
    map_sum id (\<lambda>rs. (Some rs, Some j)) (resume cd (cp_State cp) (if covers cd cp j then drop (nat (cp_JournalBytes cp)) j else j))"
  using assms by (simp add: replayJournal_def journal_bytes_def split: sum.split)

definition rotated_base :: "'e codec \<Rightarrow> disk \<Rightarrow> 'e load_error + run_state option" where
  "rotated_base cd d =
     (case read_limit maxJournalBytes (dk_rotated d) of
        Data rotated \<Rightarrow> (case resume cd None rotated of Inl err \<Rightarrow> Inl err | Inr rs \<Rightarrow> Inr (Some rs))
      | NotExist \<Rightarrow> Inr None
      | ReadError \<Rightarrow> Inl CannotRead)"

lemma replay_by_rotated:
  assumes "readCheckpoint cd d = None" "read_limit maxJournalBytes (dk_journal d) = Data j" "rotated_base cd d = Inr base"
  shows "replayJournal cd d = map_sum id (\<lambda>rs. (Some rs, Some j)) (resume cd base j)"
  using assms(1,2) unfolding replayJournal_def Let_def assms(3) [unfolded rotated_base_def]
  by (simp add: journal_bytes_def split: sum.split)

lemma replay_cases:
  assumes "replayJournal cd d = Inr (ro, jo)"
  obtains (cp) cp rs where "readCheckpoint cd d = Some cp" "ro = Some rs"
      "resume cd (cp_State cp) (if covers cd cp (journal_bytes jo) then drop (nat (cp_JournalBytes cp)) (journal_bytes jo)
         else journal_bytes jo) = Inr rs"
    | (rotated) base rs where "readCheckpoint cd d = None" "rotated_base cd d = Inr base" "ro = Some rs"
      "resume cd base (journal_bytes jo) = Inr rs"
    | (fresh) "readCheckpoint cd d = None" "rotated_base cd d = Inr None" "ro = None" "jo = None"
  using assms unfolding replayJournal_def Let_def rotated_base_def
  by (auto split: read_result.splits option.splits sum.splits if_splits)

lemma replay_append:
  assumes replay: "replayJournal cd d = Inr (ro, jo)"
    and tail: "journal_bytes jo = [] \<or> has_suffix (journal_bytes jo) [CHR 0x0A]"
    and line: "cd_event cd line = Inr ev" "CHR 0x0A \<notin> set line" "trim_space line \<noteq> []"
    and same: "\<forall>cp. readCheckpoint cd d = Some cp \<longrightarrow>
      covers cd cp (journal_bytes jo @ line @ [CHR 0x0A]) = covers cd cp (journal_bytes jo)"
    and read: "read_limit maxJournalBytes (dk_journal e) = Data (journal_bytes jo @ line @ [CHR 0x0A])"
    and others: "dk_rotated e = dk_rotated d" "dk_checkpoint e = dk_checkpoint d"
  shows "replayJournal cd e =
    Inr (Some (jr_rs (replay_event ev (newJournalReplay ro))), Some (journal_bytes jo @ line @ [CHR 0x0A]))"
proof -
  have files: "readCheckpoint cd e = readCheckpoint cd d" "rotated_base cd e = rotated_base cd d"
    using others by (simp_all add: readCheckpoint_def rotated_base_def)
  note more = resume_append [OF _ _ line]
  from replay show ?thesis
  proof (cases rule: replay_cases)
    case (cp cp rs)
    let ?n = "nat (cp_JournalBytes cp)"
    have drop: "?n \<le> length (journal_bytes jo)" if "covers cd cp (journal_bytes jo)" using that by (rule covers_bound)
    have "resume cd (cp_State cp)
        (if covers cd cp (journal_bytes jo) then drop ?n (journal_bytes jo @ line @ [CHR 0x0A])
         else journal_bytes jo @ line @ [CHR 0x0A]) = Inr (jr_rs (replay_event ev (newJournalReplay ro)))"
      using cp(3) more [OF cp(3)] drop_terminated [OF tail, of ?n] tail drop cp(2) by (simp split: if_splits)
    moreover have "readCheckpoint cd e = Some cp" using cp(1) files(1) by simp
    moreover have "covers cd cp (journal_bytes jo @ line @ [CHR 0x0A]) = covers cd cp (journal_bytes jo)"
      using same cp(1) by blast
    ultimately show ?thesis using replay_by_checkpoint [of cd e cp, OF _ read] by simp
  next
    case (rotated base rs)
    then show ?thesis using replay_by_rotated [of cd e, OF _ read] files more [OF rotated(4) tail] by simp
  next
    case fresh
    have "resume cd None (line @ [CHR 0x0A]) = Inr (jr_rs (replay_event ev (newJournalReplay None)))"
      using more [OF resume_None_Nil] by (simp add: fresh_replay)
    then show ?thesis using replay_by_rotated [of cd e, OF _ read] files fresh by (simp add: journal_bytes_def)
  qed
qed

lemma compact_cases:
  "compactJournalLocked cd now k d = d \<or> compactJournalLocked cd now k d \<in> set (compaction_steps cd now d)"
proof (cases "take k (compaction_steps cd now d) = []")
  case False
  then show ?thesis using in_set_takeD [OF last_in_set [OF False]] by (simp add: compactJournalLocked_def)
qed (simp add: compactJournalLocked_def)


definition sample_event :: history_event where
  "sample_event = status_event ''e1'' ''t'' ''n1'' StatusReady StatusDone ''me''"

definition sample_state :: run_state where
  "sample_state = jr_rs (replay_event sample_event (newJournalReplay None))"

definition sample_checkpoint :: journal_checkpoint where
  "sample_checkpoint =
     \<lparr>cp_Version = checkpointVersion, cp_CreatedAt = ''now'', cp_JournalBytes = 2,
      cp_JournalSHA256 = ''#x'' @ [CHR 0x0A], cp_Events = 1, cp_LastEventTime = ''t'', cp_State = Some sample_state\<rparr>"

definition sample_codec :: "unit codec" where
  "sample_codec =
     \<lparr>cd_event = (\<lambda>l. if l = ''x'' then Inr sample_event else Inl ()),
      cd_cp_decode = (\<lambda>b. if b = ''cp'' then Some (sample_checkpoint\<lparr>cp_State := Some (json_state sample_state)\<rparr>) else None),
      cd_cp_encode = (\<lambda>cp. if cp = sample_checkpoint then Some ''cp'' else None),
      cd_state = (\<lambda>_. Inl ()), cd_digest = (\<lambda>s. ''#'' @ s)\<rparr>"

definition sample_disk :: disk where
  "sample_disk = \<lparr>dk_journal = Bytes (''x'' @ [CHR 0x0A]), dk_rotated = NoFile, dk_checkpoint = NoFile, dk_state = NoFile\<rparr>"

lemma sample_codec_ok: "cp_codec_ok sample_codec"
  by (simp add: cp_codec_ok_def sample_codec_def sample_checkpoint_def)

lemma sample_history: "length (rs_History sample_state) = 1" "he_T (last (rs_History sample_state)) = ''t''"
  by code_simp+

lemma sample_line: "trim_space ''x'' = ''x''"
  by code_simp

lemma sample_resume: "resume sample_codec None (''x'' @ [CHR 0x0A]) = Inr sample_state"
proof -
  have "journal_events (cd_event sample_codec) (''x'' @ [CHR 0x0A]) = ([sample_event], None)"
    by (rule one_line_events) (simp_all add: sample_codec_def sample_line)
  then show ?thesis by (simp add: resume_events sample_state_def)
qed

lemma sample_replay: "replayJournal sample_codec sample_disk = Inr (Some sample_state, Some (''x'' @ [CHR 0x0A]))"
proof -
  have files: "readCheckpoint sample_codec sample_disk = None" "rotated_base sample_codec sample_disk = Inr None"
      "read_limit maxJournalBytes (dk_journal sample_disk) = Data (''x'' @ [CHR 0x0A])"
    by (simp_all add: readCheckpoint_def rotated_base_def sample_disk_def read_limit_def maxJournalBytes_def)
  show ?thesis using replay_by_rotated [OF files(1,3,2)] sample_resume by simp
qed

lemma sample_snapshot: "snapshot sample_codec ''now'' sample_disk = Some ''cp''"
  using sample_history by (simp add: snapshot_def sample_replay) (simp add: sample_codec_def sample_checkpoint_def)


lemma read_bytes: "length s \<le> limit \<Longrightarrow> read_limit limit (Bytes s) = Data s"
  by (simp add: read_limit_def)

lemma readable_journal:
  assumes "replayJournal cd d = Inr (ro, jo)"
  shows "dk_journal d = (case jo of None \<Rightarrow> NoFile | Some j \<Rightarrow> Bytes j)"
  using assms unfolding replayJournal_def Let_def read_limit_def
  by (auto split: dfile.splits read_result.splits option.splits sum.splits if_splits)

lemma append_keeps_files:
  "dk_rotated (d\<lparr>dk_journal := f\<rparr>) = dk_rotated d" "dk_checkpoint (d\<lparr>dk_journal := f\<rparr>) = dk_checkpoint d"
  by simp_all

lemma append_after_step:
  assumes codec: "cp_codec_ok cd" and snap: "snapshot cd now d = Some bytes" "length bytes \<le> maxCheckpointBytes"
    and step: "e \<in> set (compaction_steps cd now d)"
    and long: "length line + 1 < file_size (dk_journal d)"
    and line: "cd_event cd line = Inr ev" "CHR 0x0A \<notin> set line" "trim_space line \<noteq> []"
    and room: "file_size (dk_journal e) + length line + 1 \<le> maxJournalBytes"
    and replay: "replayJournal cd d = Inr (Some rs, jo)"
  shows "loaded cd (e\<lparr>dk_journal := append_bytes (dk_journal e) (line @ [CHR 0x0A])\<rparr>) =
    Inr (Some (json_state (jr_rs (replay_event ev (newJournalReplay (Some rs))))))"
  using codec snap
proof (rule committed_checkpoint)
  fix rs' j cp
  assume replay': "replayJournal cd d = Inr (Some rs', Some j)" and j: "j \<noteq> []" and nodes: "rs_Nodes rs' \<noteq> None"
    and cp: "cp_JournalBytes cp = int (length j)" "cp_JournalSHA256 cp = cd_digest cd j" "cp_State cp = Some (json_state rs')"
      "\<And>e. dk_checkpoint e = Bytes bytes \<Longrightarrow> readCheckpoint cd e = Some cp"
  have rs: "rs' = rs" using replay replay' by simp
  note files = compaction_step_files [OF step snap(1)]
  let ?line = "line @ [CHR 0x0A]" and ?e = "e\<lparr>dk_journal := append_bytes (dk_journal e) (line @ [CHR 0x0A])\<rparr>"
  have dj: "dk_journal d = Bytes j" using readable_journal [OF replay'] by simp
  have one: "resume cd (Some (json_state rs)) ?line =
      Inr (jr_rs (replay_event ev (newJournalReplay (Some (json_state rs)))))"
    using resume_append [of cd "Some (json_state rs)" "[]", OF _ _ line] resume_Nil [of "json_state rs" cd] nodes rs by simp
  have same: "json_state (jr_rs (replay_event ev (newJournalReplay (Some (json_state rs))))) =
      json_state (jr_rs (replay_event ev (newJournalReplay (Some rs))))"
    by (rule same_json_event [OF same_json_load load_ok]) (use nodes rs in simp)
  have "\<exists>jo. replayJournal cd ?e = Inr (Some (jr_rs (replay_event ev (newJournalReplay (Some (json_state rs))))), jo)"
  proof (cases "dk_journal e = NoFile")
    case True
    have "read_limit maxJournalBytes (dk_journal ?e) = Data ?line"
      using room True by (simp add: append_bytes_def read_limit_def)
    moreover have "\<not> covers cd cp ?line" using long dj cp(1) by (simp add: covers_def file_size_def)
    ultimately show ?thesis
      using replay_by_checkpoint [of cd ?e cp ?line] cp(3) cp(4) [of ?e] files one rs by simp
  next
    case False
    then have ej: "dk_journal e = Bytes j" using files dj by simp
    have "read_limit maxJournalBytes (dk_journal ?e) = Data (j @ ?line)"
      using room by (simp add: ej append_bytes_def read_limit_def file_size_def)
    moreover have "covers cd cp (j @ ?line)" using j cp(1,2) by (simp add: covers_def)
    ultimately show ?thesis
      using replay_by_checkpoint [of cd ?e cp "j @ ?line"] cp(1,3) cp(4) [of ?e] files one rs by simp
  qed
  then show ?thesis using same by (auto simp: loaded_def)
qed

lemma maybe_compact_cases:
  "maybeCompactLocked cd now k wait sz incoming d = d \<or>
   maybeCompactLocked cd now k wait sz incoming d \<in> set (compaction_steps cd now d) \<and> journalCompactBytes < sz + incoming"
proof (cases "sz + incoming \<le> journalCompactBytes \<or> wait")
  case False
  then have "maybeCompactLocked cd now k wait sz incoming d = compactJournalLocked cd now k d"
    "journalCompactBytes < sz + incoming" by (simp_all add: maybeCompactLocked_def)
  then show ?thesis using compact_cases [of cd now k d] by presburger
qed (auto simp: maybeCompactLocked_def)

lemma append_one_event:
  assumes codec: "cp_codec_ok cd" "\<forall>bytes. snapshot cd now d = Some bytes \<longrightarrow> length bytes \<le> maxCheckpointBytes"
    and line: "cd_event cd line = Inr ev" "CHR 0x0A \<notin> set line" "trim_space line \<noteq> []"
    and replay: "replayJournal cd d = Inr (ro, jo)"
    and tail: "journal_bytes jo = [] \<or> has_suffix (journal_bytes jo) [CHR 0x0A]"
    and same: "\<forall>cp. readCheckpoint cd d = Some cp \<longrightarrow>
      covers cd cp (journal_bytes jo @ line @ [CHR 0x0A]) = covers cd cp (journal_bytes jo)"
    and append: "appendJournal cd now k wait written synced (line @ [CHR 0x0A]) d = (d', True)"
  shows "loaded cd d' = Inr (Some (json_state (jr_rs (replay_event ev (newJournalReplay ro)))))"
proof -
  let ?line = "line @ [CHR 0x0A]"
  let ?e = "maybeCompactLocked cd now k wait (file_size (dk_journal d)) (length ?line) d"
  have small: "length line + 1 \<le> maxJournalLineBytes" and room: "file_size (dk_journal ?e) + length line + 1 \<le> maxJournalBytes"
    and d': "d' = ?e\<lparr>dk_journal := append_bytes (dk_journal ?e) ?line\<rparr>"
    using append by (auto simp: appendJournal_def Let_def maxJournalLineBytes_def maxJournalBytes_def split: if_splits)
  consider (unchanged) "?e = d" | (step) "?e \<in> set (compaction_steps cd now d)"
      "journalCompactBytes < file_size (dk_journal d) + length ?line"
    using maybe_compact_cases [of cd now k wait "file_size (dk_journal d)" "length ?line" d] by blast
  then show ?thesis
  proof cases
    case unchanged
    have "append_bytes (dk_journal d) ?line = Bytes (journal_bytes jo @ ?line)"
      using readable_journal [OF replay] by (simp add: append_bytes_def journal_bytes_def split: option.splits)
    moreover have "file_size (dk_journal d) = length (journal_bytes jo)"
      using readable_journal [OF replay] by (simp add: file_size_def journal_bytes_def split: option.splits)
    ultimately have "read_limit maxJournalBytes (dk_journal d') = Data (journal_bytes jo @ ?line)"
      using room unchanged d' by (simp add: read_limit_def)
    then show ?thesis
      using replay_append [OF replay tail line same, of d'] d' unchanged by (simp add: loaded_def)
  next
    case step
    obtain bytes where snap: "snapshot cd now d = Some bytes"
      using step(1) by (cases "snapshot cd now d") (simp_all add: compaction_steps_def)
    then obtain rs where ro: "ro = Some rs"
      using replay by (auto simp: snapshot_def split: option.splits)
    have "length line + 1 < file_size (dk_journal d)"
      using step(2) small by (simp add: journalCompactBytes_def maxJournalLineBytes_def)
    then show ?thesis
      using append_after_step [OF codec(1) snap _ step(1) _ line room] codec(2) snap replay ro d' by simp
  qed
qed



section \<open>A torn tail is not repaired\<close>

lemma split_on_none: "c \<notin> set s \<Longrightarrow> split_on c s = [s]"
  by (induction s) auto

lemma torn_events:
  assumes "CHR 0x0A \<notin> set torn" "decode torn = Inl e" "trim_space torn \<noteq> []"
  shows "journal_events decode torn = ([], None)"
proof -
  have "\<not> has_suffix torn [CHR 0x0A]" using assms(1) by (auto simp: has_suffix_snoc)
  then show ?thesis using assms by (simp add: journal_events_def split_on_none)
qed

lemma broken_line_events:
  assumes "CHR 0x0A \<notin> set l" "decode l = Inl err" "trim_space l \<noteq> []"
  shows "journal_events decode (l @ [CHR 0x0A]) = ([], Some (1, err))"
  using assms by (simp add: journal_events_def split_on_snoc split_on_none)

lemma events_after:
  assumes "p = [] \<or> has_suffix p [CHR 0x0A]" "journal_events decode p = (evs, None)" "journal_events decode q = ([], err)"
  shows "\<exists>err'. journal_events decode (p @ q) = (evs, err') \<and> map_option snd err' = map_option snd err"
proof (cases "p = []")
  case False
  then show ?thesis using assms journal_events_append [of p decode evs q]
    by (cases err) auto
qed (use assms in auto)

text \<open>
  C40. A torn last line, which a crash during an append leaves and which replay tolerates, is not removed by
  the next append: the new line is written right behind it, the two become one complete undecodable
  line, and from then on the project's run state can no longer be loaded.
\<close>

theorem torn_append_breaks:
  assumes journal: "dk_journal d = Bytes (p @ torn)" "readCheckpoint cd d = None" "rotated_base cd d = Inr base"
    and prefix: "p = [] \<or> has_suffix p [CHR 0x0A]" "journal_events (cd_event cd) p = (evs, None)"
    and torn: "CHR 0x0A \<notin> set torn" "cd_event cd torn = Inl e" "trim_space torn \<noteq> []"
    and line: "CHR 0x0A \<notin> set line" "cd_event cd (torn @ line) = Inl err" "trim_space (torn @ line) \<noteq> []"
    and small: "length (p @ torn) + length line + 1 \<le> journalCompactBytes" "length line + 1 \<le> maxJournalLineBytes"
  shows "loaded cd d = Inr (Some (json_state (jr_rs (fold replay_event evs (newJournalReplay base))))) \<and>
    (\<exists>d' n. appendJournal cd now k wait (length line + 1) True (line @ [CHR 0x0A]) d = (d', True) \<and>
       loaded cd d' = Inl (ReplayError n err))"
proof
  let ?j = "p @ torn @ line @ [CHR 0x0A]" let ?d = "d\<lparr>dk_journal := Bytes ?j\<rparr>"
  have limit: "length ?j \<le> maxJournalBytes" "length (p @ torn) \<le> maxJournalBytes"
    using small(1) by (simp_all add: journalCompactBytes_def maxJournalBytes_def)
  have "journal_events (cd_event cd) (p @ torn) = (evs, None)"
    using events_after [OF prefix torn_events [where decode = "cd_event cd", OF torn]] by auto
  then have "resume cd base (p @ torn) = Inr (jr_rs (fold replay_event evs (newJournalReplay base)))"
    by (simp add: resume_events)
  then show "loaded cd d = Inr (Some (json_state (jr_rs (fold replay_event evs (newJournalReplay base)))))"
    using replay_by_rotated [OF journal(2) _ journal(3), of "p @ torn"] limit(2) journal(1)
    by (simp add: loaded_def read_bytes)
  have "journal_events (cd_event cd) ((torn @ line) @ [CHR 0x0A]) = ([], Some (1, err))"
    by (rule broken_line_events) (use torn(1) line in simp_all)
  then obtain n where "journal_events (cd_event cd) ?j = (evs, Some (n, err))"
    using events_after [OF prefix, of "(torn @ line) @ [CHR 0x0A]"] by (auto simp: map_option_case split: option.splits)
  then have "resume cd base ?j = Inl (ReplayError n err)" by (simp add: resume_events)
  moreover have "readCheckpoint cd ?d = None" "rotated_base cd ?d = Inr base"
    using journal(2,3) by (simp_all add: readCheckpoint_def rotated_base_def)
  ultimately have "loaded cd ?d = Inl (ReplayError n err)"
    using replay_by_rotated [of cd ?d ?j base] limit(1) by (simp add: loaded_def read_bytes)
  moreover have "appendJournal cd now k wait (length line + 1) True (line @ [CHR 0x0A]) d = (?d, True)"
    using small limit(1) journal(1)
    by (simp add: appendJournal_def maybeCompactLocked_def file_size_def append_bytes_def)
  ultimately show "\<exists>d' n. appendJournal cd now k wait (length line + 1) True (line @ [CHR 0x0A]) d = (d', True) \<and>
      loaded cd d' = Inl (ReplayError n err)"
    by blast
qed

theorem torn_append_breaks_witness:
  "\<exists>d' n. appendJournal sample_codec ''now'' 3 False 2 True (''x'' @ [CHR 0x0A]) (sample_disk\<lparr>dk_journal := Bytes ''{''\<rparr>) = (d', True) \<and>
     loaded sample_codec d' = Inl (ReplayError n ())"
proof -
  let ?d = "sample_disk\<lparr>dk_journal := Bytes ''{''\<rparr>"
  have blank: "trim_space ''{'' = ''{''" "trim_space ''{x'' = ''{x''" by code_simp+
  have files: "readCheckpoint sample_codec ?d = None" "rotated_base sample_codec ?d = Inr None"
    by (simp_all add: readCheckpoint_def rotated_base_def sample_disk_def read_limit_def)
  have dec: "cd_event sample_codec ''{'' = Inl ()" "cd_event sample_codec (''{'' @ ''x'') = Inl ()"
    by (simp_all add: sample_codec_def)
  have "\<exists>d' n. appendJournal sample_codec ''now'' 3 False (length ''x'' + 1) True (''x'' @ [CHR 0x0A]) ?d = (d', True) \<and>
      loaded sample_codec d' = Inl (ReplayError n ())"
    by (rule conjunct2 [OF torn_append_breaks [where p = "[]" and torn = "''{''", OF _ files _ _ _ dec(1) _ _ dec(2)]])
       (simp_all add: blank journalCompactBytes_def maxJournalLineBytes_def)
  then show ?thesis by (simp add: numeral_2_eq_2)
qed

end
