(* ===== verification/Workspace_Defs.thy ===== *)
theory Workspace_Defs
  imports Readiness
begin

text \<open>
  The workspace's shared lifecycle states (\<^verbatim>\<open>internal/store/workspacedefs.go\<close>): merged into a project's
  graph as it is loaded, stripped as it is written, and hoisted out of the projects once. The JSON
  decoder of \<^verbatim>\<open>workflow.json\<close> is a parameter.
\<close>

section \<open>The operations\<close>

definition MaxWorkspaceStatuses :: nat where "MaxWorkspaceStatuses = 200"

definition LoadWorkspaceStatuses ::
  "(string \<Rightarrow> 'e + status_definition list) \<Rightarrow> string \<Rightarrow> (string \<Rightarrow> string option) \<Rightarrow> status_definition list" where
  "LoadWorkspaceStatuses unmarshal workspace read_file =
     (if workspace = [] then []
      else (case read_file workspace of
              None \<Rightarrow> []
            | Some data \<Rightarrow>
                (case unmarshal data of
                   Inl err \<Rightarrow> []
                 | Inr sts \<Rightarrow> if length sts > MaxWorkspaceStatuses then take MaxWorkspaceStatuses sts else sts)))"

definition empty_ui :: ui_state where
  "empty_ui = \<lparr>ui_Positions = [], ui_TimelineOrder = [], ui_Gates = [], ui_LogicGates = [], ui_EdgeLabels = [],
     ui_WireVertices = [], ui_Plans = [], ui_PlanStatuses = [], ui_CustomStatuses = [], ui_NodeStyles = [],
     ui_EntryOverrides = [], ui_Groups = [], ui_Annotations = [], ui_SavedViews = []\<rparr>"

definition mergeSharedStatuses :: "graph \<Rightarrow> status_definition list \<Rightarrow> graph" where
  "mergeSharedStatuses g shared =
     (if length shared = 0 then g
      else
        let ui = (case graph_UI g of None \<Rightarrow> empty_ui | Some ui \<Rightarrow> ui);
            own = (\<lambda>i. i \<in> set (map sd_ID (ui_CustomStatuses ui)))
        in g\<lparr>graph_UI := Some (ui\<lparr>ui_CustomStatuses :=
               fold (\<lambda>d sts. if \<not> own (sd_ID d) then sts @ [d] else sts) shared (ui_CustomStatuses ui)\<rparr>)\<rparr>)"

definition withoutSharedStatuses :: "graph \<Rightarrow> status_definition list \<Rightarrow> graph" where
  "withoutSharedStatuses g shared =
     (case graph_UI g of
        None \<Rightarrow> g
      | Some ui \<Rightarrow>
          if length shared = 0 \<or> length (ui_CustomStatuses ui) = 0 then g
          else
            let sharedIDs = (\<lambda>i. i \<in> set (map sd_ID shared));
                kept = filter (\<lambda>d. \<not> sharedIDs (sd_ID d)) (ui_CustomStatuses ui)
            in if length kept = length (ui_CustomStatuses ui) then g
               else g\<lparr>graph_UI := Some (ui\<lparr>ui_CustomStatuses := kept\<rparr>)\<rparr>)"

text \<open>
  Hoisting: the accumulator is the shared list with the sets of its ids and labels. An unreadable or
  unparsable graph is \<open>None\<close> and skipped.
\<close>

record hoist =
  ho_shared :: "status_definition list"
  ho_ids :: "string boolmap"
  ho_labels :: "string boolmap"
  ho_changed :: bool

definition status_label_key :: "status_definition \<Rightarrow> string" where
  "status_label_key d = to_lower (trim_space (sd_Label d))"

fun hoist_definitions :: "status_definition list \<Rightarrow> hoist \<Rightarrow> hoist" where
  "hoist_definitions [] h = h"
| "hoist_definitions (d # ds) h =
     (let label = status_label_key d in
      if ho_ids h (sd_ID d) \<or> ho_labels h label \<or> label = [] then hoist_definitions ds h
      else if length (ho_shared h) \<ge> MaxWorkspaceStatuses then h
      else hoist_definitions ds
             (h\<lparr>ho_shared := ho_shared h @ [d], ho_ids := (ho_ids h)(sd_ID d := True),
                ho_labels := (ho_labels h)(label := True), ho_changed := True\<rparr>))"

fun hoist_graphs :: "graph option list \<Rightarrow> hoist \<Rightarrow> hoist" where
  "hoist_graphs [] h = h"
| "hoist_graphs (go # gos) h =
     (case go of
        None \<Rightarrow> hoist_graphs gos h
      | Some g \<Rightarrow>
          (case graph_UI g of
             None \<Rightarrow> hoist_graphs gos h
           | Some ui \<Rightarrow> hoist_graphs gos (hoist_definitions (ui_CustomStatuses ui) h)))"

text \<open>The list to save, or \<open>None\<close> when nothing changed.\<close>

definition HoistProjectStatuses :: "status_definition list \<Rightarrow> graph option list \<Rightarrow> status_definition list option" where
  "HoistProjectStatuses shared graphs =
     (let h = hoist_graphs graphs
                \<lparr>ho_shared = shared, ho_ids = (\<lambda>i. i \<in> set (map sd_ID shared)),
                 ho_labels = (\<lambda>l. l \<in> set (map status_label_key shared)), ho_changed = False\<rparr>
      in if ho_changed h then Some (ho_shared h) else None)"

section \<open>Merging and stripping\<close>

definition statuses_of :: "graph \<Rightarrow> status_definition list" where
  "statuses_of g = statusDefinitions (Some g)"

lemma statuses_of_UI [simp]: "graph_UI g = Some ui \<Longrightarrow> statuses_of g = ui_CustomStatuses ui"
  "graph_UI g = None \<Longrightarrow> statuses_of g = []"
  by (simp_all add: statuses_of_def statusDefinitions_def)

lemma fold_add: "fold (\<lambda>d sts. if P d then sts @ [d] else sts) ds sts = sts @ filter P ds"
  by (induction ds arbitrary: sts) auto

lemma merged_statuses:
  "statuses_of (mergeSharedStatuses g shared) =
     statuses_of g @ filter (\<lambda>d. sd_ID d \<notin> set (map sd_ID (statuses_of g))) shared"
  by (cases "graph_UI g") (auto simp: mergeSharedStatuses_def Let_def fold_add empty_ui_def)

lemma stripped_statuses:
  "statuses_of (withoutSharedStatuses g shared) = filter (\<lambda>d. sd_ID d \<notin> set (map sd_ID shared)) (statuses_of g)"
proof (cases "graph_UI g")
  case (Some ui)
  have all: "filter P xs = xs" if "length (filter P xs) = length xs" for P and xs :: "status_definition list"
    using that length_filter_less [of _ xs P] by (metis filter_id_conv less_irrefl)
  with Some show ?thesis
    by (auto simp: withoutSharedStatuses_def Let_def intro: all [symmetric])
qed (simp add: withoutSharedStatuses_def)

lemma stripped_merge:
  "statuses_of (withoutSharedStatuses (mergeSharedStatuses g shared) shared) =
     filter (\<lambda>d. sd_ID d \<notin> set (map sd_ID shared)) (statuses_of g)"
  by (simp add: stripped_statuses merged_statuses)

definition definition_of :: "graph \<Rightarrow> string \<Rightarrow> status_definition option" where
  "definition_of g i = first_match (\<lambda>d. sd_ID d = i) (statuses_of g)"

lemma first_match_absent: "i \<notin> set (map f xs) \<Longrightarrow> first_match (\<lambda>d. f d = i) xs = None"
  by (induction xs) auto

lemma first_match_present: "i \<in> set (map f xs) \<Longrightarrow> \<exists>d. first_match (\<lambda>d. f d = i) xs = Some d"
  by (induction xs) auto

lemma first_match_filtered:
  assumes "i \<notin> A"
  shows "first_match (\<lambda>d. f d = i) (filter (\<lambda>d. f d \<notin> A) xs) = first_match (\<lambda>d. f d = i) xs"
  using assms by (induction xs) auto

lemma merged_definition:
  "definition_of (mergeSharedStatuses g shared) i =
     (case definition_of g i of Some d \<Rightarrow> Some d | None \<Rightarrow> first_match (\<lambda>d. sd_ID d = i) shared)"
proof (cases "i \<in> set (map sd_ID (statuses_of g))")
  case True
  then show ?thesis
    using first_match_present [OF True] by (auto simp: definition_of_def merged_statuses first_match_append)
next
  case False
  then show ?thesis
    unfolding definition_of_def merged_statuses first_match_append first_match_absent [OF False]
      first_match_filtered [OF False] by simp
qed

text \<open>
  Loading a graph gives each status id the project's own definition when it has one and the shared one
  otherwise, and saving it again writes back exactly the project's own definitions as long as none of
  their ids is shared.
\<close>

theorem shared_statuses_overlay:
  "definition_of (mergeSharedStatuses g shared) i =
     (case definition_of g i of Some d \<Rightarrow> Some d | None \<Rightarrow> first_match (\<lambda>d. sd_ID d = i) shared) \<and>
   (statuses_of (withoutSharedStatuses (mergeSharedStatuses g shared) shared) = statuses_of g \<longleftrightarrow>
      set (map sd_ID (statuses_of g)) \<inter> set (map sd_ID shared) = {})"
  unfolding stripped_merge filter_id_conv using merged_definition [of g shared i] by auto

text \<open>
  A local override does not survive a save: when a project defines an id that is also shared, the stripped
  graph no longer has its definition, and the next load shows the shared one in its place.
\<close>

theorem local_override_lost:
  assumes "definition_of g (sd_ID d) = Some d" "first_match (\<lambda>e. sd_ID e = sd_ID d) shared = Some s"
  shows "definition_of (mergeSharedStatuses g shared) (sd_ID d) = Some d \<and>
    definition_of (withoutSharedStatuses (mergeSharedStatuses g shared) shared) (sd_ID d) = None \<and>
    definition_of (mergeSharedStatuses (withoutSharedStatuses (mergeSharedStatuses g shared) shared) shared)
      (sd_ID d) = Some s"
proof -
  have own: "sd_ID d \<in> set (map sd_ID (statuses_of g))" and sh: "sd_ID d \<in> set (map sd_ID shared)"
    using assms [unfolded definition_of_def, THEN first_match_SomeD] by (auto intro: rev_image_eqI)
  have lost: "definition_of (withoutSharedStatuses (mergeSharedStatuses g shared) shared) (sd_ID d) = None"
    using sh unfolding definition_of_def stripped_merge by auto
  show ?thesis using assms lost by (simp add: merged_definition)
qed

theorem local_override_lost_witness:
  "\<exists>d s g. d \<noteq> s \<and> definition_of (mergeSharedStatuses g [s]) (sd_ID d) = Some d \<and>
    definition_of (mergeSharedStatuses (withoutSharedStatuses (mergeSharedStatuses g [s]) [s]) [s]) (sd_ID d) = Some s"
proof -
  let ?d = "\<lparr>sd_ID = ''custom-status-review'', sd_Label = ''Review'', sd_Color = [], sd_Shape = [], sd_Settled = True\<rparr>"
  let ?s = "?d\<lparr>sd_Settled := False\<rparr>"
  let ?g = "small_graph\<lparr>graph_UI := Some (empty_ui\<lparr>ui_CustomStatuses := [?d]\<rparr>)\<rparr>"
  have own: "definition_of ?g (sd_ID ?d) = Some ?d"
    by (simp add: definition_of_def statuses_of_def statusDefinitions_def)
  have "first_match (\<lambda>e. sd_ID e = sd_ID ?d) [?s] = Some ?s" by simp
  from local_override_lost [OF own this] show ?thesis
    by (intro exI [of _ ?d] exI [of _ ?s] exI [of _ ?g]) simp
qed

section \<open>Hoisting only adds\<close>

definition hoist_ok :: "status_definition list \<Rightarrow> status_definition set \<Rightarrow> hoist \<Rightarrow> bool" where
  "hoist_ok shared D h \<longleftrightarrow>
     ho_ids h = (\<lambda>i. i \<in> set (map sd_ID (ho_shared h))) \<and>
     ho_labels h = (\<lambda>l. l \<in> set (map status_label_key (ho_shared h))) \<and>
     length (ho_shared h) \<le> max MaxWorkspaceStatuses (length shared) \<and>
     (\<exists>added. ho_shared h = shared @ added \<and> ho_changed h = (added \<noteq> []) \<and> set added \<subseteq> D \<and>
        distinct (map sd_ID added) \<and> distinct (map status_label_key added) \<and>
        set (map sd_ID added) \<inter> set (map sd_ID shared) = {} \<and>
        set (map status_label_key added) \<inter> set ([] # map status_label_key shared) = {})"

lemma hoist_add:
  assumes "hoist_ok shared D h" "\<not> ho_ids h (sd_ID d)" "\<not> ho_labels h (status_label_key d)" "status_label_key d \<noteq> []"
    "\<not> length (ho_shared h) \<ge> MaxWorkspaceStatuses" "d \<in> D"
  shows "hoist_ok shared D (h\<lparr>ho_shared := ho_shared h @ [d], ho_ids := (ho_ids h)(sd_ID d := True),
                ho_labels := (ho_labels h)(status_label_key d := True), ho_changed := True\<rparr>)"
proof -
  obtain added where a: "ho_shared h = shared @ added" "ho_changed h = (added \<noteq> [])" "set added \<subseteq> D"
        "distinct (map sd_ID added)" "distinct (map status_label_key added)"
        "set (map sd_ID added) \<inter> set (map sd_ID shared) = {}"
        "set (map status_label_key added) \<inter> set ([] # map status_label_key shared) = {}"
    using assms(1) by (auto simp: hoist_ok_def)
  have maps: "ho_ids h = (\<lambda>i. i \<in> set (map sd_ID (shared @ added)))"
    "ho_labels h = (\<lambda>l. l \<in> set (map status_label_key (shared @ added)))"
    using assms(1) a(1) by (simp_all add: hoist_ok_def)
  show ?thesis unfolding hoist_ok_def
  proof (intro conjI exI [of _ "added @ [d]"])
    show "distinct (map sd_ID (added @ [d]))" "distinct (map status_label_key (added @ [d]))"
      "set (map sd_ID (added @ [d])) \<inter> set (map sd_ID shared) = {}"
      "set (map status_label_key (added @ [d])) \<inter> set ([] # map status_label_key shared) = {}"
      using a(4-7) assms(2-4) unfolding maps by auto
  qed (use a assms(5,6) maps in \<open>auto simp: fun_eq_iff\<close>)
qed

lemma hoist_definitions_ok: "hoist_ok shared D h \<Longrightarrow> set ds \<subseteq> D \<Longrightarrow> hoist_ok shared D (hoist_definitions ds h)"
  by (induction ds h rule: hoist_definitions.induct) (auto simp: Let_def intro: hoist_add)

definition project_definitions :: "graph option list \<Rightarrow> status_definition set" where
  "project_definitions graphs = (\<Union>g\<in>{g. Some g \<in> set graphs}. set (statuses_of g))"

lemma hoist_graphs_ok: "hoist_ok shared D h \<Longrightarrow> project_definitions gos \<subseteq> D \<Longrightarrow> hoist_ok shared D (hoist_graphs gos h)"
proof (induction gos h rule: hoist_graphs.induct)
  case (2 go gos h)
  have sub: "project_definitions gos \<subseteq> D" using 2(5) by (auto simp: project_definitions_def)
  show ?case
  proof (cases "go = None \<or> graph_UI (the go) = None")
    case True
    then show ?thesis using 2(1,2) 2(4) sub by (cases go) auto
  next
    case False
    then obtain g ui where g: "go = Some g" "graph_UI g = Some ui" by auto
    have "set (statuses_of g) \<subseteq> D" using 2(5) unfolding g project_definitions_def by auto
    then have "set (ui_CustomStatuses ui) \<subseteq> D" using g by simp
    then show ?thesis using 2(3) [OF g] hoist_definitions_ok [OF 2(4)] sub g by simp
  qed
qed simp

text \<open>A definition that hoisting has dealt with, and need not look at again.\<close>

definition covered :: "hoist \<Rightarrow> status_definition \<Rightarrow> bool" where
  "covered h d \<longleftrightarrow> status_label_key d = [] \<or> ho_ids h (sd_ID d) \<or> ho_labels h (status_label_key d) \<or>
     MaxWorkspaceStatuses \<le> length (ho_shared h)"

lemma covered_stays: "covered h d \<Longrightarrow> covered (hoist_definitions ds h) d"
  by (induction ds h rule: hoist_definitions.induct) (auto simp: Let_def covered_def)

lemma covered_definitions: "d \<in> set ds \<Longrightarrow> covered (hoist_definitions ds h) d"
proof (induction ds h rule: hoist_definitions.induct)
  case (2 e ds h)
  show ?case
  proof (cases "d = e")
    case True
    then show ?thesis
      using covered_stays [of h e ds] covered_stays [of "h\<lparr>ho_shared := ho_shared h @ [e], ho_ids := (ho_ids h)(sd_ID e := True),
                ho_labels := (ho_labels h)(status_label_key e := True), ho_changed := True\<rparr>" e ds]
      by (auto simp: Let_def covered_def)
  next
    case False
    then show ?thesis using 2 by (auto simp: Let_def covered_def)
  qed
qed simp

lemma covered_stays_graphs: "covered h d \<Longrightarrow> covered (hoist_graphs gos h) d"
  by (induction gos h rule: hoist_graphs.induct) (auto split: option.split intro: covered_stays)

lemma covered_graphs: "d \<in> project_definitions gos \<Longrightarrow> covered (hoist_graphs gos h) d"
proof (induction gos h rule: hoist_graphs.induct)
  case (2 go gos h)
  have "d \<in> project_definitions gos \<or> (\<exists>g. go = Some g \<and> d \<in> set (statuses_of g))"
    using 2(4) unfolding project_definitions_def by auto
  then consider "d \<in> project_definitions gos" | g where "go = Some g" "d \<in> set (statuses_of g)" by blast
  then show ?case
  proof cases
    case 1
    then show ?thesis using 2 by (auto split: option.split)
  next
    case (2 g)
    then show ?thesis
      by (cases "graph_UI g") (auto intro: covered_stays_graphs covered_definitions)
  qed
qed (simp add: project_definitions_def)

text \<open>
  Hoisting only adds, and adds all it can: every shared definition keeps its place, the appended ones come
  from the projects with new ids and new non-empty labels, the bound is never exceeded, and below the
  bound every labelled definition of a project is found in the result by its id or by its label.
\<close>

theorem hoist_only_adds:
  "let saved = HoistProjectStatuses shared graphs; r = (case saved of None \<Rightarrow> shared | Some r \<Rightarrow> r) in
     length r \<le> max MaxWorkspaceStatuses (length shared) \<and>
     (\<exists>added. r = shared @ added \<and> (saved = None) = (added = []) \<and> set added \<subseteq> project_definitions graphs \<and>
        distinct (map sd_ID added) \<and> distinct (map status_label_key added) \<and>
        set (map sd_ID added) \<inter> set (map sd_ID shared) = {} \<and>
        set (map status_label_key added) \<inter> set ([] # map status_label_key shared) = {}) \<and>
     {d \<in> project_definitions graphs. status_label_key d \<noteq> [] \<and> sd_ID d \<notin> set (map sd_ID r) \<and>
        status_label_key d \<notin> set (map status_label_key r) \<and> length r < MaxWorkspaceStatuses} = {}"
proof -
  let ?h = "\<lparr>ho_shared = shared, ho_ids = (\<lambda>i. i \<in> set (map sd_ID shared)),
                 ho_labels = (\<lambda>l. l \<in> set (map status_label_key shared)), ho_changed = False\<rparr>"
  let ?e = "hoist_graphs graphs ?h"
  have "hoist_ok shared (project_definitions graphs) ?h" by (simp add: hoist_ok_def)
  then have ok: "hoist_ok shared (project_definitions graphs) ?e" by (rule hoist_graphs_ok) simp
  have r: "(case HoistProjectStatuses shared graphs of None \<Rightarrow> shared | Some r \<Rightarrow> r) = ho_shared ?e"
    "(HoistProjectStatuses shared graphs = None) = (\<not> ho_changed ?e)"
    using ok by (auto simp: HoistProjectStatuses_def hoist_ok_def Let_def)
  have rest: "{d \<in> project_definitions graphs. status_label_key d \<noteq> [] \<and> sd_ID d \<notin> set (map sd_ID (ho_shared ?e)) \<and>
        status_label_key d \<notin> set (map status_label_key (ho_shared ?e)) \<and> length (ho_shared ?e) < MaxWorkspaceStatuses} = {}"
    using covered_graphs [of _ graphs ?h] ok unfolding covered_def hoist_ok_def by fastforce
  show ?thesis unfolding Let_def r using ok rest unfolding hoist_ok_def by blast
qed

end
