(* ===== verification/Claims.thy ===== *)
theory Claims
  imports Permission Validate Store_Journal
begin

text \<open>
  Claims (\<^verbatim>\<open>internal/store/claims.go\<close>) and the status write they share with the rest of the store
  (\<^verbatim>\<open>setStatusLocked\<close> of \<^verbatim>\<open>internal/store/store.go\<close>). Every operation runs under the store's lock, so it is
  one function from store to store. Instants are nanoseconds; the clock readings and the outcomes of
  the file operations of one call are a \<open>call\<close> record. The JSON of \<^verbatim>\<open>claims.json\<close> is not modelled: the
  store holds the decoded file, empty when it is missing or unreadable.
\<close>

section \<open>The sidecar\<close>

record claim =
  cl_NodeID :: string
  cl_Owner :: string
  cl_At :: int
  cl_Expires :: int
  cl_Released :: bool

definition Live :: "claim option \<Rightarrow> int \<Rightarrow> bool" where
  "Live c now = (case c of None \<Rightarrow> False | Some c \<Rightarrow> \<not> cl_Released c \<and> now < cl_Expires c)"

text \<open>
  A nil entry of either map reads like an absent one. \<^verbatim>\<open>cf_Replayed\<close> gives the time of each request that was
  carried out.
\<close>

record claims_file =
  cf_Claims :: "(string, claim) gomap"
  cf_Replayed :: "(string, int) gomap"

definition no_claims :: claims_file where
  "no_claims = \<lparr>cf_Claims = [], cf_Replayed = []\<rparr>"

definition Minute :: int where "Minute = 60 * 10 ^ 9"
definition Hour :: int where "Hour = 60 * Minute"

definition DefaultLease :: int where "DefaultLease = 30 * Minute"
definition MinLease :: int where "MinLease = Minute"
definition MaxLease :: int where "MaxLease = 8 * Hour"
definition claimRetention :: int where "claimRetention = 7 * 24 * Hour"
definition replayRetention :: int where "replayRetention = Hour"
definition maxReplayed :: nat where "maxReplayed = 256"

definition clampLease :: "int \<Rightarrow> int" where
  "clampLease lease =
     (if lease \<le> 0 then DefaultLease
      else if lease < MinLease then MinLease
      else if lease > MaxLease then MaxLease
      else lease)"

text \<open>
  The requests over the bound that are dropped are the oldest; among equal times Go's unstable sort
  leaves the choice open, here the later entry goes first.
\<close>

definition prune_replayed :: "int \<Rightarrow> (string, int) gomap \<Rightarrow> (string, int) gomap" where
  "prune_replayed now m =
     (let kept = filter (\<lambda>(i, t). \<not> now - t > replayRetention) m
      in if length kept > maxReplayed
         then let drops = drop maxReplayed (map fst (sort_key (\<lambda>(i, t). - t) kept))
              in filter (\<lambda>(i, t). i \<notin> set drops) kept
         else kept)"

definition prune :: "int \<Rightarrow> claims_file \<Rightarrow> claims_file" where
  "prune now f =
     \<lparr>cf_Claims = filter (\<lambda>(i, c). \<not> now - cl_Expires c > claimRetention) (cf_Claims f),
      cf_Replayed = prune_replayed now (cf_Replayed f)\<rparr>"

definition alreadyDone :: "claims_file \<Rightarrow> string \<Rightarrow> bool" where
  "alreadyDone f requestID = (if requestID = [] then False else map_of (cf_Replayed f) requestID \<noteq> None)"

definition record_request :: "string \<Rightarrow> int \<Rightarrow> claims_file \<Rightarrow> claims_file" where
  "record_request requestID now f =
     (if requestID = [] then f else f\<lparr>cf_Replayed := gomap_put requestID now (cf_Replayed f)\<rparr>)"

definition claim_at :: "claims_file \<Rightarrow> string \<Rightarrow> claim option" where
  "claim_at f nodeID = map_of (cf_Claims f) nodeID"

definition put_claim :: "string \<Rightarrow> claim \<Rightarrow> claims_file \<Rightarrow> claims_file" where
  "put_claim nodeID c f = f\<lparr>cf_Claims := gomap_put nodeID c (cf_Claims f)\<rparr>"

section \<open>The store\<close>

record 'e store =
  st_graph :: "'e + graph"
  st_disk :: disk
  st_claims :: claims_file

text \<open>The encoders of the store: \<^verbatim>\<open>json.Marshal\<close> of an event and \<^verbatim>\<open>MarshalRunState\<close>.\<close>

record 'e encoders =
  en_event :: "history_event \<Rightarrow> 'e + string"
  en_state :: "run_state \<Rightarrow> string option"

record call =
  ca_now :: int
  ca_time :: gotime
  ca_stamp :: string
  ca_compacted :: nat
  ca_wait :: bool
  ca_written :: nat
  ca_synced :: bool
  ca_state_ok :: bool
  ca_claims_ok :: bool

datatype reason = ConditionFails | GateFails string "string list" | WaitingOn "string list" | StartedOrFinished

datatype 'e store_error =
    GraphUnreadable 'e
  | NoSuchNode string
  | Refused denial
  | StatusUndefined status
  | StateUnreadable "'e load_error"
  | BadTransition status status
  | BadState state_error
  | EncodeFailed 'e
  | AppendFailed
  | SaveFailed
  | NoOwner
  | ErrAlreadyClaimed string int
  | ErrNotOwner string
  | ErrNotClaimable string reason

definition MaxAttachmentBytes :: nat where "MaxAttachmentBytes = 64 * 2 ^ 20"

abbreviation load_state :: "'e codec \<Rightarrow> call \<Rightarrow> disk \<Rightarrow> 'e load_error + run_state" where
  "load_state cd ca d \<equiv> LoadState cd MaxAttachmentBytes (ca_time ca) d"

section \<open>Writing a status\<close>

definition status_defined :: "graph \<Rightarrow> status \<Rightarrow> bool" where
  "status_defined g s =
     (if has_prefix s ''custom-status-''
      then (case graph_UI g of
              None \<Rightarrow> False
            | Some ui \<Rightarrow> first_match (\<lambda>d. sd_ID d = s) (ui_CustomStatuses ui) \<noteq> None)
      else True)"

text \<open>Reading a Go map of statuses: the zero value is the empty text.\<close>

definition status_at :: "(string \<rightharpoonup> status) \<Rightarrow> string \<Rightarrow> status" where
  "status_at m i = (case m i of Some s \<Rightarrow> s | None \<Rightarrow> [])"

text \<open>The run state and the event \<^verbatim>\<open>setStatusLocked\<close> is about to append.\<close>

definition stamped ::
  "graph \<Rightarrow> node \<Rightarrow> status \<Rightarrow> status \<Rightarrow> string \<Rightarrow> run_state \<Rightarrow> run_state \<times> history_event" where
  "stamped g node s from note rs =
     (let fl = (if s = StatusDone
                then ApplyEffects (Some node) (Some (case rs_Flags rs of None \<Rightarrow> Map.empty | Some fl \<Rightarrow> fl))
                else rs_Flags rs);
          rs = rs\<lparr>rs_Flags := fl\<rparr>;
          ev = (last (rs_History rs))\<lparr>he_From := from, he_Note := note,
                 he_Flags := Some (EffectiveFlags g (Some rs)), he_StateFlags := fl\<rparr>
      in (rs\<lparr>rs_History := butlast (rs_History rs) @ [ev]\<rparr>, ev))"

definition write_cache :: "'e encoders \<Rightarrow> call \<Rightarrow> run_state \<Rightarrow> disk \<Rightarrow> disk" where
  "write_cache en ca rs d =
     (case en_state en rs of
        None \<Rightarrow> d
      | Some data \<Rightarrow> if ca_state_ok ca then d\<lparr>dk_state := Bytes data\<rparr> else d)"

definition setStatusLocked ::
  "'e codec \<Rightarrow> 'e encoders \<Rightarrow> call \<Rightarrow> string \<Rightarrow> status \<Rightarrow> string \<Rightarrow> string \<Rightarrow> 'e store \<Rightarrow> 'e store \<times> ('e store_error + run_state)" where
  "setStatusLocked cd en ca nodeID s by note st =
     (case st_graph st of
        Inl err \<Rightarrow> (st, Inl (GraphUnreadable err))
      | Inr g \<Rightarrow>
          (case NodeByID g nodeID of
             None \<Rightarrow> (st, Inl (NoSuchNode nodeID))
           | Some node \<Rightarrow>
               if nt_Completion (TypeOf (Some g) (Some node)) = CompletionNone
               then (st, Inl (Refused (noStatusError nodeID (TypeOf (Some g) (Some node)))))
               else if \<not> status_defined g s then (st, Inl (StatusUndefined s))
               else
                 (case load_state cd ca (st_disk st) of
                    Inl err \<Rightarrow> (st, Inl (StateUnreadable err))
                  | Inr rs \<Rightarrow>
                      let from = status_at (ComputeStatuses g (Some rs)) nodeID
                      in if \<not> CanTransition from s then (st, Inl (BadTransition from s))
                         else
                           (case SetStatus rs nodeID s by (ca_time ca) of
                              Inl err \<Rightarrow> (st, Inl (BadState err))
                            | Inr rs \<Rightarrow>
                                let (rs, ev) = stamped g node s from note rs
                                in (case AppendJournalLine (en_event en) ev of
                                      Inl err \<Rightarrow> (st, Inl (EncodeFailed err))
                                    | Inr line \<Rightarrow>
                                        (case appendJournal cd (ca_stamp ca) (ca_compacted ca) (ca_wait ca) (ca_written ca)
                                                (ca_synced ca) line (st_disk st) of
                                           (d, False) \<Rightarrow> (st\<lparr>st_disk := d\<rparr>, Inl AppendFailed)
                                         | (d, True) \<Rightarrow> (st\<lparr>st_disk := write_cache en ca rs d\<rparr>, Inr rs)))))))"

text \<open>\<^verbatim>\<open>saveClaimsLocked\<close>: atomic, so a failure leaves the file as it was.\<close>

definition saveClaimsLocked :: "call \<Rightarrow> claims_file \<Rightarrow> 'e store \<Rightarrow> 'e store \<times> bool" where
  "saveClaimsLocked ca f st = (if ca_claims_ok ca then (st\<lparr>st_claims := f\<rparr>, True) else (st, False))"

section \<open>Claiming\<close>

text \<open>The result carries the claim record, the run state and the entry of the ready queue.\<close>

type_synonym claim_result = "claim option \<times> run_state \<times> ready_node option"

definition reasonNotClaimable :: "readiness \<Rightarrow> string \<Rightarrow> reason" where
  "reasonNotClaimable r nodeID =
     (case first_match (\<lambda>b. rn_ID b = nodeID) (rd_Blocked r) of
        None \<Rightarrow> StartedOrFinished
      | Some b \<Rightarrow>
          if rn_Reason b = ''requires'' then ConditionFails
          else if rn_Reason b = ''gate_condition'' then GateFails (rn_GateOperator b) (rn_BlockedBy b)
          else WaitingOn (rn_BlockedBy b))"

text \<open>Who may claim: the write access of the node, the role of the actor, the type of the node.\<close>

definition claim_allowed :: "actor \<Rightarrow> graph \<Rightarrow> node \<Rightarrow> denial option" where
  "claim_allowed a g n =
     (case checkNodeWrite a (Some n) of
        Some err \<Rightarrow> Some err
      | None \<Rightarrow>
          (case checkRole a g ''claim'' (Some n) of
             Some err \<Rightarrow> Some err
           | None \<Rightarrow>
               if IsAgent a \<and> nt_AgentMode (TypeOf (Some g) (Some n)) = AgentNone
               then Some (ErrNodeTypeDenied (node_ID n) (nt_ID (TypeOf (Some g) (Some n))) CodeNodeTypeForbidsAgent StatusForbidden)
               else None))"

definition claimable :: "graph \<Rightarrow> run_state \<Rightarrow> claim option \<Rightarrow> string \<Rightarrow> bool" where
  "claimable g rs existing nodeID \<longleftrightarrow>
     first_match (\<lambda>c. rn_ID c = nodeID) (rd_Ready (ComputeReadiness (Some g) (Some rs))) \<noteq> None \<or>
     (case existing of
        None \<Rightarrow> False
      | Some c \<Rightarrow> \<not> cl_Released c \<and> status_at (ComputeStatuses g (Some rs)) nodeID = StatusInProgress)"

text \<open>The same holder asking again.\<close>

definition renew ::
  "call \<Rightarrow> string \<Rightarrow> claim \<Rightarrow> int \<Rightarrow> string \<Rightarrow> run_state \<Rightarrow> claims_file \<Rightarrow> 'e store \<Rightarrow>
     'e store \<times> ('e store_error + claim_result)" where
  "renew ca nodeID c lease requestID rs f st =
     (let c = c\<lparr>cl_Expires := ca_now ca + clampLease lease\<rparr>;
          f = record_request requestID (ca_now ca) (put_claim nodeID c f)
      in (case saveClaimsLocked ca f st of
            (st, False) \<Rightarrow> (st, Inl SaveFailed)
          | (st, True) \<Rightarrow> (st, Inr (Some c, rs, None))))"

text \<open>From the point where the node is free: the status is written, then the record.\<close>

definition take_node ::
  "'e codec \<Rightarrow> 'e encoders \<Rightarrow> call \<Rightarrow> string \<Rightarrow> string \<Rightarrow> int \<Rightarrow> string \<Rightarrow> graph \<Rightarrow> run_state \<Rightarrow> claims_file \<Rightarrow> 'e store \<Rightarrow>
     'e store \<times> ('e store_error + claim_result)" where
  "take_node cd en ca nodeID owner lease requestID g rs f st =
     (let readiness = ComputeReadiness (Some g) (Some rs) in
      if \<not> claimable g rs (claim_at f nodeID) nodeID
      then (st, Inl (ErrNotClaimable nodeID (reasonNotClaimable readiness nodeID)))
      else
        (case setStatusLocked cd en ca nodeID StatusInProgress owner (''claimed by '' @ owner) st of
           (st, Inl err) \<Rightarrow> (st, Inl err)
         | (st, Inr _) \<Rightarrow>
             let claim = \<lparr>cl_NodeID = nodeID, cl_Owner = owner, cl_At = ca_now ca,
                   cl_Expires = ca_now ca + clampLease lease, cl_Released = False\<rparr>;
                 f = record_request requestID (ca_now ca) (put_claim nodeID claim f)
             in (case saveClaimsLocked ca f st of
                   (st, False) \<Rightarrow> (st, Inl SaveFailed)
                 | (st, True) \<Rightarrow>
                     (case load_state cd ca (st_disk st) of
                        Inl err \<Rightarrow> (st, Inl (StateUnreadable err))
                      | Inr rs \<Rightarrow>
                          (st, Inr (Some claim, rs, first_match (\<lambda>c. rn_ID c = nodeID) (rd_Ready readiness)))))))"

definition ClaimNode ::
  "'e codec \<Rightarrow> 'e encoders \<Rightarrow> call \<Rightarrow> actor \<Rightarrow> string \<Rightarrow> string \<Rightarrow> int \<Rightarrow> string \<Rightarrow> 'e store \<Rightarrow>
     'e store \<times> ('e store_error + claim_result)" where
  "ClaimNode cd en ca a nodeID owner lease requestID st =
     (let owner = trim_space owner; now = ca_now ca; f = prune now (st_claims st) in
      if owner = [] then (st, Inl NoOwner)
      else if alreadyDone f requestID then
        (case load_state cd ca (st_disk st) of
           Inl err \<Rightarrow> (st, Inl (StateUnreadable err))
         | Inr rs \<Rightarrow> (st, Inr (claim_at f nodeID, rs, None)))
      else
        (case st_graph st of
           Inl err \<Rightarrow> (st, Inl (GraphUnreadable err))
         | Inr g \<Rightarrow>
             (case NodeByID g nodeID of
                None \<Rightarrow> (st, Inl (NoSuchNode nodeID))
              | Some n \<Rightarrow>
                  (case claim_allowed a g n of
                     Some err \<Rightarrow> (st, Inl (Refused err))
                   | None \<Rightarrow>
                       (case load_state cd ca (st_disk st) of
                          Inl err \<Rightarrow> (st, Inl (StateUnreadable err))
                        | Inr rs \<Rightarrow>
                            if Live (claim_at f nodeID) now then
                              (let c = the (claim_at f nodeID) in
                               if cl_Owner c \<noteq> owner then (st, Inl (ErrAlreadyClaimed (cl_Owner c) (cl_Expires c)))
                               else renew ca nodeID c lease requestID rs f st)
                            else take_node cd en ca nodeID owner lease requestID g rs f st)))))"

section \<open>Giving back and reporting\<close>

definition ReleaseClaim ::
  "'e codec \<Rightarrow> 'e encoders \<Rightarrow> call \<Rightarrow> string \<Rightarrow> string \<Rightarrow> 'e store \<Rightarrow> 'e store \<times> ('e store_error + unit)" where
  "ReleaseClaim cd en ca nodeID owner st =
     (let now = ca_now ca; f = prune now (st_claims st) in
      case claim_at f nodeID of
        None \<Rightarrow> (st, Inl (ErrNotOwner []))
      | Some c \<Rightarrow>
          if \<not> Live (Some c) now then (st, Inl (ErrNotOwner []))
          else if cl_Owner c \<noteq> trim_space owner then (st, Inl (ErrNotOwner (cl_Owner c)))
          else
            let f = put_claim nodeID (c\<lparr>cl_Released := True\<rparr>) f
            in (case setStatusLocked cd en ca nodeID StatusReady owner (''released by '' @ owner) st of
                  (st, Inl err) \<Rightarrow> (st, Inl err)
                | (st, Inr _) \<Rightarrow>
                    (case saveClaimsLocked ca f st of
                       (st, False) \<Rightarrow> (st, Inl SaveFailed)
                     | (st, True) \<Rightarrow> (st, Inr ()))))"

definition ClaimFor :: "int \<Rightarrow> string \<Rightarrow> 'e store \<Rightarrow> claim option" where
  "ClaimFor now nodeID st =
     (let c = claim_at (st_claims st) nodeID in if \<not> Live c now then None else c)"

definition LiveClaims :: "int \<Rightarrow> 'e store \<Rightarrow> claim list" where
  "LiveClaims now st =
     sort_key cl_NodeID (filter (\<lambda>c. Live (Some c) now) (map snd (cf_Claims (st_claims st))))"

text \<open>What the ownership rules make of a status report: the note and the record to go on with.\<close>

definition apply_ownership ::
  "int \<Rightarrow> string \<Rightarrow> string \<Rightarrow> string \<Rightarrow> claim option \<Rightarrow> 'e store_error + (string \<times> claim option)" where
  "apply_ownership now owner author note c =
     (if owner = [] then
        (case c of
           Some cl \<Rightarrow>
             if Live c now \<and> cl_Owner cl \<noteq> author
             then Inr (trim_space (note @ '' (overriding '' @ cl_Owner cl @ '')''), Some (cl\<lparr>cl_Released := True\<rparr>))
             else Inr (note, c)
         | None \<Rightarrow> Inr (note, c))
      else
        (case c of
           None \<Rightarrow> Inl (ErrNotOwner [])
         | Some cl \<Rightarrow>
             if \<not> Live c now then Inl (ErrNotOwner [])
             else if cl_Owner cl \<noteq> owner then Inl (ErrNotOwner (cl_Owner cl))
             else Inr (note, c)))"

definition report_allowed :: "actor \<Rightarrow> graph \<Rightarrow> node option \<Rightarrow> status \<Rightarrow> denial option" where
  "report_allowed a g no s =
     (case checkNodeWrite a no of
        Some err \<Rightarrow> Some err
      | None \<Rightarrow>
          (case checkStatusWrite a g no s of
             Some err \<Rightarrow> Some err
           | None \<Rightarrow>
               (case checkRole a g ''status'' no of
                  Some err \<Rightarrow> Some err
                | None \<Rightarrow> checkStatusGate a g no s)))"

definition put_claim_opt :: "string \<Rightarrow> claim option \<Rightarrow> claims_file \<Rightarrow> claims_file" where
  "put_claim_opt nodeID c f = (case c of None \<Rightarrow> f | Some c \<Rightarrow> put_claim nodeID c f)"

definition ReportStatus ::
  "'e codec \<Rightarrow> 'e encoders \<Rightarrow> call \<Rightarrow> actor \<Rightarrow> string \<Rightarrow> status \<Rightarrow> string \<Rightarrow> string \<Rightarrow> string \<Rightarrow> string \<Rightarrow> 'e store \<Rightarrow>
     'e store \<times> ('e store_error + run_state)" where
  "ReportStatus cd en ca a nodeID s author note owner requestID st =
     (case st_graph st of
        Inl err \<Rightarrow> (st, Inl (GraphUnreadable err))
      | Inr g \<Rightarrow>
          (case report_allowed a g (NodeByID g nodeID) s of
             Some err \<Rightarrow> (st, Inl (Refused err))
           | None \<Rightarrow>
               let now = ca_now ca; f = prune now (st_claims st)
               in if alreadyDone f requestID then
                    (st, case load_state cd ca (st_disk st) of Inl err \<Rightarrow> Inl (StateUnreadable err) | Inr rs \<Rightarrow> Inr rs)
                  else
                    (case apply_ownership now (trim_space owner) author note (claim_at f nodeID) of
                       Inl err \<Rightarrow> (st, Inl err)
                     | Inr (note, c) \<Rightarrow>
                         (case setStatusLocked cd en ca nodeID s author note st of
                            (st, Inl err) \<Rightarrow> (st, Inl err)
                          | (st, Inr rs) \<Rightarrow>
                              let c = (if Settled s (statusDefinitions (Some g))
                                       then map_option (\<lambda>c. c\<lparr>cl_Released := True\<rparr>) c else c);
                                  f = record_request requestID now (put_claim_opt nodeID c f)
                              in (case saveClaimsLocked ca f st of
                                    (st, False) \<Rightarrow> (st, Inl SaveFailed)
                                  | (st, True) \<Rightarrow> (st, Inr rs))))))"

end
