(* ===== verification/Claims_Facts.thy ===== *)
theory Claims_Facts
  imports Claims
begin

text \<open>
  What the claim operations guarantee: a lease excludes every other holder, a retried request changes nothing, work a
  person started by hand is not taken, and a status write survives the reload.
\<close>

section \<open>Stable facts along a sequence of steps\<close>

text \<open>
  A fact that every quiet step keeps holds after any sequence of quiet steps.
\<close>

locale stable =
  fixes step :: "'ev \<Rightarrow> 's \<Rightarrow> 's" and fact :: "'s \<Rightarrow> bool" and quiet :: "'ev \<Rightarrow> bool"
  assumes kept: "fact s \<Longrightarrow> quiet ev \<Longrightarrow> fact (step ev s)"
begin

lemma kept_along: "fact s \<Longrightarrow> list_all quiet evs \<Longrightarrow> fact (fold step evs s)"
  by (induction evs arbitrary: s) (simp_all add: kept)

end

section \<open>The sidecar\<close>

lemma map_of_filter_first:
  "map_of m k = Some v \<Longrightarrow> P (k, v) \<Longrightarrow> map_of (filter P m) k = Some v"
  by (induction m) (auto split: if_splits)

lemma claim_at_put [simp]: "claim_at (put_claim n c f) m = (if m = n then Some c else claim_at f m)"
  by (simp add: claim_at_def put_claim_def map_of_gomap_put)

lemma claim_at_record [simp]: "claim_at (record_request r t f) m = claim_at f m"
  by (simp add: claim_at_def record_request_def)

lemma claim_at_put_opt [simp]:
  "claim_at (put_claim_opt n c f) m = (case c of None \<Rightarrow> claim_at f m | Some c \<Rightarrow> if m = n then Some c else claim_at f m)"
  by (simp add: put_claim_opt_def split: option.split)

lemma put_opt_other: "n \<noteq> m \<Longrightarrow> claim_at (put_claim_opt m c f) n = claim_at f n"
  by (simp split: option.split)

lemma clampLease_bounds: "MinLease \<le> clampLease l" "clampLease l \<le> MaxLease" "0 < clampLease l"
  by (simp_all add: clampLease_def MinLease_def MaxLease_def DefaultLease_def Minute_def Hour_def)

lemma claim_at_prune:
  assumes "claim_at f n = Some c" "now < cl_Expires c"
  shows "claim_at (prune now f) n = Some c"
proof -
  have "map_of (cf_Claims f) n = Some c" using assms(1) by (simp add: claim_at_def)
  then have "map_of (filter (\<lambda>(i, c). \<not> now - cl_Expires c > claimRetention) (cf_Claims f)) n = Some c"
    by (rule map_of_filter_first) (use assms(2) in \<open>simp add: claimRetention_def Hour_def Minute_def\<close>)
  then show ?thesis by (simp add: claim_at_def prune_def)
qed

lemma setStatusLocked_frame [simp]:
  "st_claims (fst (setStatusLocked cd en ca n s by note st)) = st_claims st"
  "st_graph (fst (setStatusLocked cd en ca n s by note st)) = st_graph st"
  unfolding setStatusLocked_def Let_def by (auto split: sum.splits option.splits prod.splits bool.splits)

section \<open>Operations on a store\<close>

datatype op =
    OpClaim actor string string int string
  | OpRelease string string
  | OpReport actor string status string string string string
  | OpStatus string status string string

fun perform :: "'e codec \<Rightarrow> 'e encoders \<Rightarrow> call \<times> op \<Rightarrow> 'e store \<Rightarrow> 'e store" where
  "perform cd en (ca, OpClaim a n owner lease r) st = fst (ClaimNode cd en ca a n owner lease r st)"
| "perform cd en (ca, OpRelease n owner) st = fst (ReleaseClaim cd en ca n owner st)"
| "perform cd en (ca, OpReport a n s by note owner r) st = fst (ReportStatus cd en ca a n s by note owner r st)"
| "perform cd en (ca, OpStatus n s by note) st = fst (setStatusLocked cd en ca n s by note st)"

text \<open>Node \<open>n\<close> is held by \<open>o\<close> at least until \<open>e\<close>.\<close>

definition held :: "string \<Rightarrow> string \<Rightarrow> int \<Rightarrow> 'e store \<Rightarrow> bool" where
  "held n ow e st \<longleftrightarrow>
     (case claim_at (st_claims st) n of
        None \<Rightarrow> False
      | Some c \<Rightarrow> cl_Owner c = ow \<and> \<not> cl_Released c \<and> e \<le> cl_Expires c)"

definition settles :: "'e + graph \<Rightarrow> status \<Rightarrow> bool" where
  "settles gr s = (case gr of Inl _ \<Rightarrow> False | Inr g \<Rightarrow> Settled s (statusDefinitions (Some g)))"

text \<open>
  The operations that may end the hold of \<open>ow\<close> on \<open>n\<close>: its own release, a report by somebody who is not working
  under a claim and is not the owner, a settling report by such a caller or the owner, its own renewal
  with an earlier end. Everything after \<open>e\<close> is too late anyway.
\<close>

fun may_end :: "'e + graph \<Rightarrow> string \<Rightarrow> string \<Rightarrow> int \<Rightarrow> call \<times> op \<Rightarrow> bool" where
  "may_end gr n ow e (ca, OpClaim a m owner lease r) \<longleftrightarrow>
     m = n \<and> trim_space owner = ow \<and> ca_now ca + clampLease lease < e"
| "may_end gr n ow e (ca, OpRelease m owner) \<longleftrightarrow> m = n \<and> trim_space owner = ow"
| "may_end gr n ow e (ca, OpReport a m s by note owner r) \<longleftrightarrow>
     m = n \<and> (trim_space owner = [] \<and> by \<noteq> ow \<or> trim_space owner \<in> {[], ow} \<and> settles gr s)"
| "may_end gr n ow e (ca, OpStatus m s by note) \<longleftrightarrow> False"

definition quiet_op :: "'e + graph \<Rightarrow> string \<Rightarrow> string \<Rightarrow> int \<Rightarrow> call \<times> op \<Rightarrow> bool" where
  "quiet_op gr n ow e ev \<longleftrightarrow> ca_now (fst ev) < e \<and> \<not> may_end gr n ow e ev"

abbreviation new_claim :: "call \<Rightarrow> string \<Rightarrow> string \<Rightarrow> int \<Rightarrow> claim" where
  "new_claim ca m own lease \<equiv> \<lparr>cl_NodeID = m, cl_Owner = own, cl_At = ca_now ca,
     cl_Expires = ca_now ca + clampLease lease, cl_Released = False\<rparr>"

lemma take_node_claims:
  "(st_claims (fst (take_node cd en ca m own lease r g rs f st)) = st_claims st \<or>
      st_claims (fst (take_node cd en ca m own lease r g rs f st)) =
        record_request r (ca_now ca) (put_claim m (new_claim ca m own lease) f)) \<and>
    st_graph (fst (take_node cd en ca m own lease r g rs f st)) = st_graph st"
proof -
  let ?note = "''claimed by '' @ own"
  obtain st1 res where set1: "setStatusLocked cd en ca m StatusInProgress own ?note st = (st1, res)"
    by (cases "setStatusLocked cd en ca m StatusInProgress own ?note st")
  have frame: "st_claims st1 = st_claims st" "st_graph st1 = st_graph st"
    using setStatusLocked_frame [of cd en ca m StatusInProgress own ?note st] unfolding set1 by simp_all
  show ?thesis
    using frame unfolding take_node_def Let_def set1 saveClaimsLocked_def
    by (cases res) (auto split: sum.split)
qed

lemma ClaimNode_cases:
  fixes cd en ca a m owner lease r st
  defines "f \<equiv> prune (ca_now ca) (st_claims st)" and "own \<equiv> trim_space owner"
  obtains (refused) err where "ClaimNode cd en ca a m owner lease r st = (st, Inl err)"
  | (replayed) rs where "ClaimNode cd en ca a m owner lease r st = (st, Inr (claim_at f m, rs, None))" "alreadyDone f r"
  | (renewed) c rs where "claim_at f m = Some c" "Live (Some c) (ca_now ca)" "cl_Owner c = own"
      "ClaimNode cd en ca a m owner lease r st = renew ca m c lease r rs f st" "\<not> alreadyDone f r"
  | (taken) g rs where "\<not> Live (claim_at f m) (ca_now ca)" "st_graph st = Inr g" "load_state cd ca (st_disk st) = Inr rs"
      "ClaimNode cd en ca a m owner lease r st = take_node cd en ca m own lease r g rs f st" "\<not> alreadyDone f r"
proof -
  note unfold_op = ClaimNode_def Let_def f_def [symmetric] own_def [symmetric]
  consider (early) "own = []" | (again) "own \<noteq> []" "alreadyDone f r" | (go) "own \<noteq> []" "\<not> alreadyDone f r" by blast
  then show thesis
  proof cases
    case early
    then show thesis by (intro refused) (simp add: unfold_op)
  next
    case again
    then show thesis
      by (cases "load_state cd ca (st_disk st)") (auto intro: refused replayed simp: unfold_op)
  next
    case go
    show thesis
    proof (cases "st_graph st")
      case (Inl err)
      with go show thesis by (intro refused) (simp add: unfold_op)
    next
      case g: (Inr g)
      show thesis
      proof (cases "NodeByID g m")
        case None
        with go g show thesis by (intro refused) (simp add: unfold_op)
      next
        case n: (Some n)
        show thesis
        proof (cases "claim_allowed a g n")
          case (Some err)
          with go g n show thesis by (intro refused) (simp add: unfold_op)
        next
          case None
          note here = go g n None
          show thesis
          proof (cases "load_state cd ca (st_disk st)")
            case (Inl err)
            with here show thesis by (intro refused) (simp add: unfold_op)
          next
            case rs: (Inr rs)
            show thesis
            proof (cases "Live (claim_at f m) (ca_now ca)")
              case True
              then obtain c where c: "claim_at f m = Some c" by (auto simp: Live_def split: option.splits)
              show thesis
              proof (cases "cl_Owner c = own")
                case same: True
                show thesis
                  by (rule renewed [OF c _ same _ go(2)]) (use True c same here rs in \<open>simp_all add: unfold_op\<close>)
              next
                case False
                with True c here rs show thesis by (intro refused) (simp add: unfold_op)
              qed
            next
              case False
              show thesis by (rule taken [OF False g rs _ go(2)]) (use False here rs in \<open>simp add: unfold_op\<close>)
            qed
          qed
        qed
      qed
    qed
  qed
qed

lemma held_at_prune:
  assumes "held n ow e st" "ca_now ca < e"
  obtains c where "claim_at (prune (ca_now ca) (st_claims st)) n = Some c" "cl_Owner c = ow" "\<not> cl_Released c"
    "e \<le> cl_Expires c" "Live (Some c) (ca_now ca)"
proof -
  obtain c where c: "claim_at (st_claims st) n = Some c" "cl_Owner c = ow" "\<not> cl_Released c" "e \<le> cl_Expires c"
    using assms(1) by (auto simp: held_def split: option.splits)
  have "claim_at (prune (ca_now ca) (st_claims st)) n = Some c" by (rule claim_at_prune [OF c(1)]) (use c(4) assms(2) in simp)
  then show thesis by (rule that) (use c assms(2) in \<open>simp_all add: Live_def\<close>)
qed

lemma claim_keeps_hold:
  assumes held: "held n ow e st" and quiet: "quiet_op gr n ow e (ca, OpClaim a m owner lease r)"
  shows "held n ow e (fst (ClaimNode cd en ca a m owner lease r st))"
proof -
  have now: "ca_now ca < e" using quiet by (simp add: quiet_op_def)
  obtain c where c: "claim_at (prune (ca_now ca) (st_claims st)) n = Some c" "cl_Owner c = ow" "\<not> cl_Released c"
    "e \<le> cl_Expires c" "Live (Some c) (ca_now ca)" using held_at_prune [OF held now] .
  show ?thesis
  proof (cases rule: ClaimNode_cases [where cd = cd and en = en and ca = ca and a = a and m = m and owner = owner and lease = lease and r = r and st = st])
    case (renewed c' rs)
    have "claim_at (st_claims (fst (renew ca m c' lease r rs (prune (ca_now ca) (st_claims st)) st))) n =
        claim_at (st_claims st) n \<or>
      claim_at (st_claims (fst (renew ca m c' lease r rs (prune (ca_now ca) (st_claims st)) st))) n =
        (if n = m then Some (c'\<lparr>cl_Expires := ca_now ca + clampLease lease\<rparr>) else Some c)"
      using c(1) by (simp add: renew_def saveClaimsLocked_def Let_def)
    then show ?thesis using held renewed quiet c by (auto simp: held_def quiet_op_def)
  next
    case (taken g rs)
    then have "m \<noteq> n" using c(1,5) by auto
    moreover have "claim_at (st_claims (fst (take_node cd en ca m (trim_space owner) lease r g rs (prune (ca_now ca) (st_claims st)) st))) n =
        claim_at (st_claims st) n \<or>
      claim_at (st_claims (fst (take_node cd en ca m (trim_space owner) lease r g rs (prune (ca_now ca) (st_claims st)) st))) n =
        (if n = m then Some (new_claim ca m (trim_space owner) lease) else Some c)"
      using take_node_claims [of cd en ca m "trim_space owner" lease r g rs "prune (ca_now ca) (st_claims st)" st] c(1) by auto
    ultimately show ?thesis using held taken c by (auto simp: held_def)
  qed (use held in simp_all)
qed

lemma ReleaseClaim_claims:
  fixes cd en ca m owner st
  defines "f \<equiv> prune (ca_now ca) (st_claims st)" and "st' \<equiv> fst (ReleaseClaim cd en ca m owner st)"
  shows "st_graph st' = st_graph st \<and>
    (st_claims st' = st_claims st \<or>
     (\<exists>c. claim_at f m = Some c \<and> Live (Some c) (ca_now ca) \<and> cl_Owner c = trim_space owner \<and>
        st_claims st' = put_claim m (c\<lparr>cl_Released := True\<rparr>) f))"
proof (cases "claim_at f m")
  case None
  then show ?thesis by (simp add: st'_def ReleaseClaim_def f_def Let_def)
next
  case (Some c)
  let ?note = "''released by '' @ owner"
  obtain st1 res where set1: "setStatusLocked cd en ca m StatusReady owner ?note st = (st1, res)"
    by (cases "setStatusLocked cd en ca m StatusReady owner ?note st")
  have frame: "st_claims st1 = st_claims st" "st_graph st1 = st_graph st"
    using setStatusLocked_frame [of cd en ca m StatusReady owner ?note st] unfolding set1 by simp_all
  show ?thesis
    using Some frame unfolding st'_def ReleaseClaim_def Let_def f_def [symmetric] set1 saveClaimsLocked_def
    by (cases res) auto
qed

lemma release_keeps_hold:
  assumes held: "held n ow e st" and quiet: "quiet_op gr n ow e (ca, OpRelease m owner)"
  shows "held n ow e (fst (ReleaseClaim cd en ca m owner st))"
proof -
  have now: "ca_now ca < e" using quiet by (simp add: quiet_op_def)
  obtain c where c: "claim_at (prune (ca_now ca) (st_claims st)) n = Some c" "cl_Owner c = ow" "\<not> cl_Released c"
    "e \<le> cl_Expires c" "Live (Some c) (ca_now ca)" using held_at_prune [OF held now] .
  show ?thesis
    using ReleaseClaim_claims [of cd en ca m owner st] held quiet c by (auto simp: held_def quiet_op_def)
qed

lemma apply_ownership_cases:
  assumes "apply_ownership now owner author note c = Inr (note', c')"
  shows "c' = c \<and> (owner = [] \<or> (\<exists>cl. c = Some cl \<and> cl_Owner cl = owner)) \<or>
    (\<exists>cl. c = Some cl \<and> owner = [] \<and> cl_Owner cl \<noteq> author \<and> c' = Some (cl\<lparr>cl_Released := True\<rparr>))"
  using assms unfolding apply_ownership_def by (auto split: option.splits if_splits)

lemma ReportStatus_cases:
  fixes cd :: "'e codec" and en ca a m s author msg owner r st
  defines "f \<equiv> prune (ca_now ca) (st_claims st)"
  obtains (refused) err where "ReportStatus cd en ca a m s author msg owner r st = (st, Inl err)"
  | (replayed) res where "ReportStatus cd en ca a m s author msg owner r st = (st, res)" "alreadyDone f r"
  | (written) msg' c g st1 res1 where "st_graph st = Inr g" "\<not> alreadyDone f r"
      "apply_ownership (ca_now ca) (trim_space owner) author msg (claim_at f m) = (Inr (msg', c) :: 'e store_error + _)"
      "setStatusLocked cd en ca m s author msg' st = (st1, res1)"
      "ReportStatus cd en ca a m s author msg owner r st =
        (case res1 of Inl err \<Rightarrow> (st1, Inl err)
         | Inr rs \<Rightarrow>
             (case saveClaimsLocked ca (record_request r (ca_now ca)
                 (put_claim_opt m (if Settled s (statusDefinitions (Some g)) then map_option (\<lambda>c. c\<lparr>cl_Released := True\<rparr>) c else c) f)) st1 of
                (st, False) \<Rightarrow> (st, Inl SaveFailed)
              | (st, True) \<Rightarrow> (st, Inr rs)))"
proof (cases "st_graph st")
  case (Inl err)
  then show thesis by (intro refused) (simp_all add: ReportStatus_def)
next
  case g: (Inr g)
  note unfold_op = ReportStatus_def Let_def f_def [symmetric] g sum.case
  show thesis
  proof (cases "report_allowed a g (NodeByID g m) s")
    case (Some err)
    then show thesis by (intro refused) (simp_all add: unfold_op)
  next
    case None
    show thesis
    proof (cases "alreadyDone f r")
      case True
      with None show thesis
        by (intro replayed) (simp_all add: unfold_op)
    next
      case False
      show thesis
      proof (cases "apply_ownership (ca_now ca) (trim_space owner) author msg (claim_at f m) :: 'e store_error + _")
        case (Inl err)
        with None False show thesis by (intro refused) (simp_all add: unfold_op)
      next
        case (Inr p)
        obtain msg' c where p: "p = (msg', c)" by (cases p)
        obtain st1 res1 where set1: "setStatusLocked cd en ca m s author msg' st = (st1, res1)"
          by (cases "setStatusLocked cd en ca m s author msg' st")
        show thesis
          by (rule written [OF g False _ set1]) (use None False Inr p set1 in \<open>simp_all add: unfold_op\<close>)
      qed
    qed
  qed
qed

lemma report_keeps_hold:
  assumes held: "held n ow e st" and quiet: "quiet_op (st_graph st) n ow e (ca, OpReport a m s author msg owner r)"
  shows "held n ow e (fst (ReportStatus cd en ca a m s author msg owner r st))"
proof -
  let ?f = "prune (ca_now ca) (st_claims st)"
  have now: "ca_now ca < e" using quiet by (simp add: quiet_op_def)
  obtain c where c: "claim_at ?f n = Some c" "cl_Owner c = ow" "\<not> cl_Released c"
    "e \<le> cl_Expires c" "Live (Some c) (ca_now ca)" using held_at_prune [OF held now] .
  show ?thesis
  proof (cases rule: ReportStatus_cases [where cd = cd and en = en and ca = ca and a = a and m = m and s = s and
        author = author and msg = msg and owner = owner and r = r and st = st])
    case (written msg' c' g st1 res1)
    have frame: "st_claims st1 = st_claims st"
      using setStatusLocked_frame [of cd en ca m s author msg' st] unfolding written(4) by simp
    let ?st' = "fst (ReportStatus cd en ca a m s author msg owner r st)"
    let ?c = "if Settled s (statusDefinitions (Some g)) then map_option (\<lambda>c. c\<lparr>cl_Released := True\<rparr>) c' else c'"
    have st': "st_claims ?st' = st_claims st \<or> st_claims ?st' = record_request r (ca_now ca) (put_claim_opt m ?c ?f)"
      unfolding written(5) using frame by (cases res1) (simp_all add: saveClaimsLocked_def)
    show ?thesis
    proof (cases "m = n")
      case False
      then have "claim_at (st_claims ?st') n = claim_at (st_claims st) n \<or> claim_at (st_claims ?st') n = Some c"
        using st' c(1) put_opt_other [of n m ?c ?f] False by (auto simp del: claim_at_put_opt)
      then show ?thesis using held c by (auto simp: held_def)
    next
      case True
      have settles: "settles (st_graph st) s = Settled s (statusDefinitions (Some g))"
        using written(1) by (simp add: settles_def)
      have "c' = Some c \<and> (trim_space owner = [] \<or> ow = trim_space owner)"
        using apply_ownership_cases [OF written(3)] quiet c True by (auto simp: quiet_op_def)
      then have "?c = Some c" using quiet True settles by (auto simp: quiet_op_def)
      then have "claim_at (st_claims ?st') n = claim_at (st_claims st) n \<or> claim_at (st_claims ?st') n = Some c"
        using st' True by auto
      then show ?thesis using held c by (auto simp: held_def)
    qed
  qed (use held in simp_all)
qed

lemma report_graph: "st_graph (fst (ReportStatus cd en ca a m s author msg owner r st)) = st_graph st"
proof (cases rule: ReportStatus_cases [where cd = cd and en = en and ca = ca and a = a and m = m and s = s and
      author = author and msg = msg and owner = owner and r = r and st = st])
  case (written msg' c' g st1 res1)
  have "st_graph st1 = st_graph st"
    using setStatusLocked_frame [of cd en ca m s author msg' st] unfolding written(4) by simp
  then show ?thesis unfolding written(5) by (cases res1) (simp_all add: saveClaimsLocked_def)
qed simp_all

lemma claim_graph: "st_graph (fst (ClaimNode cd en ca a m owner lease r st)) = st_graph st"
proof (cases rule: ClaimNode_cases [where cd = cd and en = en and ca = ca and a = a and m = m and owner = owner and
      lease = lease and r = r and st = st])
  case (renewed c rs)
  then show ?thesis by (simp add: renew_def saveClaimsLocked_def Let_def)
next
  case (taken g rs)
  then show ?thesis using take_node_claims [of cd en ca m "trim_space owner" lease r g rs _ st] by simp
qed simp_all

lemma perform_graph: "st_graph (perform cd en ev st) = st_graph st"
  by (cases "(cd, en, ev, st)" rule: perform.cases)
    (simp_all add: report_graph claim_graph conjunct1 [OF ReleaseClaim_claims])

lemma perform_keeps_hold:
  assumes "held n ow e st" "quiet_op (st_graph st) n ow e ev"
  shows "held n ow e (perform cd en ev st)"
  using assms
  by (cases "(cd, en, ev, st)" rule: perform.cases)
    (simp_all add: report_keeps_hold release_keeps_hold claim_keeps_hold, simp add: held_def)

text \<open>A hold is a stable fact of the store along quiet operations.\<close>

interpretation hold: stable "perform cd en" "\<lambda>st. held n ow e st \<and> st_graph st = gr" "quiet_op gr n ow e"
  by unfold_locales (auto simp: perform_keeps_hold perform_graph)

text \<open>A successful claim that is not the replay of an earlier request holds the node.\<close>

lemma claim_success:
  assumes "ClaimNode cd en ca a n owner lease r st = (st', Inr res)"
    and "\<not> alreadyDone (prune (ca_now ca) (st_claims st)) r"
  shows "held n (trim_space owner) (ca_now ca + clampLease lease) st' \<and> (\<exists>f c. st_claims st' = record_request r (ca_now ca)
    (put_claim n c (prune (ca_now ca) (st_claims st))) \<and> cl_Owner c = trim_space owner)"
proof (cases rule: ClaimNode_cases [where cd = cd and en = en and ca = ca and a = a and m = n and owner = owner and
      lease = lease and r = r and st = st])
  case (renewed c rs)
  then show ?thesis using assms
    by (auto simp: renew_def saveClaimsLocked_def Let_def held_def Live_def split: if_splits)
next
  case (taken g rs)
  let ?own = "trim_space owner" let ?note = "''claimed by '' @ trim_space owner"
  obtain st1 res1 where set1: "setStatusLocked cd en ca n StatusInProgress ?own ?note st = (st1, res1)"
    by (cases "setStatusLocked cd en ca n StatusInProgress ?own ?note st")
  show ?thesis using assms(1) taken(4) unfolding take_node_def Let_def set1 saveClaimsLocked_def
    by (cases res1) (auto simp: held_def split: if_splits sum.splits)
qed (use assms in simp_all)

text \<open>
  C25. A lease excludes every other holder: after a successful claim, and whatever sequence of claims, releases,
  reports and status writes by anybody follows before the lease ends, short of the holder giving the
  node up and of an unclaimed override, the node is still held by the claimant; and a further attempt to
  claim it under another name is refused, or is the replay of an earlier request and names the claimant.
\<close>

theorem claims_exclude:
  assumes first: "ClaimNode cd en ca a n owner lease r st = (st0, Inr res)"
      "\<not> alreadyDone (prune (ca_now ca) (st_claims st)) r"
    and between: "list_all (quiet_op (st_graph st) n (trim_space owner) (ca_now ca + clampLease lease)) evs"
    and other: "ca_now ca2 < ca_now ca + clampLease lease" "trim_space owner2 \<noteq> trim_space owner"
  defines "st1 \<equiv> fold (perform cd en) evs st0"
  shows "held n (trim_space owner) (ca_now ca + clampLease lease) st1 \<and>
    (case snd (ClaimNode cd en ca2 a2 n owner2 lease2 r2 st1) of
       Inl _ \<Rightarrow> True
     | Inr (c, _, _) \<Rightarrow> alreadyDone (prune (ca_now ca2) (st_claims st1)) r2 \<and> map_option cl_Owner c = Some (trim_space owner))"
proof -
  let ?e = "ca_now ca + clampLease lease"
  have "held n (trim_space owner) ?e st0 \<and> st_graph st0 = st_graph st"
    using claim_success [OF first] claim_graph [of cd en ca a n owner lease r st] first(1) by simp
  then have hold: "held n (trim_space owner) ?e st1" unfolding st1_def using hold.kept_along [OF _ between] by blast
  then obtain c where c: "claim_at (prune (ca_now ca2) (st_claims st1)) n = Some c" "cl_Owner c = trim_space owner"
    "Live (Some c) (ca_now ca2)" using held_at_prune [OF hold other(1)] by metis
  show ?thesis
    by (cases rule: ClaimNode_cases [where cd = cd and en = en and ca = ca2 and a = a2 and m = n and owner = owner2 and
        lease = lease2 and r = r2 and st = st1])
      (use hold c other(2) in simp_all)
qed

section \<open>A retried request\<close>

lemma prune_small: "length (prune_replayed t m) \<le> maxReplayed"
proof -
  let ?kept = "filter (\<lambda>(i, u). \<not> t - u > replayRetention) m"
  let ?sorted = "sort_key (\<lambda>(i, u). - u) ?kept"
  let ?drops = "drop maxReplayed (map fst ?sorted)"
  have "length (filter (\<lambda>(i, u). i \<notin> set ?drops) ?kept) = length (filter (\<lambda>(i, u). i \<notin> set ?drops) ?sorted)"
    using mset_sort [of "\<lambda>(i, u). - u" ?kept] by (metis mset_filter size_mset)
  also have "\<dots> \<le> maxReplayed"
  proof -
    have none: "filter (\<lambda>(i, u). i \<notin> set ?drops) (drop maxReplayed ?sorted) = []"
      by (auto simp: filter_empty_conv drop_map intro: rev_image_eqI)
    have "filter (\<lambda>(i, u). i \<notin> set ?drops) ?sorted =
        filter (\<lambda>(i, u). i \<notin> set ?drops) (take maxReplayed ?sorted) @
        filter (\<lambda>(i, u). i \<notin> set ?drops) (drop maxReplayed ?sorted)"
      by (metis append_take_drop_id filter_append)
    then have "length (filter (\<lambda>(i, u). i \<notin> set ?drops) ?sorted) \<le> length (take maxReplayed ?sorted)"
      unfolding none by (metis append_Nil2 length_filter_le)
    then show ?thesis by simp
  qed
  finally show ?thesis by (simp add: prune_replayed_def Let_def)
qed

lemma prune_subset: "set (prune_replayed t m) \<subseteq> set m"
  by (auto simp: prune_replayed_def Let_def)

lemma prune_distinct: "distinct (map fst m) \<Longrightarrow> distinct (map fst (prune_replayed t m))"
  by (simp add: prune_replayed_def Let_def distinct_map_filter)

lemma gomap_put_facts:
  "length (gomap_put k v m) \<le> Suc (length m)"
  "distinct (map fst m) \<Longrightarrow> distinct (map fst (gomap_put k v m))"
  "(k, v) \<in> set (gomap_put k v m)"
  "fst ` set (gomap_put k v m) = insert k (fst ` set m)"
  by (induction k v m rule: gomap_put.induct) auto

lemma gomap_put_others: "distinct (map fst m) \<Longrightarrow> x \<in> set (gomap_put k v m) \<Longrightarrow> x = (k, v) \<or> x \<in> set m \<and> fst x \<noteq> k"
  by (induction k v m rule: gomap_put.induct) (auto split: if_splits simp: image_iff)

text \<open>The newest request survives the next pruning.\<close>

lemma newest_first:
  assumes "distinct (map fst xs)" "sorted (map (\<lambda>(i, v). - v) xs)" "(r, t) \<in> set xs"
    and "\<forall>(i, u)\<in>set xs - {(r, t)}. u < (t::int)" "0 < k"
  shows "r \<notin> set (drop k (map fst xs))"
proof (cases xs)
  case (Cons x ys)
  have "x = (r, t)"
  proof (rule ccontr)
    assume "x \<noteq> (r, t)"
    moreover have "(r, t) \<in> set ys" using \<open>x \<noteq> (r, t)\<close> assms(3) Cons by auto
    moreover have "snd x < t" using \<open>x \<noteq> (r, t)\<close> assms(4) Cons by (cases x) auto
    ultimately have "(r, t) \<in> set ys" "snd x < t" by simp_all
    then show False using assms(2) Cons by (cases x) auto
  qed
  then have "r \<notin> set (map fst ys)" using assms(1) Cons by auto
  moreover have "set (drop k (map fst xs)) \<subseteq> set (map fst ys)"
    using assms(5) Cons set_drop_subset [of "k - 1" "map fst ys"] by (cases k) auto
  ultimately show ?thesis by blast
qed (use assms(3) in simp)

lemma newest_survives:
  assumes m: "distinct (map fst m)" "length m \<le> Suc maxReplayed" "(r, t) \<in> set m"
    and newest: "\<forall>(i, u)\<in>set m - {(r, t)}. u < t" and soon: "u - t \<le> replayRetention"
  shows "map_of (prune_replayed u m) r = Some t"
proof -
  let ?kept = "filter (\<lambda>(i, v). \<not> u - v > replayRetention) m"
  let ?sorted = "sort_key (\<lambda>(i, v). - v) ?kept"
  let ?drops = "drop maxReplayed (map fst ?sorted)"
  have kept: "(r, t) \<in> set ?kept" "distinct (map fst ?kept)" using m soon by (auto simp: distinct_map_filter)
  have distinct: "distinct (map fst ?sorted)"
    using kept(2) by (metis distinct_map distinct_sort set_sort)
  have "r \<notin> set ?drops"
    by (rule newest_first [OF distinct]) (use kept newest in \<open>auto simp: maxReplayed_def\<close>)
  then have "(r, t) \<in> set (prune_replayed u m)" using kept(1) by (simp add: prune_replayed_def Let_def)
  then show ?thesis using prune_distinct [OF m(1)] by simp
qed

lemma recorded_request:
  assumes "cf_Replayed f' = gomap_put r t (prune_replayed t (cf_Replayed f))" "r \<noteq> []"
    and "gomap_ok (cf_Replayed f)" "\<forall>(i, u)\<in>set (cf_Replayed f). u < t" "u - t \<le> replayRetention"
  shows "alreadyDone (prune u f') r"
proof -
  let ?m = "gomap_put r t (prune_replayed t (cf_Replayed f))"
  have d: "distinct (map fst (prune_replayed t (cf_Replayed f)))"
    using assms(3) by (simp add: gomap_ok_def prune_distinct)
  have "map_of (prune_replayed u ?m) r = Some t"
  proof (rule newest_survives)
    show "length ?m \<le> Suc maxReplayed" using gomap_put_facts(1) prune_small by (metis le_trans Suc_le_mono)
    show "\<forall>(i, u)\<in>set ?m - {(r, t)}. u < t"
      using gomap_put_others [OF d] prune_subset assms(4) by fast
  qed (use d gomap_put_facts assms(5) in auto)
  then show ?thesis using assms(1,2) by (simp add: alreadyDone_def prune_def)
qed

lemma record_replayed [simp]:
  "r \<noteq> [] \<Longrightarrow> cf_Replayed (record_request r t f) = gomap_put r t (cf_Replayed f)"
  "cf_Replayed (put_claim n c f) = cf_Replayed f" "cf_Replayed (put_claim_opt n co f) = cf_Replayed f"
  "cf_Replayed (prune t f) = prune_replayed t (cf_Replayed f)"
  by (simp_all add: record_request_def put_claim_def put_claim_opt_def prune_def split: option.split)

lemma report_success:
  assumes "ReportStatus cd en ca a m s author msg owner r st = (st', Inr rs)"
    and "\<not> alreadyDone (prune (ca_now ca) (st_claims st)) r"
  shows "\<exists>c. st_claims st' = record_request r (ca_now ca) (put_claim_opt m c (prune (ca_now ca) (st_claims st)))"
proof (cases rule: ReportStatus_cases [where cd = cd and en = en and ca = ca and a = a and m = m and s = s and
      author = author and msg = msg and owner = owner and r = r and st = st])
  case (written msg' c g st1 res1)
  then show ?thesis using assms(1) by (cases res1) (auto simp: saveClaimsLocked_def split: if_splits)
qed (use assms in simp_all)

fun request_of :: "op \<Rightarrow> string" where
  "request_of (OpClaim a n owner lease r) = r"
| "request_of (OpReport a n s by note owner r) = r"
| "request_of _ = []"

fun succeeds :: "'e codec \<Rightarrow> 'e encoders \<Rightarrow> call \<times> op \<Rightarrow> 'e store \<Rightarrow> bool" where
  "succeeds cd en (ca, OpClaim a n owner lease r) st = (\<not> isl (snd (ClaimNode cd en ca a n owner lease r st)))"
| "succeeds cd en (ca, OpReport a n s by note owner r) st = (\<not> isl (snd (ReportStatus cd en ca a n s by note owner r st)))"
| "succeeds cd en (ca, OpRelease n owner) st = (\<not> isl (snd (ReleaseClaim cd en ca n owner st)))"
| "succeeds cd en (ca, OpStatus n s by note) st = (\<not> isl (snd (setStatusLocked cd en ca n s by note st)))"

lemma request_recorded:
  assumes "succeeds cd en (ca, p) st" "request_of p \<noteq> []" "\<not> alreadyDone (prune (ca_now ca) (st_claims st)) (request_of p)"
  shows "cf_Replayed (st_claims (perform cd en (ca, p) st)) =
    gomap_put (request_of p) (ca_now ca) (prune_replayed (ca_now ca) (cf_Replayed (st_claims st)))"
proof (cases p)
  case (OpClaim a n owner lease r)
  then obtain res where "ClaimNode cd en ca a n owner lease r st = (perform cd en (ca, p) st, Inr res)"
    using assms(1) by (cases "ClaimNode cd en ca a n owner lease r st"; cases "snd (ClaimNode cd en ca a n owner lease r st)") auto
  then show ?thesis using claim_success assms(2,3) OpClaim by fastforce
next
  case (OpReport a n s author msg owner r)
  then obtain res where "ReportStatus cd en ca a n s author msg owner r st = (perform cd en (ca, p) st, Inr res)"
    using assms(1) by (cases "ReportStatus cd en ca a n s author msg owner r st";
      cases "snd (ReportStatus cd en ca a n s author msg owner r st)") auto
  then show ?thesis using report_success assms(2,3) OpReport by fastforce
qed (use assms(2) in simp_all)

lemma replay_unchanged:
  assumes "alreadyDone (prune (ca_now ca) (st_claims st)) (request_of p)"
  shows "perform cd en (ca, p) st = st"
proof (cases p)
  case (OpClaim a n owner lease r)
  then show ?thesis using assms
    by (cases rule: ClaimNode_cases [where cd = cd and en = en and ca = ca and a = a and m = n and owner = owner and
        lease = lease and r = r and st = st]) simp_all
next
  case (OpReport a n s author msg owner r)
  then show ?thesis using assms
    by (cases rule: ReportStatus_cases [where cd = cd and en = en and ca = ca and a = a and m = n and s = s and
        author = author and msg = msg and owner = owner and r = r and st = st]) simp_all
qed (use assms in \<open>simp_all add: alreadyDone_def\<close>)

text \<open>
  C34. A retried request is carried out once: when a claim or a report with a request id has succeeded, sending
  the same id again within the hour, as whatever operation and with whatever arguments, leaves the store
  (journal, state cache and claims) exactly as the first call left it, however full the table of
  remembered requests is.
\<close>

theorem retry_changes_nothing:
  assumes first: "succeeds cd en (ca, p) st" "request_of p \<noteq> []"
      "\<not> alreadyDone (prune (ca_now ca) (st_claims st)) (request_of p)"
    and table: "gomap_ok (cf_Replayed (st_claims st))" "\<forall>(i, t)\<in>set (cf_Replayed (st_claims st)). t < ca_now ca"
    and again: "request_of p2 = request_of p" "ca_now ca2 - ca_now ca \<le> replayRetention"
  shows "perform cd en (ca2, p2) (perform cd en (ca, p) st) = perform cd en (ca, p) st"
  by (rule replay_unchanged)
    (use recorded_request [OF request_recorded [OF first] first(2) table again(2)] again(1) in simp)

section \<open>Work in progress is not taken\<close>

lemma ready_status:
  assumes "c \<in> set (rd_Ready (ComputeReadiness (Some g) rs))"
  shows "statusOf (ComputeStatuses g rs) (rn_ID c) = StatusReady"
  using assms by (auto simp: ComputeReadiness_bins ready_entry_def)

lemma not_claimable:
  assumes "statusOf (ComputeStatuses g (Some rs)) n \<noteq> StatusReady" "case co of None \<Rightarrow> True | Some c \<Rightarrow> cl_Released c"
  shows "\<not> claimable g rs co n"
proof -
  have "first_match (\<lambda>c. rn_ID c = n) (rd_Ready (ComputeReadiness (Some g) (Some rs))) = None"
    using ready_status [of _ g "Some rs"] assms(1) by auto
  then show ?thesis using assms(2) by (simp add: claimable_def split: option.splits)
qed

text \<open>
  Nobody's work is taken: a node that is not ready and has no standing claim record, such as one a person
  started by hand, finished or gave up, or whose holder gave it back, is refused to every claimant and
  the attempt changes nothing.
\<close>

theorem started_work_not_claimed:
  assumes "st_graph st = Inr g" "load_state cd ca (st_disk st) = Inr rs"
    and "statusOf (ComputeStatuses g (Some rs)) n \<noteq> StatusReady"
    and "case claim_at (prune (ca_now ca) (st_claims st)) n of None \<Rightarrow> True | Some c \<Rightarrow> cl_Released c"
    and "\<not> alreadyDone (prune (ca_now ca) (st_claims st)) r"
  shows "\<exists>err. ClaimNode cd en ca a n owner lease r st = (st, Inl err)"
proof (cases rule: ClaimNode_cases [where cd = cd and en = en and ca = ca and a = a and m = n and owner = owner and
      lease = lease and r = r and st = st])
  case (renewed c rs)
  then show ?thesis using assms(4) by (simp add: Live_def)
next
  case (taken g' rs')
  then show ?thesis using not_claimable [OF assms(3,4)] assms(1,2) by (simp add: take_node_def)
qed (use assms in simp_all)

end
