(* ===== verification/Status_Writes.thy ===== *)
theory Status_Writes
  imports Claims_Facts
begin

text \<open>
  What a status write leaves on disk: the next load of the run state shows it. Two consequences the operations do not
  guard against are stated as well: a release resets a node that was finished in the meantime, and the
  first write into a project that has a state cache but no journal loses the cached statuses.
\<close>

section \<open>The event\<close>

text \<open>What the JSON of an event gives back, and that it is one non-blank line.\<close>

definition ev_codec_ok :: "'e codec \<Rightarrow> 'e encoders \<Rightarrow> bool" where
  "ev_codec_ok cd en \<longleftrightarrow>
     (\<forall>ev b. en_event en ev = Inr b \<longrightarrow>
        cd_event cd b = Inr (ev\<lparr>he_Flags := omit_empty (he_Flags ev)\<rparr>) \<and> CHR 0x0A \<notin> set b \<and> trim_space b \<noteq> [])"

lemma SetStatus_success:
  assumes "SetStatus rs n s by now = Inr rs1"
  obtains m i prev where "rs_Nodes rs = Some m" "i \<noteq> []" "ValidStatus s"
    "rs1 = rs\<lparr>rs_Nodes := Some (m(n \<mapsto> \<lparr>ns_Status = s, ns_At = format_rfc3339_utc now, ns_By = by\<rparr>)),
       rs_History := rs_History rs @ [status_event i (format_rfc3339_utc now) n prev s by]\<rparr>"
  using assms unfolding SetStatus_def Let_def by (auto split: if_splits option.splits)

lemma write_success:
  assumes "setStatusLocked cd en ca n s by msg st = (st', Inr rs')"
  obtains g node rs rs1 prev ev b d where "st_graph st = Inr g" "NodeByID g n = Some node"
    "load_state cd ca (st_disk st) = Inr rs" "SetStatus rs n s by (ca_time ca) = Inr rs1"
    "stamped g node s prev msg rs1 = (rs', ev)" "en_event en ev = Inr b"
    "appendJournal cd (ca_stamp ca) (ca_compacted ca) (ca_wait ca) (ca_written ca) (ca_synced ca) (b @ [CHR 0x0A]) (st_disk st) = (d, True)"
    "st_disk st' = write_cache en ca rs' d"
  using assms unfolding setStatusLocked_def Let_def AppendJournalLine_def
  by (auto split: sum.splits option.splits prod.splits bool.splits if_splits)

lemma stamped_event:
  assumes "SetStatus rs n s by now = Inr rs1" "stamped g node s prev msg rs1 = (rs', ev)"
  shows "he_To ev = s \<and> he_Node ev = n \<and> he_ID ev \<noteq> [] \<and> he_Event ev = ''status'' \<and>
      he_T ev = format_rfc3339_utc now \<and> he_By ev = by \<and> ValidStatus s \<and> rs_Nodes rs' = rs_Nodes rs1 \<and>
      he_StateFlags ev = rs_Flags rs' \<and>
      (\<exists>m. rs_Nodes rs = Some m \<and> rs_Nodes rs1 = Some (m(n \<mapsto> \<lparr>ns_Status = s, ns_At = format_rfc3339_utc now, ns_By = by\<rparr>)))"
  using assms(2) by (rule_tac SetStatus_success [OF assms(1)]) (auto simp: stamped_def Let_def status_event_def)

lemma replay_status_nodes:
  assumes "he_To ev = s" "he_Node ev = n" "he_ID ev \<noteq> []" "he_Event ev = ''status''" "n \<noteq> []" "ValidStatus s"
    "rs_Nodes (jr_rs r) = Some m"
  shows "rs_Nodes (jr_rs (replay_event (ev\<lparr>he_Flags := x\<rparr>) r)) =
    Some (m(n \<mapsto> \<lparr>ns_Status = s, ns_At = he_T ev, ns_By = he_By ev\<rparr>))"
  using assms by (simp add: replay_event_def replay_status_steps with_start_def with_flags_def split: option.split)

section \<open>Loading after the write\<close>

lemma replay_same_files:
  assumes "dk_journal e = dk_journal d" "dk_rotated e = dk_rotated d" "dk_checkpoint e = dk_checkpoint d"
  shows "replayJournal cd e = replayJournal cd d"
  unfolding replayJournal_def readCheckpoint_def assms ..

lemma loaded_cache: "loaded cd (write_cache en ca rs d) = loaded cd d"
proof -
  have "replayJournal cd (write_cache en ca rs d) = replayJournal cd d"
    by (rule replay_same_files) (simp_all add: write_cache_def split: option.split)
  then show ?thesis by (simp add: loaded_def)
qed

lemma loaded_nodes:
  assumes "loaded cd d = Inr (Some r)"
  shows "\<exists>r'. load_state cd ca d = Inr r' \<and> rs_Nodes r' = rs_Nodes r"
proof -
  obtain rs j where "replayJournal cd d = Inr (Some rs, j)" "r = json_state rs"
    using assms by (auto simp: loaded_def map_sum_def split: sum.splits)
  then show ?thesis
    by (auto simp: LoadState_def Let_def split: read_result.splits sum.splits)
qed

text \<open>The file conditions of one append: readable journal at a line boundary, no digest collision.\<close>

definition append_ready :: "'e codec \<Rightarrow> string \<Rightarrow> disk \<Rightarrow> run_state option \<Rightarrow> bool" where
  "append_ready cd now d ro \<longleftrightarrow>
     (\<exists>jo. replayJournal cd d = Inr (ro, jo) \<and> (journal_bytes jo = [] \<or> has_suffix (journal_bytes jo) [CHR 0x0A]) \<and>
        (\<forall>cp b. readCheckpoint cd d = Some cp \<longrightarrow> covers cd cp (journal_bytes jo @ b) = covers cd cp (journal_bytes jo))) \<and>
     (\<forall>bytes. snapshot cd now d = Some bytes \<longrightarrow> length bytes \<le> maxCheckpointBytes)"

lemma write_then_load:
  assumes codec: "cp_codec_ok cd" "ev_codec_ok cd en" and disk: "append_ready cd (ca_stamp ca) (st_disk st) ro"
    and n: "n \<noteq> []" and wr: "setStatusLocked cd en ca n s by msg st = (st', Inr rs')"
  shows "\<exists>r. load_state cd ca2 (st_disk st') = Inr r \<and>
    rs_Nodes r = Some ((the (rs_Nodes (base_state ro)))
      (n \<mapsto> \<lparr>ns_Status = s, ns_At = format_rfc3339_utc (ca_time ca), ns_By = by\<rparr>))"
proof -
  obtain g node rs rs1 prev ev b d where w: "SetStatus rs n s by (ca_time ca) = Inr rs1"
    "stamped g node s prev msg rs1 = (rs', ev)" "en_event en ev = Inr b"
    "appendJournal cd (ca_stamp ca) (ca_compacted ca) (ca_wait ca) (ca_written ca) (ca_synced ca) (b @ [CHR 0x0A]) (st_disk st) = (d, True)"
    "st_disk st' = write_cache en ca rs' d" using write_success [OF wr] .
  let ?ev = "ev\<lparr>he_Flags := omit_empty (he_Flags ev)\<rparr>"
  have line: "cd_event cd b = Inr ?ev" "CHR 0x0A \<notin> set b" "trim_space b \<noteq> []"
    using codec(2) w(3) by (auto simp: ev_codec_ok_def)
  obtain jo where j: "replayJournal cd (st_disk st) = Inr (ro, jo)"
      "journal_bytes jo = [] \<or> has_suffix (journal_bytes jo) [CHR 0x0A]"
      "\<forall>cp. readCheckpoint cd (st_disk st) = Some cp \<longrightarrow>
        covers cd cp (journal_bytes jo @ b @ [CHR 0x0A]) = covers cd cp (journal_bytes jo)"
    and snap: "\<forall>bytes. snapshot cd (ca_stamp ca) (st_disk st) = Some bytes \<longrightarrow> length bytes \<le> maxCheckpointBytes"
    using disk by (auto simp: append_ready_def)
  have load: "loaded cd (st_disk st') = Inr (Some (json_state (jr_rs (replay_event ?ev (newJournalReplay ro)))))"
    using append_one_event [OF codec(1) snap line j w(4)] by (simp add: w(5) loaded_cache)
  obtain m where m: "rs_Nodes (base_state ro) = Some m" using base_state_nodes by blast
  have "rs_Nodes (jr_rs (replay_event ?ev (newJournalReplay ro))) =
      Some (m(n \<mapsto> \<lparr>ns_Status = s, ns_At = he_T ev, ns_By = he_By ev\<rparr>))"
    by (rule replay_status_nodes) (use stamped_event [OF w(1,2)] n m in \<open>simp_all add: newJournalReplay_eq\<close>)
  then show ?thesis using loaded_nodes [OF load, of ca2] stamped_event [OF w(1,2)] m by simp
qed

section \<open>A sample store\<close>

text \<open>
  A codec for one event \<open>x\<close> beside the sample journal's, and a store whose single node was marked done by its journal.
\<close>

definition one_codec :: "history_event \<Rightarrow> unit codec" where
  "one_codec x = sample_codec\<lparr>
     cd_event := (\<lambda>l. if l = ''y'' then Inr (x\<lparr>he_Flags := omit_empty (he_Flags x)\<rparr>) else cd_event sample_codec l),
     cd_state := (\<lambda>_. Inr (zero_run_state\<lparr>rs_Nodes := Some [''k'' \<mapsto> state_of sample_event]\<rparr>))\<rparr>"

definition one_encoders :: "history_event \<Rightarrow> unit encoders" where
  "one_encoders x = \<lparr>en_event = (\<lambda>ev. if ev = x then Inr ''y'' else Inl ()), en_state = (\<lambda>_. None)\<rparr>"

definition n1_node :: node where "n1_node = plain_node ''n1'' [] []"

definition n1_graph :: graph where
  "n1_graph = empty_graph\<lparr>graph_Version := 1, graph_Nodes := [Some n1_node]\<rparr>"

definition sample_call :: call where
  "sample_call = \<lparr>ca_now = 10, ca_time = \<lparr>unix_sec = 5, unix_nsec = 0\<rparr>, ca_stamp = ''now'', ca_compacted = 0,
     ca_wait = True, ca_written = 2, ca_synced = True, ca_state_ok = True, ca_claims_ok = True\<rparr>"

definition n1_store :: "disk \<Rightarrow> unit store" where
  "n1_store d = \<lparr>st_graph = Inr n1_graph, st_disk = d, st_claims = \<lparr>cf_Claims = [(''n1'',
     \<lparr>cl_NodeID = ''n1'', cl_Owner = ''me'', cl_At = 0, cl_Expires = 100, cl_Released = False\<rparr>)], cf_Replayed = []\<rparr>\<rparr>"

text \<open>The event a status write of the sample appends, given the loaded run state.\<close>

definition n1_event :: "run_state \<Rightarrow> status \<Rightarrow> string \<Rightarrow> string \<Rightarrow> history_event" where
  "n1_event rs s author msg =
     snd (stamped n1_graph n1_node s (status_at (ComputeStatuses n1_graph (Some rs)) ''n1'') msg
       (case SetStatus rs ''n1'' s author (ca_time sample_call) of Inr rs1 \<Rightarrow> rs1 | Inl _ \<Rightarrow> rs))"

lemma one_codec_ok: "cp_codec_ok (one_codec x)" "ev_codec_ok (one_codec x) (one_encoders x)"
proof -
  show "cp_codec_ok (one_codec x)" using sample_codec_ok by (simp add: cp_codec_ok_def one_codec_def)
  have "trim_space ''y'' = ''y''" by code_simp
  then show "ev_codec_ok (one_codec x) (one_encoders x)" by (simp add: ev_codec_ok_def one_codec_def one_encoders_def)
qed

lemma one_snapshot: "snapshot (one_codec x) now d = Some bytes \<Longrightarrow> length bytes \<le> maxCheckpointBytes"
  by (auto simp: snapshot_def one_codec_def sample_codec_def maxCheckpointBytes_def split: sum.splits option.splits if_splits)

lemma one_ready:
  "append_ready (one_codec x) now sample_disk (Some sample_state)"
  "append_ready (one_codec x) now \<lparr>dk_journal = NoFile, dk_rotated = NoFile, dk_checkpoint = NoFile, dk_state = f\<rparr> None"
proof -
  have events: "cd_event (one_codec x) ''x'' = Inr sample_event" by (simp add: one_codec_def sample_codec_def)
  have "journal_events (cd_event (one_codec x)) (''x'' @ [CHR 0x0A]) = ([sample_event], None)"
    by (rule one_line_events) (simp_all add: events sample_line)
  then have res: "resume (one_codec x) None (''x'' @ [CHR 0x0A]) = Inr sample_state"
    by (simp add: resume_events sample_state_def)
  have files: "readCheckpoint (one_codec x) sample_disk = None" "rotated_base (one_codec x) sample_disk = Inr None"
      "read_limit maxJournalBytes (dk_journal sample_disk) = Data (''x'' @ [CHR 0x0A])"
    by (simp_all add: readCheckpoint_def rotated_base_def sample_disk_def read_limit_def maxJournalBytes_def)
  have "replayJournal (one_codec x) sample_disk = Inr (Some sample_state, Some (''x'' @ [CHR 0x0A]))"
    using replay_by_rotated [OF files(1,3,2)] res by simp
  then show "append_ready (one_codec x) now sample_disk (Some sample_state)"
    using files(1) one_snapshot [of x now sample_disk] by (auto simp: append_ready_def journal_bytes_def has_suffix_snoc)
  let ?d = "\<lparr>dk_journal = NoFile, dk_rotated = NoFile, dk_checkpoint = NoFile, dk_state = f\<rparr>"
  have "replayJournal (one_codec x) ?d = Inr (None, None)"
    by (simp add: replayJournal_def readCheckpoint_def read_limit_def)
  then show "append_ready (one_codec x) now ?d None"
    using one_snapshot [of x now ?d] by (auto simp: append_ready_def journal_bytes_def readCheckpoint_def read_limit_def)
qed

lemma n1_writes:
  assumes "load_state (one_codec x) sample_call d = Inr rs" "rs_Nodes rs = Some m" "x = n1_event rs s author msg"
    and "st_graph st = Inr n1_graph" "st_disk st = d"
    and "s = StatusReady \<or> s = StatusDone \<or> s = StatusInProgress" "dk_journal d \<noteq> BadFile" "file_size (dk_journal d) < 100"
  shows "\<exists>st' rs'. setStatusLocked (one_codec x) (one_encoders x) sample_call ''n1'' s author msg st = (st', Inr rs')"
proof -
  have g: "NodeByID n1_graph ''n1'' = Some n1_node" "nt_Completion (TypeOf (Some n1_graph) (Some n1_node)) \<noteq> CompletionNone"
    by code_simp+
  have s: "ValidStatus s" "status_defined n1_graph s"
    using assms(6) by (elim disjE; simp; code_simp)+
  have "\<exists>d'. appendJournal (one_codec x) ''now'' 0 True 2 True (''y'' @ [CHR 0x0A]) d = (d', True)"
    using assms(7,8)
    by (simp add: appendJournal_def maybeCompactLocked_def Let_def maxJournalLineBytes_def maxJournalBytes_def)
  moreover obtain rs1 where rs1: "SetStatus rs ''n1'' s author (ca_time sample_call) = Inr rs1"
    using assms(2) s(1) by (auto simp: SetStatus_def CanTransition_def Let_def)
  moreover have "x = snd (stamped n1_graph n1_node s (status_at (ComputeStatuses n1_graph (Some rs)) ''n1'') msg rs1)"
    using assms(3) by (simp add: n1_event_def rs1)
  ultimately show ?thesis
    using assms(1,4,5) g s unfolding setStatusLocked_def
    by (auto simp: CanTransition_def Let_def AppendJournalLine_def one_encoders_def sample_call_def split: prod.split)
qed

lemma sample_loads: "load_state (one_codec x) ca sample_disk = Inr sample_state"
proof -
  obtain jo where "replayJournal (one_codec x) sample_disk = Inr (Some sample_state, jo)"
    using one_ready(1) [of x "[]"] unfolding append_ready_def by blast
  then show ?thesis by (simp add: LoadState_def sample_disk_def read_limit_def)
qed

lemma sample_nodes: "rs_Nodes sample_state = Some [''n1'' \<mapsto> state_of sample_event]"
  by (simp add: sample_state_def sample_event_def status_event_def replay_event_def replay_status_steps with_start_def
      with_flags_def newJournalReplay_eq base_state_def normal_nodes_def zero_run_state_def state_of_def ValidStatus_def)

section \<open>Durability\<close>



section \<open>Releasing\<close>

text \<open>
  Giving a node back resets it whatever became of it: a holder whose node was marked done meanwhile, as the
  staged pipeline does with a plain status write, releases it, and the next load shows the finished node
  as ready again.
\<close>

theorem release_resets_done_node:
  assumes codec: "cp_codec_ok cd" "ev_codec_ok cd en" and disk: "append_ready cd (ca_stamp ca) (st_disk st) (Some rs)"
    and n: "n \<noteq> []" "node_state_of rs n = Some \<lparr>ns_Status = StatusDone, ns_At = t, ns_By = b\<rparr>"
    and release: "ReleaseClaim cd en ca n owner st = (st', Inr ())"
  shows "\<exists>r ns. load_state cd ca2 (st_disk st') = Inr r \<and> node_state_of r n = Some ns \<and> ns_Status ns = StatusReady"
proof -
  let ?msg = "''released by '' @ owner"
  obtain c where c: "claim_at (prune (ca_now ca) (st_claims st)) n = Some c"
    using release by (cases "claim_at (prune (ca_now ca) (st_claims st)) n") (simp_all add: ReleaseClaim_def Let_def)
  obtain st1 res where set1: "setStatusLocked cd en ca n StatusReady owner ?msg st = (st1, res)"
    by (cases "setStatusLocked cd en ca n StatusReady owner ?msg st")
  obtain rs1 where "res = Inr rs1" "st_disk st' = st_disk st1"
    using release c unfolding ReleaseClaim_def Let_def c option.case set1 saveClaimsLocked_def
    by (cases res) (auto split: if_splits)
  then show ?thesis
    using write_then_load [OF codec disk n(1), of StatusReady owner ?msg st1 rs1 ca2] set1
    by (auto simp: node_state_of_def)
qed

theorem release_resets_done_node_witness:
  "\<exists>x st' r ns. node_state_of sample_state ''n1'' = Some (state_of sample_event) \<and> ns_Status (state_of sample_event) = StatusDone \<and>
     ReleaseClaim (one_codec x) (one_encoders x) sample_call ''n1'' ''me'' (n1_store sample_disk) = (st', Inr ()) \<and>
     load_state (one_codec x) sample_call (st_disk st') = Inr r \<and> node_state_of r ''n1'' = Some ns \<and> ns_Status ns = StatusReady"
proof -
  let ?x = "n1_event sample_state StatusReady ''me'' (''released by '' @ ''me'')"
  have "\<exists>st1 rs1. setStatusLocked (one_codec ?x) (one_encoders ?x) sample_call ''n1'' StatusReady ''me''
      (''released by '' @ ''me'') (n1_store sample_disk) = (st1, Inr rs1)"
    by (rule n1_writes [OF sample_loads sample_nodes refl]) (simp_all add: n1_store_def sample_disk_def file_size_def)
  then obtain st1 rs1 where w: "setStatusLocked (one_codec ?x) (one_encoders ?x) sample_call ''n1'' StatusReady ''me''
      (''released by '' @ ''me'') (n1_store sample_disk) = (st1, Inr rs1)" by blast
  have me: "trim_space ''me'' = ''me''" by code_simp
  have "\<exists>st'. ReleaseClaim (one_codec ?x) (one_encoders ?x) sample_call ''n1'' ''me'' (n1_store sample_disk) = (st', Inr ())"
    unfolding ReleaseClaim_def Let_def w saveClaimsLocked_def
    by (simp add: n1_store_def claim_at_def prune_def sample_call_def claimRetention_def Hour_def Minute_def Live_def me)
  then obtain st' where r: "ReleaseClaim (one_codec ?x) (one_encoders ?x) sample_call ''n1'' ''me'' (n1_store sample_disk) = (st', Inr ())"
    by blast
  have ready: "append_ready (one_codec ?x) (ca_stamp sample_call) (st_disk (n1_store sample_disk)) (Some sample_state)"
    using one_ready(1) by (simp add: n1_store_def)
  have "state_of sample_event = \<lparr>ns_Status = StatusDone, ns_At = ''t'', ns_By = ''me''\<rparr>"
    by (simp add: state_of_def sample_event_def status_event_def)
  then have st: "node_state_of sample_state ''n1'' = Some \<lparr>ns_Status = StatusDone, ns_At = ''t'', ns_By = ''me''\<rparr>"
    by (simp add: node_state_of_def sample_nodes)
  from release_resets_done_node [OF one_codec_ok ready _ st r, of sample_call] r st
  show ?thesis by (auto simp: state_of_def sample_event_def status_event_def)
qed

section \<open>A state cache without a journal\<close>

text \<open>
  In a project with a state cache and no journal the cache is the run state, but the first status write
  loses it: the event starts a journal, the next load replays only that, and every other node's status
  is gone.
\<close>

theorem cached_state_forgotten:
  assumes codec: "cp_codec_ok cd" "ev_codec_ok cd en" and disk: "append_ready cd (ca_stamp ca) (st_disk st) None"
    and cache: "dk_state (st_disk st) = Bytes data" "length data \<le> MaxAttachmentBytes" "cd_state cd data = Inr cached"
      "rs_Nodes cached = Some m" "m k = Some ns"
    and n: "n \<noteq> []" "k \<noteq> n"
    and wr: "setStatusLocked cd en ca n s by msg st = (st', Inr rs')"
  shows "(\<exists>r. load_state cd ca (st_disk st) = Inr r \<and> node_state_of r k = Some ns) \<and>
    (\<exists>r. load_state cd ca2 (st_disk st') = Inr r \<and> node_state_of r k = None)"
proof
  obtain jo where "replayJournal cd (st_disk st) = Inr (None, jo)" using disk by (auto simp: append_ready_def)
  then show "\<exists>r. load_state cd ca (st_disk st) = Inr r \<and> node_state_of r k = Some ns"
    using cache by (simp add: LoadState_def read_limit_def ParseRunState_def node_state_of_def)
  show "\<exists>r. load_state cd ca2 (st_disk st') = Inr r \<and> node_state_of r k = None"
    using write_then_load [OF codec disk n(1) wr, of ca2] n(2)
    by (auto simp: node_state_of_def base_state_def normal_nodes_def zero_run_state_def)
qed

theorem cached_state_forgotten_witness:
  "\<exists>x st' r r'. let d = \<lparr>dk_journal = NoFile, dk_rotated = NoFile, dk_checkpoint = NoFile, dk_state = Bytes ''cache''\<rparr> in
     fst (setStatusLocked (one_codec x) (one_encoders x) sample_call ''n1'' StatusDone ''me'' [] (n1_store d)) = st' \<and>
     load_state (one_codec x) sample_call d = Inr r \<and> node_state_of r ''k'' \<noteq> None \<and>
     load_state (one_codec x) sample_call (st_disk st') = Inr r' \<and> node_state_of r' ''k'' = None"
proof -
  let ?d = "\<lparr>dk_journal = NoFile, dk_rotated = NoFile, dk_checkpoint = NoFile, dk_state = Bytes ''cache''\<rparr>"
  let ?c = "zero_run_state\<lparr>rs_Nodes := Some [''k'' \<mapsto> state_of sample_event]\<rparr>"
  let ?x = "n1_event ?c StatusDone ''me'' []"
  have nodes: "rs_Nodes ?c = Some [''k'' \<mapsto> state_of sample_event]" by simp
  have load: "load_state (one_codec x) sample_call ?d = Inr ?c" for x
    by (simp add: LoadState_def replayJournal_def readCheckpoint_def read_limit_def MaxAttachmentBytes_def ParseRunState_def
        one_codec_def)
  have "\<exists>st' rs'. setStatusLocked (one_codec ?x) (one_encoders ?x) sample_call ''n1'' StatusDone ''me'' [] (n1_store ?d) = (st', Inr rs')"
    by (rule n1_writes [OF load [of ?x] nodes refl]) (simp_all add: n1_store_def file_size_def)
  then obtain st' rs' where w: "setStatusLocked (one_codec ?x) (one_encoders ?x) sample_call ''n1'' StatusDone ''me'' [] (n1_store ?d) = (st', Inr rs')" by blast
  have ready: "append_ready (one_codec ?x) (ca_stamp sample_call) (st_disk (n1_store ?d)) None"
    using one_ready(2) by (simp add: n1_store_def)
  have "(\<exists>r. load_state (one_codec ?x) sample_call (st_disk (n1_store ?d)) = Inr r \<and> node_state_of r ''k'' = Some (state_of sample_event)) \<and>
      (\<exists>r. load_state (one_codec ?x) sample_call (st_disk st') = Inr r \<and> node_state_of r ''k'' = None)"
    by (rule cached_state_forgotten [OF one_codec_ok ready _ _ _ nodes _ _ _ w, where data = "''cache''"])
      (simp_all add: n1_store_def MaxAttachmentBytes_def one_codec_def)
  then obtain r r' where "load_state (one_codec ?x) sample_call (st_disk (n1_store ?d)) = Inr r"
      "node_state_of r ''k'' = Some (state_of sample_event)"
      "load_state (one_codec ?x) sample_call (st_disk st') = Inr r'" "node_state_of r' ''k'' = None" by blast
  then show ?thesis unfolding Let_def
    by (intro exI [of _ ?x] exI [of _ st'] exI [of _ r] exI [of _ r']) (simp add: w, simp add: n1_store_def)
qed

section \<open>Claims on the sample store\<close>

definition no_files :: disk where
  "no_files = \<lparr>dk_journal = NoFile, dk_rotated = NoFile, dk_checkpoint = NoFile, dk_state = NoFile\<rparr>"

definition free_store :: "unit store" where
  "free_store = \<lparr>st_graph = Inr n1_graph, st_disk = no_files, st_claims = no_claims\<rparr>"

abbreviation fresh_state :: run_state where
  "fresh_state \<equiv> NewRunState \<lparr>unix_sec = 5, unix_nsec = 0\<rparr>"

definition claim_event :: history_event where
  "claim_event = n1_event fresh_state StatusInProgress ''me'' (''claimed by '' @ ''me'')"

lemma free_loads: "load_state (one_codec x) sample_call no_files = Inr fresh_state"
  by (simp add: LoadState_def replayJournal_def readCheckpoint_def read_limit_def no_files_def sample_call_def)

lemma sample_claim:
  "\<exists>st' res. ClaimNode (one_codec claim_event) (one_encoders claim_event) sample_call Local ''n1'' ''me'' 0 ''r1'' free_store =
     (st', Inr res)"
proof -
  let ?cd = "one_codec claim_event" and ?en = "one_encoders claim_event"
  have "\<exists>st' rs'. setStatusLocked ?cd ?en sample_call ''n1'' StatusInProgress ''me'' (''claimed by '' @ ''me'') free_store = (st', Inr rs')"
    by (rule n1_writes [OF free_loads _ claim_event_def])
      (simp_all add: NewRunState_def free_store_def no_files_def file_size_def)
  then obtain st1 rs1 where w: "setStatusLocked ?cd ?en sample_call ''n1'' StatusInProgress ''me'' (''claimed by '' @ ''me'') free_store =
      (st1, Inr rs1)" by blast
  have ready: "append_ready ?cd (ca_stamp sample_call) (st_disk free_store) None"
    using one_ready(2) by (simp add: free_store_def no_files_def)
  obtain r where r: "load_state ?cd sample_call (st_disk st1) = Inr r"
    using write_then_load [OF one_codec_ok ready _ w, of sample_call] by auto
  have me: "trim_space ''me'' = ''me''" by code_simp
  have n: "NodeByID n1_graph ''n1'' = Some n1_node" "claim_allowed Local n1_graph n1_node = None" by code_simp+
  have "map rn_ID (rd_Ready (ComputeReadiness (Some n1_graph) (Some fresh_state))) = [''n1'']" by code_simp
  then have "\<exists>c\<in>set (rd_Ready (ComputeReadiness (Some n1_graph) (Some fresh_state))). rn_ID c = ''n1''" by auto
  then have ok: "claimable n1_graph fresh_state co ''n1''" for co by (simp add: claimable_def)
  have free: "st_graph free_store = Inr n1_graph" "st_disk free_store = no_files"
      "prune (ca_now sample_call) (st_claims free_store) = no_claims"
    by (simp_all add: free_store_def no_claims_def prune_def prune_replayed_def maxReplayed_def)
  have new: "\<not> alreadyDone no_claims ''r1''" "claim_at no_claims ''n1'' = None" "\<not> Live None (ca_now sample_call)"
    by (simp_all add: alreadyDone_def no_claims_def claim_at_def Live_def)
  have save: "ca_claims_ok sample_call" by (simp add: sample_call_def)
  show ?thesis
    unfolding ClaimNode_def Let_def free me
    by (simp add: new n free_loads) (use w ok r save in \<open>simp add: take_node_def saveClaimsLocked_def Let_def\<close>)
qed

lemma new_request: "\<not> alreadyDone (prune (ca_now sample_call) (st_claims free_store)) ''r1''"
  by (simp add: free_store_def no_claims_def prune_def prune_replayed_def maxReplayed_def alreadyDone_def)

theorem claims_exclude_witness:
  "\<exists>st0 res st1.
     ClaimNode (one_codec claim_event) (one_encoders claim_event) sample_call Local ''n1'' ''me'' 0 ''r1'' free_store = (st0, Inr res) \<and>
     st1 = fold (perform (one_codec claim_event) (one_encoders claim_event)) [(sample_call, OpRelease ''n1'' ''you'')] st0 \<and>
     held ''n1'' (trim_space ''me'') (ca_now sample_call + clampLease 0) st1 \<and>
     (case snd (ClaimNode (one_codec claim_event) (one_encoders claim_event) sample_call Local ''n1'' ''you'' 0 ''r2'' st1) of
       Inl _ \<Rightarrow> True
     | Inr (c, _, _) \<Rightarrow> alreadyDone (prune (ca_now sample_call) (st_claims st1)) ''r2'' \<and>
         map_option cl_Owner c = Some (trim_space ''me''))"
proof -
  obtain st0 res where c: "ClaimNode (one_codec claim_event) (one_encoders claim_event) sample_call Local ''n1'' ''me'' 0 ''r1'' free_store =
      (st0, Inr res)" using sample_claim by blast
  have names: "trim_space ''me'' = ''me''" "trim_space ''you'' = ''you''" by code_simp+
  have quiet: "list_all (quiet_op (st_graph free_store) ''n1'' (trim_space ''me'') (ca_now sample_call + clampLease 0))
      [(sample_call, OpRelease ''n1'' ''you'')]"
    using clampLease_bounds(3) [of 0] by (simp add: quiet_op_def names)
  have time: "ca_now sample_call < ca_now sample_call + clampLease 0" using clampLease_bounds(3) [of 0] by simp
  have other: "trim_space ''you'' \<noteq> trim_space ''me''" by (simp add: names)
  show ?thesis
    by (rule exI [of _ st0], rule exI [of _ res], rule exI, rule conjI [OF c], rule conjI [OF refl])
      (rule claims_exclude [OF c new_request quiet time other])
qed

theorem retry_changes_nothing_witness:
  "succeeds (one_codec claim_event) (one_encoders claim_event) (sample_call, OpClaim Local ''n1'' ''me'' 0 ''r1'') free_store \<and>
   perform (one_codec claim_event) (one_encoders claim_event) (sample_call, OpClaim Local ''n1'' ''me'' 0 ''r1'')
     (perform (one_codec claim_event) (one_encoders claim_event) (sample_call, OpClaim Local ''n1'' ''me'' 0 ''r1'') free_store) =
   perform (one_codec claim_event) (one_encoders claim_event) (sample_call, OpClaim Local ''n1'' ''me'' 0 ''r1'') free_store"
proof -
  have s: "succeeds (one_codec claim_event) (one_encoders claim_event) (sample_call, OpClaim Local ''n1'' ''me'' 0 ''r1'') free_store"
    using sample_claim by auto
  show ?thesis
    by (rule conjI [OF s retry_changes_nothing [OF s]])
      (use new_request in \<open>simp_all add: free_store_def no_claims_def gomap_ok_def replayRetention_def Hour_def Minute_def\<close>)
qed

theorem started_work_not_claimed_witness:
  "\<exists>err. ClaimNode (one_codec claim_event) (one_encoders claim_event) sample_call Local ''n1'' ''me'' 0 ''r1''
     (free_store\<lparr>st_disk := sample_disk\<rparr>) = (free_store\<lparr>st_disk := sample_disk\<rparr>, Inl err)"
proof -
  have m: "node_state_of sample_state ''n1'' = Some (state_of sample_event)"
    by (simp add: node_state_of_def sample_nodes)
  have "statusOf (ComputeStatuses n1_graph (Some sample_state)) ''n1'' = StatusDone"
    by code_simp
  then show ?thesis
    by (intro started_work_not_claimed [where g = n1_graph and rs = sample_state])
      (simp_all add: free_store_def sample_loads no_claims_def prune_def prune_replayed_def maxReplayed_def alreadyDone_def claim_at_def)
qed

end
