(* ===== verification/Reach.thy ===== *)
theory Reach
  imports Prelude
begin

text \<open>
  The contract of a search that keeps a queue and marks what it has queued. The code writes this loop in several
  places, each with its own data and its own conditions on what to follow; what all of them compute is stated and
  proved here once.
\<close>

section \<open>Searching with a queue and marks\<close>

text \<open>
  \<open>succ\<close> is what the loop follows, \<open>seen\<close> the marks in its state, and \<open>push x\<close> the loop body for the element
  \<open>x\<close> taken from the queue: it queues and marks every successor that carries no mark.
\<close>

locale worklist =
  fixes succ :: "'a \<Rightarrow> 'a set" and seen :: "'s \<Rightarrow> 'a set" and push :: "'a \<Rightarrow> 'a list \<times> 's \<Rightarrow> 'a list \<times> 's"
  assumes seen_push: "seen (snd (push x (q, s))) = seen s \<union> succ x"
    and queue_push: "set (fst (push x (q, s))) = set q \<union> (succ x - seen s)"
    and push_once: "length (fst (push x (q, s))) = length q + card (succ x - seen s)"
begin

definition rel :: "('a \<times> 'a) set" where
  "rel = {(x, y). y \<in> succ x}"

definition inv :: "'a set \<Rightarrow> 'a set \<Rightarrow> 'a list \<Rightarrow> 's \<Rightarrow> bool" where
  "inv roots marked q s \<longleftrightarrow>
     marked \<subseteq> seen s \<and> seen s \<subseteq> marked \<union> rel\<^sup>+ `` roots \<and> set q \<subseteq> roots \<union> rel\<^sup>+ `` roots \<and>
     (\<forall>x \<in> (roots \<union> seen s) - set q. succ x \<subseteq> seen s)"

lemma inv_start: "marked \<subseteq> roots \<Longrightarrow> set q = roots \<Longrightarrow> seen s = marked \<Longrightarrow> inv roots marked q s"
  by (auto simp: inv_def)

lemma succ_reached: "x \<in> roots \<union> rel\<^sup>+ `` roots \<Longrightarrow> succ x \<subseteq> rel\<^sup>+ `` roots"
  by (auto simp: rel_def intro: trancl_into_trancl)

lemma inv_step:
  assumes "inv roots marked (x # q) s"
  shows "inv roots marked (fst (push x (q, s))) (snd (push x (q, s)))"
proof -
  have new: "succ x \<subseteq> rel\<^sup>+ `` roots" by (rule succ_reached) (use assms in \<open>auto simp: inv_def\<close>)
  have "succ y \<subseteq> seen s \<union> succ x" if "y \<in> (roots \<union> (seen s \<union> succ x)) - (set q \<union> (succ x - seen s))" for y
  proof (cases "y = x")
    case False
    then have "y \<in> (roots \<union> seen s) - set (x # q)" using that by auto
    then show ?thesis using assms unfolding inv_def by blast
  qed simp
  then show ?thesis using assms new unfolding inv_def seen_push queue_push by auto
qed

lemma inv_done:
  assumes "inv roots marked [] s" "marked \<subseteq> roots"
  shows "seen s = marked \<union> rel\<^sup>+ `` roots"
proof
  show "seen s \<subseteq> marked \<union> rel\<^sup>+ `` roots" using assms(1) by (simp add: inv_def)
  have closed: "succ x \<subseteq> seen s" if "x \<in> roots \<union> seen s" for x using assms(1) that by (auto simp: inv_def)
  have "y \<in> seen s" if "(r, y) \<in> rel\<^sup>+" "r \<in> roots" for r y
    using that(1)
  proof (induction rule: trancl_induct)
    case (base y)
    then show ?case using closed [of r] that(2) by (auto simp: rel_def)
  next
    case (step y z)
    then show ?case using closed [of y] by (auto simp: rel_def)
  qed
  then show "marked \<union> rel\<^sup>+ `` roots \<subseteq> seen s" using assms(1) by (auto simp: inv_def)
qed

text \<open>Each round takes one element from the queue and pays for what it adds with a mark.\<close>

lemma push_measure:
  assumes "finite A" "succ x \<subseteq> A"
  shows "card (A - seen (snd (push x (q, s)))) + length (fst (push x (q, s))) = card (A - seen s) + length q"
proof -
  have "A - seen s = (A - (seen s \<union> succ x)) \<union> (succ x - seen s)" using assms(2) by auto
  moreover have "card ((A - (seen s \<union> succ x)) \<union> (succ x - seen s)) =
      card (A - (seen s \<union> succ x)) + card (succ x - seen s)"
    by (rule card_Un_disjoint) (use assms finite_subset in auto)
  ultimately show ?thesis unfolding seen_push push_once by simp
qed

end

end
