(* ===== verification/Graph_Edits.thy ===== *)
theory Graph_Edits
  imports Reach Validate
begin

text \<open>
  What an edit of the board's wires rests on: conditions rewritten through their text, the logic gate that owns a wire
  (the helpers of \<^verbatim>\<open>internal/store/graph_ops.go\<close>), and dependencies named only in \<^verbatim>\<open>requires\<close> with the
  refusal of dependency cycles (\<^verbatim>\<open>internal/store/graph_requires_wires.go\<close>). \<open>ip\<close> is \<^verbatim>\<open>unicode.IsPrint\<close>,
  which \<^verbatim>\<open>strconv.Quote\<close> consults when a condition is printed.
\<close>

section \<open>Results\<close>

definition sbind :: "'e + 'a \<Rightarrow> ('a \<Rightarrow> 'e + 'b) \<Rightarrow> 'e + 'b" where
  "sbind r f = (case r of Inl e \<Rightarrow> Inl e | Inr a \<Rightarrow> f a)"

definition refuse_if :: "bool \<Rightarrow> 'e \<Rightarrow> 'e + 'a \<Rightarrow> 'e + 'a" where
  "refuse_if b e r = (if b then Inl e else r)"

lemma sbind_Inr [simp]: "sbind r f = Inr b \<longleftrightarrow> (\<exists>a. r = Inr a \<and> f a = Inr b)"
  by (simp add: sbind_def split: sum.split)

lemma refuse_if_Inr [simp]: "refuse_if b e r = Inr a \<longleftrightarrow> \<not> b \<and> r = Inr a"
  by (simp add: refuse_if_def)

lemma sbind_simps [simp]: "sbind (Inl e) f = Inl e" "sbind (Inr a) f = f a"
  by (simp_all add: sbind_def)

section \<open>Conditions\<close>

definition containsNodeRef :: "expr option \<Rightarrow> string \<Rightarrow> bool" where
  "containsNodeRef e nodeID \<longleftrightarrow> nodeID \<in> set (NodeRefs e)"

definition nodeRequiresRef :: "node \<Rightarrow> string \<Rightarrow> bool" where
  "nodeRequiresRef n sourceID \<longleftrightarrow>
     (case Parse (node_Requires n) of Inr (Some e) \<Rightarrow> containsNodeRef (Some e) sourceID | _ \<Rightarrow> False)"

text \<open>The result says whether the node changed; a condition that does not parse is the error.\<close>

definition appendNodeRequirement :: "(nat \<Rightarrow> bool) \<Rightarrow> node \<Rightarrow> string \<Rightarrow> parse_error + node \<times> bool" where
  "appendNodeRequirement ip n sourceID =
     (case Parse (node_Requires n) of
        Inl err \<Rightarrow> Inl err
      | Inr e \<Rightarrow>
          if containsNodeRef e sourceID then Inr (n, False)
          else
            let ref = NodeRef sourceID 0
            in Inr (n\<lparr>node_Requires := Expr_String ip (case e of None \<Rightarrow> ref | Some e \<Rightarrow> Binary ''and'' e ref 0)\<rparr>, True))"

definition pruneNodeRequirement :: "(nat \<Rightarrow> bool) \<Rightarrow> node \<Rightarrow> string \<Rightarrow> parse_error + node \<times> bool" where
  "pruneNodeRequirement ip n sourceID =
     (case Parse (node_Requires n) of
        Inl err \<Rightarrow> Inl err
      | Inr None \<Rightarrow> Inr (n, False)
      | Inr (Some e) \<Rightarrow>
          if \<not> containsNodeRef (Some e) sourceID then Inr (n, False)
          else
            Inr (n\<lparr>node_Requires := (case PruneNodeRefs (\<lambda>i. i = sourceID) e of
                                        None \<Rightarrow> [] | Some p \<Rightarrow> Expr_String ip p)\<rparr>, True))"

section \<open>Gates that own wires\<close>

definition relationGateOperator :: "string \<Rightarrow> bool" where
  "relationGateOperator operator \<longleftrightarrow> operator = ''optional'' \<or> operator = ''deprecated''"

definition gates_of :: "graph \<Rightarrow> logic_gate list" where
  "gates_of g = (case graph_UI g of None \<Rightarrow> [] | Some ui \<Rightarrow> ui_LogicGates ui)"

text \<open>The empty text stands for no gate.\<close>

definition booleanGateForOutput :: "graph \<Rightarrow> string \<Rightarrow> string" where
  "booleanGateForOutput g output =
     (case first_match (\<lambda>gate. \<not> relationGateOperator (gate_Operator gate) \<and> output \<in> set (OutputNodes gate)) (gates_of g) of
        Some gate \<Rightarrow> gate_ID gate
      | None \<Rightarrow> [])"

definition logicGateOwningEdge :: "graph \<Rightarrow> string \<Rightarrow> string \<Rightarrow> string" where
  "logicGateOwningEdge g src to =
     (case first_match (\<lambda>gate. src \<in> set (inputs_of gate) \<and> to \<in> set (OutputNodes gate)) (gates_of g) of
        Some gate \<Rightarrow> gate_ID gate
      | None \<Rightarrow> [])"

definition requiresWireGate :: "graph \<Rightarrow> string \<Rightarrow> string \<Rightarrow> string" where
  "requiresWireGate g src to =
     (if logicGateOwningEdge g src to \<noteq> [] then logicGateOwningEdge g src to else booleanGateForOutput g to)"

section \<open>Wires drawn from a condition\<close>

text \<open>\<^verbatim>\<open>strings.Cut\<close>: the parts before and after the first occurrence.\<close>

definition Cut :: "string \<Rightarrow> string \<Rightarrow> (string \<times> string) option" where
  "Cut s sep = map_option (\<lambda>i. (take i s, drop (i + length sep) s)) (index_of s sep)"

definition wire_key :: "string \<Rightarrow> string \<Rightarrow> string" where
  "wire_key src to = src @ ''->'' @ to"

definition gated :: "graph \<Rightarrow> string \<Rightarrow> string \<Rightarrow> bool" where
  "gated g src to \<longleftrightarrow>
     (case first_match (\<lambda>gate. to \<in> set (OutputNodes gate)) (gates_of g) of
        None \<Rightarrow> False
      | Some gate \<Rightarrow> if \<not> relationGateOperator (gate_Operator gate) then True else src \<in> set (inputs_of gate))"

definition consider_wire :: "graph \<Rightarrow> string \<Rightarrow> edge option list \<times> string boolmap \<Rightarrow> edge option list \<times> string boolmap" where
  "consider_wire g key acc =
     (case acc of (es, live) \<Rightarrow>
        if live key \<or> has_prefix key ''gate:'' \<or> has_prefix key ''logic:'' then acc
        else (case Cut key ''->'' of
                None \<Rightarrow> acc
              | Some (src, to) \<Rightarrow>
                  if src = [] \<or> to = [] \<or> src = to \<or> NodeByID g src = None then acc
                  else (case NodeByID g to of
                          None \<Rightarrow> acc
                        | Some target \<Rightarrow>
                            if \<not> nodeRequiresRef target src \<or> gated g src to then acc
                            else (es @ [Some \<lparr>edge_From = src, edge_To = to, edge_Relation = RelationRequired, edge_Line = []\<rparr>],
                                  live(key := True)))))"

definition materializeRequiresWires :: "graph \<Rightarrow> graph" where
  "materializeRequiresWires g =
     (case graph_UI g of
        None \<Rightarrow> g
      | Some ui \<Rightarrow>
          if length (ui_WireVertices ui) = 0 \<and> length (ui_EdgeLabels ui) = 0 then g
          else g\<lparr>graph_Edges :=
                 fst (fold (consider_wire g) (map fst (ui_WireVertices ui) @ map fst (ui_EdgeLabels ui))
                        (graph_Edges g, edgeKeys g))\<rparr>)"

section \<open>Dependency cycles\<close>

definition dependsOn :: "graph \<Rightarrow> node \<Rightarrow> string \<Rightarrow> bool" where
  "dependsOn g n src \<longleftrightarrow>
     nodeRequiresRef n src \<or>
     list_ex (\<lambda>eo. Blocks eo \<and> edge_From (the eo) = src \<and> edge_To (the eo) = node_ID n) (graph_Edges g)"

fun requires_deps :: "node list \<Rightarrow> (string, string list) gomap \<Rightarrow> (string, string list) gomap" where
  "requires_deps [] m = m"
| "requires_deps (n # ns) m =
     requires_deps ns
       (case Parse (node_Requires n) of
          Inr (Some e) \<Rightarrow> gomap_put (node_ID n) (deps_at m (node_ID n) @ NodeRefs (Some e)) m
        | _ \<Rightarrow> m)"

definition dependency_map :: "graph \<Rightarrow> (string, string list) gomap" where
  "dependency_map g = edge_deps (graph_Edges g) (requires_deps (nodes_of g) [])"

text \<open>\<open>previous\<close> keeps the newest entry first.\<close>

fun discover :: "string \<Rightarrow> string list \<Rightarrow> string list \<times> (string, string) gomap \<Rightarrow> string list \<times> (string, string) gomap" where
  "discover current [] acc = acc"
| "discover current (n # ns) (queue, previous) =
     (if n \<in> fst ` set previous then discover current ns (queue, previous)
      else discover current ns (queue @ [n], (n, current) # previous))"

definition push_deps ::
  "(string, string list) gomap \<Rightarrow> string \<Rightarrow> string list \<times> (string, string) gomap \<Rightarrow> string list \<times> (string, string) gomap" where
  "push_deps deps current acc = discover current (deps_at deps current) acc"

lemma discover_facts:
  "fst ` set (snd (discover c ns (q, p))) = fst ` set p \<union> set ns"
  "set (fst (discover c ns (q, p))) = set q \<union> (set ns - fst ` set p)"
  "length (fst (discover c ns (q, p))) = length q + card (set ns - fst ` set p)"
proof (induction c ns "(q, p)" arbitrary: q p rule: discover.induct)
  case (2 c n ns q p)
  {
    case 1
    then show ?case using 2 by auto
  next
    case 2
    then show ?case using "2.hyps" by auto
  next
    case 3
    then show ?case
    proof (cases "n \<in> fst ` set p")
      case False
      have "set (n # ns) - fst ` set p = insert n (set ns - insert n (fst ` set p))" using False by auto
      moreover have "card (insert n (set ns - insert n (fst ` set p))) = Suc (card (set ns - insert n (fst ` set p)))" by simp
      ultimately show ?thesis using "2.hyps"(6) [OF False] False by simp
    qed (use "2.hyps"(3) in \<open>simp add: insert_absorb insert_Diff_if\<close>)
  }
qed auto

interpretation bfs: worklist "\<lambda>x. set (deps_at deps x)" "\<lambda>p. fst ` set p" "push_deps deps" for deps
  by unfold_locales (simp_all add: push_deps_def discover_facts)

lemma deps_named: "set (deps_at deps x) \<subseteq> set (all_names deps)"
  by (cases "map_of deps x") (auto simp: deps_at_def all_names_def dest: map_of_SomeD)

function breadth_first ::
  "(string, string list) gomap \<Rightarrow> string \<Rightarrow> string list \<Rightarrow> (string, string) gomap \<Rightarrow> (string, string) gomap option" where
  "breadth_first deps to [] previous = None"
| "breadth_first deps to (current # queue) previous =
     (if current = to then Some previous
      else breadth_first deps to (fst (push_deps deps current (queue, previous))) (snd (push_deps deps current (queue, previous))))"
  by pat_completeness auto

termination
proof (relation "measure (\<lambda>(deps, to, q, p). card (set (all_names deps) - fst ` set p) + length q)")
  fix deps :: "(string, string list) gomap" and to current queue and previous :: "(string, string) gomap"
  show "((deps, to, fst (push_deps deps current (queue, previous)), snd (push_deps deps current (queue, previous))),
         deps, to, current # queue, previous)
      \<in> measure (\<lambda>(deps, to, q, p). card (set (all_names deps) - fst ` set p) + length q)"
    using bfs.push_measure [where A = "set (all_names deps)" and x = current and deps = deps and q = queue and s = previous] deps_named
    by (simp add: prod.case_eq_if)
qed simp

text \<open>
  The loop \<^verbatim>\<open>for id := to; id != ""; id = previous[id]\<close>; a node is queued once, so following \<open>previous\<close> takes at most
  as many rounds as it has entries.
\<close>

fun trace :: "nat \<Rightarrow> (string, string) gomap \<Rightarrow> string \<Rightarrow> string list" where
  "trace 0 previous i = []"
| "trace (Suc k) previous i =
     (if i = [] then [] else i # trace k previous (case map_of previous i of Some p \<Rightarrow> p | None \<Rightarrow> []))"

text \<open>\<open>Some hops\<close> is the refusal with the loop it names.\<close>

definition refuseDependencyCycle :: "graph \<Rightarrow> string \<Rightarrow> string \<Rightarrow> string list option" where
  "refuseDependencyCycle g src to =
     map_option (\<lambda>previous. to # rev (trace (length previous) previous to))
       (breadth_first (dependency_map g) to [src] [(src, [])])"

section \<open>What the refusal decides\<close>

text \<open>Who waits for whom: through \<^verbatim>\<open>requires\<close> or through a required wire.\<close>

definition requires_rel :: "node list \<Rightarrow> (string \<times> string) set" where
  "requires_rel ns = {(node_ID n, r) | n e r. n \<in> set ns \<and> Parse (node_Requires n) = Inr (Some e) \<and> r \<in> refs_of e}"

definition wires_rel :: "edge option list \<Rightarrow> (string \<times> string) set" where
  "wires_rel es = {(edge_To e, edge_From e) | e. Some e \<in> set es \<and> Blocks (Some e)}"

definition dep_rel :: "graph \<Rightarrow> (string \<times> string) set" where
  "dep_rel g = requires_rel (nodes_of g) \<union> wires_rel (graph_Edges g)"

lemma requires_rel_Cons:
  "requires_rel (n # ns) =
     requires_rel ns \<union> (case Parse (node_Requires n) of Inr (Some e) \<Rightarrow> {node_ID n} \<times> refs_of e | _ \<Rightarrow> {})"
  by (auto simp: requires_rel_def split: sum.splits option.splits)

lemma requires_deps_rel: "edges (deps_at (requires_deps ns m)) = edges (deps_at m) \<union> requires_rel ns"
proof (induction ns arbitrary: m)
  case (Cons n ns)
  have "edges (deps_at (gomap_put k (deps_at m k @ xs) m)) = edges (deps_at m) \<union> {k} \<times> set xs" for k and xs
    unfolding edges_put by (auto simp: edges_def)
  then show ?case using Cons by (auto simp: requires_rel_Cons split: sum.splits option.splits)
qed (simp add: requires_rel_def)

lemma dependency_map_rel: "edges (deps_at (dependency_map g)) = dep_rel g"
proof -
  have "edges (deps_at []) = {}" by (simp add: edges_def deps_at_def)
  then show ?thesis by (simp add: dependency_map_def edges_edge_deps requires_deps_rel dep_rel_def wires_rel_def)
qed

lemma bfs_rel: "bfs.rel deps = edges (deps_at deps)"
  by (simp add: bfs.rel_def edges_def)

lemma breadth_first_decides:
  assumes "bfs.inv deps R M q p" "M \<subseteq> R" "to \<notin> (R \<union> fst ` set p) - set q"
  shows "breadth_first deps to q p = None \<longleftrightarrow> to \<notin> R \<union> (edges (deps_at deps))\<^sup>+ `` R"
  using assms
proof (induction deps to q p rule: breadth_first.induct)
  case (1 deps to p)
  have "fst ` set p = M \<union> (edges (deps_at deps))\<^sup>+ `` R"
    using bfs.inv_done [OF 1(1,2)] by (simp add: bfs_rel)
  then show ?case using 1 by auto
next
  case (2 deps to c q p)
  show ?case
  proof (cases "c = to")
    case True
    have "c \<in> R \<union> (edges (deps_at deps))\<^sup>+ `` R" using 2(2) by (auto simp: bfs.inv_def bfs_rel)
    then show ?thesis using True by simp
  next
    case False
    let ?st = "push_deps deps c (q, p)"
    have "bfs.inv deps R M (fst ?st) (snd ?st)" using 2(2) by (rule bfs.inv_step)
    moreover have "to \<notin> (R \<union> fst ` set (snd ?st)) - set (fst ?st)"
      unfolding push_deps_def discover_facts using 2(4) False by auto
    ultimately show ?thesis using 2(1) [OF False] 2(3) False by simp
  qed
qed

lemma refuse_decides: "refuseDependencyCycle g src to = None \<longleftrightarrow> (src, to) \<notin> (dep_rel g)\<^sup>*"
proof -
  have "bfs.inv (dependency_map g) {src} {src} [src] [(src, [])]" by (rule bfs.inv_start) simp_all
  then have "breadth_first (dependency_map g) to [src] [(src, [])] = None \<longleftrightarrow>
      to \<notin> {src} \<union> (dep_rel g)\<^sup>+ `` {src}"
    using breadth_first_decides [where R = "{src}" and M = "{src}" and q = "[src]" and p = "[(src, [])]"]
    by (simp add: dependency_map_rel)
  then show ?thesis by (auto simp: refuseDependencyCycle_def rtrancl_eq_or_trancl)
qed

text \<open>A new dependency between nodes that were not refused keeps the relation without cycles.\<close>

lemma not_refused_acyclic:
  assumes "acyclic (dep_rel g)" "refuseDependencyCycle g src to = None"
  shows "acyclic (insert (to, src) (dep_rel g))"
  using assms by (simp add: refuse_decides acyclic_insert)

section \<open>The loop the refusal names\<close>

fun chained :: "(string, string list) gomap \<Rightarrow> string \<Rightarrow> (string, string) gomap \<Rightarrow> bool" where
  "chained deps src [] = False"
| "chained deps src [(n, c)] = (n = src \<and> c = [])"
| "chained deps src ((n, c) # m) = (c \<in> fst ` set m \<and> n \<in> set (deps_at deps c) \<and> n \<notin> fst ` set m \<and> n \<noteq> [] \<and> chained deps src m)"

lemma chained_Cons:
  "m \<noteq> [] \<Longrightarrow> chained deps src ((n, c) # m) \<longleftrightarrow>
     c \<in> fst ` set m \<and> n \<in> set (deps_at deps c) \<and> n \<notin> fst ` set m \<and> n \<noteq> [] \<and> chained deps src m"
  by (cases m) auto

lemma chained_not_Nil: "chained deps src m \<Longrightarrow> m \<noteq> []"
  by auto

lemma discover_chained:
  "chained deps src p \<Longrightarrow> c \<in> fst ` set p \<Longrightarrow> set ns \<subseteq> set (deps_at deps c) \<Longrightarrow> [] \<notin> set ns \<Longrightarrow>
     chained deps src (snd (discover c ns (q, p)))"
proof (induction c ns "(q, p)" arbitrary: q p rule: discover.induct)
  case (2 c n ns q p)
  then have "chained deps src ((n, c) # p)" if "n \<notin> fst ` set p"
    using that chained_Cons [OF chained_not_Nil [OF "2.prems"(1)]] by auto
  with 2 show ?case by auto
qed simp

lemma breadth_first_chained:
  assumes "breadth_first deps to q p = Some p'" "chained deps src p" "set q \<subseteq> fst ` set p" "\<forall>x. [] \<notin> set (deps_at deps x)"
  shows "chained deps src p' \<and> to \<in> fst ` set p'"
  using assms
proof (induction deps to q p rule: breadth_first.induct)
  case (2 deps to c q p)
  show ?case
  proof (cases "c = to")
    case False
    have "chained deps src (snd (push_deps deps c (q, p)))"
      unfolding push_deps_def using 2(3,4,5) by (intro discover_chained) auto
    moreover have "set (fst (push_deps deps c (q, p))) \<subseteq> fst ` set (snd (push_deps deps c (q, p)))"
      unfolding push_deps_def discover_facts using 2(4) by auto
    ultimately show ?thesis using 2(1) [OF False] 2(2,5) False by simp
  qed (use 2 in auto)
qed simp

lemma chained_closed: "chained deps src m \<Longrightarrow> map_of m i = Some v \<Longrightarrow> v \<in> insert [] (fst ` set m)"
  by (induction deps src m rule: chained.induct) (auto split: if_splits)

lemma trace_skip:
  "chained deps src m \<Longrightarrow> n \<notin> fst ` set m \<Longrightarrow> n \<noteq> [] \<Longrightarrow> i \<in> insert [] (fst ` set m) \<Longrightarrow> trace k ((n, c) # m) i = trace k m i"
proof (induction k arbitrary: i)
  case (Suc k)
  show ?case
  proof (cases "i = []")
    case False
    then have "map_of m i \<noteq> None" using Suc.prems(4) by (simp add: map_of_eq_None_iff)
    then obtain v where v: "map_of m i = Some v" by blast
    have "trace k ((n, c) # m) v = trace k m v" by (rule Suc.IH [OF Suc.prems(1-3) chained_closed [OF Suc.prems(1) v]])
    moreover have "n \<noteq> i" using False Suc.prems by auto
    ultimately show ?thesis using False v by simp
  qed simp
qed simp

lemma trace_path:
  assumes "chained deps src p" "i \<in> fst ` set p" "length p \<le> k" "src \<noteq> []"
  shows "trace k p i \<noteq> [] \<and> hd (trace k p i) = i \<and> last (trace k p i) = src \<and>
    successively (\<lambda>x y. x \<in> set (deps_at deps y)) (trace k p i)"
  using assms
proof (induction deps src p arbitrary: i k rule: chained.induct)
  case (2 deps src n c)
  then obtain j where "k = Suc j" by (cases k) auto
  with 2 show ?case by (cases j) auto
next
  case (3 deps src n c x m)
  let ?m = "x # m"
  from 3(4) obtain j where k: "k = Suc j" "length ?m \<le> j" by (cases k) auto
  have c: "c \<in> fst ` set ?m" "n \<in> set (deps_at deps c)" "n \<notin> fst ` set ?m" "n \<noteq> []" "chained deps src ?m" using 3(2) by auto
  show ?case
  proof (cases "i = n")
    case True
    have "trace k ((n, c) # ?m) i = n # trace j ((n, c) # ?m) c" using True k c(4) by simp
    also have "trace j ((n, c) # ?m) c = trace j ?m c" by (rule trace_skip [OF c(5)]) (use c in auto)
    finally have eq: "trace k ((n, c) # ?m) i = n # trace j ?m c" .
    have "trace j ?m c \<noteq> [] \<and> hd (trace j ?m c) = c \<and> last (trace j ?m c) = src \<and>
        successively (\<lambda>x y. x \<in> set (deps_at deps y)) (trace j ?m c)"
      by (rule 3(1)) (use c k(2) 3(5) in auto)
    then show ?thesis unfolding eq using True c(2) by (cases "trace j ?m c") auto
  next
    case False
    then have "trace k ((n, c) # ?m) i = trace k ?m i" by (intro trace_skip [OF c(5)]) (use c 3(3) in auto)
    then show ?thesis using 3(1) [of i k] c(5) 3(3,4,5) False by auto
  qed
qed simp

lemma refuse_loop:
  assumes "refuseDependencyCycle g src to = Some hops" "src \<noteq> []" "\<forall>(x, y) \<in> dep_rel g. y \<noteq> []"
  shows "\<exists>path. hops = to # path \<and> path \<noteq> [] \<and> hd path = src \<and> last path = to \<and>
    successively (\<lambda>x y. (x, y) \<in> dep_rel g) path"
proof -
  let ?d = "dependency_map g"
  obtain p where p: "breadth_first ?d to [src] [(src, [])] = Some p" "hops = to # rev (trace (length p) p to)"
    using assms(1) by (auto simp: refuseDependencyCycle_def)
  have d: "(x, y) \<in> dep_rel g \<longleftrightarrow> y \<in> set (deps_at ?d x)" for x y
    unfolding dependency_map_rel [symmetric] by (simp add: edges_def)
  then have "chained ?d src p \<and> to \<in> fst ` set p"
    using assms(3) d by (intro breadth_first_chained [OF p(1)]) fastforce+
  then have "trace (length p) p to \<noteq> [] \<and> hd (trace (length p) p to) = to \<and> last (trace (length p) p to) = src \<and>
      successively (\<lambda>x y. x \<in> set (deps_at ?d y)) (trace (length p) p to)"
    using assms(2) by (intro trace_path) auto
  then show ?thesis using p(2) by (auto simp: successively_rev d hd_rev last_rev)
qed

section \<open>Properties\<close>

text \<open>
  C22. The refusal of dependency cycles decides reachability: an edge that makes \<open>to\<close> wait for \<open>src\<close> is refused
  exactly when \<open>src\<close> already waits for \<open>to\<close>, through conditions and required wires. What is not refused keeps an acyclic
  board acyclic, and the loop a refusal names is real: \<open>to\<close>, then \<open>src\<close>, each waiting for the next, back to \<open>to\<close>.
\<close>

theorem cycle_refusal_exact:
  assumes "src \<noteq> []" "\<forall>(x, y) \<in> dep_rel g. y \<noteq> []"
  shows "(refuseDependencyCycle g src to = None) = ((src, to) \<notin> (dep_rel g)\<^sup>*) \<and>
    (acyclic (dep_rel g) \<longrightarrow> (refuseDependencyCycle g src to = None) = acyclic (insert (to, src) (dep_rel g))) \<and>
    (\<forall>hops. refuseDependencyCycle g src to = Some hops \<longrightarrow>
       (\<exists>path. hops = to # path \<and> path \<noteq> [] \<and> hd path = src \<and> last path = to \<and>
          successively (\<lambda>x y. (x, y) \<in> dep_rel g) path))"
  using refuse_decides [of g src to] refuse_loop [OF _ assms] by (simp add: acyclic_insert)

end
