(* ===== verification/Storage_Check.thy ===== *)
theory Storage_Check
  imports Graph_Edits Permission
begin

text \<open>
  The check of a graph before it is written (\<^verbatim>\<open>internal/store/graph_validate.go\<close>), with the sweep of decorations whose wire
  is gone (\<^verbatim>\<open>pruneEdgeDecorations\<close> of \<^verbatim>\<open>graph_cleanup.go\<close>). The check also rewrites the graph: it writes the edges of bent
  wires that only a condition names, sweeps decorations, hands out criterion ids and normalises write access. The
  first broken rule is the error; loops over Go maps follow the order of the \<open>gomap\<close>.
\<close>

section \<open>Refusals\<close>

definition MaxGraphNodes :: nat where "MaxGraphNodes = 10000"
definition maxGraphEdges :: nat where "maxGraphEdges = 50000"
definition maxGraphUsers :: nat where "maxGraphUsers = 10000"
definition maxLogicGates :: nat where "maxLogicGates = 10000"
definition maxNodeLinks :: nat where "maxNodeLinks = 64"
definition maxNodeRefs :: nat where "maxNodeRefs = 32"

datatype field_error =
    OversizedText
  | InvalidKind string
  | InvalidPriority string
  | InvalidAccess string
  | TooManyTags
  | BadTag
  | UnknownAssignee string
  | OversizedEffect
  | TooManyLinks
  | LinkToInvalidNode string
  | BadLinkLabel
  | LinkToInvalidProject string
  | TooManyRefs
  | RefToInvalidNode string
  | RefToSelf
  | RefTwice string

datatype gate_error =
    GateInvalidID nat
  | GateDuplicateID
  | GateOperator string
  | GateCoordinates
  | GateTooManyInputs
  | GateUnknownInput string
  | GateDuplicateInput string
  | GateMustOneInput
  | GateOneOutput
  | GateUnknownOutput string
  | GateDuplicateOutput string
  | GateSharedOutput string string
  | GateOversizedApplied

datatype storage_error =
    GraphNull
  | TooManyNodes
  | TooManyEdges
  | TooManyGates
  | TooManyUsers
  | BadTypeDefs "type_problem list"
  | UnknownOfficeStyle string
  | BadRoleDefs "role_problem list"
  | BadWorkflows workflow_error
  | BadCriteriaOf string acceptance_error
  | InvalidUserID string nat
  | BadUserName string
  | DuplicateUserID string
  | DuplicateUserName string
  | NullNode nat
  | InvalidNodeID string
  | DuplicateNodeID string
  | BadField string field_error
  | NullEdge nat
  | UnknownRelation nat string
  | UnknownLine nat string
  | TimelineTooLong
  | TimelineUnknownNode string
  | TimelineDuplicateNode string
  | TooManyPlacements
  | PlacementUnknownNode string
  | PlacementHalf string
  | PlacementNotFinite string
  | PlacementRatio string
  | TooManyPlanStatusDefs
  | InvalidPlanStatus string
  | BadPlanStatusLabel string
  | DuplicatePlanStatusID string
  | DuplicatePlanLabel string
  | BadGate string gate_error
  | TooManyMilestones string
  | InvalidMilestone string status
  | OversizedPlanNote string
  | TooManyStyles
  | TooManyOverrides
  | OverrideUnknownNode string
  | StyleOfUnknownNode string
  | BadStyleSize string
  | BadStyleColor string
  | TooManyDecorations
  | InvalidDecorationID string
  | DuplicateDecorationID string
  | BadDecorationGeometry string
  | OversizedDecoration string
  | BadDecorationColor string
  | TooManyViews
  | BadView string
  | DuplicateView string
  | BadViewSort string string

text \<open>The first check that fails.\<close>

fun first_error :: "'e option list \<Rightarrow> 'e option" where
  "first_error [] = None"
| "first_error (None # cs) = first_error cs"
| "first_error (Some e # cs) = Some e"

definition fails :: "bool \<Rightarrow> 'e \<Rightarrow> 'e option" where
  "fails b e = (if b then Some e else None)"

lemma first_error_None [simp]: "first_error cs = None \<longleftrightarrow> list_all (\<lambda>c. c = None) cs"
  by (induction cs rule: first_error.induct) auto

lemma fails_None [simp]: "fails b e = None \<longleftrightarrow> \<not> b"
  by (simp add: fails_def)

section \<open>Decorations of missing wires\<close>

definition wire_alive :: "graph \<Rightarrow> ui_state \<Rightarrow> string \<Rightarrow> bool" where
  "wire_alive g ui key =
     (case cut_prefix key ''gate:'' of
        Some target \<Rightarrow> list_ex (\<lambda>n. node_ID n = target) (nodes_of g)
      | None \<Rightarrow>
          (case cut_prefix key ''logic:'' of
             Some rest \<Rightarrow>
               (let gateID = (case Cut rest '':'' of Some (b, _) \<Rightarrow> b | None \<Rightarrow> rest)
                in list_ex (\<lambda>gate. gate_ID gate = gateID) (ui_LogicGates ui))
           | None \<Rightarrow> edgeKeys g key))"

definition pruneEdgeDecorations :: "graph \<Rightarrow> graph" where
  "pruneEdgeDecorations g =
     (case graph_UI g of
        None \<Rightarrow> g
      | Some ui \<Rightarrow>
          g\<lparr>graph_UI := Some (ui\<lparr>ui_EdgeLabels := filter (\<lambda>(key, _). edgeKeys g key) (ui_EdgeLabels ui),
                               ui_WireVertices := filter (\<lambda>(key, _). wire_alive g ui key) (ui_WireVertices ui)\<rparr>)\<rparr>)"

section \<open>Nodes\<close>

definition text_limit :: nat where "text_limit = 64 * 2 ^ 10"

definition checkNodeTextSize :: "node \<Rightarrow> storage_error option" where
  "checkNodeTextSize n =
     fails (length (node_Requires n) > text_limit \<or> length (node_Title n) > text_limit) (BadField (node_ID n) OversizedText)"

text \<open>\<^verbatim>\<open>unicode.IsControl\<close>\<close>

definition is_control :: "nat \<Rightarrow> bool" where
  "is_control r \<longleftrightarrow> r < 32 \<or> (127 \<le> r \<and> r < 160)"

fun check_refs :: "node \<Rightarrow> string boolmap \<Rightarrow> string list \<Rightarrow> field_error option" where
  "check_refs n seen [] = None"
| "check_refs n seen (r # rs) =
     (if \<not> ValidNodeID r then Some (RefToInvalidNode r)
      else if r = node_ID n then Some RefToSelf
      else if seen r then Some (RefTwice r)
      else check_refs n (seen(r := True)) rs)"

definition check_link :: "node_link_ref \<Rightarrow> field_error option" where
  "check_link l =
     first_error
       [fails (\<not> ValidNodeID (link_Node l)) (LinkToInvalidNode (link_Node l)),
        fails (trim_space (link_Label l) = [] \<or> length (trim_space (link_Label l)) > 128) BadLinkLabel,
        fails (link_Project l \<noteq> [] \<and> \<not> ValidProjectRef (link_Project l)) (LinkToInvalidProject (link_Project l))]"

definition validateNodeForStorage :: "node \<Rightarrow> string boolmap \<Rightarrow> field_error option" where
  "validateNodeForStorage n userIDs =
     first_error
       ([fails (length (node_Requires n) > text_limit \<or> length (node_Title n) > text_limit) OversizedText,
         fails (length (node_Kind n) > 64 \<or> list_ex is_control (runes (node_Kind n))) (InvalidKind (node_Kind n)),
         fails (node_Priority n \<notin> {[], ''urgent'', ''high'', ''medium'', ''low''}) (InvalidPriority (node_Priority n)),
         fails (normalizeWriteAccess (node_WriteAccess n) \<notin> {[], ''worker'', ''orchestrator'', ''human-only''})
           (InvalidAccess (normalizeWriteAccess (node_WriteAccess n))),
         fails (length (node_Tags n) > 64) TooManyTags] @
        map (\<lambda>tag. fails (trim_space tag = [] \<or> length tag > 128) BadTag) (node_Tags n) @
        [fails (node_Assignee n \<noteq> [] \<and> \<not> userIDs (node_Assignee n)) (UnknownAssignee (node_Assignee n))] @
        map (\<lambda>e. fails (length (effect_Set e) > 4096) OversizedEffect) (node_Effects n) @
        [fails (length (node_Links n) > maxNodeLinks) TooManyLinks] @
        map check_link (node_Links n) @
        [fails (length (node_Refs n) > maxNodeRefs) TooManyRefs, check_refs n no_keys (node_Refs n)])"

fun check_nodes :: "string boolmap \<Rightarrow> nat \<Rightarrow> string boolmap \<Rightarrow> node option list \<Rightarrow> storage_error option" where
  "check_nodes userIDs index ids [] = None"
| "check_nodes userIDs index ids (no # nos) =
     (case no of
        None \<Rightarrow> Some (NullNode index)
      | Some n \<Rightarrow>
          if \<not> ValidNodeID (node_ID n) then Some (InvalidNodeID (node_ID n))
          else if ids (node_ID n) then Some (DuplicateNodeID (node_ID n))
          else (case validateNodeForStorage n userIDs of
                  Some err \<Rightarrow> Some (BadField (node_ID n) err)
                | None \<Rightarrow> check_nodes userIDs (index + 1) (ids(node_ID n := True)) nos))"

definition number_criteria :: "node \<Rightarrow> node" where
  "number_criteria n =
     n\<lparr>node_Acceptance :=
         map_option (\<lambda>acc. acc\<lparr>acc_Items := slice (AssignAcceptanceIDs (Some (acc_Items acc)))\<rparr>) (node_Acceptance n)\<rparr>"

definition criteria_error :: "graph \<Rightarrow> node \<Rightarrow> storage_error option" where
  "criteria_error g n =
     (if node_Acceptance n = None then None
      else (case ValidateNodeAcceptance (Some g) (Some (number_criteria n)) of
              Inl err \<Rightarrow> Some (BadCriteriaOf (node_ID n) err)
            | Inr _ \<Rightarrow> None))"

definition normalize_access :: "node \<Rightarrow> node" where
  "normalize_access n = n\<lparr>node_WriteAccess := normalizeWriteAccess (node_WriteAccess n)\<rparr>"

section \<open>Users and edges\<close>

fun check_users :: "nat \<Rightarrow> string boolmap \<Rightarrow> string boolmap \<Rightarrow> user list \<Rightarrow> storage_error option" where
  "check_users index ids names [] = None"
| "check_users index ids names (u # us) =
     (let name = trim_space (user_Name u) in
      if \<not> ValidNodeID (user_ID u) then Some (InvalidUserID (user_ID u) index)
      else if name = [] \<or> length name > 256 then Some (BadUserName (user_ID u))
      else if ids (user_ID u) then Some (DuplicateUserID (user_ID u))
      else if names (to_lower name) then Some (DuplicateUserName name)
      else check_users (index + 1) (ids(user_ID u := True)) (names(to_lower name := True)) us)"

definition check_edge :: "nat \<times> edge option \<Rightarrow> storage_error option" where
  "check_edge ie =
     (case ie of
        (index, None) \<Rightarrow> Some (NullEdge index)
      | (index, Some e) \<Rightarrow>
          first_error
            [fails (edge_Relation e \<notin> {RelationRequired, RelationOptional, RelationDeprecated}) (UnknownRelation index (edge_Relation e)),
             fails (edge_Line e \<notin> {[], ''solid'', ''dashed'', ''dotted''}) (UnknownLine index (edge_Line e))])"

section \<open>Editor state\<close>

fun check_timeline :: "string boolmap \<Rightarrow> string boolmap \<Rightarrow> string list \<Rightarrow> storage_error option" where
  "check_timeline ids seen [] = None"
| "check_timeline ids seen (i # is) =
     (if \<not> ids i then Some (TimelineUnknownNode i)
      else if seen i then Some (TimelineDuplicateNode i)
      else check_timeline ids (seen(i := True)) is)"

definition check_placement :: "string boolmap \<Rightarrow> string \<times> gate_placement \<Rightarrow> storage_error option" where
  "check_placement ids ip =
     (case ip of (i, p) \<Rightarrow>
        if \<not> ids i then Some (PlacementUnknownNode i)
        else if gp_X p \<noteq> None \<or> gp_Y p \<noteq> None then
          (case (gp_X p, gp_Y p) of
             (Some x, Some y) \<Rightarrow> fails (not_finite x \<or> not_finite y) (PlacementNotFinite i)
           | _ \<Rightarrow> Some (PlacementHalf i))
        else fails (bad_ratio (case gp_Ratio p of Some r \<Rightarrow> r | None \<Rightarrow> Fin 0)) (PlacementRatio i))"

fun check_plan_statuses :: "string boolmap \<Rightarrow> string boolmap \<Rightarrow> plan_status_definition list \<Rightarrow> storage_error option" where
  "check_plan_statuses known labels [] = None"
| "check_plan_statuses known labels (d # ds) =
     (let label = trim_space (psd_Label d) in
      if \<not> has_prefix (psd_ID d) ''custom-'' \<or> \<not> ValidNodeID (psd_ID d) then Some (InvalidPlanStatus (psd_ID d))
      else if label = [] \<or> length label > 128 then Some (BadPlanStatusLabel (psd_ID d))
      else if known (psd_ID d) then Some (DuplicatePlanStatusID (psd_ID d))
      else if labels (to_lower label) then Some (DuplicatePlanLabel label)
      else check_plan_statuses (known(psd_ID d := True)) (labels(to_lower label := True)) ds)"

fun check_inputs :: "string boolmap \<Rightarrow> string boolmap \<Rightarrow> string list \<Rightarrow> gate_error option" where
  "check_inputs ids seen [] = None"
| "check_inputs ids seen (i # is) =
     (if \<not> ids i then Some (GateUnknownInput i)
      else if seen i then Some (GateDuplicateInput i)
      else check_inputs ids (seen(i := True)) is)"

text \<open>\<open>owner\<close> maps an output to the gate that has it.\<close>

fun check_outputs ::
  "string boolmap \<Rightarrow> string \<Rightarrow> string boolmap \<Rightarrow> (string \<rightharpoonup> string) \<Rightarrow> string list \<Rightarrow> gate_error + (string \<rightharpoonup> string)" where
  "check_outputs ids gateID seen owner [] = Inr owner"
| "check_outputs ids gateID seen owner (o1 # os) =
     (if \<not> ids o1 then Inl (GateUnknownOutput o1)
      else if seen o1 then Inl (GateDuplicateOutput o1)
      else (case owner o1 of
              Some other \<Rightarrow> Inl (GateSharedOutput other o1)
            | None \<Rightarrow> check_outputs ids gateID (seen(o1 := True)) (owner(o1 \<mapsto> gateID)) os))"

definition gate_operators :: "string list" where
  "gate_operators = [''must'', ''and'', ''or'', ''xor'', ''nand'', ''nor'', ''optional'', ''deprecated'']"

definition check_gate :: "string boolmap \<Rightarrow> string boolmap \<Rightarrow> nat \<Rightarrow> logic_gate \<Rightarrow> gate_error option" where
  "check_gate ids gateIDs index gate =
     first_error
       [fails (\<not> ValidNodeID (gate_ID gate)) (GateInvalidID index),
        fails (gateIDs (gate_ID gate)) GateDuplicateID,
        fails (gate_Operator gate \<notin> set gate_operators) (GateOperator (gate_Operator gate)),
        fails (not_finite (gate_X gate) \<or> not_finite (gate_Y gate)) GateCoordinates,
        fails (length (inputs_of gate) > MaxGraphNodes) GateTooManyInputs,
        check_inputs ids no_keys (inputs_of gate),
        fails (gate_Operator gate = ''must'' \<and> length (inputs_of gate) > 1) GateMustOneInput,
        fails (length (OutputNodes gate) > 1 \<and> \<not> relationGateOperator (gate_Operator gate)) GateOneOutput]"

fun check_gates :: "string boolmap \<Rightarrow> nat \<Rightarrow> string boolmap \<Rightarrow> (string \<rightharpoonup> string) \<Rightarrow> logic_gate list \<Rightarrow> storage_error option" where
  "check_gates ids index gateIDs owner [] = None"
| "check_gates ids index gateIDs owner (gate # gates) =
     (case check_gate ids gateIDs index gate of
        Some err \<Rightarrow> Some (BadGate (gate_ID gate) err)
      | None \<Rightarrow>
          (case check_outputs ids (gate_ID gate) no_keys owner (OutputNodes gate) of
             Inl err \<Rightarrow> Some (BadGate (gate_ID gate) err)
           | Inr owner' \<Rightarrow>
               if length (gate_Applied gate) > text_limit then Some (BadGate (gate_ID gate) GateOversizedApplied)
               else check_gates ids (index + 1) (gateIDs(gate_ID gate := True)) owner' gates))"

definition check_plan :: "string boolmap \<Rightarrow> string \<times> plan_milestone list \<Rightarrow> storage_error option" where
  "check_plan known ip =
     (case ip of (i, plans) \<Rightarrow>
        first_error
          (fails (length plans > 32) (TooManyMilestones i) #
           concat (map (\<lambda>p. [fails (\<not> known (plan_Status p)) (InvalidMilestone i (plan_Status p)),
                             fails (length (plan_Note p) > 4096) (OversizedPlanNote i)]) plans)))"

definition css_char :: "char \<Rightarrow> bool" where
  "css_char c \<longleftrightarrow> is_alnum c \<or> c \<in> set ''#(),.% -''"

definition safeCSSColor :: "string \<Rightarrow> bool" where
  "safeCSSColor v \<longleftrightarrow> length v \<le> 32 \<and> list_all css_char v"

definition check_style :: "string boolmap \<Rightarrow> string \<times> node_style \<Rightarrow> storage_error option" where
  "check_style ids ip =
     (case ip of (i, s) \<Rightarrow>
        first_error
          [fails (\<not> ids i) (StyleOfUnknownNode i),
           fails (not_finite (style_Width s) \<or> not_finite (style_Height s) \<or>
                  outside (style_Width s) 120 360 \<or> outside (style_Height s) 52 180) (BadStyleSize i),
           fails (\<not> safeCSSColor (style_Color s) \<or> \<not> safeCSSColor (style_TextColor s) \<or> \<not> safeCSSColor (style_BorderColor s))
             (BadStyleColor i)])"

record stored_decoration =
  dec_ID :: string
  dec_X :: float64
  dec_Y :: float64
  dec_Width :: float64
  dec_Height :: float64
  dec_Text :: string
  dec_Color :: string

definition bad_box :: "stored_decoration \<Rightarrow> bool" where
  "bad_box d \<longleftrightarrow>
     not_finite (dec_X d) \<or> not_finite (dec_Y d) \<or> not_finite (dec_Width d) \<or> not_finite (dec_Height d) \<or>
     f64_lt (dec_X d) (Fin 0) \<or> f64_lt (dec_Y d) (Fin 0) \<or>
     f64_lt (dec_Width d) (Fin 80) \<or> f64_lt (Fin 10000) (dec_Width d) \<or>
     f64_lt (dec_Height d) (Fin 60) \<or> f64_lt (Fin 10000) (dec_Height d)"

fun check_boxes :: "string boolmap \<Rightarrow> stored_decoration list \<Rightarrow> storage_error option" where
  "check_boxes ids [] = None"
| "check_boxes ids (d # ds) =
     (if \<not> ValidNodeID (dec_ID d) then Some (InvalidDecorationID (dec_ID d))
      else if ids (dec_ID d) then Some (DuplicateDecorationID (dec_ID d))
      else if bad_box d then Some (BadDecorationGeometry (dec_ID d))
      else if length (dec_Text d) > text_limit then Some (OversizedDecoration (dec_ID d))
      else if \<not> safeCSSColor (dec_Color d) then Some (BadDecorationColor (dec_ID d))
      else check_boxes (ids(dec_ID d := True)) ds)"

definition boxes_of :: "ui_state \<Rightarrow> stored_decoration list" where
  "boxes_of ui =
     map (\<lambda>b. \<lparr>dec_ID = group_ID b, dec_X = group_X b, dec_Y = group_Y b, dec_Width = group_Width b,
               dec_Height = group_Height b, dec_Text = group_Title b, dec_Color = group_Color b\<rparr>) (ui_Groups ui) @
     map (\<lambda>b. \<lparr>dec_ID = annot_ID b, dec_X = annot_X b, dec_Y = annot_Y b, dec_Width = annot_Width b,
               dec_Height = annot_Height b, dec_Text = annot_Text b, dec_Color = annot_Color b\<rparr>) (ui_Annotations ui)"

fun check_views :: "string boolmap \<Rightarrow> saved_view list \<Rightarrow> storage_error option" where
  "check_views ids [] = None"
| "check_views ids (v # vs) =
     (if \<not> ValidNodeID (view_ID v) \<or> trim_space (view_Name v) = [] \<or> length (view_Name v) > 128 then Some (BadView (view_ID v))
      else if ids (view_ID v) then Some (DuplicateView (view_ID v))
      else if view_Sort v \<notin> {[], ''manual'', ''title'', ''priority'', ''status'', ''assignee''}
      then Some (BadViewSort (view_ID v) (view_Sort v))
      else check_views (ids(view_ID v := True)) vs)"

definition check_ui :: "string boolmap \<Rightarrow> ui_state \<Rightarrow> storage_error option" where
  "check_ui ids ui =
     (let known = (\<lambda>s. builtin_plan_statuses s \<or> s \<in> psd_ID ` set (ui_PlanStatuses ui)) in
      first_error
        ([fails (length (ui_TimelineOrder ui) > MaxGraphNodes) TimelineTooLong,
          check_timeline ids no_keys (ui_TimelineOrder ui),
          fails (length (ui_Gates ui) > MaxGraphNodes) TooManyPlacements] @
         map (check_placement ids) (ui_Gates ui) @
         [fails (length (ui_PlanStatuses ui) > 64) TooManyPlanStatusDefs,
          check_plan_statuses builtin_plan_statuses no_keys (ui_PlanStatuses ui),
          fails (length (ui_LogicGates ui) > maxLogicGates) TooManyGates,
          check_gates ids 0 no_keys Map.empty (ui_LogicGates ui)] @
         map (check_plan known) (ui_Plans ui) @
         [fails (length (ui_NodeStyles ui) > MaxGraphNodes) TooManyStyles,
          fails (length (ui_EntryOverrides ui) > MaxGraphNodes) TooManyOverrides] @
         map (\<lambda>(i, _). fails (\<not> ids i) (OverrideUnknownNode i)) (ui_EntryOverrides ui) @
         map (check_style ids) (ui_NodeStyles ui) @
         [fails (length (ui_Groups ui) > 512 \<or> length (ui_Annotations ui) > 512) TooManyDecorations,
          check_boxes no_keys (boxes_of ui),
          fails (length (ui_SavedViews ui) > 128) TooManyViews,
          check_views no_keys (ui_SavedViews ui)]))"

section \<open>The whole check\<close>

definition node_ids_of :: "graph \<Rightarrow> string boolmap" where
  "node_ids_of g i \<longleftrightarrow> i \<in> node_ID ` set (nodes_of g)"

definition sizes_error :: "graph \<Rightarrow> storage_error option" where
  "sizes_error g =
     first_error
       ([fails (length (graph_Nodes g) > MaxGraphNodes) TooManyNodes,
         fails (length (graph_Edges g) > maxGraphEdges) TooManyEdges,
         fails (length (gates_of g) > maxLogicGates) TooManyGates] @
        map checkNodeTextSize (nodes_of g))"

definition left_error :: "('e \<Rightarrow> storage_error) \<Rightarrow> 'e + 'a \<Rightarrow> storage_error option" where
  "left_error f r = (case r of Inl e \<Rightarrow> Some (f e) | Inr _ \<Rightarrow> None)"

definition parts_error :: "graph \<Rightarrow> storage_error option" where
  "parts_error g =
     first_error
       ([fails (length (graph_Edges g) > maxGraphEdges) TooManyEdges,
         fails (length (graph_Users g) > maxGraphUsers) TooManyUsers,
         left_error BadTypeDefs (ValidateNodeTypeDefs (graph_NodeTypes g)),
         fails (\<not> ValidOfficeStyle (graph_OfficeStyle g)) (UnknownOfficeStyle (graph_OfficeStyle g)),
         left_error BadRoleDefs (ValidateAgentRoleDefs (graph_AgentRoles g)),
         left_error BadWorkflows (ValidateGraphWorkflows (Some g))] @
        map (criteria_error g) (nodes_of g) @
        [check_users 0 no_keys no_keys (graph_Users g),
         check_nodes (\<lambda>u. u \<in> user_ID ` set (graph_Users g)) 0 no_keys (graph_Nodes g)] @
        map check_edge (enumerate 0 (graph_Edges g)) @
        [case graph_UI g of None \<Rightarrow> None | Some ui \<Rightarrow> check_ui (node_ids_of g) ui])"

definition stored_node :: "node \<Rightarrow> node" where
  "stored_node n = normalize_access (number_criteria n)"

definition ValidateGraphForStorage :: "graph option \<Rightarrow> storage_error + graph" where
  "ValidateGraphForStorage go =
     (case go of
        None \<Rightarrow> Inl GraphNull
      | Some g \<Rightarrow>
          (case sizes_error g of
             Some err \<Rightarrow> Inl err
           | None \<Rightarrow>
               let g = pruneEdgeDecorations (materializeRequiresWires g)
               in (case parts_error g of
                     Some err \<Rightarrow> Inl err
                   | None \<Rightarrow> Inr (g\<lparr>graph_Nodes := map (map_option stored_node) (graph_Nodes g)\<rparr>))))"

end
