(* ===== verification/Graph_Ops.thy ===== *)
theory Graph_Ops
  imports Storage_Check Workspace_Defs
begin

text \<open>
  The commands clients edit a graph with (\<^verbatim>\<open>internal/store/graph_ops.go\<close>). A command works on the graph and on the set of
  nodes whose documents have to be rewritten; the first refusal drops both. One definition per command kind.
\<close>

section \<open>Commands and refusals\<close>

definition maxGraphOps :: nat where "maxGraphOps = 2000"

record graph_op =
  op_Kind :: string
  op_NodeID :: string
  op_X :: "float64 option"
  op_Y :: "float64 option"
  op_Width :: "float64 option"
  op_Height :: "float64 option"
  op_Title :: "string option"
  op_NodeKind :: "string option"
  op_Priority :: "string option"
  op_Assignee :: "string option"
  op_Deadline :: "string option"
  op_WriteAccess :: "string option"
  op_Tags :: "string list option"
  op_From :: string
  op_To :: string
  op_Relation :: "string option"
  op_Line :: "string option"
  op_Order :: "string list"
  op_Ref :: string
  op_Acceptance :: "acceptance option"
  op_Workflow :: "workflow option"
  op_AgentRoles :: "agent_role_def list"

text \<open>\<open>NilNode\<close> is the run-time panic of a nil pointer, which abandons the whole commit.\<close>

datatype op_error =
    MissingNode string
  | NeedsFinite string
  | Refused denial
  | BadWriteAccess string
  | MissingEdgeNode string string
  | DependsOnSelf
  | GateControls string string string
  | WouldCycle string string "string list"
  | BadRequires string parse_error
  | NeedsRelationOrLine
  | MissingEdge string string
  | MissingReference string
  | ReferencesSelf
  | TooManyReferences string
  | BadAcceptance acceptance_error
  | BadWorkflow workflow_error
  | NotAutopilotNode string
  | BadRoles "role_problem list"
  | UnknownOperation string
  | NilNode

type_synonym op_state = "graph \<times> string boolmap"
type_synonym op_result = "op_error + op_state"

definition permitted :: "denial option \<Rightarrow> op_error + 'a \<Rightarrow> op_error + 'a" where
  "permitted d r = (case d of Some err \<Rightarrow> Inl (Refused err) | None \<Rightarrow> r)"

lemma permitted_Inr [simp]: "permitted d r = Inr a \<longleftrightarrow> d = None \<and> r = Inr a"
  by (simp add: permitted_def split: option.split)

definition with_node :: "graph \<Rightarrow> string \<Rightarrow> (node \<Rightarrow> op_error + 'a) \<Rightarrow> op_error + 'a" where
  "with_node g i f = (case NodeByID g i of None \<Rightarrow> Inl (MissingNode i) | Some n \<Rightarrow> f n)"

lemma with_node_Inr [simp]: "with_node g i f = Inr a \<longleftrightarrow> (\<exists>n. NodeByID g i = Some n \<and> f n = Inr a)"
  by (simp add: with_node_def split: option.split)

text \<open>Writing through the pointers the lookups return.\<close>

definition write_node :: "node \<Rightarrow> graph \<Rightarrow> graph" where
  "write_node n g = g\<lparr>graph_Nodes := update_first (node_ID n) (\<lambda>_. n) (graph_Nodes g)\<rparr>"

fun update_edge :: "string \<Rightarrow> string \<Rightarrow> (edge \<Rightarrow> edge) \<Rightarrow> edge option list \<Rightarrow> edge option list" where
  "update_edge src to f [] = []"
| "update_edge src to f (None # es) = None # update_edge src to f es"
| "update_edge src to f (Some e # es) =
     (if edge_From e = src \<and> edge_To e = to then Some (f e) # es else Some e # update_edge src to f es)"

definition find_edge :: "graph \<Rightarrow> string \<Rightarrow> string \<Rightarrow> edge option" where
  "find_edge g src to = first_match (\<lambda>e. edge_From e = src \<and> edge_To e = to) (List.map_filter id (graph_Edges g))"

text \<open>\<^verbatim>\<open>graph.UI\<close> is never nil here: \<^verbatim>\<open>applyGraphOpsLocked\<close> creates it.\<close>

definition map_ui :: "(ui_state \<Rightarrow> ui_state) \<Rightarrow> graph \<Rightarrow> graph" where
  "map_ui f g = g\<lparr>graph_UI := map_option f (graph_UI g)\<rparr>"

definition gomap_delete :: "'k \<Rightarrow> ('k, 'v) gomap \<Rightarrow> ('k, 'v) gomap" where
  "gomap_delete k m = filter (\<lambda>(k', _). k' \<noteq> k) m"

definition finite_opt :: "float64 option \<Rightarrow> bool" where
  "finite_opt x = (case x of None \<Rightarrow> False | Some x \<Rightarrow> \<not> not_finite x)"

definition zero_style :: node_style where
  "zero_style = \<lparr>style_Width = Fin 0, style_Height = Fin 0, style_Color = [], style_TextColor = [], style_BorderColor = [],
     style_Align = [], style_VAlign = [], style_Shape = []\<rparr>"

section \<open>Arranging the board\<close>

definition op_move :: "graph_op \<Rightarrow> op_state \<Rightarrow> op_result" where
  "op_move op st =
     (case st of (g, touched) \<Rightarrow>
        with_node g (op_NodeID op) (\<lambda>_.
          refuse_if (\<not> finite_opt (op_X op) \<or> \<not> finite_opt (op_Y op)) (NeedsFinite ''move'')
            (Inr (map_ui (\<lambda>ui. ui\<lparr>ui_Positions :=
                     gomap_put (op_NodeID op) \<lparr>pos_X = the (op_X op), pos_Y = the (op_Y op)\<rparr> (ui_Positions ui)\<rparr>) g, touched))))"

definition op_node_size :: "graph_op \<Rightarrow> op_state \<Rightarrow> op_result" where
  "op_node_size op st =
     (case st of (g, touched) \<Rightarrow>
        with_node g (op_NodeID op) (\<lambda>_.
          refuse_if (\<not> finite_opt (op_Width op) \<or> \<not> finite_opt (op_Height op)) (NeedsFinite ''node-size'')
            (Inr (map_ui (\<lambda>ui.
                     let style = (case map_of (ui_NodeStyles ui) (op_NodeID op) of Some s \<Rightarrow> s | None \<Rightarrow> zero_style)
                     in ui\<lparr>ui_NodeStyles := gomap_put (op_NodeID op)
                            (style\<lparr>style_Width := the (op_Width op), style_Height := the (op_Height op)\<rparr>) (ui_NodeStyles ui)\<rparr>) g,
                  touched))))"

definition op_timeline_order :: "graph_op \<Rightarrow> op_state \<Rightarrow> op_result" where
  "op_timeline_order op st =
     (case st of (g, touched) \<Rightarrow>
        (case first_match (\<lambda>i. NodeByID g i = None) (op_Order op) of
           Some i \<Rightarrow> Inl (MissingNode i)
         | None \<Rightarrow> Inr (map_ui (\<lambda>ui. ui\<lparr>ui_TimelineOrder := op_Order op\<rparr>) g, touched)))"

section \<open>Node fields\<close>

definition set_access :: "graph_op \<Rightarrow> node \<Rightarrow> op_error + node" where
  "set_access op n =
     (case op_WriteAccess op of
        None \<Rightarrow> Inr n
      | Some v \<Rightarrow>
          if normalizeWriteAccess v \<in> {[], ''worker'', ''orchestrator'', ''human-only''}
          then Inr (n\<lparr>node_WriteAccess := normalizeWriteAccess v\<rparr>)
          else Inl (BadWriteAccess v))"

definition set_kind :: "actor \<Rightarrow> graph \<Rightarrow> graph_op \<Rightarrow> node \<Rightarrow> op_error + node" where
  "set_kind a g op n =
     (case op_NodeKind op of
        None \<Rightarrow> Inr n
      | Some v \<Rightarrow>
          let kind = NormalizeNodeKind v
          in refuse_if (\<not> KnownNodeKind (Some g) kind \<and> kind \<noteq> node_Kind n) (Refused (unknownNodeTypeError (node_ID n) kind))
               (permitted (checkKindChange a g (node_Kind n) kind) (Inr (n\<lparr>node_Kind := kind\<rparr>))))"

definition set_plain_fields :: "graph_op \<Rightarrow> node \<Rightarrow> node" where
  "set_plain_fields op n =
     n\<lparr>node_Priority := (case op_Priority op of Some v \<Rightarrow> v | None \<Rightarrow> node_Priority n),
       node_Assignee := (case op_Assignee op of Some v \<Rightarrow> v | None \<Rightarrow> node_Assignee n),
       node_Deadline := (case op_Deadline op of Some v \<Rightarrow> v | None \<Rightarrow> node_Deadline n),
       node_Tags := (case op_Tags op of Some v \<Rightarrow> v | None \<Rightarrow> node_Tags n)\<rparr>"

definition op_node_metadata :: "actor \<Rightarrow> graph_op \<Rightarrow> op_state \<Rightarrow> op_result" where
  "op_node_metadata a op st =
     (case st of (g, touched) \<Rightarrow>
        with_node g (op_NodeID op) (\<lambda>n.
          permitted (checkNodeWrite a (Some n))
            (permitted (checkRole a g ''meta'' (Some n))
              (sbind (set_access op n) (\<lambda>n1.
                 let n2 = (case op_Title op of Some v \<Rightarrow> n1\<lparr>node_Title := v\<rparr> | None \<Rightarrow> n1)
                 in sbind (set_kind a g op n2) (\<lambda>n3.
                      Inr (write_node (set_plain_fields op n3) g, touched(node_ID n := True))))))))"

section \<open>Wires\<close>

definition change_requires ::
  "(node \<Rightarrow> string \<Rightarrow> parse_error + node \<times> bool) \<Rightarrow> node \<Rightarrow> string \<Rightarrow> op_state \<Rightarrow> op_result" where
  "change_requires edit n src st =
     (case st of (g, touched) \<Rightarrow>
        (case edit n src of
           Inl err \<Rightarrow> Inl (BadRequires (node_ID n) err)
         | Inr (n', changed) \<Rightarrow> Inr (write_node n' g, if changed then touched(node_ID n := True) else touched)))"

definition op_add_edge :: "(nat \<Rightarrow> bool) \<Rightarrow> actor \<Rightarrow> graph_op \<Rightarrow> op_state \<Rightarrow> op_result" where
  "op_add_edge ip a op st =
     (case st of (g, touched) \<Rightarrow>
        let src = op_From op; to = op_To op in
        (case NodeByID g to of
           None \<Rightarrow> Inl (MissingEdgeNode src to)
         | Some target \<Rightarrow>
             refuse_if (NodeByID g src = None) (MissingEdgeNode src to)
            (permitted (checkNodeWrite a (Some target))
            (permitted (checkRoleLink a g (Some target) False)
            (refuse_if (src = to) DependsOnSelf
            (refuse_if (booleanGateForOutput g to \<noteq> []) (GateControls src to (booleanGateForOutput g to))
            (refuse_if (logicGateOwningEdge g src to \<noteq> []) (GateControls src to (logicGateOwningEdge g src to))
            (case (if dependsOn g target src then None else refuseDependencyCycle g src to) of
               Some hops \<Rightarrow> Inl (WouldCycle src to hops)
             | None \<Rightarrow>
                 if find_edge g src to \<noteq> None
                 then change_requires (appendNodeRequirement ip) target src
                        (g\<lparr>graph_Edges := update_edge src to (\<lambda>e. e\<lparr>edge_Relation := RelationRequired\<rparr>) (graph_Edges g)\<rparr>, touched)
                 else sbind (change_requires (appendNodeRequirement ip) target src (g, touched)) (\<lambda>(g', touched').
                        Inr (g'\<lparr>graph_Edges := graph_Edges g' @
                               [Some \<lparr>edge_From = src, edge_To = to, edge_Relation = RelationRequired, edge_Line = []\<rparr>]\<rparr>,
                             touched'))))))))))"

definition is_wire :: "string \<Rightarrow> string \<Rightarrow> edge option \<Rightarrow> bool" where
  "is_wire src to eo = (case eo of None \<Rightarrow> False | Some e \<Rightarrow> edge_From e = src \<and> edge_To e = to)"

definition drop_wire :: "string \<Rightarrow> string \<Rightarrow> graph \<Rightarrow> graph" where
  "drop_wire src to g =
     (let kept = filter (\<lambda>eo. \<not> is_wire src to eo) (graph_Edges g);
          hasIncoming = list_ex (\<lambda>eo. case eo of None \<Rightarrow> False | Some e \<Rightarrow> edge_To e = to) kept
      in map_ui (\<lambda>ui.
           let ui = ui\<lparr>ui_WireVertices := gomap_delete (wire_key src to) (ui_WireVertices ui),
                       ui_EdgeLabels := gomap_delete (wire_key src to) (ui_EdgeLabels ui)\<rparr>
           in if hasIncoming then ui
              else ui\<lparr>ui_Gates := gomap_delete to (ui_Gates ui),
                      ui_WireVertices := gomap_delete (''gate:'' @ to) (ui_WireVertices ui)\<rparr>)
         (g\<lparr>graph_Edges := kept\<rparr>))"

definition op_remove_edge :: "(nat \<Rightarrow> bool) \<Rightarrow> actor \<Rightarrow> graph_op \<Rightarrow> op_state \<Rightarrow> op_result" where
  "op_remove_edge ip a op st =
     (case st of (g, touched) \<Rightarrow>
        let src = op_From op; to = op_To op; wires = filter (is_wire src to) (graph_Edges g);
            required = list_ex Blocks wires in
        (case NodeByID g to of
           None \<Rightarrow> Inl (MissingEdgeNode src to)
         | Some target \<Rightarrow>
             refuse_if (NodeByID g src = None) (MissingEdgeNode src to)
            (permitted (checkNodeWrite a (Some target))
            (permitted (checkRoleLink a g (Some target) False)
            (refuse_if (logicGateOwningEdge g src to \<noteq> []) (GateControls src to (logicGateOwningEdge g src to))
            (refuse_if (booleanGateForOutput g to \<noteq> [] \<and> required) (GateControls src to (booleanGateForOutput g to))
            (if required \<or> (wires = [] \<and> nodeRequiresRef target src)
             then change_requires (pruneNodeRequirement ip) target src (drop_wire src to g, touched)
             else Inr (drop_wire src to g, touched))))))))"

definition change_relation :: "(nat \<Rightarrow> bool) \<Rightarrow> string \<Rightarrow> string \<Rightarrow> string \<Rightarrow> edge \<Rightarrow> op_state \<Rightarrow> op_result" where
  "change_relation ip src to relation e st =
     (case st of (g, touched) \<Rightarrow>
        let gate = booleanGateForOutput g to; owner = logicGateOwningEdge g src to in
        if relation = edge_Relation e then Inr (g, touched)
        else
          refuse_if (owner \<noteq> []) (GateControls src to owner)
         (refuse_if (gate \<noteq> [] \<and> (Blocks (Some e) \<or> relation = RelationRequired)) (GateControls src to gate)
         (if Blocks (Some e) \<and> relation \<noteq> RelationRequired then
            (case NodeByID g to of
               None \<Rightarrow> Inl NilNode
             | Some target \<Rightarrow> change_requires (pruneNodeRequirement ip) target src (g, touched))
          else if \<not> Blocks (Some e) \<and> relation = RelationRequired then
            (case NodeByID g to of
               None \<Rightarrow> Inl NilNode
             | Some target \<Rightarrow>
                 (case (if dependsOn g target src then None else refuseDependencyCycle g src to) of
                    Some hops \<Rightarrow> Inl (WouldCycle src to hops)
                  | None \<Rightarrow> change_requires (appendNodeRequirement ip) target src (g, touched)))
          else Inr (g, touched))))"

definition restyle :: "(nat \<Rightarrow> bool) \<Rightarrow> graph_op \<Rightarrow> edge \<Rightarrow> op_state \<Rightarrow> op_result" where
  "restyle ip op e st =
     (let relation = (case op_Relation op of Some r \<Rightarrow> r | None \<Rightarrow> edge_Relation e);
          line = (case op_Line op of Some l \<Rightarrow> l | None \<Rightarrow> edge_Line e) in
      sbind (change_relation ip (op_From op) (op_To op) relation e st) (\<lambda>(g, touched).
        Inr (g\<lparr>graph_Edges := update_edge (op_From op) (op_To op)
                 (\<lambda>e. e\<lparr>edge_Relation := relation, edge_Line := line\<rparr>) (graph_Edges g)\<rparr>, touched)))"

definition op_set_edge_style :: "(nat \<Rightarrow> bool) \<Rightarrow> actor \<Rightarrow> graph_op \<Rightarrow> op_state \<Rightarrow> op_result" where
  "op_set_edge_style ip a op st =
     (case st of (g, touched) \<Rightarrow>
        let src = op_From op; to = op_To op;
            allowed = (\<lambda>r. permitted (checkNodeWrite a (NodeByID g to)) (permitted (checkRoleLink a g (NodeByID g to) False) r)) in
        refuse_if (op_Relation op = None \<and> op_Line op = None) NeedsRelationOrLine
          (case find_edge g src to of
             Some e \<Rightarrow> allowed (restyle ip op e (g, touched))
           | None \<Rightarrow>
               if NodeByID g src = None then Inl (MissingEdge src to)
               else (case NodeByID g to of
                       None \<Rightarrow> Inl NilNode
                     | Some target \<Rightarrow>
                         refuse_if (\<not> nodeRequiresRef target src) (MissingEdge src to)
                           (allowed
                             (refuse_if (requiresWireGate g src to \<noteq> []) (GateControls src to (requiresWireGate g src to))
                               (let e = \<lparr>edge_From = src, edge_To = to, edge_Relation = RelationRequired, edge_Line = []\<rparr>
                                in restyle ip op e (g\<lparr>graph_Edges := graph_Edges g @ [Some e]\<rparr>, touched)))))))"

section \<open>References\<close>

definition op_add_ref :: "actor \<Rightarrow> graph_op \<Rightarrow> op_state \<Rightarrow> op_result" where
  "op_add_ref a op st =
     (case st of (g, touched) \<Rightarrow>
        with_node g (op_NodeID op) (\<lambda>n.
          permitted (checkNodeWrite a (Some n))
         (permitted (checkRoleLink a g (Some n) True)
         (refuse_if (NodeByID g (op_Ref op) = None) (MissingReference (op_Ref op))
         (refuse_if (op_Ref op = node_ID n) ReferencesSelf
         (if HasRef (Some n) (op_Ref op) then Inr (g, touched)
          else refuse_if (length (node_Refs n) \<ge> maxNodeRefs) (TooManyReferences (node_ID n))
                 (Inr (write_node (n\<lparr>node_Refs := node_Refs n @ [op_Ref op]\<rparr>) g, touched(node_ID n := True)))))))))"

definition op_remove_ref :: "actor \<Rightarrow> graph_op \<Rightarrow> op_state \<Rightarrow> op_result" where
  "op_remove_ref a op st =
     (case st of (g, touched) \<Rightarrow>
        with_node g (op_NodeID op) (\<lambda>n.
          permitted (checkNodeWrite a (Some n))
         (permitted (checkRoleLink a g (Some n) True)
         (if \<not> HasRef (Some n) (op_Ref op) then Inr (g, touched)
          else Inr (write_node (n\<lparr>node_Refs := filter (\<lambda>r. r \<noteq> op_Ref op) (node_Refs n)\<rparr>) g, touched(node_ID n := True))))))"

section \<open>Criteria, workflow and roles\<close>

definition checked :: "('x \<Rightarrow> op_error) \<Rightarrow> 'x + unit \<Rightarrow> op_error + 'a \<Rightarrow> op_error + 'a" where
  "checked f c r = (case c of Inl err \<Rightarrow> Inl (f err) | Inr _ \<Rightarrow> r)"

lemma checked_Inr [simp]: "checked f c r = Inr a \<longleftrightarrow> c = Inr () \<and> r = Inr a"
  by (simp add: checked_def split: sum.split)

definition attribute_criteria :: "actor \<Rightarrow> acceptance option \<Rightarrow> acceptance option \<Rightarrow> acceptance option" where
  "attribute_criteria a before after =
     (case after of
        None \<Rightarrow> None
      | Some aft \<Rightarrow>
          if \<not> IsAgent a then Some aft
          else if EqualItems (Some aft) before \<and> before \<noteq> None then Some (aft\<lparr>acc_By := acc_By (the before)\<rparr>)
          else Some (aft\<lparr>acc_By := acceptanceAttribution a\<rparr>))"

text \<open>\<open>createdBy i\<close>: the acting run created the node \<open>i\<close>.\<close>

definition op_acceptance :: "(string \<Rightarrow> bool) \<Rightarrow> actor \<Rightarrow> graph_op \<Rightarrow> op_state \<Rightarrow> op_result" where
  "op_acceptance createdBy a op st =
     (case st of (g, touched) \<Rightarrow>
        with_node g (op_NodeID op) (\<lambda>n.
          permitted (checkNodeWrite a (Some n))
            (let before = node_Acceptance n; after = normalizeAcceptance a before (op_Acceptance op)
             in permitted (checkAcceptanceWrite a g (Some n) before after (createdBy (node_ID n)))
                  (let n' = n\<lparr>node_Acceptance := attribute_criteria a before after\<rparr>; g' = write_node n' g
                   in checked BadAcceptance (ValidateNodeAcceptance (Some g') (Some n')) (Inr (g', touched))))))"

definition op_workflow :: "actor \<Rightarrow> graph_op \<Rightarrow> op_state \<Rightarrow> op_result" where
  "op_workflow a op st =
     (case st of (g, touched) \<Rightarrow>
        permitted (checkWorkflowEdit a [] (graph_Workflow g) (op_Workflow op))
          (checked BadWorkflow (ValidateWorkflow (op_Workflow op)) (Inr (g\<lparr>graph_Workflow := op_Workflow op\<rparr>, touched))))"

definition op_node_workflow :: "actor \<Rightarrow> graph_op \<Rightarrow> op_state \<Rightarrow> op_result" where
  "op_node_workflow a op st =
     (case st of (g, touched) \<Rightarrow>
        with_node g (op_NodeID op) (\<lambda>n.
          permitted (checkNodeWrite a (Some n))
         (permitted (checkWorkflowEdit a (node_ID n) (node_Workflow n) (op_Workflow op))
         (refuse_if (op_Workflow op \<noteq> None \<and> nt_AgentMode (TypeOf (Some g) (Some n)) \<noteq> AgentAutopilot)
            (NotAutopilotNode (node_ID n))
            (checked BadWorkflow (ValidateWorkflow (op_Workflow op))
              (Inr (write_node (n\<lparr>node_Workflow := op_Workflow op\<rparr>) g, touched)))))))"

definition op_agent_roles :: "actor \<Rightarrow> graph_op \<Rightarrow> op_state \<Rightarrow> op_result" where
  "op_agent_roles a op st =
     (case st of (g, touched) \<Rightarrow>
        permitted (checkAgentRolesEdit a (graph_AgentRoles g) (op_AgentRoles op))
          (checked BadRoles (ValidateAgentRoleDefs (op_AgentRoles op))
            (Inr (g\<lparr>graph_AgentRoles := op_AgentRoles op\<rparr>, touched))))"

section \<open>One command\<close>

definition applyGraphOp ::
  "(nat \<Rightarrow> bool) \<Rightarrow> (string \<Rightarrow> bool) \<Rightarrow> actor \<Rightarrow> graph_op \<Rightarrow> op_state \<Rightarrow> op_result" where
  "applyGraphOp ip createdBy a op st =
     (if op_Kind op = ''move'' then op_move op st
      else if op_Kind op = ''node-size'' then op_node_size op st
      else if op_Kind op = ''node-metadata'' then op_node_metadata a op st
      else if op_Kind op = ''add-edge'' then op_add_edge ip a op st
      else if op_Kind op = ''remove-edge'' then op_remove_edge ip a op st
      else if op_Kind op = ''set-edge-style'' then op_set_edge_style ip a op st
      else if op_Kind op = ''add-ref'' then op_add_ref a op st
      else if op_Kind op = ''remove-ref'' then op_remove_ref a op st
      else if op_Kind op = ''timeline-order'' then op_timeline_order op st
      else if op_Kind op = ''acceptance'' then op_acceptance createdBy a op st
      else if op_Kind op = ''workflow'' then op_workflow a op st
      else if op_Kind op = ''node-workflow'' then op_node_workflow a op st
      else if op_Kind op = ''agent-roles'' then op_agent_roles a op st
      else Inl (UnknownOperation (trim_space (op_Kind op))))"

fun apply_ops ::
  "(nat \<Rightarrow> bool) \<Rightarrow> (string \<Rightarrow> bool) \<Rightarrow> actor \<Rightarrow> graph_op list \<Rightarrow> op_state \<Rightarrow> op_result" where
  "apply_ops ip createdBy a [] st = Inr st"
| "apply_ops ip createdBy a (op # ops) st =
     sbind (applyGraphOp ip createdBy a op st) (apply_ops ip createdBy a ops)"

section \<open>One call and one commit\<close>

datatype ops_error = NoOperations | TooManyOperations | OpFailed op_error | NotStorable storage_error

text \<open>\<open>creators i\<close> is the run recorded as the creator of the node \<open>i\<close>.\<close>

definition createdByActorRunLocked :: "(string \<Rightarrow> string) \<Rightarrow> actor \<Rightarrow> string \<Rightarrow> bool" where
  "createdByActorRunLocked creators a i =
     (if \<not> HasRole a \<or> actor_RunID a = [] then False else creators i = actor_RunID a)"

definition ensure_ui :: "graph \<Rightarrow> graph" where
  "ensure_ui g = (if graph_UI g = None then g\<lparr>graph_UI := Some empty_ui\<rparr> else g)"

definition applyGraphOpsLocked ::
  "(nat \<Rightarrow> bool) \<Rightarrow> (string \<Rightarrow> string) \<Rightarrow> actor \<Rightarrow> graph_op list \<Rightarrow> op_state \<Rightarrow> ops_error + op_state" where
  "applyGraphOpsLocked ip creators a ops st =
     (case st of (g, touched) \<Rightarrow>
        (case apply_ops ip (createdByActorRunLocked creators a) a ops (ensure_ui g, touched) of
           Inl err \<Rightarrow> Inl (OpFailed err)
         | Inr (g', touched') \<Rightarrow>
             (case ValidateGraphForStorage (NormalizeLogicGates (Some g')) of
                Inl err \<Rightarrow> Inl (NotStorable err)
              | Inr stored \<Rightarrow> Inr (stored, touched'))))"

text \<open>The answer of one call; \<open>Abandoned\<close> is what the calls of a batch get whose leader panicked.\<close>

datatype verdict = Accepted "string boolmap" | Failed ops_error | CommitFailed | Abandoned

type_synonym ops_call = "actor \<times> graph_op list"

text \<open>The loop over the calls: the graph as the accepted ones leave it, the answers, and whether a call panicked.\<close>

fun apply_batch ::
  "(nat \<Rightarrow> bool) \<Rightarrow> (string \<Rightarrow> string) \<Rightarrow> graph \<Rightarrow> ops_call list \<Rightarrow> graph \<times> verdict list \<times> bool" where
  "apply_batch ip creators g [] = (g, [], False)"
| "apply_batch ip creators g ((a, ops) # calls) =
     (case applyGraphOpsLocked ip creators a ops (g, no_keys) of
        Inl err \<Rightarrow>
          if err = OpFailed NilNode then (g, map (\<lambda>_. Abandoned) ((a, ops) # calls), True)
          else (case apply_batch ip creators g calls of (g', vs, p) \<Rightarrow> (g', Failed err # vs, p))
      | Inr (g1, touched) \<Rightarrow>
          (case apply_batch ip creators g1 calls of (g', vs, p) \<Rightarrow> (g', Accepted touched # vs, p)))"

definition is_accepted :: "verdict \<Rightarrow> bool" where
  "is_accepted v = (case v of Accepted _ \<Rightarrow> True | _ \<Rightarrow> False)"

definition unless_refused :: "verdict \<Rightarrow> verdict \<Rightarrow> verdict" where
  "unless_refused v w = (case w of Failed _ \<Rightarrow> w | _ \<Rightarrow> v)"

text \<open>\<open>written\<close> says whether marshalling and the writes of the commit succeed; the first component is what is on disk then.\<close>

definition applyGraphOpsBatchLocked ::
  "(nat \<Rightarrow> bool) \<Rightarrow> (string \<Rightarrow> string) \<Rightarrow> bool \<Rightarrow> graph \<Rightarrow> ops_call list \<Rightarrow> graph \<times> verdict list" where
  "applyGraphOpsBatchLocked ip creators written g calls =
     (case apply_batch ip creators g calls of (g', vs, panicked) \<Rightarrow>
        if panicked then (g, map (unless_refused Abandoned) vs)
        else if \<not> list_ex is_accepted vs then (g, vs)
        else if written then (g', vs)
        else (g, map (unless_refused CommitFailed) vs))"

definition ApplyGraphOpsSynced ::
  "(nat \<Rightarrow> bool) \<Rightarrow> (string \<Rightarrow> string) \<Rightarrow> bool \<Rightarrow> graph \<Rightarrow> ops_call \<Rightarrow> graph \<times> verdict" where
  "ApplyGraphOpsSynced ip creators written g call =
     (if length (snd call) = 0 then (g, Failed NoOperations)
      else if length (snd call) > maxGraphOps then (g, Failed TooManyOperations)
      else (case applyGraphOpsBatchLocked ip creators written g [call] of (g', vs) \<Rightarrow> (g', hd vs)))"

end
