(* ===== verification/Graph_Ops_Facts.thy ===== *)
theory Graph_Ops_Facts
  imports Graph_Ops Dsl_Roundtrip
begin

text \<open>
  What every accepted sequence of graph commands guarantees, whoever sends it: nodes the sender may not write stay as they
  are, and no dependency cycle appears.
\<close>

section \<open>What commands do to the nodes\<close>

text \<open>
  Each command keeps the list of nodes position by position, with their ids, and changes only nodes the actor may
  write.
\<close>

definition may_become :: "actor \<Rightarrow> node option \<Rightarrow> node option \<Rightarrow> bool" where
  "may_become a x y \<longleftrightarrow> x = y \<or> (checkNodeWrite a x = None \<and> map_option node_ID x = map_option node_ID y)"

definition nodes_step :: "actor \<Rightarrow> graph \<Rightarrow> graph \<Rightarrow> bool" where
  "nodes_step a g g' \<longleftrightarrow> list_all2 (may_become a) (graph_Nodes g) (graph_Nodes g')"

lemma may_become_trans: "may_become a x y \<Longrightarrow> may_become a y z \<Longrightarrow> may_become a x z"
  by (auto simp: may_become_def)

lemma nodes_step_refl: "graph_Nodes g' = graph_Nodes g \<Longrightarrow> nodes_step a g g'"
  by (simp add: nodes_step_def may_become_def list_all2_same)

lemma nodes_step_trans: "nodes_step a g g1 \<Longrightarrow> nodes_step a g1 g2 \<Longrightarrow> nodes_step a g g2"
  unfolding nodes_step_def by (rule list_all2_trans [OF may_become_trans])

lemma may_become_refl [simp]: "may_become a x x"
  by (simp add: may_become_def)

lemma first_node_update:
  "first_match (\<lambda>n. node_ID n = i) (List.map_filter id nos) = Some n \<Longrightarrow> checkNodeWrite a (Some n) = None \<Longrightarrow> node_ID m = i \<Longrightarrow>
   list_all2 (may_become a) nos (update_first i (\<lambda>_. m) nos)"
proof (induction nos)
  case (Cons no nos)
  have rest: "list_all2 (may_become a) nos nos" by (simp add: list_all2_same)
  show ?case
  proof (cases no)
    case None
    then show ?thesis using Cons by (simp add: List.map_filter_simps)
  next
    case (Some k)
    show ?thesis
    proof (cases "node_ID k = i")
      case True
      then have "may_become a (Some k) (Some m)" using Cons.prems Some by (simp add: List.map_filter_simps may_become_def)
      then show ?thesis using Some True rest by simp
    next
      case False
      then show ?thesis using Cons Some by (simp add: List.map_filter_simps)
    qed
  qed
qed simp

lemma write_node_step:
  assumes "NodeByID g i = Some n" "checkNodeWrite a (Some n) = None" "node_ID m = node_ID n"
  shows "nodes_step a g (write_node m g)"
proof -
  have "node_ID n = i" using NodeByID_Some [OF assms(1)] by simp
  then show ?thesis
    using first_node_update [of i "graph_Nodes g" n a m] assms
    by (simp add: nodes_step_def write_node_def NodeByID_def nodes_of_def)
qed

lemma applyGraphOp_cases:
  assumes "applyGraphOp ip createdBy a op st = Inr r"
  obtains "op_move op st = Inr r" | "op_node_size op st = Inr r" | "op_node_metadata a op st = Inr r"
    | "op_add_edge ip a op st = Inr r" | "op_remove_edge ip a op st = Inr r" | "op_set_edge_style ip a op st = Inr r"
    | "op_add_ref a op st = Inr r" | "op_remove_ref a op st = Inr r" | "op_timeline_order op st = Inr r"
    | "op_acceptance createdBy a op st = Inr r" | "op_workflow a op st = Inr r" | "op_node_workflow a op st = Inr r"
    | "op_agent_roles a op st = Inr r"
  using assms unfolding applyGraphOp_def by (metis sum.distinct(1))

lemma change_requires_Inr:
  "change_requires edit n src (g, t) = Inr (g', t') \<longleftrightarrow>
     (\<exists>n' ch. edit n src = Inr (n', ch) \<and> g' = write_node n' g \<and> t' = (if ch then t(node_ID n := True) else t))"
  by (auto simp: change_requires_def split: sum.split prod.split)

lemma append_keeps: "appendNodeRequirement ip n src = Inr (n', ch) \<Longrightarrow> node_ID n' = node_ID n"
  by (auto simp: appendNodeRequirement_def Let_def split: sum.splits option.splits if_splits)

lemma prune_keeps: "pruneNodeRequirement ip n src = Inr (n', ch) \<Longrightarrow> node_ID n' = node_ID n"
  by (auto simp: pruneNodeRequirement_def split: sum.splits option.splits if_splits)

lemma graph_Nodes_map_ui [simp]: "graph_Nodes (map_ui f g) = graph_Nodes g"
  by (simp add: map_ui_def)

lemma nodes_of_map_ui [simp]: "nodes_of (map_ui f g) = nodes_of g"
  by (simp add: nodes_of_def)

lemma NodeByID_nodes: "graph_Nodes g' = graph_Nodes g \<Longrightarrow> NodeByID g' i = NodeByID g i"
  by (simp add: NodeByID_def nodes_of_def)

lemma arrange_nodes:
  assumes "op_move op (g, t) = Inr (g', t') \<or> op_node_size op (g, t) = Inr (g', t') \<or> op_timeline_order op (g, t) = Inr (g', t')"
  shows "graph_Nodes g' = graph_Nodes g \<and> graph_Edges g' = graph_Edges g"
  using assms by (auto simp: map_ui_def op_move_def op_node_size_def op_timeline_order_def split: option.splits)

lemma set_access_keeps: "set_access op n = Inr m \<Longrightarrow> node_ID m = node_ID n \<and> node_Requires m = node_Requires n"
  by (auto simp: set_access_def split: option.splits if_splits)

lemma set_kind_keeps: "set_kind a g op n = Inr m \<Longrightarrow> node_ID m = node_ID n \<and> node_Requires m = node_Requires n"
  by (auto simp: set_kind_def Let_def split: option.splits)

lemma set_plain_fields_keeps [simp]:
  "node_ID (set_plain_fields op n) = node_ID n" "node_Requires (set_plain_fields op n) = node_Requires n"
  by (simp_all add: set_plain_fields_def)

lemma metadata_cases:
  assumes "op_node_metadata a op (g, t) = Inr (g', t')"
  obtains n m where "NodeByID g (op_NodeID op) = Some n" "checkNodeWrite a (Some n) = None"
    "node_ID m = node_ID n" "node_Requires m = node_Requires n" "g' = write_node m g"
proof -
  obtain n n1 n3 where n: "NodeByID g (op_NodeID op) = Some n" "checkNodeWrite a (Some n) = None"
      "set_access op n = Inr n1"
      "set_kind a g op (case op_Title op of Some v \<Rightarrow> n1\<lparr>node_Title := v\<rparr> | None \<Rightarrow> n1) = Inr n3"
      "g' = write_node (set_plain_fields op n3) g"
    using assms by (auto simp: op_node_metadata_def Let_def)
  have "node_ID n3 = node_ID n \<and> node_Requires n3 = node_Requires n"
    using set_access_keeps [OF n(3)] set_kind_keeps [OF n(4)] by (auto split: option.splits)
  then show ?thesis using that [of n "set_plain_fields op n3"] n by simp
qed

lemma plain_put:
  "NodeByID g i = Some n \<Longrightarrow> checkNodeWrite a (Some n) = None \<Longrightarrow> node_ID m = node_ID n \<Longrightarrow> node_Requires m = node_Requires n \<Longrightarrow>
   g' = g \<or> g' = write_node m g \<Longrightarrow>
   g' = g \<or> (\<exists>n m. g' = write_node m g \<and> NodeByID g i = Some n \<and> checkNodeWrite a (Some n) = None \<and>
      node_ID m = node_ID n \<and> node_Requires m = node_Requires n)"
  by blast

lemma plain_cases:
  assumes "op_add_ref a op (g, t) = Inr (g', t') \<or> op_remove_ref a op (g, t) = Inr (g', t') \<or>
    op_acceptance cb a op (g, t) = Inr (g', t') \<or> op_node_workflow a op (g, t) = Inr (g', t')"
  obtains "g' = g" | n m where "NodeByID g (op_NodeID op) = Some n" "checkNodeWrite a (Some n) = None"
    "node_ID m = node_ID n" "node_Requires m = node_Requires n" "g' = write_node m g"
proof -
  have "g' = g \<or> (\<exists>n m. g' = write_node m g \<and> NodeByID g (op_NodeID op) = Some n \<and> checkNodeWrite a (Some n) = None \<and>
      node_ID m = node_ID n \<and> node_Requires m = node_Requires n)"
    using assms
  proof (elim disjE)
    assume "op_add_ref a op (g, t) = Inr (g', t')"
    then obtain n x where "NodeByID g (op_NodeID op) = Some n" "checkNodeWrite a (Some n) = None" "g' = g \<or> g' = write_node (n\<lparr>node_Refs := x\<rparr>) g"
      by (auto simp: op_add_ref_def split: if_splits)
    then show ?thesis by (elim plain_put) auto
  next
    assume "op_remove_ref a op (g, t) = Inr (g', t')"
    then obtain n x where "NodeByID g (op_NodeID op) = Some n" "checkNodeWrite a (Some n) = None" "g' = g \<or> g' = write_node (n\<lparr>node_Refs := x\<rparr>) g"
      by (auto simp: op_remove_ref_def split: if_splits)
    then show ?thesis by (elim plain_put) auto
  next
    assume "op_acceptance cb a op (g, t) = Inr (g', t')"
    then obtain n x where "NodeByID g (op_NodeID op) = Some n" "checkNodeWrite a (Some n) = None" "g' = g \<or> g' = write_node (n\<lparr>node_Acceptance := x\<rparr>) g"
      by (auto simp: op_acceptance_def Let_def)
    then show ?thesis by (elim plain_put) auto
  next
    assume "op_node_workflow a op (g, t) = Inr (g', t')"
    then obtain n x where "NodeByID g (op_NodeID op) = Some n" "checkNodeWrite a (Some n) = None" "g' = g \<or> g' = write_node (n\<lparr>node_Workflow := x\<rparr>) g"
      by (auto simp: op_node_workflow_def)
    then show ?thesis by (elim plain_put) auto
  qed
  then show ?thesis using that by blast
qed

lemma settings_nodes:
  assumes "op_workflow a op (g, t) = Inr (g', t') \<or> op_agent_roles a op (g, t) = Inr (g', t')"
  shows "graph_Nodes g' = graph_Nodes g \<and> graph_Edges g' = graph_Edges g"
  using assms by (auto simp: op_workflow_def op_agent_roles_def)

text \<open>A wire command edits the condition of its target, if anything; \<open>es\<close> are the edges it leaves.\<close>

lemma add_edge_cases:
  assumes "op_add_edge ip a op (g, t) = Inr (g', t')"
  obtains n m ch where "NodeByID g (op_To op) = Some n" "checkNodeWrite a (Some n) = None" "NodeByID g (op_From op) \<noteq> None"
    "dependsOn g n (op_From op) \<or> refuseDependencyCycle g (op_From op) (op_To op) = None"
    "appendNodeRequirement ip n (op_From op) = Inr (m, ch)" "graph_Nodes g' = graph_Nodes (write_node m g)"
    "graph_Edges g' = update_edge (op_From op) (op_To op) (\<lambda>e. e\<lparr>edge_Relation := RelationRequired\<rparr>) (graph_Edges g) \<or>
     graph_Edges g' = graph_Edges g @
       [Some \<lparr>edge_From = op_From op, edge_To = op_To op, edge_Relation = RelationRequired, edge_Line = []\<rparr>]"
proof -
  obtain n where n: "NodeByID g (op_To op) = Some n" using assms by (auto simp: op_add_edge_def Let_def split: option.splits)
  have ok: "checkNodeWrite a (Some n) = None" "NodeByID g (op_From op) \<noteq> None"
    "dependsOn g n (op_From op) \<or> refuseDependencyCycle g (op_From op) (op_To op) = None"
    using assms n by (auto simp: op_add_edge_def Let_def split: option.splits if_splits)
  then have "(\<exists>m ch. appendNodeRequirement ip n (op_From op) = Inr (m, ch) \<and>
      (g' = write_node m (g\<lparr>graph_Edges := update_edge (op_From op) (op_To op) (\<lambda>e. e\<lparr>edge_Relation := RelationRequired\<rparr>) (graph_Edges g)\<rparr>) \<or>
       g' = (write_node m g)\<lparr>graph_Edges := graph_Edges (write_node m g) @
         [Some \<lparr>edge_From = op_From op, edge_To = op_To op, edge_Relation = RelationRequired, edge_Line = []\<rparr>]\<rparr>))"
    using assms n by (auto simp: op_add_edge_def Let_def change_requires_Inr split: option.splits if_splits)
  then show ?thesis using that n ok by (auto simp: write_node_def)
qed

lemma drop_wire_graph [simp]:
  "graph_Nodes (drop_wire src to g) = graph_Nodes g"
  "graph_Edges (drop_wire src to g) = filter (\<lambda>eo. \<not> is_wire src to eo) (graph_Edges g)"
  by (simp_all add: drop_wire_def Let_def map_ui_def)

lemma write_node_graph:
  "graph_Nodes (write_node m g) = update_first (node_ID m) (\<lambda>_. m) (graph_Nodes g)" "graph_Edges (write_node m g) = graph_Edges g"
  by (simp_all add: write_node_def)

lemma remove_edge_cases:
  assumes "op_remove_edge ip a op (g, t) = Inr (g', t')"
  obtains n where "NodeByID g (op_To op) = Some n" "checkNodeWrite a (Some n) = None"
    "graph_Edges g' = filter (\<lambda>eo. \<not> is_wire (op_From op) (op_To op) eo) (graph_Edges g)"
    "graph_Nodes g' = graph_Nodes g \<or>
     (\<exists>m ch. pruneNodeRequirement ip n (op_From op) = Inr (m, ch) \<and> graph_Nodes g' = graph_Nodes (write_node m g))"
proof -
  obtain n where n: "NodeByID g (op_To op) = Some n" using assms by (auto simp: op_remove_edge_def Let_def split: option.splits)
  then have "checkNodeWrite a (Some n) = None"
    "g' = drop_wire (op_From op) (op_To op) g \<or>
     (\<exists>m ch. pruneNodeRequirement ip n (op_From op) = Inr (m, ch) \<and> g' = write_node m (drop_wire (op_From op) (op_To op) g))"
    using assms by (auto simp: op_remove_edge_def Let_def change_requires_Inr split: if_splits)
  then show ?thesis using that n by (auto simp: write_node_graph)
qed

lemma change_relation_cases:
  assumes "change_relation ip src to relation e (g, t) = Inr (g', t')"
  obtains "g' = g" "relation = RelationRequired \<longrightarrow> edge_Relation e = RelationRequired"
    | n m ch where "NodeByID g to = Some n" "g' = write_node m g" "relation \<noteq> RelationRequired"
        "pruneNodeRequirement ip n src = Inr (m, ch)"
    | n m ch where "NodeByID g to = Some n" "g' = write_node m g" "relation = RelationRequired"
        "dependsOn g n src \<or> refuseDependencyCycle g src to = None" "appendNodeRequirement ip n src = Inr (m, ch)"
proof (cases "relation = edge_Relation e \<or> relation \<noteq> RelationRequired \<and> edge_Relation e \<noteq> RelationRequired")
  case True
  then have "g' = g" using assms by (auto simp: change_relation_def Let_def Blocks_def split: if_splits)
  then show ?thesis using True that(1) by auto
next
  case False
  then have diff: "relation \<noteq> edge_Relation e" by blast
  show ?thesis
  proof (cases "relation = RelationRequired")
    case True
    then show ?thesis using assms diff that(3)
      by (auto simp: change_relation_def Let_def Blocks_def change_requires_Inr split: option.splits if_splits)
  next
    case no: False
    then show ?thesis using assms diff False that(2)
      by (auto simp: change_relation_def Let_def Blocks_def change_requires_Inr split: option.splits)
  qed
qed

lemma restyle_cases:
  assumes "restyle ip op e (g, t) = Inr (g', t')"
  obtains relation line g1 t1 where "change_relation ip (op_From op) (op_To op) relation e (g, t) = Inr (g1, t1)"
    "g' = g1\<lparr>graph_Edges := update_edge (op_From op) (op_To op) (\<lambda>e. e\<lparr>edge_Relation := relation, edge_Line := line\<rparr>) (graph_Edges g1)\<rparr>"
  using assms by (auto simp: restyle_def Let_def)

lemma style_cases:
  assumes "op_set_edge_style ip a op (g, t) = Inr (g', t')"
  obtains g1 e where "restyle ip op e (g1, t) = Inr (g', t')" "graph_Nodes g1 = graph_Nodes g"
    "checkNodeWrite a (NodeByID g (op_To op)) = None"
    "g1 = g \<and> find_edge g (op_From op) (op_To op) = Some e \<or>
     graph_Edges g1 = graph_Edges g @ [Some e] \<and> edge_Relation e = RelationRequired \<and> edge_From e = op_From op \<and> edge_To e = op_To op \<and>
       (\<exists>n. NodeByID g (op_To op) = Some n \<and> nodeRequiresRef n (op_From op))"
proof (cases "find_edge g (op_From op) (op_To op)")
  case None
  then obtain n where "NodeByID g (op_To op) = Some n" using assms
    by (auto simp: op_set_edge_style_def Let_def split: option.splits if_splits)
  then show ?thesis using assms None that [of "\<lparr>edge_From = op_From op, edge_To = op_To op, edge_Relation = RelationRequired, edge_Line = []\<rparr>"
      "g\<lparr>graph_Edges := graph_Edges g @ [Some \<lparr>edge_From = op_From op, edge_To = op_To op, edge_Relation = RelationRequired, edge_Line = []\<rparr>]\<rparr>"]
    by (auto simp: op_set_edge_style_def Let_def split: if_splits)
next
  case (Some e)
  then show ?thesis using assms that [of e g] by (auto simp: op_set_edge_style_def Let_def)
qed

section \<open>Access\<close>

lemma command_step:
  assumes "applyGraphOp ip cb a op (g, t) = Inr (g', t')"
  shows "nodes_step a g g'"
  using assms
proof (cases rule: applyGraphOp_cases)
  case 3
  then show ?thesis by (elim metadata_cases) (simp add: write_node_step)
next
  case 4
  then obtain n m ch where "NodeByID g (op_To op) = Some n" "checkNodeWrite a (Some n) = None"
      "appendNodeRequirement ip n (op_From op) = Inr (m, ch)" "graph_Nodes g' = graph_Nodes (write_node m g)"
    by (rule add_edge_cases)
  then show ?thesis using write_node_step append_keeps unfolding nodes_step_def by metis
next
  case 5
  then obtain n where n: "NodeByID g (op_To op) = Some n" "checkNodeWrite a (Some n) = None"
      "graph_Nodes g' = graph_Nodes g \<or>
     (\<exists>m ch. pruneNodeRequirement ip n (op_From op) = Inr (m, ch) \<and> graph_Nodes g' = graph_Nodes (write_node m g))"
    by (rule remove_edge_cases)
  then show ?thesis using write_node_step prune_keeps nodes_step_refl unfolding nodes_step_def by metis
next
  case 6
  then obtain g1 e where e: "restyle ip op e (g1, t) = Inr (g', t')" "graph_Nodes g1 = graph_Nodes g"
      "checkNodeWrite a (NodeByID g (op_To op)) = None" by (rule style_cases)
  have same: "NodeByID g1 i = NodeByID g i" for i using e(2) by (rule NodeByID_nodes)
  obtain relation g2 t2 where r: "change_relation ip (op_From op) (op_To op) relation e (g1, t) = Inr (g2, t2)"
      "graph_Nodes g' = graph_Nodes g2" using e(1) by (rule restyle_cases) simp
  from r(1) have "nodes_step a g1 g2"
  proof (cases rule: change_relation_cases)
    case 1
    then show ?thesis by (simp add: nodes_step_refl)
  next
    case (2 n m ch)
    then show ?thesis using e(3) write_node_step [of g1 "op_To op" n a m] prune_keeps unfolding same by simp
  next
    case (3 n m ch)
    then show ?thesis using e(3) write_node_step [of g1 "op_To op" n a m] append_keeps unfolding same by simp
  qed
  then have "nodes_step a g1 g'" using r(2) by (simp add: nodes_step_def)
  then show ?thesis using e(2) by (simp add: nodes_step_def)
next
  case 7
  then show ?thesis using plain_cases write_node_step nodes_step_refl by metis
next
  case 8
  then show ?thesis using plain_cases write_node_step nodes_step_refl by metis
next
  case 10
  then show ?thesis using plain_cases write_node_step nodes_step_refl by metis
next
  case 12
  then show ?thesis using plain_cases write_node_step nodes_step_refl by metis
qed (use arrange_nodes settings_nodes nodes_step_refl in blast)+

section \<open>Conditions that survive their text\<close>

text \<open>The open parser frames of a condition as the left operand of \<^verbatim>\<open>and\<close>, where an added requirement puts it.\<close>

definition wrap_left :: "nat \<Rightarrow> expr \<Rightarrow> nat" where
  "wrap_left k e = (if needsParens e k then 1 else 0) + print_depth e"

definition wrap_right :: "nat \<Rightarrow> expr \<Rightarrow> nat" where
  "wrap_right k e = (if needsParens e k \<or> samePrecBinary e k then 1 else 0) + print_depth e"

lemma print_depth_Binary: "print_depth (Binary op l r p) = max (wrap_left (opPrec op) l) (wrap_right (opPrec op) r)"
  by (simp add: wrap_left_def wrap_right_def)

lemma wrap_move:
  "wrap_left k l \<le> (if j < k then 1 else 0) + wrap_left j l"
  "wrap_right k l \<le> (if j \<le> k then 1 else 0) + wrap_left j l"
  "wrap_left k l \<le> (if j < k then 1 else 0) + wrap_right j l"
  "wrap_right k l \<le> (if j \<le> k then 1 else 0) + wrap_right j l"
  by (cases l; simp add: wrap_left_def wrap_right_def)+

lemma prune_wraps:
  "PruneNodeRefs drp e = Some e' \<Longrightarrow> wrap_left k e' \<le> wrap_left k e \<and> wrap_right k e' \<le> wrap_right k e"
proof (induction e arbitrary: e' k)
  case (Unary op x p)
  have whole: "wrap_left k (Unary op x p) = 1 + wrap_left precNot x" "wrap_right k (Unary op x p) = 1 + wrap_left precNot x" for k and x
    by (simp_all add: wrap_left_def wrap_right_def)
  obtain x' where "PruneNodeRefs drp x = Some x'" "e' = Unary op x' p" using Unary.prems by (auto split: option.splits)
  then show ?case using Unary.IH [of x' precNot] by (simp add: whole)
next
  case (Binary op l r p)
  let ?j = "opPrec op"
  have whole: "wrap_left k (Binary op l r p) = (if ?j < k then 1 else 0) + max (wrap_left ?j l) (wrap_right ?j r)"
    "wrap_right k (Binary op l r p) = (if ?j \<le> k then 1 else 0) + max (wrap_left ?j l) (wrap_right ?j r)" for l r
    unfolding wrap_left_def [of k] wrap_right_def [of k] print_depth_Binary by auto
  show ?case
  proof (cases "PruneNodeRefs drp l")
    case None
    then have "PruneNodeRefs drp r = Some e'" using Binary.prems by simp
    then show ?thesis unfolding whole using Binary.IH(2) [of e' k] wrap_move(3) [of k r ?j] wrap_move(4) [of k r ?j]
      by (intro conjI) linarith+
  next
    case l: (Some l')
    show ?thesis
    proof (cases "PruneNodeRefs drp r")
      case None
      then have "l' = e'" using Binary.prems l by simp
      then have "wrap_left k e' \<le> wrap_left k l \<and> wrap_right k e' \<le> wrap_right k l" using Binary.IH(1) l by simp
      then show ?thesis unfolding whole using wrap_move(1) [of k l ?j] wrap_move(2) [of k l ?j] by (intro conjI) linarith+
    next
      case (Some r')
      then have "e' = Binary op l' r' p" using Binary.prems l by simp
      then show ?thesis using Binary.IH(1) [OF l, of ?j] Binary.IH(2) [OF Some, of ?j] by (auto simp: whole)
    qed
  qed
qed (auto split: if_splits)

lemma expr_ok_Prune: "expr_ok e \<Longrightarrow> PruneNodeRefs drp e = Some e' \<Longrightarrow> expr_ok e'"
proof (induction e arbitrary: e')
  case (Binary op l r p)
  have ok: "op \<in> bool_ops" "expr_ok l" "expr_ok r" using Binary.prems(1) by simp_all
  show ?case
  proof (cases "PruneNodeRefs drp l")
    case None
    then show ?thesis using Binary.IH(2) [OF ok(3)] Binary.prems(2) by simp
  next
    case l: (Some l')
    show ?thesis
    proof (cases "PruneNodeRefs drp r")
      case None
      then show ?thesis using Binary.IH(1) [OF ok(2) l] Binary.prems(2) l by simp
    next
      case (Some r')
      then have "e' = Binary op l' r' p" using Binary.prems(2) l by simp
      then show ?thesis using ok(1) Binary.IH(1) [OF ok(2) l] Binary.IH(2) [OF ok(3) Some] by simp
    qed
  qed
next
  case (Unary op x p)
  then obtain x' where "PruneNodeRefs drp x = Some x'" "e' = Unary op x' p" by (auto split: option.splits)
  then show ?case using Unary.IH [of x'] Unary.prems(1) by simp
qed (auto split: if_splits)

lemma expr_ok_refs: "expr_ok e \<Longrightarrow> i \<in> refs_of e \<Longrightarrow> name_ok i"
  by (induction e) auto

lemma strip_pos_same:
  assumes "strip_pos e = strip_pos e'"
  shows "expr_ok e = expr_ok e' \<and> refs_of e = refs_of e' \<and> wrap_left k e = wrap_left k e'"
proof -
  have np: "needsParens (strip_pos x) j = needsParens x j" "samePrecBinary (strip_pos x) j = samePrecBinary x j" for x j
    by (cases x; simp)+
  have "expr_ok (strip_pos x) = expr_ok x \<and> refs_of (strip_pos x) = refs_of x \<and> print_depth (strip_pos x) = print_depth x" for x
    by (induction x) (auto simp: np)
  then show ?thesis using np(1) [of e k] np(1) [of e' k] assms unfolding wrap_left_def by metis
qed

definition cond_ok :: "string \<Rightarrow> bool" where
  "cond_ok s \<longleftrightarrow> (\<forall>e. Parse s = Inr (Some e) \<longrightarrow> expr_ok e \<and> wrap_left precAnd e \<le> maxNesting)"

definition cond_refs :: "string \<Rightarrow> string set" where
  "cond_refs s = (case Parse s of Inr (Some e) \<Rightarrow> refs_of e | _ \<Rightarrow> {})"

lemma printed_cond:
  assumes "expr_ok e" "wrap_left precAnd e \<le> maxNesting"
  shows "cond_ok (Expr_String ip e) \<and> cond_refs (Expr_String ip e) = refs_of e"
proof -
  have "print_depth e \<le> maxNesting" using assms(2) by (simp add: wrap_left_def split: if_splits)
  then obtain e' where "Parse (Expr_String ip e) = Inr (Some e')" "strip_pos e' = strip_pos e"
    using Parse_printed [OF assms(1)] by blast
  then show ?thesis using strip_pos_same [of e' e precAnd] assms by (simp add: cond_ok_def cond_refs_def)
qed

lemma Parse_empty [simp]: "Parse [] = Inr None"
  by code_simp

lemma cond_empty [simp]: "cond_ok []" "cond_refs [] = {}"
  by (simp_all add: cond_ok_def cond_refs_def)

lemma append_cond:
  assumes "appendNodeRequirement ip n src = Inr (m, ch)" "cond_ok (node_Requires n)" "name_ok src"
  shows "cond_ok (node_Requires m) \<and> cond_refs (node_Requires m) = insert src (cond_refs (node_Requires n))"
proof -
  obtain eo where eo: "Parse (node_Requires n) = Inr eo"
    using assms(1) by (auto simp: appendNodeRequirement_def split: sum.splits)
  show ?thesis
  proof (cases "containsNodeRef eo src")
    case True
    then have "m = n" "src \<in> cond_refs (node_Requires n)"
      using assms(1) eo by (cases eo; auto simp: appendNodeRequirement_def containsNodeRef_def cond_refs_def)+
    then show ?thesis using assms(2) by auto
  next
    case False
    let ?e = "case eo of None \<Rightarrow> NodeRef src 0 | Some e \<Rightarrow> Binary ''and'' e (NodeRef src 0) 0"
    have m: "node_Requires m = Expr_String ip ?e"
      using assms(1) eo False by (auto simp: appendNodeRequirement_def Let_def)
    have "expr_ok ?e \<and> wrap_left precAnd ?e \<le> maxNesting \<and> refs_of ?e = insert src (cond_refs (node_Requires n))"
      using assms(2,3) eo
      by (auto simp: cond_ok_def cond_refs_def wrap_left_def bool_ops_def prec_defs opPrec_def maxNesting_def split: option.splits)
    then show ?thesis unfolding m using printed_cond by metis
  qed
qed

lemma prune_cond:
  assumes "pruneNodeRequirement ip n src = Inr (m, ch)" "cond_ok (node_Requires n)"
  shows "cond_ok (node_Requires m) \<and> cond_refs (node_Requires m) = cond_refs (node_Requires n) - {src}"
proof -
  obtain eo where eo: "Parse (node_Requires n) = Inr eo"
    using assms(1) by (auto simp: pruneNodeRequirement_def split: sum.splits)
  show ?thesis
  proof (cases "eo \<noteq> None \<and> containsNodeRef eo src")
    case False
    then have "m = n" using assms(1) eo by (auto simp: pruneNodeRequirement_def split: option.splits)
    then show ?thesis using assms(2) eo False by (auto simp: cond_refs_def containsNodeRef_def split: option.splits)
  next
    case True
    then obtain e where e: "Parse (node_Requires n) = Inr (Some e)" "expr_ok e" "wrap_left precAnd e \<le> maxNesting"
        "node_Requires m = (case PruneNodeRefs (\<lambda>i. i = src) e of None \<Rightarrow> [] | Some p \<Rightarrow> Expr_String ip p)"
      using assms eo by (auto simp: pruneNodeRequirement_def cond_ok_def)
    have refs: "(case PruneNodeRefs (\<lambda>i. i = src) e of None \<Rightarrow> {} | Some p \<Rightarrow> refs_of p) = cond_refs (node_Requires n) - {src}"
      unfolding refs_of_Prune using e(1) by (auto simp: cond_refs_def)
    show ?thesis
    proof (cases "PruneNodeRefs (\<lambda>i. i = src) e")
      case (Some p)
      then show ?thesis
        using printed_cond [of p ip] expr_ok_Prune [OF e(2) Some] prune_wraps [OF Some, of precAnd] e(3,4) refs by simp
    qed (use e(4) refs in simp)
  qed
qed

section \<open>Dependencies\<close>

definition sources :: "edge option list \<Rightarrow> string set" where
  "sources es = {edge_From e | e. Some e \<in> set es}"

definition editable :: "graph \<Rightarrow> bool" where
  "editable g \<longleftrightarrow> (\<forall>n\<in>set (nodes_of g). name_ok (node_ID n) \<and> cond_ok (node_Requires n)) \<and>
     (\<forall>i\<in>sources (graph_Edges g). name_ok i)"

lemma cond_refs_iff: "r \<in> cond_refs s \<longleftrightarrow> (\<exists>e. Parse s = Inr (Some e) \<and> r \<in> refs_of e)"
  by (auto simp: cond_refs_def split: sum.split option.split)

lemma requires_rel_refs: "requires_rel ns = {(node_ID n, r) | n r. n \<in> set ns \<and> r \<in> cond_refs (node_Requires n)}"
  unfolding requires_rel_def cond_refs_iff by blast

lemma set_update_first: "set (update_first i (\<lambda>_. m) nos) \<subseteq> insert (Some m) (set nos)"
  by (induction nos) (auto split: option.splits)

lemma nodes_of_put:
  assumes "graph_Nodes g' = graph_Nodes (write_node m g)"
  shows "set (nodes_of g') \<subseteq> insert m (set (nodes_of g))"
  using set_update_first [of "node_ID m" m "graph_Nodes g"] assms by (auto simp: set_nodes_of write_node_graph)

lemma NodeByID_member: "NodeByID g i = Some n \<Longrightarrow> n \<in> set (nodes_of g) \<and> node_ID n = i"
  using NodeByID_Some [of g i n] by (simp add: set_nodes_of)

text \<open>One node replaced, its condition naming at most one more node.\<close>

lemma replace_node:
  assumes "NodeByID g i = Some n" "graph_Nodes g' = graph_Nodes (write_node m g)" "node_ID m = node_ID n"
    "cond_refs (node_Requires m) \<subseteq> X \<union> cond_refs (node_Requires n)"
  shows "requires_rel (nodes_of g') \<subseteq> {i} \<times> X \<union> requires_rel (nodes_of g)"
proof
  fix x
  assume "x \<in> requires_rel (nodes_of g')"
  then obtain k r where k: "x = (node_ID k, r)" "k \<in> set (nodes_of g')" "r \<in> cond_refs (node_Requires k)"
    by (auto simp: requires_rel_refs)
  then have "k = m \<or> k \<in> set (nodes_of g)" using nodes_of_put [OF assms(2)] by auto
  then show "x \<in> {i} \<times> X \<union> requires_rel (nodes_of g)"
    using k NodeByID_member [OF assms(1)] assms(3,4) by (auto simp: requires_rel_refs)
qed

lemma replace_editable:
  assumes "editable g" "NodeByID g i = Some n" "graph_Nodes g' = graph_Nodes (write_node m g)" "node_ID m = node_ID n"
    "cond_ok (node_Requires m)" "\<forall>i\<in>sources (graph_Edges g'). name_ok i"
  shows "editable g'"
proof -
  have "name_ok (node_ID k) \<and> cond_ok (node_Requires k)" if "k \<in> set (nodes_of g')" for k
  proof -
    have "k = m \<or> k \<in> set (nodes_of g)" using that nodes_of_put [OF assms(3)] by auto
    then show ?thesis using assms(1,4,5) NodeByID_member [OF assms(2)] unfolding editable_def by auto
  qed
  then show ?thesis using assms(6) by (simp add: editable_def)
qed

lemma same_nodes: "graph_Nodes g' = graph_Nodes g \<Longrightarrow> nodes_of g' = nodes_of g"
  by (simp add: nodes_of_def)

lemma dependsOn_rel: "dependsOn g n src \<Longrightarrow> n \<in> set (nodes_of g) \<Longrightarrow> (node_ID n, src) \<in> dep_rel g"
  by (auto simp: dependsOn_def dep_rel_def requires_rel_def wires_rel_def nodeRequiresRef_def containsNodeRef_def list_ex_iff
      Blocks_def split: sum.splits option.splits)

lemma wires_rel_append [simp]: "wires_rel (es @ [Some e]) = wires_rel es \<union> (if edge_Relation e = RelationRequired then {(edge_To e, edge_From e)} else {})"
  by (auto simp: wires_rel_def Blocks_def)

text \<open>An edit of the edge list that can only add one wire.\<close>

definition wires_step :: "string \<Rightarrow> string \<Rightarrow> edge option list \<Rightarrow> edge option list \<Rightarrow> bool" where
  "wires_step src to es es' \<longleftrightarrow>
     wires_rel es' \<subseteq> insert (to, src) (wires_rel es) \<and> sources es' \<subseteq> insert src (sources es)"

lemma set_update_edge:
  "Some e \<in> set (update_edge src to f es) \<Longrightarrow>
     Some e \<in> set es \<or> (\<exists>e'. Some e' \<in> set es \<and> e = f e' \<and> edge_From e' = src \<and> edge_To e' = to)"
  by (induction src to f es rule: update_edge.induct) (auto split: if_splits)

lemma wires_step_update:
  assumes "\<And>e. edge_From (f e) = edge_From e \<and> edge_To (f e) = edge_To e"
  shows "wires_step src to es (update_edge src to f es)"
  unfolding wires_step_def
proof
  show "wires_rel (update_edge src to f es) \<subseteq> insert (to, src) (wires_rel es)"
    using assms unfolding wires_rel_def by (fastforce dest!: set_update_edge)
  show "sources (update_edge src to f es) \<subseteq> insert src (sources es)"
    using assms unfolding sources_def by (fastforce dest!: set_update_edge)
qed

lemma wires_update_optional:
  assumes "\<And>e. edge_From (f e) = edge_From e \<and> edge_To (f e) = edge_To e \<and> edge_Relation (f e) \<noteq> RelationRequired"
  shows "wires_rel (update_edge src to f es) \<subseteq> wires_rel es"
  using assms unfolding wires_rel_def Blocks_def by (fastforce dest!: set_update_edge)

lemma wires_step_append: "wires_step src to es (es @ [Some \<lparr>edge_From = src, edge_To = to, edge_Relation = r, edge_Line = l\<rparr>])"
  by (auto simp: wires_step_def sources_def)

lemma wires_filter: "wires_rel (filter P es) \<subseteq> wires_rel es" "sources (filter P es) \<subseteq> sources es"
  by (auto simp: wires_rel_def sources_def)

text \<open>What a command may add: a dependency that is there already or that the refusal let through.\<close>

definition dep_step :: "graph \<Rightarrow> graph \<Rightarrow> bool" where
  "dep_step g g' \<longleftrightarrow> editable g' \<and>
     (dep_rel g' \<subseteq> dep_rel g \<or>
      (\<exists>to src. dep_rel g' \<subseteq> insert (to, src) (dep_rel g) \<and> refuseDependencyCycle g src to = None))"

lemma dep_step_acyclic: "dep_step g g' \<Longrightarrow> acyclic (dep_rel g) \<Longrightarrow> acyclic (dep_rel g') \<and> editable g'"
  unfolding dep_step_def using not_refused_acyclic acyclic_subset by metis

lemma dep_step_same:
  assumes "editable g" "graph_Nodes g' = graph_Nodes g" "wires_rel (graph_Edges g') \<subseteq> wires_rel (graph_Edges g)"
    "sources (graph_Edges g') \<subseteq> sources (graph_Edges g)"
  shows "dep_step g g'"
  using assms same_nodes [OF assms(2)] by (auto simp: dep_step_def dep_rel_def editable_def)

lemma dep_step_node:
  assumes "editable g" "NodeByID g i = Some n" "graph_Nodes g' = graph_Nodes (write_node m g)" "node_ID m = node_ID n"
    "cond_ok (node_Requires m)" "cond_refs (node_Requires m) \<subseteq> cond_refs (node_Requires n)"
    "wires_rel (graph_Edges g') \<subseteq> wires_rel (graph_Edges g)" "sources (graph_Edges g') \<subseteq> sources (graph_Edges g)"
  shows "dep_step g g'"
proof -
  have "\<forall>i\<in>sources (graph_Edges g'). name_ok i" using assms(1,8) unfolding editable_def by blast
  then show ?thesis
    using replace_node [OF assms(2-4), of "{}"] replace_editable [OF assms(1-5)] assms(6,7)
    by (auto simp: dep_step_def dep_rel_def)
qed

lemma editable_node: "editable g \<Longrightarrow> NodeByID g i = Some n \<Longrightarrow> name_ok i \<and> cond_ok (node_Requires n)"
  using NodeByID_member [of g i n] unfolding editable_def by blast

lemma dep_step_require:
  assumes g: "editable g" and n: "NodeByID g to = Some n" and m: "graph_Nodes g' = graph_Nodes (write_node m g)"
    and src: "name_ok src" and add: "appendNodeRequirement ip n src = Inr (m, ch)"
    and allowed: "dependsOn g n src \<or> refuseDependencyCycle g src to = None"
    and es: "wires_step src to (graph_Edges g) (graph_Edges g')"
  shows "dep_step g g'"
proof -
  have nn: "n \<in> set (nodes_of g)" "node_ID n = to" using NodeByID_member [OF n] by simp_all
  have c: "cond_ok (node_Requires m)" "cond_refs (node_Requires m) = insert src (cond_refs (node_Requires n))"
    using append_cond [OF add _ src] editable_node [OF g n] by simp_all
  have mn: "node_ID m = node_ID n" using add by (rule append_keeps)
  have "requires_rel (nodes_of g') \<subseteq> {to} \<times> {src} \<union> requires_rel (nodes_of g)"
    by (rule replace_node [OF n m mn]) (use c(2) in simp)
  then have "dep_rel g' \<subseteq> insert (to, src) (dep_rel g)" using es by (auto simp: dep_rel_def wires_step_def)
  moreover have "(to, src) \<in> dep_rel g \<or> refuseDependencyCycle g src to = None"
    using allowed dependsOn_rel [of g n src] nn by auto
  moreover have "\<forall>i\<in>sources (graph_Edges g'). name_ok i" using es g src unfolding wires_step_def editable_def by auto
  then have "editable g'" by (rule replace_editable [OF g n m mn c(1)])
  ultimately show ?thesis unfolding dep_step_def by blast
qed

lemma dep_step_cong: "dep_rel g1 = dep_rel g \<Longrightarrow> dep_step g1 g' \<Longrightarrow> dep_step g g'"
  unfolding dep_step_def refuse_decides by simp

lemma find_edge_Some:
  assumes "find_edge g src to = Some e"
  shows "Some e \<in> set (graph_Edges g) \<and> edge_From e = src \<and> edge_To e = to"
  using first_match_SomeD [OF assms [unfolded find_edge_def]] by (auto simp: List.map_filter_def)

text \<open>Restyling a wire that is there.\<close>

lemma restyle_dep:
  assumes g: "editable g" and e: "Some e \<in> set (graph_Edges g)" "edge_From e = op_From op" "edge_To e = op_To op"
    and r: "restyle ip op e (g, t) = Inr (g', t')"
  shows "dep_step g g'"
proof -
  let ?src = "op_From op" and ?to = "op_To op"
  obtain relation line g1 t1 where c: "change_relation ip ?src ?to relation e (g, t) = Inr (g1, t1)"
      "g' = g1\<lparr>graph_Edges := update_edge ?src ?to (\<lambda>e. e\<lparr>edge_Relation := relation, edge_Line := line\<rparr>) (graph_Edges g1)\<rparr>"
    using r by (rule restyle_cases)
  let ?f = "\<lambda>e. e\<lparr>edge_Relation := relation, edge_Line := line\<rparr>"
  have step: "wires_step ?src ?to (graph_Edges g) (update_edge ?src ?to ?f (graph_Edges g))" by (rule wires_step_update) simp
  have opt: "relation \<noteq> RelationRequired \<Longrightarrow> wires_rel (update_edge ?src ?to ?f (graph_Edges g)) \<subseteq> wires_rel (graph_Edges g)"
    by (rule wires_update_optional) simp
  have src: "?src \<in> sources (graph_Edges g)" using e(1) unfolding sources_def e(2) [symmetric] by blast
  then have srcs: "sources (update_edge ?src ?to ?f (graph_Edges g)) \<subseteq> sources (graph_Edges g)"
    using step unfolding wires_step_def by auto
  from c(1) show ?thesis
  proof (cases rule: change_relation_cases)
    case 1
    have "wires_rel (update_edge ?src ?to ?f (graph_Edges g)) \<subseteq> wires_rel (graph_Edges g)"
    proof (cases "relation = RelationRequired")
      case True
      then have "(?to, ?src) \<in> wires_rel (graph_Edges g)" using 1(2) e unfolding wires_rel_def Blocks_def by force
      then show ?thesis using step unfolding wires_step_def by auto
    qed (rule opt)
    then show ?thesis using dep_step_same [OF g] c(2) 1(1) srcs by simp
  next
    case (2 n m ch)
    have k: "cond_ok (node_Requires m)" "cond_refs (node_Requires m) \<subseteq> cond_refs (node_Requires n)"
      using prune_cond [OF 2(4)] editable_node [OF g 2(1)] by auto
    show ?thesis
      by (rule dep_step_node [OF g 2(1) _ prune_keeps [OF 2(4)] k])
        (use c(2) 2(2,3) opt srcs in \<open>simp_all add: write_node_graph\<close>)
  next
    case (3 n m ch)
    show ?thesis
      by (rule dep_step_require [OF g 3(1) _ _ 3(5) 3(4)])
        (use c(2) 3(2) g src step in \<open>simp_all add: write_node_graph editable_def\<close>)
  qed
qed

lemma plain_dep:
  assumes g: "editable g"
    and op: "op_add_ref a op (g, t) = Inr (g', t') \<or> op_remove_ref a op (g, t) = Inr (g', t') \<or>
      op_acceptance cb a op (g, t) = Inr (g', t') \<or> op_node_workflow a op (g, t) = Inr (g', t')"
  shows "dep_step g g'"
  using op
proof (rule plain_cases)
  fix n m
  assume "NodeByID g (op_NodeID op) = Some n" "node_ID m = node_ID n" "node_Requires m = node_Requires n" "g' = write_node m g"
  then show ?thesis using editable_node [OF g] by (intro dep_step_node [OF g, where n = n and m = m]) (simp_all add: write_node_graph)
qed (simp add: dep_step_same [OF g])

lemma command_dep:
  assumes "applyGraphOp ip cb a op (g, t) = Inr (g', t')" and g: "editable g"
  shows "dep_step g g'"
  using assms(1)
proof (cases rule: applyGraphOp_cases)
  case 3
  then obtain n m where "NodeByID g (op_NodeID op) = Some n" "node_ID m = node_ID n" "node_Requires m = node_Requires n"
      "g' = write_node m g" by (rule metadata_cases)
  then show ?thesis using editable_node [OF g] by (intro dep_step_node [OF g, where n = n and m = m]) (simp_all add: write_node_graph)
next
  case 4
  show ?thesis using 4
  proof (rule add_edge_cases)
    fix n and m and ch
    assume c: "NodeByID g (op_To op) = Some n" "NodeByID g (op_From op) \<noteq> None"
      "dependsOn g n (op_From op) \<or> refuseDependencyCycle g (op_From op) (op_To op) = None"
      "appendNodeRequirement ip n (op_From op) = Inr (m, ch)" "graph_Nodes g' = graph_Nodes (write_node m g)"
      "graph_Edges g' = update_edge (op_From op) (op_To op) (\<lambda>e. e\<lparr>edge_Relation := RelationRequired\<rparr>) (graph_Edges g) \<or>
       graph_Edges g' = graph_Edges g @
         [Some \<lparr>edge_From = op_From op, edge_To = op_To op, edge_Relation = RelationRequired, edge_Line = []\<rparr>]"
    have "wires_step (op_From op) (op_To op) (graph_Edges g) (graph_Edges g')"
      using c(6) wires_step_update [of "\<lambda>e. e\<lparr>edge_Relation := RelationRequired\<rparr>"] wires_step_append by auto
    moreover have "name_ok (op_From op)" using c(2) editable_node [OF g] by blast
    ultimately show ?thesis using dep_step_require [OF g c(1,5) _ c(4,3)] by blast
  qed
next
  case 5
  then obtain n where c: "NodeByID g (op_To op) = Some n"
      "graph_Edges g' = filter (\<lambda>eo. \<not> is_wire (op_From op) (op_To op) eo) (graph_Edges g)"
      "graph_Nodes g' = graph_Nodes g \<or>
       (\<exists>m ch. pruneNodeRequirement ip n (op_From op) = Inr (m, ch) \<and> graph_Nodes g' = graph_Nodes (write_node m g))"
    by (rule remove_edge_cases)
  have es: "wires_rel (graph_Edges g') \<subseteq> wires_rel (graph_Edges g)" "sources (graph_Edges g') \<subseteq> sources (graph_Edges g)"
    using c(2) wires_filter by auto
  from c(3) show ?thesis
  proof
    assume "graph_Nodes g' = graph_Nodes g"
    then show ?thesis by (rule dep_step_same [OF g _ es])
  next
    assume "\<exists>m ch. pruneNodeRequirement ip n (op_From op) = Inr (m, ch) \<and> graph_Nodes g' = graph_Nodes (write_node m g)"
    then obtain m ch where m: "pruneNodeRequirement ip n (op_From op) = Inr (m, ch)" "graph_Nodes g' = graph_Nodes (write_node m g)"
      by blast
    have "cond_ok (node_Requires m)" "cond_refs (node_Requires m) \<subseteq> cond_refs (node_Requires n)"
      using prune_cond [OF m(1)] editable_node [OF g c(1)] by auto
    then show ?thesis by (rule dep_step_node [OF g c(1) m(2) prune_keeps [OF m(1)] _ _ es])
  qed
next
  case 6
  then obtain g1 e where s: "restyle ip op e (g1, t) = Inr (g', t')" "graph_Nodes g1 = graph_Nodes g"
    "g1 = g \<and> find_edge g (op_From op) (op_To op) = Some e \<or>
     graph_Edges g1 = graph_Edges g @ [Some e] \<and> edge_Relation e = RelationRequired \<and> edge_From e = op_From op \<and> edge_To e = op_To op \<and>
       (\<exists>n. NodeByID g (op_To op) = Some n \<and> nodeRequiresRef n (op_From op))"
    by (rule style_cases)
  show ?thesis
  proof (cases "g1 = g \<and> find_edge g (op_From op) (op_To op) = Some e")
    case True
    then show ?thesis using restyle_dep [OF g _ _ _ s(1) [unfolded conjunct1 [OF True]]] find_edge_Some by blast
  next
    case False
    then obtain n where e: "graph_Edges g1 = graph_Edges g @ [Some e]" "edge_Relation e = RelationRequired" "edge_From e = op_From op"
        "edge_To e = op_To op" "NodeByID g (op_To op) = Some n" "nodeRequiresRef n (op_From op)" using s(3) by blast
    have n: "n \<in> set (nodes_of g)" "node_ID n = op_To op" using NodeByID_member [OF e(5)] by simp_all
    have ref: "op_From op \<in> cond_refs (node_Requires n)"
      using e(6) by (auto simp: nodeRequiresRef_def containsNodeRef_def cond_refs_def split: sum.splits option.splits)
    then have rel: "(op_To op, op_From op) \<in> requires_rel (nodes_of g)" using n(1) unfolding requires_rel_refs n(2) [symmetric] by blast
    then have same: "dep_rel g1 = dep_rel g" using e(1-4) same_nodes [OF s(2)] by (auto simp: dep_rel_def)
    have "name_ok (op_From op)" using ref editable_node [OF g e(5)] expr_ok_refs unfolding cond_refs_iff cond_ok_def by blast
    then have g1: "editable g1" using g e(1,3) same_nodes [OF s(2)] unfolding editable_def sources_def by auto
    have "dep_step g1 g'" by (rule restyle_dep [OF g1 _ e(3,4) s(1)]) (simp add: e(1))
    then show ?thesis by (rule dep_step_cong [OF same])
  qed
next
  case 7
  then show ?thesis using plain_dep [OF g] by blast
next
  case 8
  then show ?thesis using plain_dep [OF g] by blast
next
  case 10
  then show ?thesis using plain_dep [OF g] by blast
next
  case 12
  then show ?thesis using plain_dep [OF g] by blast
qed (use arrange_nodes settings_nodes dep_step_same [OF g] in \<open>metis subset_refl\<close>)+

section \<open>Whole calls\<close>

lemma ops_steps:
  assumes "apply_ops ip cb a ops (g, t) = Inr (g', t')"
  shows "nodes_step a g g' \<and> (editable g \<and> acyclic (dep_rel g) \<longrightarrow> editable g' \<and> acyclic (dep_rel g'))"
  using assms
proof (induction ops arbitrary: g t)
  case (Cons op ops)
  then obtain g1 t1 where c: "applyGraphOp ip cb a op (g, t) = Inr (g1, t1)" "apply_ops ip cb a ops (g1, t1) = Inr (g', t')" by auto
  show ?case
    using command_step [OF c(1)] command_dep [OF c(1)] dep_step_acyclic Cons.IH [OF c(2)] nodes_step_trans by blast
qed (simp add: nodes_step_refl)

text \<open>The project settings a command can reach: agents can change none of them.\<close>

definition settings :: "graph \<Rightarrow> int \<times> user list \<times> flags \<times> node_type_def list \<times> string" where
  "settings g = (graph_Version g, graph_Users g, graph_Flags g, graph_NodeTypes g, graph_OfficeStyle g)"

definition agent_settings :: "graph \<Rightarrow> agent_role_def list \<times> workflow option" where
  "agent_settings g = (graph_AgentRoles g, graph_Workflow g)"

lemma settings_simps [simp]:
  "settings (map_ui f g) = settings g" "settings (write_node m g) = settings g" "settings (g\<lparr>graph_Edges := es\<rparr>) = settings g"
  "settings (g\<lparr>graph_Workflow := w\<rparr>) = settings g" "settings (g\<lparr>graph_AgentRoles := r\<rparr>) = settings g"
  "settings (drop_wire src to g) = settings g"
  by (simp_all add: settings_def map_ui_def write_node_def drop_wire_def Let_def)

lemma agent_settings_simps [simp]:
  "agent_settings (map_ui f g) = agent_settings g" "agent_settings (write_node m g) = agent_settings g"
  "agent_settings (g\<lparr>graph_Edges := es\<rparr>) = agent_settings g" "agent_settings (drop_wire src to g) = agent_settings g"
  by (simp_all add: agent_settings_def map_ui_def write_node_def drop_wire_def Let_def)

lemma change_requires_settings:
  "change_requires edit n src (g, t) = Inr (g', t') \<Longrightarrow> settings g' = settings g \<and> agent_settings g' = agent_settings g"
  by (auto simp: change_requires_Inr)

lemma restyle_settings:
  assumes "restyle ip op e (g, t) = Inr (g', t')"
  shows "settings g' = settings g \<and> agent_settings g' = agent_settings g"
proof -
  obtain relation line g1 t1 where c: "change_relation ip (op_From op) (op_To op) relation e (g, t) = Inr (g1, t1)"
      "g' = g1\<lparr>graph_Edges := update_edge (op_From op) (op_To op) (\<lambda>e. e\<lparr>edge_Relation := relation, edge_Line := line\<rparr>) (graph_Edges g1)\<rparr>"
    using assms by (rule restyle_cases)
  from c(1) have "settings g1 = settings g \<and> agent_settings g1 = agent_settings g"
    by (cases rule: change_relation_cases) simp_all
  then show ?thesis using c(2) by simp
qed

lemma wire_settings:
  assumes "op_add_edge ip a op (g, t) = Inr (g', t') \<or> op_remove_edge ip a op (g, t) = Inr (g', t')"
  shows "settings g' = settings g \<and> agent_settings g' = agent_settings g"
  using assms
proof
  assume "op_add_edge ip a op (g, t) = Inr (g', t')"
  then show ?thesis
    by (auto simp: op_add_edge_def Let_def split: option.splits if_splits dest!: change_requires_settings)
next
  assume "op_remove_edge ip a op (g, t) = Inr (g', t')"
  then show ?thesis
    by (auto simp: op_remove_edge_def Let_def split: option.splits if_splits dest!: change_requires_settings)
qed

lemma arrange_settings:
  assumes "op_move op (g, t) = Inr (g', t') \<or> op_node_size op (g, t) = Inr (g', t') \<or> op_timeline_order op (g, t) = Inr (g', t')"
  shows "settings g' = settings g \<and> agent_settings g' = agent_settings g"
  using assms by (auto simp: op_move_def op_node_size_def op_timeline_order_def split: option.splits)

lemma plain_settings:
  assumes "op_add_ref a op (g, t) = Inr (g', t') \<or> op_remove_ref a op (g, t) = Inr (g', t') \<or>
    op_acceptance cb a op (g, t) = Inr (g', t') \<or> op_node_workflow a op (g, t) = Inr (g', t')"
  shows "settings g' = settings g \<and> agent_settings g' = agent_settings g"
  using assms by (rule plain_cases) simp_all

lemma command_settings:
  assumes "applyGraphOp ip cb a op (g, t) = Inr (g', t')"
  shows "settings g' = settings g \<and> (IsAgent a \<longrightarrow> agent_settings g' = agent_settings g)"
  using assms
proof (cases rule: applyGraphOp_cases)
  case 3
  then show ?thesis by (elim metadata_cases) simp
next
  case 6
  then obtain g1 e where "restyle ip op e (g1, t) = Inr (g', t')" "settings g1 = settings g \<and> agent_settings g1 = agent_settings g"
    by (auto simp: op_set_edge_style_def Let_def split: option.splits if_splits)
  then show ?thesis using restyle_settings by metis
next
  case 11
  then show ?thesis by (auto simp: op_workflow_def checkWorkflowEdit_def agent_settings_def settings_def split: if_splits)
next
  case 13
  then show ?thesis
    by (auto simp: op_agent_roles_def checkAgentRolesEdit_def agentRoleDefsEqual_def agent_settings_def settings_def split: if_splits)
qed (use wire_settings arrange_settings plain_settings in metis)+

lemma ops_settings:
  "apply_ops ip cb a ops (g, t) = Inr (g', t') \<Longrightarrow>
     settings g' = settings g \<and> (IsAgent a \<longrightarrow> agent_settings g' = agent_settings g)"
proof (induction ops arbitrary: g t)
  case (Cons op ops)
  then show ?case using command_settings by fastforce
qed simp

end
