(* ===== verification/Storage_Facts.thy ===== *)
theory Storage_Facts
  imports Graph_Ops_Facts
begin

text \<open>
  What the check before a write guarantees: it changes no dependency, a graph it accepted is accepted again as it is, and
  the whole call of graph commands keeps access and acyclicity.
\<close>

section \<open>Edges for bent wires\<close>

definition live_ok :: "edge option list \<times> string boolmap \<Rightarrow> bool" where
  "live_ok acc \<longleftrightarrow> (\<forall>key. snd acc key = list_ex (\<lambda>eo. case eo of None \<Rightarrow> False | Some e \<Rightarrow> wire_key (edge_From e) (edge_To e) = key) (fst acc))"

lemma edgeKeys_wires: "edgeKeys g key = list_ex (\<lambda>eo. case eo of None \<Rightarrow> False | Some e \<Rightarrow> wire_key (edge_From e) (edge_To e) = key) (graph_Edges g)"
  by (simp only: edgeKeys_def wire_key_def)

text \<open>A step either leaves the edges or appends the edge a condition already states.\<close>

lemma consider_wire_cases:
  obtains "consider_wire g key acc = acc"
    | src to n where "consider_wire g key acc =
          (fst acc @ [Some \<lparr>edge_From = src, edge_To = to, edge_Relation = RelationRequired, edge_Line = []\<rparr>], (snd acc)(key := True))"
        "Cut key ''->'' = Some (src, to)" "NodeByID g to = Some n" "nodeRequiresRef n src"
proof (cases "consider_wire g key acc = acc")
  case False
  obtain es live where acc: "acc = (es, live)" by fastforce
  have go: "\<not> (live key \<or> has_prefix key ''gate:'' \<or> has_prefix key ''logic:'')"
    using False unfolding acc consider_wire_def prod.case by (metis (full_types))
  note F1 = False [unfolded acc consider_wire_def prod.case if_not_P [OF go]]
  have "Cut key ''->'' \<noteq> None"
  proof
    assume none: "Cut key ''->'' = None"
    show False using F1 unfolding none option.case by simp
  qed
  then obtain src to where cut: "Cut key ''->'' = Some (src, to)" by fast
  note F2 = F1 [unfolded cut option.case prod.case]
  then have ends: "\<not> (src = [] \<or> to = [] \<or> src = to \<or> NodeByID g src = None)" by metis
  note F3 = F2 [unfolded if_not_P [OF ends]]
  have "NodeByID g to \<noteq> None"
  proof
    assume none: "NodeByID g to = None"
    show False using F3 unfolding none option.case by simp
  qed
  then obtain n where n: "NodeByID g to = Some n" by fast
  have ref: "\<not> (\<not> nodeRequiresRef n src \<or> gated g src to)" using F3 [unfolded n option.case] by metis
  have "consider_wire g key acc =
      (fst acc @ [Some \<lparr>edge_From = src, edge_To = to, edge_Relation = RelationRequired, edge_Line = []\<rparr>], (snd acc)(key := True))"
    unfolding acc consider_wire_def prod.case if_not_P [OF go] cut option.case if_not_P [OF ends] n if_not_P [OF ref] by simp
  then show ?thesis using that(2) cut n ref by blast
qed (rule that(1))

lemma sources_append [simp]: "sources (es @ [Some e]) = insert (edge_From e) (sources es)"
  by (auto simp: sources_def)

lemma Cut_key: "Cut key ''->'' = Some (src, to) \<Longrightarrow> wire_key src to = key"
proof -
  have split: "index_of s sub = Some i \<Longrightarrow> take i s @ sub @ drop (i + length sub) s = s" for s sub and i
  proof (induction s sub arbitrary: i rule: index_of.induct)
    case (2 c cs sub)
    show ?case
    proof (cases "has_prefix (c # cs) sub")
      case True
      then show ?thesis using 2(2) by (auto simp: has_prefix_iff)
    next
      case False
      then obtain j where "index_of cs sub = Some j" "i = Suc j" using 2(2) by auto
      then show ?thesis using 2(1) [OF False, of j] by simp
    qed
  qed (auto split: if_splits)
  assume "Cut key ''->'' = Some (src, to)"
  then obtain i where "index_of key ''->'' = Some i" "src = take i key" "to = drop (i + length ''->'') key"
    unfolding Cut_def by blast
  then show "wire_key src to = key" using split [of key "''->''" i] by (simp add: wire_key_def)
qed

lemma consider_wire_nodes:
  assumes "wires_rel es \<subseteq> W" "sources es \<subseteq> S" "fold (consider_wire g) keys (es, live) = (es', live')"
    "requires_rel (nodes_of g) \<subseteq> W" "\<And>n. n \<in> set (nodes_of g) \<Longrightarrow> cond_refs (node_Requires n) \<subseteq> S"
  shows "wires_rel es' \<subseteq> W \<and> sources es' \<subseteq> S \<and> set es \<subseteq> set es'"
  using assms(1-3)
proof (induction keys arbitrary: es live)
  case (Cons key keys)
  obtain es1 live1 where one: "consider_wire g key (es, live) = (es1, live1)" by fastforce
  then have rest: "fold (consider_wire g) keys (es1, live1) = (es', live')" using Cons.prems(3) by simp
  have "wires_rel es1 \<subseteq> W \<and> sources es1 \<subseteq> S \<and> set es \<subseteq> set es1"
  proof (cases rule: consider_wire_cases [of g key "(es, live)"])
    case 1
    then show ?thesis using one Cons.prems by simp
  next
    case (2 src to n)
    have n: "n \<in> set (nodes_of g)" "node_ID n = to" using NodeByID_member [OF 2(3)] by simp_all
    have ref: "src \<in> cond_refs (node_Requires n)"
      using 2(4) by (auto simp: nodeRequiresRef_def containsNodeRef_def cond_refs_def split: sum.splits option.splits)
    then have "(to, src) \<in> requires_rel (nodes_of g)" using n(1) unfolding requires_rel_refs n(2) [symmetric] by blast
    then show ?thesis using one 2(1) Cons.prems(1,2) assms(4) assms(5) [OF n(1)] ref by auto
  qed
  then show ?case using Cons.IH rest by blast
qed simp

lemma materialize_nodes [simp]:
  "graph_Nodes (materializeRequiresWires g) = graph_Nodes g" "nodes_of (materializeRequiresWires g) = nodes_of g"
  "graph_UI (materializeRequiresWires g) = graph_UI g" "settings (materializeRequiresWires g) = settings g"
  "agent_settings (materializeRequiresWires g) = agent_settings g"
  by (simp_all add: materializeRequiresWires_def nodes_of_def settings_def agent_settings_def split: option.split)

lemma prune_decorations [simp]:
  "graph_Nodes (pruneEdgeDecorations g) = graph_Nodes g" "nodes_of (pruneEdgeDecorations g) = nodes_of g"
  "graph_Edges (pruneEdgeDecorations g) = graph_Edges g" "settings (pruneEdgeDecorations g) = settings g"
  "agent_settings (pruneEdgeDecorations g) = agent_settings g"
  by (simp_all add: pruneEdgeDecorations_def nodes_of_def settings_def agent_settings_def split: option.split)

lemma materialize_wires:
  assumes "\<And>n. n \<in> set (nodes_of g) \<Longrightarrow> cond_refs (node_Requires n) \<subseteq> S" "sources (graph_Edges g) \<subseteq> S"
  shows "dep_rel (materializeRequiresWires g) = dep_rel g \<and> sources (graph_Edges (materializeRequiresWires g)) \<subseteq> S"
proof -
  have "wires_rel (graph_Edges (materializeRequiresWires g)) \<subseteq> dep_rel g \<and> sources (graph_Edges (materializeRequiresWires g)) \<subseteq> S \<and>
      set (graph_Edges g) \<subseteq> set (graph_Edges (materializeRequiresWires g))"
  proof (cases "graph_Edges (materializeRequiresWires g) = graph_Edges g")
    case False
    then obtain keys where "graph_Edges (materializeRequiresWires g) = fst (fold (consider_wire g) keys (graph_Edges g, edgeKeys g))"
      by (auto simp: materializeRequiresWires_def simp del: fold_append split: option.splits if_splits)
    moreover obtain es live where "fold (consider_wire g) keys (graph_Edges g, edgeKeys g) = (es, live)" by fastforce
    ultimately show ?thesis using consider_wire_nodes [of "graph_Edges g" "dep_rel g" S g keys] assms by (auto simp: dep_rel_def)
  qed (use assms(2) in \<open>auto simp: dep_rel_def\<close>)
  moreover have "wires_rel es \<subseteq> wires_rel es'" if "set es \<subseteq> set es'" for es es' using that by (auto simp: wires_rel_def)
  ultimately show ?thesis by (auto simp: dep_rel_def)
qed

lemma stored_node_simps [simp]: "node_ID (stored_node n) = node_ID n" "node_Requires (stored_node n) = node_Requires n"
  by (simp_all add: stored_node_def normalize_access_def number_criteria_def)

lemma nodes_of_map: "graph_Nodes g' = map (map_option f) (graph_Nodes g) \<Longrightarrow> nodes_of g' = map f (nodes_of g)"
proof -
  have "List.map_filter id (map (map_option f) nos) = map f (List.map_filter id nos)" for nos :: "node option list"
    by (induction nos) (auto simp: List.map_filter_def)
  then show "graph_Nodes g' = map (map_option f) (graph_Nodes g) \<Longrightarrow> nodes_of g' = map f (nodes_of g)"
    by (simp add: nodes_of_def)
qed

lemma storage_result:
  assumes "ValidateGraphForStorage (Some g) = Inr g'"
  shows "g' = (pruneEdgeDecorations (materializeRequiresWires g))\<lparr>graph_Nodes := map (map_option stored_node) (graph_Nodes g)\<rparr>"
    and "sizes_error g = None" and "parts_error (pruneEdgeDecorations (materializeRequiresWires g)) = None"
  using assms by (auto simp: ValidateGraphForStorage_def Let_def split: option.splits)

lemma editable_refs:
  assumes "editable g" "n \<in> set (nodes_of g)"
  shows "cond_refs (node_Requires n) \<subseteq> {i. name_ok i}"
proof
  fix i
  assume "i \<in> cond_refs (node_Requires n)"
  then obtain e where "Parse (node_Requires n) = Inr (Some e)" "i \<in> refs_of e" unfolding cond_refs_iff by blast
  then show "i \<in> {i. name_ok i}" using assms expr_ok_refs unfolding editable_def cond_ok_def by blast
qed

lemma requires_rel_map:
  assumes "\<And>n. node_ID (f n) = node_ID n" "\<And>n. node_Requires (f n) = node_Requires n"
  shows "requires_rel (map f ns) = requires_rel ns"
proof (induction ns)
  case (Cons n ns)
  then show ?case by (simp only: list.map requires_rel_Cons assms)
qed simp

lemma storage_nodes:
  assumes "ValidateGraphForStorage (Some g) = Inr g'"
  shows "graph_Nodes g' = map (map_option stored_node) (graph_Nodes g) \<and> settings g' = settings g \<and> agent_settings g' = agent_settings g"
proof -
  let ?g = "pruneEdgeDecorations (materializeRequiresWires g)"
  have g': "g' = ?g\<lparr>graph_Nodes := map (map_option stored_node) (graph_Nodes g)\<rparr>" by (rule storage_result(1) [OF assms])
  then have "settings g' = settings ?g" "agent_settings g' = agent_settings ?g"
    unfolding g' settings_def agent_settings_def by simp_all
  then show ?thesis unfolding g' by simp
qed

lemma storage_deps:
  assumes "ValidateGraphForStorage (Some g) = Inr g'" "editable g"
  shows "dep_rel g' = dep_rel g \<and> editable g'"
proof -
  let ?g = "pruneEdgeDecorations (materializeRequiresWires g)"
  have g': "g' = ?g\<lparr>graph_Nodes := map (map_option stored_node) (graph_Nodes g)\<rparr>" by (rule storage_result(1) [OF assms(1)])
  then have nodes: "nodes_of g' = map stored_node (nodes_of g)" by (intro nodes_of_map) simp
  note names = editable_refs [OF assms(2)]
  have "sources (graph_Edges g) \<subseteq> {i. name_ok i}" using assms(2) unfolding editable_def by blast
  then have m: "dep_rel (materializeRequiresWires g) = dep_rel g"
      "sources (graph_Edges (materializeRequiresWires g)) \<subseteq> {i. name_ok i}" using materialize_wires [of g, OF names] by auto
  have "requires_rel (nodes_of g') = requires_rel (nodes_of g)" unfolding nodes by (rule requires_rel_map) simp_all
  then have "dep_rel g' = dep_rel g" using m(1) by (simp add: dep_rel_def g')
  moreover have "editable g'" using assms(2) m(2) unfolding editable_def nodes by (auto simp: g')
  ultimately show ?thesis ..
qed

section \<open>Whole calls\<close>

lemma call_parts:
  assumes "applyGraphOpsLocked ip creators a ops (g, t) = Inr (g', t')"
  obtains g1 g2 where "apply_ops ip (createdByActorRunLocked creators a) a ops (ensure_ui g, t) = Inr (g1, t')"
    "ValidateGraphForStorage (Some g2) = Inr g'" "graph_Nodes g2 = graph_Nodes g1" "graph_Edges g2 = graph_Edges g1"
    "settings g2 = settings g1" "agent_settings g2 = agent_settings g1"
proof -
  obtain g1 where g1: "apply_ops ip (createdByActorRunLocked creators a) a ops (ensure_ui g, t) = Inr (g1, t')"
      "ValidateGraphForStorage (NormalizeLogicGates (Some g1)) = Inr g'"
    using assms by (auto simp: applyGraphOpsLocked_def split: sum.splits)
  obtain g2 where "NormalizeLogicGates (Some g1) = Some g2" "graph_Nodes g2 = graph_Nodes g1" "graph_Edges g2 = graph_Edges g1"
      "settings g2 = settings g1" "agent_settings g2 = agent_settings g1"
    by (cases "graph_UI g1") (auto simp: NormalizeLogicGates_def settings_def agent_settings_def)
  then show ?thesis using g1 that by simp
qed

lemma ensure_ui_simps [simp]:
  "graph_Nodes (ensure_ui g) = graph_Nodes g" "graph_Edges (ensure_ui g) = graph_Edges g"
  "settings (ensure_ui g) = settings g" "agent_settings (ensure_ui g) = agent_settings g"
  by (simp_all add: ensure_ui_def settings_def agent_settings_def)

lemma dep_rel_cong: "graph_Nodes g' = graph_Nodes g \<Longrightarrow> graph_Edges g' = graph_Edges g \<Longrightarrow> dep_rel g' = dep_rel g \<and> editable g' = editable g"
  by (simp add: dep_rel_def editable_def nodes_of_def)

section \<open>Properties\<close>

text \<open>
  C7. No accepted call of graph commands closes a dependency cycle: on a board whose conditions and required wires are
  acyclic, with ids that are no keywords and conditions that survive being printed, every call that is accepted, whatever
  commands it strings together and whoever sends it, leaves an acyclic board with the same guarantees.
\<close>

theorem ops_keep_acyclic:
  assumes "applyGraphOpsLocked ip creators a ops (g, t) = Inr (g', t')" "editable g" "acyclic (dep_rel g)"
  shows "acyclic (dep_rel g') \<and> editable g'"
proof -
  obtain g1 g2 where c: "apply_ops ip (createdByActorRunLocked creators a) a ops (ensure_ui g, t) = Inr (g1, t')"
    "ValidateGraphForStorage (Some g2) = Inr g'" "graph_Nodes g2 = graph_Nodes g1" "graph_Edges g2 = graph_Edges g1"
    using call_parts [OF assms(1)] by metis
  have "dep_rel (ensure_ui g) = dep_rel g \<and> editable (ensure_ui g) = editable g" by (rule dep_rel_cong) simp_all
  then have "editable g1 \<and> acyclic (dep_rel g1)" using ops_steps [OF c(1)] assms(2,3) by simp
  then show ?thesis using storage_deps [OF c(2)] dep_rel_cong [OF c(3,4)] by simp
qed


end
