(* ===== verification/Storage_Fixpoint.thy ===== *)
theory Storage_Fixpoint
  imports Storage_Facts
begin

text \<open>
  The normal form of a stored graph: the check before a write accepts what it produced and changes nothing more, and
  what it accepts is well-formed.
\<close>

section \<open>Decorations\<close>

lemma consider_wire_skip:
  "live key \<or> has_prefix key ''gate:'' \<or> has_prefix key ''logic:'' \<Longrightarrow> consider_wire g key (es, live) = (es, live)"
  unfolding consider_wire_def by simp

lemma fold_skip:
  "\<forall>key\<in>set keys. live key \<or> has_prefix key ''gate:'' \<or> has_prefix key ''logic:'' \<Longrightarrow>
     fold (consider_wire g) keys (es, live) = (es, live)"
  by (induction keys) (simp_all add: consider_wire_skip)

lemma wire_alive_skip: "wire_alive g ui key \<Longrightarrow> edgeKeys g key \<or> has_prefix key ''gate:'' \<or> has_prefix key ''logic:''"
  unfolding wire_alive_def cut_prefix_def by (simp split: if_splits)

definition swept :: "graph \<Rightarrow> bool" where
  "swept g \<longleftrightarrow>
     (case graph_UI g of
        None \<Rightarrow> True
      | Some ui \<Rightarrow> (\<forall>(key, _)\<in>set (ui_EdgeLabels ui). edgeKeys g key) \<and> (\<forall>(key, _)\<in>set (ui_WireVertices ui). wire_alive g ui key))"

lemma swept_materialize:
  assumes "swept g"
  shows "materializeRequiresWires g = g"
proof (cases "graph_UI g")
  case (Some ui)
  have "fold (consider_wire g) (map fst (ui_WireVertices ui) @ map fst (ui_EdgeLabels ui)) (graph_Edges g, edgeKeys g) =
      (graph_Edges g, edgeKeys g)"
  proof (rule fold_skip, rule ballI)
    fix key
    assume "key \<in> set (map fst (ui_WireVertices ui) @ map fst (ui_EdgeLabels ui))"
    then have "wire_alive g ui key \<or> edgeKeys g key" using assms Some by (auto simp: swept_def)
    then show "edgeKeys g key \<or> has_prefix key ''gate:'' \<or> has_prefix key ''logic:''" using wire_alive_skip by blast
  qed
  then show ?thesis using Some by (simp add: materializeRequiresWires_def)
qed (simp add: materializeRequiresWires_def)

lemma swept_prune: "swept g \<Longrightarrow> pruneEdgeDecorations g = g"
proof (cases "graph_UI g")
  case (Some ui)
  assume "swept g"
  then have "filter (\<lambda>(key, _). edgeKeys g key) (ui_EdgeLabels ui) = ui_EdgeLabels ui"
    "filter (\<lambda>(key, _). wire_alive g ui key) (ui_WireVertices ui) = ui_WireVertices ui"
    using Some by (auto simp: swept_def intro!: filter_True)
  then show ?thesis using Some by (simp add: pruneEdgeDecorations_def)
qed (simp add: pruneEdgeDecorations_def)

lemma edgeKeys_cong:
  assumes "graph_Edges g' = graph_Edges g"
  shows "edgeKeys g' = edgeKeys g"
  unfolding edgeKeys_def [abs_def] assms ..

lemma wire_alive_cong:
  assumes "graph_Edges g' = graph_Edges g" "map node_ID (nodes_of g') = map node_ID (nodes_of g)" "ui_LogicGates ui' = ui_LogicGates ui"
  shows "wire_alive g' ui' key = wire_alive g ui key"
proof -
  have "list_ex (\<lambda>n. node_ID n = target) (nodes_of g') = list_ex (\<lambda>n. node_ID n = target) (nodes_of g)" for target
    using arg_cong [OF assms(2), of "\<lambda>xs. target \<in> set xs"] by (auto simp: list_ex_iff image_iff)
  then show ?thesis unfolding wire_alive_def edgeKeys_cong [OF assms(1)] assms(3) by (simp only:)
qed

lemma swept_result:
  assumes "graph_Edges g' = graph_Edges g" "map node_ID (nodes_of g') = map node_ID (nodes_of g)"
    "graph_UI g' = graph_UI (pruneEdgeDecorations g)"
  shows "swept g'"
proof (cases "graph_UI g")
  case (Some ui)
  then have "graph_UI g' = Some (ui\<lparr>ui_EdgeLabels := filter (\<lambda>(key, _). edgeKeys g key) (ui_EdgeLabels ui),
      ui_WireVertices := filter (\<lambda>(key, _). wire_alive g ui key) (ui_WireVertices ui)\<rparr>)"
    using assms(3) by (simp add: pruneEdgeDecorations_def)
  then show ?thesis using wire_alive_cong [OF assms(1,2)] edgeKeys_cong [OF assms(1)] by (auto simp: swept_def)
qed (use assms(3) in \<open>simp add: swept_def pruneEdgeDecorations_def\<close>)

section \<open>Nodes\<close>

lemma stored_node_fields [simp]:
  "node_Title (stored_node n) = node_Title n" "node_Kind (stored_node n) = node_Kind n" "node_Priority (stored_node n) = node_Priority n"
  "node_Assignee (stored_node n) = node_Assignee n" "node_Tags (stored_node n) = node_Tags n" "node_Effects (stored_node n) = node_Effects n"
  "node_Links (stored_node n) = node_Links n" "node_Refs (stored_node n) = node_Refs n" "node_Workflow (stored_node n) = node_Workflow n"
  "node_WriteAccess (stored_node n) = normalizeWriteAccess (node_WriteAccess n)"
  "node_Acceptance (stored_node n) = node_Acceptance (number_criteria n)"
  by (simp_all add: stored_node_def normalize_access_def number_criteria_def)

lemma normalizeWriteAccess_idem [simp]: "normalizeWriteAccess (normalizeWriteAccess v) = normalizeWriteAccess v"
  by (simp add: normalizeWriteAccess_def)

lemma check_refs_cong: "node_ID n = node_ID m \<Longrightarrow> check_refs n seen rs = check_refs m seen rs"
  by (induction rs arbitrary: seen) auto

lemma validate_stored_node [simp]: "validateNodeForStorage (stored_node n) userIDs = validateNodeForStorage n userIDs"
  unfolding validateNodeForStorage_def stored_node_fields stored_node_simps normalizeWriteAccess_idem
  by (simp only: check_refs_cong [of "stored_node n" n, OF stored_node_simps(1)])

lemma check_stored_nodes: "check_nodes userIDs index ids (map (map_option stored_node) nos) = check_nodes userIDs index ids nos"
proof (induction nos arbitrary: index ids)
  case (Cons no nos)
  show ?case
    by (cases no) (simp_all only: list.map option.map check_nodes.simps option.case validate_stored_node stored_node_simps Cons)
qed simp

lemma nodeTypeByID_cong:
  assumes "graph_NodeTypes g' = graph_NodeTypes g"
  shows "nodeTypeByID (Some g') i = nodeTypeByID (Some g) i"
  unfolding nodeTypeByID_def option.case assms ..

lemma TypeOfKind_cong:
  assumes "graph_NodeTypes g' = graph_NodeTypes g"
  shows "TypeOfKind (Some g') kind = TypeOfKind (Some g) kind"
  unfolding TypeOfKind_def nodeTypeByID_cong [OF assms] ..

lemma TypeOf_stored:
  "graph_NodeTypes g' = graph_NodeTypes g \<Longrightarrow> TypeOf (Some g') (Some (stored_node n)) = TypeOf (Some g) (Some n)"
  unfolding TypeOf_def option.case stored_node_fields by (rule TypeOfKind_cong)

lemma assign_ids_id: "\<forall>item\<in>set items. item_ID item \<noteq> [] \<Longrightarrow> assign_ids m items = items"
  by (induction items) auto

lemma valid_items_named: "validate_items seen items = Inr () \<Longrightarrow> \<forall>item\<in>set items. item_ID item \<noteq> []"
  by (induction items arbitrary: seen) (auto split: if_splits simp: acceptanceIDPattern_def)

lemma validate_overrides_stored:
  assumes "graph_NodeTypes g' = graph_NodeTypes g"
  shows "validate_overrides g' (map stored_node ns) = validate_overrides g ns"
proof (induction ns)
  case (Cons n ns)
  show ?case
    by (simp only: list.map validate_overrides.simps stored_node_fields stored_node_simps TypeOf_stored [OF assms] Cons)
qed simp

lemma number_criteria_fix:
  assumes "criteria_error g n = None"
  shows "node_Acceptance (number_criteria (stored_node n)) = node_Acceptance (number_criteria n)"
proof (cases "node_Acceptance n")
  case (Some acc)
  let ?items = "slice (AssignAcceptanceIDs (Some (acc_Items acc)))"
  have acc: "node_Acceptance (number_criteria n) = Some (acc\<lparr>acc_Items := ?items\<rparr>)"
    by (simp add: number_criteria_def Some)
  have "ValidateNodeAcceptance (Some g) (Some (number_criteria n)) = Inr ()"
    using assms Some by (auto simp: criteria_error_def split: sum.splits)
  then have "ValidateAcceptanceItems ?items = Inr ()"
    unfolding ValidateNodeAcceptance_def option.case acc by (simp split: if_splits)
  then have "\<forall>item\<in>set ?items. item_ID item \<noteq> []"
    by (intro valid_items_named [of no_keys]) (simp add: ValidateAcceptanceItems_def split: if_splits)
  then have "slice (AssignAcceptanceIDs (Some ?items)) = ?items"
    unfolding AssignAcceptanceIDs_def [of "Some ?items"] option.case slice_simps by (rule assign_ids_id)
  then show ?thesis
    unfolding number_criteria_def [of "stored_node n"] stored_node_fields acc by simp
qed (simp add: number_criteria_def)

lemma criteria_error_stored:
  assumes "graph_NodeTypes g' = graph_NodeTypes g" "criteria_error g n = None"
  shows "criteria_error g' (stored_node n) = None"
proof (cases "node_Acceptance n = None")
  case False
  have "ValidateNodeAcceptance (Some g) (Some (number_criteria n)) = Inr ()"
    using assms(2) False by (auto simp: criteria_error_def split: sum.splits)
  moreover have kind: "node_Kind (number_criteria m) = node_Kind m" "node_ID (number_criteria m) = node_ID m" for m
    by (simp_all add: number_criteria_def)
  have types: "TypeOf (Some g') (Some (number_criteria (stored_node n))) = TypeOf (Some g) (Some (number_criteria n))"
    unfolding TypeOf_def option.case kind stored_node_fields by (rule TypeOfKind_cong [OF assms(1)])
  have "ValidateNodeAcceptance (Some g') (Some (number_criteria (stored_node n))) = ValidateNodeAcceptance (Some g) (Some (number_criteria n))"
    unfolding ValidateNodeAcceptance_def AcceptanceAllowed_def option.case number_criteria_fix [OF assms(2)] kind types stored_node_simps ..
  ultimately show ?thesis by (simp add: criteria_error_def)
qed (simp add: criteria_error_def number_criteria_def)

lemma number_stored_node:
  assumes "criteria_error g n = None"
  shows "number_criteria (stored_node n) = stored_node n"
  using number_criteria_fix [OF assms] stored_node_fields(11) [of n]
  unfolding number_criteria_def [of "stored_node n"] by (cases "stored_node n") simp

lemma stored_node_idem: "criteria_error g n = None \<Longrightarrow> stored_node (stored_node n) = stored_node n"
  using number_stored_node [of g n] by (simp add: stored_node_def normalize_access_def)

section \<open>The check again\<close>

lemma parts_error_stored:
  assumes g': "g' = g\<lparr>graph_Nodes := map (map_option stored_node) (graph_Nodes g)\<rparr>" and ok: "parts_error g = None"
  shows "parts_error g' = None"
proof -
  have nodes: "nodes_of g' = map stored_node (nodes_of g)" by (rule nodes_of_map) (simp add: g')
  have types: "graph_NodeTypes g' = graph_NodeTypes g" by (simp add: g')
  have "\<forall>n\<in>set (nodes_of g). criteria_error g n = None" using ok by (simp add: parts_error_def list_all_iff)
  then have "\<forall>n\<in>set (nodes_of g'). criteria_error g' n = None" using criteria_error_stored [OF types] by (simp add: nodes)
  moreover have "ValidateGraphWorkflows (Some g') = ValidateGraphWorkflows (Some g)"
    unfolding ValidateGraphWorkflows_def option.case nodes validate_overrides_stored [OF types] by (simp add: g')
  moreover have "node_ids_of g' = node_ids_of g" by (simp add: node_ids_of_def fun_eq_iff nodes image_image)
  ultimately show ?thesis using ok
    by (auto simp: g' parts_error_def check_stored_nodes list_all_iff cong: option.case_cong)
qed

lemma storage_fixpoint:
  assumes "ValidateGraphForStorage (Some g) = Inr g'"
  shows "ValidateGraphForStorage (Some g') = Inr g'"
proof -
  let ?p = "pruneEdgeDecorations (materializeRequiresWires g)"
  have g': "g' = ?p\<lparr>graph_Nodes := map (map_option stored_node) (graph_Nodes ?p)\<rparr>"
    using storage_result(1) [OF assms] by simp
  have sizes: "sizes_error g = None" and parts: "parts_error ?p = None" by (rule storage_result [OF assms])+
  have nodes: "nodes_of g' = map stored_node (nodes_of g)" by (rule nodes_of_map) (simp add: g')
  have "swept g'"
  proof (rule swept_result [of g' "materializeRequiresWires g"])
    show "map node_ID (nodes_of g') = map node_ID (nodes_of (materializeRequiresWires g))" by (simp add: nodes)
  qed (simp_all add: g')
  then have sw: "materializeRequiresWires g' = g'" "pruneEdgeDecorations g' = g'"
    using swept_materialize swept_prune by blast+
  have gates: "gates_of g' = gates_of g"
    by (simp add: g' gates_of_def pruneEdgeDecorations_def split: option.split)
  have "length (graph_Edges g') \<le> maxGraphEdges" using parts by (simp add: parts_error_def g')
  moreover have "length (graph_Nodes g') = length (graph_Nodes g)" by (simp add: g')
  ultimately have "sizes_error g' = None"
    using sizes by (simp add: sizes_error_def gates nodes checkNodeTextSize_def list_all_iff)
  moreover have "parts_error g' = None" by (rule parts_error_stored [OF g' parts])
  moreover have "map (map_option stored_node) (graph_Nodes g') = graph_Nodes g'"
  proof -
    have "stored_node (stored_node n) = stored_node n" if "Some n \<in> set (graph_Nodes ?p)" for n
      using parts that by (intro stored_node_idem [of ?p]) (auto simp: parts_error_def list_all_iff set_nodes_of)
    then have "map_option stored_node (map_option stored_node no) = map_option stored_node no" if "no \<in> set (graph_Nodes ?p)" for no
      using that by (cases no) auto
    then show ?thesis by (simp add: g')
  qed
  ultimately show ?thesis by (simp add: ValidateGraphForStorage_def sw Let_def)
qed

section \<open>What is accepted\<close>

lemma check_nodes_None:
  "check_nodes users k ids nos = None \<Longrightarrow>
     None \<notin> set nos \<and> distinct (map node_ID (List.map_filter id nos)) \<and>
     (\<forall>n\<in>set (List.map_filter id nos). \<not> ids (node_ID n) \<and> ValidNodeID (node_ID n) \<and> validateNodeForStorage n users = None)"
proof (induction nos arbitrary: k ids)
  case (Cons no nos)
  then obtain n where n: "no = Some n" "ValidNodeID (node_ID n)" "\<not> ids (node_ID n)" "validateNodeForStorage n users = None"
      "check_nodes users (k + 1) (ids(node_ID n := True)) nos = None"
    by (auto split: option.splits if_splits)
  show ?case using Cons.IH [OF n(5)] n(1-4) by (auto simp: List.map_filter_simps split: if_splits)
qed simp

lemma check_outputs_Inr:
  "check_outputs ids i seen owner os = Inr owner' \<Longrightarrow>
     (\<forall>x\<in>set os. ids x \<and> \<not> seen x \<and> owner x = None) \<and> distinct os \<and> dom owner' = dom owner \<union> set os"
proof (induction os arbitrary: seen owner)
  case (Cons x os)
  then have x: "ids x" "\<not> seen x" "owner x = None" "check_outputs ids i (seen(x := True)) (owner(x \<mapsto> i)) os = Inr owner'"
    by (auto split: if_splits option.splits)
  show ?case using Cons.IH [OF x(4)] x(1-3) by (auto split: if_splits)
qed simp

lemma check_inputs_None: "check_inputs ids seen is = None \<Longrightarrow> \<forall>x\<in>set is. ids x"
  by (induction "is" arbitrary: seen) (auto split: if_splits)

lemma check_gates_None:
  "check_gates ids k gateIDs owner gates = None \<Longrightarrow>
     (\<forall>gate\<in>set gates. \<forall>x\<in>set (inputs_of gate) \<union> set (OutputNodes gate). ids x) \<and>
     distinct (concat (map OutputNodes gates)) \<and> (\<forall>gate\<in>set gates. set (OutputNodes gate) \<inter> dom owner = {})"
proof (induction gates arbitrary: k gateIDs owner)
  case (Cons gate gates)
  then obtain owner' where c: "check_gate ids gateIDs k gate = None"
      "check_outputs ids (gate_ID gate) no_keys owner (OutputNodes gate) = Inr owner'"
      "check_gates ids (k + 1) (gateIDs(gate_ID gate := True)) owner' gates = None"
    by (auto split: option.splits sum.splits if_splits)
  have "\<forall>x\<in>set (inputs_of gate). ids x" using c(1) check_inputs_None by (auto simp: check_gate_def)
  moreover have out: "\<forall>x\<in>set (OutputNodes gate). ids x \<and> owner x = None" "distinct (OutputNodes gate)"
    "dom owner' = dom owner \<union> set (OutputNodes gate)"
    using check_outputs_Inr [OF c(2)] by blast+
  moreover note later = Cons.IH [OF c(3)]
  moreover have "set (OutputNodes gate) \<inter> dom owner = {}" using out(1) by auto
  moreover have "set (OutputNodes gate) \<inter> set (concat (map OutputNodes gates)) = {}" using out(3) later by auto
  moreover have "\<forall>gate\<in>set gates. set (OutputNodes gate) \<inter> dom owner = {}" using out(3) later by blast
  moreover have "\<forall>x\<in>set (inputs_of gate) \<union> set (OutputNodes gate). ids x"
    using \<open>\<forall>x\<in>set (inputs_of gate). ids x\<close> out(1) by blast
  ultimately show ?case by simp
qed simp

lemma check_edge_null: "check_edge (k, None) \<noteq> None"
  by (simp add: check_edge_def)

lemma check_edges_None: "\<forall>ie\<in>set (enumerate k es). check_edge ie = None \<Longrightarrow> None \<notin> set es"
proof (induction es arbitrary: k)
  case (Cons e es)
  then have "check_edge (k, e) = None" "\<forall>ie\<in>set (enumerate (Suc k) es). check_edge ie = None" by simp_all
  then have "e \<noteq> None" "None \<notin> set es" using check_edge_null Cons.IH by metis+
  then show ?case by auto
qed simp

lemma check_refs_seen: "check_refs n seen rs = None \<Longrightarrow> r \<in> set rs \<Longrightarrow> \<not> seen r"
proof (induction rs arbitrary: seen)
  case (Cons x rs)
  then have "check_refs n (seen(x := True)) rs = None" "\<not> seen x" by (simp_all split: if_splits)
  then show ?case using Cons.IH [of "seen(x := True)"] Cons.prems(2) by (metis fun_upd_apply set_ConsD)
qed simp

lemma check_refs_None: "check_refs n seen rs = None \<Longrightarrow> distinct rs \<and> node_ID n \<notin> set rs"
proof (induction rs arbitrary: seen)
  case (Cons r rs)
  then have r: "check_refs n (seen(r := True)) rs = None" "r \<noteq> node_ID n" by (simp_all split: if_splits)
  then show ?case using Cons.IH [OF r(1)] check_refs_seen [OF r(1), of r] by auto
qed simp

definition node_stored_ok :: "graph \<Rightarrow> node \<Rightarrow> bool" where
  "node_stored_ok g n \<longleftrightarrow> ValidNodeID (node_ID n) \<and> distinct (node_Refs n) \<and> node_ID n \<notin> set (node_Refs n) \<and>
     ValidateNodeAcceptance (Some g) (Some n) = Inr ()"

definition gate_stored_ok :: "graph \<Rightarrow> logic_gate \<Rightarrow> bool" where
  "gate_stored_ok g gate \<longleftrightarrow> set (inputs_of gate) \<union> set (OutputNodes gate) \<subseteq> node_ID ` set (nodes_of g)"

lemma stored_parts:
  assumes "ValidateGraphForStorage (Some g) = Inr g'"
  shows "parts_error g' = None \<and> (\<forall>n\<in>set (nodes_of g'). number_criteria n = n)"
proof -
  let ?p = "pruneEdgeDecorations (materializeRequiresWires g)"
  have g': "g' = ?p\<lparr>graph_Nodes := map (map_option stored_node) (graph_Nodes ?p)\<rparr>"
    using storage_result(1) [OF assms] by simp
  have parts: "parts_error ?p = None" by (rule storage_result [OF assms])+
  have nodes: "nodes_of g' = map stored_node (nodes_of ?p)" by (rule nodes_of_map) (simp add: g')
  have "\<forall>n\<in>set (nodes_of ?p). criteria_error ?p n = None" using parts by (simp add: parts_error_def list_all_iff)
  then have "\<forall>n\<in>set (nodes_of g'). number_criteria n = n" using number_stored_node by (auto simp: nodes)
  then show ?thesis using parts_error_stored [OF g' parts] by blast
qed

section \<open>Properties\<close>

text \<open>
  C24. The check before a write has a normal form: what it accepts and rewrites is accepted again, and written again
  exactly as it is. Criterion ids, write access, decorations and the edges of bent wires are settled by the first pass.
\<close>

theorem storage_check_fixpoint:
  assumes "ValidateGraphForStorage (Some g) = Inr g'"
  shows "ValidateGraphForStorage (Some g') = Inr g'"
  using assms by (rule storage_fixpoint)

text \<open>
  C23. A stored graph is well-formed: no null entries, distinct valid node ids, references without repetition or
  self-reference, criteria, types, roles and workflows that pass their own checks, gates wired to existing nodes, and
  at most one gate per output.
\<close>

theorem stored_graph_wellformed:
  assumes "ValidateGraphForStorage (Some g) = Inr g'"
  shows "None \<notin> set (graph_Nodes g') \<and> None \<notin> set (graph_Edges g') \<and> distinct (map node_ID (nodes_of g')) \<and>
    list_all (node_stored_ok g') (nodes_of g') \<and> ValidateNodeTypeDefs (graph_NodeTypes g') = Inr () \<and>
    ValidateAgentRoleDefs (graph_AgentRoles g') = Inr () \<and> ValidateGraphWorkflows (Some g') = Inr () \<and>
    list_all (gate_stored_ok g') (gates_of g') \<and> distinct (concat (map OutputNodes (gates_of g')))"
proof -
  have parts: "parts_error g' = None" and num: "\<And>n. n \<in> set (nodes_of g') \<Longrightarrow> number_criteria n = n"
    using stored_parts [OF assms] by blast+
  have nodes: "check_nodes (\<lambda>u. u \<in> user_ID ` set (graph_Users g')) 0 no_keys (graph_Nodes g') = None"
    and edges: "\<forall>ie\<in>set (enumerate 0 (graph_Edges g')). check_edge ie = None"
    and crit: "\<forall>n\<in>set (nodes_of g'). criteria_error g' n = None"
    and ui: "(case graph_UI g' of None \<Rightarrow> None | Some ui \<Rightarrow> check_ui (node_ids_of g') ui) = None"
    and defs: "left_error BadTypeDefs (ValidateNodeTypeDefs (graph_NodeTypes g')) = None"
      "left_error BadRoleDefs (ValidateAgentRoleDefs (graph_AgentRoles g')) = None"
      "left_error BadWorkflows (ValidateGraphWorkflows (Some g')) = None"
    using parts by (simp_all add: parts_error_def list_all_iff)
  have right: "left_error f r = None \<Longrightarrow> r = Inr ()" for f :: "'e \<Rightarrow> storage_error" and r :: "'e + unit"
    by (auto simp: left_error_def split: sum.splits)
  have accepted: "node_stored_ok g' n" if n: "n \<in> set (nodes_of g')" for n
  proof -
    have v: "ValidNodeID (node_ID n)" "validateNodeForStorage n (\<lambda>u. u \<in> user_ID ` set (graph_Users g')) = None"
      using check_nodes_None [OF nodes] n unfolding nodes_of_def by blast+
    have "check_refs n no_keys (node_Refs n) = None" using v(2) by (simp add: validateNodeForStorage_def)
    moreover have "ValidateNodeAcceptance (Some g') (Some n) = Inr ()"
    proof (cases "node_Acceptance n")
      case None
      then show ?thesis by (simp add: ValidateNodeAcceptance_def)
    next
      case (Some acc)
      have "criteria_error g' n = None" using crit n by blast
      then show ?thesis unfolding criteria_error_def num [OF n] Some option.case by (simp split: sum.splits)
    qed
    ultimately show ?thesis using v(1) check_refs_None unfolding node_stored_ok_def by blast
  qed
  have gates: "list_all (gate_stored_ok g') (gates_of g') \<and> distinct (concat (map OutputNodes (gates_of g')))"
  proof (cases "graph_UI g'")
    case (Some x)
    then have "check_gates (node_ids_of g') 0 no_keys Map.empty (gates_of g') = None"
      using ui by (simp add: check_ui_def Let_def gates_of_def)
    then show ?thesis using check_gates_None [of "node_ids_of g'" 0 no_keys Map.empty "gates_of g'"]
      by (auto simp: list_all_iff gate_stored_ok_def node_ids_of_def)
  qed (simp add: gates_of_def)
  show ?thesis
    using check_nodes_None [OF nodes] check_edges_None [OF edges] accepted gates defs [THEN right]
    by (simp add: nodes_of_def list_all_iff)
qed

end
