(* ===== verification/Node_Delete.thy ===== *)
theory Node_Delete
  imports Storage_Facts
begin

text \<open>
  Deleting nodes (\<^verbatim>\<open>DeleteNodes\<close> and \<^verbatim>\<open>detachRemovedNodes\<close> of \<^verbatim>\<open>internal/store/graph_crud.go\<close>, \<^verbatim>\<open>removeNodeUIState\<close> of
  \<^verbatim>\<open>graph_cleanup.go\<close>): the decision and the graph that is written. Moving the documents to the trash is not modelled.
\<close>

section \<open>Repairing what stays\<close>

definition detach_refs :: "string boolmap \<Rightarrow> node \<Rightarrow> node" where
  "detach_refs removing n =
     (if length (node_Refs n) = 0 then n else n\<lparr>node_Refs := filter (\<lambda>r. \<not> removing r) (node_Refs n)\<rparr>)"

definition detach_requires :: "(nat \<Rightarrow> bool) \<Rightarrow> string boolmap \<Rightarrow> node \<Rightarrow> node" where
  "detach_requires ip removing n =
     (if node_Requires n = [] then n
      else (case RequiresExpr n of
              Inr (Some e) \<Rightarrow>
                if \<not> list_ex removing (NodeRefs (Some e)) then n
                else n\<lparr>node_Requires := (case PruneNodeRefs removing e of Some p \<Rightarrow> Expr_String ip p | None \<Rightarrow> [])\<rparr>
            | _ \<Rightarrow> n))"

definition detach_gate :: "string boolmap \<Rightarrow> logic_gate \<Rightarrow> logic_gate option" where
  "detach_gate removing gate =
     (let wired = length (OutputNodes gate) > 0;
          gate1 = (if length (gate_Outputs gate) > 0
                   then gate\<lparr>gate_Outputs := filter (\<lambda>o1. \<not> removing o1) (gate_Outputs gate)\<rparr> else gate)
      in if removing (gate_Output gate1) \<or> (wired \<and> length (OutputNodes gate1) = 0) then None
         else
           let gate2 = gate1\<lparr>gate_Inputs := map_option (filter (\<lambda>i. \<not> removing i)) (gate_Inputs gate1)\<rparr>
           in if length (inputs_of gate2) = 0 then None else Some gate2)"

definition detachRemovedNodes :: "(nat \<Rightarrow> bool) \<Rightarrow> graph \<Rightarrow> node option list \<Rightarrow> string boolmap \<Rightarrow> graph" where
  "detachRemovedNodes ip g kept removing =
     map_ui (\<lambda>ui. ui\<lparr>ui_LogicGates := List.map_filter (detach_gate removing) (ui_LogicGates ui)\<rparr>)
       (g\<lparr>graph_Nodes := map (map_option (detach_requires ip removing \<circ> detach_refs removing)) kept\<rparr>)"

definition gomap_keep :: "('k \<Rightarrow> bool) \<Rightarrow> ('k, 'v) gomap \<Rightarrow> ('k, 'v) gomap" where
  "gomap_keep P m = filter (\<lambda>(k, _). P k) m"

definition wire_stays :: "string boolmap \<Rightarrow> string boolmap \<Rightarrow> string \<Rightarrow> bool" where
  "wire_stays removing liveEdges key =
     (case cut_prefix key ''gate:'' of Some target \<Rightarrow> \<not> removing target | None \<Rightarrow> liveEdges key)"

definition removeNodeUIState :: "graph \<Rightarrow> string boolmap \<Rightarrow> graph" where
  "removeNodeUIState g removing =
     map_ui (\<lambda>ui. ui\<lparr>
         ui_Positions := gomap_keep (\<lambda>i. \<not> removing i) (ui_Positions ui),
         ui_Gates := gomap_keep (\<lambda>i. \<not> removing i) (ui_Gates ui),
         ui_Plans := gomap_keep (\<lambda>i. \<not> removing i) (ui_Plans ui),
         ui_NodeStyles := gomap_keep (\<lambda>i. \<not> removing i) (ui_NodeStyles ui),
         ui_EntryOverrides := gomap_keep (\<lambda>i. \<not> removing i) (ui_EntryOverrides ui),
         ui_TimelineOrder := filter (\<lambda>i. \<not> removing i) (ui_TimelineOrder ui),
         ui_EdgeLabels := gomap_keep (edgeKeys g) (ui_EdgeLabels ui),
         ui_WireVertices := gomap_keep (wire_stays removing (edgeKeys g)) (ui_WireVertices ui)\<rparr>) g"

section \<open>Deleting\<close>

datatype delete_error = NoNodeIDs | BadNodeID | DeleteDenied denial | NoSuchNode string

definition removed_node :: "string boolmap \<Rightarrow> node option \<Rightarrow> bool" where
  "removed_node removing no = (case no of None \<Rightarrow> False | Some n \<Rightarrow> removing (node_ID n))"

definition edge_stays :: "string boolmap \<Rightarrow> edge option \<Rightarrow> bool" where
  "edge_stays removing eo = (case eo of None \<Rightarrow> False | Some e \<Rightarrow> \<not> (removing (edge_From e) \<or> removing (edge_To e)))"

definition DeleteNodes :: "(nat \<Rightarrow> bool) \<Rightarrow> actor \<Rightarrow> graph \<Rightarrow> string list \<Rightarrow> delete_error + graph" where
  "DeleteNodes ip a g ids =
     (if length ids = 0 then Inl NoNodeIDs
      else if \<not> list_all ValidNodeID ids then Inl BadNodeID
      else
        let removing = (\<lambda>i. i \<in> set ids); unique = dedupe_from no_keys ids;
            gone = filter (removed_node removing) (graph_Nodes g);
            kept = filter (\<lambda>no. \<not> removed_node removing no) (graph_Nodes g)
        in (case checkRoleDelete a (hd unique) of
              Some err \<Rightarrow> Inl (DeleteDenied err)
            | None \<Rightarrow>
                (case first_match (\<lambda>no. checkNodeWrite a no \<noteq> None) gone of
                   Some no \<Rightarrow> Inl (DeleteDenied (the (checkNodeWrite a no)))
                 | None \<Rightarrow>
                     (case first_match (\<lambda>i. \<not> list_ex (\<lambda>no. map_option node_ID no = Some i) gone) unique of
                        Some i \<Rightarrow> Inl (NoSuchNode i)
                      | None \<Rightarrow>
                          let g1 = detachRemovedNodes ip g kept removing;
                              g2 = g1\<lparr>graph_Edges := filter (edge_stays removing) (graph_Edges g1)\<rparr>
                          in Inr (removeNodeUIState g2 removing)))))"

section \<open>What deleting leaves\<close>

lemma DeleteNodes_Inr:
  assumes "DeleteNodes ip a g ids = Inr g'"
  shows "(\<forall>n\<in>set (nodes_of g). node_ID n \<in> set ids \<longrightarrow> checkNodeWrite a (Some n) = None) \<and> \<not> HasRole a \<and>
    set ids \<subseteq> node_ID ` set (nodes_of g) \<and>
    (let removing = (\<lambda>i. i \<in> set ids);
         kept = filter (\<lambda>no. \<not> removed_node removing no) (graph_Nodes g);
         g1 = detachRemovedNodes ip g kept removing
     in g' = removeNodeUIState (g1\<lparr>graph_Edges := filter (edge_stays removing) (graph_Edges g1)\<rparr>) removing)"
proof -
  let ?removing = "\<lambda>i. i \<in> set ids"
  let ?unique = "dedupe_from no_keys ids"
  let ?gone = "filter (removed_node ?removing) (graph_Nodes g)"
  have role: "checkRoleDelete a (hd ?unique) = None"
    and access: "first_match (\<lambda>no. checkNodeWrite a no \<noteq> None) ?gone = None"
    and found: "first_match (\<lambda>i. \<not> list_ex (\<lambda>no. map_option node_ID no = Some i) ?gone) ?unique = None"
    and result: "let kept = filter (\<lambda>no. \<not> removed_node ?removing no) (graph_Nodes g);
         g1 = detachRemovedNodes ip g kept ?removing
     in g' = removeNodeUIState (g1\<lparr>graph_Edges := filter (edge_stays ?removing) (graph_Edges g1)\<rparr>) ?removing"
    using assms by (auto simp: DeleteNodes_def Let_def split: if_splits option.splits)
  have "checkNodeWrite a (Some n) = None" if "n \<in> set (nodes_of g)" "node_ID n \<in> set ids" for n
    using access that by (auto simp: set_nodes_of removed_node_def)
  moreover have "i \<in> node_ID ` set (nodes_of g)" if "i \<in> set ids" for i
  proof -
    have "i \<in> set ?unique" using that by (simp add: set_dedupe_from)
    then have "\<exists>no\<in>set (graph_Nodes g). map_option node_ID no = Some i"
      using found by (force simp: list_ex_iff)
    then show ?thesis by (auto simp: set_nodes_of)
  qed
  ultimately show ?thesis using role result by (auto simp: checkRoleDelete_def split: if_splits)
qed

definition detached_ui :: "string boolmap \<Rightarrow> string boolmap \<Rightarrow> ui_state \<Rightarrow> ui_state" where
  "detached_ui removing live ui = ui\<lparr>
         ui_LogicGates := List.map_filter (detach_gate removing) (ui_LogicGates ui),
         ui_Positions := gomap_keep (\<lambda>i. \<not> removing i) (ui_Positions ui),
         ui_Gates := gomap_keep (\<lambda>i. \<not> removing i) (ui_Gates ui),
         ui_Plans := gomap_keep (\<lambda>i. \<not> removing i) (ui_Plans ui),
         ui_NodeStyles := gomap_keep (\<lambda>i. \<not> removing i) (ui_NodeStyles ui),
         ui_EntryOverrides := gomap_keep (\<lambda>i. \<not> removing i) (ui_EntryOverrides ui),
         ui_TimelineOrder := filter (\<lambda>i. \<not> removing i) (ui_TimelineOrder ui),
         ui_EdgeLabels := gomap_keep (live) (ui_EdgeLabels ui),
         ui_WireVertices := gomap_keep (wire_stays removing (live)) (ui_WireVertices ui)\<rparr>"

lemma DeleteNodes_graph:
  assumes "DeleteNodes ip a g ids = Inr g'"
  defines "removing \<equiv> (\<lambda>i. i \<in> set ids)"
  shows "nodes_of g' = map (detach_requires ip removing \<circ> detach_refs removing) (filter (\<lambda>n. node_ID n \<notin> set ids) (nodes_of g))"
    and "graph_Edges g' = filter (edge_stays removing) (graph_Edges g)"
    and "graph_UI g' = map_option (detached_ui removing (edgeKeys g')) (graph_UI g)"
proof -
  let ?kept = "filter (\<lambda>no. \<not> removed_node removing no) (graph_Nodes g)"
  let ?g1 = "detachRemovedNodes ip g ?kept removing"
  let ?g2 = "?g1\<lparr>graph_Edges := filter (edge_stays removing) (graph_Edges ?g1)\<rparr>"
  have g': "g' = removeNodeUIState ?g2 removing"
    using DeleteNodes_Inr [OF assms(1)] by (simp add: Let_def removing_def)
  have stay: "List.map_filter id ?kept = filter (\<lambda>n. node_ID n \<notin> set ids) (nodes_of g)" for nos
  proof -
    have "List.map_filter id (filter (\<lambda>no. \<not> removed_node removing no) nos) =
        filter (\<lambda>n. node_ID n \<notin> set ids) (List.map_filter id nos)" for nos :: "node option list"
      by (induction nos) (auto simp: List.map_filter_simps removed_node_def removing_def split: option.splits)
    then show ?thesis by (simp add: nodes_of_def)
  qed
  have "nodes_of g' = map (detach_requires ip removing \<circ> detach_refs removing) (List.map_filter id ?kept)"
    using nodes_of_map [of g' _ "g\<lparr>graph_Nodes := ?kept\<rparr>"]
    by (simp add: g' removeNodeUIState_def detachRemovedNodes_def map_ui_def nodes_of_def)
  then show "nodes_of g' = map (detach_requires ip removing \<circ> detach_refs removing) (filter (\<lambda>n. node_ID n \<notin> set ids) (nodes_of g))"
    by (simp only: stay)
  show edges: "graph_Edges g' = filter (edge_stays removing) (graph_Edges g)"
    by (simp add: g' removeNodeUIState_def detachRemovedNodes_def map_ui_def)
  have "edgeKeys g' = edgeKeys ?g2"
    unfolding edgeKeys_def [abs_def] edges by (simp add: detachRemovedNodes_def map_ui_def)
  then show "graph_UI g' = map_option (detached_ui removing (edgeKeys g')) (graph_UI g)"
    unfolding g' removeNodeUIState_def [of ?g2] map_ui_def
    by (simp add: detachRemovedNodes_def map_ui_def option.map_comp comp_def detached_ui_def [abs_def])
qed

lemma detach_refs_simps [simp]:
  "node_ID (detach_refs removing n) = node_ID n" "node_Requires (detach_refs removing n) = node_Requires n"
  "node_Refs (detach_refs removing n) = filter (\<lambda>r. \<not> removing r) (node_Refs n)"
  by (simp_all add: detach_refs_def)

lemma detach_requires_simps [simp]:
  "node_ID (detach_requires ip removing n) = node_ID n" "node_Refs (detach_requires ip removing n) = node_Refs n"
  by (simp_all add: detach_requires_def split: sum.split option.split)

lemma detach_cond:
  assumes "cond_ok (node_Requires n)"
  shows "cond_ok (node_Requires (detach_requires ip removing n)) \<and>
    cond_refs (node_Requires (detach_requires ip removing n)) = {r \<in> cond_refs (node_Requires n). \<not> removing r}"
proof (cases "\<exists>e. Parse (node_Requires n) = Inr (Some e) \<and> list_ex removing (NodeRefs (Some e))")
  case False
  then have "detach_requires ip removing n = n"
    by (auto simp: detach_requires_def RequiresExpr_def split: sum.split option.split)
  then show ?thesis using False assms by (auto simp: cond_refs_def list_ex_iff split: sum.split option.split)
next
  case True
  then obtain e where e: "Parse (node_Requires n) = Inr (Some e)" "list_ex removing (NodeRefs (Some e))" by blast
  then have ok: "expr_ok e" "wrap_left precAnd e \<le> maxNesting" using assms by (auto simp: cond_ok_def)
  have "node_Requires n \<noteq> []" using e(1) by auto
  then have new: "node_Requires (detach_requires ip removing n) = (case PruneNodeRefs removing e of Some p \<Rightarrow> Expr_String ip p | None \<Rightarrow> [])"
    using e by (simp add: detach_requires_def RequiresExpr_def)
  have refs: "(case PruneNodeRefs removing e of None \<Rightarrow> {} | Some p \<Rightarrow> refs_of p) = {r \<in> cond_refs (node_Requires n). \<not> removing r}"
    unfolding refs_of_Prune using e(1) by (simp add: cond_refs_def)
  show ?thesis
  proof (cases "PruneNodeRefs removing e")
    case (Some p)
    then show ?thesis unfolding new
      using printed_cond [of p ip] expr_ok_Prune [OF ok(1) Some] prune_wraps [OF Some, of precAnd] ok(2) refs by simp
  qed (use new refs in simp)
qed

lemma detach_gate_Some:
  assumes "detach_gate removing gate = Some gate'"
  shows "\<not> removing (gate_Output gate') \<and> (\<forall>x\<in>set (gate_Outputs gate') \<union> set (inputs_of gate'). \<not> removing x) \<and> inputs_of gate' \<noteq> []"
  using assms by (auto simp: detach_gate_def Let_def inputs_of_def slice_def split: if_splits option.splits)

lemma map_filter_ex: "y \<in> set (List.map_filter f xs) \<Longrightarrow> \<exists>x\<in>set xs. f x = Some y"
  by (auto simp: List.map_filter_def)

section \<open>Properties\<close>

definition gate_names :: "logic_gate \<Rightarrow> string set" where
  "gate_names gate = insert (gate_Output gate) (set (gate_Outputs gate) \<union> set (inputs_of gate))"

definition ui_names :: "ui_state \<Rightarrow> string set" where
  "ui_names ui = fst ` set (ui_Positions ui) \<union> fst ` set (ui_Gates ui) \<union> fst ` set (ui_Plans ui) \<union> fst ` set (ui_NodeStyles ui) \<union>
     fst ` set (ui_EntryOverrides ui) \<union> set (ui_TimelineOrder ui) \<union> \<Union> (gate_names ` set (ui_LogicGates ui)) \<union>
     {target. \<exists>key\<in>fst ` set (ui_WireVertices ui). cut_prefix key ''gate:'' = Some target}"

definition names_in :: "graph \<Rightarrow> string set" where
  "names_in g = \<Union> {insert (node_ID n) (set (node_Refs n) \<union> cond_refs (node_Requires n)) | n. n \<in> set (nodes_of g)} \<union>
     \<Union> {{edge_From e, edge_To e} | e. Some e \<in> set (graph_Edges g)} \<union>
     (case graph_UI g of None \<Rightarrow> {} | Some ui \<Rightarrow> ui_names ui)"

lemma keep_names: "fst ` set (gomap_keep P m) \<subseteq> {k. P k}"
  by (auto simp: gomap_keep_def)

text \<open>What is left of the nodes, of the dependencies and of the names on the board.\<close>

lemma deleted_cond:
  fixes ip removing n
  assumes "editable g" "n \<in> set (nodes_of g)"
  defines "n' \<equiv> detach_requires ip removing (detach_refs removing n)"
  shows "cond_ok (node_Requires n') \<and> cond_refs (node_Requires n') = {r \<in> cond_refs (node_Requires n). \<not> removing r}"
  using detach_cond [of "detach_refs removing n" ip removing] assms(1,2) by (simp add: editable_def n'_def)

lemma deleted_requires:
  assumes "editable g"
    and nodes: "set ns = (detach_requires ip removing \<circ> detach_refs removing) ` {n \<in> set (nodes_of g). \<not> removing (node_ID n)}"
  shows "requires_rel ns = Restr (requires_rel (nodes_of g)) (- Collect removing)"
    (is "_ = ?rest")
proof
  note cond = deleted_cond [OF assms(1), of _ ip removing]
  show "requires_rel ns \<subseteq> ?rest" using cond by (auto simp: requires_rel_refs nodes)
  show "?rest \<subseteq> requires_rel ns"
  proof
    fix x
    assume "x \<in> ?rest"
    then obtain n r where n: "x = (node_ID n, r)" "n \<in> set (nodes_of g)" "\<not> removing (node_ID n)" "\<not> removing r" "r \<in> cond_refs (node_Requires n)"
      by (auto simp: requires_rel_refs)
    let ?n = "detach_requires ip removing (detach_refs removing n)"
    have "?n \<in> set ns" "x = (node_ID ?n, r)" "r \<in> cond_refs (node_Requires ?n)" using n cond [of n] unfolding nodes by auto
    then show "x \<in> requires_rel ns" unfolding requires_rel_refs by blast
  qed
qed

lemma deleted_ui_names:
  fixes removing keys ui
  defines "ui' \<equiv> detached_ui removing keys ui"
  shows "ui_names ui' \<inter> Collect removing = {}"
proof -
  have "gate_names gate \<inter> Collect removing = {}" if "gate \<in> set (ui_LogicGates ui')" for gate
    using map_filter_ex [of gate "detach_gate removing" "ui_LogicGates ui"] that detach_gate_Some [of removing _ gate]
    by (auto simp: gate_names_def ui'_def detached_ui_def)
  then have "\<Union> (gate_names ` set (ui_LogicGates ui')) \<inter> Collect removing = {}" by blast
  moreover have "\<not> removing target" if "key \<in> fst ` set (ui_WireVertices ui')" "cut_prefix key ''gate:'' = Some target" for key target
    using that keep_names [of "wire_stays removing keys" "ui_WireVertices ui"]
    by (auto simp: ui'_def detached_ui_def wire_stays_def split: option.splits)
  then have "{target. \<exists>key\<in>fst ` set (ui_WireVertices ui'). cut_prefix key ''gate:'' = Some target} \<inter> Collect removing = {}" by blast
  moreover have "set (ui_TimelineOrder ui') \<inter> Collect removing = {}" by (auto simp: ui'_def detached_ui_def)
  moreover have "fst ` set (ui_Positions ui') \<inter> Collect removing = {}" "fst ` set (ui_Gates ui') \<inter> Collect removing = {}"
    "fst ` set (ui_Plans ui') \<inter> Collect removing = {}" "fst ` set (ui_NodeStyles ui') \<inter> Collect removing = {}"
    "fst ` set (ui_EntryOverrides ui') \<inter> Collect removing = {}"
    by (auto simp: ui'_def detached_ui_def gomap_keep_def)
  ultimately show ?thesis unfolding ui_names_def by (simp only: Int_Un_distrib2 Un_empty)
qed


end
