(* ===== verification/Edit_Properties.thy ===== *)
theory Edit_Properties
  imports Storage_Fixpoint Node_Delete "HOL-Library.Code_Target_Nat"
begin

text \<open>
  The edit commands at work: a small board on which every property of the commands is exercised, the commit of a batch,
  and the inputs on which the commands do something else than they mean to.
\<close>

section \<open>A board and commands\<close>

definition blank_op :: "string \<Rightarrow> graph_op" where
  "blank_op kind = \<lparr>op_Kind = kind, op_NodeID = [], op_X = None, op_Y = None, op_Width = None, op_Height = None, op_Title = None,
     op_NodeKind = None, op_Priority = None, op_Assignee = None, op_Deadline = None, op_WriteAccess = None, op_Tags = None,
     op_From = [], op_To = [], op_Relation = None, op_Line = None, op_Order = [], op_Ref = [], op_Acceptance = None,
     op_Workflow = None, op_AgentRoles = []\<rparr>"

definition wire_op :: "string \<Rightarrow> string \<Rightarrow> string \<Rightarrow> graph_op" where
  "wire_op kind src to = (blank_op kind)\<lparr>op_From := src, op_To := to\<rparr>"

text \<open>\<open>b\<close> waits for \<open>a\<close>, which people only may write; the wire between them is drawn and bent.\<close>

definition board :: graph where
  "board = empty_graph\<lparr>graph_Version := 1,
     graph_Nodes := [Some ((plain_node ''a'' [] [])\<lparr>node_WriteAccess := ''human-only''\<rparr>), Some (plain_node ''b'' [] ''a''), Some (plain_node ''c'' [] [])],
     graph_Edges := [Some \<lparr>edge_From = ''a'', edge_To = ''b'', edge_Relation = RelationRequired, edge_Line = []\<rparr>],
     graph_UI := Some (empty_ui\<lparr>ui_WireVertices := [(''a->b'', [])], ui_TimelineOrder := [''a'', ''b'']\<rparr>)\<rparr>"

abbreviation all_printable :: "nat \<Rightarrow> bool" where "all_printable \<equiv> \<lambda>_. True"
abbreviation no_creators :: "string \<Rightarrow> string" where "no_creators \<equiv> \<lambda>_. []"

definition after :: "actor \<Rightarrow> graph_op list \<Rightarrow> graph" where
  "after a ops = (case applyGraphOpsLocked all_printable no_creators a ops (board, no_keys) of Inr (g, _) \<Rightarrow> g | Inl _ \<Rightarrow> board)"

lemma board_nodes:
  "nodes_of board = [(plain_node ''a'' [] [])\<lparr>node_WriteAccess := ''human-only''\<rparr>, plain_node ''b'' [] ''a'', plain_node ''c'' [] []]"
  by (simp add: board_def nodes_of_def List.map_filter_simps)

lemma board_edges: "graph_Edges board = [Some \<lparr>edge_From = ''a'', edge_To = ''b'', edge_Relation = RelationRequired, edge_Line = []\<rparr>]"
  by (simp add: board_def)

lemma Parse_a: "Parse ''a'' = Inr (Some (NodeRef ''a'' 0))"
  by code_simp

lemma short_names: "name_ok ''a''" "name_ok ''b''" "name_ok ''c''"
  by code_simp+

lemma board_editable: "editable board"
  using short_names unfolding editable_def board_nodes board_edges
  by (auto simp: sources_def plain_node_def cond_ok_def Parse_a wrap_left_def maxNesting_def)

lemma board_deps: "dep_rel board = {(''b'', ''a'')}"
  unfolding dep_rel_def requires_rel_refs board_nodes board_edges
  by (auto simp: wires_rel_def Blocks_def plain_node_def cond_refs_def Parse_a)

lemma board_acyclic: "acyclic (dep_rel board)"
  unfolding board_deps by (simp add: acyclic_insert acyclic_def [of "{}"])

text \<open>The human commands of the examples: \<open>c\<close> waits for \<open>b\<close> from now on, and \<open>b\<close> no longer for \<open>a\<close>.\<close>

definition rewire :: "graph_op list" where
  "rewire = [wire_op ''add-edge'' ''b'' ''c'', wire_op ''remove-edge'' ''a'' ''b'']"

lemma accepted_after:
  assumes "case applyGraphOpsLocked all_printable no_creators a ops (board, no_keys) of Inr _ \<Rightarrow> True | Inl _ \<Rightarrow> False"
  shows "\<exists>t. applyGraphOpsLocked all_printable no_creators a ops (board, no_keys) = Inr (after a ops, t)"
  using assms unfolding after_def by (auto split: sum.splits)

lemma rewire_accepted: "\<exists>t. applyGraphOpsLocked all_printable no_creators Local rewire (board, no_keys) = Inr (after Local rewire, t)"
  by (rule accepted_after) code_simp

section \<open>Witnesses\<close>

lemma ops_keep_acyclic_witness: "acyclic (dep_rel (after Local rewire)) \<and> editable (after Local rewire)"
  using rewire_accepted board_editable board_acyclic by (elim exE) (rule ops_keep_acyclic)


definition stored_board :: graph where
  "stored_board = (case ValidateGraphForStorage (Some board) of Inr g \<Rightarrow> g | Inl _ \<Rightarrow> board)"

lemma board_storable: "ValidateGraphForStorage (Some board) = Inr stored_board"
proof -
  have "case ValidateGraphForStorage (Some board) of Inr _ \<Rightarrow> True | Inl _ \<Rightarrow> False" by code_simp
  then show ?thesis unfolding stored_board_def by (auto split: sum.splits)
qed

lemma storage_check_fixpoint_witness: "ValidateGraphForStorage (Some stored_board) = Inr stored_board"
  by (rule storage_check_fixpoint [OF board_storable])

lemma stored_graph_wellformed_witness: "distinct (map node_ID (nodes_of stored_board))"
  using stored_graph_wellformed [OF board_storable] by blast

lemma cycle_refusal_exact_witness:
  "refuseDependencyCycle board ''b'' ''a'' \<noteq> None \<and> (''b'', ''a'') \<in> (dep_rel board)\<^sup>*"
proof -
  have waits: "(''b'', ''a'') \<in> (dep_rel board)\<^sup>*" by (simp add: board_deps r_into_rtrancl)
  moreover have "\<forall>(x, y)\<in>dep_rel board. y \<noteq> []" by (simp add: board_deps)
  ultimately show ?thesis using cycle_refusal_exact [of "''b''" board "''a''"] by blast
qed


section \<open>Batches\<close>

text \<open>The calls of a batch one after another, each with a commit of its own.\<close>

fun one_by_one ::
  "(nat \<Rightarrow> bool) \<Rightarrow> (string \<Rightarrow> string) \<Rightarrow> graph \<Rightarrow> ops_call list \<Rightarrow> graph \<times> verdict list" where
  "one_by_one ip creators g [] = (g, [])"
| "one_by_one ip creators g (call # calls) =
     (case ApplyGraphOpsSynced ip creators True g call of
        (g1, v) \<Rightarrow> (case one_by_one ip creators g1 calls of (g2, vs) \<Rightarrow> (g2, v # vs)))"

definition sized :: "ops_call \<Rightarrow> bool" where
  "sized call \<longleftrightarrow> 0 < length (snd call) \<and> length (snd call) \<le> maxGraphOps"

lemma single_call:
  assumes "sized (a, ops)"
  shows "ApplyGraphOpsSynced ip creators True g (a, ops) =
    (case applyGraphOpsLocked ip creators a ops (g, no_keys) of
       Inl err \<Rightarrow> (g, if err = OpFailed NilNode then Abandoned else Failed err)
     | Inr (g1, touched) \<Rightarrow> (g1, Accepted touched))"
  using assms
  by (auto simp: ApplyGraphOpsSynced_def applyGraphOpsBatchLocked_def sized_def is_accepted_def unless_refused_def split: sum.split)

lemma batch_unpanicked:
  "apply_batch ip creators g calls = (g', vs, False) \<Longrightarrow> list_all sized calls \<Longrightarrow> one_by_one ip creators g calls = (g', vs)"
proof (induction calls arbitrary: g g' vs)
  case (Cons call calls)
  obtain a ops where call: "call = (a, ops)" by fastforce
  have sized: "sized (a, ops)" "list_all sized calls" using Cons.prems(2) call by simp_all
  show ?case
  proof (cases "applyGraphOpsLocked ip creators a ops (g, no_keys)")
    case (Inl err)
    then have "err \<noteq> OpFailed NilNode" using Cons.prems(1) call by auto
    then show ?thesis using Inl Cons.prems(1) Cons.IH [OF _ sized(2)] call
      by (auto simp: single_call [OF sized(1)] split: prod.splits)
  next
    case (Inr r)
    then show ?thesis using Cons.prems(1) Cons.IH [OF _ sized(2)] call
      by (auto simp: single_call [OF sized(1)] split: prod.splits)
  qed
qed simp

lemma unaccepted_graph: "apply_batch ip creators g calls = (g', vs, p) \<Longrightarrow> \<not> list_ex is_accepted vs \<Longrightarrow> g' = g"
  by (induction calls arbitrary: g g' vs p rule: list.induct)
    (auto simp: is_accepted_def split: sum.splits prod.splits if_splits)

lemma apply_batch_length: "apply_batch ip creators g calls = (g', vs, p) \<Longrightarrow> length vs = length calls"
  by (induction calls arbitrary: g g' vs p) (auto split: sum.splits prod.splits if_splits)

section \<open>Properties\<close>


definition two_calls :: "ops_call list" where
  "two_calls = [(Local, [wire_op ''add-edge'' ''b'' ''c'']), (agent_worker, [wire_op ''add-edge'' ''c'' ''a''])]"


section \<open>Where the commands do something else\<close>

text \<open>A node may be called by a keyword of the condition language; a wire from it writes a condition nobody can read again.\<close>

definition keyword_board :: graph where
  "keyword_board = empty_graph\<lparr>graph_Version := 1, graph_Nodes := [Some (plain_node ''not'' [] []), Some (plain_node ''b'' [] [])]\<rparr>"

theorem keyword_dependency_unreadable:
  "case applyGraphOpsLocked all_printable no_creators Local [wire_op ''add-edge'' ''not'' ''b''] (keyword_board, no_keys) of
     Inl _ \<Rightarrow> False
   | Inr (g, t) \<Rightarrow> (case NodeByID g ''b'' of None \<Rightarrow> False | Some n \<Rightarrow> isl (Parse (node_Requires n)))"
  by code_simp

text \<open>Styling a wire to a node that does not exist dereferences a nil pointer, and takes the other calls of the batch with it.\<close>

definition bad_style :: graph_op where
  "bad_style = (wire_op ''set-edge-style'' ''a'' ''nowhere'')\<lparr>op_Line := Some ''straight''\<rparr>"

definition is_abandoned :: "verdict \<Rightarrow> bool" where
  "is_abandoned v = (case v of Abandoned \<Rightarrow> True | _ \<Rightarrow> False)"

theorem style_panic_drops_batch:
  "list_all is_abandoned (snd (applyGraphOpsBatchLocked all_printable no_creators True board [(Local, rewire), (Local, [bad_style])])) \<and>
   is_accepted (snd (ApplyGraphOpsSynced all_printable no_creators True board (Local, rewire)))"
proof
  show "list_all is_abandoned (snd (applyGraphOpsBatchLocked all_printable no_creators True board [(Local, rewire), (Local, [bad_style])]))"
    by code_simp
  show "is_accepted (snd (ApplyGraphOpsSynced all_printable no_creators True board (Local, rewire)))" by code_simp
qed

text \<open>A board with a wired gate whose input wire is bent, and a draft gate that nothing is wired to.\<close>

definition gate_board :: graph where
  "gate_board = empty_graph\<lparr>graph_Version := 1,
     graph_Nodes := [Some (plain_node ''a'' [] []), Some (plain_node ''b'' [] []), Some (plain_node ''c'' [] ''b'')],
     graph_UI := Some (empty_ui\<lparr>
       ui_LogicGates := [
         \<lparr>gate_ID = ''g1'', gate_Operator = ''and'', gate_X = Fin 0, gate_Y = Fin 0, gate_Inputs = Some [''b''],
          gate_Output = ''c'', gate_Outputs = [], gate_Applied = []\<rparr>,
         \<lparr>gate_ID = ''g2'', gate_Operator = ''and'', gate_X = Fin 0, gate_Y = Fin 0, gate_Inputs = Some [],
          gate_Output = [], gate_Outputs = [], gate_Applied = []\<rparr>],
       ui_WireVertices := [(''logic:g1:in:b'', [])]\<rparr>)\<rparr>"

definition bends_and_gates :: "graph \<Rightarrow> string list \<times> string list" where
  "bends_and_gates g = (case graph_UI g of None \<Rightarrow> ([], []) | Some ui \<Rightarrow> (map fst (ui_WireVertices ui), map gate_ID (ui_LogicGates ui)))"

text \<open>Deleting the unrelated node \<open>a\<close> loses the bends of the gate's wire and the draft; the check before a write keeps both.\<close>

theorem deletion_drops_unrelated:
  "(case DeleteNodes all_printable Local gate_board [''a''] of Inl _ \<Rightarrow> False | Inr g \<Rightarrow> bends_and_gates g = ([], [''g1''])) \<and>
   (case ValidateGraphForStorage (Some gate_board) of
      Inl _ \<Rightarrow> False | Inr g \<Rightarrow> bends_and_gates g = ([''logic:g1:in:b''], [''g1'', ''g2'']))"
proof
  show "case DeleteNodes all_printable Local gate_board [''a''] of Inl _ \<Rightarrow> False | Inr g \<Rightarrow> bends_and_gates g = ([], [''g1''])" by code_simp
  show "case ValidateGraphForStorage (Some gate_board) of
      Inl _ \<Rightarrow> False | Inr g \<Rightarrow> bends_and_gates g = ([''logic:g1:in:b''], [''g1'', ''g2''])" by code_simp
qed

text \<open>What the store accepts and keeps, the graph validation reports as an error.\<close>

theorem bent_gate_wire_reported:
  "(case ValidateGraphForStorage (Some gate_board) of
      Inl _ \<Rightarrow> False
    | Inr g \<Rightarrow> map issue_Msg (filter (\<lambda>i. issue_Severity i = SevError) (Validate (Some g))) = [CanvasMsg (WireUnknown ''logic:g1:in:b'')])"
  by code_simp

end
