(* ===== verification/Dag.thy ===== *)
theory Dag
  imports Graph_Edits "HOL-Library.Code_Target_Nat"
begin

text \<open>
  The tasks of an autopilot goal (\<^verbatim>\<open>internal/autopilot/dag.go\<close>): who belongs to a goal, in which order its tasks are
  worked, which of them sit on a cycle and what outside the goal still holds them back. A Go map is a list here, newest
  entry first where the code inserts; what does not depend on the order of a map is proved for every order.
\<close>

section \<open>Members\<close>

record dag =
  dag_goal :: string
  dag_order :: "string list"
  dag_upstream :: "(string, string list) gomap"
  dag_nodes :: "(string, node) gomap"
  dag_typeOf :: "graph option"

text \<open>
  \<^verbatim>\<open>strings.EqualFold\<close>; \<open>folds r t\<close> says that the non-ASCII code points \<open>r\<close> and \<open>t\<close> are in one orbit of
  \<^verbatim>\<open>unicode.SimpleFold\<close>.
\<close>

definition same_letter :: "(nat \<Rightarrow> nat \<Rightarrow> bool) \<Rightarrow> nat \<Rightarrow> nat \<Rightarrow> bool" where
  "same_letter folds r t \<longleftrightarrow>
     r = t \<or>
     (if max r t < 128 then 65 \<le> min r t \<and> min r t \<le> 90 \<and> max r t = min r t + 32 else folds (min r t) (max r t))"

definition EqualFold :: "(nat \<Rightarrow> nat \<Rightarrow> bool) \<Rightarrow> string \<Rightarrow> string \<Rightarrow> bool" where
  "EqualFold folds s t \<longleftrightarrow> list_all2 (same_letter folds) (runes s) (runes t)"

definition noStatus :: "graph \<Rightarrow> string \<Rightarrow> bool" where
  "noStatus g i =
     (case NodeByID g i of None \<Rightarrow> False | Some n \<Rightarrow> nt_Completion (TypeOf (Some g) (Some n)) = CompletionNone)"

text \<open>\<^verbatim>\<open>into\<close>: the prerequisites drawn into each node.\<close>

fun prerequisites :: "edge option list \<Rightarrow> (string, string list) gomap \<Rightarrow> (string, string list) gomap" where
  "prerequisites [] m = m"
| "prerequisites (eo # es) m =
     (case eo of
        None \<Rightarrow> prerequisites es m
      | Some e \<Rightarrow>
          if \<not> IsPrerequisite eo \<or> edge_From e = edge_To e then prerequisites es m
          else prerequisites es (gomap_put (edge_To e) (deps_at m (edge_To e) @ [edge_From e]) m))"

definition skipped :: "graph \<Rightarrow> string \<Rightarrow> string \<Rightarrow> bool" where
  "skipped g goal i \<longleftrightarrow> i = goal \<or> NodeByID g i = None \<or> noStatus g i"

fun take_members :: "graph \<Rightarrow> string \<Rightarrow> string list \<Rightarrow> string list \<times> string list \<Rightarrow> string list \<times> string list" where
  "take_members g goal [] acc = acc"
| "take_members g goal (src # rest) (queue, members) =
     (if skipped g goal src \<or> src \<in> set members then take_members g goal rest (queue, members)
      else take_members g goal rest (queue @ [src], src # members))"

definition push_members ::
  "graph \<times> string \<times> (string, string list) gomap \<Rightarrow> string \<Rightarrow> string list \<times> string list \<Rightarrow> string list \<times> string list" where
  "push_members env i acc = (case env of (g, goal, into) \<Rightarrow> take_members g goal (deps_at into i) acc)"

definition followed :: "graph \<times> string \<times> (string, string list) gomap \<Rightarrow> string \<Rightarrow> string set" where
  "followed env i = (case env of (g, goal, into) \<Rightarrow> {x \<in> set (deps_at into i). \<not> skipped g goal x})"

lemma take_members_facts:
  "set (snd (take_members g goal xs (q, m))) = set m \<union> {x \<in> set xs. \<not> skipped g goal x}"
  "set (fst (take_members g goal xs (q, m))) = set q \<union> ({x \<in> set xs. \<not> skipped g goal x} - set m)"
  "length (fst (take_members g goal xs (q, m))) = length q + card ({x \<in> set xs. \<not> skipped g goal x} - set m)"
proof (induction g goal xs "(q, m)" arbitrary: q m rule: take_members.induct)
  case (2 g goal x xs q m)
  {
    case 1
    then show ?case using 2 by auto
  next
    case 2
    then show ?case using "2.hyps" by auto
  next
    case 3
    then show ?case
    proof (cases "skipped g goal x \<or> x \<in> set m")
      case True
      then have "{y \<in> set (x # xs). \<not> skipped g goal y} - set m = {y \<in> set xs. \<not> skipped g goal y} - set m" by auto
      then show ?thesis using "2.hyps"(3) [OF True] True by simp
    next
      case False
      have "{y \<in> set (x # xs). \<not> skipped g goal y} - set m = insert x ({y \<in> set xs. \<not> skipped g goal y} - set (x # m))"
        using False by auto
      moreover have "card (insert x ({y \<in> set xs. \<not> skipped g goal y} - set (x # m))) =
          Suc (card ({y \<in> set xs. \<not> skipped g goal y} - set (x # m)))" by simp
      ultimately show ?thesis using "2.hyps"(6) [OF False] False by simp
    qed
  }
qed auto

interpretation goal_search: worklist "followed env" set "push_members env" for env
  by unfold_locales (simp_all add: push_members_def followed_def take_members_facts split: prod.split)

lemma followed_named: "followed (g, goal, into) x \<subseteq> set (all_names into)"
  using deps_named [of into x] by (auto simp: followed_def)

function collect_members :: "graph \<times> string \<times> (string, string list) gomap \<Rightarrow> string list \<Rightarrow> string list \<Rightarrow> string list" where
  "collect_members env [] members = members"
| "collect_members env (i # queue) members =
     collect_members env (fst (push_members env i (queue, members))) (snd (push_members env i (queue, members)))"
  by pat_completeness auto

termination
proof (relation "measure (\<lambda>(env, q, m). card (set (all_names (snd (snd env))) - set m) + length q)")
  fix env :: "graph \<times> string \<times> (string, string list) gomap" and i :: string and queue members :: "string list"
  obtain g goal into where env: "env = (g, goal, into)" by (cases env)
  show "((env, fst (push_members env i (queue, members)), snd (push_members env i (queue, members))), env, i # queue, members)
      \<in> measure (\<lambda>(env, q, m). card (set (all_names (snd (snd env))) - set m) + length q)"
    using goal_search.push_measure [where A = "set (all_names into)" and x = i and env = env and q = queue and s = members]
      followed_named by (simp add: prod.case_eq_if env)
qed simp

definition has_tag :: "(nat \<Rightarrow> nat \<Rightarrow> bool) \<Rightarrow> string \<Rightarrow> node \<Rightarrow> bool" where
  "has_tag folds tag n \<longleftrightarrow> list_ex (\<lambda>t. EqualFold folds (trim_space t) tag) (node_Tags n)"

fun add_tagged :: "(nat \<Rightarrow> nat \<Rightarrow> bool) \<Rightarrow> graph \<Rightarrow> string \<Rightarrow> node list \<Rightarrow> string list \<Rightarrow> string list" where
  "add_tagged folds g goal [] members = members"
| "add_tagged folds g goal (n # ns) members =
     add_tagged folds g goal ns
       (if node_ID n \<noteq> goal \<and> \<not> noStatus g (node_ID n) \<and> has_tag folds (GoalTag goal) n \<and> node_ID n \<notin> set members
        then node_ID n # members else members)"

definition members_of :: "(nat \<Rightarrow> nat \<Rightarrow> bool) \<Rightarrow> graph \<Rightarrow> string \<Rightarrow> string list" where
  "members_of folds g goal =
     add_tagged folds g goal (nodes_of g) (collect_members (g, goal, prerequisites (graph_Edges g) []) [goal] [])"

text \<open>The required edges among the members.\<close>

fun required_among :: "string list \<Rightarrow> edge option list \<Rightarrow> (string, string list) gomap \<Rightarrow> (string, string list) gomap" where
  "required_among members [] m = m"
| "required_among members (eo # es) m =
     (case eo of
        None \<Rightarrow> required_among members es m
      | Some e \<Rightarrow>
          if \<not> Blocks eo \<or> edge_From e \<notin> set members \<or> edge_To e \<notin> set members \<or> edge_From e = edge_To e
          then required_among members es m
          else if edge_From e \<in> set (deps_at m (edge_To e)) then required_among members es m
          else required_among members es (gomap_put (edge_To e) (deps_at m (edge_To e) @ [edge_From e]) m))"

section \<open>Order\<close>

definition dag_title :: "dag \<Rightarrow> string \<Rightarrow> string" where
  "dag_title d i = (case map_of (dag_nodes d) i of Some n \<Rightarrow> if node_Title n \<noteq> [] then node_Title n else i | None \<Rightarrow> i)"

definition by_title :: "dag \<Rightarrow> string \<Rightarrow> string \<times> string" where
  "by_title d i = (to_lower (dag_title d i), i)"

text \<open>\<^verbatim>\<open>indegree\<close> and \<^verbatim>\<open>down\<close>: a missing key reads as zero and as the nil slice.\<close>

type_synonym degrees = "(string \<Rightarrow> int) \<times> (string \<Rightarrow> string list)"

definition count_edges :: "dag \<Rightarrow> string list \<Rightarrow> degrees" where
  "count_edges d ids =
     fold (\<lambda>i acc.
         fold (\<lambda>up (indegree, down). (indegree(i := indegree i + 1), down(up := down up @ [i]))) (deps_at (dag_upstream d) i) acc)
       ids (\<lambda>_. 0, \<lambda>_. [])"

fun release :: "string list \<Rightarrow> (string \<Rightarrow> int) \<Rightarrow> string list \<Rightarrow> (string \<Rightarrow> int) \<times> string list" where
  "release [] indegree ready = (indegree, ready)"
| "release (i # is) indegree ready =
     release is (indegree(i := indegree i - 1)) (if indegree i - 1 = 0 then ready @ [i] else ready)"

text \<open>Every round of the loop places one member, so \<open>fuel\<close> is the number of members.\<close>

fun kahn :: "nat \<Rightarrow> (string \<Rightarrow> string \<times> string) \<Rightarrow> (string \<Rightarrow> string list) \<Rightarrow> (string \<Rightarrow> int) \<Rightarrow> string list \<Rightarrow> string list \<Rightarrow> string list option" where
  "kahn fuel key down indegree [] order = Some order"
| "kahn 0 key down indegree (_ # _) order = None"
| "kahn (Suc fuel) key down indegree (r # rs) order =
     (let ready = sort_key key (r # rs); i = hd ready; (indegree', ready') = release (down i) indegree (tl ready)
      in kahn fuel key down indegree' ready' (order @ [i]))"

definition topoOrder :: "dag \<Rightarrow> string list option" where
  "topoOrder d =
     (let ids = map fst (dag_nodes d); (indegree, down) = count_edges d ids
      in map_option (\<lambda>order. order @ sort_key (by_title d) (filter (\<lambda>i. i \<notin> set order) ids))
           (kahn (length ids) (by_title d) down indegree (filter (\<lambda>i. indegree i = 0) ids) []))"

definition empty_dag :: "graph option \<Rightarrow> string \<Rightarrow> dag" where
  "empty_dag g goal = \<lparr>dag_goal = goal, dag_order = [], dag_upstream = [], dag_nodes = [], dag_typeOf = g\<rparr>"

definition buildDAG :: "(nat \<Rightarrow> nat \<Rightarrow> bool) \<Rightarrow> graph option \<Rightarrow> string \<Rightarrow> dag" where
  "buildDAG folds go goal =
     (case go of
        None \<Rightarrow> empty_dag go goal
      | Some g \<Rightarrow>
          if NodeByID g goal = None then empty_dag go goal
          else
            let members = members_of folds g goal;
                d = (empty_dag go goal)\<lparr>dag_nodes := map (\<lambda>i. (i, the (NodeByID g i))) members,
                  dag_upstream := map (\<lambda>(i, ups). (i, sort ups)) (required_among members (graph_Edges g) [])\<rparr>
            in d\<lparr>dag_order := the (topoOrder d)\<rparr>)"

section \<open>Questions about a member\<close>

record goal_member =
  member_ID :: string
  member_Title :: string
  member_Kind :: string
  member_After :: "string list"

definition GoalMembers :: "(nat \<Rightarrow> nat \<Rightarrow> bool) \<Rightarrow> graph option \<Rightarrow> string \<Rightarrow> goal_member list" where
  "GoalMembers folds go goal =
     (let d = buildDAG folds go goal
      in map (\<lambda>i. \<lparr>member_ID = i, member_Title = dag_title d i,
                   member_Kind = (case map_of (dag_nodes d) i of Some n \<Rightarrow> node_Kind n | None \<Rightarrow> []),
                   member_After = deps_at (dag_upstream d) i\<rparr>) (dag_order d))"

definition dag_nodeType :: "dag \<Rightarrow> string \<Rightarrow> node_type" where
  "dag_nodeType d i = TypeOf (dag_typeOf d) (map_of (dag_nodes d) i)"

definition dispatchable :: "dag \<Rightarrow> string \<Rightarrow> bool" where
  "dispatchable d i =
     (case map_of (dag_nodes d) i of None \<Rightarrow> False | Some _ \<Rightarrow> nt_AgentMode (dag_nodeType d i) = AgentDispatch)"

text \<open>
  The depth-first walk of \<^verbatim>\<open>inCycle\<close>: \<open>todo\<close> is what the loops of the open calls of \<^verbatim>\<open>walk\<close> have left, the innermost
  first; the first member found on the way back ends them all.
\<close>

function walk_up :: "(string, string list) gomap \<Rightarrow> string \<Rightarrow> string list \<Rightarrow> string list \<Rightarrow> bool" where
  "walk_up ups i seen [] = False"
| "walk_up ups i seen (up # todo) =
     (if up = i then True
      else if up \<in> set seen then walk_up ups i seen todo
      else walk_up ups i (up # seen) (deps_at ups up @ todo))"
  by pat_completeness auto

termination
proof (relation "measures [\<lambda>(ups, i, seen, todo). card (set (all_names ups) \<union> set todo - set seen), \<lambda>(ups, i, seen, todo). length todo]")
  fix ups :: "(string, string list) gomap" and i up :: string and seen todo :: "string list"
  have "card (set (all_names ups) \<union> set todo - set seen) \<le> card (set (all_names ups) \<union> set (up # todo) - set seen)"
    by (rule card_mono) auto
  then show "((ups, i, seen, todo), ups, i, seen, up # todo)
      \<in> measures [\<lambda>(ups, i, seen, todo). card (set (all_names ups) \<union> set todo - set seen), \<lambda>(ups, i, seen, todo). length todo]"
    by auto
  assume "up \<notin> set seen"
  then have "set (all_names ups) \<union> set (deps_at ups up @ todo) - set (up # seen) \<subset> set (all_names ups) \<union> set (up # todo) - set seen"
    using deps_named [of ups up] by auto
  then have "card (set (all_names ups) \<union> set (deps_at ups up @ todo) - set (up # seen)) <
      card (set (all_names ups) \<union> set (up # todo) - set seen)" by (intro psubset_card_mono) auto
  then show "((ups, i, up # seen, deps_at ups up @ todo), ups, i, seen, up # todo)
      \<in> measures [\<lambda>(ups, i, seen, todo). card (set (all_names ups) \<union> set todo - set seen), \<lambda>(ups, i, seen, todo). length todo]"
    by simp
qed simp

definition inCycle :: "dag \<Rightarrow> string \<Rightarrow> bool" where
  "inCycle d i = walk_up (dag_upstream d) i [] (deps_at (dag_upstream d) i)"

definition externalBlockers :: "graph option \<Rightarrow> run_state option \<Rightarrow> dag \<Rightarrow> string \<Rightarrow> string list" where
  "externalBlockers go rs d i =
     (case go of
        None \<Rightarrow> []
      | Some g \<Rightarrow>
          let statuses = ComputeStatuses g rs;
              blocked = (case Blocked (Some g) statuses i of Some bs \<Rightarrow> bs | None \<Rightarrow> [])
          in filter (\<lambda>b. map_of (dag_nodes d) b = None \<and> b \<noteq> dag_goal d) blocked)"

section \<open>Who belongs to a goal\<close>

lemma prerequisites_edges:
  "edges (deps_at (prerequisites es m)) =
     edges (deps_at m) \<union> {(edge_To e, edge_From e) | e. Some e \<in> set es \<and> IsPrerequisite (Some e) \<and> edge_From e \<noteq> edge_To e}"
proof (induction es arbitrary: m)
  case (Cons eo es)
  have put: "edges (deps_at (gomap_put k (deps_at m k @ [x]) m)) = insert (k, x) (edges (deps_at m))" for k x
    unfolding edges_put by (auto simp: edges_def)
  show ?case
  proof (cases eo)
    case (Some e)
    then show ?thesis using Cons by (cases "IsPrerequisite eo \<and> edge_From e \<noteq> edge_To e") (auto simp: put)
  qed (use Cons in auto)
qed simp

text \<open>Who a goal waits for: \<open>x\<close> waits for \<open>y\<close> along a drawn prerequisite, and \<open>y\<close> can be a task of the goal.\<close>

definition task_of :: "graph \<Rightarrow> string \<Rightarrow> string \<Rightarrow> bool" where
  "task_of g goal y \<longleftrightarrow> y \<noteq> goal \<and> NodeByID g y \<noteq> None \<and> \<not> noStatus g y"

definition waits_for :: "graph \<Rightarrow> string \<Rightarrow> (string \<times> string) set" where
  "waits_for g goal = {(edge_To e, edge_From e) | e. Some e \<in> set (graph_Edges g) \<and> IsPrerequisite (Some e) \<and>
     edge_From e \<noteq> edge_To e \<and> task_of g goal (edge_From e)}"

lemma goal_search_rel: "goal_search.rel (g, goal, prerequisites (graph_Edges g) []) = waits_for g goal"
proof -
  have "edges (deps_at (prerequisites (graph_Edges g) [])) =
      {(edge_To e, edge_From e) | e. Some e \<in> set (graph_Edges g) \<and> IsPrerequisite (Some e) \<and> edge_From e \<noteq> edge_To e}"
    unfolding prerequisites_edges by (simp add: edges_def deps_at_def)
  then show ?thesis
    unfolding goal_search.rel_def waits_for_def followed_def edges_def task_of_def skipped_def by (auto simp: set_eq_iff)
qed

lemma collect_members_set:
  "goal_search.inv env R {} q m \<Longrightarrow> set (collect_members env q m) = (goal_search.rel env)\<^sup>+ `` R"
proof (induction env q m rule: collect_members.induct)
  case (1 env m)
  then show ?case using goal_search.inv_done [of env R "{}" m] by simp
next
  case (2 env i q m)
  then show ?case using goal_search.inv_step [of env R "{}" i q m] by simp
qed

lemma set_add_tagged:
  "set (add_tagged folds g goal ns m) =
     set m \<union> {node_ID n | n. n \<in> set ns \<and> node_ID n \<noteq> goal \<and> \<not> noStatus g (node_ID n) \<and> has_tag folds (GoalTag goal) n}"
  by (induction ns arbitrary: m) auto

lemma set_members_of:
  "set (members_of folds g goal) =
     (waits_for g goal)\<^sup>+ `` {goal} \<union>
     {node_ID n | n. n \<in> set (nodes_of g) \<and> task_of g goal (node_ID n) \<and> has_tag folds (GoalTag goal) n}"
proof -
  have "goal_search.inv (g, goal, prerequisites (graph_Edges g) []) {goal} {} [goal] []" by (rule goal_search.inv_start) simp_all
  then have "set (collect_members (g, goal, prerequisites (graph_Edges g) []) [goal] []) = (waits_for g goal)\<^sup>+ `` {goal}"
    unfolding goal_search_rel [symmetric] by (rule collect_members_set)
  moreover have "NodeByID g (node_ID n) \<noteq> None" if "n \<in> set (nodes_of g)" for n
    using that by (auto simp: NodeByID_def)
  ultimately show ?thesis unfolding members_of_def set_add_tagged task_of_def by auto
qed

lemma distinct_take_members: "distinct m \<Longrightarrow> distinct (snd (take_members g goal xs (q, m)))"
  by (induction g goal xs "(q, m)" arbitrary: q m rule: take_members.induct) auto

lemma distinct_collect: "distinct m \<Longrightarrow> distinct (collect_members env q m)"
proof (induction env q m rule: collect_members.induct)
  case (2 env i q m)
  then show ?case by (cases env) (simp add: push_members_def distinct_take_members)
qed simp

lemma distinct_members_of: "distinct (members_of folds g goal)"
proof -
  have "distinct m \<Longrightarrow> distinct (add_tagged folds g goal ns m)" for ns m by (induction ns arbitrary: m) auto
  moreover have "distinct (collect_members env q [])" for env q by (rule distinct_collect) simp
  ultimately show ?thesis unfolding members_of_def by blast
qed

lemma members_nodes: "i \<in> set (members_of folds g goal) \<Longrightarrow> NodeByID g i \<noteq> None"
proof -
  have "NodeByID g y \<noteq> None" if "(x, y) \<in> (waits_for g goal)\<^sup>+" for x y
    using that by (cases rule: trancl.cases) (auto simp: waits_for_def task_of_def)
  then show "i \<in> set (members_of folds g goal) \<Longrightarrow> NodeByID g i \<noteq> None" unfolding set_members_of task_of_def by auto
qed

text \<open>Who a member waits for.\<close>

lemma required_among_edges:
  "edges (deps_at (required_among members es m)) =
     edges (deps_at m) \<union> {(edge_To e, edge_From e) | e. Some e \<in> set es \<and> Blocks (Some e) \<and> edge_From e \<noteq> edge_To e \<and>
       edge_From e \<in> set members \<and> edge_To e \<in> set members}"
proof (induction es arbitrary: m)
  case (Cons eo es)
  have put: "edges (deps_at (gomap_put k (deps_at m k @ [x]) m)) = insert (k, x) (edges (deps_at m))" for k x
    unfolding edges_put by (auto simp: edges_def)
  show ?case
  proof (cases eo)
    case (Some e)
    show ?thesis
    proof (cases "Blocks eo \<and> edge_From e \<in> set members \<and> edge_To e \<in> set members \<and> edge_From e \<noteq> edge_To e")
      case True
      show ?thesis
      proof (cases "edge_From e \<in> set (deps_at m (edge_To e))")
        case known: True
        then have "(edge_To e, edge_From e) \<in> edges (deps_at m)" by (simp add: edges_def)
        then show ?thesis using Cons Some True known by auto
      next
        case False
        then show ?thesis using Cons Some True by (auto simp: put)
      qed
    qed (use Cons Some in auto)
  qed (use Cons in auto)
qed simp

lemma deps_at_put: "deps_at (gomap_put k xs m) i = (if i = k then xs else deps_at m i)"
  by (simp add: deps_at_def map_of_gomap_put)

lemma required_among_distinct: "(\<And>i. distinct (deps_at m i)) \<Longrightarrow> distinct (deps_at (required_among members es m) i)"
  by (induction es arbitrary: m) (auto simp: deps_at_put split: option.splits)

lemma deps_at_map: "deps_at (map (\<lambda>(i, xs). (i, f xs)) m) i = (case map_of m i of Some xs \<Rightarrow> f xs | None \<Rightarrow> [])"
  by (simp add: deps_at_def map_of_map split: option.split)

section \<open>The order\<close>

lemma count_one:
  "distinct us \<Longrightarrow>
   fold (\<lambda>up (indegree, down). (indegree(i := indegree i + 1), down(up := down up @ [i]))) us (indegree, down) =
     (indegree(i := indegree i + int (length us)), \<lambda>u. if u \<in> set us then down u @ [i] else down u)"
  by (induction us arbitrary: indegree down) (auto simp: fun_eq_iff)

lemma count_edges_from:
  assumes "\<And>i. distinct (ups i)" "distinct ids"
  shows "fold (\<lambda>i acc. fold (\<lambda>up (indegree, down). (indegree(i := indegree i + 1), down(up := down up @ [i]))) (ups i) acc) ids (indegree, down) =
     (\<lambda>i. indegree i + (if i \<in> set ids then int (length (ups i)) else 0), \<lambda>u. down u @ filter (\<lambda>i. u \<in> set (ups i)) ids)"
  using assms(2)
proof (induction ids arbitrary: indegree down)
  case (Cons i ids)
  then have i: "i \<notin> set ids" "distinct ids" by simp_all
  show ?case unfolding fold_simps count_one [OF assms(1)] Cons.IH [OF i(2)] using i(1) by (auto simp: fun_eq_iff)
qed simp

lemma count_edges_result:
  assumes "\<And>i. distinct (deps_at (dag_upstream d) i)" "distinct ids"
  shows "count_edges d ids =
     (\<lambda>i. if i \<in> set ids then int (length (deps_at (dag_upstream d) i)) else 0, \<lambda>u. filter (\<lambda>i. u \<in> set (deps_at (dag_upstream d) i)) ids)"
  unfolding count_edges_def count_edges_from [OF assms] by simp

lemma release_result:
  "distinct is \<Longrightarrow> release is indegree ready =
     (\<lambda>i. if i \<in> set is then indegree i - 1 else indegree i, ready @ filter (\<lambda>i. indegree i = 1) is)"
proof (induction "is" arbitrary: indegree ready)
  case (Cons i "is")
  then have "filter (\<lambda>j. (indegree(i := indegree i - 1)) j = 1) is = filter (\<lambda>j. indegree j = 1) is"
    by (intro filter_cong) auto
  then show ?case using Cons by (auto simp: fun_eq_iff)
qed simp

text \<open>
  What the loop builds: each place goes to a member whose prerequisites are all placed before it, and among those to
  the one with the least title, then id.
\<close>

definition greedy :: "(string \<Rightarrow> string \<times> string) \<Rightarrow> (string \<Rightarrow> string list) \<Rightarrow> string set \<Rightarrow> string list \<Rightarrow> bool" where
  "greedy key ups V order \<longleftrightarrow> distinct order \<and> set order \<subseteq> V \<and>
     (\<forall>k<length order. set (ups (order ! k)) \<subseteq> set (take k order) \<and>
        (\<forall>v\<in>V - set (take k order). set (ups v) \<subseteq> set (take k order) \<longrightarrow> key (order ! k) \<le> key v))"

lemma greedy_place:
  assumes "greedy key ups V order" "i \<in> V - set order" "set (ups i) \<subseteq> set order"
    "\<And>v. v \<in> V - set order \<Longrightarrow> set (ups v) \<subseteq> set order \<Longrightarrow> key i \<le> key v"
  shows "greedy key ups V (order @ [i])"
proof -
  have "set (ups ((order @ [i]) ! k)) \<subseteq> set (take k (order @ [i])) \<and>
      (\<forall>v\<in>V - set (take k (order @ [i])). set (ups v) \<subseteq> set (take k (order @ [i])) \<longrightarrow> key ((order @ [i]) ! k) \<le> key v)"
    if "k < length (order @ [i])" for k
  proof (cases "k < length order")
    case True
    then show ?thesis using assms(1) by (simp add: greedy_def nth_append)
  next
    case False
    then have "k = length order" using that by simp
    then show ?thesis using assms(3,4) by simp
  qed
  then show ?thesis using assms(1,2) unfolding greedy_def by auto
qed

definition kahn_inv :: "(string \<Rightarrow> string \<times> string) \<Rightarrow> (string \<Rightarrow> string list) \<Rightarrow> string set \<Rightarrow> (string \<Rightarrow> int) \<Rightarrow> string list \<Rightarrow> string list \<Rightarrow> bool" where
  "kahn_inv key ups V indegree ready order \<longleftrightarrow>
     greedy key ups V order \<and> distinct ready \<and> set ready = {v \<in> V - set order. set (ups v) \<subseteq> set order} \<and>
     (\<forall>v\<in>V. indegree v = int (card (set (ups v) - set order)))"

lemma kahn_step:
  assumes inv: "kahn_inv key ups V indegree (r # rs) order" and down: "down i = filter (\<lambda>v. i \<in> set (ups v)) ids"
    and ids: "distinct ids" "set ids = V" and i: "i # rest = sort_key key (r # rs)"
  shows "kahn_inv key ups V (fst (release (down i) indegree rest)) (snd (release (down i) indegree rest)) (order @ [i])"
proof -
  let ?order = "order @ [i]"
  have perm: "set (i # rest) = {v \<in> V - set order. set (ups v) \<subseteq> set order}" "distinct (i # rest)"
    using inv set_sort [of key "r # rs"] distinct_sort [of key "r # rs"] unfolding i kahn_inv_def by simp_all
  have least: "key i \<le> key v" if "v \<in> set (i # rest)" for v
    using sorted_sort_key [of key "r # rs"] that unfolding i [symmetric] by auto
  have degree: "indegree v = int (card (set (ups v) - set order))" if "v \<in> V" for v using inv that by (simp add: kahn_inv_def)
  have fewer: "set (ups v) - set ?order = set (ups v) - set order - {i}" for v by auto
  have i_new: "i \<in> V" "i \<notin> set order" "set (ups i) \<subseteq> set order" using perm(1) by auto
  have result: "release (down i) indegree rest =
      (\<lambda>v. if v \<in> set (down i) then indegree v - 1 else indegree v, rest @ filter (\<lambda>v. indegree v = 1) (down i))"
    by (rule release_result) (simp add: down ids)
  have "greedy key ups V ?order" using inv perm(1) least i_new by (intro greedy_place) (auto simp: kahn_inv_def)
  moreover have "(if v \<in> set (down i) then indegree v - 1 else indegree v) = int (card (set (ups v) - set ?order))" if "v \<in> V" for v
  proof (cases "i \<in> set (ups v)")
    case True
    then have "i \<in> set (ups v) - set order" using i_new(2) by simp
    then have "card (set (ups v) - set order) = Suc (card (set (ups v) - set order - {i}))"
      by (metis List.finite_set card.remove finite_Diff)
    then show ?thesis using True degree [OF that] that unfolding fewer down by (simp add: ids)
  next
    case False
    then show ?thesis using degree [OF that] unfolding fewer down by simp
  qed
  moreover have "set (rest @ filter (\<lambda>v. indegree v = 1) (down i)) = {v \<in> V - set ?order. set (ups v) \<subseteq> set ?order}"
  proof -
    have "indegree v = 1 \<longleftrightarrow> set (ups v) \<subseteq> set ?order" if "v \<in> V" "i \<in> set (ups v)" for v
    proof -
      have "card (set (ups v) - set order) = Suc (card (set (ups v) - set ?order))"
        unfolding fewer using that i_new(2) by (metis Diff_iff List.finite_set card.remove finite_Diff)
      then show ?thesis using degree [OF that(1)] by auto
    qed
    then have "set (filter (\<lambda>v. indegree v = 1) (down i)) = {v \<in> V. i \<in> set (ups v) \<and> set (ups v) \<subseteq> set ?order}"
      by (auto simp: down ids(2))
    moreover have "set rest = {v \<in> V - set ?order. set (ups v) \<subseteq> set order}" using perm by auto
    moreover have "v \<notin> set ?order" if "i \<in> set (ups v)" "v \<in> V" for v
    proof
      assume "v \<in> set ?order"
      then have "v \<in> set order \<or> v = i" by auto
      then show False
      proof
        assume "v \<in> set order"
        then obtain k where "k < length order" "order ! k = v" by (auto simp: in_set_conv_nth)
        then have "set (ups v) \<subseteq> set order" using inv set_take_subset [of k order] by (auto simp: kahn_inv_def greedy_def)
        then show False using that i_new(2) by auto
      qed (use that i_new(2,3) in auto)
    qed
    ultimately show ?thesis by auto
  qed
  moreover have "distinct (rest @ filter (\<lambda>v. indegree v = 1) (down i))"
  proof -
    have "indegree v = 0" if "v \<in> set rest" for v
    proof -
      have "v \<in> V" "set (ups v) - set order = {}" using that perm(1) by auto
      then show ?thesis using degree by simp
    qed
    then show ?thesis using perm(2) ids(1) by (auto simp: down)
  qed
  ultimately show ?thesis unfolding result kahn_inv_def fst_conv snd_conv by blast
qed

lemma kahn_finishes:
  assumes "kahn_inv key ups V indegree ready order" "\<And>i. down i = filter (\<lambda>v. i \<in> set (ups v)) ids" "distinct ids" "set ids = V"
    "length ids \<le> fuel + length order"
  shows "\<exists>order' indegree'. kahn fuel key down indegree ready order = Some order' \<and> kahn_inv key ups V indegree' [] order'"
  using assms(1,2,5)
proof (induction fuel key down indegree ready order rule: kahn.induct)
  case (2 key down indegree r rs order)
  have "distinct (r # order)" "set (r # order) \<subseteq> V"
    using 2(1) by (auto simp: kahn_inv_def greedy_def)
  then have "length (r # order) \<le> card V" unfolding assms(4) [symmetric] by (metis List.finite_set card_mono distinct_card)
  moreover have "card V = length ids" using assms(3,4) distinct_card by force
  ultimately show ?case using 2(3) by simp
next
  case (3 fuel key down indegree r rs order)
  have "sort_key key (r # rs) \<noteq> []" by (metis list.distinct(1) set_empty set_sort)
  then obtain i rest where i: "i # rest = sort_key key (r # rs)" by (metis neq_Nil_conv)
  then have parts: "hd (sort_key key (r # rs)) = i" "tl (sort_key key (r # rs)) = rest" by (metis list.sel(1,3))+
  obtain indegree' ready' where rel: "release (down i) indegree rest = (indegree', ready')" by fastforce
  have "kahn_inv key ups V indegree' ready' (order @ [i])"
    using kahn_step [where down = down, OF 3(2) 3(3) [of i] assms(3,4) i] rel by simp
  moreover have "length ids \<le> fuel + length (order @ [i])" using 3(4) by simp
  ultimately show ?case using 3(1) [OF refl parts(1) [symmetric] refl, unfolded parts, OF rel [symmetric]] 3(3) parts rel by simp
qed auto

section \<open>Cycles\<close>

lemma greedy_back:
  assumes "greedy key ups V order" "(x, y) \<in> (edges ups)\<^sup>+" "k < length order" "x = order ! k"
  shows "y \<in> set (take k order)"
  using assms(2)
proof (induction rule: trancl_induct)
  case (base y)
  then show ?case using assms(1,3,4) by (auto simp: greedy_def edges_def)
next
  case (step y z)
  then obtain j where j: "j < k" "j < length order" "y = order ! j" by (auto simp: in_set_conv_nth)
  then have "z \<in> set (take j order)" using assms(1) step(2) by (auto simp: greedy_def edges_def)
  then show ?case using j(1) set_take_subset_set_take [of j k order] by auto
qed

lemma greedy_no_cycle:
  assumes "greedy key ups V order" "x \<in> set order" "(x, c) \<in> (edges ups)\<^sup>*"
  shows "(c, c) \<notin> (edges ups)\<^sup>+"
proof
  assume cycle: "(c, c) \<in> (edges ups)\<^sup>+"
  have "c \<in> set order"
  proof (cases "x = c")
    case False
    then have "(x, c) \<in> (edges ups)\<^sup>+" using assms(3) by (simp add: rtrancl_eq_or_trancl)
    moreover obtain k where "k < length order" "x = order ! k" using assms(2) by (auto simp: in_set_conv_nth)
    ultimately show ?thesis using greedy_back [OF assms(1)] set_take_subset [of k order] by blast
  qed (use assms(2) in simp)
  then obtain k where k: "k < length order" "c = order ! k" by (auto simp: in_set_conv_nth)
  have "c \<in> set (take k order)" by (rule greedy_back [OF assms(1) cycle k])
  then obtain j where "j < k" "order ! j = c" by (auto simp: in_set_conv_nth)
  then show False using assms(1) k nth_eq_iff_index_eq [of order j k] by (auto simp: greedy_def)
qed

text \<open>Members that all wait for one another somewhere along the way reach a cycle.\<close>

lemma waiting_reaches_cycle:
  assumes "finite B" "\<And>x. x \<in> B \<Longrightarrow> \<exists>y\<in>B. (x, y) \<in> E" "x \<in> B"
  shows "\<exists>c. (x, c) \<in> E\<^sup>* \<and> (c, c) \<in> E\<^sup>+"
proof (rule ccontr)
  assume none: "\<nexists>c. (x, c) \<in> E\<^sup>* \<and> (c, c) \<in> E\<^sup>+"
  let ?R = "{y \<in> B. (x, y) \<in> E\<^sup>*}"
  let ?S = "Restr E ?R"
  have "acyclic ?S"
  proof (rule acyclicI, rule allI, rule notI)
    fix c
    assume c: "(c, c) \<in> ?S\<^sup>+"
    then have "c \<in> ?R" by (auto dest: tranclD)
    moreover have "(c, c) \<in> E\<^sup>+" using c trancl_mono [of "(c, c)" ?S E] by blast
    ultimately show False using none by blast
  qed
  moreover have "finite ?S" using assms(1) by (intro finite_subset [of ?S "?R \<times> ?R"]) auto
  ultimately have "wf (?S\<inverse>)" by (rule finite_acyclic_wf_converse [rotated])
  moreover have "x \<in> ?R" using assms(3) by simp
  ultimately obtain z where z: "z \<in> ?R" "\<And>y. (y, z) \<in> ?S\<inverse> \<Longrightarrow> y \<notin> ?R" by (rule wfE_min) blast
  obtain y where "y \<in> B" "(z, y) \<in> E" using assms(2) z(1) by blast
  then have "y \<in> ?R" using z(1) by (auto intro: rtrancl_into_rtrancl)
  then show False using z \<open>(z, y) \<in> E\<close> by blast
qed

lemma walk_up_exact:
  assumes "i \<notin> set seen" "set seen \<union> set todo \<subseteq> (edges (deps_at ups))\<^sup>+ `` {i}"
    "\<forall>x\<in>insert i (set seen). set (deps_at ups x) \<subseteq> set seen \<union> set todo"
  shows "walk_up ups i seen todo \<longleftrightarrow> (i, i) \<in> (edges (deps_at ups))\<^sup>+"
  using assms
proof (induction ups i seen todo rule: walk_up.induct)
  case (1 ups i seen)
  have "y \<in> set seen" if "(i, y) \<in> (edges (deps_at ups))\<^sup>+" for y
    using that
  proof (induction rule: trancl_induct)
    case (base y)
    then show ?case using 1(3) by (auto simp: edges_def)
  next
    case (step y z)
    then show ?case using 1(3) by (auto simp: edges_def)
  qed
  then show ?case using 1(1) by auto
next
  case (2 ups i seen up todo)
  show ?case
  proof (cases "up = i")
    case True
    then show ?thesis using 2(4) by auto
  next
    case other: False
    show ?thesis
    proof (cases "up \<in> set seen")
      case True
      then have "walk_up ups i seen todo \<longleftrightarrow> (i, i) \<in> (edges (deps_at ups))\<^sup>+"
        using 2(3-5) by (intro 2(1) [OF other True]) auto
      then show ?thesis using other True by simp
    next
      case False
      have "(i, up) \<in> (edges (deps_at ups))\<^sup>+" using 2(4) by auto
      then have "set (deps_at ups up) \<subseteq> (edges (deps_at ups))\<^sup>+ `` {i}"
        by (auto simp: edges_def intro: trancl_into_trancl)
      then have "walk_up ups i (up # seen) (deps_at ups up @ todo) \<longleftrightarrow> (i, i) \<in> (edges (deps_at ups))\<^sup>+"
        using 2(3-5) other by (intro 2(2) [OF other False]) auto
      then show ?thesis using other False by simp
    qed
  qed
qed

section \<open>The whole graph of a goal\<close>

text \<open>The required edges between members: who waits for whom inside the goal.\<close>

definition member_waits :: "(nat \<Rightarrow> nat \<Rightarrow> bool) \<Rightarrow> graph \<Rightarrow> string \<Rightarrow> (string \<times> string) set" where
  "member_waits folds g goal = {(edge_To e, edge_From e) | e. Some e \<in> set (graph_Edges g) \<and> Blocks (Some e) \<and> edge_From e \<noteq> edge_To e \<and>
     edge_From e \<in> set (members_of folds g goal) \<and> edge_To e \<in> set (members_of folds g goal)}"

definition on_cycle :: "(string \<times> string) set \<Rightarrow> string \<Rightarrow> bool" where
  "on_cycle E i \<longleftrightarrow> (i, i) \<in> E\<^sup>+"

lemma sorted_upstream:
  "edges (deps_at (map (\<lambda>(i, ups). (i, sort ups)) m)) = edges (deps_at m)"
  "(\<And>i. distinct (deps_at m i)) \<Longrightarrow> distinct (deps_at (map (\<lambda>(i, ups). (i, sort ups)) m) i)"
proof -
  show "edges (deps_at (map (\<lambda>(i, ups). (i, sort ups)) m)) = edges (deps_at m)"
    unfolding edges_def deps_at_map deps_at_def [of m] by (auto split: option.split)
  assume "\<And>i. distinct (deps_at m i)"
  then have "distinct (deps_at m i)" .
  then show "distinct (deps_at (map (\<lambda>(i, ups). (i, sort ups)) m) i)"
    unfolding deps_at_map deps_at_def [of m] by (simp split: option.splits)
qed

lemma topoOrder_exact:
  assumes distinct: "\<And>i. distinct (deps_at (dag_upstream d) i)" "distinct (map fst (dag_nodes d))"
    and closed: "edges (deps_at (dag_upstream d)) \<subseteq> set (map fst (dag_nodes d)) \<times> set (map fst (dag_nodes d))"
  defines "V \<equiv> set (map fst (dag_nodes d))" and "E \<equiv> edges (deps_at (dag_upstream d))"
  obtains front behind where "topoOrder d = Some (front @ behind)" "greedy (by_title d) (deps_at (dag_upstream d)) V front"
    "set behind = {i \<in> V. \<exists>c. (i, c) \<in> E\<^sup>* \<and> on_cycle E c}" "set front \<union> set behind = V" "distinct (front @ behind)"
    "sorted (map (by_title d) behind)"
proof -
  let ?ids = "map fst (dag_nodes d)" and ?ups = "deps_at (dag_upstream d)" and ?key = "by_title d"
  let ?in = "\<lambda>i. if i \<in> set ?ids then int (length (?ups i)) else 0"
  let ?down = "\<lambda>u. filter (\<lambda>i. u \<in> set (?ups i)) ?ids"
  have count: "count_edges d ?ids = (?in, ?down)" by (rule count_edges_result [OF distinct])
  have "int (length (?ups v)) = int (card (set (?ups v)))" for v using distinct_card [OF distinct(1)] by simp
  moreover have "int (length (?ups v)) = 0 \<longleftrightarrow> set (?ups v) \<subseteq> {}" for v by simp
  ultimately have "kahn_inv ?key ?ups V ?in (filter (\<lambda>i. ?in i = 0) ?ids) []"
    using distinct(2) by (auto simp: kahn_inv_def greedy_def V_def)
  then have "\<exists>front indegree. kahn (length ?ids) ?key ?down ?in (filter (\<lambda>i. ?in i = 0) ?ids) [] = Some front \<and>
      kahn_inv ?key ?ups V indegree [] front"
    by (rule kahn_finishes [where ids = ?ids]) (use distinct(2) in \<open>simp_all add: V_def\<close>)
  then obtain front indegree where front: "kahn (length ?ids) ?key ?down ?in (filter (\<lambda>i. ?in i = 0) ?ids) [] = Some front"
      "greedy ?key ?ups V front" "{v \<in> V - set front. set (?ups v) \<subseteq> set front} = {}"
    by (auto simp: kahn_inv_def)
  let ?behind = "sort_key ?key (filter (\<lambda>i. i \<notin> set front) ?ids)"
  have order: "topoOrder d = Some (front @ ?behind)" unfolding topoOrder_def Let_def count prod.case front(1) by simp
  have behind: "set ?behind = V - set front" by (auto simp: V_def)
  have stuck: "\<exists>y\<in>V - set front. (x, y) \<in> E" if "x \<in> V - set front" for x
  proof -
    from front(3) that obtain y where "y \<in> set (?ups x)" "y \<notin> set front" by blast
    then have "(x, y) \<in> E" "y \<in> V" using closed unfolding E_def V_def by (auto simp: edges_def)
    then show ?thesis using \<open>y \<notin> set front\<close> by blast
  qed
  have "V - set front = {i \<in> V. \<exists>c. (i, c) \<in> E\<^sup>* \<and> on_cycle E c}"
  proof (rule set_eqI, rule iffI)
    fix x assume "x \<in> V - set front"
    then show "x \<in> {i \<in> V. \<exists>c. (i, c) \<in> E\<^sup>* \<and> on_cycle E c}"
      using waiting_reaches_cycle [of "V - set front" E x, OF _ stuck] by (auto simp: on_cycle_def V_def)
  next
    fix x assume "x \<in> {i \<in> V. \<exists>c. (i, c) \<in> E\<^sup>* \<and> on_cycle E c}"
    then show "x \<in> V - set front" using greedy_no_cycle [OF front(2), of x] by (auto simp: on_cycle_def E_def)
  qed
  then have "set ?behind = {i \<in> V. \<exists>c. (i, c) \<in> E\<^sup>* \<and> on_cycle E c}" unfolding behind .
  moreover have "set front \<union> set ?behind = V" unfolding behind using front(2) by (auto simp: greedy_def)
  moreover have "distinct (front @ ?behind)" using front(2) distinct(2) by (auto simp: greedy_def)
  moreover have "sorted (map ?key ?behind)" by (rule sorted_sort_key)
  ultimately show ?thesis using that [OF order front(2)] by blast
qed

lemma buildDAG_graph:
  fixes folds :: "nat \<Rightarrow> nat \<Rightarrow> bool"
  assumes "NodeByID g goal \<noteq> None"
  defines "d \<equiv> buildDAG folds (Some g) goal"
  shows "map fst (dag_nodes d) = members_of folds g goal"
    and "map_of (dag_nodes d) i = (if i \<in> set (members_of folds g goal) then NodeByID g i else None)"
    and "edges (deps_at (dag_upstream d)) = member_waits folds g goal"
    and "distinct (deps_at (dag_upstream d) i)"
    and "topoOrder d = Some (dag_order d)"
proof -
  let ?members = "members_of folds g goal"
  let ?m = "required_among ?members (graph_Edges g) []"
  let ?d = "(empty_dag (Some g) goal)\<lparr>dag_nodes := map (\<lambda>i. (i, the (NodeByID g i))) ?members,
      dag_upstream := map (\<lambda>(i, ups). (i, sort ups)) ?m\<rparr>"
  have d: "d = ?d\<lparr>dag_order := the (topoOrder ?d)\<rparr>" using assms(1) unfolding d_def buildDAG_def option.case Let_def by auto
  show nodes: "map fst (dag_nodes d) = ?members" by (simp add: d comp_def)
  show "map_of (dag_nodes d) i = (if i \<in> set ?members then NodeByID g i else None)"
  proof -
    have "map_of (map (\<lambda>i. (i, f i)) xs) i = (if i \<in> set xs then Some (f i) else None)" for f :: "string \<Rightarrow> node" and xs
      by (induction xs) auto
    then show ?thesis using members_nodes [of i folds g goal] by (simp add: d)
  qed
  have "edges (deps_at ?m) = member_waits folds g goal"
    unfolding required_among_edges by (auto simp: member_waits_def edges_def deps_at_def)
  then show waits: "edges (deps_at (dag_upstream d)) = member_waits folds g goal" by (simp add: d sorted_upstream(1))
  have "distinct (deps_at ?m i)" for i by (rule required_among_distinct) (simp add: deps_at_def)
  then have dist: "distinct (deps_at (dag_upstream d) i)" for i using sorted_upstream(2) by (simp add: d)
  then show "distinct (deps_at (dag_upstream d) i)" .
  have same: "topoOrder d = topoOrder ?d"
  proof -
    have "by_title d = by_title ?d" by (simp add: d by_title_def [abs_def] dag_title_def [abs_def])
    moreover have "count_edges d ids = count_edges ?d ids" for ids by (simp add: d count_edges_def)
    moreover have "dag_nodes d = dag_nodes ?d" by (simp add: d)
    ultimately show ?thesis unfolding topoOrder_def by simp
  qed
  have "edges (deps_at (dag_upstream d)) \<subseteq> set (map fst (dag_nodes d)) \<times> set (map fst (dag_nodes d))"
    unfolding nodes waits by (auto simp: member_waits_def)
  moreover have "distinct (map fst (dag_nodes d))" unfolding nodes by (rule distinct_members_of)
  ultimately obtain front behind where "topoOrder d = Some (front @ behind)"
    by (elim topoOrder_exact [of d, OF dist, rotated]) blast
  then have "topoOrder d \<noteq> None" by simp
  then show "topoOrder d = Some (dag_order d)" unfolding same by (auto simp: d)
qed

section \<open>Properties\<close>

text \<open>A goal with a chain of tasks, a tagged task, a note and a pair of tasks that wait for each other.\<close>

definition req_edge :: "string \<Rightarrow> string \<Rightarrow> edge option" where
  "req_edge src to = Some \<lparr>edge_From = src, edge_To = to, edge_Relation = RelationRequired, edge_Line = []\<rparr>"

definition goal_graph :: graph where
  "goal_graph = empty_graph\<lparr>graph_Version := 1,
     graph_Nodes := [Some (plain_node ''goal'' [] []), Some (plain_node ''a'' [] []), Some (plain_node ''b'' [] []),
       Some ((plain_node ''c'' [] [])\<lparr>node_Tags := ['' Goal:GOAL'']\<rparr>), Some (plain_node ''n'' ''note'' []),
       Some (plain_node ''x'' [] []), Some (plain_node ''y'' [] []), Some (plain_node ''z'' [] [])],
     graph_Edges := [req_edge ''b'' ''a'', req_edge ''a'' ''goal'', req_edge ''n'' ''goal'', req_edge ''x'' ''y'', req_edge ''y'' ''x'',
       req_edge ''y'' ''z'', req_edge ''z'' ''goal'', req_edge ''c'' ''b'']\<rparr>"

abbreviation no_folds :: "nat \<Rightarrow> nat \<Rightarrow> bool" where "no_folds \<equiv> \<lambda>_ _. False"

lemma goal_graph_order: "dag_order (buildDAG no_folds (Some goal_graph) ''goal'') = [''c'', ''b'', ''a'', ''x'', ''y'', ''z'']"
  by code_simp

lemma goal_graph_goal: "NodeByID goal_graph ''goal'' \<noteq> None"
  by code_simp

lemma goal_listed:
  fixes folds g goal
  assumes "NodeByID g goal \<noteq> None"
  defines "d \<equiv> buildDAG folds (Some g) goal"
  obtains front behind where "dag_order d = front @ behind"
    "greedy (by_title d) (deps_at (dag_upstream d)) (set (members_of folds g goal)) front"
    "set behind = {i \<in> set (members_of folds g goal). \<exists>c. (i, c) \<in> (edges (deps_at (dag_upstream d)))\<^sup>* \<and>
       on_cycle (edges (deps_at (dag_upstream d))) c}"
    "sorted (map (by_title d) behind)" "set (dag_order d) = set (members_of folds g goal)" "distinct (dag_order d)"
proof -
  note graph = buildDAG_graph [OF assms(1), of folds, folded d_def]
  have "edges (deps_at (dag_upstream d)) \<subseteq> set (map fst (dag_nodes d)) \<times> set (map fst (dag_nodes d))"
    unfolding graph(1,3) by (auto simp: member_waits_def)
  moreover have "distinct (map fst (dag_nodes d))" unfolding graph(1) by (rule distinct_members_of)
  ultimately obtain front behind where order: "topoOrder d = Some (front @ behind)"
      "greedy (by_title d) (deps_at (dag_upstream d)) (set (map fst (dag_nodes d))) front"
      "set behind = {i \<in> set (map fst (dag_nodes d)). \<exists>c. (i, c) \<in> (edges (deps_at (dag_upstream d)))\<^sup>* \<and>
         on_cycle (edges (deps_at (dag_upstream d))) c}"
      "set front \<union> set behind = set (map fst (dag_nodes d))" "distinct (front @ behind)" "sorted (map (by_title d) behind)"
    by (elim topoOrder_exact [of d, OF graph(4), rotated])
  moreover have "dag_order d = front @ behind" using order(1) graph(5) by simp
  ultimately show ?thesis using graph(1) by (intro that [of front behind]) simp_all
qed

lemma goal_order_distinct:
  assumes "NodeByID g goal \<noteq> None"
  shows "distinct (dag_order (buildDAG folds (Some g) goal))"
  using assms by (rule goal_listed)

text \<open>
  C21. The tasks of a goal are exactly the nodes it waits for, directly or through other tasks, along drawn edges that are
  not deprecated, together with the nodes that carry its tag; the goal itself and nodes without status never are. Each
  is listed once, with its node, and waits for exactly the members that a required edge puts before it.
\<close>

theorem goal_members_exact:
  assumes "NodeByID g goal \<noteq> None"
  shows "let d = buildDAG folds (Some g) goal in
    set (dag_order d) = (waits_for g goal)\<^sup>+ `` {goal} \<union>
      {node_ID n | n. n \<in> set (nodes_of g) \<and> task_of g goal (node_ID n) \<and> has_tag folds (GoalTag goal) n} \<and>
    distinct (dag_order d) \<and> goal \<notin> set (dag_order d) \<and>
    map_of (dag_nodes d) = (\<lambda>i. if i \<in> set (dag_order d) then NodeByID g i else None) \<and>
    edges (deps_at (dag_upstream d)) = {(edge_To e, edge_From e) | e. Some e \<in> set (graph_Edges g) \<and> Blocks (Some e) \<and>
      edge_From e \<noteq> edge_To e \<and> edge_From e \<in> set (dag_order d) \<and> edge_To e \<in> set (dag_order d)}"
proof -
  let ?d = "buildDAG folds (Some g) goal"
  note graph = buildDAG_graph [OF assms, of folds]
  have listed: "set (dag_order ?d) = set (members_of folds g goal)" using assms by (rule goal_listed)
  moreover have "distinct (dag_order ?d)" using assms by (rule goal_order_distinct)
  moreover have "goal \<notin> set (members_of folds g goal)"
    unfolding set_members_of by (auto simp: waits_for_def task_of_def elim: tranclE)
  moreover have "map_of (dag_nodes ?d) = (\<lambda>i. if i \<in> set (dag_order ?d) then NodeByID g i else None)"
    using graph(2) listed by (auto simp: fun_eq_iff)
  ultimately show ?thesis using graph(3) unfolding Let_def member_waits_def listed set_members_of [of folds g goal, symmetric] by simp
qed

lemma goal_members_exact_witness:
  "set [''c'', ''b'', ''a'', ''x'', ''y'', ''z''] = (waits_for goal_graph ''goal'')\<^sup>+ `` {''goal''} \<union>
     {node_ID n | n. n \<in> set (nodes_of goal_graph) \<and> task_of goal_graph ''goal'' (node_ID n) \<and> has_tag no_folds (GoalTag ''goal'') n}"
  using goal_members_exact [OF goal_graph_goal, of no_folds] unfolding Let_def goal_graph_order by (elim conjE)

text \<open>
  C20. The order of a goal's tasks: first those that can ever become ready, each after everything it waits for and, among
  the ones that could come next, the least by title, then id; after them, in that order of titles, exactly the tasks
  that wait for a cycle, on it or behind it.
\<close>

theorem goal_order_exact:
  assumes "NodeByID g goal \<noteq> None"
  shows "let d = buildDAG folds (Some g) goal; E = edges (deps_at (dag_upstream d)) in
    \<exists>front behind. dag_order d = front @ behind \<and> greedy (by_title d) (deps_at (dag_upstream d)) (set (dag_order d)) front \<and>
      set behind = {i \<in> set (dag_order d). \<exists>c. (i, c) \<in> E\<^sup>* \<and> on_cycle E c} \<and> sorted (map (by_title d) behind)"
  using assms unfolding Let_def by (rule goal_listed [of g goal folds]) (intro exI conjI; simp)

lemma goal_order_exact_witness:
  "\<exists>front behind. front @ behind = [''c'', ''b'', ''a'', ''x'', ''y'', ''z''] \<and>
     greedy (by_title (buildDAG no_folds (Some goal_graph) ''goal'')) (deps_at (dag_upstream (buildDAG no_folds (Some goal_graph) ''goal'')))
       (set [''c'', ''b'', ''a'', ''x'', ''y'', ''z'']) front"
  using goal_order_exact [OF goal_graph_goal, of no_folds] unfolding Let_def goal_graph_order
  by (elim exE conjE) (intro exI conjI, rule sym)

text \<open>
  The walk of \<^verbatim>\<open>inCycle\<close> ends and answers whether a task waits for itself.
\<close>

theorem inCycle_exact: "inCycle d i = on_cycle (edges (deps_at (dag_upstream d))) i"
  unfolding inCycle_def on_cycle_def by (rule walk_up_exact) (auto simp: edges_def)

end
