(* ===== verification/Run_Types.thy ===== *)
theory Run_Types
  imports Dag
begin

text \<open>
  What the hub and the runners speak about (\<^verbatim>\<open>internal/runnerwire/autopilot.go\<close>, \<^verbatim>\<open>routing.go\<close>, \<^verbatim>\<open>merge.go\<close>,
  \<^verbatim>\<open>changes.go\<close>, \<^verbatim>\<open>wire.go\<close> and the run record of \<^verbatim>\<open>internal/runs/store.go\<close>). A string that only the hub writes,
  from a fixed list of constants, is a \<open>datatype\<close> with the names of the constants; a string that comes in from
  outside or is read with a default branch stays a string.
\<close>

section \<open>Agents, pipelines and policies\<close>

record agent_model =
  am_Agent :: string
  am_Model :: string

definition no_agent :: agent_model where
  "no_agent = \<lparr>am_Agent = [], am_Model = []\<rparr>"

record pipeline =
  pl_Implement :: agent_model
  pl_Review :: agent_model
  pl_MaxRounds :: int
  pl_Reviewers :: "agent_model list"
  pl_Quorum :: int
  pl_Human :: bool
  pl_HumanAnyEditor :: bool
  pl_Tester :: agent_model

definition ReviewersOf :: "pipeline \<Rightarrow> agent_model list" where
  "ReviewersOf p =
     (if pl_Reviewers p \<noteq> [] then pl_Reviewers p
      else if am_Agent (pl_Review p) \<noteq> [] then [pl_Review p] else [])"

definition QuorumOf :: "pipeline \<Rightarrow> int" where
  "QuorumOf p =
     (let n = int (length (ReviewersOf p)) in if pl_Quorum p < 1 \<or> pl_Quorum p > n then n else pl_Quorum p)"

abbreviation ReviewNone :: string where "ReviewNone \<equiv> ''none''"
abbreviation ReviewAgents :: string where "ReviewAgents \<equiv> ''agents''"
abbreviation ReviewHuman :: string where "ReviewHuman \<equiv> ''human''"
abbreviation ReviewAgentsHuman :: string where "ReviewAgentsHuman \<equiv> ''agents+human''"

record review_policy =
  rp_Mode :: string
  rp_Reviewers :: "agent_model list"
  rp_Quorum :: int
  rp_AnyEditor :: bool

record autopilot_policy =
  ap_Implement :: "agent_model list"
  ap_Review :: review_policy
  ap_MaxParallel :: int
  ap_MaxRounds :: int
  ap_AutoMerge :: bool
  ap_AllowAgentOnlyMerge :: bool
  ap_Advisor :: string
  ap_RunnerID :: string
  ap_RepoID :: string

section \<open>Autopilots and their tasks\<close>

datatype autopilot_status = AutopilotRunning | AutopilotPaused | AutopilotSucceeded | AutopilotFailed | AutopilotCancelled

datatype task_state =
    TaskNone | TaskScheduled | TaskQueued | TaskRunning | TaskWaitingReview | TaskWaitingHuman
  | TaskSuccess | TaskFailed | TaskUpstreamFailed | TaskSkipped

datatype stage =
    NoStage | StageQueued | StageImplement | StageCommit | StagePush | StagePR | StageCI | StageReview | StageHuman
  | StageRevise | StageApproved | StageMerge | StageDone | StageTest | StageVerifyRed | StageVerifyGreen | StageGuard | StageJudge

datatype stage_status = StageRunning | StageOK | StageFailed | StageWaiting

datatype hold = NoHold | HoldChanged | HoldRemoved | HoldSensitive | HoldPerson

datatype goal_phase =
  NoPhase | GoalPhaseAcceptance | GoalPhasePlan | GoalPhaseTasks | GoalPhaseQA | GoalPhaseHuman | GoalPhaseDone

abbreviation VerdictApprove :: string where "VerdictApprove \<equiv> ''approve''"
abbreviation VerdictChanges :: string where "VerdictChanges \<equiv> ''changes''"
abbreviation VerdictPass :: string where "VerdictPass \<equiv> ''pass''"
abbreviation VerdictFail :: string where "VerdictFail \<equiv> ''fail''"

abbreviation CIPending :: string where "CIPending \<equiv> ''pending''"
abbreviation CISuccess :: string where "CISuccess \<equiv> ''success''"
abbreviation CIFailure :: string where "CIFailure \<equiv> ''failure''"

record stage_record =
  sr_Stage :: stage
  sr_Status :: stage_status
  sr_At :: string
  sr_RunID :: string
  sr_Round :: int
  sr_Detail :: string

record review_vote =
  rv_Agent :: string
  rv_Model :: string
  rv_Verdict :: string
  rv_RunID :: string
  rv_Round :: int

record task_instance =
  ti_NodeID :: string
  ti_Title :: string
  ti_State :: task_state
  ti_Stage :: stage
  ti_Try :: int
  ti_Upstream :: "string list"
  ti_RunID :: string
  ti_PipelineID :: string
  ti_PRURL :: string
  ti_CIStatus :: string
  ti_Votes :: "review_vote list"
  ti_HumanVerdict :: string
  ti_Stages :: "stage_record list"
  ti_Reason :: string
  ti_Advisor :: string
  ti_ContentHash :: string
  ti_Hold :: hold
  ti_UpdatedAt :: string

record task_counts =
  tc_Total :: int
  tc_Success :: int
  tc_Running :: int
  tc_Waiting :: int
  tc_Failed :: int
  tc_Pending :: int
  tc_Skipped :: int

text \<open>\<^verbatim>\<open>runnerwire.AutopilotRun\<close> with what \<^verbatim>\<open>autopilot.Record\<close> adds; the counts are recomputed by every view.\<close>

record autopilot_record =
  ar_ID :: string
  ar_Project :: string
  ar_GoalNodeID :: string
  ar_Status :: autopilot_status
  ar_Policy :: autopilot_policy
  ar_Reason :: string
  ar_CreatedBy :: string
  ar_CreatedByName :: string
  ar_FinishedAt :: string
  ar_GoalPhase :: goal_phase
  ar_QARound :: int
  ar_QARunID :: string
  ar_SteppedUpAt :: string
  ar_Workflow :: "workflow option"
  ar_PlanRunID :: string

section \<open>Runners\<close>

record model =
  m_ID :: string
  m_Default :: bool

record agent =
  ag_Kind :: string
  ag_Installed :: bool
  ag_Models :: "model list"

record repo =
  repo_ID :: string
  repo_Verify :: bool

record runner_info =
  info_Agents :: "agent list"
  info_Repos :: "repo list"
  info_Capabilities :: "string list"

record runner =
  runner_ID :: string
  runner_OwnerID :: string
  runner_Online :: bool
  runner_Info :: "runner_info option"

abbreviation CapHeadless :: string where "CapHeadless \<equiv> ''headless''"

definition Headless :: "runner_info option \<Rightarrow> bool" where
  "Headless info = (case info of None \<Rightarrow> False | Some i \<Rightarrow> CapHeadless \<in> set (info_Capabilities i))"

section \<open>Runs\<close>

abbreviation RunQueued :: string where "RunQueued \<equiv> ''queued''"
abbreviation RunOffered :: string where "RunOffered \<equiv> ''offered''"
abbreviation RunDeclined :: string where "RunDeclined \<equiv> ''declined''"
abbreviation RunRunning :: string where "RunRunning \<equiv> ''running''"
abbreviation RunSucceeded :: string where "RunSucceeded \<equiv> ''succeeded''"
abbreviation RunFailed :: string where "RunFailed \<equiv> ''failed''"
abbreviation RunCancelled :: string where "RunCancelled \<equiv> ''cancelled''"

definition RunFinal :: "string \<Rightarrow> bool" where
  "RunFinal s \<longleftrightarrow> s = RunDeclined \<or> s = RunSucceeded \<or> s = RunFailed \<or> s = RunCancelled"

abbreviation JobImplement :: string where "JobImplement \<equiv> []"
abbreviation JobReview :: string where "JobReview \<equiv> ''review''"
abbreviation JobRevise :: string where "JobRevise \<equiv> ''revise''"
abbreviation JobPlan :: string where "JobPlan \<equiv> ''plan''"
abbreviation JobTest :: string where "JobTest \<equiv> ''test''"
abbreviation JobVerify :: string where "JobVerify \<equiv> ''verify''"
abbreviation JobJudge :: string where "JobJudge \<equiv> ''judge''"

datatype merge_status = MergePending | MergeDone | MergeFailed | MergeExpired

record merge_request =
  mr_ID :: string
  mr_HeadSHA :: string
  mr_Status :: merge_status
  mr_Reason :: string
  mr_RequestedBy :: string
  mr_CreatedAt :: string
  mr_FinishedAt :: string

record verify_result =
  vr_ExitCode :: int
  vr_NoCommand :: bool

record file_change =
  fc_Path :: string
  fc_OldPath :: string

record run_changes =
  rc_Commit :: string
  rc_Files :: "file_change list"

text \<open>The fields of \<^verbatim>\<open>runs.Record\<close> that the orchestrator and the staged pipeline read; \<open>run_Checks\<close> is whether each check passed.\<close>

record run_record =
  run_ID :: string
  run_NodeID :: string
  run_RunnerName :: string
  run_Agent :: string
  run_Model :: string
  run_Branch :: string
  run_Status :: string
  run_Error :: string
  run_Commit :: string
  run_PRURL :: string
  run_PRState :: string
  run_PRError :: string
  run_CIStatus :: string
  run_PRHeadSHA :: string
  run_Merge :: "merge_request option"
  run_Kind :: string
  run_Verdict :: string
  run_RetryOf :: string
  run_PipelineID :: string
  run_RetryAt :: string
  run_VerifyPhase :: "string option"
  run_Verify :: "verify_result option"
  run_Checks :: "bool list"
  run_CreatedAt :: string
  run_StartedAt :: string
  run_FinishedAt :: string

abbreviation PRMerged :: string where "PRMerged \<equiv> ''merged''"
abbreviation VerifyGreen :: string where "VerifyGreen \<equiv> ''green''"

abbreviation PipelineRunning :: string where "PipelineRunning \<equiv> ''running''"
abbreviation PipelineWaitingHuman :: string where "PipelineWaitingHuman \<equiv> ''waiting_human''"
abbreviation PipelineApproved :: string where "PipelineApproved \<equiv> ''approved''"
abbreviation PipelineChangesLeft :: string where "PipelineChangesLeft \<equiv> ''changes_left''"
abbreviation PipelineFailed :: string where "PipelineFailed \<equiv> ''failed''"
abbreviation PipelineCancelled :: string where "PipelineCancelled \<equiv> ''cancelled''"

record pipeline_record =
  pr_ID :: string
  pr_OwnerID :: string
  pr_Round :: int
  pr_Status :: string
  pr_Reason :: string

text \<open>\<^verbatim>\<open>firstNonEmpty\<close>: the first value that is not blank.\<close>

definition firstNonEmpty :: "string list \<Rightarrow> string" where
  "firstNonEmpty vs = (case first_match (\<lambda>v. trim_space v \<noteq> []) vs of Some v \<Rightarrow> v | None \<Rightarrow> [])"

end
