(* ===== verification/Agent_Rules.thy ===== *)
theory Agent_Rules
  imports Run_Types
begin

text \<open>
  Who works a task (\<^verbatim>\<open>internal/runs/routing.go\<close>, \<^verbatim>\<open>internal/autopilot/policy.go\<close> and
  \<^verbatim>\<open>advisor.go\<close>): the checks of a pipeline, a policy and the routing rules, the rule that is picked for a node, and the
  agents an owner's runners offer. A refusal carries the English wording of the message.
\<close>

section \<open>Checks\<close>

datatype bad_request = Invalid string

definition MaxRouteName :: nat where "MaxRouteName = 64"
definition maxRouteProject :: nat where "maxRouteProject = 256"
definition MaxFallbacks :: nat where "MaxFallbacks = 5"
definition MaxReviewers :: nat where "MaxReviewers = 5"
definition MaxPipelineRounds :: int where "MaxPipelineRounds = 3"
definition MaxAutopilotParallel :: int where "MaxAutopilotParallel = 8"
definition MaxRouteRules :: nat where "MaxRouteRules = 200"
definition MaxAutopilotTasks :: nat where "MaxAutopilotTasks = 25"

text \<open>
  \<^verbatim>\<open>utf8.ValidString\<close>: no byte is read as the replacement rune of width one (a literal U+FFFD has width three).
\<close>

fun valid_utf8_from :: "nat \<Rightarrow> string \<Rightarrow> bool" where
  "valid_utf8_from fuel [] = True"
| "valid_utf8_from 0 (_ # _) = False"
| "valid_utf8_from (Suc fuel) (c # cs) =
     (let (r, w) = decode_rune (c # cs)
      in if r = rune_error \<and> w = 1 then False else valid_utf8_from fuel (drop w (c # cs)))"

definition ValidString :: "string \<Rightarrow> bool" where
  "ValidString s = valid_utf8_from (length s) s"

definition control_breaks :: string where
  "control_breaks = [CHR 0x00, CHR 0x0D, CHR 0x0A]"

definition validName :: "string \<Rightarrow> bool" where
  "validName s \<longleftrightarrow> length s \<le> MaxRouteName \<and> ValidString s \<and> \<not> contains_any s control_breaks"

definition ValidateAgentModel :: "agent_model \<Rightarrow> string \<Rightarrow> bool \<Rightarrow> bad_request option" where
  "ValidateAgentModel am what requireModel =
     (if trim_space (am_Agent am) = [] \<or> \<not> validName (am_Agent am)
      then Some (Invalid (what @ '': agent must be 1 to '' @ itoa MaxRouteName @ '' characters''))
      else if (requireModel \<and> trim_space (am_Model am) = []) \<or> \<not> validName (am_Model am)
      then Some (Invalid (what @ '': model must be 1 to '' @ itoa MaxRouteName @ '' characters''))
      else None)"

text \<open>The loops over a chain and over reviewers: \<open>i\<close> is the position the message names.\<close>

fun validate_models :: "string \<Rightarrow> nat \<Rightarrow> agent_model list \<Rightarrow> bool \<Rightarrow> bad_request option" where
  "validate_models what i [] requireModel = None"
| "validate_models what i (am # ams) requireModel =
     (case ValidateAgentModel am (what @ '' '' @ itoa (i + 1)) requireModel of
        Some e \<Rightarrow> Some e
      | None \<Rightarrow> validate_models what (i + 1) ams requireModel)"

definition ValidateChain :: "agent_model list \<Rightarrow> bool \<Rightarrow> bad_request option" where
  "ValidateChain chain requireModel =
     (if length chain > MaxFallbacks then Some (Invalid (''at most '' @ itoa MaxFallbacks @ '' fallbacks''))
      else validate_models ''fallback'' 0 chain requireModel)"

definition or_else :: "'e option \<Rightarrow> 'e option \<Rightarrow> 'e option" where
  "or_else a b = (case a of Some e \<Rightarrow> Some e | None \<Rightarrow> b)"

definition refuse_when :: "bool \<Rightarrow> string \<Rightarrow> bad_request option" where
  "refuse_when b msg = (if b then Some (Invalid msg) else None)"

definition ValidatePipeline :: "pipeline \<Rightarrow> bool \<Rightarrow> bad_request option" where
  "ValidatePipeline p requireModel =
     or_else (refuse_when (pl_MaxRounds p < 1 \<or> pl_MaxRounds p > MaxPipelineRounds)
                (''pipeline maxRounds must be 1 to '' @ itoa_int MaxPipelineRounds))
     (or_else (ValidateAgentModel (pl_Implement p) ''pipeline implement'' requireModel)
     (or_else (if pl_Tester p \<noteq> no_agent then ValidateAgentModel (pl_Tester p) ''pipeline tester'' requireModel else None)
     (or_else (refuse_when (length (pl_Reviewers p) > MaxReviewers)
                (''a pipeline has at most '' @ itoa MaxReviewers @ '' reviewers''))
     (or_else (validate_models ''pipeline reviewer'' 0 (pl_Reviewers p) requireModel)
     (or_else (if pl_Reviewers p = [] \<and> pl_Review p \<noteq> no_agent
               then ValidateAgentModel (pl_Review p) ''pipeline review'' requireModel else None)
     (or_else (refuse_when (pl_Quorum p < 0 \<or> pl_Quorum p > int (length (ReviewersOf p)))
                (''pipeline quorum must be 0 (all) to '' @ itoa (length (ReviewersOf p)) @ '', the number of reviewers''))
              (refuse_when (pl_HumanAnyEditor p \<and> \<not> pl_Human p) ''pipeline humanAnyEditor needs human review'')))))))"

section \<open>Policies\<close>

definition humanReview :: "autopilot_policy \<Rightarrow> bool" where
  "humanReview p \<longleftrightarrow> rp_Mode (ap_Review p) = ReviewHuman \<or> rp_Mode (ap_Review p) = ReviewAgentsHuman"

definition reviewed :: "autopilot_policy \<Rightarrow> bool" where
  "reviewed p \<longleftrightarrow> rp_Mode (ap_Review p) \<noteq> ReviewNone \<and> rp_Mode (ap_Review p) \<noteq> []"

text \<open>The review part of a policy, checked and with its defaults.\<close>

definition check_review :: "(nat \<Rightarrow> bool) \<Rightarrow> review_policy \<Rightarrow> bad_request + review_policy" where
  "check_review printable r0 =
     (let r = (if rp_Mode r0 = [] then r0\<lparr>rp_Mode := ReviewNone\<rparr> else r0) in
      if rp_Mode r = ReviewNone \<or> rp_Mode r = ReviewHuman then
        (if rp_Reviewers r \<noteq> [] then Inl (Invalid (''review mode '' @ quote printable (rp_Mode r) @ '' takes no reviewers''))
         else Inr (r\<lparr>rp_Quorum := 0\<rparr>))
      else if rp_Mode r = ReviewAgents \<or> rp_Mode r = ReviewAgentsHuman then
        (if rp_Reviewers r = [] \<or> length (rp_Reviewers r) > MaxReviewers
         then Inl (Invalid (''review mode '' @ quote printable (rp_Mode r) @ '' needs 1 to '' @ itoa MaxReviewers @ '' reviewers''))
         else case validate_models ''reviewer'' 0 (rp_Reviewers r) False of
           Some e \<Rightarrow> Inl e
         | None \<Rightarrow>
             if rp_Quorum r < 0 \<or> rp_Quorum r > int (length (rp_Reviewers r))
             then Inl (Invalid ''quorum is between 1 and the number of reviewers (0 means all)'')
             else Inr r)
      else Inl (Invalid ''review mode must be none, agents, human or agents+human''))"

text \<open>
  \<^verbatim>\<open>ValidatePolicy\<close>: the numbers and the advisor, the review, then the rest. A refused policy is returned half filled in
  by the code and never used; only the refusal is kept here.
\<close>

definition policy_defaults :: "autopilot_policy \<Rightarrow> autopilot_policy" where
  "policy_defaults p =
     (let p = (if ap_MaxParallel p = 0 then p\<lparr>ap_MaxParallel := 1\<rparr> else p)
      in if ap_MaxRounds p = 0 then p\<lparr>ap_MaxRounds := 1\<rparr> else p)"

definition check_numbers :: "autopilot_policy \<Rightarrow> bad_request option" where
  "check_numbers p =
     or_else (ValidateChain (ap_Implement p) False)
     (or_else (refuse_when (ap_MaxParallel p < 1 \<or> ap_MaxParallel p > MaxAutopilotParallel)
                 (''maxParallel is between 1 and '' @ itoa_int MaxAutopilotParallel))
     (or_else (refuse_when (ap_MaxRounds p < 1 \<or> ap_MaxRounds p > MaxPipelineRounds)
                 (''maxRounds is between 1 and '' @ itoa_int MaxPipelineRounds))
              (refuse_when (ap_Advisor p \<noteq> [] \<and> ap_Advisor p \<noteq> ''llm'' \<and> ap_Advisor p \<noteq> ''systemone'')
                 ''advisor must be \"\", \"llm\" or \"systemone\"'')))"

definition check_merge :: "autopilot_policy \<Rightarrow> bad_request option" where
  "check_merge p =
     or_else (refuse_when (length (ap_RunnerID p) > 64 \<or> length (ap_RepoID p) > 64) ''runnerId and repoId are ids'')
             (refuse_when (ap_AutoMerge p \<and> \<not> humanReview p \<and> \<not> ap_AllowAgentOnlyMerge p)
                ''autoMerge needs a person's review (review mode human or agents+human) unless allowAgentOnlyMerge is set'')"

definition ValidatePolicy :: "(nat \<Rightarrow> bool) \<Rightarrow> autopilot_policy \<Rightarrow> bad_request + autopilot_policy" where
  "ValidatePolicy printable p0 =
     (let p = policy_defaults p0 in
      case check_numbers p of
        Some e \<Rightarrow> Inl e
      | None \<Rightarrow>
          (case check_review printable (ap_Review p) of
             Inl e \<Rightarrow> Inl e
           | Inr r \<Rightarrow>
               (let p = p\<lparr>ap_Review := r\<rparr> in
                case check_merge p of
                  Some e \<Rightarrow> Inl e
                | None \<Rightarrow> Inr (if ap_AutoMerge p then p else p\<lparr>ap_AllowAgentOnlyMerge := False\<rparr>))))"

definition pipelineFor :: "autopilot_policy \<Rightarrow> agent_model \<Rightarrow> pipeline option" where
  "pipelineFor p implement =
     (if \<not> reviewed p then None
      else
        let agents = (rp_Mode (ap_Review p) = ReviewAgents \<or> rp_Mode (ap_Review p) = ReviewAgentsHuman)
        in Some \<lparr>pl_Implement = implement, pl_Review = no_agent, pl_MaxRounds = ap_MaxRounds p,
                 pl_Reviewers = (if agents then rp_Reviewers (ap_Review p) else []),
                 pl_Quorum = (if agents then rp_Quorum (ap_Review p) else 0),
                 pl_Human = humanReview p, pl_HumanAnyEditor = (humanReview p \<and> rp_AnyEditor (ap_Review p)),
                 pl_Tester = no_agent\<rparr>)"

section \<open>Text that is stored\<close>

definition replacement :: string where
  "replacement = [CHR 0xEF, CHR 0xBF, CHR 0xBD]"

text \<open>\<^verbatim>\<open>strings.ToValidUTF8\<close>: a run of invalid bytes becomes one replacement; \<open>bad\<close> while inside such a run.\<close>

fun to_valid_from :: "nat \<Rightarrow> bool \<Rightarrow> string \<Rightarrow> string" where
  "to_valid_from fuel bad [] = []"
| "to_valid_from 0 bad (_ # _) = []"
| "to_valid_from (Suc fuel) bad (c # cs) =
     (let (r, w) = decode_rune (c # cs)
      in if r = rune_error \<and> w = 1 then (if bad then [] else replacement) @ to_valid_from fuel True cs
         else take w (c # cs) @ to_valid_from fuel False (drop w (c # cs)))"

definition ToValidUTF8 :: "string \<Rightarrow> string" where
  "ToValidUTF8 s = to_valid_from (length s) False s"

fun rune_start_before :: "nat \<Rightarrow> string \<Rightarrow> nat" where
  "rune_start_before 0 s = 0"
| "rune_start_before (Suc k) s = (if is_cont (s ! Suc k) then rune_start_before k s else Suc k)"

definition Truncate :: "string \<Rightarrow> nat \<Rightarrow> string" where
  "Truncate s0 mx =
     (let s = (if ValidString s0 then s0 else ToValidUTF8 s0)
      in if length s \<le> mx then s else take (rune_start_before mx s) s)"

definition MaxExtraPrompt :: nat where "MaxExtraPrompt = 8192"

section \<open>Agents of the owner's runners\<close>

definition same_model :: "model \<Rightarrow> model list \<Rightarrow> bool" where
  "same_model m ms \<longleftrightarrow> list_ex (\<lambda>x. m_ID x = m_ID m) ms"

definition add_models :: "model list \<Rightarrow> model list \<Rightarrow> model list" where
  "add_models new old = fold (\<lambda>m out. if same_model m out then out else out @ [m]) new old"

fun merge_agent :: "agent \<Rightarrow> agent list \<Rightarrow> agent list" where
  "merge_agent a [] = [a]"
| "merge_agent a (o1 # os) =
     (if ag_Kind o1 = ag_Kind a
      then o1\<lparr>ag_Installed := ag_Installed o1 \<or> ag_Installed a, ag_Models := add_models (ag_Models a) (ag_Models o1)\<rparr> # os
      else o1 # merge_agent a os)"

definition runner_agents :: "runner \<Rightarrow> agent list" where
  "runner_agents r = (case runner_Info r of None \<Rightarrow> [] | Some info \<Rightarrow> info_Agents info)"

definition mergeAgents :: "runner list \<Rightarrow> agent list" where
  "mergeAgents rs = fold merge_agent (concat (map runner_agents rs)) []"

definition can_run :: "agent list \<Rightarrow> agent_model \<Rightarrow> bool" where
  "can_run agents am =
     (case first_match (\<lambda>a. ag_Kind a = am_Agent am \<and> ag_Installed a) agents of
        None \<Rightarrow> False
      | Some a \<Rightarrow>
          am_Model am = [] \<or> am_Model am = ''default'' \<or> list_ex (\<lambda>m. m_ID m = am_Model am) (ag_Models a))"

fun usable_from :: "agent list \<Rightarrow> agent_model list \<Rightarrow> agent_model list \<Rightarrow> agent_model list" where
  "usable_from agents [] out = out"
| "usable_from agents (am # ams) out =
     usable_from agents ams (if can_run agents am \<and> am \<notin> set out then out @ [am] else out)"

definition usable :: "agent_model list \<Rightarrow> agent list \<Rightarrow> agent_model list" where
  "usable chain agents = usable_from agents chain []"

text \<open>\<^verbatim>\<open>ResolveAgentModel\<close>: the model to record for an agent, or why the runner cannot take it.\<close>

definition ResolveAgentModel :: "(nat \<Rightarrow> bool) \<Rightarrow> runner_info option \<Rightarrow> agent_model \<Rightarrow> string + string" where
  "ResolveAgentModel printable info am =
     (case info of
        None \<Rightarrow> Inl ''the runner has not connected yet, so its agents are unknown''
      | Some i \<Rightarrow>
          (case first_match (\<lambda>a. ag_Kind a = am_Agent am) (info_Agents i) of
             None \<Rightarrow> Inl (''agent '' @ quote printable (am_Agent am) @ '' is not installed on the runner'')
           | Some a \<Rightarrow>
               if \<not> ag_Installed a then Inl (''agent '' @ quote printable (am_Agent am) @ '' is not installed on the runner'')
               else if am_Model am = []
               then Inr (case first_match m_Default (ag_Models a) of Some m \<Rightarrow> m_ID m | None \<Rightarrow> ''default'')
               else if list_ex (\<lambda>m. m_ID m = am_Model am) (ag_Models a) then Inr (am_Model am)
               else Inl (''model '' @ quote printable (am_Model am) @ '' is not offered by '' @ ag_Kind a @ '' on the runner'')))"

section \<open>Routing rules\<close>

abbreviation RoleExecutor :: string where "RoleExecutor \<equiv> ''executor''"
abbreviation RouteTag :: string where "RouteTag \<equiv> ''tag''"
abbreviation RouteKind :: string where "RouteKind \<equiv> ''kind''"
abbreviation RouteRole :: string where "RouteRole \<equiv> ''role''"
abbreviation RouteProject :: string where "RouteProject \<equiv> ''project''"
abbreviation RouteDefault :: string where "RouteDefault \<equiv> ''default''"

record route_rule =
  rr_ID :: string
  rr_Project :: string
  rr_Match :: string
  rr_Value :: string
  rr_RunnerID :: string
  rr_Target :: agent_model
  rr_Fallbacks :: "agent_model list"
  rr_Pipeline :: "pipeline option"

record route_node =
  rt_Project :: string
  rt_Kind :: string
  rt_Tags :: "string list"
  rt_Role :: string

definition nodeKind :: "string \<Rightarrow> string" where
  "nodeKind kind = (let k = NormalizeNodeKind kind in if k \<noteq> [] then k else NodeKindTask)"

definition routeOrder :: "string \<Rightarrow> string list" where
  "routeOrder role =
     (if role = [] then [RouteTag, RouteKind, RouteProject, RouteDefault]
      else if role = RoleExecutor then [RouteTag, RouteKind, RouteRole, RouteProject, RouteDefault]
      else [RouteRole, RouteProject, RouteDefault])"

definition rule_matches :: "(nat \<Rightarrow> nat \<Rightarrow> bool) \<Rightarrow> route_node \<Rightarrow> route_rule \<Rightarrow> bool" where
  "rule_matches folds node rule =
     (if rr_Match rule = RouteTag then list_ex (\<lambda>t. EqualFold folds (trim_space t) (rr_Value rule)) (rt_Tags node)
      else if rr_Match rule = RouteKind then EqualFold folds (nodeKind (rt_Kind node)) (nodeKind (rr_Value rule))
      else if rr_Match rule = RouteRole then rt_Role node \<noteq> [] \<and> rr_Value rule = rt_Role node
      else if rr_Match rule = RouteProject then rr_Project rule \<noteq> [] \<and> rr_Project rule = rt_Project node
      else rr_Match rule = RouteDefault)"

text \<open>One round of the two outer loops: the first rule of this kind and scope that matches.\<close>

definition rule_in_round :: "(nat \<Rightarrow> nat \<Rightarrow> bool) \<Rightarrow> route_node \<Rightarrow> string \<times> bool \<Rightarrow> route_rule \<Rightarrow> bool" where
  "rule_in_round folds node rnd rule \<longleftrightarrow>
     rr_Match rule = fst rnd \<and> (rr_Project rule \<noteq> []) = snd rnd \<and>
     \<not> (rr_Project rule \<noteq> [] \<and> rr_Project rule \<noteq> rt_Project node) \<and> rule_matches folds node rule"

fun first_round :: "(nat \<Rightarrow> nat \<Rightarrow> bool) \<Rightarrow> route_rule list \<Rightarrow> route_node \<Rightarrow> (string \<times> bool) list \<Rightarrow> route_rule option" where
  "first_round folds rules node [] = None"
| "first_round folds rules node (rnd # rounds) =
     (case first_match (rule_in_round folds node rnd) rules of
        Some rule \<Rightarrow> Some rule
      | None \<Rightarrow> first_round folds rules node rounds)"

text \<open>\<^verbatim>\<open>Suggest\<close>; the suggestion is the fields of the rule, and no rule is the suggestion with an empty rule ID.\<close>

definition Suggest :: "(nat \<Rightarrow> nat \<Rightarrow> bool) \<Rightarrow> route_rule list \<Rightarrow> route_node \<Rightarrow> route_rule option" where
  "Suggest folds rules node =
     first_round folds rules node (concat (map (\<lambda>m. [(m, True), (m, False)]) (routeOrder (rt_Role node))))"

section \<open>The rules advisor\<close>

record choice =
  ch_Implement :: "agent_model list"
  ch_Reason :: string

text \<open>
  \<^verbatim>\<open>rulesAdvisor.Choose\<close>; \<open>route\<close> is auto routing (\<^verbatim>\<open>Options.Route\<close>), given what the rules picked.
\<close>

definition rules_Choose ::
  "(nat \<Rightarrow> nat \<Rightarrow> bool) \<Rightarrow> string + route_rule list \<Rightarrow> (route_rule option \<Rightarrow> route_rule option) \<Rightarrow>
   autopilot_policy \<Rightarrow> route_node \<Rightarrow> agent list \<Rightarrow> string + choice" where
  "rules_Choose folds routing route pol node agents =
     (if usable (ap_Implement pol) agents \<noteq> []
      then Inr \<lparr>ch_Implement = usable (ap_Implement pol) agents, ch_Reason = ''the autopilot's implement chain''\<rparr>
      else (case routing of
          Inl err \<Rightarrow> Inl err
        | Inr rules \<Rightarrow>
            let fallback =
              (case first_match ag_Installed agents of
                 Some a \<Rightarrow> Inr \<lparr>ch_Implement = [\<lparr>am_Agent = ag_Kind a, am_Model = []\<rparr>], ch_Reason = ''the first installed agent''\<rparr>
               | None \<Rightarrow> Inl ''no installed agent on the owner's runners can take this task'')
            in (case route (Suggest folds rules node) of
                  None \<Rightarrow> fallback
                | Some s \<Rightarrow>
                    if rr_ID s \<noteq> [] \<and> usable (rr_Target s # rr_Fallbacks s) agents \<noteq> []
                    then Inr \<lparr>ch_Implement = usable (rr_Target s # rr_Fallbacks s) agents, ch_Reason = ''routing rule '' @ rr_ID s\<rparr>
                    else fallback)))"

text \<open>\<^verbatim>\<open>choose\<close>: \<open>advice\<close> is the answer of the policy's registered advisor, if it has one and it answered in time.\<close>

definition choose_agent :: "choice option \<Rightarrow> string + choice \<Rightarrow> agent list \<Rightarrow> string + choice" where
  "choose_agent advice by_rules agents =
     (case advice of
        None \<Rightarrow> by_rules
      | Some c \<Rightarrow>
          if usable (ch_Implement c) agents \<noteq> [] then Inr (c\<lparr>ch_Implement := usable (ch_Implement c) agents\<rparr>) else by_rules)"

end
