(* ===== verification/Merge_Guard.thy ===== *)
theory Merge_Guard
  imports Run_Types Globs "HOL-Library.List_Lexorder" "HOL-Library.Char_ord"
begin

text \<open>
  What an agent's changes may not touch unseen (\<^verbatim>\<open>internal/runs/sensitive.go\<close>, \<^verbatim>\<open>internal/runs/guard.go\<close>,
  \<^verbatim>\<open>internal/autopilot/sensitive.go\<close>): the paths that are sensitive however they are spelt, the diff guard of a
  staged pipeline and the hold of an unattended merge.
\<close>

section \<open>Paths\<close>

text \<open>\<^verbatim>\<open>path.Clean\<close>: \<open>out\<close> holds the elements kept so far.\<close>

definition clean_push :: "bool \<Rightarrow> string \<Rightarrow> string list \<Rightarrow> string list" where
  "clean_push rooted seg out =
     (if seg = [] \<or> seg = ''.'' then out
      else if seg = ''..'' then
        (if out \<noteq> [] \<and> last out \<noteq> ''..'' then butlast out else if rooted then out else out @ [seg])
      else out @ [seg])"

definition is_rooted :: "string \<Rightarrow> bool" where
  "is_rooted p \<longleftrightarrow> has_prefix p ''/''"

definition clean_parts :: "string \<Rightarrow> string list" where
  "clean_parts p = fold (clean_push (is_rooted p)) (split_on CHR ''/'' p) []"

definition path_Clean :: "string \<Rightarrow> string" where
  "path_Clean p =
     (if p = [] then ''.''
      else if is_rooted p then ''/'' @ join_with ''/'' (clean_parts p)
      else if clean_parts p = [] then ''.'' else join_with ''/'' (clean_parts p))"

definition sensitiveDirs :: "string list" where
  "sensitiveDirs =
     [''.github'', ''.gitlab'', ''.circleci'', ''.buildkite'', ''.husky'', ''.devcontainer'',
      ''.claude'', ''.cursor'', ''.vscode'', ''scripts'',
      ''.codex'', ''.gemini'', ''.agents'', ''_agents'', ''.agent'', ''.opencode'']"

definition sensitiveFiles :: "string list" where
  "sensitiveFiles =
     [''.gitlab-ci.yml'', ''.travis.yml'', ''azure-pipelines.yml'', ''jenkinsfile'',
      ''bitbucket-pipelines.yml'', ''.drone.yml'', ''appveyor.yml'',
      ''.pre-commit-config.yaml'', ''.pre-commit-config.yml'', ''lefthook.yml'',
      ''.dockerignore'', ''compose.yaml'', ''compose.yml'',
      ''makefile'', ''gnumakefile'', ''justfile'', ''taskfile.yml'',
      ''claude.md'', ''agents.md'', ''gemini.md'', ''.mcp.json'',
      ''opencode.json'', ''opencode.jsonc'', ''tui.json'', ''tui.jsonc'',
      ''package.json'', ''package-lock.json'', ''npm-shrinkwrap.json'', ''yarn.lock'',
      ''pnpm-lock.yaml'', ''pnpm-workspace.yaml'', ''bun.lock'', ''bun.lockb'',
      ''.npmrc'', ''.yarnrc'', ''.yarnrc.yml'', ''.pnpmfile.cjs'',
      ''go.mod'', ''go.sum'', ''go.work'', ''go.work.sum'',
      ''cargo.toml'', ''cargo.lock'', ''build.rs'',
      ''pyproject.toml'', ''poetry.lock'', ''uv.lock'', ''pipfile'', ''pipfile.lock'',
      ''setup.py'', ''setup.cfg'', ''tox.ini'', ''noxfile.py'', ''conftest.py'',
      ''pytest.ini'',
      ''gemfile'', ''gemfile.lock'', ''composer.json'', ''composer.lock'',
      ''pom.xml'', ''build.gradle'', ''build.gradle.kts'', ''settings.gradle'',
      ''settings.gradle.kts'', ''gradle-wrapper.properties'', ''nuget.config'',
      ''directory.build.props'', ''directory.build.targets'', ''packages.lock.json'']"

definition testRunnerConfigs :: "string list" where
  "testRunnerConfigs =
     [''vitest.config.'', ''vitest.workspace.'', ''vite.config.'', ''jest.config.'', ''playwright.config.'', ''cypress.config.'',
      ''karma.conf.'', ''.mocharc'', ''phpunit.xml'']"

definition sensitive_base :: "string \<Rightarrow> bool" where
  "sensitive_base base \<longleftrightarrow>
     base \<in> set sensitiveFiles \<or>
     base = ''.env'' \<or> has_prefix base ''.env.'' \<or> base = ''.envrc'' \<or>
     has_prefix base ''.git'' \<or>
     has_prefix base ''dockerfile'' \<or> has_suffix base ''.dockerfile'' \<or>
     has_prefix base ''docker-compose'' \<or> has_prefix base ''containerfile'' \<or>
     (has_prefix base ''requirements'' \<and> has_suffix base ''.txt'') \<or>
     list_ex (has_prefix base) testRunnerConfigs"

definition forward_slashes :: "string \<Rightarrow> string" where
  "forward_slashes p = map (\<lambda>c. if c = CHR 0x5C then CHR ''/'' else c) p"

definition spelt :: "string \<Rightarrow> string" where
  "spelt p = to_lower (trim_prefix (forward_slashes p) ''./'')"

definition SensitivePath :: "string \<Rightarrow> bool" where
  "SensitivePath p0 =
     (let p = spelt p0 in
      if p = [] then False
      else
        let parts = split_on CHR ''/'' (path_Clean p)
        in list_ex (\<lambda>d. d \<in> set sensitiveDirs) parts \<or> sensitive_base (last parts))"

section \<open>The diff guard\<close>

record guard_report =
  gr_TestFiles :: "string list"
  gr_Touched :: "string list"
  gr_Sensitive :: "string list"
  gr_Approved :: bool
  gr_ApprovedBy :: string

definition Violation :: "guard_report \<Rightarrow> bool" where
  "Violation g \<longleftrightarrow> gr_Touched g \<noteq> [] \<or> gr_Sensitive g \<noteq> []"

definition change_paths :: "file_change \<Rightarrow> string list" where
  "change_paths c = filter (\<lambda>p. p \<noteq> []) [fc_Path c, fc_OldPath c]"

definition add_path :: "string \<Rightarrow> string list \<Rightarrow> string list" where
  "add_path p xs = (if p \<in> set xs then xs else xs @ [p])"

text \<open>The two nested loops all three listings share: the paths that satisfy \<open>P\<close>, each once, in the order they are met.\<close>

definition paths_where :: "(string \<Rightarrow> bool) \<Rightarrow> file_change list \<Rightarrow> string list" where
  "paths_where P changes =
     fold (\<lambda>c. fold (\<lambda>p out. if P p then add_path p out else out) (change_paths c)) changes []"

definition Guard :: "string list \<Rightarrow> file_change list \<Rightarrow> guard_report" where
  "Guard testFiles executor =
     \<lparr>gr_TestFiles = testFiles,
      gr_Touched = sort (paths_where (\<lambda>p. p \<in> set testFiles) executor),
      gr_Sensitive = sort (paths_where SensitivePath executor),
      gr_Approved = False, gr_ApprovedBy = []\<rparr>"

definition globs_or_default :: "string list \<Rightarrow> string list" where
  "globs_or_default globs = (if globs = [] then DefaultTestGlobs else globs)"

definition executorTestFiles :: "string list \<Rightarrow> string list \<Rightarrow> file_change list \<Rightarrow> string list" where
  "executorTestFiles globs testFiles executor =
     paths_where (\<lambda>p. p \<notin> set testFiles \<and> MatchAnyGlob (globs_or_default globs) p) executor"

definition NonTestFiles :: "string list \<Rightarrow> file_change list \<Rightarrow> string list" where
  "NonTestFiles globs changes = sort (paths_where (\<lambda>p. \<not> MatchAnyGlob (globs_or_default globs) p) changes)"

definition changedPaths :: "file_change list \<Rightarrow> string list" where
  "changedPaths changes = sort (paths_where (\<lambda>_. True) changes)"

section \<open>The hold of an unattended merge\<close>

definition MaxChangedFiles :: nat where "MaxChangedFiles = 2000"
definition maxHoldPaths :: nat where "maxHoldPaths = 8"

definition shortSHA :: "string \<Rightarrow> string" where
  "shortSHA sha = (if length sha > 7 then take 7 sha else sha)"

text \<open>What \<^verbatim>\<open>derive\<close> and \<^verbatim>\<open>mergeHold\<close> read: \<open>obs_runs\<close> oldest first.\<close>

record observation =
  obs_runs :: "run_record list"
  obs_pipeline :: "pipeline_record option"
  obs_prRun :: "run_record option"

text \<open>The loop over the runs; the answer of \<^verbatim>\<open>Runs.Changes\<close> is an error, nothing or the changes.\<close>

record hold_scan =
  hs_touched :: "string list"
  hs_commits :: "string list"
  hs_reported :: bool

fun scan_changes :: "(string \<Rightarrow> string + run_changes option) \<Rightarrow> run_record list \<Rightarrow> hold_scan \<Rightarrow> string + hold_scan" where
  "scan_changes changes [] s = Inr s"
| "scan_changes changes (r # rs) s =
     (if run_Kind r \<noteq> JobImplement \<and> run_Kind r \<noteq> JobRevise then scan_changes changes rs s
      else case changes (run_ID r) of
        Inl err \<Rightarrow> Inl (''its changed files cannot be read: '' @ err)
      | Inr None \<Rightarrow> scan_changes changes rs s
      | Inr (Some ch) \<Rightarrow>
          if length (rc_Files ch) \<ge> MaxChangedFiles then Inl ''it changes too many files to check''
          else scan_changes changes rs
            \<lparr>hs_touched = fold (\<lambda>c. fold (\<lambda>p out. if SensitivePath p then add_path p out else out) (change_paths c))
                             (rc_Files ch) (hs_touched s),
             hs_commits = (if rc_Commit ch \<noteq> [] then rc_Commit ch # hs_commits s else hs_commits s),
             hs_reported = True\<rparr>)"

definition mergeHold :: "(string \<Rightarrow> string + run_changes option) \<Rightarrow> observation \<Rightarrow> string" where
  "mergeHold changes obs =
     (case obs_prRun obs of
        None \<Rightarrow> ''the pull request's run is unknown''
      | Some pr \<Rightarrow>
          (case scan_changes changes (obs_runs obs) \<lparr>hs_touched = [], hs_commits = [], hs_reported = False\<rparr> of
             Inl why \<Rightarrow> why
           | Inr s \<Rightarrow>
               if \<not> hs_reported s then ''its runner reported no changed files''
               else if run_PRHeadSHA pr \<noteq> [] \<and> run_PRHeadSHA pr \<notin> set (hs_commits s)
               then ''its head '' @ shortSHA (run_PRHeadSHA pr) @ '' is not a commit the autopilot made''
               else if hs_touched s = [] then []
               else
                 let touched = sort (hs_touched s); shown = take maxHoldPaths touched; extra = length touched - length shown
                 in ''it changes '' @ join_with '', '' shown @
                      (if extra > 0 then '' and '' @ itoa extra @ '' more'' else [])))"

end
