(* ===== verification/Orchestrator.thy ===== *)
theory Orchestrator
  imports Agent_Rules Merge_Guard
begin

text \<open>
  One pass of the autopilot orchestrator over its tasks (\<^verbatim>\<open>internal/autopilot/orchestrator.go\<close>): the frozen task set
  against the board, the spread of failures, the dispatch of ready tasks and the end of an autopilot. What the hub
  answers (the node's content, the owner's runners, an advisor, the run dispatcher) is an argument, and what the
  orchestrator asks of it is kept in order in \<open>w_calls\<close>.
\<close>

section \<open>A pass\<close>

record start_request =
  sq_NodeID :: string
  sq_Kind :: string
  sq_Role :: string
  sq_RunnerID :: string
  sq_Agent :: agent_model
  sq_RepoID :: string
  sq_Fallbacks :: "agent_model list"
  sq_Pipeline :: "pipeline option"
  sq_Prompt :: string
  sq_Content :: string

datatype hub_call =
    StartRun start_request
  | RequestMerge string string
  | MarkNode string status string
  | CancelPipelineRun string string
  | CancelOneRun string string
  | PipelineVerdict string string string

record work =
  w_rec :: autopilot_record
  w_tasks :: "(string, task_instance) gomap"
  w_dag :: dag
  w_graph :: graph
  w_state :: run_state
  w_dirty :: bool
  w_now :: string
  w_added :: "string list"
  w_calls :: "hub_call list"

abbreviation task_at :: "work \<Rightarrow> string \<Rightarrow> task_instance option" where
  "task_at w i \<equiv> map_of (w_tasks w) i"

definition put_task :: "string \<Rightarrow> task_instance \<Rightarrow> work \<Rightarrow> work" where
  "put_task i t w = w\<lparr>w_tasks := gomap_put i t (w_tasks w)\<rparr>"

definition log_call :: "hub_call \<Rightarrow> work \<Rightarrow> work" where
  "log_call c w = w\<lparr>w_calls := w_calls w @ [c]\<rparr>"

text \<open>
  The answers of the hub during a pass. \<open>hub_Hash\<close> is SHA-256 of title and body, \<open>hub_Advice\<close> the answer of the
  policy's registered advisor, \<open>hub_Route\<close> auto routing and \<open>hub_Busy\<close> a runner's running jobs (\<open>2 ^ 20\<close> when unknown).
\<close>

datatype start_failure = Refused string string | StartFailed string

record started_run =
  st_ID :: string
  st_PipelineID :: string
  st_CreatedAt :: string

datatype merge_answer = MergeAsked | NotMergingYet string | MergeError

record hub =
  hub_Content :: "string \<Rightarrow> string + string"
  hub_Hash :: "string \<Rightarrow> string \<Rightarrow> string"
  hub_Owned :: "string \<Rightarrow> string + runner list"
  hub_Folds :: "nat \<Rightarrow> nat \<Rightarrow> bool"
  hub_Routing :: "string + route_rule list"
  hub_Route :: "string \<Rightarrow> string \<Rightarrow> route_rule option \<Rightarrow> route_rule option"
  hub_Advice :: "string \<Rightarrow> string \<Rightarrow> agent list \<Rightarrow> choice option"
  hub_Busy :: "string \<Rightarrow> int"
  hub_Start :: "start_request \<Rightarrow> start_failure + started_run"
  hub_SetStatus :: "string \<Rightarrow> status \<Rightarrow> bool"
  hub_Time :: gotime
  hub_Pipeline :: "string \<Rightarrow> string + pipeline_record"
  hub_PipelineRuns :: "string \<Rightarrow> string + run_record list"
  hub_Get :: "string \<Rightarrow> string + run_record"
  hub_NodeRuns :: "string \<Rightarrow> string + run_record list"
  hub_Merge :: "string \<Rightarrow> string \<Rightarrow> merge_answer"
  hub_CreatedByRun :: "string \<Rightarrow> string"
  hub_HumanReview :: "string \<Rightarrow> string \<Rightarrow> string option"
  hub_Changes :: "string \<Rightarrow> string + run_changes option"

section \<open>Task states\<close>

definition final1 :: "task_state \<Rightarrow> bool" where
  "final1 s \<longleftrightarrow> s = TaskSuccess \<or> s = TaskFailed \<or> s = TaskUpstreamFailed \<or> s = TaskSkipped"

definition final_status :: "autopilot_status \<Rightarrow> bool" where
  "final_status s \<longleftrightarrow> s = AutopilotSucceeded \<or> s = AutopilotFailed \<or> s = AutopilotCancelled"

definition setState :: "task_state \<Rightarrow> stage \<Rightarrow> string \<Rightarrow> task_instance \<Rightarrow> task_instance" where
  "setState s stage reason t =
     (if stage \<noteq> NoStage then t\<lparr>ti_State := s, ti_Reason := reason, ti_Stage := stage\<rparr>
      else t\<lparr>ti_State := s, ti_Reason := reason\<rparr>)"

text \<open>\<^verbatim>\<open>hold\<close>: a task set aside for a person.\<close>

definition hold_task :: "hold \<Rightarrow> stage \<Rightarrow> string \<Rightarrow> task_instance \<Rightarrow> task_instance" where
  "hold_task kind stage reason t =
     (let t = setState TaskWaitingHuman stage reason (t\<lparr>ti_Hold := kind\<rparr>)
      in if stage = NoStage then t\<lparr>ti_Stage := NoStage\<rparr> else t)"

definition settled :: "work \<Rightarrow> string \<Rightarrow> bool" where
  "settled w i = (case task_at w i of None \<Rightarrow> False | Some t \<Rightarrow> ti_State t = TaskSuccess \<or> ti_State t = TaskSkipped)"

definition never_started :: "task_instance \<Rightarrow> bool" where
  "never_started t \<longleftrightarrow> ti_RunID t = [] \<and> ti_PipelineID t = []"

section \<open>The task set against the board\<close>

definition boardStatuses :: "graph \<Rightarrow> status_definition list" where
  "boardStatuses g = (case graph_UI g of None \<Rightarrow> [] | Some ui \<Rightarrow> ui_CustomStatuses ui)"

definition board_status :: "work \<Rightarrow> string \<Rightarrow> status" where
  "board_status w i = (case ComputeStatuses (w_graph w) (Some (w_state w)) i of Some s \<Rightarrow> s | None \<Rightarrow> [])"

definition skippedOnBoard :: "status \<Rightarrow> bool" where
  "skippedOnBoard s \<longleftrightarrow> s = StatusSkipped \<or> s = StatusDeprecated"

definition checkContent :: "hub \<Rightarrow> string \<Rightarrow> task_instance \<Rightarrow> task_instance \<times> bool" where
  "checkContent h body t =
     (let hash = hub_Hash h (ti_Title t) body in
      if ti_ContentHash t = [] then (t\<lparr>ti_ContentHash := hash\<rparr>, True)
      else if ti_ContentHash t = hash then (t, True)
      else (hold_task HoldChanged NoStage
              ''the task changed after the autopilot started: a person must retry it to work the new content'' t, False))"

text \<open>One member of the first loop of \<^verbatim>\<open>syncMembers\<close>, after its title and edges are refreshed.\<close>

definition sync_member :: "hub \<Rightarrow> work \<Rightarrow> string \<Rightarrow> task_instance \<Rightarrow> task_instance" where
  "sync_member h w i t0 =
     (let t = t0\<lparr>ti_Title := dag_title (w_dag w) i, ti_Upstream := deps_at (dag_upstream (w_dag w)) i\<rparr>;
          s = board_status w i;
          ty = dag_nodeType (w_dag w) i
      in if ti_Hold t = HoldPerson \<and> never_started t \<and> \<not> final1 (ti_State t) then
           (if skippedOnBoard s
            then setState TaskSkipped StageDone (s @ '' on the board'') (t\<lparr>ti_Hold := NoHold\<rparr>)
            else if Settled s (boardStatuses (w_graph w))
            then setState TaskSuccess StageDone (s @ '' on the board'') (t\<lparr>ti_Hold := NoHold\<rparr>)
            else t)
         else if \<not> never_started t \<or> final1 (ti_State t) \<or> ti_Hold t \<noteq> NoHold then t
         else if skippedOnBoard s then setState TaskSkipped StageDone (s @ '' on the board'') t
         else if Settled s (boardStatuses (w_graph w))
         then setState TaskSuccess StageDone (''already '' @ s @ '' on the board'') t
         else if \<not> dispatchable (w_dag w) i \<and> (nt_Completion ty = CompletionPeople \<or> nt_Completion ty = CompletionAnyone)
         then hold_task HoldPerson NoStage (''a '' @ nt_Label ty @ '' node: waiting for a person'') t
         else if \<not> dispatchable (w_dag w) i
         then setState TaskSkipped StageDone (''not a task ('' @ nt_Label ty @ ''): nothing to implement'') t
         else if inCycle (w_dag w) i
         then setState TaskFailed NoStage ''on a dependency cycle: it can never become ready'' t
         else (case hub_Content h i of Inl err \<Rightarrow> t | Inr body \<Rightarrow> fst (checkContent h body t)))"

definition sync_one :: "hub \<Rightarrow> string \<Rightarrow> work \<Rightarrow> work" where
  "sync_one h i w =
     (case task_at w i of
        None \<Rightarrow> w\<lparr>w_added := w_added w @ [i]\<rparr>
      | Some t \<Rightarrow> put_task i (sync_member h w i t) w)"

text \<open>The second loop: tasks whose node left the goal.\<close>

definition sync_removed :: "dag \<Rightarrow> string \<times> task_instance \<Rightarrow> string \<times> task_instance" where
  "sync_removed d it =
     (case it of (i, t) \<Rightarrow>
        if map_of (dag_nodes d) i \<noteq> None \<or> final1 (ti_State t) \<or> ti_Hold t \<noteq> NoHold then (i, t)
        else if never_started t
        then (i, hold_task HoldRemoved NoStage
                   ''it left the goal after the autopilot started: skip it, or retry it once it is back'' t)
        else (i, t))"

definition syncMembers :: "hub \<Rightarrow> work \<Rightarrow> work" where
  "syncMembers h w =
     (let w = fold (sync_one h) (dag_order (w_dag w)) (w\<lparr>w_added := []\<rparr>)
      in w\<lparr>w_tasks := map (sync_removed (w_dag w)) (w_tasks w)\<rparr>)"

section \<open>Failures\<close>

definition waiting :: "task_instance \<Rightarrow> bool" where
  "waiting t \<longleftrightarrow> ti_State t = TaskNone \<or> ti_State t = TaskScheduled"

definition failed_upstream :: "work \<Rightarrow> string \<Rightarrow> string option" where
  "failed_upstream w i =
     first_match (\<lambda>up. case task_at w up of
         None \<Rightarrow> False | Some u \<Rightarrow> ti_State u = TaskFailed \<or> ti_State u = TaskUpstreamFailed)
       (deps_at (dag_upstream (w_dag w)) i)"

definition fail_one :: "string \<Rightarrow> work \<times> bool \<Rightarrow> work \<times> bool" where
  "fail_one i wc =
     (case wc of (w, changed) \<Rightarrow>
        (case task_at w i of
           None \<Rightarrow> (w, changed)
         | Some t \<Rightarrow>
             if \<not> waiting t then (w, changed)
             else (case failed_upstream w i of
                 None \<Rightarrow> (w, changed)
               | Some up \<Rightarrow>
                   (put_task i (setState TaskUpstreamFailed NoStage
                      (''waits on '' @ (case task_at w up of Some u \<Rightarrow> ti_Title u | None \<Rightarrow> []) @ '', which failed'') t) w,
                    True))))"

definition fail_pass :: "work \<Rightarrow> work \<times> bool" where
  "fail_pass w = fold fail_one (dag_order (w_dag w)) (w, False)"

text \<open>
  \<^verbatim>\<open>for changed := true; changed;\<close>: every pass but the last takes a waiting task out of that state, so as many passes
  as there are tasks, and one more, are enough; \<open>None\<close> would be a loop still running.
\<close>

fun fail_loop :: "nat \<Rightarrow> work \<Rightarrow> work option" where
  "fail_loop 0 w = None"
| "fail_loop (Suc k) w = (case fail_pass w of (w', changed) \<Rightarrow> if changed then fail_loop k w' else Some w')"

definition propagateFailures :: "work \<Rightarrow> work option" where
  "propagateFailures w = fail_loop (length (w_tasks w) + 1) w"

section \<open>Dispatch\<close>

definition has_repo :: "string \<Rightarrow> runner \<Rightarrow> bool" where
  "has_repo repo r =
     (case runner_Info r of None \<Rightarrow> False | Some info \<Rightarrow> list_ex (\<lambda>x. repo_ID x = repo) (info_Repos info))"

definition eligible :: "autopilot_policy \<Rightarrow> runner \<Rightarrow> bool" where
  "eligible pol r \<longleftrightarrow>
     runner_Online r \<and> Headless (runner_Info r) \<and> \<not> (ap_RunnerID pol \<noteq> [] \<and> runner_ID r \<noteq> ap_RunnerID pol) \<and>
     has_repo (ap_RepoID pol) r"

definition agent_label :: "agent_model \<Rightarrow> string" where
  "agent_label am = (if am_Model am = [] then am_Agent am else am_Agent am @ ''/'' @ am_Model am)"

definition waits :: "string \<Rightarrow> task_instance \<Rightarrow> task_instance" where
  "waits why t = setState TaskScheduled StageQueued why t"

definition start_answer :: "hub \<Rightarrow> string \<Rightarrow> start_request \<Rightarrow> choice \<Rightarrow> task_instance \<Rightarrow> task_instance \<times> bool" where
  "start_answer h now req c t =
     (case hub_Start h req of
        Inl (Refused code msg) \<Rightarrow>
          if code = ''budget'' \<or> code = ''precondition'' then (waits msg t, False)
          else (setState TaskFailed NoStage msg t, False)
      | Inl (StartFailed err) \<Rightarrow> (waits (''could not start: '' @ err) t, False)
      | Inr r \<Rightarrow>
          (setState TaskQueued StageQueued []
             (t\<lparr>ti_Try := ti_Try t + 1, ti_RunID := st_ID r, ti_PipelineID := st_PipelineID r,
                ti_Votes := [], ti_HumanVerdict := [], ti_PRURL := [], ti_CIStatus := [],
                ti_Stages := [\<lparr>sr_Stage = StageQueued, sr_Status = StageRunning,
                               sr_At = firstNonEmpty [st_CreatedAt r, now], sr_RunID = st_ID r, sr_Round = 0,
                               sr_Detail = ch_Reason c\<rparr>],
                ti_Advisor := ch_Reason c\<rparr>), True))"

definition humanChangesPrefix :: string where
  "humanChangesPrefix = ''changes requested: ''"

definition task_prompt :: "autopilot_record \<Rightarrow> task_instance \<Rightarrow> string" where
  "task_prompt rec t =
     (let extra = ''This task is part of an autopilot run for goal '' @ ar_GoalNodeID rec @ ''.'' in
      Truncate
        (if ti_Reason t \<noteq> [] \<and> has_prefix (ti_Reason t) humanChangesPrefix
         then extra @ [CHR 0x0A, CHR 0x0A] @ ''A reviewer asked for changes on the previous attempt:'' @ [CHR 0x0A] @
                trim_prefix (ti_Reason t) humanChangesPrefix
         else extra)
        MaxExtraPrompt)"

text \<open>Who implements: the advisor's answer, else the rules for the node's kind and tags.\<close>

definition choose_for :: "hub \<Rightarrow> work \<Rightarrow> string \<Rightarrow> string \<Rightarrow> agent list \<Rightarrow> string + choice" where
  "choose_for h w i body agents =
     (let (kind, tags) = (case NodeByID (w_graph w) i of Some n \<Rightarrow> (node_Kind n, node_Tags n) | None \<Rightarrow> ([], []));
          node = \<lparr>rt_Project = ar_Project (w_rec w), rt_Kind = kind, rt_Tags = tags, rt_Role = []\<rparr>
      in choose_agent (hub_Advice h i body agents)
           (rules_Choose (hub_Folds h) (hub_Routing h) (hub_Route h i RoleExecutor) (ar_Policy (w_rec w)) node agents) agents)"

text \<open>The routing target of a role, if a rule for the role, or auto routing where no rule is, gives one.\<close>

abbreviation RouteAuto :: string where "RouteAuto \<equiv> ''auto''"

definition by_role :: "hub \<Rightarrow> autopilot_record \<Rightarrow> string \<Rightarrow> agent_model option" where
  "by_role h rec role =
     (case hub_Routing h of
        Inl err \<Rightarrow> None
      | Inr rules \<Rightarrow>
          (case Suggest (hub_Folds h) rules \<lparr>rt_Project = ar_Project rec, rt_Kind = [], rt_Tags = [], rt_Role = role\<rparr> of
             Some s \<Rightarrow>
               if rr_ID s \<noteq> [] then (if rr_Match s = RouteRole then Some (rr_Target s) else None)
               else (case hub_Route h (ar_GoalNodeID rec) role (Some s) of
                   Some s' \<Rightarrow> if rr_ID s' \<noteq> [] \<and> rr_Match s' = RouteAuto then Some (rr_Target s') else None
                 | None \<Rightarrow> None)
           | None \<Rightarrow>
               (case hub_Route h (ar_GoalNodeID rec) role None of
                  Some s' \<Rightarrow> if rr_ID s' \<noteq> [] \<and> rr_Match s' = RouteAuto then Some (rr_Target s') else None
                | None \<Rightarrow> None)))"

definition stagedPipeline :: "hub \<Rightarrow> autopilot_record \<Rightarrow> pipeline option \<Rightarrow> agent_model \<Rightarrow> pipeline option" where
  "stagedPipeline h rec p head =
     (let wf = Normalized (ar_Workflow rec) in
      if \<not> Staged wf then p
      else
        let out = (case p of
                     Some p \<Rightarrow> p
                   | None \<Rightarrow> \<lparr>pl_Implement = head, pl_Review = no_agent, pl_MaxRounds = 2, pl_Reviewers = [], pl_Quorum = 0,
                              pl_Human = False, pl_HumanAnyEditor = False, pl_Tester = no_agent\<rparr>);
            out = (if pl_MaxRounds out < 1 then out\<lparr>pl_MaxRounds := 2\<rparr> else out);
            out = (if am_Agent (pl_Tester out) = []
                   then out\<lparr>pl_Tester := (case by_role h rec ''tester'' of Some am \<Rightarrow> am | None \<Rightarrow> head)\<rparr> else out);
            reviewer = (case wf of Some f \<Rightarrow> stage_Reviewer (wf_Stages f) | None \<Rightarrow> False)
        in Some (if reviewer \<and> ReviewersOf out = []
                 then out\<lparr>pl_Reviewers := [case by_role h rec ''reviewer'' of Some am \<Rightarrow> am | None \<Rightarrow> head]\<rparr> else out))"

text \<open>The least busy runner that has the agent, and what it is asked.\<close>

definition pick_runner :: "hub \<Rightarrow> agent_model \<Rightarrow> runner list \<Rightarrow> runner option" where
  "pick_runner h am rs =
     first_match (\<lambda>r. usable [am] (mergeAgents [r]) \<noteq> [])
       (SliceStable (\<lambda>a b. hub_Busy h (runner_ID a) < hub_Busy h (runner_ID b)) rs)"

definition request_for :: "hub \<Rightarrow> work \<Rightarrow> string \<Rightarrow> task_instance \<Rightarrow> choice \<Rightarrow> string \<Rightarrow> runner \<Rightarrow> start_request" where
  "request_for h w i t c body r =
     (let am = hd (ch_Implement c); pol = ar_Policy (w_rec w) in
      \<lparr>sq_NodeID = i, sq_Kind = JobImplement, sq_Role = [], sq_RunnerID = runner_ID r, sq_Agent = am, sq_RepoID = ap_RepoID pol,
       sq_Fallbacks = tl (ch_Implement c),
       sq_Pipeline = (if ar_Workflow (w_rec w) = None then pipelineFor pol am
                      else stagedPipeline h (w_rec w) (pipelineFor pol am) am),
       sq_Prompt = task_prompt (w_rec w) t, sq_Content = body\<rparr>)"

definition start_on :: "hub \<Rightarrow> work \<Rightarrow> string \<Rightarrow> runner list \<Rightarrow> string \<Rightarrow> task_instance \<Rightarrow> choice \<Rightarrow> work \<times> bool" where
  "start_on h w i rs body t c =
     (case pick_runner h (hd (ch_Implement c)) rs of
        None \<Rightarrow> (put_task i (waits (''no online runner has '' @ agent_label (hd (ch_Implement c))) t) w, False)
      | Some r \<Rightarrow>
          (case start_answer h (w_now w) (request_for h w i t c body r) c t of
             (t', started) \<Rightarrow> (put_task i t' (log_call (StartRun (request_for h w i t c body r)) w), started)))"

definition dispatch_content :: "hub \<Rightarrow> work \<Rightarrow> string \<Rightarrow> runner list \<Rightarrow> string \<Rightarrow> task_instance \<Rightarrow> work \<times> bool" where
  "dispatch_content h w i rs body t =
     (case checkContent h body t of (t, same) \<Rightarrow>
        if \<not> same then (put_task i t w, False)
        else (case choose_for h w i body (mergeAgents rs) of
            Inl err \<Rightarrow> (put_task i (setState TaskFailed NoStage err t) w, False)
          | Inr c \<Rightarrow> start_on h w i rs body t c))"

text \<open>\<^verbatim>\<open>dispatch\<close>; the \<open>bool\<close> is whether a run started.\<close>

definition dispatch :: "hub \<Rightarrow> string \<Rightarrow> work \<Rightarrow> work \<times> bool" where
  "dispatch h i w =
     (case task_at w i of
        None \<Rightarrow> (w, False)
      | Some t \<Rightarrow>
          (case hub_Owned h i of
             Inl err \<Rightarrow> (put_task i (waits (''cannot list runners: '' @ err) t) w, False)
           | Inr owned \<Rightarrow>
               let rs = filter (eligible (ar_Policy (w_rec w))) owned in
               if rs = [] then (put_task i (waits ''waiting for an online runner with the repository'' t) w, False)
               else (case hub_Content h i of
                   Inl err \<Rightarrow> (put_task i (waits (''cannot read the task: '' @ err) t) w, False)
                 | Inr body \<Rightarrow> dispatch_content h w i rs body t)))"

section \<open>Scheduling\<close>

definition holds_slot :: "task_instance \<Rightarrow> bool" where
  "holds_slot t \<longleftrightarrow>
     \<not> (ti_Hold t \<noteq> NoHold \<and> never_started t) \<and>
     (ti_State t = TaskQueued \<or> ti_State t = TaskRunning \<or> ti_State t = TaskWaitingReview \<or> ti_State t = TaskWaitingHuman)"

definition active :: "work \<Rightarrow> int" where
  "active w = int (length (filter (holds_slot \<circ> snd) (w_tasks w)))"

text \<open>The first upstream task that is not settled, in the order of the task graph.\<close>

definition first_wait :: "work \<Rightarrow> string \<Rightarrow> string option" where
  "first_wait w i =
     first_match (\<lambda>up. \<not> settled w up \<and>
         \<not> (task_at w up = None \<and> Settled (board_status w up) (boardStatuses (w_graph w))))
       (deps_at (dag_upstream (w_dag w)) i)"

definition outside_blockers :: "work \<Rightarrow> string \<Rightarrow> string list" where
  "outside_blockers w i = externalBlockers (Some (w_graph w)) (Some (w_state w)) (w_dag w) i"

text \<open>What a waiting task is held back by: \<open>None\<close> when it is ready, else the task with its reason.\<close>

definition not_ready :: "work \<Rightarrow> string \<Rightarrow> task_instance \<Rightarrow> task_instance option" where
  "not_ready w i t =
     (case first_wait w i of
        Some up \<Rightarrow>
          Some (if task_at w up = None
                then t\<lparr>ti_Reason := ''waits on '' @ dag_title (w_dag w) up @
                         '', which joined the goal after the autopilot started: finish it, or start a new autopilot''\<rparr>
                else t)
      | None \<Rightarrow>
          if outside_blockers w i \<noteq> []
          then Some (t\<lparr>ti_Reason := ''waits on '' @ join_with '', '' (outside_blockers w i) @ '' outside this goal''\<rparr>)
          else None)"

definition schedule_one :: "hub \<Rightarrow> string \<Rightarrow> work \<times> int \<Rightarrow> work \<times> int" where
  "schedule_one h i wr =
     (case wr of (w, room) \<Rightarrow>
        (case task_at w i of
           None \<Rightarrow> (w, room)
         | Some t \<Rightarrow>
             if \<not> waiting t then (w, room)
             else (case not_ready w i t of
                 Some t' \<Rightarrow>
                   (put_task i (if ti_State t' \<noteq> TaskNone then setState TaskNone NoStage (ti_Reason t') t' else t') w, room)
               | None \<Rightarrow>
                   if room \<le> 0 then (put_task i (waits ''waiting for a free slot'' t) w, room)
                   else (case dispatch h i w of (w', started) \<Rightarrow> (w', if started then room - 1 else room)))))"

definition schedule :: "hub \<Rightarrow> work \<Rightarrow> work" where
  "schedule h w =
     fst (fold (schedule_one h) (dag_order (w_dag w)) (w, ap_MaxParallel (ar_Policy (w_rec w)) - active w))"

end
