(* ===== verification/Run_Derive.thy ===== *)
theory Run_Derive
  imports Merge_Guard
begin

text \<open>
  Reading a task off its runs (\<^verbatim>\<open>internal/autopilot/derive.go\<close>): the stages a try went through, the votes of its
  reviewers and where the try stands, recomputed from the runs and their pipeline on every pass.
\<close>

datatype phase = phaseIdle | phaseActive | phaseApproved | phaseMerged | phaseFailed

record derived =
  d_phase :: phase
  d_reason :: string
  d_waitingReview :: bool
  d_waitingHuman :: bool
  d_queued :: bool
  d_retryAt :: string
  d_ci :: string
  d_prURL :: string
  d_votes :: "review_vote list"
  d_stages :: "stage_record list"
  d_latestRun :: string

definition idle :: derived where
  "idle = \<lparr>d_phase = phaseIdle, d_reason = [], d_waitingReview = False, d_waitingHuman = False, d_queued = False,
           d_retryAt = [], d_ci = [], d_prURL = [], d_votes = [], d_stages = [], d_latestRun = []\<rparr>"

section \<open>Runs of a try\<close>

definition retriedBy :: "run_record list \<Rightarrow> string \<Rightarrow> string" where
  "retriedBy rs i = (case first_match (\<lambda>r. run_RetryOf r = i) rs of Some r \<Rightarrow> run_ID r | None \<Rightarrow> [])"

definition starts_round :: "run_record \<Rightarrow> bool" where
  "starts_round r \<longleftrightarrow> run_Kind r = JobRevise \<and> run_RetryOf r = []"

definition roundOf :: "run_record list \<Rightarrow> nat \<Rightarrow> int" where
  "roundOf rs i = 1 + int (length (filter starts_round (take (Suc i) rs)))"

text \<open>The stamp of the pass, never before the newest time of a run.\<close>

definition latest_stamp :: "run_record list \<Rightarrow> string \<Rightarrow> string" where
  "latest_stamp rs stamp =
     fold (\<lambda>tm s. if s < tm then tm else s)
       (concat (map (\<lambda>r. [run_CreatedAt r, run_StartedAt r, run_FinishedAt r]) rs)) stamp"

definition stage_at :: "string \<Rightarrow> stage \<Rightarrow> stage_status \<Rightarrow> string \<Rightarrow> string \<Rightarrow> int \<Rightarrow> string \<Rightarrow> stage_record" where
  "stage_at stamp stage status tm runID rnd detail =
     \<lparr>sr_Stage = stage, sr_Status = status, sr_At = (if tm = [] then stamp else tm), sr_RunID = runID, sr_Round = rnd,
      sr_Detail = detail\<rparr>"

definition queued_stage :: "string \<Rightarrow> run_record list \<Rightarrow> run_record \<Rightarrow> run_record \<Rightarrow> stage_record" where
  "queued_stage stamp rs first latest =
     (case first_match (\<lambda>r. run_StartedAt r \<noteq> []) rs of
        Some r \<Rightarrow> stage_at stamp StageQueued StageOK (run_StartedAt r) (run_ID first) 0 []
      | None \<Rightarrow>
          if run_Status latest = RunDeclined
          then stage_at stamp StageQueued StageFailed (run_FinishedAt latest) (run_ID latest) 0 (''declined: '' @ run_Error latest)
          else stage_at stamp StageQueued StageRunning (run_CreatedAt first) (run_ID first) 0 (''waiting for '' @ run_RunnerName first))"

text \<open>The loop that finds the newest implementing run and sorts the review runs into rounds.\<close>

record try_scan =
  ts_round :: int
  ts_maxRound :: int
  ts_implement :: "run_record option"
  ts_reviews :: "int \<Rightarrow> run_record list"

definition scan_run :: "run_record \<Rightarrow> try_scan \<Rightarrow> try_scan" where
  "scan_run r s =
     (let s' =
        (if run_Kind r = JobReview then s\<lparr>ts_reviews := (ts_reviews s)(ts_round s := ts_reviews s (ts_round s) @ [r])\<rparr>
         else if run_Kind r = JobRevise
         then s\<lparr>ts_round := (if run_RetryOf r = [] then ts_round s + 1 else ts_round s), ts_implement := Some r\<rparr>
         else if run_Kind r = JobPlan \<or> run_Kind r = JobVerify \<or> run_Kind r = JobJudge then s
         else s\<lparr>ts_implement := Some r\<rparr>)
      in s'\<lparr>ts_maxRound := max (ts_maxRound s') (ts_round s')\<rparr>)"

definition scan_try :: "run_record list \<Rightarrow> try_scan" where
  "scan_try rs = fold scan_run rs \<lparr>ts_round = 1, ts_maxRound = 1, ts_implement = None, ts_reviews = \<lambda>_. []\<rparr>"

section \<open>Stages\<close>

text \<open>What a run that is not queued shows for its stage.\<close>

definition run_stage :: "string \<Rightarrow> stage \<Rightarrow> int \<Rightarrow> string \<Rightarrow> run_record \<Rightarrow> stage_record list" where
  "run_stage stamp stage rnd detail r =
     (if run_Status r = RunQueued \<or> run_Status r = RunOffered then []
      else if run_Status r = RunRunning then [stage_at stamp stage StageRunning (run_StartedAt r) (run_ID r) rnd detail]
      else if run_Status r = RunSucceeded then [stage_at stamp stage StageOK (run_FinishedAt r) (run_ID r) rnd detail]
      else [stage_at stamp stage StageFailed (run_FinishedAt r) (run_ID r) rnd (firstNonEmpty [run_Error r, run_Status r])])"

definition implement_stages :: "string \<Rightarrow> run_record list \<Rightarrow> stage_record list" where
  "implement_stages stamp rs =
     concat (map (\<lambda>(i, r).
         if run_Kind r \<noteq> JobImplement \<and> run_Kind r \<noteq> JobRevise then []
         else if retriedBy rs (run_ID r) \<noteq> [] then []
         else run_stage stamp (if run_Kind r = JobRevise then StageRevise else StageImplement)
                (if run_Kind r = JobRevise then roundOf rs i else 1)
                (if run_Model r \<noteq> [] then run_Agent r @ ''/'' @ run_Model r else run_Agent r) r)
       (enumerate 0 rs))"

definition staged_stages :: "string \<Rightarrow> run_record list \<Rightarrow> stage_record list" where
  "staged_stages stamp rs =
     concat (map (\<lambda>r.
         if run_Kind r \<noteq> JobTest \<and> run_Kind r \<noteq> JobVerify \<and> run_Kind r \<noteq> JobJudge then []
         else if retriedBy rs (run_ID r) \<noteq> [] then []
         else
           let stage = (if run_Kind r = JobTest then StageTest
                        else if run_Kind r = JobVerify then (if run_VerifyPhase r = Some VerifyGreen then StageVerifyGreen else StageVerifyRed)
                        else StageJudge);
               detail = (if run_Kind r = JobTest then firstNonEmpty [run_Agent r, ''tester'']
                         else if run_Kind r = JobVerify
                         then (case run_Verify r of Some v \<Rightarrow> ''exit '' @ itoa_int (vr_ExitCode v) | None \<Rightarrow> [])
                         else run_Verdict r)
           in run_stage stamp stage 0 detail r) rs)"

definition commit_stages :: "string \<Rightarrow> run_record option \<Rightarrow> stage_record list" where
  "commit_stages stamp implement =
     (case implement of
        None \<Rightarrow> []
      | Some r \<Rightarrow>
          if run_Status r \<noteq> RunSucceeded then []
          else if run_Commit r \<noteq> []
          then [stage_at stamp StageCommit StageOK (run_FinishedAt r) (run_ID r) 0 (shortSHA (run_Commit r)),
                stage_at stamp StagePush StageOK (run_FinishedAt r) (run_ID r) 0 (run_Branch r)]
          else if run_Kind r = JobImplement
          then [stage_at stamp StageCommit StageFailed (run_FinishedAt r) (run_ID r) 0 ''the run changed nothing'']
          else [])"

definition pr_run :: "observation \<Rightarrow> run_record option" where
  "pr_run obs =
     (case obs_prRun obs of Some r \<Rightarrow> Some r | None \<Rightarrow> first_match (\<lambda>r. run_PRURL r \<noteq> []) (rev (obs_runs obs)))"

definition pr_stages :: "string \<Rightarrow> run_record option \<Rightarrow> run_record option \<Rightarrow> stage_record list" where
  "pr_stages stamp pr implement =
     (case pr of
        Some r \<Rightarrow>
          stage_at stamp StagePR StageOK (run_FinishedAt r) (run_ID r) 0 (run_PRURL r) #
          (if run_CIStatus r = CIPending then [stage_at stamp StageCI StageRunning [] (run_ID r) 0 ''checks running'']
           else if run_CIStatus r = CISuccess then [stage_at stamp StageCI StageOK [] (run_ID r) 0 ''checks passed'']
           else if run_CIStatus r = CIFailure then [stage_at stamp StageCI StageFailed [] (run_ID r) 0 ''checks failed'']
           else [])
      | None \<Rightarrow>
          (case implement of
             None \<Rightarrow> []
           | Some r \<Rightarrow>
               if run_Status r = RunSucceeded \<and> run_PRError r \<noteq> []
               then [stage_at stamp StagePR StageFailed (run_FinishedAt r) (run_ID r) 0 (run_PRError r)] else []))"

section \<open>Review rounds\<close>

definition vote_of :: "int \<Rightarrow> run_record \<Rightarrow> review_vote" where
  "vote_of rnd r =
     \<lparr>rv_Agent = run_Agent r, rv_Model = run_Model r,
      rv_Verdict = (if run_Status r = RunSucceeded then run_Verdict r else []), rv_RunID = run_ID r, rv_Round = rnd\<rparr>"

definition standing_reviews :: "run_record list \<Rightarrow> run_record list \<Rightarrow> run_record list" where
  "standing_reviews rs reviews = filter (\<lambda>r. retriedBy rs (run_ID r) = []) reviews"

definition in_progress :: "run_record \<Rightarrow> bool" where
  "in_progress r \<longleftrightarrow> run_Status r = RunQueued \<or> run_Status r = RunOffered \<or> run_Status r = RunRunning"

definition count_votes :: "string \<Rightarrow> review_vote list \<Rightarrow> nat" where
  "count_votes verdict vs = length (filter (\<lambda>v. rv_Verdict v = verdict) vs)"

definition review_stage :: "string \<Rightarrow> run_record list \<Rightarrow> int \<Rightarrow> run_record list \<Rightarrow> stage_record" where
  "review_stage stamp rs rnd reviews =
     (let standing = standing_reviews rs reviews;
          votes = map (vote_of rnd) standing;
          approve = count_votes VerdictApprove votes;
          changes = count_votes VerdictChanges votes;
          tm = fold (\<lambda>r a. firstNonEmpty [run_FinishedAt r, run_StartedAt r, a]) standing [];
          detail = itoa approve @ '' approve, '' @ itoa changes @ '' changes''
      in if list_ex in_progress standing then stage_at stamp StageReview StageRunning tm [] rnd detail
         else if changes > 0 \<and> approve = 0
         then stage_at stamp StageReview StageFailed tm [] rnd (detail @ '': changes requested'')
         else stage_at stamp StageReview StageOK tm [] rnd detail)"

text \<open>\<^verbatim>\<open>for rnd := 1; rnd <= maxRound\<close>: the rounds that have review runs.\<close>

definition review_rounds :: "try_scan \<Rightarrow> int list" where
  "review_rounds s = filter (\<lambda>k. ts_reviews s k \<noteq> []) [1..ts_maxRound s]"

section \<open>The outcome\<close>

definition outcome :: "observation \<Rightarrow> run_record \<Rightarrow> phase \<times> string \<times> bool" where
  "outcome obs latest =
     (case obs_pipeline obs of
        Some p \<Rightarrow>
          if pr_Status p = PipelineApproved then (phaseApproved, [], False)
          else if pr_Status p = PipelineChangesLeft
          then (phaseFailed, firstNonEmpty [pr_Reason p, ''changes still requested when the review rounds ran out''], False)
          else if pr_Status p = PipelineFailed then (phaseFailed, firstNonEmpty [pr_Reason p, ''the pipeline failed''], False)
          else if pr_Status p = PipelineCancelled then (phaseFailed, firstNonEmpty [pr_Reason p, ''the pipeline was cancelled''], False)
          else (phaseActive, [], pr_Status p = PipelineWaitingHuman)
      | None \<Rightarrow>
          if \<not> RunFinal (run_Status latest) then (phaseActive, [], False)
          else if run_Status latest \<noteq> RunSucceeded
          then (phaseFailed, ''run '' @ run_ID latest @ '' '' @ run_Status latest @ '': '' @
                  firstNonEmpty [run_Error latest, run_Status latest], False)
          else if run_PRURL latest \<noteq> [] then (phaseApproved, [], False)
          else if run_PRError latest \<noteq> [] then (phaseFailed, ''no pull request: '' @ run_PRError latest, False)
          else if run_Commit latest = [] then (phaseFailed, ''the run changed nothing'', False)
          else (phaseActive, [], False))"

definition merge_status_text :: "merge_status \<Rightarrow> string" where
  "merge_status_text s =
     (case s of MergePending \<Rightarrow> ''pending'' | MergeDone \<Rightarrow> ''merged'' | MergeFailed \<Rightarrow> ''failed'' | MergeExpired \<Rightarrow> ''expired'')"

text \<open>The last part: whether the pull request is merged, and the stage it shows.\<close>

definition merge_part :: "string \<Rightarrow> run_record option \<Rightarrow> bool \<times> stage_record list" where
  "merge_part stamp pr =
     (case pr of
        None \<Rightarrow> (False, [])
      | Some r \<Rightarrow>
          if run_PRState r = PRMerged then (True, [stage_at stamp StageMerge StageOK [] (run_ID r) 0 ''merged''])
          else (case run_Merge r of
              None \<Rightarrow> (False, [])
            | Some m \<Rightarrow>
                (case mr_Status m of
                   MergePending \<Rightarrow>
                     (False, [stage_at stamp StageMerge StageRunning (mr_CreatedAt m) (run_ID r) 0 (''approved by '' @ mr_RequestedBy m)])
                 | MergeDone \<Rightarrow>
                     (True, [stage_at stamp StageMerge StageOK (firstNonEmpty [mr_FinishedAt m, mr_CreatedAt m]) (run_ID r) 0 ''merged''])
                 | s \<Rightarrow>
                     (False, [stage_at stamp StageMerge StageFailed (firstNonEmpty [mr_FinishedAt m, mr_CreatedAt m]) (run_ID r) 0
                                (merge_status_text s @ '': '' @ mr_Reason m)]))))"

definition derive :: "observation \<Rightarrow> string \<Rightarrow> derived" where
  "derive obs stamp0 =
     (if obs_runs obs = [] then idle
      else
        let rs = obs_runs obs;
            stamp = latest_stamp rs stamp0;
            first = hd rs; latest = last rs;
            s = scan_try rs;
            pr = pr_run obs;
            rounds = review_rounds s;
            (phase, reason, human) = outcome obs latest;
            (merged, merge_stages) = merge_part stamp pr
        in \<lparr>d_phase = (if merged then phaseMerged else phase),
            d_reason = reason,
            d_waitingReview =
              (ts_maxRound s \<in> set rounds \<and> list_ex in_progress (standing_reviews rs (ts_reviews s (ts_maxRound s)))),
            d_waitingHuman = human,
            d_queued = (run_Status latest = RunQueued \<or> run_Status latest = RunOffered),
            d_retryAt = (if run_Status latest = RunQueued then run_RetryAt latest else []),
            d_ci = (case pr of Some r \<Rightarrow> run_CIStatus r | None \<Rightarrow> []),
            d_prURL = (case pr of Some r \<Rightarrow> run_PRURL r | None \<Rightarrow> []),
            d_votes = concat (map (\<lambda>k. map (vote_of k) (standing_reviews rs (ts_reviews s k))) rounds),
            d_stages =
              queued_stage stamp rs first latest # implement_stages stamp rs @ staged_stages stamp rs @
              commit_stages stamp (ts_implement s) @ pr_stages stamp pr (ts_implement s) @
              map (\<lambda>k. review_stage stamp rs k (ts_reviews s k)) rounds @
              (if human
               then [stage_at stamp StageHuman StageWaiting [] [] (case obs_pipeline obs of Some p \<Rightarrow> pr_Round p | None \<Rightarrow> 0)
                       ''waiting for a person'']
               else []) @
              merge_stages,
            d_latestRun = run_ID latest\<rparr>)"

section \<open>Times\<close>

definition same_stage :: "stage_record \<Rightarrow> stage_record \<Rightarrow> bool" where
  "same_stage p n \<longleftrightarrow> sr_Stage p = sr_Stage n \<and> sr_Round p = sr_Round n \<and> sr_RunID p = sr_RunID n"

definition keep_detail :: "stage_record list \<Rightarrow> stage_record \<Rightarrow> stage_record" where
  "keep_detail prev n =
     (if sr_Detail n \<noteq> [] then n
      else fold (\<lambda>p n. if same_stage p n \<and> sr_Detail p \<noteq> [] then n\<lparr>sr_Detail := sr_Detail p\<rparr> else n) prev n)"

definition keep_time :: "stage_record list \<Rightarrow> stage_record \<Rightarrow> stage_record" where
  "keep_time prev n =
     (case first_match (\<lambda>p. same_stage p n \<and> sr_Status p = sr_Status n) prev of
        Some p \<Rightarrow> n\<lparr>sr_At := sr_At p\<rparr> | None \<Rightarrow> n)"

definition keepTimes :: "stage_record list \<Rightarrow> stage_record list \<Rightarrow> stage_record list" where
  "keepTimes prev nxt = map (keep_time prev) (map (keep_detail prev) nxt)"

end
