(* ===== verification/Orchestrator_Act.thy ===== *)
theory Orchestrator_Act
  imports Orchestrator Run_Derive
begin

text \<open>
  What the orchestrator makes of a task's runs (\<^verbatim>\<open>refresh\<close>, \<^verbatim>\<open>observe\<close>, \<^verbatim>\<open>act\<close>, \<^verbatim>\<open>merge\<close>, \<^verbatim>\<open>done\<close>,
  \<^verbatim>\<open>markBoard\<close> and \<^verbatim>\<open>finishIfDone\<close> of \<^verbatim>\<open>internal/autopilot/orchestrator.go\<close>): the merge, the hold before it and the end.
\<close>

section \<open>Observing a try\<close>

text \<open>
  The fallback chain: \<open>None\<close> stands for a loop still running after \<open>fuel\<close> rounds, which only runs that name each
  other in a circle can cause.
\<close>

fun follow_chain :: "nat \<Rightarrow> run_record list \<Rightarrow> string \<Rightarrow> run_record list \<Rightarrow> run_record list option" where
  "follow_chain fuel runs cur found =
     (case first_match (\<lambda>r. run_RetryOf r = cur) runs of
        None \<Rightarrow> Some found
      | Some r \<Rightarrow> (case fuel of 0 \<Rightarrow> None | Suc k \<Rightarrow> follow_chain k runs (run_ID r) (found @ [r])))"

declare follow_chain.simps [simp del]

text \<open>The newest run with a pull request, read again with its merge requests.\<close>

definition with_pr :: "hub \<Rightarrow> pipeline_record option \<Rightarrow> run_record list \<Rightarrow> string + observation" where
  "with_pr h p rs =
     (case first_match (\<lambda>r. run_PRURL r \<noteq> []) (rev rs) of
        None \<Rightarrow> Inr \<lparr>obs_runs = rs, obs_pipeline = p, obs_prRun = None\<rparr>
      | Some r \<Rightarrow>
          (case hub_Get h (run_ID r) of
             Inl err \<Rightarrow> Inl err
           | Inr full \<Rightarrow> Inr \<lparr>obs_runs = rs, obs_pipeline = p, obs_prRun = Some full\<rparr>))"

definition observe :: "hub \<Rightarrow> task_instance \<Rightarrow> (string + observation) option" where
  "observe h t =
     (if ti_PipelineID t \<noteq> [] then
        (case hub_Pipeline h (ti_PipelineID t) of
           Inl err \<Rightarrow> Some (Inl err)
         | Inr p \<Rightarrow>
             (case hub_PipelineRuns h (ti_PipelineID t) of
                Inl err \<Rightarrow> Some (Inl err)
              | Inr rs \<Rightarrow> Some (with_pr h (Some p) rs)))
      else
        (case hub_Get h (ti_RunID t) of
           Inl err \<Rightarrow> Some (Inl err)
         | Inr first \<Rightarrow>
             (case hub_NodeRuns h (ti_NodeID t) of
                Inl err \<Rightarrow> Some (Inl err)
              | Inr runs \<Rightarrow> map_option (with_pr h None) (follow_chain (length runs) runs (run_ID first) [first]))))"

section \<open>The board\<close>

definition writer_name :: "autopilot_record \<Rightarrow> string" where
  "writer_name rec = (if ar_CreatedByName rec \<noteq> [] then ''autopilot ('' @ ar_CreatedByName rec @ '')'' else ''autopilot'')"

definition markBoard :: "hub \<Rightarrow> string \<Rightarrow> status \<Rightarrow> string \<Rightarrow> work \<Rightarrow> work" where
  "markBoard h nodeID s note w =
     (if ComputeStatuses (w_graph w) (Some (w_state w)) nodeID = Some s then w
      else
        let w = log_call (MarkNode nodeID s note) w in
        if \<not> hub_SetStatus h nodeID s then w
        else (case SetStatus (w_state w) nodeID s (writer_name (w_rec w)) (hub_Time h) of
            Inl err \<Rightarrow> w
          | Inr rs \<Rightarrow> w\<lparr>w_state := rs\<rparr>))"

section \<open>One task\<close>

definition latest_time :: "stage_record list \<Rightarrow> string \<Rightarrow> string" where
  "latest_time stages now = fold (\<lambda>s tm. if tm < sr_At s then sr_At s else tm) stages now"

definition add_stage :: "string \<Rightarrow> stage \<Rightarrow> stage_status \<Rightarrow> string \<Rightarrow> string \<Rightarrow> stage_record list \<Rightarrow> stage_record list" where
  "add_stage now stage status runID detail stages =
     stages @ [\<lparr>sr_Stage = stage, sr_Status = status, sr_At = latest_time stages now, sr_RunID = runID, sr_Round = 0,
                sr_Detail = detail\<rparr>]"

type_synonym acted = "work \<times> task_instance \<times> stage_record list"

text \<open>\<^verbatim>\<open>done\<close>: the node is done on the board and the task succeeded.\<close>

definition task_done :: "hub \<Rightarrow> string \<Rightarrow> acted \<Rightarrow> acted" where
  "task_done h note a =
     (case a of (w, t, stages) \<Rightarrow>
        (markBoard h (ti_NodeID t) StatusDone (''autopilot: '' @ note) w,
         setState TaskSuccess StageDone [] t,
         add_stage (w_now w) StageDone StageOK [] [] stages))"

text \<open>\<^verbatim>\<open>merge\<close>: one request per head, through the run that carries the pull request.\<close>

definition merge_task :: "hub \<Rightarrow> acted \<Rightarrow> acted option" where
  "merge_task h a =
     (case a of (w, t0, stages) \<Rightarrow>
        let t = setState TaskRunning StageMerge [] t0 in
        (case observe h t of
           None \<Rightarrow> None
         | Some (Inl err) \<Rightarrow> Some (w, t, stages)
         | Some (Inr obs) \<Rightarrow>
             (case obs_prRun obs of
                None \<Rightarrow> Some (w, t, stages)
              | Some pr \<Rightarrow>
                  let ask =
                    (let w = log_call (RequestMerge (run_ID pr) (run_PRHeadSHA pr)) w in
                     case hub_Merge h (run_ID pr) (run_PRHeadSHA pr) of
                       MergeAsked \<Rightarrow> (w, t, add_stage (w_now w) StageMerge StageRunning (run_ID pr) ''merge requested'' stages)
                     | NotMergingYet err \<Rightarrow> (w, t\<lparr>ti_Reason := ''not merging yet: '' @ err\<rparr>, stages)
                     | MergeError \<Rightarrow> (w, t, stages))
                  in (case run_Merge pr of
                        None \<Rightarrow> Some ask
                      | Some m \<Rightarrow>
                          (case mr_Status m of
                             MergePending \<Rightarrow> Some (w, t, stages)
                           | MergeDone \<Rightarrow> Some (w, t, stages)
                           | MergeFailed \<Rightarrow> Some (w, setState TaskFailed StageMerge (''the merge failed: '' @ mr_Reason m) t, stages)
                           | MergeExpired \<Rightarrow> Some ask)))))"

definition holdFor :: "hub \<Rightarrow> task_instance \<Rightarrow> string option" where
  "holdFor h t =
     (case observe h t of
        None \<Rightarrow> None
      | Some (Inl err) \<Rightarrow> Some (''its runs cannot be read: '' @ err)
      | Some (Inr obs) \<Rightarrow> Some (mergeHold (hub_Changes h) obs))"

text \<open>The end of \<^verbatim>\<open>act\<close>: the checks of the pull request decide.\<close>

definition ci_gate :: "hub \<Rightarrow> string \<Rightarrow> acted \<Rightarrow> acted option" where
  "ci_gate h ci a =
     (case a of (w, t, stages) \<Rightarrow>
        if ci = CIFailure then Some (w, setState TaskFailed NoStage ''the pull request's checks failed'' t, stages)
        else if ci = CISuccess then merge_task h (w, t, stages)
        else Some (w, setState TaskRunning StageCI ''waiting for the pull request's checks'' t, stages))"

text \<open>A pull request no person reviewed: a person clears the hold, or there is nothing to hold it for.\<close>

definition merge_gate :: "hub \<Rightarrow> string \<Rightarrow> acted \<Rightarrow> acted option" where
  "merge_gate h ci a =
     (case a of (w, t, stages) \<Rightarrow>
        if humanReview (ar_Policy (w_rec w)) then ci_gate h ci a
        else if ti_Hold t = HoldSensitive \<and> ti_HumanVerdict t = VerdictApprove
        then ci_gate h ci (w, t, add_stage (w_now w) StageHuman StageOK [] ''merge approved by a person'' stages)
        else (case holdFor h t of
            None \<Rightarrow> None
          | Some why \<Rightarrow>
              if why \<noteq> []
              then Some (w, hold_task HoldSensitive StageHuman (''not merging without a person: '' @ why) t,
                         add_stage (w_now w) StageHuman StageWaiting [] why stages)
              else ci_gate h ci a))"

definition pipelineHandlesHuman :: bool where "pipelineHandlesHuman = True"

definition act_approved :: "hub \<Rightarrow> derived \<Rightarrow> acted \<Rightarrow> acted option" where
  "act_approved h d a =
     (case a of (w, t, stages) \<Rightarrow>
        let pol = ar_Policy (w_rec w);
            ask = (humanReview pol \<and> \<not> pipelineHandlesHuman);
            stages = (if ask \<and> ti_HumanVerdict t = VerdictApprove then add_stage (w_now w) StageHuman StageOK [] ''approved'' stages
                      else stages)
        in if ask \<and> ti_HumanVerdict t \<noteq> VerdictApprove
           then Some (w, setState TaskWaitingHuman StageHuman [] t,
                      add_stage (w_now w) StageHuman StageWaiting [] ''waiting for a person'' stages)
           else
             let stages = add_stage (w_now w) StageApproved StageOK [] [] stages in
             if \<not> ap_AutoMerge pol
             then Some (markBoard h (ti_NodeID t) StatusDone (''approved by the autopilot; PR '' @ ti_PRURL t) w,
                        setState TaskSuccess StageApproved ''approved; merging is left to a person'' t, stages)
             else merge_gate h (d_ci d) (w, t, stages))"

definition act :: "hub \<Rightarrow> derived \<Rightarrow> acted \<Rightarrow> acted option" where
  "act h d a =
     (case a of (w, t, stages) \<Rightarrow>
        (case d_phase d of
           phaseFailed \<Rightarrow> Some (w, setState TaskFailed NoStage (d_reason d) t, stages)
         | phaseMerged \<Rightarrow>
             Some (task_done h (''merged '' @ ti_PRURL t) (w, t, add_stage (w_now w) StageApproved StageOK [] [] stages))
         | phaseApproved \<Rightarrow> act_approved h d a
         | _ \<Rightarrow>
             Some (w,
               (if d_waitingHuman d then setState TaskWaitingHuman StageHuman [] t
                else if d_waitingReview d then setState TaskWaitingReview NoStage [] t
                else if d_queued d \<and> d_retryAt d \<noteq> []
                then setState TaskQueued NoStage (''waiting for the usage limit to reset; retry at '' @ d_retryAt d) t
                else if d_queued d then setState TaskQueued NoStage [] t
                else setState TaskRunning NoStage [] t), stages)))"

section \<open>Every dispatched task\<close>

definition stageRank :: "stage \<Rightarrow> nat" where
  "stageRank s =
     (case s of
        StageQueued \<Rightarrow> 0 | StageTest \<Rightarrow> 1 | StageVerifyRed \<Rightarrow> 2 | StageImplement \<Rightarrow> 3 | StageCommit \<Rightarrow> 4 | StagePush \<Rightarrow> 5
      | StagePR \<Rightarrow> 6 | StageVerifyGreen \<Rightarrow> 7 | StageGuard \<Rightarrow> 8 | StageJudge \<Rightarrow> 9 | StageReview \<Rightarrow> 10 | StageHuman \<Rightarrow> 11
      | StageRevise \<Rightarrow> 12 | StageApproved \<Rightarrow> 13 | StageCI \<Rightarrow> 14 | StageMerge \<Rightarrow> 15 | StageDone \<Rightarrow> 16 | NoStage \<Rightarrow> 0)"

definition stage_less :: "stage_record \<Rightarrow> stage_record \<Rightarrow> bool" where
  "stage_less a b =
     (if sr_At a \<noteq> sr_At b then sr_At a < sr_At b else stageRank (sr_Stage a) < stageRank (sr_Stage b))"

definition keep_stages :: "stage_record list \<Rightarrow> stage_record list \<Rightarrow> task_instance \<Rightarrow> task_instance" where
  "keep_stages prev stages t =
     (let sorted = SliceStable stage_less (keepTimes prev stages);
          t = t\<lparr>ti_Stages := sorted\<rparr>
      in if ti_Stage t = NoStage \<and> sorted \<noteq> [] then t\<lparr>ti_Stage := sr_Stage (last sorted)\<rparr> else t)"

definition refresh_one :: "hub \<Rightarrow> string \<Rightarrow> work \<Rightarrow> work option" where
  "refresh_one h i w =
     (case task_at w i of
        None \<Rightarrow> Some w
      | Some t \<Rightarrow>
          if never_started t \<or> final1 (ti_State t) then Some w
          else (case observe h t of
              None \<Rightarrow> None
            | Some (Inl err) \<Rightarrow> Some w
            | Some (Inr obs) \<Rightarrow>
                let d = derive obs (w_now w);
                    t' = t\<lparr>ti_RunID := firstNonEmpty [d_latestRun d, ti_RunID t], ti_PRURL := d_prURL d,
                           ti_CIStatus := d_ci d, ti_Votes := d_votes d, ti_Stage := NoStage\<rparr>
                in (case act h d (w, t', d_stages d) of
                      None \<Rightarrow> None
                    | Some (w', t'', stages) \<Rightarrow> Some (put_task i (keep_stages (ti_Stages t) stages t'') w'))))"

definition obind :: "'a option \<Rightarrow> ('a \<Rightarrow> 'b option) \<Rightarrow> 'b option" where
  "obind x f = (case x of None \<Rightarrow> None | Some a \<Rightarrow> f a)"

fun refresh_from :: "hub \<Rightarrow> string list \<Rightarrow> work \<Rightarrow> work option" where
  "refresh_from h [] w = Some w"
| "refresh_from h (i # is) w = obind (refresh_one h i w) (refresh_from h is)"

definition sortedIDs :: "(string, task_instance) gomap \<Rightarrow> string list" where
  "sortedIDs m = sort (map fst m)"

definition refresh :: "hub \<Rightarrow> work \<Rightarrow> work option" where
  "refresh h w = refresh_from h (sortedIDs (w_tasks w)) w"

section \<open>The end of an autopilot\<close>

definition failed_tasks :: "work \<Rightarrow> nat" where
  "failed_tasks w =
     length (filter (\<lambda>(i, t). ti_State t = TaskFailed \<or> ti_State t = TaskUpstreamFailed) (w_tasks w))"

definition end_with :: "autopilot_status \<Rightarrow> string \<Rightarrow> work \<Rightarrow> work" where
  "end_with s reason w = w\<lparr>w_rec := (w_rec w)\<lparr>ar_Status := s, ar_Reason := reason\<rparr>, w_dirty := True\<rparr>"

definition finishIfDone :: "hub \<Rightarrow> work \<Rightarrow> work" where
  "finishIfDone h w =
     (if w_tasks w = [] \<or> list_ex (\<lambda>(i, t). \<not> final1 (ti_State t)) (w_tasks w) then w
      else if failed_tasks w > 0 then end_with AutopilotFailed (itoa (failed_tasks w) @ '' task(s) failed'') w
      else if w_added w \<noteq> []
      then end_with AutopilotSucceeded
             (''every task is done; '' @ itoa (length (w_added w)) @ '' added to the goal after the start were not worked'') w
      else markBoard h (ar_GoalNodeID (w_rec w)) StatusDone ''autopilot: every task is done''
             (end_with AutopilotSucceeded ''every task is done'' w))"

end
