(* ===== verification/Goal_Flow.thy ===== *)
theory Goal_Flow
  imports Orchestrator_Act
begin

text \<open>
  The goal under workflow stages (\<^verbatim>\<open>internal/autopilot/goalflow.go\<close>) and the pass as a whole (\<^verbatim>\<open>load\<close> and
  \<^verbatim>\<open>reconcileLocked\<close> of \<^verbatim>\<open>orchestrator.go\<close>): QA's criteria, the breakdown, the tasks, QA's verification and a
  person's review of the goal.
\<close>

section \<open>Phases\<close>

definition maxFixTasksPerRound :: nat where "maxFixTasksPerRound = 5"
definition QAFixTag :: string where "QAFixTag = ''qa-fix''"

definition goal_stages :: "autopilot_record \<Rightarrow> stages" where
  "goal_stages rec =
     (case ar_Workflow rec of
        Some f \<Rightarrow> wf_Stages f
      | None \<Rightarrow> \<lparr>stage_Planner = False, stage_GoalQA = False, stage_Tester = False, stage_Reviewer = False, stage_CI = False,
                 stage_GoalReview = False\<rparr>)"

definition initialGoalPhase :: "workflow \<Rightarrow> node \<Rightarrow> nat \<Rightarrow> goal_phase" where
  "initialGoalPhase flow goal members =
     (if stage_GoalQA (wf_Stages flow) \<and> Empty (node_Acceptance goal) then GoalPhaseAcceptance
      else if stage_Planner (wf_Stages flow) \<and> members = 0 then GoalPhasePlan
      else GoalPhaseTasks)"

definition on_rec :: "(autopilot_record \<Rightarrow> autopilot_record) \<Rightarrow> work \<Rightarrow> work" where
  "on_rec f w = w\<lparr>w_rec := f (w_rec w), w_dirty := True\<rparr>"

definition setPhase :: "goal_phase \<Rightarrow> work \<Rightarrow> work" where
  "setPhase p = on_rec (\<lambda>r. r\<lparr>ar_GoalPhase := p\<rparr>)"

definition set_reason :: "string \<Rightarrow> work \<Rightarrow> work" where
  "set_reason why = on_rec (\<lambda>r. r\<lparr>ar_Reason := why\<rparr>)"

definition goalNode :: "work \<Rightarrow> node option" where
  "goalNode w = NodeByID (w_graph w) (ar_GoalNodeID (w_rec w))"

definition afterAcceptance :: "work \<Rightarrow> goal_phase" where
  "afterAcceptance w = (if stage_Planner (goal_stages (w_rec w)) \<and> w_tasks w = [] then GoalPhasePlan else GoalPhaseTasks)"

section \<open>Runs on the goal\<close>

text \<open>The first agent of the chain that an online runner of the creator's has; a reason when there is none.\<close>

fun first_pair :: "runner list \<Rightarrow> agent_model list \<Rightarrow> (runner \<times> agent_model) option" where
  "first_pair rs [] = None"
| "first_pair rs (am # ams) =
     (case first_match (\<lambda>r. usable [am] (mergeAgents [r]) \<noteq> []) rs of Some r \<Rightarrow> Some (r, am) | None \<Rightarrow> first_pair rs ams)"

definition role_targets :: "hub \<Rightarrow> work \<Rightarrow> string \<Rightarrow> agent_model list" where
  "role_targets h w role =
     (case hub_Routing h of
        Inl err \<Rightarrow> []
      | Inr rules \<Rightarrow>
          (case hub_Route h (ar_GoalNodeID (w_rec w)) role
                  (Suggest (hub_Folds h) rules \<lparr>rt_Project = ar_Project (w_rec w), rt_Kind = [], rt_Tags = [], rt_Role = role\<rparr>) of
             Some s \<Rightarrow> if rr_ID s \<noteq> [] then [rr_Target s] else []
           | None \<Rightarrow> []))"

definition goalRunner :: "hub \<Rightarrow> work \<Rightarrow> string \<Rightarrow> string \<Rightarrow> string + runner \<times> agent_model" where
  "goalRunner h w role body =
     (case hub_Owned h (ar_GoalNodeID (w_rec w)) of
        Inl err \<Rightarrow> Inl (''cannot list runners: '' @ err)
      | Inr owned \<Rightarrow>
          let rs = filter (eligible (ar_Policy (w_rec w))) owned in
          if rs = [] then Inl ''waiting for an online runner with the repository''
          else
            let chosen = (case choose_for h w (ar_GoalNodeID (w_rec w)) body (mergeAgents rs) of Inl err \<Rightarrow> [] | Inr c \<Rightarrow> ch_Implement c)
            in (case first_pair (SliceStable (\<lambda>a b. hub_Busy h (runner_ID a) < hub_Busy h (runner_ID b)) rs)
                       (role_targets h w role @ chosen) of
                  Some ra \<Rightarrow> Inr ra
                | None \<Rightarrow> Inl (''no online runner has an agent for the '' @ role @ '' role'')))"

text \<open>\<^verbatim>\<open>startGoalRun\<close>; \<open>keep\<close> stores the run's ID.\<close>

definition startGoalRun ::
  "hub \<Rightarrow> string \<Rightarrow> string \<Rightarrow> (string \<Rightarrow> autopilot_record \<Rightarrow> autopilot_record) \<Rightarrow> string \<Rightarrow> work \<Rightarrow> work" where
  "startGoalRun h kind role keep extra w =
     (case goalNode w of
        None \<Rightarrow> w
      | Some goal \<Rightarrow>
          (case hub_Content h (ar_GoalNodeID (w_rec w)) of
             Inl err \<Rightarrow> set_reason (''cannot read the goal: '' @ err) w
           | Inr body \<Rightarrow>
               (case goalRunner h w role body of
                  Inl why \<Rightarrow> set_reason why w
                | Inr (r, am) \<Rightarrow>
                    let req = \<lparr>sq_NodeID = ar_GoalNodeID (w_rec w), sq_Kind = kind, sq_Role = role, sq_RunnerID = runner_ID r,
                               sq_Agent = am, sq_RepoID = ap_RepoID (ar_Policy (w_rec w)), sq_Fallbacks = [], sq_Pipeline = None,
                               sq_Prompt = Truncate extra MaxExtraPrompt, sq_Content = body\<rparr>;
                        w = log_call (StartRun req) w
                    in (case hub_Start h req of
                          Inl (Refused code msg) \<Rightarrow> set_reason msg w
                        | Inl (StartFailed err) \<Rightarrow> w
                        | Inr run \<Rightarrow> on_rec (keep (st_ID run)) w))))"

section \<open>The phases\<close>

definition fail_with :: "string \<Rightarrow> work \<Rightarrow> work" where
  "fail_with why = on_rec (\<lambda>r. r\<lparr>ar_Status := AutopilotFailed, ar_Reason := why\<rparr>)"

definition is_running :: "work \<Rightarrow> bool" where
  "is_running w \<longleftrightarrow> ar_Status (w_rec w) = AutopilotRunning"

definition keep_QA :: "string \<Rightarrow> autopilot_record \<Rightarrow> autopilot_record" where
  "keep_QA i r = r\<lparr>ar_QARunID := i\<rparr>"

definition keep_Plan :: "string \<Rightarrow> autopilot_record \<Rightarrow> autopilot_record" where
  "keep_Plan i r = r\<lparr>ar_PlanRunID := i\<rparr>"

definition acceptancePhase :: "hub \<Rightarrow> work \<Rightarrow> work" where
  "acceptancePhase h w =
     (case goalNode w of
        None \<Rightarrow> w
      | Some goal \<Rightarrow>
          if ar_QARunID (w_rec w) = [] then
            (if \<not> Empty (node_Acceptance goal) then setPhase (afterAcceptance w) w
             else if \<not> is_running w then w
             else startGoalRun h JobPlan ''qa'' keep_QA
               ''Goal QA: write this goal's acceptance criteria with set_acceptance (checkable one-line items). Create no tasks.'' w)
          else (case hub_Get h (ar_QARunID (w_rec w)) of
              Inl err \<Rightarrow> w
            | Inr r \<Rightarrow>
                if \<not> RunFinal (run_Status r) then w
                else if run_Status r = RunSucceeded \<and> \<not> Empty (node_Acceptance goal)
                then setPhase (afterAcceptance w) (w\<lparr>w_rec := keep_QA [] (w_rec w)\<rparr>)
                else fail_with (''QA wrote no acceptance criteria for the goal (run '' @ run_ID r @ '' '' @ run_Status r @
                       ''); write them and start a new autopilot'') w))"

text \<open>A task that joins, pinned to the content it is read with.\<close>

definition new_task :: "hub \<Rightarrow> dag \<Rightarrow> string \<Rightarrow> string \<Rightarrow> task_instance" where
  "new_task h d i body =
     \<lparr>ti_NodeID = i, ti_Title = dag_title d i, ti_State = TaskNone, ti_Stage = NoStage, ti_Try = 0,
      ti_Upstream = deps_at (dag_upstream d) i, ti_RunID = [], ti_PipelineID = [], ti_PRURL = [], ti_CIStatus = [],
      ti_Votes = [], ti_HumanVerdict = [], ti_Stages = [], ti_Reason = [], ti_Advisor = [],
      ti_ContentHash = hub_Hash h (dag_title d i) body, ti_Hold = NoHold, ti_UpdatedAt = []\<rparr>"

text \<open>\<^verbatim>\<open>adopt\<close>: members that are not tasks yet join, in the order of the task graph; \<open>limit\<close> 0 is no limit.\<close>

fun adopt_from :: "hub \<Rightarrow> (string \<Rightarrow> bool) \<Rightarrow> nat \<Rightarrow> string list \<Rightarrow> nat \<Rightarrow> work \<Rightarrow> nat \<times> work" where
  "adopt_from h keep limit [] n w = (n, w)"
| "adopt_from h keep limit (i # is) n w =
     (if task_at w i \<noteq> None \<or> \<not> keep i then adopt_from h keep limit is n w
      else if limit > 0 \<and> n \<ge> limit then (n, w)
      else (case hub_Content h i of
          Inl err \<Rightarrow> adopt_from h keep limit is n w
        | Inr body \<Rightarrow>
            adopt_from h keep limit is (n + 1) (put_task i (new_task h (w_dag w) i body) w)))"

definition adopt :: "hub \<Rightarrow> (string \<Rightarrow> bool) \<Rightarrow> nat \<Rightarrow> work \<Rightarrow> nat \<times> work" where
  "adopt h keep limit w =
     (case adopt_from h keep limit (dag_order (w_dag w)) 0 w of
        (n, w') \<Rightarrow> (n, if n > 0 then syncMembers h (w'\<lparr>w_dirty := True\<rparr>) else w'))"

definition planPhase :: "hub \<Rightarrow> work \<Rightarrow> work" where
  "planPhase h w =
     (if ar_PlanRunID (w_rec w) = [] then
        (if \<not> is_running w then w
         else startGoalRun h JobPlan ''planner'' keep_Plan
           ''Break this goal down into tasks with create_subgraph; give every task 2-6 checkable acceptance criteria.'' w)
      else (case hub_Get h (ar_PlanRunID (w_rec w)) of
          Inl err \<Rightarrow> w
        | Inr r \<Rightarrow>
            if \<not> RunFinal (run_Status r) then w
            else if run_Status r \<noteq> RunSucceeded
            then fail_with (''the planner run '' @ run_ID r @ '' '' @ run_Status r) w
            else (case adopt h (\<lambda>i. hub_CreatedByRun h i = ar_PlanRunID (w_rec w)) 0 w of
                (n, w') \<Rightarrow>
                  if n = 0 then fail_with ''the planner created no tasks for the goal'' w'
                  else setPhase GoalPhaseTasks w')))"

definition goalDone :: "hub \<Rightarrow> string \<Rightarrow> work \<Rightarrow> work" where
  "goalDone h reason w =
     (let why = (if w_added w \<noteq> []
                 then reason @ ''; '' @ itoa (length (w_added w)) @ '' added to the goal after the start were not worked''
                 else reason)
      in markBoard h (ar_GoalNodeID (w_rec w)) StatusDone (''autopilot: '' @ reason)
           (setPhase GoalPhaseDone (on_rec (\<lambda>r. r\<lparr>ar_Status := AutopilotSucceeded, ar_Reason := why\<rparr>) w)))"

definition tasksDone :: "hub \<Rightarrow> work \<Rightarrow> work" where
  "tasksDone h w =
     (if w_tasks w = [] \<or> list_ex (\<lambda>(i, t). \<not> final1 (ti_State t)) (w_tasks w) then w
      else if failed_tasks w > 0 then fail_with (itoa (failed_tasks w) @ '' task(s) failed'') w
      else
        let flow = Normalized (ar_Workflow (w_rec w)); on = (\<lambda>f. case flow of Some x \<Rightarrow> f (wf_Stages x) | None \<Rightarrow> False) in
        if on stage_GoalQA then setPhase GoalPhaseQA (w\<lparr>w_rec := keep_QA [] (w_rec w)\<rparr>)
        else if on stage_GoalReview
        then setPhase GoalPhaseHuman (w\<lparr>w_rec := (w_rec w)\<lparr>ar_Reason := ''every task is done; waiting for a person to review the goal''\<rparr>\<rparr>)
        else goalDone h ''every task is done'' w)"

definition qaPassed :: "run_record \<Rightarrow> bool" where
  "qaPassed r \<longleftrightarrow>
     run_Status r = RunSucceeded \<and> run_Verdict r = VerdictPass \<and> list_all (\<lambda>p. p) (run_Checks r) \<and>
     \<not> (case run_Verify r of None \<Rightarrow> False | Some v \<Rightarrow> \<not> vr_NoCommand v \<and> vr_ExitCode v \<noteq> 0)"

text \<open>The end of \<^verbatim>\<open>qaPhase\<close>; the rows it records about the round (\<^verbatim>\<open>qarounds.go\<close>) are left out.\<close>

definition is_fix_task :: "hub \<Rightarrow> work \<Rightarrow> string \<Rightarrow> string \<Rightarrow> bool" where
  "is_fix_task h w qaRun i =
     (case NodeByID (w_graph w) i of
        None \<Rightarrow> False
      | Some n \<Rightarrow> QAFixTag \<in> set (node_Tags n) \<and> GoalTag (ar_GoalNodeID (w_rec w)) \<in> set (node_Tags n) \<and> hub_CreatedByRun h i = qaRun)"

definition qa_failed :: "hub \<Rightarrow> int \<Rightarrow> work \<Rightarrow> work" where
  "qa_failed h maxRounds w0 =
     (let w = on_rec (\<lambda>r. r\<lparr>ar_QARound := ar_QARound r + 1\<rparr>) w0; k = ar_QARound (w_rec w) in
      if k \<ge> maxRounds
      then setPhase GoalPhaseHuman (set_reason (''QA still failing after '' @ itoa_int k @ '' round(s); a person decides'') w)
      else (case adopt h (is_fix_task h w (ar_QARunID (w_rec w))) maxFixTasksPerRound w of
          (n, w) \<Rightarrow>
            if n = 0
            then setPhase GoalPhaseHuman
                   (set_reason (''QA failed in round '' @ itoa_int k @ '' and created no fix tasks; a person decides'') w)
            else setPhase GoalPhaseTasks
                   (set_reason (''QA round '' @ itoa_int k @ '' failed: '' @ itoa n @ '' fix task(s) added'') w)))"

definition qaPhase :: "hub \<Rightarrow> work \<Rightarrow> work" where
  "qaPhase h w =
     (if ar_QARunID (w_rec w) = [] then
        (if \<not> is_running w then w
         else startGoalRun h JobJudge ''qa'' keep_QA
           (''Goal QA, round '' @ itoa_int (ar_QARound (w_rec w) + 1) @
            '': verify the finished goal against its acceptance criteria. On failure create at most '' @ itoa maxFixTasksPerRound @
            '' fix tasks with create_subgraph, tagged '' @ GoalTag (ar_GoalNodeID (w_rec w)) @ '' and '' @ QAFixTag @
            '', each with acceptance criteria.'') w)
      else (case hub_Get h (ar_QARunID (w_rec w)) of
          Inl err \<Rightarrow> w
        | Inr r \<Rightarrow>
            if \<not> RunFinal (run_Status r) then w
            else
              let flow = Normalized (ar_Workflow (w_rec w)) in
              if qaPassed r then
                (if (case flow of Some x \<Rightarrow> stage_GoalReview (wf_Stages x) | None \<Rightarrow> False)
                 then setPhase GoalPhaseHuman
                        (w\<lparr>w_rec := (w_rec w)\<lparr>ar_Reason := ''QA verified the goal; waiting for a person to review it''\<rparr>\<rparr>)
                 else goalDone h ''QA verified the goal'' w)
              else qa_failed h (case flow of Some x \<Rightarrow> wf_MaxQARounds x | None \<Rightarrow> 0) w))"

definition humanPhase :: "work \<Rightarrow> work" where
  "humanPhase w =
     (let s = board_status w (ar_GoalNodeID (w_rec w)) in
      if Settled s (boardStatuses (w_graph w))
      then setPhase GoalPhaseDone
             (on_rec (\<lambda>r. r\<lparr>ar_Status := AutopilotSucceeded, ar_Reason := ''a person finished the goal ('' @ s @ '')''\<rparr>) w)
      else w)"

definition phase_step :: "hub \<Rightarrow> work \<Rightarrow> work" where
  "phase_step h w =
     (case ar_GoalPhase (w_rec w) of
        GoalPhaseAcceptance \<Rightarrow> acceptancePhase h w
      | GoalPhasePlan \<Rightarrow> planPhase h w
      | GoalPhaseQA \<Rightarrow> qaPhase h w
      | GoalPhaseHuman \<Rightarrow> humanPhase w
      | GoalPhaseDone \<Rightarrow> w
      | _ \<Rightarrow> tasksDone h (if is_running w then schedule h w else w))"

text \<open>\<^verbatim>\<open>for i := 0; i < 4; i++\<close>: a pass moves through at most four phases.\<close>

fun goal_flow :: "nat \<Rightarrow> hub \<Rightarrow> work \<Rightarrow> work" where
  "goal_flow 0 h w = w"
| "goal_flow (Suc k) h w =
     (let w' = phase_step h w in
      if ar_GoalPhase (w_rec w') = ar_GoalPhase (w_rec w) \<or> \<not> is_running w' then w' else goal_flow k h w')"

definition goalFlow :: "hub \<Rightarrow> work \<Rightarrow> work" where
  "goalFlow h w = goal_flow 4 h w"

section \<open>The whole pass\<close>

definition ReasonCreatorLostAccess :: string where
  "ReasonCreatorLostAccess = ''paused: its creator can no longer change this project''"

text \<open>What is kept of an autopilot between two passes.\<close>

record autopilot =
  au_rec :: autopilot_record
  au_tasks :: "(string, task_instance) gomap"

definition load :: "hub \<Rightarrow> graph \<Rightarrow> run_state \<Rightarrow> string \<Rightarrow> autopilot \<Rightarrow> work" where
  "load h g rs now a =
     \<lparr>w_rec = au_rec a, w_tasks = au_tasks a, w_dag = buildDAG (hub_Folds h) (Some g) (ar_GoalNodeID (au_rec a)),
      w_graph = g, w_state = rs, w_dirty = False, w_now = now, w_added = [], w_calls = []\<rparr>"

definition finish_pass :: "hub \<Rightarrow> work \<Rightarrow> work" where
  "finish_pass h w =
     (if ar_Workflow (w_rec w) \<noteq> None then goalFlow h w
      else finishIfDone h (if is_running w then schedule h w else w))"

text \<open>
  \<^verbatim>\<open>reconcileLocked\<close> after \<^verbatim>\<open>load\<close>; \<open>may\<close> is whether the creator may still change the project, \<open>None\<close> when that
  cannot be told, and \<open>None\<close> as the result is a pass that does not end.
\<close>

definition reconcile :: "hub \<Rightarrow> bool option \<Rightarrow> work \<Rightarrow> work option" where
  "reconcile h may w =
     (if final_status (ar_Status (w_rec w)) then Some w
      else (case may of
          None \<Rightarrow> Some w
        | Some False \<Rightarrow>
            Some (if is_running w
                  then on_rec (\<lambda>r. r\<lparr>ar_Status := AutopilotPaused, ar_Reason := ReasonCreatorLostAccess\<rparr>) w else w)
        | Some True \<Rightarrow>
            obind (refresh h (syncMembers h w)) (\<lambda>w. map_option (finish_pass h) (propagateFailures w))))"

definition saved :: "work \<Rightarrow> autopilot" where
  "saved w = \<lparr>au_rec = w_rec w, au_tasks = w_tasks w\<rparr>"

end
