(* ===== verification/Orchestrator_Facts.thy ===== *)
theory Orchestrator_Facts
  imports Orchestrator_Act
begin

text \<open>
  Facts about one pass: which tasks a failure takes down, what a started run was allowed by, how many slots are taken
  and what a merge was asked for.
\<close>

section \<open>Tasks\<close>

lemma count_put:
  "map_of m k = Some t \<Longrightarrow>
     length (filter P (gomap_put k v m)) + (if P (k, t) then 1 else 0) = length (filter P m) + (if P (k, v) then 1 else 0)"
  by (induction k v m rule: gomap_put.induct) (auto split: if_splits)

lemma keys_put: "map_of m k \<noteq> None \<Longrightarrow> map fst (gomap_put k v m) = map fst m"
  by (induction k v m rule: gomap_put.induct) auto

lemma put_task_simps [simp]:
  "task_at (put_task i t w) j = (if j = i then Some t else task_at w j)"
  "w_rec (put_task i t w) = w_rec w" "w_dag (put_task i t w) = w_dag w" "w_graph (put_task i t w) = w_graph w"
  "w_state (put_task i t w) = w_state w" "w_calls (put_task i t w) = w_calls w" "w_added (put_task i t w) = w_added w"
  "w_now (put_task i t w) = w_now w" "w_tasks (put_task i t w) = gomap_put i t (w_tasks w)"
  by (simp_all add: put_task_def map_of_gomap_put)

lemma log_call_simps [simp]:
  "w_tasks (log_call c w) = w_tasks w" "w_rec (log_call c w) = w_rec w" "w_dag (log_call c w) = w_dag w"
  "w_graph (log_call c w) = w_graph w" "w_state (log_call c w) = w_state w" "w_calls (log_call c w) = w_calls w @ [c]"
  "w_added (log_call c w) = w_added w" "w_now (log_call c w) = w_now w"
  by (simp_all add: log_call_def)

lemma setState_simps [simp]:
  "ti_State (setState s stage r t) = s" "ti_Reason (setState s stage r t) = r" "ti_Hold (setState s stage r t) = ti_Hold t"
  "ti_RunID (setState s stage r t) = ti_RunID t" "ti_PipelineID (setState s stage r t) = ti_PipelineID t"
  "ti_NodeID (setState s stage r t) = ti_NodeID t" "ti_ContentHash (setState s stage r t) = ti_ContentHash t"
  "ti_Title (setState s stage r t) = ti_Title t" "ti_Upstream (setState s stage r t) = ti_Upstream t"
  "ti_HumanVerdict (setState s stage r t) = ti_HumanVerdict t" "ti_PRURL (setState s stage r t) = ti_PRURL t"
  by (simp_all add: setState_def)

lemma hold_task_simps [simp]:
  "ti_State (hold_task k s r t) = TaskWaitingHuman" "ti_Hold (hold_task k s r t) = k"
  "ti_RunID (hold_task k s r t) = ti_RunID t" "ti_PipelineID (hold_task k s r t) = ti_PipelineID t"
  "ti_NodeID (hold_task k s r t) = ti_NodeID t" "ti_ContentHash (hold_task k s r t) = ti_ContentHash t"
  "ti_Title (hold_task k s r t) = ti_Title t"
  by (simp_all add: hold_task_def Let_def)

lemma waits_simps [simp]:
  "ti_State (waits r t) = TaskScheduled" "ti_Hold (waits r t) = ti_Hold t" "ti_RunID (waits r t) = ti_RunID t"
  "ti_PipelineID (waits r t) = ti_PipelineID t" "ti_NodeID (waits r t) = ti_NodeID t"
  "ti_ContentHash (waits r t) = ti_ContentHash t" "ti_Title (waits r t) = ti_Title t" "ti_Reason (waits r t) = r"
  by (simp_all add: waits_def)

lemma waiting_not_final: "waiting t \<Longrightarrow> \<not> final1 (ti_State t)"
  by (auto simp: waiting_def final1_def)

section \<open>Failures\<close>

text \<open>The tasks a failure takes down: the failed ones, and every waiting member with such a task upstream.\<close>

inductive doomed :: "work \<Rightarrow> string \<Rightarrow> bool" for w where
  failed: "task_at w i = Some t \<Longrightarrow> ti_State t = TaskFailed \<or> ti_State t = TaskUpstreamFailed \<Longrightarrow> doomed w i"
| spreads: "task_at w i = Some t \<Longrightarrow> waiting t \<Longrightarrow> i \<in> set (dag_order (w_dag w)) \<Longrightarrow>
    up \<in> set (deps_at (dag_upstream (w_dag w)) i) \<Longrightarrow> doomed w up \<Longrightarrow> doomed w i"

inductive_simps doomed_iff: "doomed w i"

definition is_failed :: "task_instance \<Rightarrow> bool" where
  "is_failed t \<longleftrightarrow> ti_State t = TaskFailed \<or> ti_State t = TaskUpstreamFailed"

lemma failed_upstream_Some:
  "failed_upstream w i = Some up \<Longrightarrow>
     up \<in> set (deps_at (dag_upstream (w_dag w)) i) \<and> (\<exists>u. task_at w up = Some u \<and> is_failed u)"
  unfolding failed_upstream_def is_failed_def by (auto dest!: first_match_SomeD split: option.splits)

lemma failed_upstream_None:
  "failed_upstream w i = None \<Longrightarrow> up \<in> set (deps_at (dag_upstream (w_dag w)) i) \<Longrightarrow> task_at w up = Some u \<Longrightarrow> \<not> is_failed u"
  by (auto simp: failed_upstream_def is_failed_def split: option.splits)

text \<open>What a pass may have done to the tasks so far.\<close>

definition spread :: "work \<Rightarrow> work \<Rightarrow> bool" where
  "spread w0 w \<longleftrightarrow>
     w\<lparr>w_tasks := w_tasks w0\<rparr> = w0 \<and> map fst (w_tasks w) = map fst (w_tasks w0) \<and>
     (\<forall>i. task_at w i = task_at w0 i \<or>
        (\<exists>t r. task_at w0 i = Some t \<and> waiting t \<and> doomed w0 i \<and> task_at w i = Some (setState TaskUpstreamFailed NoStage r t)))"

lemma spread_refl: "spread w w"
  by (simp add: spread_def)

lemma spread_dag: "spread w0 w \<Longrightarrow> w_dag w = w_dag w0"
  unfolding spread_def by (metis work.surjective work.update_convs(2) work.select_convs(3))

lemma spread_failed:
  assumes "spread w0 w" "task_at w i = Some t" "is_failed t"
  shows "doomed w0 i"
proof -
  consider "task_at w0 i = Some t" | "doomed w0 i" using assms(1,2) unfolding spread_def by metis
  then show ?thesis using assms(3) by cases (auto simp: is_failed_def intro: doomed.failed)
qed

lemma spread_waiting:
  assumes "spread w0 w" "task_at w i = Some t" "waiting t"
  shows "task_at w0 i = Some t"
proof -
  have "\<not> waiting (setState TaskUpstreamFailed NoStage r t')" for r t' by (simp add: waiting_def)
  then show ?thesis using assms unfolding spread_def by (metis option.inject)
qed

lemma spread_put:
  assumes s: "spread w0 w" and i: "i \<in> set (dag_order (w_dag w0))" and t: "task_at w i = Some t" "waiting t"
    and up: "failed_upstream w i = Some up"
  shows "spread w0 (put_task i (setState TaskUpstreamFailed NoStage r t) w)"
proof -
  have t0: "task_at w0 i = Some t" using spread_waiting [OF s t] .
  have u: "up \<in> set (deps_at (dag_upstream (w_dag w0)) i)" "doomed w0 up"
    using failed_upstream_Some [OF up] spread_failed [OF s] spread_dag [OF s] by auto
  have "doomed w0 i" by (rule doomed.spreads [OF t0 t(2) i u])
  moreover have "map fst (gomap_put i (setState TaskUpstreamFailed NoStage r t) (w_tasks w)) = map fst (w_tasks w)"
    using t by (intro keys_put) simp
  ultimately show ?thesis using s t0 t(2) unfolding spread_def by (auto simp: put_task_def map_of_gomap_put)
qed

lemma fail_one_spread:
  assumes "spread w0 (fst wc)" "i \<in> set (dag_order (w_dag w0))"
  shows "spread w0 (fst (fail_one i wc))"
  using assms spread_put [OF assms] by (cases wc) (auto simp: fail_one_def split: option.split)

lemma fail_fold_spread:
  "spread w0 (fst wc) \<Longrightarrow> set is \<subseteq> set (dag_order (w_dag w0)) \<Longrightarrow> spread w0 (fst (fold fail_one is wc))"
proof (induction "is" arbitrary: wc)
  case (Cons i "is")
  have "spread w0 (fst (fail_one i wc))" using Cons.prems by (intro fail_one_spread) auto
  then show ?case using Cons.IH [of "fail_one i wc"] Cons.prems(2) by simp
qed simp

abbreviation count_waiting :: "work \<Rightarrow> nat" where
  "count_waiting w \<equiv> length (filter (\<lambda>x. waiting (snd x)) (w_tasks w))"

lemma fail_one_cases:
  obtains "fail_one i (w, c) = (w, c)" "\<And>t. task_at w i = Some t \<Longrightarrow> waiting t \<Longrightarrow> failed_upstream w i = None"
  | t up r where "task_at w i = Some t" "waiting t" "failed_upstream w i = Some up"
      "fail_one i (w, c) = (put_task i (setState TaskUpstreamFailed NoStage r t) w, True)"
proof (cases "task_at w i")
  case (Some t)
  show ?thesis
  proof (cases "waiting t")
    case True
    then show ?thesis using that Some by (cases "failed_upstream w i") (auto simp: fail_one_def)
  qed (use that(1) Some in \<open>auto simp: fail_one_def\<close>)
qed (use that(1) in \<open>auto simp: fail_one_def\<close>)

lemma fail_one_count:
  "count_waiting (fst (fail_one i (w, c))) + (if snd (fail_one i (w, c)) \<and> \<not> c then 1 else 0) \<le> count_waiting w"
proof (cases rule: fail_one_cases [of i w c])
  case (2 t up r)
  then show ?thesis
    using count_put [OF 2(1), of "\<lambda>x. waiting (snd x)" "setState TaskUpstreamFailed NoStage r t"] by (simp add: waiting_def)
qed simp

lemma fail_fold_count:
  "count_waiting (fst (fold fail_one is (w, c))) + (if snd (fold fail_one is (w, c)) \<and> \<not> c then 1 else 0) \<le> count_waiting w"
proof (induction "is" arbitrary: w c)
  case (Cons i "is")
  obtain w' c' where f: "fail_one i (w, c) = (w', c')" by force
  have "c \<longrightarrow> c'"
  proof (cases rule: fail_one_cases [of i w c])
    case 1
    then show ?thesis using f by simp
  next
    case 2
    then show ?thesis using f by simp
  qed
  moreover have "count_waiting w' + (if c' \<and> \<not> c then 1 else 0) \<le> count_waiting w" using fail_one_count [of i w c] f by simp
  moreover obtain w2 c2 where r: "fold fail_one is (w', c') = (w2, c2)" by force
  moreover have "count_waiting w2 + (if c2 \<and> \<not> c' then 1 else 0) \<le> count_waiting w'" using Cons.IH [of w' c'] r by simp
  ultimately have "count_waiting w2 + (if c2 \<and> \<not> c then 1 else 0) \<le> count_waiting w" by (cases c; cases c'; cases c2) simp_all
  then show ?case by (simp add: f r)
qed simp

text \<open>A pass that changed nothing found no waiting task behind a failed one.\<close>

definition no_failure_left :: "work \<Rightarrow> string list \<Rightarrow> bool" where
  "no_failure_left w is \<longleftrightarrow> (\<forall>i\<in>set is. \<forall>t. task_at w i = Some t \<longrightarrow> waiting t \<longrightarrow> failed_upstream w i = None)"

lemma fail_fold_stays:
  "\<not> snd (fold fail_one is (w, c)) \<Longrightarrow> \<not> c \<and> fst (fold fail_one is (w, c)) = w \<and> no_failure_left w is"
proof (induction "is" arbitrary: w c)
  case Nil
  then show ?case by (simp add: no_failure_left_def)
next
  case (Cons i "is")
  show ?case
  proof (cases rule: fail_one_cases [of i w c])
    case 1
    have ih: "\<not> c" "fst (fold fail_one is (w, c)) = w" "no_failure_left w is" using Cons.IH [of w c] Cons.prems 1(1) by auto
    have "no_failure_left w (i # is)" using ih(3) 1(2) unfolding no_failure_left_def by auto
    then show ?thesis using ih(1,2) 1(1) by (simp only: fold_simps simp_thms)
  next
    case (2 t up r)
    have "\<not> snd (fold fail_one is (put_task i (setState TaskUpstreamFailed NoStage r t) w, True))"
      using Cons.prems 2(4) by simp
    then show ?thesis using Cons.IH by blast
  qed
qed

lemma fail_loop_result:
  assumes "spread w0 w" "count_waiting w < k"
  shows "\<exists>w'. fail_loop k w = Some w' \<and> spread w0 w' \<and> no_failure_left w' (dag_order (w_dag w0))"
  using assms
proof (induction k arbitrary: w)
  case (Suc k)
  obtain w1 c where p: "fail_pass w = (w1, c)" by force
  have d: "w_dag w = w_dag w0" using Suc.prems(1) by (rule spread_dag)
  have s1: "spread w0 w1" using fail_fold_spread [of w0 "(w, False)" "dag_order (w_dag w)"] Suc.prems(1) p d by (simp add: fail_pass_def)
  show ?case
  proof (cases c)
    case True
    then have "count_waiting w1 + 1 \<le> count_waiting w"
      using fail_fold_count [of "dag_order (w_dag w)" w False] p by (simp add: fail_pass_def)
    then have "count_waiting w1 < k" using Suc.prems(2) by linarith
    from Suc.IH [OF s1 this] show ?thesis using p True by simp
  next
    case False
    then show ?thesis using fail_fold_stays [of "dag_order (w_dag w)" w False] p s1 d by (simp add: fail_pass_def)
  qed
qed simp

lemma spread_complete:
  assumes s: "spread w0 w" and none: "no_failure_left w (dag_order (w_dag w0))" and "doomed w0 i"
  shows "\<exists>t. task_at w i = Some t \<and> is_failed t"
  using assms(3)
proof induction
  case (failed i t)
  then have "\<not> waiting t" by (auto simp: waiting_def)
  then have "task_at w i = Some t" using s failed(1) unfolding spread_def by (metis option.inject)
  then show ?case using failed(2) by (simp add: is_failed_def)
next
  case (spreads i t up)
  then obtain u where u: "task_at w up = Some u" "is_failed u" by blast
  have "failed_upstream w i \<noteq> None"
    using failed_upstream_None [OF _ _ u(1)] u(2) spreads.hyps(4) spread_dag [OF s] by metis
  then have "task_at w i \<noteq> Some t" using none spreads.hyps(2,3) by (auto simp: no_failure_left_def)
  then obtain r where "task_at w i = Some (setState TaskUpstreamFailed NoStage r t)"
    using s spreads.hyps(1) unfolding spread_def by (metis option.inject)
  then show ?case by (simp add: is_failed_def)
qed

text \<open>The task as the spread of failures leaves it.\<close>

definition struck_by :: "work \<Rightarrow> string \<Rightarrow> task_instance \<Rightarrow> bool" where
  "struck_by w i t \<longleftrightarrow> waiting t \<and> doomed w i"

lemma propagate_result:
  obtains w' where "propagateFailures w = Some w'" "spread w w'" "no_failure_left w' (dag_order (w_dag w))"
proof -
  have "count_waiting w < length (w_tasks w) + 1" using length_filter_le [of "\<lambda>x. waiting (snd x)" "w_tasks w"] by linarith
  then show ?thesis using fail_loop_result [OF spread_refl] that unfolding propagateFailures_def by blast
qed

lemma propagate_states:
  assumes "propagateFailures w = Some w'" "task_at w i = Some t"
  obtains t' where "task_at w' i = Some t'" "ti_State t' = (if struck_by w i t then TaskUpstreamFailed else ti_State t)"
    "\<not> struck_by w i t \<Longrightarrow> t' = t"
proof -
  have s: "spread w w'" and none: "no_failure_left w' (dag_order (w_dag w))"
    using propagate_result [of w] assms(1) by (metis option.inject)+
  consider "task_at w' i = Some t" | r where "waiting t" "doomed w i" "task_at w' i = Some (setState TaskUpstreamFailed NoStage r t)"
    using s assms(2) unfolding spread_def by (metis option.inject)
  then show ?thesis
  proof cases
    case 1
    have "\<not> struck_by w i t"
      using spread_complete [OF s none, of i] 1 by (auto simp: struck_by_def waiting_def is_failed_def)
    then show ?thesis using that [OF 1] by simp
  next
    case 2
    then show ?thesis using that [OF 2(3)] by (simp add: struck_by_def)
  qed
qed

section \<open>What steps do to single tasks\<close>

text \<open>Two passes are related when they have the same tasks and each is related to what it was.\<close>

definition each_task :: "(task_instance \<Rightarrow> task_instance \<Rightarrow> bool) \<Rightarrow> work \<Rightarrow> work \<Rightarrow> bool" where
  "each_task K w w' \<longleftrightarrow>
     map fst (w_tasks w') = map fst (w_tasks w) \<and>
     (\<forall>i t. task_at w i = Some t \<longrightarrow> (\<exists>t'. task_at w' i = Some t' \<and> K t t'))"

lemma each_task_at: "each_task K w w' \<Longrightarrow> task_at w i = Some t \<Longrightarrow> \<exists>t'. task_at w' i = Some t' \<and> K t t'"
  by (simp add: each_task_def)

lemma each_task_None:
  assumes "each_task K w w'"
  shows "task_at w' i = None \<longleftrightarrow> task_at w i = None"
proof -
  have "fst ` set (w_tasks w') = fst ` set (w_tasks w)" using assms unfolding each_task_def by (metis list.set_map)
  then show ?thesis by (simp add: map_of_eq_None_iff)
qed

locale task_relation =
  fixes K :: "task_instance \<Rightarrow> task_instance \<Rightarrow> bool"
  assumes refl: "K t t"
    and trans: "K t t' \<Longrightarrow> K t' t'' \<Longrightarrow> K t t''"
begin

lemma same_tasks: "w_tasks w' = w_tasks w \<Longrightarrow> each_task K w w'"
  by (simp add: each_task_def refl)

lemma chain: "each_task K w w' \<Longrightarrow> each_task K w' w'' \<Longrightarrow> each_task K w w''"
  unfolding each_task_def by (metis trans)

lemma put: "task_at w i = Some t \<Longrightarrow> K t t' \<Longrightarrow> each_task K w (put_task i t' w)"
  by (auto simp: each_task_def keys_put refl map_of_gomap_put)

lemma mapped:
  assumes "\<And>i t. fst (f (i, t)) = i" "\<And>i t. task_at w i = Some t \<Longrightarrow> K t (snd (f (i, t)))"
  shows "each_task K w (w\<lparr>w_tasks := map f (w_tasks w)\<rparr>)"
proof -
  have keys: "map fst (map f m) = map fst m" for m
    using assms(1) by (induction m) auto
  have "map_of (map f m) i = map_option (\<lambda>t. snd (f (i, t))) (map_of m i)" for m i
    using assms(1) by (induction m) (auto simp: prod_eq_iff split: prod.splits)
  then show ?thesis using assms(2) keys by (auto simp: each_task_def)
qed

lemma folded:
  assumes "\<And>x s. each_task K w (g s) \<Longrightarrow> P s \<Longrightarrow> each_task K (g s) (g (f x s)) \<and> P (f x s)"
    "each_task K w (g s)" "P s"
  shows "each_task K w (g (fold f xs s)) \<and> P (fold f xs s)"
  using assms(2,3) by (induction xs arbitrary: s) (auto dest: assms(1) intro: chain)

end

text \<open>A task that waits has no run, pipeline or hold; every operation keeps it so.\<close>

definition task_ok :: "task_instance \<Rightarrow> bool" where
  "task_ok t \<longleftrightarrow> (waiting t \<longrightarrow> never_started t \<and> ti_Hold t = NoHold)"

definition is_settled :: "task_instance \<Rightarrow> bool" where
  "is_settled t \<longleftrightarrow> ti_State t = TaskSuccess \<or> ti_State t = TaskSkipped"

text \<open>What a whole pass keeps of a task: an ended task has ended, and the content it may be worked with is fixed.\<close>

definition kept :: "task_instance \<Rightarrow> task_instance \<Rightarrow> bool" where
  "kept t t' \<longleftrightarrow>
     (task_ok t \<longrightarrow> task_ok t') \<and>
     (final1 (ti_State t) \<longrightarrow> ti_State t' = ti_State t) \<and>
     (ti_ContentHash t \<noteq> [] \<longrightarrow> ti_ContentHash t' = ti_ContentHash t)"

text \<open>What scheduling keeps besides.\<close>

definition scheduled :: "task_instance \<Rightarrow> task_instance \<Rightarrow> bool" where
  "scheduled t t' \<longleftrightarrow>
     kept t t' \<and> (is_settled t' \<longleftrightarrow> is_settled t) \<and> (waiting t' \<longrightarrow> waiting t) \<and> ti_Title t' = ti_Title t"

interpretation pass: task_relation kept
  by unfold_locales (auto simp: kept_def)

interpretation sched: task_relation scheduled
  by unfold_locales (auto simp: scheduled_def kept_def)

lemma settled_iff: "settled w i \<longleftrightarrow> (\<exists>t. task_at w i = Some t \<and> is_settled t)"
  by (auto simp: settled_def is_settled_def split: option.split)

lemma scheduled_settled: "each_task scheduled w w' \<Longrightarrow> settled w' i = settled w i"
  using each_task_at [of scheduled w w' i] each_task_None [of scheduled w w' i]
  by (cases "task_at w i") (auto simp: settled_iff scheduled_def)

lemma scheduled_kept: "each_task scheduled w w' \<Longrightarrow> each_task kept w w'"
  unfolding each_task_def scheduled_def by meson

section \<open>Started runs\<close>

text \<open>What the run of a task was allowed by.\<close>

definition same_content :: "hub \<Rightarrow> task_instance \<Rightarrow> start_request \<Rightarrow> bool" where
  "same_content h t req \<longleftrightarrow>
     ti_ContentHash t = [] \<or> ti_ContentHash t = hub_Hash h (ti_Title t) (sq_Content req)"

definition fits_runner :: "hub \<Rightarrow> work \<Rightarrow> start_request \<Rightarrow> bool" where
  "fits_runner h w req \<longleftrightarrow>
     (\<exists>owned r. hub_Owned h (sq_NodeID req) = Inr owned \<and> r \<in> set owned \<and> eligible (ar_Policy (w_rec w)) r \<and>
        runner_ID r = sq_RunnerID req \<and> can_run (mergeAgents [r]) (sq_Agent req))"

lemma usable_one: "usable [am] agents \<noteq> [] \<longleftrightarrow> can_run agents am"
  by (simp add: usable_def)

lemma set_SliceStable: "set (SliceStable lt xs) = set xs"
proof -
  have "set (stable_insert lt x ys) = insert x (set ys)" for x ys
    by (induction lt x ys rule: stable_insert.induct) auto
  then show ?thesis unfolding SliceStable_def by (induction xs) auto
qed

lemma start_answer_scheduled:
  "waiting t \<Longrightarrow> task_ok t \<Longrightarrow> scheduled t (fst (start_answer h now req c t))"
  by (auto simp: start_answer_def scheduled_def kept_def task_ok_def waiting_def final1_def is_settled_def never_started_def
    split: sum.split start_failure.split)

lemma start_answer_content [simp]:
  "ti_ContentHash (fst (start_answer h now req c t)) = ti_ContentHash t" "ti_Title (fst (start_answer h now req c t)) = ti_Title t"
  by (auto simp: start_answer_def split: sum.split start_failure.split)

lemma start_answer_slot:
  "waiting t \<Longrightarrow> holds_slot (fst (start_answer h now req c t)) \<Longrightarrow> snd (start_answer h now req c t)"
  by (auto simp: start_answer_def holds_slot_def waiting_def split: sum.splits start_failure.splits if_splits)

lemma waits_scheduled: "waiting t \<Longrightarrow> scheduled t (waits r t)"
  by (auto simp: scheduled_def kept_def task_ok_def waiting_def final1_def is_settled_def never_started_def)

lemma waits_slot: "\<not> holds_slot (waits r t)"
  by (auto simp: holds_slot_def)

lemma checkContent_cases:
  obtains "checkContent h body t = (t\<lparr>ti_ContentHash := hub_Hash h (ti_Title t) body\<rparr>, True)" "ti_ContentHash t = []"
  | "checkContent h body t = (t, True)" "ti_ContentHash t = hub_Hash h (ti_Title t) body"
  | r where "checkContent h body t = (hold_task HoldChanged NoStage r t, False)"
  unfolding checkContent_def Let_def by metis

lemma held_scheduled: "waiting t \<Longrightarrow> scheduled t (hold_task k s r t)"
  by (auto simp: scheduled_def kept_def task_ok_def waiting_def final1_def is_settled_def)

lemma held_slot: "waiting t \<Longrightarrow> task_ok t \<Longrightarrow> k \<noteq> NoHold \<Longrightarrow> \<not> holds_slot (hold_task k s r t)"
  by (auto simp: holds_slot_def never_started_def task_ok_def)

lemma failed_scheduled: "waiting t \<Longrightarrow> scheduled t (setState TaskFailed s r t)"
  by (auto simp: scheduled_def kept_def task_ok_def waiting_def final1_def is_settled_def)

lemma failed_slot: "\<not> holds_slot (setState TaskFailed s r t)"
  by (auto simp: holds_slot_def)

text \<open>What a dispatch may do to its task and ask of the hub.\<close>

definition dispatched :: "hub \<Rightarrow> work \<Rightarrow> string \<Rightarrow> task_instance \<Rightarrow> work \<times> bool \<Rightarrow> bool" where
  "dispatched h w i t res \<longleftrightarrow>
     (\<exists>t' cs. fst res = put_task i t' (w\<lparr>w_calls := w_calls w @ cs\<rparr>) \<and> scheduled t t' \<and> (holds_slot t' \<longrightarrow> snd res) \<and>
        (\<forall>c\<in>set cs. \<exists>req. c = StartRun req \<and> sq_NodeID req = i \<and> same_content h t req \<and> fits_runner h w req \<and>
           ti_ContentHash t' = hub_Hash h (ti_Title t') (sq_Content req)))"

lemma dispatched_quiet:
  "scheduled t t' \<Longrightarrow> \<not> holds_slot t' \<Longrightarrow> dispatched h w i t (put_task i t' w, False)"
  unfolding dispatched_def by (intro exI [of _ t'] exI [of _ "[]"]) simp

lemma dispatched_waits: "waiting t \<Longrightarrow> scheduled t0 t \<Longrightarrow> dispatched h w i t0 (put_task i (waits r t) w, False)"
  by (intro dispatched_quiet waits_slot) (rule sched.trans [OF _ waits_scheduled])

lemma start_on_result:
  assumes t: "waiting t" "task_ok t" "scheduled t0 t" and hash: "ti_ContentHash t = hub_Hash h (ti_Title t) body"
    and same: "ti_ContentHash t0 = [] \<or> ti_ContentHash t0 = hub_Hash h (ti_Title t0) body"
    and own: "hub_Owned h i = Inr owned" "rs = filter (eligible (ar_Policy (w_rec w))) owned"
  shows "dispatched h w i t0 (start_on h w i rs body t c)"
proof (cases "pick_runner h (hd (ch_Implement c)) rs")
  case None
  then show ?thesis using dispatched_waits [OF t(1,3)] by (simp add: start_on_def)
next
  case (Some r)
  define req where "req = request_for h w i t c body r"
  obtain t2 b where a: "start_answer h (w_now w) req c t = (t2, b)" by force
  have r: "r \<in> set rs" "can_run (mergeAgents [r]) (hd (ch_Implement c))"
    using first_match_SomeD [OF Some [unfolded pick_runner_def]] by (auto simp: set_SliceStable usable_one)
  have "start_on h w i rs body t c = (put_task i t2 (log_call (StartRun req) w), b)"
    using Some a by (simp add: start_on_def req_def)
  moreover have "scheduled t0 t2" "holds_slot t2 \<longrightarrow> b"
    using sched.trans [OF t(3) start_answer_scheduled [OF t(1,2), of h "w_now w" req c]] start_answer_slot [OF t(1), of h "w_now w" req c] a by auto
  moreover have "ti_ContentHash t2 = hub_Hash h (ti_Title t2) (sq_Content req)"
    using hash start_answer_content [of h "w_now w" req c t] unfolding a fst_conv
    by (simp add: req_def request_for_def Let_def)
  moreover have "same_content h t0 req" "fits_runner h w req" "sq_NodeID req = i"
    using same own r by (auto simp: same_content_def fits_runner_def req_def request_for_def Let_def)
  ultimately show ?thesis unfolding dispatched_def log_call_def
    by (intro exI [of _ t2] exI [of _ "[StartRun req]"]) simp
qed

lemma checked_task:
  assumes t: "waiting t" "task_ok t" and ck: "checkContent h body t = (t1, True)"
  shows "waiting t1" "task_ok t1" "scheduled t t1" "ti_ContentHash t1 = hub_Hash h (ti_Title t1) body"
    "ti_ContentHash t = [] \<or> ti_ContentHash t = hub_Hash h (ti_Title t) body"
proof -
  have "waiting (t\<lparr>ti_ContentHash := x\<rparr>)" "task_ok (t\<lparr>ti_ContentHash := x\<rparr>)"
    "ti_ContentHash t = [] \<Longrightarrow> scheduled t (t\<lparr>ti_ContentHash := x\<rparr>)" for x
    using t by (simp_all add: waiting_def task_ok_def never_started_def scheduled_def kept_def is_settled_def)
  then have "waiting t1 \<and> task_ok t1 \<and> scheduled t t1 \<and> ti_ContentHash t1 = hub_Hash h (ti_Title t1) body \<and>
      (ti_ContentHash t = [] \<or> ti_ContentHash t = hub_Hash h (ti_Title t) body)"
    using ck t sched.refl by (cases rule: checkContent_cases [of h body t]) auto
  then show "waiting t1" "task_ok t1" "scheduled t t1" "ti_ContentHash t1 = hub_Hash h (ti_Title t1) body"
    "ti_ContentHash t = [] \<or> ti_ContentHash t = hub_Hash h (ti_Title t) body"
    by blast+
qed

lemma dispatch_content_result:
  assumes t: "waiting t" "task_ok t"
    and own: "hub_Owned h i = Inr owned" "rs = filter (eligible (ar_Policy (w_rec w))) owned"
  shows "dispatched h w i t (dispatch_content h w i rs body t)"
proof (cases rule: checkContent_cases [of h body t])
  case (3 r)
  then show ?thesis using dispatched_quiet [OF held_scheduled held_slot] t by (simp add: dispatch_content_def)
next
  case 1
  note ck = checked_task [OF t 1(1)]
  show ?thesis
  proof (cases "choose_for h w i body (mergeAgents rs)")
    case (Inl err)
    then show ?thesis using 1(1) dispatched_quiet [OF sched.trans [OF ck(3) failed_scheduled [OF ck(1)]] failed_slot]
      by (simp add: dispatch_content_def)
  next
    case (Inr c)
    then show ?thesis using 1(1) start_on_result [OF ck(1-5) own] by (simp add: dispatch_content_def)
  qed
next
  case 2
  note ck = checked_task [OF t 2(1)]
  show ?thesis
  proof (cases "choose_for h w i body (mergeAgents rs)")
    case (Inl err)
    then show ?thesis using 2(1) dispatched_quiet [OF failed_scheduled [OF t(1)] failed_slot] by (simp add: dispatch_content_def)
  next
    case (Inr c)
    then show ?thesis using 2(1) start_on_result [OF ck(1-5) own] by (simp add: dispatch_content_def)
  qed
qed

lemma dispatch_result:
  assumes t: "task_at w i = Some t" "waiting t" "task_ok t"
  shows "dispatched h w i t (dispatch h i w)"
proof -
  have w: "dispatched h w i t (put_task i (waits r t) w, False)" for r using dispatched_waits [OF t(2) sched.refl] .
  have "dispatched h w i t (dispatch_content h w i (filter (eligible (ar_Policy (w_rec w))) owned) body t)"
    if "hub_Owned h i = Inr owned" for owned body
    using dispatch_content_result [OF t(2,3) that refl] .
  then show ?thesis using w t(1) by (simp add: dispatch_def Let_def split: sum.split)
qed

section \<open>Scheduling\<close>

lemma not_ready_scheduled:
  assumes "waiting t" "task_ok t" "not_ready w i t = Some t'"
  defines "t2 \<equiv> (if ti_State t' \<noteq> TaskNone then setState TaskNone NoStage (ti_Reason t') t' else t')"
  shows "scheduled t t2" "\<not> holds_slot t2"
proof -
  obtain r where "t' = t\<lparr>ti_Reason := r\<rparr>"
    using assms(3) by (auto simp: not_ready_def split: option.splits if_splits intro: that [of "ti_Reason t"])
  then show "scheduled t t2" "\<not> holds_slot t2"
    using assms(1,2) unfolding t2_def
    by (auto simp: scheduled_def kept_def task_ok_def waiting_def never_started_def final1_def is_settled_def holds_slot_def)
qed

text \<open>What a started run was allowed by, in the state its pass was scheduled from.\<close>

definition may_start :: "hub \<Rightarrow> work \<Rightarrow> start_request \<Rightarrow> bool" where
  "may_start h w req \<longleftrightarrow>
     (\<exists>t. task_at w (sq_NodeID req) = Some t \<and> waiting t \<and> first_wait w (sq_NodeID req) = None \<and>
        outside_blockers w (sq_NodeID req) = [] \<and> same_content h t req \<and> fits_runner h w req)"

text \<open>A started run has the content its task is pinned to.\<close>

definition pinned :: "(string \<Rightarrow> string \<Rightarrow> string) \<Rightarrow> work \<Rightarrow> start_request \<Rightarrow> bool" where
  "pinned hash w req \<longleftrightarrow>
     (\<exists>t title. task_at w (sq_NodeID req) = Some t \<and> ti_ContentHash t = hash title (sq_Content req))"

lemma pinned_kept:
  assumes "\<And>t b. hash t b \<noteq> []" "pinned hash w req"
    "\<And>i t. task_at w i = Some t \<Longrightarrow> \<exists>t'. task_at w' i = Some t' \<and> kept t t'"
  shows "pinned hash w' req"
  using assms unfolding pinned_def kept_def by metis

definition scheduling :: "hub \<Rightarrow> work \<Rightarrow> int \<Rightarrow> work \<times> int \<Rightarrow> bool" where
  "scheduling h w0 room0 wr \<longleftrightarrow>
     (case wr of (w, room) \<Rightarrow>
        each_task scheduled w0 w \<and> w\<lparr>w_tasks := w_tasks w0, w_calls := w_calls w0\<rparr> = w0 \<and>
        room \<le> room0 \<and> min room0 0 \<le> room \<and> active w \<le> active w0 + (room0 - room) \<and>
        (\<exists>cs. w_calls w = w_calls w0 @ cs \<and> (\<forall>c\<in>set cs. \<exists>req. c = StartRun req \<and> may_start h w0 req \<and> pinned (hub_Hash h) w req)))"

lemma active_put:
  "task_at w i = Some t \<Longrightarrow> active (put_task i t' w) + (if holds_slot t then 1 else 0) = active w + (if holds_slot t' then 1 else 0)"
  using count_put [of "w_tasks w" i t "holds_slot \<circ> snd" t'] by (auto simp: active_def split: if_splits)

lemma same_pass:
  assumes "w\<lparr>w_tasks := w_tasks w0, w_calls := w_calls w0\<rparr> = w0"
  shows "w_rec w = w_rec w0" "w_dag w = w_dag w0" "w_graph w = w_graph w0" "w_state w = w_state w0" "w_now w = w_now w0"
    "w_added w = w_added w0"
  by (subst assms [symmetric], simp)+

lemma same_waits:
  assumes "each_task scheduled w0 w" "w\<lparr>w_tasks := w_tasks w0, w_calls := w_calls w0\<rparr> = w0"
  shows "first_wait w i = first_wait w0 i" "outside_blockers w i = outside_blockers w0 i" "not_ready w i t = not_ready w0 i t"
proof -
  have f: "first_wait w j = first_wait w0 j" for j
    unfolding first_wait_def board_status_def scheduled_settled [OF assms(1)] each_task_None [OF assms(1)] same_pass [OF assms(2)] ..
  have o: "outside_blockers w j = outside_blockers w0 j" for j
    unfolding outside_blockers_def same_pass [OF assms(2)] ..
  show "first_wait w i = first_wait w0 i" "outside_blockers w i = outside_blockers w0 i" using f o by blast+
  show "not_ready w i t = not_ready w0 i t"
    unfolding not_ready_def f o each_task_None [OF assms(1)] same_pass [OF assms(2)] ..
qed

lemma scheduled_same_content: "scheduled t0 t \<Longrightarrow> same_content h t req \<Longrightarrow> same_content h t0 req"
  unfolding same_content_def scheduled_def kept_def by metis

text \<open>Scheduling after one more task, with the calls \<open>cs\<close> for it.\<close>

lemma scheduling_put:
  assumes s: "scheduling h w0 room0 (w, room)" and t: "task_at w i = Some t" "waiting t" and k: "scheduled t t'"
    and slot: "holds_slot t' \<longrightarrow> room' < room" and room: "room' \<le> room" "min room0 0 \<le> room'"
    and cs: "\<forall>c\<in>set cs. \<exists>req. c = StartRun req \<and> may_start h w0 req \<and> sq_NodeID req = i \<and>
      ti_ContentHash t' = hub_Hash h (ti_Title t') (sq_Content req)"
    and hash: "\<And>t b. hub_Hash h t b \<noteq> []"
  shows "scheduling h w0 room0 (put_task i t' (w\<lparr>w_calls := w_calls w @ cs\<rparr>), room')"
proof -
  let ?w = "put_task i t' (w\<lparr>w_calls := w_calls w @ cs\<rparr>)"
  have "\<not> holds_slot t" using t(2) by (auto simp: waiting_def holds_slot_def)
  then have "active ?w = active w + (if holds_slot t' then 1 else 0)"
    using active_put [of "w\<lparr>w_calls := w_calls w @ cs\<rparr>" i t t'] t(1) by (simp add: active_def)
  moreover have "active w \<le> active w0 + (room0 - room)" "room \<le> room0" using s by (auto simp: scheduling_def)
  ultimately have "active ?w \<le> active w0 + (room0 - room')" using slot room by (auto split: if_splits)
  moreover have "each_task scheduled w0 ?w"
    using sched.chain [OF _ sched.put [OF t(1) k]] s unfolding scheduling_def
    by (auto simp: each_task_def)
  moreover have "?w\<lparr>w_tasks := w_tasks w0, w_calls := w_calls w0\<rparr> = w0" using s by (simp add: scheduling_def put_task_def)
  moreover have "\<exists>cs. w_calls ?w = w_calls w0 @ cs \<and>
      (\<forall>c\<in>set cs. \<exists>req. c = StartRun req \<and> may_start h w0 req \<and> pinned (hub_Hash h) ?w req)"
  proof -
    obtain old where old: "w_calls w = w_calls w0 @ old"
      "\<forall>c\<in>set old. \<exists>req. c = StartRun req \<and> may_start h w0 req \<and> pinned (hub_Hash h) w req"
      using s by (auto simp: scheduling_def)
    have later: "pinned (hub_Hash h) ?w req" if "pinned (hub_Hash h) w req" for req
    proof (rule pinned_kept [OF hash that])
      fix j u assume "task_at w j = Some u"
      then show "\<exists>u'. task_at ?w j = Some u' \<and> kept u u'"
        using t(1) k pass.refl by (cases "j = i") (simp_all add: scheduled_def map_of_gomap_put)
    qed
    have fresh: "pinned (hub_Hash h) ?w req" if "sq_NodeID req = i" "ti_ContentHash t' = hub_Hash h (ti_Title t') (sq_Content req)" for req
      using that by (auto simp: pinned_def map_of_gomap_put)
    show ?thesis
    proof (intro exI [of _ "old @ cs"] conjI ballI)
      show "w_calls ?w = w_calls w0 @ old @ cs" using old(1) by simp
      fix c assume "c \<in> set (old @ cs)"
      then show "\<exists>req. c = StartRun req \<and> may_start h w0 req \<and> pinned (hub_Hash h) ?w req"
        using old(2) cs later fresh by fastforce
    qed
  qed
  ultimately show ?thesis using s room unfolding scheduling_def by auto
qed

lemma schedule_one_scheduling:
  assumes s: "scheduling h w0 room0 wr" and ok: "\<forall>i t. task_at w0 i = Some t \<longrightarrow> task_ok t"
    and hash: "\<And>t b. hub_Hash h t b \<noteq> []"
  shows "scheduling h w0 room0 (schedule_one h i wr)"
proof -
  obtain w room where wr: "wr = (w, room)" by force
  have e: "each_task scheduled w0 w" and p: "w\<lparr>w_tasks := w_tasks w0, w_calls := w_calls w0\<rparr> = w0" and m: "min room0 0 \<le> room"
    using s wr by (auto simp: scheduling_def)
  show ?thesis
  proof (cases "task_at w i")
    case (Some t)
    note at = this
    then obtain t0 where t0: "task_at w0 i = Some t0" using each_task_None [OF e, of i] by (cases "task_at w0 i") auto
    then have k: "scheduled t0 t" and tok: "task_ok t" using each_task_at [OF e t0] at ok by (auto simp: scheduled_def kept_def)
    have put: "scheduling h w0 room0 (put_task i t' w, room)" if "scheduled t t'" "\<not> holds_slot t'" "waiting t" for t'
      using scheduling_put [OF s [unfolded wr] at that(3,1), of room "[]"] that(2) m hash by simp
    show ?thesis
    proof (cases "waiting t")
      case True
      note w = this
      show ?thesis
      proof (cases "not_ready w i t")
        case (Some t')
        then show ?thesis using put not_ready_scheduled [OF True tok Some] at wr True by (simp add: schedule_one_def)
      next
        case None
        note ready = this
        show ?thesis
        proof (cases "room \<le> 0")
          case True
          then show ?thesis using put [OF waits_scheduled waits_slot] w at wr ready by (simp add: schedule_one_def)
        next
          case False
          obtain w' b where d: "dispatch h i w = (w', b)" by force
          obtain t' cs where r: "w' = put_task i t' (w\<lparr>w_calls := w_calls w @ cs\<rparr>)" "scheduled t t'" "holds_slot t' \<longrightarrow> b"
            "\<forall>c\<in>set cs. \<exists>req. c = StartRun req \<and> sq_NodeID req = i \<and> same_content h t req \<and> fits_runner h w req \<and>
               ti_ContentHash t' = hub_Hash h (ti_Title t') (sq_Content req)"
            using dispatch_result [OF at w tok, of h] unfolding d dispatched_def by auto
          have "may_start h w0 req" if "sq_NodeID req = i" "same_content h t req" "fits_runner h w req" for req
            using that ready t0 scheduled_same_content [OF k] k w same_waits [OF e p] same_pass [OF p]
            unfolding may_start_def fits_runner_def not_ready_def scheduled_def by (auto split: option.splits if_splits)
          then have "scheduling h w0 room0 (w', if b then room - 1 else room)"
            unfolding r(1) using r(2-4) False m hash by (intro scheduling_put [OF s [unfolded wr] at w]) auto
          then show ?thesis using at wr ready d False w by (simp add: schedule_one_def)
        qed
      qed
    qed (use at wr s in \<open>simp add: schedule_one_def\<close>)
  qed (use wr s in \<open>simp add: schedule_one_def\<close>)
qed

lemma schedule_result:
  assumes "\<forall>i t. task_at w i = Some t \<longrightarrow> task_ok t" "\<And>t b. hub_Hash h t b \<noteq> []"
  shows "\<exists>room. scheduling h w (ap_MaxParallel (ar_Policy (w_rec w)) - active w) (schedule h w, room)"
proof -
  let ?r = "ap_MaxParallel (ar_Policy (w_rec w)) - active w"
  have "scheduling h w ?r (w, ?r)" by (simp add: scheduling_def sched.same_tasks)
  then have "scheduling h w ?r (fold (schedule_one h) is (w, ?r))" for "is"
    using schedule_one_scheduling [OF _ assms] by (induction "is" rule: rev_induct) auto
  then show ?thesis unfolding schedule_def by (metis prod.collapse)
qed

end
