(* ===== verification/Autopilot_Pass.thy ===== *)
theory Autopilot_Pass
  imports Goal_Flow Orchestrator_Facts
begin

text \<open>
  Facts about a pass as a whole: what it keeps of every task, what a merge was asked for, and that the content a run is
  started with is the content its task is pinned to.
\<close>

section \<open>What one task's runs lead to\<close>

lemma observe_cong:
  "ti_PipelineID t' = ti_PipelineID t \<Longrightarrow> ti_RunID t' = ti_RunID t \<Longrightarrow> ti_NodeID t' = ti_NodeID t \<Longrightarrow> observe h t' = observe h t"
  unfolding observe_def by (simp only:)

lemma holdFor_cong:
  "ti_PipelineID t' = ti_PipelineID t \<Longrightarrow> ti_RunID t' = ti_RunID t \<Longrightarrow> ti_NodeID t' = ti_NodeID t \<Longrightarrow> holdFor h t' = holdFor h t"
  by (simp only: holdFor_def observe_cong [of t' t h])

text \<open>
  What acting on a task may change and ask for: \<open>P\<close> is what a requested merge satisfies.
\<close>

definition acted_by :: "(string \<Rightarrow> string \<Rightarrow> bool) \<Rightarrow> acted \<Rightarrow> acted \<Rightarrow> bool" where
  "acted_by P a a' \<longleftrightarrow>
     (case (a, a') of ((w, t, s), (w', t', s')) \<Rightarrow>
        (\<exists>cs rs. w' = w\<lparr>w_calls := w_calls w @ cs, w_state := rs\<rparr> \<and>
           (\<forall>c\<in>set cs. (\<exists>i st n. c = MarkNode i st n) \<or> (\<exists>rid head. c = RequestMerge rid head \<and> P rid head))) \<and>
        \<not> waiting t' \<and> ti_ContentHash t' = ti_ContentHash t)"

lemma acted_by_mono:
  assumes "acted_by P a a'" "\<And>rid head. P rid head \<Longrightarrow> Q rid head"
  shows "acted_by Q a a'"
proof -
  obtain w t s w' t' s' where a: "a = (w, t, s)" "a' = (w', t', s')" by (cases a, cases a')
  then show ?thesis using assms unfolding a acted_by_def prod.case by blast
qed

lemma acted_quiet:
  "\<not> waiting t' \<Longrightarrow> ti_ContentHash t' = ti_ContentHash t \<Longrightarrow> acted_by P (w, t, s) (w, t', s')"
  unfolding acted_by_def by (auto intro!: exI [of _ "[]"] exI [of _ "w_state w"])

lemma acted_by_stages: "acted_by P (w, t, s) a' \<Longrightarrow> acted_by P (w, t, s2) a'"
  by (simp add: acted_by_def)

lemma markBoard_calls:
  obtains cs rs where "markBoard h i st note w = w\<lparr>w_calls := w_calls w @ cs, w_state := rs\<rparr>"
    "\<forall>c\<in>set cs. c = MarkNode i st note" "cs = [] \<longleftrightarrow> ComputeStatuses (w_graph w) (Some (w_state w)) i = Some st"
proof -
  let ?done = "ComputeStatuses (w_graph w) (Some (w_state w)) i = Some st"
  consider "?done" | "\<not> ?done" "\<not> hub_SetStatus h i st" | "\<not> ?done" "hub_SetStatus h i st" by blast
  then show ?thesis
  proof cases
    case 1
    then show ?thesis using that [of "w_state w" "[]"] by (simp add: markBoard_def)
  next
    case 2
    then show ?thesis using that [of "w_state w" "[MarkNode i st note]"] by (simp add: markBoard_def Let_def log_call_def)
  next
    case 3
    then show ?thesis
      using that [of "case SetStatus (w_state w) i st (writer_name (w_rec w)) (hub_Time h) of Inl e \<Rightarrow> w_state w | Inr rs \<Rightarrow> rs"
          "[MarkNode i st note]"]
      by (auto simp: markBoard_def Let_def log_call_def split: sum.split)
  qed
qed

lemma acted_marked:
  assumes "\<not> waiting t'" "ti_ContentHash t' = ti_ContentHash t"
  shows "acted_by P (w, t, s) (markBoard h i st note w, t', s')"
proof -
  obtain cs rs where "markBoard h i st note w = w\<lparr>w_calls := w_calls w @ cs, w_state := rs\<rparr>" "\<forall>c\<in>set cs. c = MarkNode i st note"
    by (rule markBoard_calls)
  then have "markBoard h i st note w = w\<lparr>w_calls := w_calls w @ cs, w_state := rs\<rparr> \<and>
      (\<forall>c\<in>set cs. (\<exists>i st n. c = MarkNode i st n) \<or> (\<exists>rid head. c = RequestMerge rid head \<and> P rid head))"
    by blast
  then show ?thesis using assms unfolding acted_by_def prod.case by blast
qed

text \<open>The pull request a merge is asked for, by the run that carries it.\<close>

definition carried :: "hub \<Rightarrow> task_instance \<Rightarrow> string \<Rightarrow> string \<Rightarrow> bool" where
  "carried h t rid head \<longleftrightarrow>
     (\<exists>obs pr. observe h t = Some (Inr obs) \<and> obs_prRun obs = Some pr \<and> rid = run_ID pr \<and> head = run_PRHeadSHA pr)"

lemma not_waiting_states [simp]:
  "\<not> waiting (setState TaskRunning g r t)" "\<not> waiting (setState TaskFailed g r t)" "\<not> waiting (setState TaskSuccess g r t)"
  "\<not> waiting (setState TaskWaitingHuman g r t)" "\<not> waiting (setState TaskWaitingReview g r t)" "\<not> waiting (setState TaskQueued g r t)"
  "\<not> waiting (hold_task k g r t)" "\<not> waiting (setState TaskSkipped g r t)" "\<not> waiting (setState TaskUpstreamFailed g r t)"
  by (simp_all add: waiting_def)

lemma merge_task_acted:
  assumes "merge_task h (w, t, s) = Some a'"
  shows "acted_by (carried h t) (w, t, s) a'"
proof -
  define t1 where "t1 = setState TaskRunning StageMerge [] t"
  have t1: "\<not> waiting t1" "ti_ContentHash t1 = ti_ContentHash t" and o: "observe h t1 = observe h t"
    by (simp_all add: t1_def, rule observe_cong, simp_all)
  have quiet: "acted_by (carried h t) (w, t, s) (w, t', s')" if "\<not> waiting t'" "ti_ContentHash t' = ti_ContentHash t" for t' s'
    using that by (rule acted_quiet)
  have reason: "\<not> waiting (t1\<lparr>ti_Reason := r\<rparr>)" "ti_ContentHash (t1\<lparr>ti_Reason := r\<rparr>) = ti_ContentHash t" for r
    using t1 by (simp_all add: waiting_def)
  have asked: "acted_by (carried h t) (w, t, s) (log_call (RequestMerge (run_ID pr) (run_PRHeadSHA pr)) w, t', s')"
    if "observe h t = Some (Inr obs)" "obs_prRun obs = Some pr" "\<not> waiting t'" "ti_ContentHash t' = ti_ContentHash t" for obs pr t' s'
  proof -
    have "log_call (RequestMerge (run_ID pr) (run_PRHeadSHA pr)) w =
        w\<lparr>w_calls := w_calls w @ [RequestMerge (run_ID pr) (run_PRHeadSHA pr)], w_state := w_state w\<rparr>"
      by (simp add: log_call_def)
    moreover have "\<forall>c\<in>set [RequestMerge (run_ID pr) (run_PRHeadSHA pr)]. \<exists>rid head. c = RequestMerge rid head \<and> carried h t rid head"
      using that(1,2) by (auto simp: carried_def)
    ultimately show ?thesis using that(3,4) unfolding acted_by_def prod.case by blast
  qed
  define ask :: "run_record \<Rightarrow> acted" where "ask pr = (let w = log_call (RequestMerge (run_ID pr) (run_PRHeadSHA pr)) w in
       case hub_Merge h (run_ID pr) (run_PRHeadSHA pr) of
         MergeAsked \<Rightarrow> (w, t1, add_stage (w_now w) StageMerge StageRunning (run_ID pr) ''merge requested'' s)
       | NotMergingYet err \<Rightarrow> (w, t1\<lparr>ti_Reason := ''not merging yet: '' @ err\<rparr>, s)
       | MergeError \<Rightarrow> (w, t1, s))" for pr
  have ask: "acted_by (carried h t) (w, t, s) (ask pr)" if "observe h t = Some (Inr obs)" "obs_prRun obs = Some pr" for obs pr
    unfolding ask_def Let_def using asked [OF that] t1 reason by (simp split: merge_answer.split)
  show ?thesis
  proof (cases "observe h t")
    case None
    then show ?thesis using assms by (simp add: merge_task_def Let_def flip: t1_def) (simp add: o)
  next
    case (Some r)
    show ?thesis
    proof (cases r)
      case (Inl err)
      then show ?thesis using assms Some quiet [OF t1] unfolding merge_task_def prod.case Let_def t1_def [symmetric] o by auto
    next
      case (Inr obs)
      show ?thesis
      proof (cases "obs_prRun obs")
        case None
        then show ?thesis using assms Some Inr quiet [OF t1] unfolding merge_task_def prod.case Let_def t1_def [symmetric] o by auto
      next
        case pr: (Some pr)
        have "Some a' = (case run_Merge pr of None \<Rightarrow> Some (ask pr)
            | Some m \<Rightarrow> (case mr_Status m of MergePending \<Rightarrow> Some (w, t1, s) | MergeDone \<Rightarrow> Some (w, t1, s)
                | MergeFailed \<Rightarrow> Some (w, setState TaskFailed StageMerge (''the merge failed: '' @ mr_Reason m) t1, s)
                | MergeExpired \<Rightarrow> Some (ask pr)))"
          using assms Some Inr pr unfolding merge_task_def prod.case Let_def t1_def [symmetric] o ask_def by simp
        then show ?thesis
          using ask [of obs pr] quiet [OF t1] quiet [of "setState TaskFailed StageMerge r t1" for r] Some Inr pr t1
          by (auto split: option.splits merge_status.splits)
      qed
    qed
  qed
qed

text \<open>What lets a merge through.\<close>

definition merge_allowed :: "hub \<Rightarrow> autopilot_policy \<Rightarrow> derived \<Rightarrow> task_instance \<Rightarrow> bool" where
  "merge_allowed h pol d t \<longleftrightarrow>
     d_phase d = phaseApproved \<and> ap_AutoMerge pol \<and> d_ci d = CISuccess \<and>
     (humanReview pol \<or> ti_Hold t = HoldSensitive \<and> ti_HumanVerdict t = VerdictApprove \<or> holdFor h t = Some [])"

lemma ci_gate_acted:
  "ci_gate h ci (w, t, s) = Some a' \<Longrightarrow> acted_by (\<lambda>rid head. carried h t rid head \<and> ci = CISuccess) (w, t, s) a'"
  by (auto simp: ci_gate_def acted_quiet split: if_splits intro: acted_by_mono [OF merge_task_acted])

lemma merge_gate_acted:
  assumes "merge_gate h ci (w, t, s) = Some a'"
  shows "acted_by (\<lambda>rid head. carried h t rid head \<and> ci = CISuccess \<and>
      (humanReview (ar_Policy (w_rec w)) \<or> ti_Hold t = HoldSensitive \<and> ti_HumanVerdict t = VerdictApprove \<or> holdFor h t = Some []))
    (w, t, s) a'"
proof -
  consider "humanReview (ar_Policy (w_rec w))" "ci_gate h ci (w, t, s) = Some a'"
    | s2 where "ti_Hold t = HoldSensitive" "ti_HumanVerdict t = VerdictApprove" "ci_gate h ci (w, t, s2) = Some a'"
    | why s2 where "a' = (w, hold_task HoldSensitive StageHuman why t, s2)"
    | "holdFor h t = Some []" "ci_gate h ci (w, t, s) = Some a'"
    using assms unfolding merge_gate_def by (auto split: if_splits option.splits)
  then show ?thesis
  proof cases
    case 1
    then show ?thesis by (auto intro: acted_by_mono [OF ci_gate_acted])
  next
    case 2
    then show ?thesis by (auto intro: acted_by_stages [OF acted_by_mono [OF ci_gate_acted]])
  next
    case 3
    then show ?thesis by (simp add: acted_quiet)
  next
    case 4
    then show ?thesis by (auto intro: acted_by_mono [OF ci_gate_acted])
  qed
qed

lemma act_approved_acted:
  assumes "act_approved h d (w, t, s) = Some a'" "d_phase d = phaseApproved"
  shows "acted_by (\<lambda>rid head. carried h t rid head \<and> merge_allowed h (ar_Policy (w_rec w)) d t) (w, t, s) a'"
proof (cases "ap_AutoMerge (ar_Policy (w_rec w))")
  case False
  then show ?thesis
    using assms(1) by (auto simp: act_approved_def Let_def pipelineHandlesHuman_def intro: acted_marked)
next
  case True
  then obtain s2 where "merge_gate h (d_ci d) (w, t, s2) = Some a'"
    using assms(1) by (auto simp: act_approved_def Let_def pipelineHandlesHuman_def)
  then have "acted_by (\<lambda>rid head. carried h t rid head \<and> merge_allowed h (ar_Policy (w_rec w)) d t) (w, t, s2) a'"
    by (rule acted_by_mono [OF merge_gate_acted]) (auto simp: merge_allowed_def True assms(2))
  then show ?thesis by (rule acted_by_stages)
qed

lemma act_acted:
  assumes "act h d (w, t, s) = Some a'"
  shows "acted_by (\<lambda>rid head. carried h t rid head \<and> merge_allowed h (ar_Policy (w_rec w)) d t) (w, t, s) a'"
proof (cases "d_phase d")
  case phaseApproved
  then show ?thesis using assms act_approved_acted by (simp add: act_def)
next
  case phaseMerged
  then show ?thesis using assms by (auto simp: act_def task_done_def intro: acted_marked)
next
  case phaseFailed
  then have "a' = (w, setState TaskFailed NoStage (d_reason d) t, s)" using assms by (simp add: act_def)
  then show ?thesis by (simp add: acted_quiet)
next
  case phaseActive
  then obtain st g r where "a' = (w, setState st g r t, s)" "st \<in> {TaskWaitingHuman, TaskWaitingReview, TaskQueued, TaskRunning}"
    using assms by (auto simp: act_def split: if_splits)
  then show ?thesis by (auto intro!: acted_quiet simp: waiting_def)
next
  case phaseIdle
  then obtain st g r where "a' = (w, setState st g r t, s)" "st \<in> {TaskWaitingHuman, TaskWaitingReview, TaskQueued, TaskRunning}"
    using assms by (auto simp: act_def split: if_splits)
  then show ?thesis by (auto intro!: acted_quiet simp: waiting_def)
qed

section \<open>A merge is asked for where it is allowed\<close>

text \<open>The task as \<^verbatim>\<open>refresh\<close> reads it from its runs.\<close>

definition refreshed :: "derived \<Rightarrow> task_instance \<Rightarrow> task_instance" where
  "refreshed d t =
     t\<lparr>ti_RunID := firstNonEmpty [d_latestRun d, ti_RunID t], ti_PRURL := d_prURL d, ti_CIStatus := d_ci d, ti_Votes := d_votes d,
       ti_Stage := NoStage\<rparr>"

text \<open>What a merge that was asked for is justified by: a task of the set, its runs and the policy.\<close>

definition justified :: "hub \<Rightarrow> work \<Rightarrow> string \<Rightarrow> string \<Rightarrow> string \<Rightarrow> bool" where
  "justified h w i rid head \<longleftrightarrow>
     (\<exists>t obs. task_at w i = Some t \<and> \<not> never_started t \<and> \<not> final1 (ti_State t) \<and> observe h t = Some (Inr obs) \<and>
        carried h (refreshed (derive obs (w_now w)) t) rid head \<and>
        merge_allowed h (ar_Policy (w_rec w)) (derive obs (w_now w)) (refreshed (derive obs (w_now w)) t))"

lemma keep_stages_simps [simp]:
  "waiting (keep_stages prev stages t) = waiting t" "ti_ContentHash (keep_stages prev stages t) = ti_ContentHash t"
  "task_ok (keep_stages prev stages t) = (waiting t \<longrightarrow> never_started t \<and> ti_Hold t = NoHold)"
  by (auto simp: keep_stages_def Let_def waiting_def task_ok_def never_started_def)

text \<open>One task refreshed: it is kept, and its calls are board marks and justified merges.\<close>

definition refreshing :: "hub \<Rightarrow> string list \<Rightarrow> work \<Rightarrow> work \<Rightarrow> bool" where
  "refreshing h is w w' \<longleftrightarrow>
     each_task kept w w' \<and> (\<forall>j. j \<notin> set is \<longrightarrow> task_at w' j = task_at w j) \<and>
     w_rec w' = w_rec w \<and> w_now w' = w_now w \<and>
     (\<exists>cs. w_calls w' = w_calls w @ cs \<and>
        (\<forall>c\<in>set cs. (\<exists>i st n. c = MarkNode i st n) \<or>
           (\<exists>i\<in>set is. \<exists>rid head. c = RequestMerge rid head \<and> justified h w i rid head)))"

lemma refreshing_same: "refreshing h is w w"
  by (auto simp: refreshing_def pass.same_tasks)

lemma refresh_one_refreshing:
  assumes "refresh_one h i w = Some w'"
  shows "refreshing h [i] w w'"
proof (cases "task_at w i")
  case None
  then show ?thesis using assms refreshing_same by (simp add: refresh_one_def)
next
  case (Some t)
  note t = this
  consider "w' = w" | obs where "\<not> never_started t" "\<not> final1 (ti_State t)" "observe h t = Some (Inr obs)"
    using assms t by (fastforce simp: refresh_one_def split: if_splits option.splits sum.splits)
  then show ?thesis
  proof cases
    case 1
    then show ?thesis using refreshing_same by simp
  next
    case (2 obs)
    define d where "d = derive obs (w_now w)"
    obtain w1 t1 stages where a: "act h d (w, refreshed d t, d_stages d) = Some (w1, t1, stages)"
      and w': "w' = put_task i (keep_stages (ti_Stages t) stages t1) w1"
      using assms t 2 unfolding refresh_one_def refreshed_def d_def Let_def by (auto split: option.splits)
    obtain cs rs where w1: "w1 = w\<lparr>w_calls := w_calls w @ cs, w_state := rs\<rparr>"
      and cs: "\<forall>c\<in>set cs. (\<exists>i st n. c = MarkNode i st n) \<or> (\<exists>rid head. c = RequestMerge rid head \<and>
          carried h (refreshed d t) rid head \<and> merge_allowed h (ar_Policy (w_rec w)) d (refreshed d t))"
      and t1: "\<not> waiting t1" "ti_ContentHash t1 = ti_ContentHash t"
      using act_acted [OF a] unfolding acted_by_def prod.case by (auto simp: refreshed_def)
    have "kept t (keep_stages (ti_Stages t) stages t1)" using t1 2(2) by (simp add: kept_def)
    then have "each_task kept w w'" unfolding w' w1 using pass.put [OF t] by (simp add: each_task_def put_task_def)
    moreover have "\<forall>c\<in>set cs. (\<exists>i st n. c = MarkNode i st n) \<or>
        (\<exists>j\<in>set [i]. \<exists>rid head. c = RequestMerge rid head \<and> justified h w j rid head)"
      using cs t 2 unfolding justified_def d_def by fastforce
    ultimately show ?thesis unfolding refreshing_def w' w1 by (simp add: map_of_gomap_put)
  qed
qed

lemma justified_cong:
  assumes "task_at w' i = task_at w i" "w_rec w' = w_rec w" "w_now w' = w_now w"
  shows "justified h w' i rid head = justified h w i rid head"
  unfolding justified_def assms ..

lemma refresh_from_refreshing:
  assumes "refresh_from h is w = Some w'" "distinct is"
  shows "refreshing h is w w'"
  using assms
proof (induction "is" arbitrary: w)
  case Nil
  then show ?case using refreshing_same by simp
next
  case (Cons i "is")
  obtain w1 where w1: "refresh_one h i w = Some w1" "refresh_from h is w1 = Some w'"
    using Cons.prems(1) by (auto simp: obind_def split: option.splits)
  have one: "refreshing h [i] w w1" by (rule refresh_one_refreshing [OF w1(1)])
  have rest: "refreshing h is w1 w'" using Cons.IH [OF w1(2)] Cons.prems(2) by simp
  have j: "justified h w1 j rid head = justified h w j rid head" if "j \<in> set is" for j rid head
    using one Cons.prems(2) that by (intro justified_cong) (auto simp: refreshing_def)
  show ?case unfolding refreshing_def
  proof (intro conjI allI impI)
    show "each_task kept w w'" using one rest pass.chain unfolding refreshing_def by blast
    fix k assume "k \<notin> set (i # is)"
    then show "task_at w' k = task_at w k" using one rest unfolding refreshing_def by simp
  next
    show "w_rec w' = w_rec w" "w_now w' = w_now w" using one rest unfolding refreshing_def by simp_all
  next
    obtain cs1 where 1: "w_calls w1 = w_calls w @ cs1" "\<forall>c\<in>set cs1. (\<exists>i st n. c = MarkNode i st n) \<or>
        (\<exists>j\<in>set [i]. \<exists>rid head. c = RequestMerge rid head \<and> justified h w j rid head)"
      using one unfolding refreshing_def by blast
    obtain cs2 where 2: "w_calls w' = w_calls w1 @ cs2" "\<forall>c\<in>set cs2. (\<exists>i st n. c = MarkNode i st n) \<or>
        (\<exists>j\<in>set is. \<exists>rid head. c = RequestMerge rid head \<and> justified h w1 j rid head)"
      using rest unfolding refreshing_def by blast
    have "\<forall>c\<in>set cs1 \<union> set cs2. (\<exists>i st n. c = MarkNode i st n) \<or>
        (\<exists>j\<in>set (i # is). \<exists>rid head. c = RequestMerge rid head \<and> justified h w j rid head)"
      using 1(2) 2(2) j by fastforce
    then show "\<exists>cs. w_calls w' = w_calls w @ cs \<and> (\<forall>c\<in>set cs. (\<exists>i st n. c = MarkNode i st n) \<or>
        (\<exists>j\<in>set (i # is). \<exists>rid head. c = RequestMerge rid head \<and> justified h w j rid head))"
      using 1(1) 2(1) by (intro exI [of _ "cs1 @ cs2"]) simp
  qed
qed

lemma refresh_refreshing:
  assumes "refresh h w = Some w'" "distinct (map fst (w_tasks w))"
  shows "refreshing h (sortedIDs (w_tasks w)) w w'"
  using refresh_from_refreshing [OF assms(1) [unfolded refresh_def]] assms(2) by (simp add: sortedIDs_def)

end
