(* ===== verification/Autopilot_Steps.thy ===== *)
theory Autopilot_Steps
  imports Autopilot_Pass
begin

text \<open>
  What a whole pass (\<open>reconcile\<close>) does to the task set: tasks are kept, tasks that join are pinned to the content read
  for them, and a run is started with the content its task is pinned to.
\<close>

section \<open>The relation between the start and the end of a pass\<close>

definition tasks_ok :: "work \<Rightarrow> bool" where
  "tasks_ok w \<longleftrightarrow> (\<forall>i t. task_at w i = Some t \<longrightarrow> task_ok t)"

definition joined_ok :: "task_instance \<Rightarrow> bool" where
  "joined_ok t \<longleftrightarrow> task_ok t \<and> ti_ContentHash t \<noteq> []"

definition passed :: "(string \<Rightarrow> string \<Rightarrow> string) \<Rightarrow> work \<Rightarrow> work \<Rightarrow> bool" where
  "passed hash w w' \<longleftrightarrow>
     (\<forall>i t. task_at w i = Some t \<longrightarrow> (\<exists>t'. task_at w' i = Some t' \<and> kept t t')) \<and>
     (\<forall>i t'. task_at w i = None \<longrightarrow> task_at w' i = Some t' \<longrightarrow> joined_ok t') \<and>
     (distinct (map fst (w_tasks w)) \<longrightarrow> distinct (map fst (w_tasks w'))) \<and>
     (\<exists>cs. w_calls w' = w_calls w @ cs \<and>
        (\<forall>req. StartRun req \<in> set cs \<longrightarrow> sq_Kind req = JobImplement \<longrightarrow> pinned hash w' req))"

lemma passed_ok: "passed hash w w' \<Longrightarrow> tasks_ok w \<Longrightarrow> tasks_ok w'"
  unfolding passed_def tasks_ok_def kept_def joined_ok_def by (metis option.exhaust option.inject)

lemma each_task_keys: "each_task K w w' \<Longrightarrow> map fst (w_tasks w') = map fst (w_tasks w)"
  by (simp add: each_task_def)

lemma keys_of_put: "fst ` set (gomap_put k v m) = insert k (fst ` set m)"
  by (induction k v m rule: gomap_put.induct) auto

lemma distinct_put: "distinct (map fst m) \<Longrightarrow> distinct (map fst (gomap_put k v m))"
  by (induction k v m rule: gomap_put.induct) (auto simp: keys_of_put)

text \<open>A step that asks for no implementation run.\<close>

lemma passed_quiet:
  assumes "each_task kept w w'" "w_calls w' = w_calls w @ cs"
    "\<And>req. StartRun req \<in> set cs \<Longrightarrow> sq_Kind req \<noteq> JobImplement"
  shows "passed hash w w'"
proof -
  have "task_at w' i = Some t' \<Longrightarrow> task_at w i \<noteq> None" for i t' using each_task_None [OF assms(1), of i] by simp
  then show ?thesis using assms each_task_at [OF assms(1)] each_task_keys [OF assms(1)] unfolding passed_def by metis
qed

lemma passed_same:
  assumes "w_tasks w' = w_tasks w" "w_calls w' = w_calls w @ cs" "\<And>req. StartRun req \<in> set cs \<Longrightarrow> sq_Kind req \<noteq> JobImplement"
  shows "passed hash w w'"
  using passed_quiet [OF pass.same_tasks [OF assms(1)] assms(2,3)] .

lemma passed_rec: "w_tasks w' = w_tasks w \<Longrightarrow> w_calls w' = w_calls w \<Longrightarrow> passed hash w w'"
  by (rule passed_same [of _ _ "[]"]) simp_all

lemma passed_put:
  assumes "task_at w i = None" "joined_ok t"
  shows "passed hash w (put_task i t w)"
  using assms pass.refl distinct_put unfolding passed_def by (auto simp: map_of_gomap_put)

text \<open>With a hash that is never empty, the relation composes: what a task is pinned to stays.\<close>

definition hash_ok :: "(string \<Rightarrow> string \<Rightarrow> string) \<Rightarrow> bool" where
  "hash_ok hash \<longleftrightarrow> (\<forall>title body. hash title body \<noteq> [])"

lemma passed_refl: "passed hash w w"
  by (rule passed_rec) simp_all

lemma passed_trans:
  assumes hash: "hash_ok hash" and 1: "passed hash w w1" and 2: "passed hash w1 w2"
  shows "passed hash w w2"
proof -
  have later: "\<exists>t'. task_at w2 i = Some t' \<and> kept t t'" if "task_at w1 i = Some t" for i t
    using 2 that unfolding passed_def by blast
  have old: "\<exists>t'. task_at w2 i = Some t' \<and> kept t t'" if "task_at w i = Some t" for i t
    using 1 later pass.trans that unfolding passed_def by meson
  have new: "joined_ok t'" if "task_at w i = None" "task_at w2 i = Some t'" for i t'
  proof (cases "task_at w1 i")
    case None
    then show ?thesis using 2 that(2) unfolding passed_def by blast
  next
    case (Some t)
    then have "joined_ok t" using 1 that(1) unfolding passed_def by blast
    then show ?thesis using later [OF Some] that(2) by (auto simp: kept_def joined_ok_def)
  qed
  obtain cs1 where c1: "w_calls w1 = w_calls w @ cs1"
    "\<And>req. StartRun req \<in> set cs1 \<Longrightarrow> sq_Kind req = JobImplement \<Longrightarrow> pinned hash w1 req" using 1 unfolding passed_def by blast
  obtain cs2 where c2: "w_calls w2 = w_calls w1 @ cs2"
    "\<And>req. StartRun req \<in> set cs2 \<Longrightarrow> sq_Kind req = JobImplement \<Longrightarrow> pinned hash w2 req" using 2 unfolding passed_def by blast
  have "pinned hash w2 req" if r: "StartRun req \<in> set (cs1 @ cs2)" "sq_Kind req = JobImplement" for req
  proof -
    have "pinned hash w1 req \<or> pinned hash w2 req" using r c1(2) c2(2) by auto
    then show ?thesis using pinned_kept [of hash w1 req w2] hash later by (auto simp: hash_ok_def)
  qed
  moreover have "distinct (map fst (w_tasks w)) \<longrightarrow> distinct (map fst (w_tasks w2))" using 1 2 unfolding passed_def by blast
  ultimately show ?thesis unfolding passed_def using old new c1(1) c2(1) by (intro conjI allI impI exI [of _ "cs1 @ cs2"]) auto
qed

lemma passed_fold: "hash_ok hash \<Longrightarrow> (\<And>x w. passed hash w (f x w)) \<Longrightarrow> passed hash w (fold f xs w)"
  by (induction xs arbitrary: w) (auto intro: passed_refl passed_trans)

section \<open>The steps of a pass\<close>

lemma kept_setState:
  "\<not> final1 (ti_State t) \<Longrightarrow> st \<noteq> TaskNone \<Longrightarrow> st \<noteq> TaskScheduled \<Longrightarrow> kept t (setState st g r t)"
  by (simp add: kept_def task_ok_def waiting_def)

lemma kept_hold: "\<not> final1 (ti_State t) \<Longrightarrow> kept t (hold_task k g r t)"
  by (simp add: kept_def task_ok_def waiting_def)

lemma kept_same_state:
  "ti_State t' = ti_State t \<Longrightarrow> ti_ContentHash t' = ti_ContentHash t \<Longrightarrow> never_started t' = never_started t \<Longrightarrow>
     ti_Hold t' = ti_Hold t \<Longrightarrow> kept t t'"
  by (simp add: kept_def task_ok_def waiting_def)

lemma kept_checked: "\<not> final1 (ti_State t) \<Longrightarrow> kept t (fst (checkContent h body t))"
  by (cases rule: checkContent_cases [of h body t])
    (auto simp: kept_hold pass.refl kept_def task_ok_def waiting_def never_started_def)

lemma sync_member_kept: "kept t (sync_member h w i t)"
proof -
  define t1 where "t1 = t\<lparr>ti_Title := dag_title (w_dag w) i, ti_Upstream := deps_at (dag_upstream (w_dag w)) i\<rparr>"
  have t1: "kept t t1" by (rule kept_same_state) (simp_all add: t1_def never_started_def)
  have person: "kept t1 (setState st g r (t1\<lparr>ti_Hold := NoHold\<rparr>))"
    if "\<not> final1 (ti_State t1)" "st \<noteq> TaskNone" "st \<noteq> TaskScheduled" for st g r
    using that by (simp add: kept_def task_ok_def waiting_def)
  have "kept t1 (sync_member h w i t)"
    unfolding sync_member_def Let_def t1_def [symmetric]
    using person kept_setState [of t1] kept_hold [of t1] kept_checked [of t1] pass.refl [of t1] by (simp split: sum.split)
  then show ?thesis using t1 pass.trans by blast
qed

lemma sync_removed_kept: "fst (sync_removed d (i, t)) = i" "kept t (snd (sync_removed d (i, t)))"
  by (simp_all add: sync_removed_def pass.refl kept_hold)

lemma sync_one_kept: "each_task kept w (sync_one h i w)"
  by (cases "task_at w i") (simp_all add: sync_one_def pass.same_tasks pass.put sync_member_kept)

lemma sync_one_calls [simp]: "w_calls (sync_one h i w) = w_calls w"
  by (simp add: sync_one_def split: option.split)

lemma syncMembers_kept: "each_task kept w (syncMembers h w)" "w_calls (syncMembers h w) = w_calls w"
proof -
  have f: "each_task kept w (fold (sync_one h) is w) \<and> w_calls (fold (sync_one h) is w) = w_calls w" for "is" w
    by (induction "is" arbitrary: w) (auto simp: pass.same_tasks intro: pass.chain [OF sync_one_kept])
  define w1 where "w1 = fold (sync_one h) (dag_order (w_dag w)) (w\<lparr>w_added := []\<rparr>)"
  have "each_task kept w (w\<lparr>w_added := []\<rparr>)" by (simp add: pass.same_tasks)
  then have w1: "each_task kept w w1" "w_calls w1 = w_calls w"
    using f [of "w\<lparr>w_added := []\<rparr>" "dag_order (w_dag w)"] by (auto simp: w1_def intro: pass.chain)
  have "each_task kept w1 (w1\<lparr>w_tasks := map (sync_removed (w_dag w1)) (w_tasks w1)\<rparr>)"
    by (rule pass.mapped) (simp_all add: sync_removed_kept)
  moreover have "syncMembers h w = w1\<lparr>w_tasks := map (sync_removed (w_dag w1)) (w_tasks w1)\<rparr>"
    unfolding syncMembers_def w1_def Let_def ..
  ultimately show "each_task kept w (syncMembers h w)" "w_calls (syncMembers h w) = w_calls w"
    using w1 pass.chain by auto
qed

lemma propagate_kept:
  assumes "propagateFailures w = Some w'"
  shows "each_task kept w w'" "w_calls w' = w_calls w" "w_rec w' = w_rec w"
proof -
  have s: "spread w w'" using propagate_result [of w] assms by (metis option.inject)
  have "kept t (setState TaskUpstreamFailed NoStage r t)" if "waiting t" for t r
    using that kept_setState waiting_not_final by simp
  then have "\<exists>t'. task_at w' i = Some t' \<and> kept t t'" if "task_at w i = Some t" for i t
    using s that pass.refl unfolding spread_def by (metis option.inject)
  then show "each_task kept w w'" using s by (simp add: each_task_def spread_def)
  have eq: "w'\<lparr>w_tasks := w_tasks w\<rparr> = w" using s by (simp add: spread_def)
  show "w_calls w' = w_calls w" "w_rec w' = w_rec w"
    using arg_cong [where f = w_calls, OF eq] arg_cong [where f = w_rec, OF eq] by simp_all
qed

lemma schedule_passed:
  assumes "tasks_ok w" "hash_ok (hub_Hash h)"
  shows "passed (hub_Hash h) w (schedule h w)"
proof -
  obtain room where s: "scheduling h w (ap_MaxParallel (ar_Policy (w_rec w)) - active w) (schedule h w, room)"
    using schedule_result [of w h] assms unfolding tasks_ok_def hash_ok_def by blast
  then obtain cs where "each_task kept w (schedule h w)" "w_calls (schedule h w) = w_calls w @ cs"
    "\<forall>c\<in>set cs. \<exists>req. c = StartRun req \<and> pinned (hub_Hash h) (schedule h w) req"
    using scheduled_kept unfolding scheduling_def prod.case by blast
  moreover from this have "\<And>i t. task_at w i = None \<Longrightarrow> task_at (schedule h w) i = Some t \<Longrightarrow> joined_ok t"
    using each_task_None [of kept w "schedule h w"] by (metis option.distinct(1))
  moreover have "map fst (w_tasks (schedule h w)) = map fst (w_tasks w)" using calculation(1) by (rule each_task_keys)
  ultimately show ?thesis using each_task_at [of kept w "schedule h w"] unfolding passed_def by (metis hub_call.inject(1))
qed

lemma markBoard_same [simp]:
  "w_tasks (markBoard h i st why w) = w_tasks w" "w_rec (markBoard h i st why w) = w_rec w"
  by (rule markBoard_calls [of h i st why w]; simp)+

lemma markBoard_passed: "passed hash w (markBoard h i st why w)"
  by (rule markBoard_calls [of h i st why w]) (rule passed_same; fastforce)

lemma end_with_passed: "passed hash w (end_with s reason w)"
  by (rule passed_rec) (simp_all add: end_with_def)

lemma finishIfDone_passed: "hash_ok hash \<Longrightarrow> passed hash w (finishIfDone h w)"
  unfolding finishIfDone_def
  using end_with_passed passed_refl passed_trans [OF _ end_with_passed markBoard_passed] by simp

section \<open>The goal's phases\<close>

lemma on_rec_passed: "passed hash w (on_rec f w)"
  by (rule passed_rec) (simp_all add: on_rec_def)

lemma startGoalRun_passed:
  assumes "kind \<noteq> JobImplement"
  shows "passed hash w (startGoalRun h kind role keep extra w)"
proof -
  have "\<exists>cs. w_calls (startGoalRun h kind role keep extra w) = w_calls w @ cs \<and>
      (\<forall>req. StartRun req \<in> set cs \<longrightarrow> sq_Kind req = kind) \<and>
      w_tasks (startGoalRun h kind role keep extra w) = w_tasks w"
    by (auto simp: startGoalRun_def Let_def set_reason_def on_rec_def log_call_def
      split: option.split sum.split start_failure.split)
  then show ?thesis using assms by (metis passed_same)
qed

lemma adopt_from_passed:
  assumes "hash_ok (hub_Hash h)"
  shows "passed (hub_Hash h) w (snd (adopt_from h keep limit is n w))"
proof (induction "is" arbitrary: n w)
  case Nil
  then show ?case by (simp add: passed_refl)
next
  case (Cons i "is")
  consider "adopt_from h keep limit (i # is) n w = adopt_from h keep limit is n w" | "adopt_from h keep limit (i # is) n w = (n, w)"
    | body where "task_at w i = None"
        "adopt_from h keep limit (i # is) n w = adopt_from h keep limit is (n + 1) (put_task i (new_task h (w_dag w) i body) w)"
    by (cases "task_at w i \<noteq> None \<or> \<not> keep i"; cases "limit > 0 \<and> n \<ge> limit"; cases "hub_Content h i") auto
  then show ?case
  proof cases
    case 1
    then show ?thesis using Cons.IH by simp
  next
    case 2
    then show ?thesis by (simp add: passed_refl)
  next
    case (3 body)
    have "hub_Hash h (dag_title (w_dag w) i) body \<noteq> []" using assms unfolding hash_ok_def by blast
    then have "joined_ok (new_task h (w_dag w) i body)" by (simp add: joined_ok_def task_ok_def never_started_def new_task_def)
    then have "passed (hub_Hash h) w (put_task i (new_task h (w_dag w) i body) w)" using 3(1) by (simp only: passed_put)
    then show ?thesis unfolding 3(2) by (rule passed_trans [OF assms _ Cons.IH])
  qed
qed

lemma adopt_passed:
  assumes "hash_ok (hub_Hash h)"
  shows "passed (hub_Hash h) w (snd (adopt h keep limit w))"
proof -
  obtain n w' where a: "adopt_from h keep limit (dag_order (w_dag w)) 0 w = (n, w')" by force
  have "passed (hub_Hash h) w w'" using adopt_from_passed [OF assms, of w keep limit "dag_order (w_dag w)" 0] a by simp
  moreover have "passed (hub_Hash h) w' (syncMembers h (w'\<lparr>w_dirty := True\<rparr>))"
    by (rule passed_trans [OF assms, of w' "w'\<lparr>w_dirty := True\<rparr>", OF passed_rec passed_quiet [of _ _ "[]"]])
      (simp_all add: syncMembers_kept)
  ultimately have "passed (hub_Hash h) w (syncMembers h (w'\<lparr>w_dirty := True\<rparr>))" by (rule passed_trans [OF assms])
  then show ?thesis using \<open>passed (hub_Hash h) w w'\<close> by (simp add: adopt_def a)
qed

lemma kinds_differ [simp]: "JobPlan \<noteq> JobImplement" "JobJudge \<noteq> JobImplement"
  by simp_all

lemma goal_step_passed:
  assumes "hash_ok hash"
  shows "passed hash w (setPhase p w)" "passed hash w (set_reason r w)" "passed hash w (fail_with r w)"
    "passed hash w (goalDone h r w)" "passed hash w w"
proof -
  show "passed hash w (goalDone h r w)"
    unfolding goalDone_def Let_def setPhase_def
    by (rule passed_trans [OF assms passed_trans [OF assms on_rec_passed on_rec_passed] markBoard_passed])
qed (simp_all only: setPhase_def set_reason_def fail_with_def on_rec_passed passed_refl)

lemma with_rec_passed:
  assumes "hash_ok hash" "passed hash (w\<lparr>w_rec := r\<rparr>) w'"
  shows "passed hash w w'"
  by (rule passed_trans [OF assms(1) passed_rec assms(2)]) simp_all

lemma acceptancePhase_passed:
  assumes "hash_ok (hub_Hash h)"
  shows "passed (hub_Hash h) w (acceptancePhase h w)"
proof -
  note steps = goal_step_passed [OF assms] startGoalRun_passed [OF kinds_differ(1)]
    with_rec_passed [OF assms goal_step_passed(1) [OF assms]]
  show ?thesis unfolding acceptancePhase_def using steps by (simp split: option.split sum.split)
qed

lemma planPhase_passed:
  assumes "hash_ok (hub_Hash h)"
  shows "passed (hub_Hash h) w (planPhase h w)"
proof -
  note steps = goal_step_passed [OF assms] startGoalRun_passed [OF kinds_differ(1)]
  have "passed (hub_Hash h) w (case adopt h keep 0 w of (n, w') \<Rightarrow>
      if n = 0 then fail_with r w' else setPhase GoalPhaseTasks w')" for keep r
    unfolding case_prod_beta if_split [of "passed (hub_Hash h) w"]
    using passed_trans [OF assms adopt_passed [OF assms] goal_step_passed(1) [OF assms]]
      passed_trans [OF assms adopt_passed [OF assms] goal_step_passed(3) [OF assms]] by blast
  then show ?thesis unfolding planPhase_def using steps by (simp split: sum.split)
qed

lemma tasksDone_passed:
  assumes "hash_ok (hub_Hash h)"
  shows "passed (hub_Hash h) w (tasksDone h w)"
proof -
  note steps = goal_step_passed [OF assms] with_rec_passed [OF assms goal_step_passed(1) [OF assms]]
  show ?thesis unfolding tasksDone_def Let_def using steps by (simp split: option.split)
qed

lemma qaPhase_passed:
  assumes "hash_ok (hub_Hash h)"
  shows "passed (hub_Hash h) w (qaPhase h w)"
proof -
  note steps = goal_step_passed [OF assms] startGoalRun_passed [OF kinds_differ(2)] with_rec_passed [OF assms goal_step_passed(1) [OF assms]]
  have "passed (hub_Hash h) w (setPhase p (set_reason r w'))" if "passed (hub_Hash h) w w'" for p r w'
    by (rule passed_trans [OF assms passed_trans [OF assms that steps(2)] steps(1)])
  moreover have "passed (hub_Hash h) w (snd (adopt h keep limit (on_rec f w)))" for keep limit f
    using passed_trans [OF assms on_rec_passed adopt_passed [OF assms]] .
  ultimately have "passed (hub_Hash h) w (qa_failed h n w)" for n
    unfolding qa_failed_def Let_def by (simp add: case_prod_beta on_rec_passed)
  then show ?thesis unfolding qaPhase_def Let_def using steps by (simp split: sum.split option.split)
qed

lemma humanPhase_passed:
  assumes "hash_ok hash"
  shows "passed hash w (humanPhase w)"
  unfolding humanPhase_def Let_def
  using passed_trans [OF assms on_rec_passed goal_step_passed(1) [OF assms]] passed_refl by simp

lemma phase_step_passed:
  assumes "hash_ok (hub_Hash h)" "tasks_ok w"
  shows "passed (hub_Hash h) w (phase_step h w)"
  unfolding phase_step_def
  using assms acceptancePhase_passed planPhase_passed qaPhase_passed humanPhase_passed tasksDone_passed schedule_passed passed_refl
    passed_trans [OF assms(1) schedule_passed [OF assms(2,1)] tasksDone_passed [OF assms(1)]]
  by (simp split: goal_phase.split)

lemma goal_flow_passed:
  assumes "hash_ok (hub_Hash h)" "tasks_ok w"
  shows "passed (hub_Hash h) w (goal_flow k h w)"
  using assms(2)
proof (induction k arbitrary: w)
  case 0
  then show ?case by (simp add: passed_refl)
next
  case (Suc k)
  have s: "passed (hub_Hash h) w (phase_step h w)" using phase_step_passed [OF assms(1) Suc.prems] .
  then show ?case using passed_trans [OF assms(1) s Suc.IH [OF passed_ok [OF s Suc.prems]]] by (simp add: Let_def)
qed

section \<open>The whole pass\<close>

lemma finish_pass_passed:
  assumes "hash_ok (hub_Hash h)" "tasks_ok w"
  shows "passed (hub_Hash h) w (finish_pass h w)"
  unfolding finish_pass_def goalFlow_def
  using assms goal_flow_passed finishIfDone_passed passed_trans [OF assms(1) schedule_passed [OF assms(2,1)] finishIfDone_passed]
  by simp

lemma refreshing_passed:
  assumes "refreshing h is w w'"
  shows "passed hash w w'"
proof -
  obtain cs where "w_calls w' = w_calls w @ cs" "\<And>req. StartRun req \<notin> set cs"
    using assms unfolding refreshing_def by fastforce
  then show ?thesis using assms passed_quiet [of w w' cs] by (simp add: refreshing_def)
qed

lemma reconcile_passed:
  assumes "reconcile h may w = Some w'" "hash_ok (hub_Hash h)" "tasks_ok w" "distinct (map fst (w_tasks w))"
  shows "passed (hub_Hash h) w w'"
proof -
  consider "w' = w" | f where "w' = on_rec f w"
    | w1 w2 where "refresh h (syncMembers h w) = Some w1" "propagateFailures w1 = Some w2" "w' = finish_pass h w2"
    using assms(1) unfolding reconcile_def obind_def
    by (auto split: if_splits option.splits bool.splits)
  then show ?thesis
  proof cases
    case 1
    then show ?thesis by (simp add: passed_refl)
  next
    case 2
    then show ?thesis by (simp add: on_rec_passed)
  next
    case (3 w1 w2)
    have s: "passed (hub_Hash h) w (syncMembers h w)"
      by (rule passed_quiet [of _ _ "[]"]) (simp_all add: syncMembers_kept)
    have "passed (hub_Hash h) (syncMembers h w) w1"
      using refresh_refreshing [OF 3(1)] assms(4) each_task_keys [OF syncMembers_kept(1)] refreshing_passed by simp
    then have r: "passed (hub_Hash h) w w1" using passed_trans [OF assms(2) s] by blast
    have "passed (hub_Hash h) w1 w2"
      by (rule passed_quiet [of _ _ "[]"]) (simp_all add: propagate_kept [OF 3(2)])
    then have p: "passed (hub_Hash h) w w2" using passed_trans [OF assms(2) r] by blast
    show ?thesis
      using passed_trans [OF assms(2) p finish_pass_passed [OF assms(2) passed_ok [OF p assms(3)]]] 3(3) by simp
  qed
qed

end
