(* ===== verification/Autopilot_Actions.thy ===== *)
theory Autopilot_Actions
  imports Goal_Flow
begin

text \<open>
  What a person may do to an autopilot (\<^verbatim>\<open>Create\<close>, \<^verbatim>\<open>Pause\<close>, \<^verbatim>\<open>Resume\<close>, \<^verbatim>\<open>Adopt\<close>, \<^verbatim>\<open>Cancel\<close>, \<^verbatim>\<open>Retry\<close>,
  \<^verbatim>\<open>Skip\<close> and \<^verbatim>\<open>Review\<close> of \<^verbatim>\<open>internal/autopilot/orchestrator.go\<close>). Each works on the autopilot as loaded and gives
  the state that is saved; the pass the code runs right after is a step of its own.
\<close>

section \<open>Refusals\<close>

datatype action_error =
    NotFound | ConflictWith string | InvalidAction string | ReadFailed string | NotAGoal string | LostAccess | HubError string
  | PolicyError bad_request

section \<open>Creating one\<close>

text \<open>The task set, frozen with the content each task starts with.\<close>

fun freeze_tasks :: "hub \<Rightarrow> dag \<Rightarrow> string list \<Rightarrow> action_error + (string, task_instance) gomap" where
  "freeze_tasks h d [] = Inr []"
| "freeze_tasks h d (i # is) =
     (case hub_Content h i of
        Inl err \<Rightarrow> Inl (ReadFailed (''read task '' @ i @ '': '' @ err))
      | Inr body \<Rightarrow> (case freeze_tasks h d is of Inl e \<Rightarrow> Inl e | Inr ts \<Rightarrow> Inr ((i, new_task h d i body) # ts)))"

text \<open>The one repository the creator's runners offer, if the policy names none.\<close>

definition offered_repos :: "autopilot_policy \<Rightarrow> runner list \<Rightarrow> string list" where
  "offered_repos pol owned =
     remdups (concat (map (\<lambda>r. case runner_Info r of
         None \<Rightarrow> []
       | Some info \<Rightarrow> if ap_RunnerID pol \<noteq> [] \<and> runner_ID r \<noteq> ap_RunnerID pol then [] else map repo_ID (info_Repos info)) owned))"

definition pick_repo :: "string + runner list \<Rightarrow> autopilot_policy \<Rightarrow> action_error + autopilot_policy" where
  "pick_repo answer pol =
     (if ap_RepoID pol \<noteq> [] then Inr pol
      else (case answer of
          Inl err \<Rightarrow> Inl (HubError err)
        | Inr owned \<Rightarrow>
            (case offered_repos pol owned of
               [one] \<Rightarrow> Inr (pol\<lparr>ap_RepoID := one\<rparr>)
             | repos \<Rightarrow>
                 Inl (InvalidAction (''choose the repository the tasks change (repoId): your runners offer '' @ itoa (length repos))))))"

record create_input =
  ci_ID :: string
  ci_Project :: string
  ci_GoalNodeID :: string
  ci_Policy :: autopilot_policy
  ci_ActorID :: string
  ci_ActorName :: string
  ci_SteppedUpAt :: string

definition new_record :: "create_input \<Rightarrow> autopilot_policy \<Rightarrow> workflow option \<Rightarrow> goal_phase \<Rightarrow> autopilot_record" where
  "new_record inp pol flow phase =
     \<lparr>ar_ID = ci_ID inp, ar_Project = ci_Project inp, ar_GoalNodeID = ci_GoalNodeID inp, ar_Status = AutopilotRunning,
      ar_Policy = pol, ar_Reason = [], ar_CreatedBy = ci_ActorID inp,
      ar_CreatedByName = (if ci_ActorName inp = [] then ci_ActorID inp else ci_ActorName inp),
      ar_FinishedAt = [], ar_GoalPhase = phase, ar_QARound = 0, ar_QARunID = [], ar_SteppedUpAt = ci_SteppedUpAt inp,
      ar_Workflow = flow, ar_PlanRunID = []\<rparr>"

definition check_goal :: "graph \<Rightarrow> string \<Rightarrow> action_error + node" where
  "check_goal g goal =
     (case NodeByID g goal of
        None \<Rightarrow> Inl NotFound
      | Some n \<Rightarrow>
          let ty = TypeOf (Some g) (Some n) in
          if nt_AgentMode ty \<noteq> AgentDispatch \<and> nt_AgentMode ty \<noteq> AgentAutopilot
          then Inl (NotAGoal (''a '' @ nt_Label ty @ '' node cannot be an Autopilot goal'')) else Inr n)"

definition Create :: "(nat \<Rightarrow> bool) \<Rightarrow> hub \<Rightarrow> graph \<Rightarrow> create_input \<Rightarrow> action_error + autopilot" where
  "Create printable h g inp =
     (if \<not> ValidNodeID (ci_GoalNodeID inp) then Inl (InvalidAction ''goalNodeId is not a valid node id'')
      else case ValidatePolicy printable (ci_Policy inp) of
        Inl e \<Rightarrow> Inl (PolicyError e)
      | Inr pol \<Rightarrow>
          (case check_goal g (ci_GoalNodeID inp) of
             Inl e \<Rightarrow> Inl e
           | Inr goal \<Rightarrow>
               let d = buildDAG (hub_Folds h) (Some g) (ci_GoalNodeID inp);
                   flow = Normalized (EffectiveWorkflow (Some g) (ci_GoalNodeID inp));
                   phase = (case flow of Some f \<Rightarrow> initialGoalPhase f goal (length (dag_order d)) | None \<Rightarrow> NoPhase);
                   todo = length (filter (dispatchable d) (dag_order d))
               in if dag_order d = [] \<and> (phase = NoPhase \<or> phase = GoalPhaseTasks)
                  then Inl (InvalidAction ''the goal has no tasks yet: break it down first (a plan run, or tasks wired into it)'')
                  else if todo > MaxAutopilotTasks
                  then Inl (InvalidAction (''the goal has '' @ itoa todo @ '' tasks; an autopilot works at most '' @
                              itoa MaxAutopilotTasks @ '': split the goal''))
                  else (case freeze_tasks h d (dag_order d) of
                      Inl e \<Rightarrow> Inl e
                    | Inr tasks \<Rightarrow>
                        (case pick_repo (hub_Owned h (ci_GoalNodeID inp)) pol of
                           Inl e \<Rightarrow> Inl e
                         | Inr pol \<Rightarrow> Inr \<lparr>au_rec = new_record inp pol flow phase, au_tasks = tasks\<rparr>))))"

section \<open>Pause, resume, cancel\<close>

definition setStatus :: "autopilot_status \<Rightarrow> autopilot_status \<Rightarrow> string \<Rightarrow> autopilot \<Rightarrow> action_error + autopilot" where
  "setStatus src to reason a =
     (if ar_Status (au_rec a) \<noteq> src then Inl (ConflictWith ''the autopilot is in another state'')
      else Inr (a\<lparr>au_rec := (au_rec a)\<lparr>ar_Status := to, ar_Reason := reason\<rparr>\<rparr>))"

definition Pause :: "autopilot \<Rightarrow> action_error + autopilot" where
  "Pause = setStatus AutopilotRunning AutopilotPaused ''paused''"

definition Resume :: "string + bool \<Rightarrow> autopilot \<Rightarrow> action_error + autopilot" where
  "Resume may a =
     (case may of
        Inl err \<Rightarrow> Inl (HubError err)
      | Inr ok \<Rightarrow> if \<not> ok then Inl LostAccess else setStatus AutopilotPaused AutopilotRunning [] a)"

definition stopTry :: "string \<Rightarrow> task_instance \<Rightarrow> hub_call list" where
  "stopTry reason t =
     (if ti_PipelineID t \<noteq> [] then [CancelPipelineRun (ti_PipelineID t) reason]
      else if ti_RunID t \<noteq> [] then [CancelOneRun (ti_RunID t) reason] else [])"

definition cancel_task :: "task_instance \<Rightarrow> task_instance" where
  "cancel_task t =
     (if final1 (ti_State t) then t
      else (setState TaskSkipped NoStage ''the autopilot was cancelled'' t)\<lparr>ti_Hold := NoHold\<rparr>)"

definition Cancel :: "string \<Rightarrow> work \<Rightarrow> action_error + work" where
  "Cancel reason w =
     (if final_status (ar_Status (w_rec w)) then Inl (ConflictWith ''the autopilot already ended'')
      else Inr (on_rec (\<lambda>r. r\<lparr>ar_Status := AutopilotCancelled, ar_Reason := firstNonEmpty [reason, ''cancelled'']\<rparr>)
        (w\<lparr>w_tasks := map (\<lambda>(i, t). (i, cancel_task t)) (w_tasks w),
           w_calls := w_calls w @
             concat (map (\<lambda>(i, t). if final1 (ti_State t) then [] else stopTry ''autopilot cancelled'' t) (w_tasks w))\<rparr>)))"

section \<open>Acting on one task\<close>

definition clear :: "string \<Rightarrow> task_instance \<Rightarrow> task_instance" where
  "clear reason t =
     (setState TaskNone NoStage reason
        (t\<lparr>ti_RunID := [], ti_PipelineID := [], ti_PRURL := [], ti_CIStatus := [], ti_HumanVerdict := [], ti_Advisor := [],
           ti_Votes := [], ti_Stages := [], ti_Hold := NoHold\<rparr>))\<lparr>ti_Stage := NoStage\<rparr>"

definition clear_upstream_failed :: "work \<Rightarrow> work" where
  "clear_upstream_failed w =
     w\<lparr>w_tasks := map (\<lambda>(i, t). (i, if ti_State t = TaskUpstreamFailed then clear [] t else t)) (w_tasks w)\<rparr>"

definition reopen :: "work \<Rightarrow> work" where
  "reopen w =
     on_rec (\<lambda>r. if final_status (ar_Status r)
                  then r\<lparr>ar_Status := AutopilotRunning, ar_Reason := [], ar_FinishedAt := []\<rparr> else r) w"

definition taskAction :: "string \<Rightarrow> (work \<Rightarrow> task_instance \<Rightarrow> action_error + work) \<Rightarrow> work \<Rightarrow> action_error + work" where
  "taskAction i f w =
     (case task_at w i of
        None \<Rightarrow> Inl NotFound
      | Some t \<Rightarrow>
          if ar_Status (w_rec w) = AutopilotCancelled
          then Inl (ConflictWith ''the autopilot was cancelled; start a new one'')
          else (case f w t of Inl e \<Rightarrow> Inl e | Inr w' \<Rightarrow> Inr (reopen w')))"

definition may_retry :: "dag \<Rightarrow> string \<Rightarrow> task_instance \<Rightarrow> action_error option" where
  "may_retry d i t =
     (if ti_State t = TaskFailed \<or> ti_State t = TaskUpstreamFailed \<or> ti_State t = TaskSkipped then None
      else if ti_Hold t = HoldChanged \<or> ti_Hold t = HoldRemoved then
        (if map_of (dag_nodes d) i = None
         then Some (ConflictWith ''the task is no longer part of the goal; skip it instead'') else None)
      else Some (ConflictWith ''only a failed, skipped or held task can be retried''))"

text \<open>A changed task is retried with the content it has now.\<close>

definition repin :: "hub \<Rightarrow> dag \<Rightarrow> string \<Rightarrow> string \<Rightarrow> task_instance \<Rightarrow> task_instance" where
  "repin h d i body t = t\<lparr>ti_ContentHash := hub_Hash h (dag_title d i) body\<rparr>"

definition retry_action :: "hub \<Rightarrow> string \<Rightarrow> work \<Rightarrow> task_instance \<Rightarrow> action_error + work" where
  "retry_action h i w t =
     (case may_retry (w_dag w) i t of
        Some e \<Rightarrow> Inl e
      | None \<Rightarrow>
          if ti_Hold t = HoldChanged then
            (case hub_Content h i of
               Inl err \<Rightarrow> Inl (HubError err)
             | Inr body \<Rightarrow> Inr (clear_upstream_failed (put_task i (clear [] (repin h (w_dag w) i body t)) w)))
          else Inr (clear_upstream_failed (put_task i (clear [] t) w)))"

definition Retry :: "hub \<Rightarrow> string \<Rightarrow> work \<Rightarrow> action_error + work" where
  "Retry h i = taskAction i (retry_action h i)"

definition skip_task :: "task_instance \<Rightarrow> task_instance" where
  "skip_task t = (setState TaskSkipped NoStage ''skipped by a person'' t)\<lparr>ti_Hold := NoHold\<rparr>"

definition skip_calls :: "task_instance \<Rightarrow> hub_call list" where
  "skip_calls t = (if final1 (ti_State t) then [] else stopTry ''skipped in the autopilot'' t)"

definition skip_action :: "string \<Rightarrow> work \<Rightarrow> task_instance \<Rightarrow> action_error + work" where
  "skip_action i w t =
     (if ti_State t = TaskSuccess \<or> ti_State t = TaskSkipped then Inl (ConflictWith ''the task already ended'')
      else Inr (clear_upstream_failed (put_task i (skip_task t) (w\<lparr>w_calls := w_calls w @ skip_calls t\<rparr>))))"

definition Skip :: "string \<Rightarrow> work \<Rightarrow> action_error + work" where
  "Skip i = taskAction i (skip_action i)"

text \<open>A person's review. \<open>who\<close> and \<open>name\<close> are the reviewer, \<open>admin\<close> whether they administer the workspace.\<close>

definition review_text :: "string \<Rightarrow> string" where
  "review_text comment = humanChangesPrefix @ firstNonEmpty [trim_space comment, ''(no comment)'']"

definition review_hold :: "string \<Rightarrow> string \<Rightarrow> string \<Rightarrow> string \<Rightarrow> string \<Rightarrow> work \<Rightarrow> task_instance \<Rightarrow> action_error + work" where
  "review_hold i who name verdict comment w t =
     (if ti_Hold t \<noteq> HoldSensitive \<or> ti_State t \<noteq> TaskWaitingHuman
      then Inl (ConflictWith ''the task is not waiting for a review'')
      else if verdict = VerdictApprove
      then Inr (put_task i (t\<lparr>ti_HumanVerdict := verdict, ti_Reason := ''merge approved by '' @ firstNonEmpty [name, who]\<rparr>) w)
      else Inr (put_task i (clear (review_text comment) t) w))"

definition reviewHold :: "string \<Rightarrow> string \<Rightarrow> string \<Rightarrow> bool \<Rightarrow> string \<Rightarrow> string \<Rightarrow> work \<Rightarrow> action_error + work" where
  "reviewHold i who name admin verdict comment w =
     (if \<not> admin \<and> ar_CreatedBy (w_rec w) \<noteq> who then Inl NotFound
      else taskAction i (review_hold i who name verdict comment) w)"

text \<open>A task whose pipeline waits for a person is decided by the pipeline, a task without one here.\<close>

definition review_pipeline :: "hub \<Rightarrow> task_instance \<Rightarrow> string \<Rightarrow> bool \<Rightarrow> string \<Rightarrow> string \<Rightarrow> work \<Rightarrow> action_error + work" where
  "review_pipeline h t who allowed verdict comment w =
     (if \<not> allowed \<and> (case hub_Pipeline h (ti_PipelineID t) of Inl err \<Rightarrow> True | Inr p \<Rightarrow> pr_OwnerID p \<noteq> who) then Inl NotFound
      else if ti_State t \<noteq> TaskWaitingHuman then Inl (ConflictWith ''the task is not waiting for a review'')
      else (case hub_HumanReview h (ti_PipelineID t) verdict of
          Some err \<Rightarrow> Inl (HubError err)
        | None \<Rightarrow> Inr (log_call (PipelineVerdict (ti_PipelineID t) verdict comment) w)))"

definition review_task :: "string \<Rightarrow> string \<Rightarrow> string \<Rightarrow> work \<Rightarrow> task_instance \<Rightarrow> action_error + work" where
  "review_task i verdict comment w t =
     (if ti_State t \<noteq> TaskWaitingHuman then Inl (ConflictWith ''the task is not waiting for a review'')
      else if verdict = VerdictApprove then Inr (put_task i (t\<lparr>ti_HumanVerdict := verdict\<rparr>) w)
      else Inr (put_task i (clear (review_text comment) t) w))"

definition Review :: "hub \<Rightarrow> string \<Rightarrow> string \<Rightarrow> string \<Rightarrow> bool \<Rightarrow> string \<Rightarrow> string \<Rightarrow> work \<Rightarrow> action_error + work" where
  "Review h i who name admin verdict0 comment w =
     (let verdict = trim_space verdict0;
          allowed = (admin \<or> ar_CreatedBy (w_rec w) = who \<or> rp_AnyEditor (ap_Review (ar_Policy (w_rec w))))
      in if verdict \<noteq> VerdictApprove \<and> verdict \<noteq> VerdictChanges
         then Inl (InvalidAction ''verdict must be \"approve\" or \"changes\"'')
         else if length comment > 8192 then Inl (InvalidAction ''the comment is at most 8192 bytes'')
         else case task_at w i of
           Some t \<Rightarrow>
             if ti_Hold t \<noteq> NoHold then reviewHold i who name admin verdict comment w
             else if pipelineHandlesHuman \<and> ti_PipelineID t \<noteq> [] then review_pipeline h t who allowed verdict comment w
             else if \<not> allowed then Inl NotFound
             else taskAction i (review_task i verdict comment) w
         | None \<Rightarrow> Inl NotFound)"

section \<open>Taking in a revised goal\<close>

fun adopt_new :: "hub \<Rightarrow> string list \<Rightarrow> work \<Rightarrow> action_error + work" where
  "adopt_new h [] w = Inr w"
| "adopt_new h (i # is) w =
     (if task_at w i \<noteq> None then adopt_new h is w
      else (case hub_Content h i of
          Inl err \<Rightarrow> Inl (ReadFailed (''read task '' @ i @ '': '' @ err))
        | Inr body \<Rightarrow> adopt_new h is (put_task i (new_task h (w_dag w) i body) w)))"

definition adopt_task :: "hub \<Rightarrow> work \<Rightarrow> string \<Rightarrow> task_instance \<Rightarrow> action_error + task_instance" where
  "adopt_task h w i t =
     (if final1 (ti_State t) \<or> ti_RunID t \<noteq> [] \<or> ti_PipelineID t \<noteq> [] then Inr t
      else if map_of (dag_nodes (w_dag w)) i = None
      then Inr (setState TaskSkipped NoStage ''left the goal in a revision'' (t\<lparr>ti_Hold := NoHold\<rparr>))
      else if skippedOnBoard (board_status w i)
      then Inr (setState TaskSkipped StageDone (board_status w i @ '' on the board'') (t\<lparr>ti_Hold := NoHold\<rparr>))
      else (case hub_Content h i of
          Inl err \<Rightarrow> Inl (ReadFailed (''read task '' @ i @ '': '' @ err))
        | Inr body \<Rightarrow>
            let t = t\<lparr>ti_ContentHash := hub_Hash h (dag_title (w_dag w) i) body\<rparr> in
            Inr (if ti_Hold t = HoldChanged \<or> ti_Hold t = HoldRemoved
                 then setState TaskNone NoStage [] (t\<lparr>ti_Hold := NoHold, ti_Stage := NoStage\<rparr>) else t)))"

fun adopt_each :: "hub \<Rightarrow> string list \<Rightarrow> work \<Rightarrow> action_error + work" where
  "adopt_each h [] w = Inr w"
| "adopt_each h (i # is) w =
     (case task_at w i of
        None \<Rightarrow> adopt_each h is w
      | Some t \<Rightarrow> (case adopt_task h w i t of Inl e \<Rightarrow> Inl e | Inr t' \<Rightarrow> adopt_each h is (put_task i t' w)))"

definition Adopt :: "hub \<Rightarrow> string + bool \<Rightarrow> work \<Rightarrow> action_error + work" where
  "Adopt h may w =
     (case may of
        Inl err \<Rightarrow> Inl (HubError err)
      | Inr ok \<Rightarrow>
          if \<not> ok then Inl LostAccess
          else if ar_Status (w_rec w) \<noteq> AutopilotPaused
          then Inl (ConflictWith ''only a paused autopilot takes the goal's revised tasks'')
          else (case adopt_new h (dag_order (w_dag w)) w of
              Inl e \<Rightarrow> Inl e
            | Inr w1 \<Rightarrow>
                (case adopt_each h (sortedIDs (w_tasks w1)) w1 of
                   Inl e \<Rightarrow> Inl e
                 | Inr w2 \<Rightarrow>
                     let todo = length (filter (\<lambda>i. map_of (dag_nodes (w_dag w)) i \<noteq> None \<and> dispatchable (w_dag w) i)
                                  (sortedIDs (w_tasks w1)))
                     in if todo > MaxAutopilotTasks
                        then Inl (InvalidAction (''the revised goal has '' @ itoa todo @ '' tasks; an autopilot works at most '' @
                                    itoa MaxAutopilotTasks @ '': split the goal''))
                        else Inr (on_rec (\<lambda>r. r\<lparr>ar_Status := AutopilotRunning, ar_Reason := []\<rparr>) w2))))"

section \<open>The view\<close>

definition add_count :: "task_instance \<Rightarrow> task_counts \<Rightarrow> task_counts" where
  "add_count t c0 =
     (let c = c0\<lparr>tc_Total := tc_Total c0 + 1\<rparr> in
      case ti_State t of
        TaskSuccess \<Rightarrow> c\<lparr>tc_Success := tc_Success c + 1\<rparr>
      | TaskRunning \<Rightarrow> c\<lparr>tc_Running := tc_Running c + 1\<rparr>
      | TaskQueued \<Rightarrow> c\<lparr>tc_Running := tc_Running c + 1\<rparr>
      | TaskWaitingReview \<Rightarrow> c\<lparr>tc_Waiting := tc_Waiting c + 1\<rparr>
      | TaskWaitingHuman \<Rightarrow> c\<lparr>tc_Waiting := tc_Waiting c + 1\<rparr>
      | TaskFailed \<Rightarrow> c\<lparr>tc_Failed := tc_Failed c + 1\<rparr>
      | TaskUpstreamFailed \<Rightarrow> c\<lparr>tc_Failed := tc_Failed c + 1\<rparr>
      | TaskSkipped \<Rightarrow> c\<lparr>tc_Skipped := tc_Skipped c + 1\<rparr>
      | _ \<Rightarrow> c\<lparr>tc_Pending := tc_Pending c + 1\<rparr>)"

definition count_tasks :: "task_instance list \<Rightarrow> task_counts" where
  "count_tasks ts =
     fold add_count ts
       \<lparr>tc_Total = 0, tc_Success = 0, tc_Running = 0, tc_Waiting = 0, tc_Failed = 0, tc_Pending = 0, tc_Skipped = 0\<rparr>"

end
