(* ===== verification/Autopilot_Reach.thy ===== *)
theory Autopilot_Reach
  imports Autopilot_Steps Autopilot_Actions
begin

text \<open>
  An autopilot over its whole life: created, passed over again and again while the board, the runners and the runs
  change, and acted on by people in between. What it ever starts is content that was accepted for that task.
\<close>

section \<open>A life\<close>

record life =
  lf_pilot :: autopilot
  lf_accepted :: "(string \<times> string) set"
  lf_calls :: "hub_call list"

text \<open>The contents a task set is pinned to.\<close>

definition pins :: "(string, task_instance) gomap \<Rightarrow> (string \<times> string) set" where
  "pins m = {(i, ti_ContentHash t) | i t. map_of m i = Some t}"

text \<open>The pins of the tasks that joined.\<close>

definition new_pins :: "(string, task_instance) gomap \<Rightarrow> (string, task_instance) gomap \<Rightarrow> (string \<times> string) set" where
  "new_pins m m' = {(i, ti_ContentHash t) | i t. map_of m i = None \<and> map_of m' i = Some t}"

definition after :: "life \<Rightarrow> (string \<times> string) set \<Rightarrow> work \<Rightarrow> life" where
  "after l acc w = \<lparr>lf_pilot = saved w, lf_accepted = lf_accepted l \<union> acc, lf_calls = lf_calls l @ w_calls w\<rparr>"

text \<open>
  The steps. Content is accepted when the autopilot is created, when a pass takes a task in, when a person retries one
  task and when a person adopts a revised goal; skipping, reviewing, cancelling, pausing and resuming accept none.
  The hub, the board, the run states and the clock are others at every step; the hash is one function.
\<close>

inductive lives :: "(string \<Rightarrow> string \<Rightarrow> string) \<Rightarrow> life \<Rightarrow> bool" for hash where
  created: "Create printable h g inp = Inr a \<Longrightarrow> hub_Hash h = hash \<Longrightarrow>
    lives hash \<lparr>lf_pilot = a, lf_accepted = pins (au_tasks a), lf_calls = []\<rparr>"
| pass: "lives hash l \<Longrightarrow> hub_Hash h = hash \<Longrightarrow> reconcile h may (load h g rs now (lf_pilot l)) = Some w \<Longrightarrow>
    lives hash (after l (new_pins (au_tasks (lf_pilot l)) (w_tasks w)) w)"
| retried: "lives hash l \<Longrightarrow> hub_Hash h = hash \<Longrightarrow> Retry h i (load h g rs now (lf_pilot l)) = Inr w \<Longrightarrow>
    lives hash (after l {x \<in> pins (w_tasks w). fst x = i} w)"
| adopted: "lives hash l \<Longrightarrow> hub_Hash h = hash \<Longrightarrow> Adopt h allowed (load h g rs now (lf_pilot l)) = Inr w \<Longrightarrow>
    lives hash (after l (pins (w_tasks w)) w)"
| skipped: "lives hash l \<Longrightarrow> Skip i (load h g rs now (lf_pilot l)) = Inr w \<Longrightarrow> lives hash (after l {} w)"
| reviewed: "lives hash l \<Longrightarrow> Review h i who name admin verdict comment (load h g rs now (lf_pilot l)) = Inr w \<Longrightarrow>
    lives hash (after l {} w)"
| cancelled: "lives hash l \<Longrightarrow> Cancel reason (load h g rs now (lf_pilot l)) = Inr w \<Longrightarrow> lives hash (after l {} w)"
| paused: "lives hash l \<Longrightarrow> Pause (lf_pilot l) = Inr a \<Longrightarrow> lives hash (l\<lparr>lf_pilot := a\<rparr>)"
| resumed: "lives hash l \<Longrightarrow> Resume allowed (lf_pilot l) = Inr a \<Longrightarrow> lives hash (l\<lparr>lf_pilot := a\<rparr>)"

section \<open>What holds throughout\<close>

definition good_tasks :: "(string \<times> string) set \<Rightarrow> (string, task_instance) gomap \<Rightarrow> bool" where
  "good_tasks acc m \<longleftrightarrow>
     distinct (map fst m) \<and> (\<forall>i t. map_of m i = Some t \<longrightarrow> joined_ok t \<and> (i, ti_ContentHash t) \<in> acc)"

definition good_calls :: "(string \<Rightarrow> string \<Rightarrow> string) \<Rightarrow> (string \<times> string) set \<Rightarrow> hub_call list \<Rightarrow> bool" where
  "good_calls hash acc cs \<longleftrightarrow>
     (\<forall>req. StartRun req \<in> set cs \<longrightarrow> sq_Kind req = JobImplement \<longrightarrow>
        (\<exists>title. (sq_NodeID req, hash title (sq_Content req)) \<in> acc))"

definition good_life :: "(string \<Rightarrow> string \<Rightarrow> string) \<Rightarrow> life \<Rightarrow> bool" where
  "good_life hash l \<longleftrightarrow> good_tasks (lf_accepted l) (au_tasks (lf_pilot l)) \<and> good_calls hash (lf_accepted l) (lf_calls l)"

text \<open>A step that changes single tasks and starts nothing.\<close>

definition edited :: "task_instance \<Rightarrow> task_instance \<Rightarrow> bool" where
  "edited t t' \<longleftrightarrow> (joined_ok t \<longrightarrow> joined_ok t') \<and> ti_ContentHash t' = ti_ContentHash t"

interpretation edit: task_relation edited
  by unfold_locales (simp_all add: edited_def)

lemma load_simps [simp]:
  "w_tasks (load h g rs now a) = au_tasks a" "w_calls (load h g rs now a) = []" "w_rec (load h g rs now a) = au_rec a"
  by (simp_all add: load_def)

lemma saved_simps [simp]: "au_tasks (saved w) = w_tasks w" "au_rec (saved w) = w_rec w"
  by (simp_all add: saved_def)

lemma good_calls_append: "good_calls hash acc (cs @ cs') \<longleftrightarrow> good_calls hash acc cs \<and> good_calls hash acc cs'"
  by (auto simp: good_calls_def)

lemma good_calls_mono: "good_calls hash acc cs \<Longrightarrow> acc \<subseteq> acc' \<Longrightarrow> good_calls hash acc' cs"
  by (force simp: good_calls_def)

lemma good_life_after:
  assumes "good_life hash l" "good_tasks (lf_accepted l \<union> acc) (w_tasks w)" "good_calls hash (lf_accepted l \<union> acc) (w_calls w)"
  shows "good_life hash (after l acc w)"
  using assms good_calls_mono [of hash "lf_accepted l" "lf_calls l" "lf_accepted l \<union> acc"]
  by (simp add: good_life_def after_def good_calls_append)

lemma pass_good:
  assumes hash: "hash_ok hash" "hub_Hash h = hash" and l: "good_life hash l"
    and r: "reconcile h may (load h g rs now (lf_pilot l)) = Some w"
  shows "good_life hash (after l (new_pins (au_tasks (lf_pilot l)) (w_tasks w)) w)"
proof -
  let ?w = "load h g rs now (lf_pilot l)" and ?acc = "lf_accepted l \<union> new_pins (au_tasks (lf_pilot l)) (w_tasks w)"
  have t: "distinct (map fst (w_tasks ?w))"
    "\<And>i t. task_at ?w i = Some t \<Longrightarrow> joined_ok t \<and> (i, ti_ContentHash t) \<in> lf_accepted l"
    using l by (auto simp: good_life_def good_tasks_def)
  have p: "passed hash ?w w" using reconcile_passed [OF r] hash t by (simp add: tasks_ok_def joined_ok_def)
  have pin: "joined_ok t' \<and> (i, ti_ContentHash t') \<in> ?acc" if t': "task_at w i = Some t'" for i t'
  proof (cases "task_at ?w i")
    case None
    then show ?thesis using p t' by (auto simp: passed_def new_pins_def)
  next
    case (Some t)
    then have "kept t t'" using p t' unfolding passed_def by (metis option.inject)
    then show ?thesis using t(2) [OF Some] by (auto simp: kept_def joined_ok_def)
  qed
  then have "good_tasks ?acc (w_tasks w)" using p t(1) by (auto simp: good_tasks_def passed_def)
  moreover have "good_calls hash ?acc (w_calls w)"
    using p pin unfolding good_calls_def passed_def pinned_def by (metis append_Nil load_simps(2))
  ultimately show ?thesis using good_life_after [OF l] by simp
qed

section \<open>Task sets\<close>

lemma good_tasks_put:
  "good_tasks acc m \<Longrightarrow> joined_ok t \<Longrightarrow> (i, ti_ContentHash t) \<in> acc \<Longrightarrow> good_tasks acc (gomap_put i t m)"
  by (auto simp: good_tasks_def distinct_put map_of_gomap_put)

lemma good_tasks_mono: "good_tasks acc m \<Longrightarrow> acc \<subseteq> acc' \<Longrightarrow> good_tasks acc' m"
  by (auto simp: good_tasks_def)

lemma good_tasks_edited:
  assumes "good_tasks acc (w_tasks w)" "each_task edited w w'"
  shows "good_tasks acc (w_tasks w')"
proof -
  have "joined_ok t' \<and> (i, ti_ContentHash t') \<in> acc" if "task_at w' i = Some t'" for i t'
  proof -
    have "task_at w i \<noteq> None" using each_task_None [OF assms(2), of i] that by simp
    then obtain t where "task_at w i = Some t" by blast
    then show ?thesis using assms that each_task_at [OF assms(2)] by (fastforce simp: good_tasks_def edited_def)
  qed
  then show ?thesis using assms each_task_keys [OF assms(2)] by (simp add: good_tasks_def)
qed

text \<open>Of what was accepted, the pins of the tasks are enough.\<close>

lemma good_tasks_pins: "good_tasks (acc \<union> B) m \<Longrightarrow> good_tasks (acc \<union> {x \<in> pins m. x \<in> B}) m"
  unfolding good_tasks_def pins_def by blast

lemma cleared_ok [simp]: "joined_ok (clear r t) = (ti_ContentHash t \<noteq> [])" "ti_ContentHash (clear r t) = ti_ContentHash t"
  by (simp_all add: clear_def joined_ok_def task_ok_def never_started_def)

lemma clear_edited: "edited t (clear r t)"
  by (simp add: edited_def) (simp add: joined_ok_def)

lemma clear_upstream_failed_edited:
  "each_task edited w (clear_upstream_failed w)" "w_calls (clear_upstream_failed w) = w_calls w"
proof -
  have "each_task edited w (w\<lparr>w_tasks := map (\<lambda>(i, t). (i, if ti_State t = TaskUpstreamFailed then clear [] t else t)) (w_tasks w)\<rparr>)"
    by (rule edit.mapped) (simp_all add: clear_edited edit.refl)
  then show "each_task edited w (clear_upstream_failed w)" "w_calls (clear_upstream_failed w) = w_calls w"
    by (simp_all add: clear_upstream_failed_def)
qed

lemma reopen_simps [simp]: "w_tasks (reopen w) = w_tasks w" "w_calls (reopen w) = w_calls w"
  by (simp_all add: reopen_def on_rec_def)

lemma taskAction_cases:
  assumes "taskAction i f w = Inr w'"
  obtains t w1 where "task_at w i = Some t" "f w t = Inr w1" "w' = reopen w1" "ar_Status (w_rec w) \<noteq> AutopilotCancelled"
  using assms by (auto simp: taskAction_def split: option.splits if_splits sum.splits)

section \<open>What people do\<close>

lemma ended_edited: "edited t ((setState st g r t)\<lparr>ti_Hold := NoHold\<rparr>)" if "st = TaskSkipped"
  using that by (auto simp: edited_def joined_ok_def task_ok_def waiting_def)

lemma stopTry_stops: "c \<in> set (stopTry r t) \<Longrightarrow> c \<noteq> StartRun req"
  by (auto simp: stopTry_def split: if_splits)

lemma retry_good:
  assumes r: "Retry h i w = Inr w'" and good: "good_tasks acc (w_tasks w)" and hash: "hash_ok (hub_Hash h)"
  shows "good_tasks (acc \<union> {x. fst x = i}) (w_tasks w')" "w_calls w' = w_calls w"
proof -
  obtain t w1 where t: "task_at w i = Some t" "w' = reopen w1" and act: "retry_action h i w t = Inr w1"
    using r unfolding Retry_def by (rule taskAction_cases) blast
  have "ti_ContentHash t \<noteq> []" using good t(1) by (simp add: good_tasks_def joined_ok_def)
  moreover have "ti_ContentHash (repin h (w_dag w) i body t) \<noteq> []" for body
    using hash unfolding hash_ok_def repin_def by simp
  ultimately obtain u where u: "ti_ContentHash u \<noteq> []" "w1 = clear_upstream_failed (put_task i (clear [] u) w)"
    using act unfolding retry_action_def by (auto split: option.splits if_splits sum.splits)
  have "good_tasks (acc \<union> {x. fst x = i}) (w_tasks (put_task i (clear [] u) w))"
    using good_tasks_put good_tasks_mono [OF good] u(1) by simp
  from good_tasks_edited [OF this clear_upstream_failed_edited(1)]
  show "good_tasks (acc \<union> {x. fst x = i}) (w_tasks w')" "w_calls w' = w_calls w"
    by (simp_all add: t(2) u(2) clear_upstream_failed_edited(2))
qed

lemma skip_good:
  assumes "Skip i w = Inr w'" "good_tasks acc (w_tasks w)"
  shows "good_tasks acc (w_tasks w')" "\<exists>cs. w_calls w' = w_calls w @ cs \<and> (\<forall>req. StartRun req \<notin> set cs)"
proof -
  obtain t w1 where t: "task_at w i = Some t" "w' = reopen w1" and act: "skip_action i w t = Inr w1"
    using assms(1) unfolding Skip_def by (rule taskAction_cases) blast
  have w': "w' = reopen (clear_upstream_failed (put_task i (skip_task t) (w\<lparr>w_calls := w_calls w @ skip_calls t\<rparr>)))"
    using act t(2) unfolding skip_action_def by (simp split: if_splits)
  have "\<forall>req. StartRun req \<notin> set (skip_calls t)" by (auto simp: skip_calls_def dest: stopTry_stops split: if_splits)
  moreover have "edited t (skip_task t)" unfolding skip_task_def by (rule ended_edited [OF refl])
  then have "each_task edited w (put_task i (skip_task t) (w\<lparr>w_calls := w_calls w @ skip_calls t\<rparr>))"
    using edit.put [OF t(1)] by (simp add: each_task_def)
  ultimately show "good_tasks acc (w_tasks w')" "\<exists>cs. w_calls w' = w_calls w @ cs \<and> (\<forall>req. StartRun req \<notin> set cs)"
    using good_tasks_edited [OF good_tasks_edited [OF assms(2)] clear_upstream_failed_edited(1)]
    by (auto simp: w' clear_upstream_failed_edited(2))
qed

lemma cancel_good:
  assumes "Cancel reason w = Inr w'" "good_tasks acc (w_tasks w)"
  shows "good_tasks acc (w_tasks w')" "\<exists>cs. w_calls w' = w_calls w @ cs \<and> (\<forall>req. StartRun req \<notin> set cs)"
proof -
  have "edited t (cancel_task t)" for t using ended_edited edit.refl by (simp add: cancel_task_def)
  then have e: "each_task edited w (w\<lparr>w_tasks := map (\<lambda>(i, t). (i, cancel_task t)) (w_tasks w)\<rparr>)"
    by (intro edit.mapped) simp_all
  then show "good_tasks acc (w_tasks w')" "\<exists>cs. w_calls w' = w_calls w @ cs \<and> (\<forall>req. StartRun req \<notin> set cs)"
    using assms(1) good_tasks_edited [OF assms(2) e] stopTry_stops
    by (fastforce simp: Cancel_def on_rec_def split: if_splits)+
qed

lemma review_good:
  assumes r: "Review h i who name admin verdict comment w = Inr w'" and good: "good_tasks acc (w_tasks w)"
  shows "good_tasks acc (w_tasks w')" "\<exists>cs. w_calls w' = w_calls w @ cs \<and> (\<forall>req. StartRun req \<notin> set cs)"
proof -
  have verdict: "edited t (t\<lparr>ti_HumanVerdict := v, ti_Reason := x\<rparr>)" "edited t (t\<lparr>ti_HumanVerdict := v\<rparr>)" for t v x
    by (simp_all add: edited_def joined_ok_def task_ok_def waiting_def never_started_def)
  have put: "each_task edited w (reopen (put_task i t' w)) \<and> w_calls (reopen (put_task i t' w)) = w_calls w @ []"
    if "task_at w i = Some t" "edited t t'" for t t'
    using edit.put [OF that] by (simp add: each_task_def)
  have hold: "each_task edited w w1 \<and> w_calls w1 = w_calls w @ []" if hd: "reviewHold i who name admin v comment w = Inr w1" for w1 v
  proof -
    have act: "taskAction i (review_hold i who name v comment) w = Inr w1" using hd by (simp add: reviewHold_def split: if_splits)
    obtain t w2 where "task_at w i = Some t" "w1 = reopen w2" "review_hold i who name v comment w t = Inr w2"
      using act by (rule taskAction_cases) blast
    then show ?thesis using put verdict(1) clear_edited unfolding review_hold_def by (auto split: if_splits)
  qed
  have own: "each_task edited w w1 \<and> w_calls w1 = w_calls w @ []" if act: "taskAction i (review_task i v comment) w = Inr w1" for w1 v
  proof -
    obtain t w2 where "task_at w i = Some t" "w1 = reopen w2" "review_task i v comment w t = Inr w2"
      using act by (rule taskAction_cases) blast
    then show ?thesis using put verdict(2) clear_edited unfolding review_task_def by (auto split: if_splits)
  qed
  have pipe: "each_task edited w w1 \<and> (\<exists>cs. w_calls w1 = w_calls w @ cs \<and> (\<forall>req. StartRun req \<notin> set cs))"
    if "review_pipeline h t who allowed v comment w = Inr w1" for w1 t allowed v
    using that by (auto simp: review_pipeline_def edit.same_tasks split: if_splits option.splits)
  obtain v allowed t where "reviewHold i who name admin v comment w = Inr w' \<or> review_pipeline h t who allowed v comment w = Inr w' \<or>
      taskAction i (review_task i v comment) w = Inr w'"
    using r unfolding Review_def Let_def by (auto split: if_splits option.splits)
  then have "each_task edited w w' \<and> (\<exists>cs. w_calls w' = w_calls w @ cs \<and> (\<forall>req. StartRun req \<notin> set cs))"
    using hold own pipe by fastforce
  then show "good_tasks acc (w_tasks w')" "\<exists>cs. w_calls w' = w_calls w @ cs \<and> (\<forall>req. StartRun req \<notin> set cs)"
    using good_tasks_edited [OF good] by blast+
qed

section \<open>A revised goal\<close>

lemma new_task_ok: "hash_ok (hub_Hash h) \<Longrightarrow> joined_ok (new_task h d i body)"
  unfolding hash_ok_def by (simp add: joined_ok_def task_ok_def never_started_def new_task_def)

lemma adopt_new_good:
  assumes "hash_ok (hub_Hash h)" "adopt_new h is w = Inr w'" "good_tasks UNIV (w_tasks w)"
  shows "good_tasks UNIV (w_tasks w') \<and> w_calls w' = w_calls w"
  using assms(2,3)
proof (induction "is" arbitrary: w)
  case (Cons i "is")
  consider "adopt_new h is w = Inr w'" | body where "adopt_new h is (put_task i (new_task h (w_dag w) i body) w) = Inr w'"
    using Cons.prems(1) by (auto split: if_splits sum.splits)
  then show ?case
  proof cases
    case 1
    then show ?thesis using Cons by blast
  next
    case (2 body)
    then show ?thesis using Cons.IH [OF 2] Cons.prems(2) good_tasks_put new_task_ok [OF assms(1)] by simp
  qed
qed simp

lemma adopt_task_ok:
  assumes "hash_ok (hub_Hash h)" "adopt_task h w i t = Inr t'" "joined_ok t"
  shows "joined_ok t'"
proof -
  have "hub_Hash h x body \<noteq> []" for x body using assms(1) unfolding hash_ok_def by blast
  then show ?thesis
    using assms(2,3)
    by (auto simp: adopt_task_def joined_ok_def task_ok_def waiting_def never_started_def Let_def split: if_splits sum.splits)
qed

lemma adopt_each_good:
  assumes "hash_ok (hub_Hash h)" "adopt_each h is w = Inr w'" "good_tasks UNIV (w_tasks w)"
  shows "good_tasks UNIV (w_tasks w') \<and> w_calls w' = w_calls w"
  using assms(2,3)
proof (induction "is" arbitrary: w)
  case (Cons i "is")
  consider "adopt_each h is w = Inr w'"
    | t t' where "task_at w i = Some t" "adopt_task h w i t = Inr t'" "adopt_each h is (put_task i t' w) = Inr w'"
    using Cons.prems(1) by (auto split: option.splits sum.splits)
  then show ?case
  proof cases
    case 1
    then show ?thesis using Cons by blast
  next
    case (2 t t')
    have "joined_ok t" using Cons.prems(2) 2(1) by (simp add: good_tasks_def)
    then have "good_tasks UNIV (w_tasks (put_task i t' w))"
      using good_tasks_put [OF Cons.prems(2)] adopt_task_ok [OF assms(1) 2(2)] by simp
    then show ?thesis using Cons.IH [OF 2(3)] by simp
  qed
qed simp

lemma adopt_good:
  assumes "Adopt h may w = Inr w'" "good_tasks UNIV (w_tasks w)" "hash_ok (hub_Hash h)"
  shows "good_tasks UNIV (w_tasks w')" "w_calls w' = w_calls w"
proof -
  obtain w1 w2 f where w1: "adopt_new h (dag_order (w_dag w)) w = Inr w1" and w2: "adopt_each h (sortedIDs (w_tasks w1)) w1 = Inr w2"
    and w': "w' = on_rec f w2"
    using assms(1) unfolding Adopt_def Let_def by (auto split: if_splits sum.splits)
  have 1: "good_tasks UNIV (w_tasks w1) \<and> w_calls w1 = w_calls w" using adopt_new_good [OF assms(3) w1 assms(2)] .
  have 2: "good_tasks UNIV (w_tasks w2) \<and> w_calls w2 = w_calls w1" using adopt_each_good [OF assms(3) w2] 1 by blast
  show "good_tasks UNIV (w_tasks w')" "w_calls w' = w_calls w" using 1 2 by (simp_all add: w' on_rec_def)
qed

lemma freeze_tasks_good:
  assumes "hash_ok (hub_Hash h)" "freeze_tasks h d is = Inr ts" "distinct is"
  shows "map fst ts = is \<and> (\<forall>(i, t)\<in>set ts. joined_ok t)"
  using assms(2,3)
proof (induction "is" arbitrary: ts)
  case (Cons i "is")
  then show ?case using new_task_ok [OF assms(1)] by (auto split: sum.splits)
qed simp

lemma create_good:
  assumes "Create printable h g inp = Inr a" "hash_ok (hub_Hash h)"
  shows "good_tasks (pins (au_tasks a)) (au_tasks a)"
proof -
  let ?d = "buildDAG (hub_Folds h) (Some g) (ci_GoalNodeID inp)"
  have goal: "NodeByID g (ci_GoalNodeID inp) \<noteq> None" and tasks: "freeze_tasks h ?d (dag_order ?d) = Inr (au_tasks a)"
    using assms(1) unfolding Create_def Let_def check_goal_def
    by (auto split: if_splits sum.splits option.splits)
  have t: "map fst (au_tasks a) = dag_order ?d" "\<forall>(i, t)\<in>set (au_tasks a). joined_ok t"
    using freeze_tasks_good [OF assms(2) tasks goal_order_distinct [OF goal]] by auto
  have "joined_ok t" if "map_of (au_tasks a) i = Some t" for i t using t(2) map_of_SomeD [OF that] by blast
  then show ?thesis using t(1) goal_order_distinct [OF goal] by (auto simp: good_tasks_def pins_def)
qed

section \<open>Every life\<close>

lemma lives_good:
  assumes "lives hash l" "hash_ok hash"
  shows "good_life hash l"
  using assms(1)
proof induction
  case (created printable h g inp a)
  then show ?case using create_good assms(2) by (auto simp: good_life_def good_calls_def)
next
  case (pass l h may g rs now w)
  then show ?case using pass_good assms(2) by blast
next
  case (retried l h i g rs now w)
  then have "good_tasks (lf_accepted l) (w_tasks (load h g rs now (lf_pilot l)))" by (simp add: good_life_def)
  note r = retry_good [OF retried.hyps(3) this]
  have "good_tasks (lf_accepted l \<union> {x \<in> pins (w_tasks w). fst x = i}) (w_tasks w)"
    using good_tasks_pins [OF r(1)] retried.hyps(2) assms(2) by simp
  then show ?case using good_life_after [OF retried.IH] r(2) retried.hyps(2) assms(2) by (simp add: good_calls_def)
next
  case (adopted l h allowed g rs now w)
  then have "good_tasks UNIV (w_tasks (load h g rs now (lf_pilot l)))" by (auto simp: good_life_def intro: good_tasks_mono)
  note r = adopt_good [OF adopted.hyps(3) this]
  have "good_tasks (lf_accepted l \<union> pins (w_tasks w)) (w_tasks w)"
    using good_tasks_pins [of "lf_accepted l" UNIV] r(1) adopted.hyps(2) assms(2) by simp
  then show ?case using good_life_after [OF adopted.IH] r(2) adopted.hyps(2) assms(2) by (simp add: good_calls_def)
next
  case (skipped l i h g rs now w)
  then have "good_tasks (lf_accepted l) (w_tasks (load h g rs now (lf_pilot l)))" by (simp add: good_life_def)
  note r = skip_good [OF skipped.hyps(2) this]
  show ?case using good_life_after [OF skipped.IH, of "{}" w] r by (fastforce simp: good_calls_def)
next
  case (reviewed l h i who name admin verdict comment g rs now w)
  then have "good_tasks (lf_accepted l) (w_tasks (load h g rs now (lf_pilot l)))" by (simp add: good_life_def)
  note r = review_good [OF reviewed.hyps(2) this]
  show ?case using good_life_after [OF reviewed.IH, of "{}" w] r by (fastforce simp: good_calls_def)
next
  case (cancelled l reason h g rs now w)
  then have "good_tasks (lf_accepted l) (w_tasks (load h g rs now (lf_pilot l)))" by (simp add: good_life_def)
  note r = cancel_good [OF cancelled.hyps(2) this]
  show ?case using good_life_after [OF cancelled.IH, of "{}" w] r by (fastforce simp: good_calls_def)
next
  case (paused l a)
  then have "au_tasks a = au_tasks (lf_pilot l)" by (auto simp: Pause_def setStatus_def split: if_splits)
  then show ?case using paused.IH by (simp add: good_life_def)
next
  case (resumed l allowed a)
  then have "au_tasks a = au_tasks (lf_pilot l)" by (auto simp: Resume_def setStatus_def split: if_splits sum.splits)
  then show ?case using resumed.IH by (simp add: good_life_def)
qed

end
