(* ===== verification/Merge_Facts.thy ===== *)
theory Merge_Facts
  imports Merge_Guard "HOL-Library.Code_Target_Nat"
begin

text \<open>
  What the checks on an agent's changes decide: a path is judged by the elements it resolves to, the diff guard reports
  exactly the touched paths, and an unattended merge goes through only when every reported change was read and none is
  sensitive.
\<close>

section \<open>Lists of paths\<close>

lemma fold_add_path:
  "set (fold (\<lambda>p out. if P p then add_path p out else out) ps out) = set out \<union> {p \<in> set ps. P p}"
  "distinct out \<Longrightarrow> distinct (fold (\<lambda>p out. if P p then add_path p out else out) ps out)"
  by (induction ps arbitrary: out) (auto simp: add_path_def)

lemma fold_change_paths:
  "set (fold (\<lambda>c. fold (\<lambda>p out. if P p then add_path p out else out) (change_paths c)) cs out) =
     set out \<union> {p. P p \<and> (\<exists>c\<in>set cs. p \<in> set (change_paths c))}"
  "distinct out \<Longrightarrow> distinct (fold (\<lambda>c. fold (\<lambda>p out. if P p then add_path p out else out) (change_paths c)) cs out)"
  by (induction cs arbitrary: out) (auto simp: fold_add_path)

lemma paths_where_exact:
  "set (paths_where P cs) = {p. P p \<and> (\<exists>c\<in>set cs. p \<in> set (change_paths c))}" "distinct (paths_where P cs)"
  unfolding paths_where_def by (simp_all add: fold_change_paths)

section \<open>Sensitive paths\<close>

text \<open>The elements a path resolves to, wherever it starts: the reference the code is compared with.\<close>

definition resolve_step :: "string \<Rightarrow> string list \<Rightarrow> string list" where
  "resolve_step seg out =
     (if seg = [] \<or> seg = ''.'' then out else if seg = ''..'' then butlast out else out @ [seg])"

definition resolved :: "string \<Rightarrow> string list" where
  "resolved p = fold resolve_step (split_on CHR ''/'' p) []"

definition sensitive_elements :: "string list \<Rightarrow> bool" where
  "sensitive_elements es \<longleftrightarrow>
     (\<exists>d\<in>set es. d \<in> set sensitiveDirs) \<or> es \<noteq> [] \<and> sensitive_base (last es)"

text \<open>\<^verbatim>\<open>path.Clean\<close> keeps the steps up that a relative path starts with, and only those, besides.\<close>

definition plain_element :: "string \<Rightarrow> bool" where
  "plain_element e \<longleftrightarrow> e \<noteq> [] \<and> e \<noteq> ''.'' \<and> e \<noteq> ''..'' \<and> CHR ''/'' \<notin> set e"

lemma split_no_sep: "e \<in> set (split_on c s) \<Longrightarrow> c \<notin> set e"
proof (induction c s arbitrary: e rule: split_on.induct)
  case (2 sep c cs)
  then show ?case by (cases "split_on sep cs") (auto split: if_splits)
qed simp

lemma clean_ups:
  assumes "\<forall>s\<in>set segs. CHR ''/'' \<notin> set s" "\<forall>e\<in>set es. plain_element e" "rooted \<longrightarrow> ups = 0"
  shows "\<exists>ups'. fold (clean_push rooted) segs (replicate ups ''..'' @ es) = replicate ups' ''..'' @ fold resolve_step segs es \<and>
    (\<forall>e\<in>set (fold resolve_step segs es). plain_element e) \<and> (rooted \<longrightarrow> ups' = 0)"
  using assms
proof (induction segs arbitrary: ups es)
  case (Cons seg segs)
  have seg: "CHR ''/'' \<notin> set seg" and segs: "\<forall>s\<in>set segs. CHR ''/'' \<notin> set s" using Cons.prems(1) by auto
  have "\<exists>ups'. clean_push rooted seg (replicate ups ''..'' @ es) = replicate ups' ''..'' @ resolve_step seg es \<and>
      (\<forall>e\<in>set (resolve_step seg es). plain_element e) \<and> (rooted \<longrightarrow> ups' = 0)"
  proof (cases "seg = [] \<or> seg = ''.''")
    case True
    then show ?thesis using Cons.prems by (auto simp: clean_push_def resolve_step_def)
  next
    case False
    note plain = this
    show ?thesis
    proof (cases "seg = ''..''")
      case False
      then show ?thesis using plain Cons.prems seg by (auto simp: clean_push_def resolve_step_def plain_element_def)
    next
      case True
      show ?thesis
      proof (cases es rule: rev_cases)
        case (snoc es' e)
        then have "e \<noteq> ''..''" using Cons.prems(2) by (simp add: plain_element_def)
        then show ?thesis using True snoc Cons.prems
          by (auto simp: clean_push_def resolve_step_def butlast_append intro!: exI [of _ ups])
      next
        case Nil
        then show ?thesis using True Cons.prems(3)
          by (cases ups) (auto simp: clean_push_def resolve_step_def replicate_append_same
              intro: exI [of _ "Suc (Suc k)" for k] exI [of _ "Suc 0"])
      qed
    qed
  qed
  then obtain ups' where step: "clean_push rooted seg (replicate ups ''..'' @ es) = replicate ups' ''..'' @ resolve_step seg es"
    "\<forall>e\<in>set (resolve_step seg es). plain_element e" "rooted \<longrightarrow> ups' = 0" by blast
  show ?case using Cons.IH [OF segs step(2,3)] step(1) by simp
qed auto

lemma clean_parts_resolved:
  obtains ups where "clean_parts p = replicate ups ''..'' @ resolved p" "\<forall>e\<in>set (resolved p). plain_element e"
    "is_rooted p \<longrightarrow> ups = 0"
  using clean_ups [of "split_on CHR ''/'' p" "[]" "is_rooted p" 0] split_no_sep [of _ "CHR ''/''" p]
  unfolding clean_parts_def resolved_def by auto

lemma split_join:
  "es \<noteq> [] \<Longrightarrow> \<forall>e\<in>set es. c \<notin> set e \<Longrightarrow> split_on c (join_with [c] es) = es"
proof (induction "[c]" es rule: join_with.induct)
  have one: "c \<notin> set x \<Longrightarrow> split_on c x = [x]" for x by (induction x) auto
  have more: "c \<notin> set x \<Longrightarrow> split_on c (x @ c # s) = x # split_on c s" for x s by (induction x) auto
  {
    case (2 x)
    then show ?case using one by simp
  next
    case (3 x y ys)
    then show ?case using more by simp
  }
qed simp

text \<open>Steps up are neither sensitive directories nor sensitive files, nor are the empty and the dot element.\<close>

lemma dots_not_sensitive:
  "''..'' \<notin> set sensitiveDirs" "''.'' \<notin> set sensitiveDirs" "[] \<notin> set sensitiveDirs"
  "\<not> sensitive_base ''..''" "\<not> sensitive_base ''.''" "\<not> sensitive_base []"
  by code_simp+

lemma judged_iff:
  "es \<noteq> [] \<Longrightarrow> (list_ex (\<lambda>d. d \<in> set sensitiveDirs) es \<or> sensitive_base (last es)) = sensitive_elements es"
  unfolding sensitive_elements_def list_ex_iff by blast

lemma harmless_first:
  "set xs \<subseteq> {x} \<Longrightarrow> x \<notin> set sensitiveDirs \<Longrightarrow> es \<noteq> [] \<Longrightarrow> sensitive_elements (xs @ es) = sensitive_elements es"
  unfolding sensitive_elements_def by auto

lemma empty_first: "es \<noteq> [] \<Longrightarrow> sensitive_elements ([] # es) = sensitive_elements es"
  using harmless_first [of "[[]]" "[]" es] dots_not_sensitive(3) by simp

lemma judged_elements:
  assumes "p \<noteq> []"
  shows "(let parts = split_on CHR ''/'' (path_Clean p) in list_ex (\<lambda>d. d \<in> set sensitiveDirs) parts \<or> sensitive_base (last parts)) =
    sensitive_elements (resolved p)"
proof -
  obtain ups where c: "clean_parts p = replicate ups ''..'' @ resolved p" "\<forall>e\<in>set (resolved p). plain_element e"
    and r: "is_rooted p \<longrightarrow> ups = 0" by (rule clean_parts_resolved)
  have nosep: "\<forall>e\<in>set (clean_parts p). CHR ''/'' \<notin> set e"
  proof
    fix e assume "e \<in> set (clean_parts p)"
    then consider "e = ''..''" | "plain_element e" unfolding c(1) using c(2) by (auto simp del: replicate.simps)
    then show "CHR ''/'' \<notin> set e" by cases (simp_all add: plain_element_def)
  qed
  have ups: "sensitive_elements (replicate n ''..'' @ resolved p) = sensitive_elements (resolved p)" for n
  proof (cases n)
    case (Suc m)
    then have n: "set (replicate n ''..'') = {''..''}" "n \<noteq> 0" by (simp_all only: set_replicate_conv_if) simp_all
    show ?thesis
    proof (cases "resolved p = []")
      case True
      have "last (replicate n ''..'' @ resolved p) = ''..''"
        unfolding True append_Nil2 by (rule last_replicate [OF n(2)])
      then show ?thesis using True n dots_not_sensitive by (simp only: sensitive_elements_def append_Nil2) simp
    next
      case False
      then show ?thesis by (rule harmless_first [OF equalityD1 [OF n(1)] dots_not_sensitive(1)])
    qed
  qed simp
  show ?thesis
  proof (cases "clean_parts p = []")
    case True
    then have "path_Clean p = (if is_rooted p then ''/'' else ''.'')" using assms by (simp add: path_Clean_def)
    then show ?thesis using True c dots_not_sensitive by (auto simp: sensitive_elements_def Let_def)
  next
    case False
    then have "split_on CHR ''/'' (path_Clean p) = (if is_rooted p then [[]] else []) @ clean_parts p"
    proof -
      have j: "split_on CHR ''/'' (join_with ''/'' (clean_parts p)) = clean_parts p" by (rule split_join [OF False nosep])
      have "path_Clean p = (if is_rooted p then CHR ''/'' # join_with ''/'' (clean_parts p) else join_with ''/'' (clean_parts p))"
        unfolding path_Clean_def append_Cons append_Nil if_not_P [OF assms] if_not_P [OF False] ..
      then show ?thesis using j by (cases "is_rooted p") (simp_all only: if_True if_False split_on.simps append_Cons append_Nil simp_thms)
    qed
    then obtain parts where parts: "split_on CHR ''/'' (path_Clean p) = parts" "parts \<noteq> []"
      "sensitive_elements parts = sensitive_elements (clean_parts p)"
      using empty_first [OF False] False by (cases "is_rooted p") simp_all
    have "sensitive_elements (clean_parts p) = sensitive_elements (resolved p)" unfolding c(1) by (rule ups)
    then show ?thesis unfolding Let_def parts(1) judged_iff [OF parts(2)] parts(3) .
  qed
qed




section \<open>The hold of a merge\<close>

text \<open>The runs that may have changed files, and what they reported.\<close>

definition changing :: "run_record \<Rightarrow> bool" where
  "changing r \<longleftrightarrow> run_Kind r = JobImplement \<or> run_Kind r = JobRevise"

definition reports :: "(string \<Rightarrow> string + run_changes option) \<Rightarrow> run_record list \<Rightarrow> run_changes set" where
  "reports changes rs = {ch. \<exists>r\<in>set rs. changing r \<and> changes (run_ID r) = Inr (Some ch)}"

definition readable :: "(string \<Rightarrow> string + run_changes option) \<Rightarrow> run_record list \<Rightarrow> bool" where
  "readable changes rs \<longleftrightarrow>
     (\<forall>r\<in>set rs. changing r \<longrightarrow> (\<exists>c. changes (run_ID r) = Inr c)) \<and>
     (\<forall>ch\<in>reports changes rs. length (rc_Files ch) < MaxChangedFiles)"

lemma reports_simps [simp]:
  "reports changes [] = {}"
  "reports changes (r # rs) =
     (if changing r then (case changes (run_ID r) of Inr (Some ch) \<Rightarrow> {ch} | _ \<Rightarrow> {}) else {}) \<union> reports changes rs"
  by (auto simp: reports_def split: sum.splits option.splits)

lemma readable_simps [simp]:
  "readable changes []"
  "readable changes (r # rs) \<longleftrightarrow>
     (changing r \<longrightarrow> (case changes (run_ID r) of
        Inl err \<Rightarrow> False | Inr None \<Rightarrow> True | Inr (Some ch) \<Rightarrow> length (rc_Files ch) < MaxChangedFiles)) \<and> readable changes rs"
  by (auto simp: readable_def split: sum.splits option.splits)

lemma scan_changes_exact:
  "(case scan_changes changes rs s of
      Inl why \<Rightarrow> \<not> readable changes rs \<and> why \<noteq> []
    | Inr s' \<Rightarrow> readable changes rs \<and>
        set (hs_touched s') = set (hs_touched s) \<union> {p. SensitivePath p \<and> (\<exists>ch\<in>reports changes rs. \<exists>c\<in>set (rc_Files ch). p \<in> set (change_paths c))} \<and>
        set (hs_commits s') = set (hs_commits s) \<union> {rc_Commit ch | ch. ch \<in> reports changes rs \<and> rc_Commit ch \<noteq> []} \<and>
        (hs_reported s' \<longleftrightarrow> hs_reported s \<or> reports changes rs \<noteq> {}))"
proof (induction rs arbitrary: s)
  case (Cons r rs)
  show ?case
  proof (cases "changing r")
    case False
    then have "scan_changes changes (r # rs) s = scan_changes changes rs s" by (simp add: changing_def)
    then show ?thesis using Cons.IH [of s] False by (simp split: sum.splits)
  next
    case True
    then have skip: "\<not> (run_Kind r \<noteq> JobImplement \<and> run_Kind r \<noteq> JobRevise)" by (auto simp: changing_def)
    consider err where "changes (run_ID r) = Inl err" | "changes (run_ID r) = Inr None"
      | ch where "changes (run_ID r) = Inr (Some ch)" "length (rc_Files ch) \<ge> MaxChangedFiles"
      | ch where "changes (run_ID r) = Inr (Some ch)" "\<not> length (rc_Files ch) \<ge> MaxChangedFiles"
      by (cases "changes (run_ID r)"; cases "the (projr (changes (run_ID r)) :: run_changes option)") fastforce+
    then show ?thesis
    proof cases
      case 1
      then have "scan_changes changes (r # rs) s = Inl (''its changed files cannot be read: '' @ err)"
        by (simp only: scan_changes.simps skip if_False 1 sum.case)
      then show ?thesis using 1 True by simp
    next
      case 2
      then have "scan_changes changes (r # rs) s = scan_changes changes rs s"
        by (simp only: scan_changes.simps skip if_False 2 sum.case option.case)
      then show ?thesis using Cons.IH [of s] 2 True by (simp split: sum.splits)
    next
      case (3 ch)
      then have "scan_changes changes (r # rs) s = Inl ''it changes too many files to check''"
        by (simp only: scan_changes.simps skip if_False if_True 3 sum.case option.case)
      then show ?thesis using 3 True by simp
    next
      case (4 ch)
      define s1 where "s1 = \<lparr>hs_touched = fold (\<lambda>c. fold (\<lambda>p out. if SensitivePath p then add_path p out else out) (change_paths c))
                             (rc_Files ch) (hs_touched s),
          hs_commits = (if rc_Commit ch \<noteq> [] then rc_Commit ch # hs_commits s else hs_commits s), hs_reported = True\<rparr>"
      have "scan_changes changes (r # rs) s = scan_changes changes rs s1"
        by (simp only: scan_changes.simps skip if_False 4 sum.case option.case s1_def)
      moreover have "set (hs_touched s1) = set (hs_touched s) \<union> {p. SensitivePath p \<and> (\<exists>c\<in>set (rc_Files ch). p \<in> set (change_paths c))}"
        "set (hs_commits s1) = set (hs_commits s) \<union> (if rc_Commit ch \<noteq> [] then {rc_Commit ch} else {})" "hs_reported s1"
        by (simp_all add: s1_def fold_change_paths)
      ultimately show ?thesis using Cons.IH [of s1] 4 True by (auto split: sum.splits)
    qed
  qed
qed simp



text \<open>A run that changed a source file and reported the commit its pull request is at.\<close>

definition sample_run :: "string \<Rightarrow> string \<Rightarrow> run_record" where
  "sample_run i status =
     \<lparr>run_ID = i, run_NodeID = [], run_RunnerName = [], run_Agent = [], run_Model = [], run_Branch = [], run_Status = status,
      run_Error = [], run_Commit = [], run_PRURL = [], run_PRState = [], run_PRError = [], run_CIStatus = [], run_PRHeadSHA = [],
      run_Merge = None, run_Kind = JobImplement, run_Verdict = [], run_RetryOf = [], run_PipelineID = [], run_RetryAt = [],
      run_VerifyPhase = None, run_Verify = None, run_Checks = [], run_CreatedAt = [], run_StartedAt = [], run_FinishedAt = []\<rparr>"

definition sample_pr :: run_record where
  "sample_pr = (sample_run ''r1'' RunSucceeded)\<lparr>run_PRURL := ''pr/1'', run_PRHeadSHA := ''abc'', run_CIStatus := CISuccess\<rparr>"

definition sample_changes :: "string \<Rightarrow> string + run_changes option" where
  "sample_changes i = Inr (Some \<lparr>rc_Commit = ''abc'', rc_Files = [\<lparr>fc_Path = ''src/main.go'', fc_OldPath = []\<rparr>]\<rparr>)"

definition sample_obs :: observation where
  "sample_obs = \<lparr>obs_runs = [sample_pr], obs_pipeline = None, obs_prRun = Some sample_pr\<rparr>"


end
