(* ===== verification/Agent_Facts.thy ===== *)
theory Agent_Facts
  imports Agent_Rules "HOL-Library.Code_Target_Nat"
begin

text \<open>
  What the rules about agents promise: which routing rule is picked, and what an accepted policy satisfies.
\<close>

section \<open>Routing\<close>

text \<open>Whether a rule applies to a node, and how near it is: the kind of match first, then the project over the workspace.\<close>

definition applies :: "(nat \<Rightarrow> nat \<Rightarrow> bool) \<Rightarrow> route_node \<Rightarrow> route_rule \<Rightarrow> bool" where
  "applies folds node rule \<longleftrightarrow>
     rr_Match rule \<in> set (routeOrder (rt_Role node)) \<and> (rr_Project rule = [] \<or> rr_Project rule = rt_Project node) \<and>
     rule_matches folds node rule"

definition nearness :: "route_node \<Rightarrow> route_rule \<Rightarrow> nat" where
  "nearness node rule =
     2 * length (takeWhile (\<lambda>m. m \<noteq> rr_Match rule) (routeOrder (rt_Role node))) + (if rr_Project rule = [] then 1 else 0)"

text \<open>The first round that a rule is taken in.\<close>

definition round_of :: "(nat \<Rightarrow> nat \<Rightarrow> bool) \<Rightarrow> route_node \<Rightarrow> (string \<times> bool) list \<Rightarrow> route_rule \<Rightarrow> nat" where
  "round_of folds node rounds rule = length (takeWhile (\<lambda>rnd. \<not> rule_in_round folds node rnd rule) rounds)"

lemma first_match_split:
  "first_match P xs = Some x \<Longrightarrow> \<exists>pre post. xs = pre @ x # post \<and> P x \<and> (\<forall>y\<in>set pre. \<not> P y)"
proof (induction xs)
  case (Cons a xs)
  show ?case
  proof (cases "P a")
    case True
    then show ?thesis using Cons.prems by (intro exI [of _ "[]"] exI [of _ xs]) auto
  next
    case False
    then obtain pre post where "xs = pre @ x # post" "P x" "\<forall>y\<in>set pre. \<not> P y" using Cons by auto
    then show ?thesis using False by (intro exI [of _ "a # pre"] exI [of _ post]) auto
  qed
qed simp

lemma first_round_Some:
  "first_round folds rules node rounds = Some r \<Longrightarrow>
     \<exists>pre post. rules = pre @ r # post \<and> (\<exists>rnd\<in>set rounds. rule_in_round folds node rnd r) \<and>
       (\<forall>x\<in>set pre. round_of folds node rounds r < round_of folds node rounds x) \<and>
       (\<forall>x\<in>set post. round_of folds node rounds r \<le> round_of folds node rounds x)"
proof (induction rounds)
  case (Cons rnd rounds)
  show ?case
  proof (cases "first_match (rule_in_round folds node rnd) rules")
    case None
    then have none: "\<not> rule_in_round folds node rnd x" if "x \<in> set rules" for x using that by simp
    obtain pre post where r: "rules = pre @ r # post" "\<exists>rnd\<in>set rounds. rule_in_round folds node rnd r"
      "\<forall>x\<in>set pre. round_of folds node rounds r < round_of folds node rounds x"
      "\<forall>x\<in>set post. round_of folds node rounds r \<le> round_of folds node rounds x"
      using Cons None by auto
    have "round_of folds node (rnd # rounds) x = Suc (round_of folds node rounds x)" if "x \<in> set rules" for x
      using none [OF that] by (simp add: round_of_def)
    then show ?thesis using r by (intro exI [of _ pre] exI [of _ post]) auto
  next
    case (Some x)
    then have "x = r" using Cons.prems by simp
    then obtain pre post where r: "rules = pre @ r # post" "rule_in_round folds node rnd r" "\<forall>y\<in>set pre. \<not> rule_in_round folds node rnd y"
      using first_match_split [OF Some] by blast
    then show ?thesis by (intro exI [of _ pre] exI [of _ post]) (auto simp: round_of_def)
  qed
qed simp

lemma first_round_None:
  "first_round folds rules node rounds = None \<longleftrightarrow> (\<forall>rnd\<in>set rounds. \<forall>x\<in>set rules. \<not> rule_in_round folds node rnd x)"
  by (induction rounds) (auto split: option.split dest: first_match_SomeD)

abbreviation rounds_for :: "string list \<Rightarrow> (string \<times> bool) list" where
  "rounds_for ms \<equiv> concat (map (\<lambda>m. [(m, True), (m, False)]) ms)"

lemma in_some_round:
  "(\<exists>rnd\<in>set (rounds_for (routeOrder (rt_Role node))). rule_in_round folds node rnd x) = applies folds node x"
  by (auto simp: rule_in_round_def applies_def)

lemma round_of_nearness:
  assumes "rule_matches folds node x" "rr_Project x = [] \<or> rr_Project x = rt_Project node" "rr_Match x \<in> set ms"
  shows "round_of folds node (rounds_for ms) x = 2 * length (takeWhile (\<lambda>m. m \<noteq> rr_Match x) ms) + (if rr_Project x = [] then 1 else 0)"
  using assms(3)
proof (induction ms)
  case (Cons m ms)
  then show ?case using assms(1,2) by (cases "m = rr_Match x") (auto simp: round_of_def rule_in_round_def)
qed simp

text \<open>
  C19. The routing rule picked for a node: none exactly when none applies; otherwise the nearest that applies, and of
  those equally near the first in the order they are kept.
\<close>

theorem suggest_nearest:
  "(Suggest folds rules node = None \<longleftrightarrow> (\<forall>x\<in>set rules. \<not> applies folds node x)) \<and>
   (\<forall>r. Suggest folds rules node = Some r \<longrightarrow>
      (\<exists>pre post. rules = pre @ r # post \<and> applies folds node r \<and>
         (\<forall>x\<in>set pre. applies folds node x \<longrightarrow> nearness node r < nearness node x) \<and>
         (\<forall>x\<in>set post. applies folds node x \<longrightarrow> nearness node r \<le> nearness node x)))"
proof (intro conjI allI impI)
  let ?rounds = "rounds_for (routeOrder (rt_Role node))"
  show "Suggest folds rules node = None \<longleftrightarrow> (\<forall>x\<in>set rules. \<not> applies folds node x)"
    unfolding Suggest_def first_round_None in_some_round [symmetric] by blast
  fix r assume "Suggest folds rules node = Some r"
  then obtain pre post where r: "rules = pre @ r # post" "applies folds node r"
      "\<forall>x\<in>set pre. round_of folds node ?rounds r < round_of folds node ?rounds x"
      "\<forall>x\<in>set post. round_of folds node ?rounds r \<le> round_of folds node ?rounds x"
    unfolding Suggest_def in_some_round [symmetric] by (elim first_round_Some [elim_format]) blast
  have near: "round_of folds node ?rounds x = nearness node x" if "applies folds node x" for x
    using that round_of_nearness [of folds node x "routeOrder (rt_Role node)"] by (simp add: applies_def nearness_def)
  show "\<exists>pre post. rules = pre @ r # post \<and> applies folds node r \<and>
         (\<forall>x\<in>set pre. applies folds node x \<longrightarrow> nearness node r < nearness node x) \<and>
         (\<forall>x\<in>set post. applies folds node x \<longrightarrow> nearness node r \<le> nearness node x)"
    using r near by (intro exI [of _ pre] exI [of _ post]) auto
qed

section \<open>Policies\<close>

definition mode_with_agents :: "string \<Rightarrow> bool" where
  "mode_with_agents m \<longleftrightarrow> m = ReviewAgents \<or> m = ReviewAgentsHuman"

text \<open>What an accepted policy satisfies.\<close>

definition policy_ok :: "autopilot_policy \<Rightarrow> bool" where
  "policy_ok p \<longleftrightarrow>
     length (ap_Implement p) \<le> MaxFallbacks \<and> 1 \<le> ap_MaxParallel p \<and> ap_MaxParallel p \<le> MaxAutopilotParallel \<and>
     1 \<le> ap_MaxRounds p \<and> ap_MaxRounds p \<le> MaxPipelineRounds \<and>
     rp_Mode (ap_Review p) \<in> {ReviewNone, ReviewAgents, ReviewHuman, ReviewAgentsHuman} \<and>
     (if mode_with_agents (rp_Mode (ap_Review p))
      then rp_Reviewers (ap_Review p) \<noteq> [] \<and> length (rp_Reviewers (ap_Review p)) \<le> MaxReviewers \<and>
        0 \<le> rp_Quorum (ap_Review p) \<and> rp_Quorum (ap_Review p) \<le> int (length (rp_Reviewers (ap_Review p)))
      else rp_Reviewers (ap_Review p) = [] \<and> rp_Quorum (ap_Review p) = 0) \<and>
     (ap_AutoMerge p \<longrightarrow> humanReview p \<or> ap_AllowAgentOnlyMerge p) \<and> (ap_AllowAgentOnlyMerge p \<longrightarrow> ap_AutoMerge p)"

lemma modes_differ [simp]:
  "\<not> mode_with_agents ReviewNone" "\<not> mode_with_agents ReviewHuman" "\<not> mode_with_agents []"
  by (simp_all add: mode_with_agents_def)

lemma check_review_Inr:
  assumes "check_review printable r0 = Inr r"
  shows "rp_Mode r \<in> {ReviewNone, ReviewAgents, ReviewHuman, ReviewAgentsHuman} \<and>
    (if mode_with_agents (rp_Mode r)
     then rp_Reviewers r \<noteq> [] \<and> length (rp_Reviewers r) \<le> MaxReviewers \<and> 0 \<le> rp_Quorum r \<and> rp_Quorum r \<le> int (length (rp_Reviewers r))
     else rp_Reviewers r = [] \<and> rp_Quorum r = 0) \<and>
    check_review printable r = Inr r \<and> validate_models ''reviewer'' 0 (rp_Reviewers r) False = None"
proof -
  define r1 where "r1 = (if rp_Mode r0 = [] then r0\<lparr>rp_Mode := ReviewNone\<rparr> else r0)"
  have mode: "rp_Mode r1 \<noteq> []" by (simp add: r1_def)
  consider "rp_Mode r1 = ReviewNone \<or> rp_Mode r1 = ReviewHuman"
    | "\<not> (rp_Mode r1 = ReviewNone \<or> rp_Mode r1 = ReviewHuman)" "mode_with_agents (rp_Mode r1)"
    | "\<not> (rp_Mode r1 = ReviewNone \<or> rp_Mode r1 = ReviewHuman)" "\<not> mode_with_agents (rp_Mode r1)" by blast
  then show ?thesis
  proof cases
    case 1
    then have r: "rp_Reviewers r1 = []" "r = r1\<lparr>rp_Quorum := 0\<rparr>"
      using assms unfolding check_review_def Let_def r1_def [symmetric] by (simp_all only: if_True split: if_splits) blast+
    then have "rp_Mode r = rp_Mode r1" "rp_Reviewers r = []" "rp_Quorum r = 0" "r\<lparr>rp_Quorum := 0\<rparr> = r" by simp_all
    moreover from this have "check_review printable r = Inr r"
      unfolding check_review_def Let_def using 1 mode by (simp only: if_True if_False simp_thms)
    moreover have "\<not> mode_with_agents (rp_Mode r1)" using 1 by auto
    ultimately show ?thesis using 1 by auto
  next
    case 2
    then have m: "rp_Mode r1 = ReviewAgents \<or> rp_Mode r1 = ReviewAgentsHuman" by (simp add: mode_with_agents_def)
    have r: "r = r1 \<and> \<not> (rp_Reviewers r1 = [] \<or> length (rp_Reviewers r1) > MaxReviewers) \<and>
        validate_models ''reviewer'' 0 (rp_Reviewers r1) False = None \<and>
        \<not> (rp_Quorum r1 < 0 \<or> rp_Quorum r1 > int (length (rp_Reviewers r1)))"
      using assms m unfolding check_review_def Let_def r1_def [symmetric] if_not_P [OF 2(1)]
      by (simp only: if_True split: if_splits option.splits) blast+
    then have "check_review printable r = Inr r"
      using m mode unfolding check_review_def Let_def by (simp only: if_not_P [OF mode] if_not_P [OF 2(1)] if_True if_False option.case)
    then show ?thesis using r 2 m by auto
  next
    case 3
    then have n: "\<not> (rp_Mode r1 = ReviewAgents \<or> rp_Mode r1 = ReviewAgentsHuman)" by (simp add: mode_with_agents_def)
    show ?thesis using assms unfolding check_review_def Let_def r1_def [symmetric] if_not_P [OF 3(1)] if_not_P [OF n]
      by (simp only: sum.distinct)
  qed
qed

text \<open>Whether a list of agents is accepted does not depend on what the message calls it.\<close>

definition agent_ok :: "agent_model \<Rightarrow> bool \<Rightarrow> bool" where
  "agent_ok am requireModel \<longleftrightarrow>
     trim_space (am_Agent am) \<noteq> [] \<and> validName (am_Agent am) \<and>
     (requireModel \<longrightarrow> trim_space (am_Model am) \<noteq> []) \<and> validName (am_Model am)"

lemma ValidateAgentModel_None: "ValidateAgentModel am what b = None \<longleftrightarrow> agent_ok am b"
  by (auto simp: ValidateAgentModel_def agent_ok_def)

lemma validate_models_None: "validate_models what i ams b = None \<longleftrightarrow> (\<forall>am\<in>set ams. agent_ok am b)"
proof (induction what i ams b rule: validate_models.induct)
  case (2 what i am ams b)
  show ?case
  proof (cases "ValidateAgentModel am (what @ '' '' @ itoa (i + 1)) b")
    case None
    then have "agent_ok am b" using ValidateAgentModel_None by blast
    then show ?thesis using 2 [OF None] None by (simp only: validate_models.simps option.case list.set ball_simps simp_thms)
  next
    case (Some e)
    then have "\<not> agent_ok am b" using ValidateAgentModel_None by (metis option.distinct(1))
    then show ?thesis using Some by (simp only: validate_models.simps option.case list.set ball_simps simp_thms option.distinct)
  qed
qed simp

lemma policy_pipeline:
  assumes "policy_ok p" "\<forall>am\<in>set (rp_Reviewers (ap_Review p)). agent_ok am False" "agent_ok am False" "pipelineFor p am = Some pl"
  shows "ValidatePipeline pl False = None"
proof -
  let ?agents = "mode_with_agents (rp_Mode (ap_Review p))"
  have pl: "pl_Implement pl = am" "pl_MaxRounds pl = ap_MaxRounds p" "pl_Review pl = no_agent" "pl_Tester pl = no_agent"
    "pl_Reviewers pl = (if ?agents then rp_Reviewers (ap_Review p) else [])"
    "pl_Quorum pl = (if ?agents then rp_Quorum (ap_Review p) else 0)" "pl_HumanAnyEditor pl \<longrightarrow> pl_Human pl"
    using assms(4) by (auto simp: pipelineFor_def Let_def mode_with_agents_def split: if_splits)
  have "ReviewersOf pl = pl_Reviewers pl" by (simp add: ReviewersOf_def pl(3) no_agent_def)
  then have "0 \<le> pl_Quorum pl" "pl_Quorum pl \<le> int (length (ReviewersOf pl))" "length (pl_Reviewers pl) \<le> MaxReviewers"
    using assms(1) pl(5,6) by (auto simp: policy_ok_def split: if_splits)
  moreover have "\<forall>am\<in>set (pl_Reviewers pl). agent_ok am False" using assms(2) pl(5) by simp
  moreover have "1 \<le> pl_MaxRounds pl" "pl_MaxRounds pl \<le> MaxPipelineRounds" using assms(1) pl(2) by (simp_all add: policy_ok_def)
  ultimately show ?thesis
    using pl(1,3,4,7) assms(3)
    by (auto simp: ValidatePipeline_def or_else_def refuse_when_def ValidateAgentModel_None validate_models_None split: option.split)
qed

text \<open>
  C18. What accepting a policy means: its numbers are within their bounds, its review mode fits its reviewers and quorum,
  and merging without a person's review was asked for in so many words. Accepting the stored policy again changes
  nothing, and the pipeline it gives an acceptable agent is itself accepted.
\<close>

theorem policy_accepted:
  assumes "ValidatePolicy printable p0 = Inr p"
  shows "policy_ok p \<and> ValidatePolicy printable p = Inr p \<and>
    (\<forall>am pl. ValidateAgentModel am ''pipeline implement'' False = None \<longrightarrow> pipelineFor p am = Some pl \<longrightarrow>
       ValidatePipeline pl False = None)"
proof -
  define p1 where "p1 = policy_defaults p0"
  obtain r where num: "check_numbers p1 = None" and r: "check_review printable (ap_Review p1) = Inr r"
    and merge: "check_merge (p1\<lparr>ap_Review := r\<rparr>) = None"
    and p: "p = (if ap_AutoMerge p1 then p1\<lparr>ap_Review := r\<rparr> else p1\<lparr>ap_Review := r, ap_AllowAgentOnlyMerge := False\<rparr>)"
    using assms unfolding ValidatePolicy_def Let_def p1_def by (auto split: option.splits sum.splits)
  note review = check_review_Inr [OF r]
  have same: "ap_Implement p = ap_Implement p1" "ap_MaxParallel p = ap_MaxParallel p1" "ap_MaxRounds p = ap_MaxRounds p1"
    "ap_Advisor p = ap_Advisor p1" "ap_Review p = r" "ap_RunnerID p = ap_RunnerID p1" "ap_RepoID p = ap_RepoID p1"
    "ap_AutoMerge p = ap_AutoMerge p1"
    by (simp_all add: p)
  have bounds: "1 \<le> ap_MaxParallel p" "ap_MaxParallel p \<le> MaxAutopilotParallel" "1 \<le> ap_MaxRounds p" "ap_MaxRounds p \<le> MaxPipelineRounds"
    "length (ap_Implement p) \<le> MaxFallbacks"
    using num unfolding check_numbers_def or_else_def refuse_when_def ValidateChain_def same by (auto split: option.splits if_splits)
  have human: "ap_AutoMerge p \<longrightarrow> humanReview p \<or> ap_AllowAgentOnlyMerge p" "ap_AllowAgentOnlyMerge p \<longrightarrow> ap_AutoMerge p"
    using merge by (auto simp: check_merge_def or_else_def refuse_when_def p humanReview_def split: if_splits)
  have ok: "policy_ok p" unfolding policy_ok_def same(5) using review bounds human by blast
  have again: "policy_defaults p = p" "check_numbers p = None" "p\<lparr>ap_Review := r\<rparr> = p" "check_merge p = None"
    "(if ap_AutoMerge p then p else p\<lparr>ap_AllowAgentOnlyMerge := False\<rparr>) = p" "check_review printable r = Inr r"
  proof -
    show "policy_defaults p = p" using bounds by (simp add: policy_defaults_def Let_def)
    show "check_numbers p = None" using num unfolding check_numbers_def same .
    show "check_merge p = None"
      using merge by (auto simp: check_merge_def or_else_def refuse_when_def p humanReview_def split: if_splits)
  qed (use same(5) review in \<open>auto simp: p\<close>)
  have "ValidatePolicy printable p = Inr p"
    unfolding ValidatePolicy_def Let_def by (simp only: again same(5) option.case sum.case)
  moreover have "\<forall>am\<in>set (rp_Reviewers (ap_Review p)). agent_ok am False" using review validate_models_None unfolding same(5) by blast
  ultimately show ?thesis using ok policy_pipeline [OF ok] unfolding ValidateAgentModel_None by blast
qed

text \<open>A policy as a person sends it, and what the defaults make of it.\<close>

definition sample_policy :: autopilot_policy where
  "sample_policy =
     \<lparr>ap_Implement = [\<lparr>am_Agent = ''codex'', am_Model = []\<rparr>],
      ap_Review = \<lparr>rp_Mode = ReviewAgents, rp_Reviewers = [\<lparr>am_Agent = ''claude'', am_Model = []\<rparr>], rp_Quorum = 0, rp_AnyEditor = False\<rparr>,
      ap_MaxParallel = 0, ap_MaxRounds = 2, ap_AutoMerge = True, ap_AllowAgentOnlyMerge = True, ap_Advisor = [],
      ap_RunnerID = [], ap_RepoID = ''repo''\<rparr>"

lemma policy_accepted_witness: "policy_ok (sample_policy\<lparr>ap_MaxParallel := 1\<rparr>)"
proof -
  have "ValidatePolicy (\<lambda>_. True) sample_policy = Inr (sample_policy\<lparr>ap_MaxParallel := 1\<rparr>)" by code_simp
  from policy_accepted [OF this] show ?thesis by blast
qed

text \<open>A tag rule of the project wins over a kind rule and over a tag rule of the workspace kept before it.\<close>

definition sample_rule :: "string \<Rightarrow> string \<Rightarrow> string \<Rightarrow> string \<Rightarrow> route_rule" where
  "sample_rule i proj m v =
     \<lparr>rr_ID = i, rr_Project = proj, rr_Match = m, rr_Value = v, rr_RunnerID = [], rr_Target = \<lparr>am_Agent = i, am_Model = []\<rparr>,
      rr_Fallbacks = [], rr_Pipeline = None\<rparr>"

definition sample_rules :: "route_rule list" where
  "sample_rules = [sample_rule ''1'' [] RouteDefault [], sample_rule ''2'' [] RouteTag ''ui'', sample_rule ''3'' ''p'' RouteKind ''task'',
     sample_rule ''4'' ''p'' RouteTag ''UI'']"

definition sample_node :: route_node where
  "sample_node = \<lparr>rt_Project = ''p'', rt_Kind = ''task'', rt_Tags = [''UI''], rt_Role = RoleExecutor\<rparr>"

lemma suggest_nearest_witness:
  "\<exists>pre post. sample_rules = pre @ sample_rule ''4'' ''p'' RouteTag ''UI'' # post \<and>
     (\<forall>x\<in>set pre. applies (\<lambda>_ _. False) sample_node x \<longrightarrow> nearness sample_node (sample_rule ''4'' ''p'' RouteTag ''UI'') < nearness sample_node x)"
proof -
  have "Suggest (\<lambda>_ _. False) sample_rules sample_node = Some (sample_rule ''4'' ''p'' RouteTag ''UI'')" by code_simp
  then show ?thesis using suggest_nearest [of "\<lambda>_ _. False" sample_rules sample_node] by blast
qed

end
