(* ===== verification/Autopilot_Samples.thy ===== *)
theory Autopilot_Samples
  imports Autopilot_Reach Merge_Facts Agent_Facts
begin

text \<open>
  A small project the properties are applied to: a goal with two tasks, one after the other, a creator with one
  runner and a hub that answers.
\<close>

definition sample_graph :: graph where
  "sample_graph = empty_graph\<lparr>graph_Version := 1,
     graph_Nodes := [Some (plain_node ''goal'' [] []), Some (plain_node ''a'' [] []), Some (plain_node ''b'' [] [])],
     graph_Edges := [req_edge ''a'' ''b'', req_edge ''b'' ''goal'']\<rparr>"

definition sample_state :: run_state where
  "sample_state = \<lparr>rs_StartedAt = [], rs_Nodes = Some Map.empty, rs_Flags = None, rs_History = []\<rparr>"

definition sample_runner :: runner where
  "sample_runner =
     \<lparr>runner_ID = ''m1'', runner_OwnerID = ''u1'', runner_Online = True,
      runner_Info = Some \<lparr>info_Agents = [\<lparr>ag_Kind = ''codex'', ag_Installed = True, ag_Models = []\<rparr>],
        info_Repos = [\<lparr>repo_ID = ''repo'', repo_Verify = True\<rparr>], info_Capabilities = [CapHeadless]\<rparr>\<rparr>"

definition sample_hash :: "string \<Rightarrow> string \<Rightarrow> string" where
  "sample_hash title body = CHR ''h'' # title @ CHR ''/'' # body"

lemma sample_hash_ok: "hash_ok sample_hash"
  by (simp add: hash_ok_def sample_hash_def)

definition sample_hub :: hub where
  "sample_hub =
     \<lparr>hub_Content = (\<lambda>i. Inr (''do '' @ i)), hub_Hash = sample_hash, hub_Owned = (\<lambda>i. Inr [sample_runner]),
      hub_Folds = (\<lambda>_ _. False), hub_Routing = Inr [], hub_Route = (\<lambda>_ _ s. s), hub_Advice = (\<lambda>_ _ _. None),
      hub_Busy = (\<lambda>_. 0), hub_Start = (\<lambda>req. Inr \<lparr>st_ID = ''r1'', st_PipelineID = [], st_CreatedAt = []\<rparr>),
      hub_SetStatus = (\<lambda>_ _. True), hub_Time = \<lparr>unix_sec = 0, unix_nsec = 0\<rparr>,
      hub_Pipeline = (\<lambda>_. Inl ''none''), hub_PipelineRuns = (\<lambda>_. Inl ''none''),
      hub_Get = (\<lambda>i. Inr sample_pr), hub_NodeRuns = (\<lambda>i. Inr [sample_pr]), hub_Merge = (\<lambda>_ _. MergeAsked),
      hub_CreatedByRun = (\<lambda>_. []), hub_HumanReview = (\<lambda>_ _. None), hub_Changes = sample_changes\<rparr>"

definition sample_input :: create_input where
  "sample_input =
     \<lparr>ci_ID = ''ap1'', ci_Project = ''p'', ci_GoalNodeID = ''goal'',
      ci_Policy = sample_policy\<lparr>ap_Review := \<lparr>rp_Mode = [], rp_Reviewers = [], rp_Quorum = 0, rp_AnyEditor = False\<rparr>\<rparr>,
      ci_ActorID = ''u1'', ci_ActorName = ''Ann'', ci_SteppedUpAt = []\<rparr>"

definition sample_autopilot :: autopilot where
  "sample_autopilot = projr (Create (\<lambda>_. True) sample_hub sample_graph sample_input)"

definition sample_load :: work where
  "sample_load = load sample_hub sample_graph sample_state ''t1'' sample_autopilot"

definition sample_work :: work where
  "sample_work = the (reconcile sample_hub (Some True) sample_load)"

text \<open>The same autopilot in the middle of its work: \<open>a\<close> has a try that \<open>sample_pr\<close> carries, or has failed.\<close>

definition sample_dag :: dag where
  "sample_dag = buildDAG (\<lambda>_ _. False) (Some sample_graph) ''goal''"

definition sample_record :: autopilot_record where
  "sample_record = new_record sample_input (sample_policy\<lparr>ap_MaxParallel := 1\<rparr>) None NoPhase"

definition sample_with :: "(task_instance \<Rightarrow> task_instance) \<Rightarrow> work" where
  "sample_with f = load sample_hub sample_graph sample_state ''t1''
     \<lparr>au_rec = sample_record\<lparr>ar_Policy := (ar_Policy sample_record)\<lparr>ap_Review := ap_Review (ci_Policy sample_input)\<rparr>\<rparr>,
      au_tasks = [(''a'', f (new_task sample_hub sample_dag ''a'' ''do a'')), (''b'', new_task sample_hub sample_dag ''b'' ''do b'')]\<rparr>"

definition sample_busy :: work where
  "sample_busy = sample_with (\<lambda>t. (setState TaskRunning StageImplement [] t)\<lparr>ti_RunID := ''r1''\<rparr>)"

definition sample_failed :: work where
  "sample_failed = sample_with (setState TaskFailed NoStage ''it broke'')"

end
