(* ===== verification/Autopilot_End.thy ===== *)
theory Autopilot_End
  imports Autopilot_Steps
begin

text \<open>
  The end of an autopilot: what ended stays ended, and once every task has ended the next pass ends the autopilot.
\<close>

lemma syncMembers_rec [simp]: "w_rec (syncMembers h w) = w_rec w"
proof -
  have "w_rec (sync_one h i w) = w_rec w" for i w by (simp add: sync_one_def split: option.split)
  then have "w_rec (fold (sync_one h) is w) = w_rec w" for "is" w by (induction "is" arbitrary: w) simp_all
  then show ?thesis by (simp add: syncMembers_def Let_def)
qed

lemma end_with_simps [simp]:
  "ar_Status (w_rec (end_with s r w)) = s" "w_calls (end_with s r w) = w_calls w" "w_added (end_with s r w) = w_added w"
  by (simp_all add: end_with_def)

lemma marked_goal:
  "w_calls (markBoard h i st why w) = w_calls w \<or> w_calls (markBoard h i st why w) = w_calls w @ [MarkNode i st why]"
  "w_added (markBoard h i st why w) = w_added w"
  by (auto simp: markBoard_def Let_def log_call_def split: sum.split)


definition all_ended :: "work \<Rightarrow> bool" where
  "all_ended w \<longleftrightarrow> (\<forall>i t. task_at w i = Some t \<longrightarrow> final1 (ti_State t))"

text \<open>Ended tasks keep their states.\<close>

lemma kept_ended:
  assumes "each_task kept w w'" "all_ended w"
  shows "all_ended w'" "\<And>i. map_option ti_State (task_at w' i) = map_option ti_State (task_at w i)"
proof -
  have same: "map_option ti_State (task_at w' i) = map_option ti_State (task_at w i)" for i
  proof (cases "task_at w i")
    case None
    then show ?thesis using each_task_None [OF assms(1), of i] by simp
  next
    case (Some t)
    then show ?thesis using assms each_task_at [OF assms(1) Some] by (auto simp: all_ended_def kept_def)
  qed
  then show "\<And>i. map_option ti_State (task_at w' i) = map_option ti_State (task_at w i)" .
  have "final1 (ti_State t)" if t: "task_at w' i = Some t" for i t
  proof -
    obtain t0 where t0: "task_at w i = Some t0" "ti_State t0 = ti_State t" using same [of i] t by (cases "task_at w i") auto
    then have "final1 (ti_State t0)" using assms(2) unfolding all_ended_def by blast
    then show ?thesis using t0(2) by simp
  qed
  then show "all_ended w'" unfolding all_ended_def by blast
qed

lemma ended_tasks_ok: "all_ended w \<Longrightarrow> tasks_ok w"
  unfolding all_ended_def tasks_ok_def task_ok_def using waiting_not_final by blast

lemma refresh_ended: "all_ended w \<Longrightarrow> refresh_from h is w = Some w"
  by (induction "is") (auto simp: obind_def refresh_one_def all_ended_def split: option.splits)

lemma propagate_ended:
  assumes "all_ended w"
  shows "propagateFailures w = Some w"
proof -
  have "fail_one i (w, c) = (w, c)" for i c
    using assms waiting_not_final by (auto simp: fail_one_def all_ended_def split: option.split)
  then have "fold fail_one is (w, False) = (w, False)" for "is" by (induction "is") auto
  then show ?thesis by (simp add: propagateFailures_def fail_pass_def)
qed

lemma schedule_ended:
  assumes "all_ended w"
  shows "schedule h w = w"
proof -
  have "schedule_one h i (w, room) = (w, room)" for i room
    using assms waiting_not_final by (auto simp: schedule_one_def all_ended_def split: option.split)
  then have "fold (schedule_one h) is (w, room) = (w, room)" for "is" room by (induction "is") auto
  then show ?thesis by (simp add: schedule_def)
qed

definition some_failed :: "work \<Rightarrow> bool" where
  "some_failed w \<longleftrightarrow> (\<exists>i t. task_at w i = Some t \<and> is_failed t)"

lemma some_failed_states:
  "some_failed w \<longleftrightarrow> (\<exists>i s. map_option ti_State (task_at w i) = Some s \<and> (s = TaskFailed \<or> s = TaskUpstreamFailed))"
  by (auto simp: some_failed_def is_failed_def)

lemma failed_tasks_pos:
  assumes "distinct (map fst (w_tasks w))"
  shows "failed_tasks w > 0 \<longleftrightarrow> some_failed w"
proof -
  have "failed_tasks w > 0 \<longleftrightarrow> (\<exists>(i, t)\<in>set (w_tasks w). is_failed t)"
    by (auto simp: failed_tasks_def is_failed_def filter_empty_conv)
  then show ?thesis using assms by (auto simp: some_failed_def)
qed

lemma ended_list:
  "distinct (map fst (w_tasks w)) \<Longrightarrow> list_ex (\<lambda>(i, t). \<not> final1 (ti_State t)) (w_tasks w) \<longleftrightarrow> \<not> all_ended w"
  by (auto simp: list_ex_iff all_ended_def)


section \<open>Progress\<close>

text \<open>What a task needs of the hub to be started: a runner, its content unchanged, and an agent that a runner has.\<close>

definition can_start :: "hub \<Rightarrow> work \<Rightarrow> string \<Rightarrow> task_instance \<Rightarrow> bool" where
  "can_start h w i t \<longleftrightarrow>
     (\<exists>owned body c r. hub_Owned h i = Inr owned \<and> hub_Content h i = Inr body \<and>
        ti_ContentHash t = hub_Hash h (ti_Title t) body \<and>
        choose_for h w i body (mergeAgents (filter (eligible (ar_Policy (w_rec w))) owned)) = Inr c \<and>
        pick_runner h (hd (ch_Implement c)) (filter (eligible (ar_Policy (w_rec w))) owned) = Some r)"

text \<open>The calls so far, and whether the room was touched without one.\<close>

lemma dispatch_calls:
  obtains "w_calls (fst (dispatch h i w)) = w_calls w" "\<not> snd (dispatch h i w)"
  | req where "w_calls (fst (dispatch h i w)) = w_calls w @ [StartRun req]"
proof (cases "\<exists>req. w_calls (fst (dispatch h i w)) = w_calls w @ [StartRun req]")
  case False
  have "w_calls (fst (start_on h w i rs body t c)) = w_calls w \<and> \<not> snd (start_on h w i rs body t c) \<or>
      (\<exists>req. w_calls (fst (start_on h w i rs body t c)) = w_calls w @ [StartRun req])" for rs body t c
    by (auto simp: start_on_def split: option.split prod.split)
  then have "w_calls (fst (dispatch_content h w i rs body t)) = w_calls w \<and> \<not> snd (dispatch_content h w i rs body t) \<or>
      (\<exists>req. w_calls (fst (dispatch_content h w i rs body t)) = w_calls w @ [StartRun req])" for rs body t
    by (auto simp: dispatch_content_def split: prod.split sum.split)
  then have "w_calls (fst (dispatch h i w)) = w_calls w \<and> \<not> snd (dispatch h i w) \<or>
      (\<exists>req. w_calls (fst (dispatch h i w)) = w_calls w @ [StartRun req])"
    unfolding dispatch_def Let_def by (auto split: option.split sum.split)
  then show ?thesis using that False by blast
qed (use that in blast)

lemma dispatch_can_start:
  assumes "task_at w i = Some t" "can_start h w i t"
  shows "w_calls (fst (dispatch h i w)) \<noteq> w_calls w"
proof -
  obtain owned body c r where h: "hub_Owned h i = Inr owned" "hub_Content h i = Inr body"
    "ti_ContentHash t = hub_Hash h (ti_Title t) body"
    and c: "choose_for h w i body (mergeAgents (filter (eligible (ar_Policy (w_rec w))) owned)) = Inr c"
    and r: "pick_runner h (hd (ch_Implement c)) (filter (eligible (ar_Policy (w_rec w))) owned) = Some r"
    using assms(2) unfolding can_start_def by blast
  have "filter (eligible (ar_Policy (w_rec w))) owned \<noteq> []"
    using first_match_SomeD [OF r [unfolded pick_runner_def]] by (auto simp: set_SliceStable filter_empty_conv)
  moreover have "checkContent h body t = (if ti_ContentHash t = [] then t\<lparr>ti_ContentHash := hub_Hash h (ti_Title t) body\<rparr> else t, True)"
    using h(3) by (simp add: checkContent_def Let_def)
  ultimately show ?thesis
    using assms(1) h c r by (auto simp: dispatch_def Let_def dispatch_content_def start_on_def split: prod.split)
qed

lemma dispatch_others: "j \<noteq> i \<Longrightarrow> task_at (fst (dispatch h i w)) j = task_at w j"
proof -
  assume j: "j \<noteq> i"
  have "task_at (fst (start_on h w i rs body t c)) j = task_at w j" for rs body t c
    using j by (auto simp: start_on_def map_of_gomap_put split: option.split prod.split)
  then have "task_at (fst (dispatch_content h w i rs body t)) j = task_at w j" for rs body t
    using j by (auto simp: dispatch_content_def map_of_gomap_put split: prod.split sum.split)
  then show ?thesis using j unfolding dispatch_def Let_def by (auto simp: map_of_gomap_put split: option.split sum.split)
qed

definition onwards :: "string \<Rightarrow> work \<times> int \<Rightarrow> work \<times> int \<Rightarrow> bool" where
  "onwards i x y \<longleftrightarrow>
     (\<exists>cs. w_calls (fst y) = w_calls (fst x) @ cs \<and> (cs = [] \<longrightarrow> snd y = snd x)) \<and> (\<forall>j. j \<noteq> i \<longrightarrow> task_at (fst y) j = task_at (fst x) j)"

lemma schedule_one_onwards: "onwards i x (schedule_one h i x)"
proof -
  obtain w room where x: "x = (w, room)" by force
  have put: "onwards i (w, room) (put_task i t w, room)" for t by (simp add: onwards_def map_of_gomap_put)
  have disp: "onwards i (w, room) (fst (dispatch h i w), if snd (dispatch h i w) then room - 1 else room)"
    using dispatch_others [of _ i h w] by (cases rule: dispatch_calls [of h i w]) (auto simp: onwards_def)
  show ?thesis
    using put disp by (auto simp: x schedule_one_def split: option.split prod.split) (auto simp: onwards_def)
qed

text \<open>What a stretch of the scheduling loop does: it stays within its bounds, and unless it starts something it leaves the room and
  the tasks that are not its own.\<close>

lemma stretch_scheduling:
  assumes "tasks_ok w" "hash_ok (hub_Hash h)"
  shows "scheduling h w room (fold (schedule_one h) is (w, room))"
proof (induction "is" rule: rev_induct)
  case Nil
  then show ?case by (simp add: scheduling_def sched.same_tasks)
next
  case (snoc j "is")
  then show ?case using schedule_one_scheduling [OF snoc] assms by (simp add: tasks_ok_def hash_ok_def)
qed

lemma stretch_calls: "\<exists>cs. w_calls (fst (fold (schedule_one h) is x)) = w_calls (fst x) @ cs"
proof (induction "is" arbitrary: x)
  case (Cons j "is")
  then show ?case using Cons [of "schedule_one h j x"] schedule_one_onwards [of j x h] by (fastforce simp: onwards_def)
qed simp

lemma stretch_quiet:
  assumes "i \<notin> set is" "w_calls (fst (fold (schedule_one h) is x)) = w_calls (fst x)"
  shows "snd (fold (schedule_one h) is x) = snd x \<and> task_at (fst (fold (schedule_one h) is x)) i = task_at (fst x) i"
  using assms
proof (induction "is" arbitrary: x)
  case (Cons j "is")
  let ?y = "schedule_one h j x"
  obtain cs where cs: "w_calls (fst ?y) = w_calls (fst x) @ cs" "cs = [] \<longrightarrow> snd ?y = snd x"
    and others: "\<forall>k. k \<noteq> j \<longrightarrow> task_at (fst ?y) k = task_at (fst x) k"
    using schedule_one_onwards [of j x h] unfolding onwards_def by blast
  obtain cs' where cs': "w_calls (fst (fold (schedule_one h) is ?y)) = w_calls (fst ?y) @ cs'" using stretch_calls by blast
  have "cs = []" "cs' = []" using Cons.prems(2) cs(1) cs' by simp_all
  then show ?case using Cons.IH [of ?y] Cons.prems(1) cs cs' others by simp
qed simp

text \<open>The step that reaches a ready task after a quiet stretch asks for its run.\<close>

lemma ready_step_starts:
  assumes "scheduling h w room (w1, room)" "w_calls w1 = w_calls w" "task_at w1 i = Some t" "waiting t" "not_ready w i t = None"
    "can_start h w i t" "0 < room"
  shows "w_calls (fst (schedule_one h i (w1, room))) \<noteq> w_calls w1"
proof -
  have e: "each_task scheduled w w1" and p: "w1\<lparr>w_tasks := w_tasks w, w_calls := w_calls w\<rparr> = w"
    using assms(1) by (auto simp: scheduling_def)
  have "can_start h w1 i t" using assms(6) unfolding can_start_def choose_for_def same_pass [OF p] .
  from dispatch_can_start [OF assms(3) this] have "w_calls (fst (dispatch h i w1)) \<noteq> w_calls w1" by simp
  moreover have "not_ready w1 i t = None" using assms(5) same_waits(3) [OF e p] by simp
  ultimately show ?thesis using assms(3,4,7) by (simp add: schedule_one_def case_prod_beta)
qed

text \<open>
  C14. No ready task is left waiting while there is room: when a slot is free and some waiting task of the goal is held back
  by nothing, has its content unchanged and has a runner with an agent for it, a scheduling pass asks for a run.
\<close>

theorem ready_task_starts:
  assumes "tasks_ok w" "hash_ok (hub_Hash h)" "active w < ap_MaxParallel (ar_Policy (w_rec w))"
    "i \<in> set (dag_order (w_dag w))" "task_at w i = Some t" "waiting t" "not_ready w i t = None" "can_start h w i t"
  shows "\<exists>req. StartRun req \<in> set (drop (length (w_calls w)) (w_calls (schedule h w)))"
proof -
  define room where "room = ap_MaxParallel (ar_Policy (w_rec w)) - active w"
  note sch = stretch_scheduling [OF assms(1,2), of room]
  obtain is1 is2 where split: "dag_order (w_dag w) = is1 @ i # is2" "i \<notin> set is1" using assms(4) by (metis split_list_first)
  obtain w1 r1 where 1: "fold (schedule_one h) is1 (w, room) = (w1, r1)" by force
  let ?x = "schedule_one h i (w1, r1)"
  obtain cs1 where cs1: "w_calls w1 = w_calls w @ cs1" using stretch_calls [of h is1 "(w, room)"] 1 by auto
  obtain cs2 where cs2: "w_calls (fst ?x) = w_calls w1 @ cs2" using stretch_calls [of h "[i]" "(w1, r1)"] by auto
  obtain cs3 where cs3: "w_calls (schedule h w) = w_calls (fst ?x) @ cs3"
    using stretch_calls [of h is2 ?x] by (auto simp: schedule_def split room_def [symmetric] 1)
  have "cs1 \<noteq> [] \<or> cs2 \<noteq> []"
  proof (cases "cs1 = []")
    case True
    then have "r1 = room" "task_at w1 i = Some t" using stretch_quiet [OF split(2), of h "(w, room)"] 1 cs1 assms(5) by auto
    then show ?thesis using ready_step_starts [of h w room w1 i t] sch [of is1] 1 cs1 cs2 True assms(3,6-8) by (simp add: room_def)
  qed simp
  moreover obtain cs where "w_calls (schedule h w) = w_calls w @ cs" "\<forall>c\<in>set cs. \<exists>req. c = StartRun req"
    using sch [of "dag_order (w_dag w)"] unfolding schedule_def room_def [symmetric] by (fastforce simp: scheduling_def)
  ultimately show ?thesis using cs1 cs2 cs3 by (cases cs) auto
qed

end
