(* ===== verification/Autopilot_Properties.thy ===== *)
theory Autopilot_Properties
  imports Autopilot_Samples Autopilot_End
begin

text \<open>
  The properties of the autopilot: what it starts, when, how far a failure spreads, what it merges and when it ends.
\<close>

section \<open>What is started\<close>

text \<open>
  C4. Over the whole life of an autopilot, with the board, the runners and the runs changing at will between the passes,
  every run that implements a task is started with content that was accepted for that task: frozen when the autopilot
  was created or the task joined, or accepted by a person who retried it or adopted a revised goal.
\<close>

theorem only_accepted_content_starts:
  assumes "lives hash l" "hash_ok hash" "StartRun req \<in> set (lf_calls l)" "sq_Kind req = JobImplement"
  shows "\<exists>title. (sq_NodeID req, hash title (sq_Content req)) \<in> lf_accepted l"
  using lives_good [OF assms(1,2)] assms(3,4) by (simp add: good_life_def good_calls_def)

lemma sample_created: "Create (\<lambda>_. True) sample_hub sample_graph sample_input = Inr sample_autopilot"
proof -
  have "isl (Create (\<lambda>_. True) sample_hub sample_graph sample_input) = False" by code_simp
  then show ?thesis unfolding sample_autopilot_def by simp
qed

lemma sample_pass:
  "reconcile sample_hub (Some True) sample_load = Some sample_work"
  "map (\<lambda>c. case c of StartRun req \<Rightarrow> [sq_NodeID req, sq_Kind req, sq_Content req] | _ \<Rightarrow> []) (w_calls sample_work) =
     [[''a'', JobImplement, ''do a'']]"
  "map (\<lambda>(i, t). (i, ti_State t)) (w_tasks sample_work) = [(''a'', TaskQueued), (''b'', TaskNone)]"
proof -
  have "map_option (\<lambda>w. (map (\<lambda>c. case c of StartRun req \<Rightarrow> [sq_NodeID req, sq_Kind req, sq_Content req] | _ \<Rightarrow> []) (w_calls w),
        map (\<lambda>(i, t). (i, ti_State t)) (w_tasks w))) (reconcile sample_hub (Some True) sample_load) =
      Some ([[''a'', JobImplement, ''do a'']], [(''a'', TaskQueued), (''b'', TaskNone)])"
    by code_simp
  then show "reconcile sample_hub (Some True) sample_load = Some sample_work"
    "map (\<lambda>c. case c of StartRun req \<Rightarrow> [sq_NodeID req, sq_Kind req, sq_Content req] | _ \<Rightarrow> []) (w_calls sample_work) =
       [[''a'', JobImplement, ''do a'']]"
    "map (\<lambda>(i, t). (i, ti_State t)) (w_tasks sample_work) = [(''a'', TaskQueued), (''b'', TaskNone)]"
    unfolding sample_work_def by (auto simp: map_option_case split: option.splits)
qed

definition sample_life :: life where
  "sample_life = after \<lparr>lf_pilot = sample_autopilot, lf_accepted = pins (au_tasks sample_autopilot), lf_calls = []\<rparr>
     (new_pins (au_tasks sample_autopilot) (w_tasks sample_work)) sample_work"

lemma sample_lives: "lives sample_hash sample_life"
proof -
  have hash: "hub_Hash sample_hub = sample_hash" by (simp add: sample_hub_def)
  note c = lives.created [OF sample_created hash]
  from lives.pass [OF c hash, of "Some True" sample_graph sample_state "''t1''" sample_work] sample_pass(1)
  show ?thesis by (simp add: sample_life_def sample_load_def)
qed

lemma sample_started: obtains req where "StartRun req \<in> set (lf_calls sample_life)" "sq_NodeID req = ''a''"
  "sq_Kind req = JobImplement" "sq_Content req = ''do a''"
proof -
  have "\<exists>req. w_calls sample_work = [StartRun req] \<and> [sq_NodeID req, sq_Kind req, sq_Content req] = [''a'', JobImplement, ''do a'']"
    using sample_pass(2) by (cases "hd (w_calls sample_work)") (auto simp: map_eq_Cons_conv)
  then show ?thesis using that by (auto simp: sample_life_def after_def)
qed

lemma only_accepted_content_starts_witness: "\<exists>title. (''a'', sample_hash title ''do a'') \<in> lf_accepted sample_life"
proof -
  obtain req where "StartRun req \<in> set (lf_calls sample_life)" "sq_NodeID req = ''a''" "sq_Kind req = JobImplement" "sq_Content req = ''do a''"
    by (rule sample_started)
  then show ?thesis using only_accepted_content_starts [OF sample_lives sample_hash_ok] by metis
qed

text \<open>
  C6. Scheduling starts a run only for a waiting task whose upstream tasks are all settled and that nothing outside the
  goal blocks, with the content the task is pinned to and on an online headless runner of its owner's that has the
  repository and can run the agent; and it fills no more slots than the policy allows.
\<close>

theorem scheduling_safe:
  assumes "tasks_ok w" "hash_ok (hub_Hash h)"
  shows "\<exists>cs. w_calls (schedule h w) = w_calls w @ cs \<and> (\<forall>c\<in>set cs. \<exists>req. c = StartRun req \<and> may_start h w req) \<and>
    active (schedule h w) \<le> max (active w) (ap_MaxParallel (ar_Policy (w_rec w)))"
proof -
  obtain room where s: "scheduling h w (ap_MaxParallel (ar_Policy (w_rec w)) - active w) (schedule h w, room)"
    using schedule_result [of w h] assms unfolding tasks_ok_def hash_ok_def by blast
  then obtain cs where "w_calls (schedule h w) = w_calls w @ cs" "\<forall>c\<in>set cs. \<exists>req. c = StartRun req \<and> may_start h w req"
    unfolding scheduling_def prod.case by blast
  moreover have "active (schedule h w) \<le> max (active w) (ap_MaxParallel (ar_Policy (w_rec w)))"
    using s unfolding scheduling_def prod.case by linarith
  ultimately show ?thesis by blast
qed

lemma sample_tasks_ok: "tasks_ok sample_load"
  using create_good [OF sample_created] sample_hash_ok
  by (auto simp: tasks_ok_def good_tasks_def joined_ok_def sample_load_def sample_hub_def)

lemma scheduling_safe_witness: "active (schedule sample_hub sample_load) \<le> max (active sample_load) 1"
proof -
  have "ap_MaxParallel (ar_Policy (w_rec sample_load)) = 1" by code_simp
  then show ?thesis using scheduling_safe [OF sample_tasks_ok, of sample_hub] sample_hash_ok
    by (auto simp: sample_hub_def [THEN arg_cong [of _ _ hub_Hash]])
qed

section \<open>Failures\<close>

text \<open>
  C11. A failure reaches exactly the waiting tasks behind it: the spread of failures ends, a waiting task has failed
  upstream afterwards if and only if a chain of waiting tasks leads from it to a failed one, and no other task changes.
\<close>

theorem failure_spread_exact:
  "\<exists>w'. propagateFailures w = Some w' \<and> map fst (w_tasks w') = map fst (w_tasks w) \<and>
     (\<forall>i t. task_at w i = Some t \<longrightarrow> (\<exists>t'. task_at w' i = Some t' \<and>
        ti_State t' = (if waiting t \<and> doomed w i then TaskUpstreamFailed else ti_State t) \<and>
        (\<not> (waiting t \<and> doomed w i) \<longrightarrow> t' = t)))"
proof -
  obtain w' where w': "propagateFailures w = Some w'" "spread w w'" by (rule propagate_result)
  have "\<exists>t'. task_at w' i = Some t' \<and> ti_State t' = (if waiting t \<and> doomed w i then TaskUpstreamFailed else ti_State t) \<and>
        (\<not> (waiting t \<and> doomed w i) \<longrightarrow> t' = t)" if "task_at w i = Some t" for i t
    by (rule propagate_states [OF w'(1) that]) (auto simp: struck_by_def)
  then show ?thesis using w' by (auto simp: spread_def)
qed

lemma failure_spread_exact_witness:
  "\<exists>w'. propagateFailures sample_failed = Some w' \<and> (\<exists>t'. task_at w' ''b'' = Some t' \<and> ti_State t' = TaskUpstreamFailed)"
proof -
  have "map_option (\<lambda>t. (ti_State t, waiting t)) (task_at sample_failed ''a'') = Some (TaskFailed, False)"
    "map_option (\<lambda>t. (ti_State t, waiting t)) (task_at sample_failed ''b'') = Some (TaskNone, True)"
    "''b'' \<in> set (dag_order (w_dag sample_failed))" "''a'' \<in> set (deps_at (dag_upstream (w_dag sample_failed)) ''b'')"
    by code_simp+
  then obtain ta tb where a: "task_at sample_failed ''a'' = Some ta" "ti_State ta = TaskFailed"
    and b: "task_at sample_failed ''b'' = Some tb" "waiting tb" "doomed sample_failed ''b''"
    using doomed.failed [of sample_failed "''a''"] doomed.spreads [of sample_failed "''b''"] by auto
  then show ?thesis using failure_spread_exact [of sample_failed] by fastforce
qed

section \<open>Merges\<close>

text \<open>
  C5. A pass over the running tasks asks for a merge only for a task that has not ended, through the run that carries its
  pull request and at the head its reports name, once its runs are approved, its checks succeeded and the policy merges
  by itself; and unless the policy has a person review, only when the hold was released by a person or nothing in the
  changes holds it.
\<close>

theorem merge_only_when_justified:
  assumes "refresh h w = Some w'" "distinct (map fst (w_tasks w))"
  shows "\<exists>cs. w_calls w' = w_calls w @ cs \<and>
    (\<forall>c\<in>set cs. (\<exists>i st why. c = MarkNode i st why) \<or> (\<exists>i rid head. c = RequestMerge rid head \<and> justified h w i rid head))"
  using refresh_refreshing [OF assms] unfolding refreshing_def by metis

lemma merge_only_when_justified_witness: "\<exists>i. justified sample_hub sample_busy i ''r1'' ''abc''"
proof -
  have "map_option w_calls (refresh sample_hub sample_busy) = Some [RequestMerge ''r1'' ''abc'']" by code_simp
  then obtain w' where w': "refresh sample_hub sample_busy = Some w'" "w_calls w' = [RequestMerge ''r1'' ''abc'']" by blast
  have "distinct (map fst (w_tasks sample_busy))" "w_calls sample_busy = []" by code_simp+
  then show ?thesis using merge_only_when_justified [OF w'(1)] w'(2) by auto
qed


lemma ready_task_starts_witness:
  "\<exists>req. StartRun req \<in> set (drop (length (w_calls (sample_with id))) (w_calls (schedule sample_hub (sample_with id))))"
proof -
  let ?t = "new_task sample_hub sample_dag ''a'' ''do a''"
  have t: "task_at (sample_with id) ''a'' = Some ?t" by (simp add: sample_with_def)
  have w: "waiting ?t" by (simp add: new_task_def waiting_def)
  have ok: "tasks_ok (sample_with id)"
    by (auto simp: tasks_ok_def sample_with_def load_def task_ok_def new_task_def never_started_def split: if_splits)
  have hash: "hash_ok (hub_Hash sample_hub)" using sample_hash_ok by (simp add: sample_hub_def)
  have "first_wait (sample_with id) ''a'' = None" "outside_blockers (sample_with id) ''a'' = []" by code_simp+
  then have ready: "not_ready (sample_with id) ''a'' ?t = None" by (simp add: not_ready_def)
  have room: "active (sample_with id) < ap_MaxParallel (ar_Policy (w_rec (sample_with id)))"
    and mem: "''a'' \<in> set (dag_order (w_dag (sample_with id)))" by code_simp+
  have "hub_Owned sample_hub ''a'' = Inr [sample_runner]" "hub_Content sample_hub ''a'' = Inr ''do a''" by (simp_all add: sample_hub_def)
  moreover have "ti_ContentHash ?t = hub_Hash sample_hub (ti_Title ?t) ''do a''" by (simp add: new_task_def)
  moreover have "\<exists>c. choose_for sample_hub (sample_with id) ''a'' ''do a''
        (mergeAgents (filter (eligible (ar_Policy (w_rec (sample_with id)))) [sample_runner])) = Inr c \<and>
      pick_runner sample_hub (hd (ch_Implement c)) (filter (eligible (ar_Policy (w_rec (sample_with id)))) [sample_runner]) \<noteq> None"
  proof -
    have "(case choose_for sample_hub (sample_with id) ''a'' ''do a''
        (mergeAgents (filter (eligible (ar_Policy (w_rec (sample_with id)))) [sample_runner])) of Inl e \<Rightarrow> False
      | Inr c \<Rightarrow> pick_runner sample_hub (hd (ch_Implement c)) (filter (eligible (ar_Policy (w_rec (sample_with id)))) [sample_runner]) \<noteq> None)"
      by code_simp
    then show ?thesis by (auto split: sum.splits)
  qed
  ultimately have "can_start sample_hub (sample_with id) ''a'' ?t" unfolding can_start_def by blast
  from ready_task_starts [OF ok hash room mem t w ready this] show ?thesis .
qed

section \<open>What people release\<close>

text \<open>
  C12. A merge held for sensitive changes is released by an administrator or the autopilot's creator only, and only while
  it waits: approving keeps the hold and records the verdict, anything else clears the task for a new try, and no other
  task changes.
\<close>

theorem hold_release_authority:
  assumes "task_at w i = Some t" "ti_Hold t = HoldSensitive" "Review h i who name admin verdict comment w = Inr w'"
  shows "(admin \<or> ar_CreatedBy (w_rec w) = who) \<and> ti_State t = TaskWaitingHuman \<and> w_calls w' = w_calls w \<and>
    (\<exists>t'. task_at w' i = Some t' \<and>
       (if trim_space verdict = VerdictApprove then ti_HumanVerdict t' = VerdictApprove \<and> ti_Hold t' = HoldSensitive
        else ti_State t' = TaskNone \<and> ti_Hold t' = NoHold \<and> never_started t')) \<and>
    (\<forall>j. j \<noteq> i \<longrightarrow> task_at w' j = task_at w j)"
proof -
  have h: "reviewHold i who name admin (trim_space verdict) comment w = Inr w'"
    using assms unfolding Review_def Let_def by (auto split: if_splits)
  then have auth: "admin \<or> ar_CreatedBy (w_rec w) = who"
    and act: "taskAction i (review_hold i who name (trim_space verdict) comment) w = Inr w'"
    by (auto simp: reviewHold_def split: if_splits)
  obtain t1 w1 where "task_at w i = Some t1" and w': "w' = reopen w1"
    and r1: "review_hold i who name (trim_space verdict) comment w t1 = Inr w1" using act by (rule taskAction_cases) blast
  then have r: "review_hold i who name (trim_space verdict) comment w t = Inr w1" using assms(1) by simp
  then have "ti_State t = TaskWaitingHuman" using assms(2) by (simp add: review_hold_def split: if_splits)
  moreover have "w1 = (if trim_space verdict = VerdictApprove
      then put_task i (t\<lparr>ti_HumanVerdict := trim_space verdict, ti_Reason := ''merge approved by '' @ firstNonEmpty [name, who]\<rparr>) w
      else put_task i (clear (review_text comment) t) w)"
    using r calculation assms(2) unfolding review_hold_def by (simp split: if_splits)
  ultimately show ?thesis using auth assms(2)
    by (auto simp: w' clear_def never_started_def map_of_gomap_put setState_def)
qed

definition sample_held :: work where
  "sample_held = sample_with (\<lambda>t. hold_task HoldSensitive StageHuman ''it changes go.mod'' (t\<lparr>ti_RunID := ''r1''\<rparr>))"

lemma hold_release_authority_witness:
  "\<exists>w'. Review sample_hub ''a'' ''u1'' ''Ann'' False ''approve'' [] sample_held = Inr w' \<and>
     (\<exists>t'. task_at w' ''a'' = Some t' \<and> ti_HumanVerdict t' = VerdictApprove \<and> ti_Hold t' = HoldSensitive)"
proof -
  have "\<not> isl (Review sample_hub ''a'' ''u1'' ''Ann'' False ''approve'' [] sample_held)" "trim_space ''approve'' = VerdictApprove"
    by code_simp+
  then obtain w' where w': "Review sample_hub ''a'' ''u1'' ''Ann'' False ''approve'' [] sample_held = Inr w'"
    by (metis isl_def sum.exhaust)
  have "\<exists>t. task_at sample_held ''a'' = Some t \<and> ti_Hold t = HoldSensitive" by (simp add: sample_held_def sample_with_def)
  then show ?thesis using hold_release_authority [OF _ _ w'] w' \<open>trim_space ''approve'' = VerdictApprove\<close> by auto
qed

section \<open>The view\<close>

definition in_states :: "task_state set \<Rightarrow> task_instance list \<Rightarrow> int" where
  "in_states S ts = int (length (filter (\<lambda>t. ti_State t \<in> S) ts))"

lemma in_states_Cons: "in_states S (t # ts) = (if ti_State t \<in> S then 1 else 0) + in_states S ts"
  by (simp add: in_states_def)

lemma counts_from:
  "let c' = fold add_count ts c in
     tc_Total c' = tc_Total c + int (length ts) \<and> tc_Success c' = tc_Success c + in_states {TaskSuccess} ts \<and>
     tc_Running c' = tc_Running c + in_states {TaskQueued, TaskRunning} ts \<and>
     tc_Waiting c' = tc_Waiting c + in_states {TaskWaitingReview, TaskWaitingHuman} ts \<and>
     tc_Failed c' = tc_Failed c + in_states {TaskFailed, TaskUpstreamFailed} ts \<and>
     tc_Pending c' = tc_Pending c + in_states {TaskNone, TaskScheduled} ts \<and>
     tc_Skipped c' = tc_Skipped c + in_states {TaskSkipped} ts"
proof (induction ts arbitrary: c)
  case (Cons t ts)
  show ?case using Cons.IH [of "add_count t c"]
    by (cases "ti_State t") (simp_all add: Let_def add_count_def in_states_Cons)
qed (simp add: in_states_def)

text \<open>
  The counts of an autopilot's view: each task is counted in exactly one column, a queued one as running, and the
  columns add up to the total.
\<close>

theorem counts_exact:
  "let c = count_tasks ts in
     tc_Success c = in_states {TaskSuccess} ts \<and> tc_Running c = in_states {TaskQueued, TaskRunning} ts \<and>
     tc_Waiting c = in_states {TaskWaitingReview, TaskWaitingHuman} ts \<and> tc_Failed c = in_states {TaskFailed, TaskUpstreamFailed} ts \<and>
     tc_Pending c = in_states {TaskNone, TaskScheduled} ts \<and> tc_Skipped c = in_states {TaskSkipped} ts \<and>
     tc_Total c = int (length ts) \<and>
     tc_Total c = tc_Success c + tc_Running c + tc_Waiting c + tc_Failed c + tc_Pending c + tc_Skipped c"
proof -
  let ?c0 = "\<lparr>tc_Total = 0, tc_Success = 0, tc_Running = 0, tc_Waiting = 0, tc_Failed = 0, tc_Pending = 0, tc_Skipped = 0\<rparr> :: task_counts"
  have "int (length ts) = in_states {TaskSuccess} ts + in_states {TaskQueued, TaskRunning} ts +
      in_states {TaskWaitingReview, TaskWaitingHuman} ts + in_states {TaskFailed, TaskUpstreamFailed} ts +
      in_states {TaskNone, TaskScheduled} ts + in_states {TaskSkipped} ts"
  proof (induction ts)
    case (Cons t ts)
    then show ?case by (cases "ti_State t") (simp_all add: in_states_Cons)
  qed (simp add: in_states_def)
  then show ?thesis using counts_from [of ts ?c0] by (simp add: count_tasks_def Let_def)
qed

end
