(* ===== verification/Autopilot_Findings.thy ===== *)
theory Autopilot_Findings
  imports Autopilot_Samples Permission
begin

text \<open>
  Behaviours of the autopilot and its gates that the code does not seem to mean, each shown on the model.
\<close>

section \<open>A reviewer's comment\<close>

text \<open>
  A task that a reviewer sent back carries the comment in its reason, and the next try's prompt takes it from there. A
  scheduling pass that finds no free slot overwrites the reason, and the comment never reaches the agent.
\<close>

lemma no_prefix_waits:
  "\<not> has_prefix ''waiting for a free slot'' humanChangesPrefix" "\<not> has_prefix [] humanChangesPrefix"
  by code_simp+

theorem requested_changes_lost:
  assumes "task_at w i = Some t" "waiting t" "not_ready w i t = None" "room \<le> 0"
  shows "\<exists>t'. task_at (fst (schedule_one h i (w, room))) i = Some t' \<and> waiting t' \<and>
    task_prompt rec t' = task_prompt rec (t\<lparr>ti_Reason := []\<rparr>)"
proof -
  have "task_prompt rec (waits ''waiting for a free slot'' t) = task_prompt rec (t\<lparr>ti_Reason := []\<rparr>)"
    unfolding task_prompt_def using no_prefix_waits by (simp only: waits_simps task_instance.select_convs task_instance.update_convs) simp
  moreover have "task_at (fst (schedule_one h i (w, room))) i = Some (waits ''waiting for a free slot'' t)"
    using assms by (simp add: schedule_one_def map_of_gomap_put)
  ultimately show ?thesis by (simp add: waiting_def)
qed

theorem requested_changes_lost_witness:
  "let t = clear (review_text ''use tabs'') (new_task sample_hub sample_dag ''a'' ''do a'') in
   \<exists>t'. task_at (fst (schedule_one sample_hub ''a'' (sample_with (\<lambda>_. t), 0))) ''a'' = Some t' \<and>
     task_prompt sample_record t' \<noteq> task_prompt sample_record t"
proof -
  let ?t = "clear (review_text ''use tabs'') (new_task sample_hub sample_dag ''a'' ''do a'')"
  have a: "task_at (sample_with (\<lambda>_. ?t)) ''a'' = Some ?t" by (simp add: sample_with_def)
  have w: "waiting ?t" by (simp add: clear_def waiting_def)
  have r: "not_ready (sample_with (\<lambda>_. ?t)) ''a'' ?t = None"
  proof -
    have "first_wait (sample_with (\<lambda>_. ?t)) ''a'' = None" "outside_blockers (sample_with (\<lambda>_. ?t)) ''a'' = []" by code_simp+
    then show ?thesis by (simp add: not_ready_def)
  qed
  have "task_prompt sample_record (?t\<lparr>ti_Reason := []\<rparr>) \<noteq> task_prompt sample_record ?t" by code_simp
  then show ?thesis using requested_changes_lost [OF a w r, of 0 sample_hub sample_record] by (auto simp: Let_def)
qed

section \<open>Retrying under workflow stages\<close>

text \<open>
  A person may retry a skipped task of an autopilot that succeeded: the autopilot runs again, but its goal phase stays
  done, so under workflow stages no pass schedules the task or ends the autopilot.
\<close>

lemma retry_record:
  assumes "Retry h i w = Inr w'"
  shows "ar_GoalPhase (w_rec w') = ar_GoalPhase (w_rec w)" "ar_Workflow (w_rec w') = ar_Workflow (w_rec w)"
    "final_status (ar_Status (w_rec w)) \<Longrightarrow> is_running w'"
proof -
  obtain t w1 where w': "w' = reopen w1" and act: "retry_action h i w t = Inr w1"
    using assms unfolding Retry_def by (rule taskAction_cases) blast
  have "w_rec w1 = w_rec w"
    using act by (auto simp: retry_action_def clear_upstream_failed_def split: option.splits if_splits sum.splits)
  then show "ar_GoalPhase (w_rec w') = ar_GoalPhase (w_rec w)" "ar_Workflow (w_rec w') = ar_Workflow (w_rec w)"
    "final_status (ar_Status (w_rec w)) \<Longrightarrow> is_running w'"
    by (simp_all add: w' reopen_def on_rec_def is_running_def)
qed

theorem done_goal_retry_stuck:
  assumes "ar_Workflow (w_rec w) \<noteq> None" "ar_GoalPhase (w_rec w) = GoalPhaseDone" "ar_Status (w_rec w) = AutopilotSucceeded"
    "Retry h i w = Inr w'"
  shows "is_running w' \<and> (\<forall>h'. finish_pass h' w' = w')"
  using retry_record [OF assms(4)] assms(1-3)
  by (simp add: finish_pass_def goalFlow_def numeral_eq_Suc phase_step_def Let_def final_status_def)

text \<open>The autopilot of \<open>sample_skipped\<close> ended with its second task skipped.\<close>

definition sample_skipped :: work where
  "sample_skipped = (sample_with (setState TaskSuccess StageDone []))
     \<lparr>w_rec := sample_record\<lparr>ar_Workflow := graph_Workflow staged_graph, ar_GoalPhase := GoalPhaseDone, ar_Status := AutopilotSucceeded\<rparr>,
      w_tasks := [(''a'', setState TaskSuccess StageDone [] (new_task sample_hub sample_dag ''a'' ''do a'')),
                  (''b'', setState TaskSkipped StageDone [] (new_task sample_hub sample_dag ''b'' ''do b''))]\<rparr>"

theorem done_goal_retry_stuck_witness:
  "\<exists>w'. Retry sample_hub ''b'' sample_skipped = Inr w' \<and> is_running w' \<and> (\<forall>h'. finish_pass h' w' = w') \<and>
     (\<exists>t. task_at w' ''b'' = Some t \<and> waiting t)"
proof -
  have "(case Retry sample_hub ''b'' sample_skipped of Inl e \<Rightarrow> False
      | Inr w' \<Rightarrow> (case task_at w' ''b'' of None \<Rightarrow> False | Some t \<Rightarrow> waiting t))"
    "ar_Workflow (w_rec sample_skipped) \<noteq> None" "ar_GoalPhase (w_rec sample_skipped) = GoalPhaseDone"
    "ar_Status (w_rec sample_skipped) = AutopilotSucceeded"
    by code_simp+
  then show ?thesis using done_goal_retry_stuck [of sample_skipped sample_hub "''b''"] by (auto split: sum.splits option.splits)
qed

section \<open>What the board blocks\<close>

text \<open>
  A task whose condition reads a flag is not ready on the board, blocked by an empty list of nodes. The autopilot looks
  at the list only, so it starts the task.
\<close>

definition flagged_graph :: "string \<Rightarrow> graph" where
  "flagged_graph req = sample_graph\<lparr>graph_Nodes :=
     [Some (plain_node ''goal'' [] []), Some (plain_node ''a'' [] req), Some (plain_node ''b'' [] [])]\<rparr>"

definition flagged_work :: "string \<Rightarrow> work" where
  "flagged_work req = (sample_with id)\<lparr>w_graph := flagged_graph req, w_dag := buildDAG (\<lambda>_ _. False) (Some (flagged_graph req)) ''goal''\<rparr>"

definition board_ready :: "work \<Rightarrow> string list" where
  "board_ready w = map rn_ID (rd_Ready (ComputeReadiness (Some (w_graph w)) (Some (w_state w))))"

definition runs_started :: "work \<Rightarrow> string list" where
  "runs_started w = map (\<lambda>c. case c of StartRun req \<Rightarrow> sq_NodeID req | _ \<Rightarrow> []) (w_calls w)"

theorem flag_condition_not_waited_for:
  "let w = flagged_work ''budget > 3'' in
     ''a'' \<notin> set (board_ready w) \<and> outside_blockers w ''a'' = [] \<and> runs_started (schedule sample_hub w) = [''a'']"
  by code_simp

section \<open>A task cut out of the goal\<close>

text \<open>
  A task whose edges are cut while it waits is held, as a task that left the goal. The tasks behind it lose it as an
  upstream task in the same pass, so the first of them is started although the held task was never done.
\<close>

definition cut_graph :: graph where
  "cut_graph = sample_graph\<lparr>graph_Edges := [req_edge ''b'' ''goal'']\<rparr>"

definition cut_work :: work where
  "cut_work = (sample_with id)\<lparr>w_graph := cut_graph, w_dag := buildDAG (\<lambda>_ _. False) (Some cut_graph) ''goal''\<rparr>"

theorem cut_task_waved_through:
  "let w = schedule sample_hub (syncMembers sample_hub cut_work) in
     runs_started w = [''b''] \<and>
     map_option ti_Hold (task_at w ''a'') = Some HoldRemoved"
  by code_simp

section \<open>The goal's own workflow\<close>

text \<open>
  The stage gate takes the workflow of the goal a node belongs to. For a goal itself that is the project's, so an
  external session settles a goal whose own workflow asks for a review.
\<close>

theorem goal_override_not_gated:
  assumes "actorRole a g = Inr None" "graph_Workflow g = None" "GoalOf (Some g) (Some n) = []"
  shows "checkStatusGate a g (Some n) s = None"
  using assms by (simp add: checkStatusGate_def status_gate_def EffectiveWorkflow_def Staged_def Let_def)

text \<open>A goal that a person reviews, and a session without a role.\<close>

definition reviewed_goal :: node where
  "reviewed_goal = (plain_node ''g'' ''goal'' [])\<lparr>node_Workflow := graph_Workflow staged_graph\<rparr>"

definition reviewed_graph :: graph where
  "reviewed_graph = empty_graph\<lparr>graph_Version := 1, graph_Nodes := [Some reviewed_goal]\<rparr>"

definition outside_session :: actor where
  "outside_session = \<lparr>actor_ID = ''s'', actor_Name = ''s'', actor_Role = [], actor_Agent = AgentWorker, actor_AgentRole = [],
     actor_RunID = [], actor_RunNodeID = []\<rparr>"

theorem goal_override_not_gated_witness:
  "EffectiveWorkflow (Some reviewed_graph) ''g'' = graph_Workflow staged_graph \<and> Staged (graph_Workflow staged_graph) \<and>
   checkStatusGate outside_session reviewed_graph (Some reviewed_goal) StatusDone = None"
proof (intro conjI)
  show "checkStatusGate outside_session reviewed_graph (Some reviewed_goal) StatusDone = None"
    by (rule goal_override_not_gated) code_simp+
qed code_simp+

end
