(* ===== verification/Derive_Facts.thy ===== *)
theory Derive_Facts
  imports Run_Derive Merge_Facts
begin

text \<open>
  What a pass reads off a task's runs: every review that was not retried gives one vote, in the order the reviews ran and
  in the round they belong to.
\<close>

section \<open>Rounds\<close>

lemma roundOf_append: "i < length rs \<Longrightarrow> roundOf (rs @ [r]) i = roundOf rs i"
  by (simp add: roundOf_def)

lemma roundOf_mono: "i \<le> j \<Longrightarrow> roundOf rs i \<le> roundOf rs j"
proof -
  assume "i \<le> j"
  then have "take (Suc j) rs = take (Suc i) rs @ take (Suc j - Suc i) (drop (Suc i) rs)"
    by (metis Suc_le_mono le_add_diff_inverse take_add)
  then show ?thesis by (simp add: roundOf_def)
qed

text \<open>The review runs of a round, in order.\<close>

definition reviews_of :: "run_record list \<Rightarrow> int \<Rightarrow> run_record list" where
  "reviews_of rs k = map snd (filter (\<lambda>(i, r). run_Kind r = JobReview \<and> roundOf rs i = k) (enumerate 0 rs))"

lemma reviews_of_snoc:
  "reviews_of (rs @ [r]) k = reviews_of rs k @ (if run_Kind r = JobReview \<and> roundOf (rs @ [r]) (length rs) = k then [r] else [])"
proof -
  have "filter (\<lambda>(i, x). run_Kind x = JobReview \<and> roundOf (rs @ [r]) i = k) (enumerate 0 rs) =
      filter (\<lambda>(i, x). run_Kind x = JobReview \<and> roundOf rs i = k) (enumerate 0 rs)"
    by (rule filter_cong) (auto simp: in_set_enumerate_eq roundOf_append)
  then show ?thesis by (simp add: reviews_of_def enumerate_append_eq)
qed

lemma scan_try_exact:
  "ts_round (scan_try rs) = 1 + int (length (filter starts_round rs)) \<and> ts_maxRound (scan_try rs) = ts_round (scan_try rs) \<and>
   ts_reviews (scan_try rs) = reviews_of rs"
proof (induction rs rule: rev_induct)
  case Nil
  then show ?case by (simp add: scan_try_def reviews_of_def)
next
  case (snoc r rs)
  have step: "scan_try (rs @ [r]) = scan_run r (scan_try rs)" by (simp add: scan_try_def)
  have last: "roundOf (rs @ [r]) (length rs) = 1 + int (length (filter starts_round (rs @ [r])))" by (simp add: roundOf_def)
  consider "run_Kind r = JobReview" | "run_Kind r = JobRevise" | "run_Kind r \<noteq> JobReview" "run_Kind r \<noteq> JobRevise" by blast
  then show ?case
  proof cases
    case 1
    then have "\<not> starts_round r" by (simp add: starts_round_def)
    then show ?thesis using snoc 1 last by (auto simp: step scan_run_def Let_def reviews_of_snoc fun_eq_iff)
  next
    case 2
    then show ?thesis using snoc by (auto simp: step scan_run_def Let_def reviews_of_snoc fun_eq_iff starts_round_def)
  next
    case 3
    then show ?thesis using snoc by (auto simp: step scan_run_def Let_def reviews_of_snoc fun_eq_iff starts_round_def)
  qed
qed

lemma filter_upto_next:
  fixes f :: "'a \<Rightarrow> int"
  assumes "sorted (map f ys)" "a \<le> b + 1"
  shows "filter (\<lambda>y. a \<le> f y \<and> f y \<le> b + 1) ys = filter (\<lambda>y. a \<le> f y \<and> f y \<le> b) ys @ filter (\<lambda>y. f y = b + 1) ys"
  using assms(1)
proof (induction ys)
  case (Cons y ys)
  show ?case
  proof (cases "f y \<le> b")
    case True
    then show ?thesis using Cons by auto
  next
    case False
    then have "filter (\<lambda>y. a \<le> f y \<and> f y \<le> b) (y # ys) = []" using Cons.prems by (auto simp: filter_empty_conv)
    moreover have "filter (\<lambda>y. a \<le> f y \<and> f y \<le> b + 1) (y # ys) = filter (\<lambda>y. f y = b + 1) (y # ys)"
      using False Cons.prems assms(2) by (intro filter_cong) auto
    ultimately show ?thesis by (simp only: append_Nil)
  qed
qed simp

lemma concat_by_key:
  fixes f :: "'a \<Rightarrow> int"
  assumes "sorted (map f ys)"
  shows "concat (map (\<lambda>k. filter (\<lambda>y. f y = k) ys) [1..int n]) = filter (\<lambda>y. 1 \<le> f y \<and> f y \<le> int n) ys"
proof (induction n)
  case 0
  then show ?case by (auto simp: filter_empty_conv)
next
  case (Suc n)
  have "[1..int (Suc n)] = [1..int n] @ [int n + 1]" by (simp add: upto_rec2 add.commute)
  then show ?case using Suc filter_upto_next [OF assms, of 1 "int n"] by (simp add: add.commute)
qed

lemma concat_skip: "(\<And>k. k \<in> set ks \<Longrightarrow> \<not> P k \<Longrightarrow> f k = []) \<Longrightarrow> concat (map f (filter P ks)) = concat (map f ks)"
  by (induction ks) auto

text \<open>
  The votes of a task: one for each review run that no other run retried, in the order of the runs, each in the round
  it ran in, which is one more than the revisions started before it.
\<close>

theorem votes_in_order:
  "d_votes (derive obs stamp) =
     map (\<lambda>(i, r). vote_of (roundOf (obs_runs obs) i) r)
       (filter (\<lambda>(i, r). run_Kind r = JobReview \<and> retriedBy (obs_runs obs) (run_ID r) = []) (enumerate 0 (obs_runs obs)))"
proof (cases "obs_runs obs = []")
  case True
  then show ?thesis by (simp add: derive_def idle_def)
next
  case False
  let ?rs = "obs_runs obs" and ?f = "\<lambda>(i, r). roundOf (obs_runs obs) i"
  let ?ys = "filter (\<lambda>(i, r). run_Kind r = JobReview \<and> retriedBy ?rs (run_ID r) = []) (enumerate 0 ?rs)"
  let ?n = "Suc (length (filter starts_round ?rs))"
  note scan = scan_try_exact [of ?rs]
  have votes: "map (vote_of k) (standing_reviews ?rs (reviews_of ?rs k)) = map (\<lambda>(i, r). vote_of (roundOf ?rs i) r) (filter (\<lambda>y. ?f y = k) ?ys)" for k
    by (auto simp: standing_reviews_def reviews_of_def filter_map comp_def case_prod_beta intro!: map_cong arg_cong [where f = "filter _"] filter_cong)
  have sorted: "sorted (map ?f ?ys)"
  proof -
    have "sorted (map fst (enumerate 0 ?rs))" by (rule sorted_enumerate)
    then have "sorted_wrt (\<lambda>x y. fst x \<le> fst y) (enumerate 0 ?rs)" by (simp only: sorted_map)
    then have "sorted_wrt (\<lambda>x y. ?f x \<le> ?f y) (enumerate 0 ?rs)"
      by (rule sorted_wrt_mono_rel [rotated]) (auto intro: roundOf_mono)
    then show ?thesis by (simp only: sorted_map sorted_wrt_filter)
  qed
  have in_range: "1 \<le> ?f y \<and> ?f y \<le> int ?n" if "y \<in> set ?ys" for y
  proof -
    obtain i r where y: "y = (i, r)" by force
    have "length (filter starts_round (take (Suc i) ?rs)) \<le> length (filter starts_round ?rs)"
      by (metis append_take_drop_id filter_append le_add1 length_append)
    then show ?thesis by (simp add: y roundOf_def)
  qed
  have "d_votes (derive obs stamp) = concat (map (\<lambda>k. map (vote_of k) (standing_reviews ?rs (reviews_of ?rs k))) (review_rounds (scan_try ?rs)))"
    using False scan by (simp add: derive_def Let_def case_prod_beta)
  also have "\<dots> = concat (map (\<lambda>k. map (vote_of k) (standing_reviews ?rs (reviews_of ?rs k))) [1..int ?n])"
    unfolding review_rounds_def using scan by (subst concat_skip) (auto simp: standing_reviews_def)
  also have "\<dots> = map (\<lambda>(i, r). vote_of (roundOf ?rs i) r) (concat (map (\<lambda>k. filter (\<lambda>y. ?f y = k) ?ys) [1..int ?n]))"
    unfolding votes by (simp add: map_concat comp_def)
  also have "\<dots> = map (\<lambda>(i, r). vote_of (roundOf ?rs i) r) ?ys"
    unfolding concat_by_key [OF sorted] using in_range by (intro arg_cong [where f = "map _"] filter_True) blast
  finally show ?thesis .
qed

end
