(* ===== verification/Spec2Isabelle.thy ===== *)
theory Spec2Isabelle
  imports Dsl_Roundtrip Node_Types Roles Workflow Acceptance Effects Journal Readiness Cycles
    Validate Progress Globs Node_File Permission Store_Journal Workspace_Defs Status_Writes
    Edit_Properties Dag Autopilot_Properties Autopilot_Findings Derive_Facts
begin

text \<open>
  A model of Nodevas: its engine (\<^verbatim>\<open>internal/engine\<close>, with the condition language in
  \<^verbatim>\<open>internal/engine/dsl\<close>), the identities it serves (\<^verbatim>\<open>internal/identity\<close>) and the part of its
  store (\<^verbatim>\<open>internal/store\<close>) that decides who may change what, edits the graph and keeps the run state
  on disk, the autopilot that works a goal's tasks (\<^verbatim>\<open>internal/autopilot\<close>) and the rules on agents, routing and
  changed files it shares with the runs (\<^verbatim>\<open>internal/runs\<close>, \<^verbatim>\<open>internal/runnerwire\<close>).

  \<^bold>\<open>The program.\<close> A project is a directory: \<^verbatim>\<open>graph.yaml\<close> lists nodes, each with a kind, a
  condition (\<^verbatim>\<open>requires\<close>) and effects; \<^verbatim>\<open>nodes/<id>.md\<close> is a node's document; an append-only
  \<^verbatim>\<open>journal.ndjson\<close> records status changes, with a checkpoint once it grows; \<^verbatim>\<open>claims.json\<close> holds
  the leases of agents. Statuses are never stored per node: they are the replay of the journal, plus
  what is derived from it. From the graph and the run state the engine computes the queue of ready
  nodes. People and agents go through the store, which checks permissions, takes the claim, writes
  one journal event and answers with the new state.

  \<^bold>\<open>How the theories follow it.\<close>

  \<^item> Ground. \<open>Prelude\<close> holds Go's map as an ordered association list (\<open>gomap\<close>), the theorem
    collections \<open>go_eval\<close> and \<open>engine_defs\<close> and facts on lists; \<open>Go_Strings\<close>, \<open>Go_Float\<close> and \<open>Go_Time\<close>
    the functions of Go's standard library the engine calls. A Go string is a list of bytes, an
    \<^verbatim>\<open>int\<close> that counts list elements a natural number, a \<^verbatim>\<open>float64\<close> the rational it denotes.
  \<^item> Condition language. \<open>Dsl_Ast\<close>, \<open>Dsl_Eval\<close> and \<open>Dsl_Parser\<close> are \<^verbatim>\<open>ast.go\<close>, \<^verbatim>\<open>eval.go\<close>, \<^verbatim>\<open>lexer.go\<close>
    and \<^verbatim>\<open>parser.go\<close>. \<open>Dsl_Parser_Facts\<close> shows that the parser always answers; its fuel is
    four for each token and four more, and is never used up.
    \<open>Dsl_Roundtrip\<close> shows that printing and parsing are inverse on what the printer can write.
  \<^item> Graph document. \<open>Graph_Model\<close> is \<^verbatim>\<open>graph.go\<close>: the records of the YAML document and its
    queries. \<open>Sparse_Table\<close> states the contract of a table that a project overrides, on which
    \<open>Node_Types\<close> (\<^verbatim>\<open>nodetypes.go\<close>) and \<open>Roles\<close> (\<^verbatim>\<open>roles.go\<close>, \<^verbatim>\<open>actor.go\<close>) rest. \<open>Workflow\<close>,
    \<open>Acceptance\<close>, \<open>Effects\<close>, \<open>Globs\<close> and \<open>Node_File\<close> are the files of those names.
  \<^item> Run state. \<open>Run_State\<close> is \<^verbatim>\<open>state.go\<close>; \<open>Journal\<close> proves that a checkpoint may replace the
    prefix it covers and that the node map is the projection of the history. \<open>Store_Journal\<close> is the
    journal on disk, with a disk for every point at which a compaction can be cut off.
  \<^item> Queue. \<open>Readiness\<close> is \<^verbatim>\<open>ready.go\<close> with \<^verbatim>\<open>ComputeStatuses\<close>.
  \<^item> Validation. \<open>Cycles\<close> is the depth-first search, \<open>Issues\<close> the findings, \<open>Validate_UI\<close> and
    \<open>Validate\<close> the checks in the order of the code. \<open>Progress\<close> puts validation, readiness and
    run state together: work on a valid graph neither gets stuck nor goes on forever.
  \<^item> Store. \<open>Permission\<close> is \<^verbatim>\<open>permission.go\<close> and \<^verbatim>\<open>roleperm.go\<close>; \<open>Workspace_Defs\<close> is
    \<^verbatim>\<open>workspacedefs.go\<close>; \<open>Claims\<close> is \<^verbatim>\<open>claims.go\<close> with \<^verbatim>\<open>setStatusLocked\<close>. \<open>Claims_Facts\<close> states what
    a lease promises along a sequence of operations, \<open>Status_Writes\<close> that an acknowledged write is
    what the next load shows.

  \<^item> Editing. \<open>Reach\<close> states the contract of a search with a queue and marks; the refusal of
    dependency cycles and the collection of a goal's tasks are two instances of it. \<open>Graph_Edits\<close> is
    what the commands share: conditions edited through their text, the gates that own a wire, the wires
    only a condition names (\<^verbatim>\<open>graph_requires_wires.go\<close>). \<open>Storage_Check\<close> is \<^verbatim>\<open>graph_validate.go\<close>, the
    check before every write with what it rewrites. \<open>Graph_Ops\<close> is \<^verbatim>\<open>graph_ops.go\<close> and
    \<^verbatim>\<open>graph_ops_batch.go\<close>, one definition per command, then the call, then the batch; \<open>Node_Delete\<close> is the
    deletion of \<^verbatim>\<open>graph_crud.go\<close>. \<open>Graph_Ops_Facts\<close> and \<open>Storage_Facts\<close> show that no sequence of
    accepted commands works around an access or closes a dependency cycle, \<open>Storage_Fixpoint\<close> what a
    stored graph is, \<open>Edit_Properties\<close> that a batch is its calls one after another; it also holds the
    boards on which the properties are exercised and the inputs on which the commands go wrong.
  \<^item> Autopilot. \<open>Dag\<close> is \<^verbatim>\<open>dag.go\<close>: who belongs to a goal, in which order its tasks are worked, which
    of them wait for themselves. \<open>Run_Types\<close> holds the records of \<^verbatim>\<open>runnerwire\<close>. \<open>Agent_Rules\<close> is
    \<^verbatim>\<open>policy.go\<close>, \<^verbatim>\<open>advisor.go\<close> and the rules of \<^verbatim>\<open>runs/routing.go\<close>; \<open>Merge_Guard\<close> is \<^verbatim>\<open>runs/guard.go\<close>,
    \<^verbatim>\<open>runs/sensitive.go\<close> and \<^verbatim>\<open>autopilot/sensitive.go\<close>; \<open>Run_Derive\<close> is \<^verbatim>\<open>derive.go\<close>. One pass of
    \<^verbatim>\<open>orchestrator.go\<close> over the state \<open>work\<close> is \<open>Orchestrator\<close> (membership, failures, scheduling, dispatch) and
    \<open>Orchestrator_Act\<close> (reading the runs, the merge, the end), composed by \<open>reconcile\<close> in \<open>Goal_Flow\<close>, which also is
    \<^verbatim>\<open>goalflow.go\<close>; \<open>Autopilot_Actions\<close> holds what people may do. The pass asks a \<open>hub\<close>, a record of functions that
    answer as the board, the runners, the runs and the advisor do at that moment, and logs what it asks for in
    \<open>w_calls\<close>; nothing is assumed of the answers. \<open>Autopilot_Reach\<close> defines every life of an autopilot (\<open>lives\<close>): created,
    then passes and actions in any order, each with another hub, board and clock.
    \<open>Orchestrator_Facts\<close> states what each operation does to a task as relations on tasks, an instance of the locale
    \<open>task_relation\<close>; \<open>Autopilot_Pass\<close>, \<open>Autopilot_Steps\<close> and \<open>Autopilot_End\<close> lift that to a pass, \<open>Merge_Facts\<close>,
    \<open>Agent_Facts\<close> and \<open>Derive_Facts\<close> show what the rules decide. \<open>Autopilot_Samples\<close> holds the goal on which
    \<open>Autopilot_Properties\<close> exercises the properties and \<open>Autopilot_Findings\<close> shows where the code goes wrong.

  \<^bold>\<open>Conventions.\<close> A struct is a record with the code's fields, an enumeration or an error type a
  datatype; a nil pointer is \<open>None\<close>; a Go error is the left side of a sum, or an option where there
  is no other result. A loop over a list is a recursive function or a fold. Operations that change a
  record in place return it. Every operation of the store runs under its lock and is one function
  from store to store; the clock readings and the outcomes of file operations during one call are
  its arguments, so that a failing write is a branch. Texts of error messages are constructors with
  their arguments.

  \<^bold>\<open>Parameters.\<close> The YAML and JSON libraries, the digest and the clock are arguments of the
  definitions that use them. What the theorems assume of them is in named hypotheses: the line
  encoded for an event decodes to that event and holds no line break (\<open>ev_codec_ok\<close>), a checkpoint
  decodes to what was encoded, equal digests mean equal prefixes. \<open>ip\<close> is the table of printable code
  points and \<open>folds\<close> that of letters equal up to case, of which nothing is assumed. The hash of a task's content is an
  argument, of which it is assumed only that it is never empty (\<open>hash_ok\<close>), as a SHA-256 in hex is not. Each such
  theorem has an instance with concrete codecs beside it.

  \<^bold>\<open>Bounds.\<close> Fuel stands for recursion depth in the parser (above) and in the cycle search (the
  number of names in the dependency map, \<open>find_cycles_total\<close>); in both the bound is proved never to be met. The
  settling loop of \<open>ComputeStatuses\<close> runs one round more than there are automatic nodes and is proved to
  have reached its fixed point by then. The loop of \<open>topoOrder\<close> places one task a round, so its fuel is the
  number of tasks, and it is proved to end with an empty queue. The spread of failures takes at least one task out
  of waiting in every round but the last, so one round more than there are tasks is enough (\<open>propagate_result\<close>). The
  chain of fallback runs is followed for as many steps as there are runs; beyond that it goes in a circle, which is the
  code's endless loop and the result \<open>None\<close> here. The four rounds of \<open>goalFlow\<close> are the code's own. Lengths and limits are
  the code's constants.

  \<^bold>\<open>Not modelled.\<close> Reading and writing of files, locking and the queue of goroutines in front of a
  batch (what is modelled is the batch), the trash, git history, HTTP, the database, websocket
  sessions, documents and their conversion, and the processes that run agents: they are effects
  around the decisions modelled here. Of the autopilot, that is its SQL store and the rows on QA rounds, the loop of
  goroutines that wakes a pass, and the fields of a start request that only the runs package reads (references, the
  node's type, the acceptance lock); of the runs, the dispatcher, the staged pipeline and the runner. \<^verbatim>\<open>clone.go\<close> is a deep copy, which is the identity on values.
\<close>

end
